(* ===== verification/Prelude.thy ===== *)
theory Prelude
  imports Main "HOL-Library.AList" "HOL-Library.Multiset" "HOL-Library.Product_Lexorder"
begin

text \<open>
  Shared vocabulary of the development.

  \<^item> \<open>hashmap\<close>: Rust's \<open>HashMap<K, V>\<close> as an association list with distinct keys. The list
    order is the iteration order, which the Rust type leaves unspecified, so a definition
    that iterates is written over the list and the theorems that matter are stated up to
    \<open>hm_eq\<close> (same lookups). The interface the components rely on is the locale
    \<open>hash_map\<close>, interpreted here on the operations the models call.
  \<^item> \<open>machine\<close> and \<open>machine_sim\<close>: machines driven by a log of entries, with the generic
    induction that lifts a one-step invariant or a one-step bisimulation to traces.
  \<^item> stable sorting by a key that is injective on the list: the result depends on the
    multiset of elements only.
\<close>

named_theorems hm_simps \<open>lookup laws of the hash map model\<close>
named_theorems hm_wfs \<open>well-formedness (distinct keys) of the hash map model\<close>

section \<open>Hash maps\<close>

type_synonym ('k, 'v) hashmap = "('k \<times> 'v) list"

definition hm_empty :: "('k, 'v) hashmap" where
  "hm_empty = []"

definition hm_get :: "('k, 'v) hashmap \<Rightarrow> 'k \<Rightarrow> 'v option" where
  "hm_get m k = map_of m k"

definition hm_contains :: "('k, 'v) hashmap \<Rightarrow> 'k \<Rightarrow> bool" where
  "hm_contains m k = (hm_get m k \<noteq> None)"

definition hm_insert :: "('k, 'v) hashmap \<Rightarrow> 'k \<Rightarrow> 'v \<Rightarrow> ('k, 'v) hashmap" where
  "hm_insert m k v = AList.update k v m"

definition hm_remove :: "('k, 'v) hashmap \<Rightarrow> 'k \<Rightarrow> ('k, 'v) hashmap" where
  "hm_remove m k = AList.delete k m"

definition hm_retain :: "('v \<Rightarrow> bool) \<Rightarrow> ('k, 'v) hashmap \<Rightarrow> ('k, 'v) hashmap" where
  "hm_retain P m = filter (\<lambda>(k, v). P v) m"

definition hm_values :: "('k, 'v) hashmap \<Rightarrow> 'v list" where
  "hm_values m = map snd m"

definition hm_keys :: "('k, 'v) hashmap \<Rightarrow> 'k list" where
  "hm_keys m = map fst m"

text \<open>The map invariant, and equality of maps as Rust's \<open>PartialEq\<close> for \<open>HashMap\<close> sees it.\<close>

definition hm_wf :: "('k, 'v) hashmap \<Rightarrow> bool" where
  "hm_wf m = distinct (map fst m)"

definition hm_eq :: "('k, 'v) hashmap \<Rightarrow> ('k, 'v) hashmap \<Rightarrow> bool" where
  "hm_eq m m' \<longleftrightarrow> (\<forall>k. hm_get m k = hm_get m' k)"

lemma hm_get_empty [simp, hm_simps]: "hm_get hm_empty k = None"
  by (simp add: hm_get_def hm_empty_def)

lemma hm_get_insert [simp, hm_simps]:
  "hm_get (hm_insert m k v) k' = (if k' = k then Some v else hm_get m k')"
  by (simp add: hm_get_def hm_insert_def update_conv)

lemma hm_get_remove [simp, hm_simps]:
  "hm_get (hm_remove m k) k' = (if k' = k then None else hm_get m k')"
  by (simp add: hm_get_def hm_remove_def delete_conv)

lemma hm_wf_empty [simp, hm_wfs]: "hm_wf hm_empty"
  by (simp add: hm_wf_def hm_empty_def)

lemma hm_wf_insert [simp, hm_wfs]: "hm_wf m \<Longrightarrow> hm_wf (hm_insert m k v)"
  by (simp add: hm_wf_def hm_insert_def distinct_update)

lemma hm_wf_remove [simp, hm_wfs]: "hm_wf m \<Longrightarrow> hm_wf (hm_remove m k)"
  by (simp add: hm_wf_def hm_remove_def distinct_delete)

lemma hm_wf_retain [simp, hm_wfs]: "hm_wf m \<Longrightarrow> hm_wf (hm_retain P m)"
  by (simp add: hm_wf_def hm_retain_def distinct_map_filter)

lemma hm_get_retain [hm_simps]:
  assumes "hm_wf m"
  shows "hm_get (hm_retain P m) k =
    (case hm_get m k of None \<Rightarrow> None | Some v \<Rightarrow> if P v then Some v else None)"
  using assms unfolding hm_wf_def hm_get_def hm_retain_def
proof (induction m)
  case Nil
  then show ?case by simp
next
  case (Cons kv m)
  obtain k0 v0 where kv: "kv = (k0, v0)" by (cases kv)
  with Cons.prems have "map_of m k0 = None"
    by (simp add: map_of_eq_None_iff)
  with Cons kv show ?case by (auto split: option.splits)
qed

lemma hm_get_in_set: "hm_wf m \<Longrightarrow> hm_get m k = Some v \<longleftrightarrow> (k, v) \<in> set m"
  by (simp add: hm_wf_def hm_get_def)

lemma hm_keys_iff: "k \<in> set (hm_keys m) \<longleftrightarrow> hm_get m k \<noteq> None"
  by (simp add: hm_keys_def hm_get_def map_of_eq_None_iff)

lemma hm_values_iff: "hm_wf m \<Longrightarrow> v \<in> set (hm_values m) \<longleftrightarrow> (\<exists>k. hm_get m k = Some v)"
  by (auto simp: hm_values_def hm_get_in_set image_iff) force

lemma hm_eq_refl [simp]: "hm_eq m m"
  by (simp add: hm_eq_def)

lemma hm_eq_sym: "hm_eq m m' \<Longrightarrow> hm_eq m' m"
  by (simp add: hm_eq_def)

lemma hm_eq_trans: "hm_eq m m' \<Longrightarrow> hm_eq m' m'' \<Longrightarrow> hm_eq m m''"
  by (simp add: hm_eq_def)

lemma hm_eq_get: "hm_eq m m' \<Longrightarrow> hm_get m k = hm_get m' k"
  by (simp add: hm_eq_def)

lemma hm_eq_contains: "hm_eq m m' \<Longrightarrow> hm_contains m k = hm_contains m' k"
  by (simp add: hm_eq_def hm_contains_def)

lemma hm_eq_insert: "hm_eq m m' \<Longrightarrow> hm_eq (hm_insert m k v) (hm_insert m' k v)"
  by (simp add: hm_eq_def)

lemma hm_eq_remove: "hm_eq m m' \<Longrightarrow> hm_eq (hm_remove m k) (hm_remove m' k)"
  by (simp add: hm_eq_def)

lemma hm_eq_retain:
  "hm_eq m m' \<Longrightarrow> hm_wf m \<Longrightarrow> hm_wf m' \<Longrightarrow> hm_eq (hm_retain P m) (hm_retain P m')"
  by (simp add: hm_eq_def hm_get_retain)

lemmas hm_eq_intros = hm_eq_insert hm_eq_remove hm_eq_retain

text \<open>Two well-formed maps with the same lookups hold the same entries, in some order.\<close>

lemma hm_eq_mset:
  assumes "hm_eq m m'" "hm_wf m" "hm_wf m'"
  shows "mset m = mset m'"
proof (rule set_eq_iff_mset_eq_distinct [THEN iffD1])
  show "distinct m" "distinct m'"
    using assms(2,3) by (simp_all add: hm_wf_def distinct_map)
  show "set m = set m'"
  proof (rule set_eqI, clarify)
    fix k v
    have "(k, v) \<in> set m \<longleftrightarrow> hm_get m k = Some v" by (simp add: hm_get_in_set assms(2))
    also have "\<dots> \<longleftrightarrow> hm_get m' k = Some v" by (simp add: hm_eq_get [OF assms(1)])
    also have "\<dots> \<longleftrightarrow> (k, v) \<in> set m'" by (simp add: hm_get_in_set assms(3))
    finally show "(k, v) \<in> set m \<longleftrightarrow> (k, v) \<in> set m'" .
  qed
qed

lemma hm_eq_rev:
  assumes "hm_wf m"
  shows "hm_eq m (rev m)"
proof -
  have "distinct (map fst (rev m))" using assms by (simp add: hm_wf_def flip: rev_map)
  then have "map_of m = map_of (rev m)" using assms by (subst map_of_inject_set) (simp_all add: hm_wf_def)
  then show ?thesis by (simp add: hm_eq_def hm_get_def)
qed

lemma hm_mset_remove:
  assumes "hm_wf m" "hm_get m k = Some v"
  shows "mset m = add_mset (k, v) (mset (hm_remove m k))"
  using assms unfolding hm_wf_def hm_get_def hm_remove_def
proof (induction m)
  case Nil
  then show ?case by simp
next
  case (Cons kv m)
  then show ?case
    by (cases kv) (auto simp: delete_id split: if_splits)
qed

lemma hm_remove_absent: "hm_get m k = None \<Longrightarrow> hm_remove m k = m"
  by (simp add: hm_get_def hm_remove_def delete_id map_of_eq_None_iff)

lemma hm_insert_same: "hm_get m k = Some v \<Longrightarrow> hm_insert m k v = m"
  by (simp add: hm_get_def hm_insert_def update_triv)

lemma hm_insert_twice [simp]: "hm_insert (hm_insert m k v) k w = hm_insert m k w"
  by (simp add: hm_insert_def update_last)

lemma hm_remove_insert_same [simp]: "hm_remove (hm_insert m k v) k = hm_remove m k"
  by (simp add: hm_insert_def hm_remove_def delete_update_same)

lemma hm_mset_insert:
  assumes "hm_wf m"
  shows "mset (hm_insert m k v) = add_mset (k, v) (mset (hm_remove m k))"
  using assms unfolding hm_wf_def hm_insert_def hm_remove_def
  by (induction m) (auto simp: delete_id)

text \<open>Sums over the values.\<close>

definition hm_sum :: "('v \<Rightarrow> nat) \<Rightarrow> ('k, 'v) hashmap \<Rightarrow> nat" where
  "hm_sum f m = sum_list (map f (hm_values m))"

lemma hm_sum_empty [simp]: "hm_sum f hm_empty = 0"
  by (simp add: hm_sum_def hm_values_def hm_empty_def)

lemma hm_sum_mset: "hm_sum f m = (\<Sum>(k, v)\<in>#mset m. f v)"
  by (induction m) (auto simp: hm_sum_def hm_values_def)

lemma hm_sum_remove: "hm_wf m \<Longrightarrow> hm_get m k = Some v \<Longrightarrow> hm_sum f m = f v + hm_sum f (hm_remove m k)"
  by (simp add: hm_sum_mset hm_mset_remove)

lemma hm_sum_insert: "hm_wf m \<Longrightarrow> hm_sum f (hm_insert m k v) = f v + hm_sum f (hm_remove m k)"
  by (simp add: hm_sum_mset hm_mset_insert)

lemma hm_sum_remove_le: "hm_wf m \<Longrightarrow> hm_sum f (hm_remove m k) \<le> hm_sum f m"
  by (cases "hm_get m k") (simp_all add: hm_remove_absent hm_sum_remove [of m k _ f])

lemma hm_sum_eq: "hm_eq m m' \<Longrightarrow> hm_wf m \<Longrightarrow> hm_wf m' \<Longrightarrow> hm_sum f m = hm_sum f m'"
  by (simp add: hm_sum_mset hm_eq_mset)

text \<open>The interface the components rely on.\<close>

locale hash_map =
  fixes get :: "'m \<Rightarrow> 'k \<Rightarrow> 'v option"
    and ins :: "'m \<Rightarrow> 'k \<Rightarrow> 'v \<Rightarrow> 'm"
    and rem :: "'m \<Rightarrow> 'k \<Rightarrow> 'm"
    and wf :: "'m \<Rightarrow> bool"
  assumes get_ins: "get (ins m k v) k' = (if k' = k then Some v else get m k')"
    and get_rem: "get (rem m k) k' = (if k' = k then None else get m k')"
    and wf_ins: "wf m \<Longrightarrow> wf (ins m k v)"
    and wf_rem: "wf m \<Longrightarrow> wf (rem m k)"
begin

text \<open>In-place mutation through \<open>get_mut\<close>: rewrite the value under a key that is present.\<close>

lemma get_modify:
  assumes "get m k = Some v"
  shows "get (ins m k (f v)) k' = (if k' = k then Some (f v) else get m k')"
  using assms by (simp add: get_ins)

lemma ins_same: "get m k = Some v \<Longrightarrow> get (ins m k v) = get m"
  by (auto simp: get_ins fun_eq_iff)

lemma rem_ins: "get (rem (ins m k v) k) = get (rem m k)"
  by (auto simp: get_ins get_rem fun_eq_iff)

lemma ins_commute: "k \<noteq> k' \<Longrightarrow> get (ins (ins m k v) k' v') = get (ins (ins m k' v') k v)"
  by (auto simp: get_ins fun_eq_iff)

end

interpretation hm: hash_map hm_get hm_insert hm_remove hm_wf
  by unfold_locales simp_all

section \<open>Machines driven by a log\<close>

text \<open>
  Running a step function over a log: each entry yields a new state and an output, and the
  outputs are collected in order.
\<close>

fun run_log :: "('s \<Rightarrow> 'e \<Rightarrow> 's \<times> 'o) \<Rightarrow> 's \<Rightarrow> 'e list \<Rightarrow> 's \<times> 'o list" where
  "run_log step s [] = (s, [])"
| "run_log step s (e # es) =
     (let (s', r) = step s e; (s'', rs) = run_log step s' es in (s'', r # rs))"

lemma run_log_append:
  "run_log step s (es @ fs) =
     (let (s', rs) = run_log step s es; (s'', rs') = run_log step s' fs in (s'', rs @ rs'))"
  by (induction es arbitrary: s) (auto simp: Let_def split: prod.splits)

lemma fst_run_log_Cons: "fst (run_log step s (e # es)) = fst (run_log step (fst (step s e)) es)"
  by (simp add: Let_def split: prod.splits)

lemma snd_run_log_Cons:
  "snd (run_log step s (e # es)) = snd (step s e) # snd (run_log step (fst (step s e)) es)"
  by (simp add: Let_def split: prod.splits)

lemma run_log_length: "length (snd (run_log step s es)) = length es"
  by (induction es arbitrary: s) (simp_all add: snd_run_log_Cons del: run_log.simps(2))

lemma fst_run_log_snoc: "fst (run_log step s (es @ [e])) = fst (step (fst (run_log step s es)) e)"
  by (simp add: run_log_append Let_def split: prod.splits)

text \<open>
  Traces of a step relation: the log consumed, the outputs given, the states at both ends.
  A relation rather than a function, since one step may leave more than one concrete state
  (the layout of a hash map, say).
\<close>

inductive trace :: "('s \<Rightarrow> 'e \<Rightarrow> 'o \<Rightarrow> 's \<Rightarrow> bool) \<Rightarrow> 's \<Rightarrow> 'e list \<Rightarrow> 'o list \<Rightarrow> 's \<Rightarrow> bool"
  for step where
  trace_nil: "trace step s [] [] s"
| trace_cons: "step s e r s' \<Longrightarrow> trace step s' es rs s'' \<Longrightarrow> trace step s (e # es) (r # rs) s''"

inductive_cases trace_nilE: "trace step s [] rs s'"
inductive_cases trace_consE: "trace step s (e # es) rs s'"

lemma trace_append:
  "trace step s es rs s' \<Longrightarrow> trace step s' fs qs s'' \<Longrightarrow> trace step s (es @ fs) (rs @ qs) s''"
  by (induction rule: trace.induct) (auto intro: trace.intros)

lemma trace_length: "trace step s es rs s' \<Longrightarrow> length rs = length es"
  by (induction rule: trace.induct) auto

lemma trace_mono:
  assumes "trace step s es rs s'" and "\<And>s e r s'. step s e r s' \<Longrightarrow> step' s e r s'"
  shows "trace step' s es rs s'"
  using assms(1) by (induction rule: trace.induct) (auto intro: trace_nil trace_cons assms(2))

text \<open>A trace whose entries all pass a test is a trace of the relation restricted to the test.\<close>

lemma trace_restrict:
  assumes "trace step s es rs s'" "\<And>e. e \<in> set es \<Longrightarrow> ok e"
  shows "trace (\<lambda>s e r s'. step s e r s' \<and> ok e) s es rs s'"
  using assms by (induction rule: trace.induct) (auto intro: trace_nil trace_cons)

text \<open>A step function run step by step, each step within the relation, is a trace.\<close>

lemma run_log_trace:
  assumes "\<And>s e. P s \<Longrightarrow> Q e \<Longrightarrow> step s e (snd (f s e)) (fst (f s e)) \<and> P (fst (f s e))"
    and "P s" "\<And>e. e \<in> set es \<Longrightarrow> Q e"
  shows "trace step s es (snd (run_log f s es)) (fst (run_log f s es))"
  using assms(2,3)
proof (induction es arbitrary: s)
  case Nil
  then show ?case by (simp add: trace_nil)
next
  case (Cons e es)
  then have st: "step s e (snd (f s e)) (fst (f s e))" "P (fst (f s e))" using assms(1) by auto
  have "trace step (fst (f s e)) es (snd (run_log f (fst (f s e)) es)) (fst (run_log f (fst (f s e)) es))"
    using Cons.prems st(2) by (intro Cons.IH) auto
  with st(1) show ?case
    by (simp add: fst_run_log_Cons snd_run_log_Cons trace_cons del: run_log.simps)
qed

text \<open>Invariants of a step relation hold along every trace.\<close>

locale machine =
  fixes step :: "'s \<Rightarrow> 'e \<Rightarrow> 'o \<Rightarrow> 's \<Rightarrow> bool"
    and inv :: "'s \<Rightarrow> bool"
  assumes step_inv: "step s e r s' \<Longrightarrow> inv s \<Longrightarrow> inv s'"
begin

lemma trace_inv: "trace step s es rs s' \<Longrightarrow> inv s \<Longrightarrow> inv s'"
  by (induction rule: trace.induct) (auto intro: step_inv)

text \<open>What a single step guarantees from a good state, every step of a trace guarantees.\<close>

lemma trace_each:
  assumes "trace step s es rs s'" "inv s"
    and "\<And>s e r s'. inv s \<Longrightarrow> step s e r s' \<Longrightarrow> P s \<Longrightarrow> P s'" "P s"
  shows "P s'"
  using assms(1,2,4)
proof (induction rule: trace.induct)
  case (trace_nil s)
  then show ?case by simp
next
  case (trace_cons s e r s' es rs s'')
  then show ?case using step_inv assms(3) by blast
qed

end

text \<open>
  Bisimulation: related states that both satisfy the invariant answer an entry with the same
  output and stay related, so two traces of one log agree on every output.
\<close>

locale machine_sim = machine step inv
  for step :: "'s \<Rightarrow> 'e \<Rightarrow> 'o \<Rightarrow> 's \<Rightarrow> bool" and inv :: "'s \<Rightarrow> bool" +
  fixes rel :: "'s \<Rightarrow> 's \<Rightarrow> bool"
  assumes sim: "inv s \<Longrightarrow> inv t \<Longrightarrow> rel s t \<Longrightarrow> step s e r s' \<Longrightarrow> step t e r' t' \<Longrightarrow> r = r' \<and> rel s' t'"
begin

lemma trace_sim:
  assumes "trace step s es rs s'" "trace step t es rs' t'" "inv s" "inv t" "rel s t"
  shows "rs = rs' \<and> rel s' t'"
  using assms
proof (induction arbitrary: t rs' rule: trace.induct)
  case (trace_nil s)
  then show ?case by (auto elim: trace_nilE)
next
  case (trace_cons s e r s1 es rs s')
  from trace_cons.prems(1) obtain r' t1 rs1 where
    t1: "step t e r' t1" "trace step t1 es rs1 t'" "rs' = r' # rs1"
    by (auto elim: trace_consE)
  have "r = r' \<and> rel s1 t1"
    using sim [OF trace_cons.prems(2,3,4) trace_cons.hyps(1) t1(1)] .
  moreover have "inv s1" "inv t1"
    using step_inv trace_cons.hyps(1) t1(1) trace_cons.prems by auto
  ultimately show ?case using trace_cons.IH t1 by blast
qed

end

section \<open>Sorting by an injective key\<close>

lemma sort_key_mset_cong:
  assumes m: "mset xs = mset ys" and inj: "inj_on f (set xs)"
  shows "sort_key f xs = sort_key f ys"
proof -
  have set_eq: "set ys = set xs" using m by (metis set_mset_mset)
  have "map f (sort_key f xs) = map f (sort_key f ys)"
  proof (rule properties_for_sort [symmetric, THEN trans])
    show "mset (map f (sort_key f xs)) = mset (map f (sort_key f ys))"
      by (simp add: m)
    show "sorted (map f (sort_key f xs))" by simp
    show "sort (map f (sort_key f ys)) = map f (sort_key f ys)"
      by (rule properties_for_sort) simp_all
  qed
  then show ?thesis
    using inj by (intro map_inj_on [where f = f]) (simp_all add: set_eq)
qed

lemma length_filter_neq: "length (filter (\<lambda>x. x \<noteq> b) xs) < length xs \<longleftrightarrow> b \<in> set xs"
  by (induction xs) (auto simp: le_imp_less_Suc)

lemma sum_list_mset_cong: "mset xs = mset ys \<Longrightarrow> sum_list (map f xs) = sum_list (map f ys)"
  for f :: "'a \<Rightarrow> nat"
  by (metis mset_map sum_mset_sum_list)

end
