(* ===== verification/LedgerId.thy ===== *)
theory LedgerId
  imports Prelude
begin

text \<open>
  Ledger identifiers (\<open>fluree-db-core/src/ledger_id.rs\<close>): splitting, formatting and
  normalising \<open>name[:branch]\<close>, time-travel suffixes and branch-name validation. A Rust
  \<open>&str\<close> is the list of its UTF-8 bytes; the error messages are the constructors of
  \<open>LedgerIdParseError\<close>, one per message text.
\<close>

section \<open>The string operations the code uses\<close>

text \<open>\<open>str::splitn(2, c)\<close>: the part before the first \<open>c\<close>, and the part after it if there is one.\<close>

fun splitn2 :: "char \<Rightarrow> string \<Rightarrow> string \<times> string option" where
  "splitn2 c [] = ([], None)"
| "splitn2 c (x # xs) =
     (if x = c then ([], Some xs) else (let (a, b) = splitn2 c xs in (x # a, b)))"

text \<open>\<open>str::strip_prefix\<close>.\<close>

fun strip_prefix :: "string \<Rightarrow> string \<Rightarrow> string option" where
  "strip_prefix [] s = Some s"
| "strip_prefix (p # ps) [] = None"
| "strip_prefix (p # ps) (x # xs) = (if p = x then strip_prefix ps xs else None)"

text \<open>\<open>str::contains\<close> for a pattern string.\<close>

fun contains_str :: "string \<Rightarrow> string \<Rightarrow> bool" where
  "contains_str p [] = (strip_prefix p [] \<noteq> None)"
| "contains_str p (x # xs) = (strip_prefix p (x # xs) \<noteq> None \<or> contains_str p xs)"

text \<open>\<open>str::parse::<i64>\<close>: an optional sign, at least one digit, and a value in range.\<close>

definition digit_of :: "char \<Rightarrow> int option" where
  "digit_of c = (let n = (of_char c :: nat) in if 48 \<le> n \<and> n \<le> 57 then Some (int n - 48) else None)"

fun parse_digits :: "int \<Rightarrow> string \<Rightarrow> int option" where
  "parse_digits acc [] = Some acc"
| "parse_digits acc (c # cs) =
     (case digit_of c of None \<Rightarrow> None | Some d \<Rightarrow> parse_digits (10 * acc + d) cs)"

definition parse_i64 :: "string \<Rightarrow> int option" where
  "parse_i64 s =
     (let (neg, ds) = (case s of
          [] \<Rightarrow> (False, [])
        | c # cs \<Rightarrow> if c = CHR ''-'' then (True, cs) else if c = CHR ''+'' then (False, cs) else (False, s))
      in if ds = [] then None
         else case parse_digits 0 ds of
             None \<Rightarrow> None
           | Some n \<Rightarrow> let v = (if neg then - n else n)
               in if - (2 ^ 63) \<le> v \<and> v < 2 ^ 63 then Some v else None)"

text \<open>
  \<open>str::trim().is_empty()\<close>: every code point has the Unicode property White_Space. The
  UTF-8 encodings of those code points are written out.
\<close>

fun all_whitespace :: "nat list \<Rightarrow> bool" where
  "all_whitespace [] = True"
| "all_whitespace (a # xs) =
     (if 9 \<le> a \<and> a \<le> 13 \<or> a = 32 then all_whitespace xs
      else case xs of
          [] \<Rightarrow> False
        | b # ys \<Rightarrow>
            if a = 194 \<and> (b = 133 \<or> b = 160) then all_whitespace ys
            else case ys of
                [] \<Rightarrow> False
              | c # zs \<Rightarrow>
                  if a = 225 \<and> b = 154 \<and> c = 128
                     \<or> a = 226 \<and> b = 128 \<and> (128 \<le> c \<and> c \<le> 138 \<or> c = 168 \<or> c = 169 \<or> c = 175)
                     \<or> a = 226 \<and> b = 129 \<and> c = 159
                     \<or> a = 227 \<and> b = 128 \<and> c = 128
                  then all_whitespace zs else False)"

section \<open>Splitting and formatting\<close>

definition DEFAULT_BRANCH :: string where
  "DEFAULT_BRANCH = ''main''"

datatype LedgerIdTimeSpec = AtT int | AtIso string | AtCommit string | AtRecorded string

record ParsedLedgerId =
  pl_name :: string
  pl_branch :: string
  pl_time :: "LedgerIdTimeSpec option"

datatype LedgerIdParseError =
    InvalidLedgerIdFormat string
  | EmptyBeforeAt
  | MissingTimeValue string
  | InvalidTInteger string
  | CommitPrefixTooShort
  | InvalidTimeTravelFormat string
  | BranchNameEmpty
  | BranchNameTooLong
  | BranchNameContains char
  | BranchNamePathTraversal

definition split_ledger_id :: "string \<Rightarrow> LedgerIdParseError + string \<times> string" where
  "split_ledger_id ledger_id =
     (case splitn2 CHR '':'' ledger_id of
        (name, None) \<Rightarrow>
          if name \<noteq> [] then Inr (name, DEFAULT_BRANCH) else Inl (InvalidLedgerIdFormat ledger_id)
      | (name, Some branch) \<Rightarrow>
          if name \<noteq> [] \<and> branch \<noteq> [] then
            if CHR '':'' \<in> set branch then Inl (InvalidLedgerIdFormat ledger_id)
            else Inr (name, branch)
          else Inl (InvalidLedgerIdFormat ledger_id))"

definition format_ledger_id :: "string \<Rightarrow> string \<Rightarrow> string" where
  "format_ledger_id name branch = name @ CHR '':'' # branch"

definition normalize_ledger_id :: "string \<Rightarrow> LedgerIdParseError + string" where
  "normalize_ledger_id ledger_id =
     (case split_ledger_id ledger_id of
        Inl e \<Rightarrow> Inl e
      | Inr (name, branch) \<Rightarrow> Inr (format_ledger_id name branch))"

section \<open>Time travel\<close>

definition parse_time_spec :: "string \<Rightarrow> LedgerIdParseError + LedgerIdTimeSpec" where
  "parse_time_spec time_str =
     (case strip_prefix ''t:'' time_str of
        Some val \<Rightarrow>
          if val = [] then Inl (MissingTimeValue ''t:'')
          else (case parse_i64 val of None \<Rightarrow> Inl (InvalidTInteger val) | Some t \<Rightarrow> Inr (AtT t))
      | None \<Rightarrow>
     (case strip_prefix ''iso:'' time_str of
        Some val \<Rightarrow> if val = [] then Inl (MissingTimeValue ''iso:'') else Inr (AtIso val)
      | None \<Rightarrow>
     (case strip_prefix ''commit:'' time_str of
        Some val \<Rightarrow>
          if val = [] then Inl (MissingTimeValue ''commit:'')
          else if length val < 6 then Inl CommitPrefixTooShort
          else Inr (AtCommit val)
      | None \<Rightarrow>
     (case strip_prefix ''recorded:'' time_str of
        Some val \<Rightarrow> if val = [] then Inl (MissingTimeValue ''recorded:'') else Inr (AtRecorded val)
      | None \<Rightarrow> Inl (InvalidTimeTravelFormat time_str)))))"

definition split_time_travel_suffix ::
  "string \<Rightarrow> LedgerIdParseError + string \<times> LedgerIdTimeSpec option" where
  "split_time_travel_suffix ledger_id =
     (case splitn2 CHR ''@'' ledger_id of
        (base, None) \<Rightarrow> Inr (ledger_id, None)
      | (base, Some time_str) \<Rightarrow>
          if base = [] then Inl EmptyBeforeAt
          else (case parse_time_spec time_str of
              Inl e \<Rightarrow> Inl e
            | Inr spec \<Rightarrow> Inr (base, Some spec)))"

definition parse_ledger_id_with_time :: "string \<Rightarrow> LedgerIdParseError + ParsedLedgerId" where
  "parse_ledger_id_with_time ledger_id =
     (case split_time_travel_suffix ledger_id of
        Inl e \<Rightarrow> Inl e
      | Inr (base, time) \<Rightarrow>
          (case split_ledger_id base of
             Inl e \<Rightarrow> Inl e
           | Inr (name, branch) \<Rightarrow>
               Inr \<lparr>pl_name = name, pl_branch = branch, pl_time = time\<rparr>))"

section \<open>Branch names\<close>

definition MAX_BRANCH_NAME_LEN :: nat where
  "MAX_BRANCH_NAME_LEN = 128"

definition validate_branch_name :: "string \<Rightarrow> LedgerIdParseError + unit" where
  "validate_branch_name name =
     (if name = [] \<or> all_whitespace (map of_char name) then Inl BranchNameEmpty
      else if length name > MAX_BRANCH_NAME_LEN then Inl BranchNameTooLong
      else if CHR '':'' \<in> set name then Inl (BranchNameContains CHR '':'')
      else if CHR ''@'' \<in> set name then Inl (BranchNameContains CHR ''@'')
      else if char_of (0::nat) \<in> set name then Inl (BranchNameContains (char_of (0::nat)))
      else if name = ''..'' \<or> contains_str ''../'' name \<or> contains_str ''/..'' name
        then Inl BranchNamePathTraversal
      else Inr ())"

section \<open>Lemmas\<close>

lemma splitn2_append: "c \<notin> set xs \<Longrightarrow> splitn2 c (xs @ c # ys) = (xs, Some ys)"
  by (induction xs) auto

lemma splitn2_none: "c \<notin> set xs \<Longrightarrow> splitn2 c xs = (xs, None)"
  by (induction xs) auto

lemma splitn2_SomeD:
  "splitn2 c s = (a, Some b) \<Longrightarrow> s = a @ c # b \<and> c \<notin> set a"
  by (induction s arbitrary: a) (auto simp: Let_def split: if_splits prod.splits)

lemma splitn2_NoneD: "splitn2 c s = (a, None) \<Longrightarrow> a = s \<and> c \<notin> set s"
  by (induction s arbitrary: a) (auto simp: Let_def split: if_splits prod.splits)

lemma split_format:
  assumes "name \<noteq> []" "branch \<noteq> []" "CHR '':'' \<notin> set name" "CHR '':'' \<notin> set branch"
  shows "split_ledger_id (format_ledger_id name branch) = Inr (name, branch)"
  using assms by (simp add: split_ledger_id_def format_ledger_id_def splitn2_append)

lemma format_inject:
  assumes "CHR '':'' \<notin> set name" "CHR '':'' \<notin> set name'"
    and "format_ledger_id name branch = format_ledger_id name' branch'"
  shows "name = name' \<and> branch = branch'"
proof -
  have eq: "splitn2 CHR '':'' (format_ledger_id n b) = (n, Some b)" if "CHR '':'' \<notin> set n" for n b
    using that by (simp add: format_ledger_id_def splitn2_append)
  have "(name, Some branch) = splitn2 CHR '':'' (format_ledger_id name branch)"
    by (simp only: eq [OF assms(1)])
  also have "\<dots> = splitn2 CHR '':'' (format_ledger_id name' branch')"
    by (simp only: assms(3))
  also have "\<dots> = (name', Some branch')"
    by (simp only: eq [OF assms(2)])
  finally show ?thesis by simp
qed

lemma split_ledger_id_InrD:
  assumes "split_ledger_id s = Inr (name, branch)"
  shows "name \<noteq> []" "branch \<noteq> []" "CHR '':'' \<notin> set name" "CHR '':'' \<notin> set branch"
    and "s = name \<and> branch = DEFAULT_BRANCH \<or> s = format_ledger_id name branch"
proof -
  have main: "CHR '':'' \<notin> set DEFAULT_BRANCH" "DEFAULT_BRANCH \<noteq> []"
    by (simp_all add: DEFAULT_BRANCH_def)
  obtain a b where sp: "splitn2 CHR '':'' s = (a, b)" by (cases "splitn2 CHR '':'' s")
  have "name \<noteq> [] \<and> branch \<noteq> [] \<and> CHR '':'' \<notin> set name \<and> CHR '':'' \<notin> set branch \<and>
    (s = name \<and> branch = DEFAULT_BRANCH \<or> s = format_ledger_id name branch)"
  proof (cases b)
    case None
    then show ?thesis
      using assms main sp splitn2_NoneD [of "CHR '':''" s a]
      by (simp add: split_ledger_id_def split: if_splits)
  next
    case (Some br)
    then show ?thesis
      using assms sp splitn2_SomeD [of "CHR '':''" s a br]
      by (simp add: split_ledger_id_def format_ledger_id_def split: if_splits)
  qed
  then show "name \<noteq> []" "branch \<noteq> []" "CHR '':'' \<notin> set name" "CHR '':'' \<notin> set branch"
    "s = name \<and> branch = DEFAULT_BRANCH \<or> s = format_ledger_id name branch"
    by blast+
qed

text \<open>
  Ledger ids round-trip. Formatting a colon-free, non-empty name and branch and splitting
  the result gives both back; and an id that splits at all normalises to a canonical
  \<open>name:branch\<close> string that splits to the same pair and is a fixpoint of normalisation.
\<close>

theorem ledger_id_round_trip:
  assumes "split_ledger_id s = Inr (name, branch)"
  shows "normalize_ledger_id s = Inr (format_ledger_id name branch)
    \<and> split_ledger_id (format_ledger_id name branch) = Inr (name, branch)
    \<and> normalize_ledger_id (format_ledger_id name branch) = Inr (format_ledger_id name branch)"
  using assms split_ledger_id_InrD [OF assms] by (simp add: normalize_ledger_id_def split_format)

theorem ledger_id_round_trip_witness:
  "normalize_ledger_id ''movies'' = Inr ''movies:main''
    \<and> split_ledger_id ''movies:main'' = Inr (''movies'', ''main'')"
proof -
  have "split_ledger_id ''movies'' = Inr (''movies'', ''main'')" by code_simp
  from ledger_id_round_trip [OF this] show ?thesis by (simp add: format_ledger_id_def)
qed

end
