(* ===== verification/RaftTypes.thy ===== *)
theory RaftTypes
  imports LedgerId
begin

text \<open>
  The data of the replicated nameservice (\<open>fluree-db-consensus/src/raft/state_machine.rs\<close>):
  the state-machine state, the commands it accepts and the responses it gives, and the
  nameservice types they carry (\<open>fluree-db-nameservice/src/lib.rs\<close>).

  Conventions. Each struct is a \<^theory_text>\<open>record\<close> whose field names carry a short prefix of
  the struct, each enum a \<^theory_text>\<open>datatype\<close> with the source's variants (a variant name two
  enums share gets the enum as a prefix). \<open>u64\<close>, \<open>u32\<close> and \<open>usize\<close> values are \<open>nat\<close> and
  \<open>i64\<close> values \<open>int\<close>: the state machine only compares them, except where it counts, and
  there the wrap-around or saturation is written out at the operation. A \<open>f64\<close> is its bit
  pattern with IEEE equality as \<open>f64_eq\<close>. A content id is opaque: its bytes.
\<close>

section \<open>Identifiers and scalars\<close>

datatype ContentId = ContentId (cid_bytes: "nat list")

type_synonym NodeId = nat

datatype f64 = F64 (f64_bits: nat)

definition f64_is_nan :: "f64 \<Rightarrow> bool" where
  "f64_is_nan x = (let m = f64_bits x mod 2 ^ 63 in m div 2 ^ 52 = 2047 \<and> m mod 2 ^ 52 \<noteq> 0)"

definition f64_eq :: "f64 \<Rightarrow> f64 \<Rightarrow> bool" where
  "f64_eq x y =
     (\<not> f64_is_nan x \<and> \<not> f64_is_nan y \<and>
      (f64_bits x = f64_bits y \<or> f64_bits x mod 2 ^ 63 = 0 \<and> f64_bits y mod 2 ^ 63 = 0))"

text \<open>Counter arithmetic: \<open>wrapping_add(1)\<close> on \<open>u64\<close>, saturating steps on \<open>u32\<close>.\<close>

definition u64_wrapping_succ :: "nat \<Rightarrow> nat" where
  "u64_wrapping_succ n = (n + 1) mod 2 ^ 64"

definition u64_add :: "nat \<Rightarrow> nat \<Rightarrow> nat" where
  "u64_add a b = (a + b) mod 2 ^ 64"

definition u32_saturating_succ :: "nat \<Rightarrow> nat" where
  "u32_saturating_succ n = min (n + 1) (2 ^ 32 - 1)"

definition u32_saturating_pred :: "nat \<Rightarrow> nat" where
  "u32_saturating_pred n = n - 1"

record RefKey =
  rk_ledger_name :: string
  rk_branch :: string

definition RefKey_new :: "string \<Rightarrow> string \<Rightarrow> RefKey" where
  "RefKey_new ledger_name branch = \<lparr>rk_ledger_name = ledger_name, rk_branch = branch\<rparr>"

definition RefKey_ledger_id :: "RefKey \<Rightarrow> string" where
  "RefKey_ledger_id k = format_ledger_id (rk_ledger_name k) (rk_branch k)"

record IdempotencyCacheKey =
  ik_ledger_id :: string
  ik_key :: string

datatype BodyKind =
    JsonLdInsert | JsonLdUpsert | JsonLdUpdate | TurtleInsert | TurtleUpsert | TrigUpsert
  | Sparql | Cypher | Pushed | Revert | Merge | Rebase

section \<open>Tracking tallies\<close>

record PolicyStats =
  ps_executed :: nat
  ps_allowed :: nat

record RecordedReasoningTally =
  rr_capped :: bool
  rr_capped_reason :: "string option"
  rr_derived_facts :: nat
  rr_iterations :: nat
  rr_duration_ms :: nat

record RecordedTally =
  tl_time :: "string option"
  tl_fuel :: "f64 option"
  tl_policy :: "(string, PolicyStats) hashmap option"
  tl_reasoning :: "RecordedReasoningTally option"

section \<open>Branch heads and ledgers\<close>

record IndexState =
  ix_head :: ContentId
  ix_t :: int

record RefEntry =
  re_head :: ContentId
  re_t :: int
  re_last_advanced_at_millis :: nat
  re_last_advanced_index :: nat
  re_index :: "IndexState option"
  re_source_branch :: "string option"
  re_branches :: nat

record LedgerRecord =
  lr_created_at_millis :: nat
  lr_created_index :: nat
  lr_branches :: "string list"

datatype RefKind = CommitHead | IndexHead

record RefValue =
  rv_id :: "ContentId option"
  rv_t :: int

section \<open>Queue entries, outcomes and markers\<close>

datatype PoisonReason =
    Poison_StagingFailed string nat
  | Poison_BodyMalformed string
  | Poison_PolicyViolation string
  | Poison_LedgerNotFound string
  | Poison_PushCasFailed "ContentId option" "ContentId option"
  | Poison_WorkerPanic string

record PoisonRecord =
  pr_request_cid :: ContentId
  pr_body_cid :: ContentId
  pr_reason :: PoisonReason
  pr_recorded_index :: nat
  pr_recorded_at_millis :: nat

record ApplyRecord =
  ar_request_cid :: ContentId
  ar_body_cid :: ContentId
  ar_body_kind :: BodyKind
  ar_recorded_at_millis :: nat
  ar_head :: ContentId
  ar_t :: int
  ar_recorded_index :: nat
  ar_tally :: "RecordedTally option"
  ar_flake_count :: nat

datatype ApplyOutcome = Applied ApplyRecord | Failed PoisonRecord

fun ao_request_cid :: "ApplyOutcome \<Rightarrow> ContentId" where
  "ao_request_cid (Applied r) = ar_request_cid r"
| "ao_request_cid (Failed r) = pr_request_cid r"

fun ao_body_cid :: "ApplyOutcome \<Rightarrow> ContentId" where
  "ao_body_cid (Applied r) = ar_body_cid r"
| "ao_body_cid (Failed r) = pr_body_cid r"

fun ao_recorded_at_millis :: "ApplyOutcome \<Rightarrow> nat" where
  "ao_recorded_at_millis (Applied r) = ar_recorded_at_millis r"
| "ao_recorded_at_millis (Failed r) = pr_recorded_at_millis r"

fun ao_recorded_index :: "ApplyOutcome \<Rightarrow> nat" where
  "ao_recorded_index (Applied r) = ar_recorded_index r"
| "ao_recorded_index (Failed r) = pr_recorded_index r"

record QueueEntry =
  qe_queue_id :: nat
  qe_enqueued_index :: nat
  qe_enqueued_at_millis :: nat
  qe_idempotency :: "IdempotencyCacheKey option"
  qe_request_cid :: ContentId
  qe_body_cid :: ContentId
  qe_body_kind :: BodyKind

datatype ClearReason =
  Clear_BranchDropped | Clear_BranchPurged | Clear_BranchHeadReset | Clear_BranchRetracted

record ClearMarker =
  cm_reason :: ClearReason
  cm_applied_at_millis :: nat

record QueueConfig =
  qc_per_branch_cap :: nat
  qc_global_cap :: nat

definition DEFAULT_PER_BRANCH :: nat where
  "DEFAULT_PER_BRANCH = 1024"

definition DEFAULT_GLOBAL :: nat where
  "DEFAULT_GLOBAL = 16384"

definition QueueConfig_default :: QueueConfig where
  "QueueConfig_default = \<lparr>qc_per_branch_cap = DEFAULT_PER_BRANCH, qc_global_cap = DEFAULT_GLOBAL\<rparr>"

section \<open>Status, config and graph sources\<close>

text \<open>\<open>BTreeMap<String, CanonicalValue>\<close> is the list of its entries in key order.\<close>

datatype CanonicalValue =
    CV_Null
  | CV_Bool bool
  | CV_Int int
  | CV_UInt nat
  | CV_Float f64
  | CV_String string
  | CV_Array "CanonicalValue list"
  | CV_Object "(string \<times> CanonicalValue) list"

text \<open>
  The derived \<open>PartialEq\<close>: structural, with IEEE equality at the floats, and entry by entry on
  the ordered maps.
\<close>

fun cv_eq :: "CanonicalValue \<Rightarrow> CanonicalValue \<Rightarrow> bool" where
  "cv_eq CV_Null CV_Null = True"
| "cv_eq (CV_Bool a) (CV_Bool b) = (a = b)"
| "cv_eq (CV_Int a) (CV_Int b) = (a = b)"
| "cv_eq (CV_UInt a) (CV_UInt b) = (a = b)"
| "cv_eq (CV_Float a) (CV_Float b) = f64_eq a b"
| "cv_eq (CV_String a) (CV_String b) = (a = b)"
| "cv_eq (CV_Array xs) (CV_Array ys) = list_all2 cv_eq xs ys"
| "cv_eq (CV_Object xs) (CV_Object ys) =
     list_all2 (\<lambda>(k, v) (k', v'). k = k' \<and> cv_eq v v') xs ys"
| "cv_eq _ _ = False"

definition extra_eq :: "(string \<times> CanonicalValue) list \<Rightarrow> (string \<times> CanonicalValue) list \<Rightarrow> bool" where
  "extra_eq xs ys = list_all2 (\<lambda>(k, v) (k', v'). k = k' \<and> cv_eq v v') xs ys"

record StoredStatus =
  ss_v :: int
  ss_state :: string
  ss_extra :: "(string \<times> CanonicalValue) list"

definition StoredStatus_eq :: "StoredStatus \<Rightarrow> StoredStatus \<Rightarrow> bool" where
  "StoredStatus_eq a b =
     (ss_v a = ss_v b \<and> ss_state a = ss_state b \<and> extra_eq (ss_extra a) (ss_extra b))"

definition StoredStatus_initial :: StoredStatus where
  "StoredStatus_initial = \<lparr>ss_v = 1, ss_state = ''ready'', ss_extra = []\<rparr>"

record StoredConfigPayload =
  cp_default_context :: "ContentId option"
  cp_config_id :: "ContentId option"
  cp_extra :: "(string \<times> CanonicalValue) list"

record StoredConfig =
  sc_v :: int
  sc_payload :: "StoredConfigPayload option"

definition StoredConfigPayload_eq :: "StoredConfigPayload \<Rightarrow> StoredConfigPayload \<Rightarrow> bool" where
  "StoredConfigPayload_eq a b =
     (cp_default_context a = cp_default_context b \<and> cp_config_id a = cp_config_id b
      \<and> extra_eq (cp_extra a) (cp_extra b))"

definition StoredConfig_eq :: "StoredConfig \<Rightarrow> StoredConfig \<Rightarrow> bool" where
  "StoredConfig_eq a b =
     (sc_v a = sc_v b \<and> rel_option StoredConfigPayload_eq (sc_payload a) (sc_payload b))"

definition StoredConfig_unborn :: StoredConfig where
  "StoredConfig_unborn = \<lparr>sc_v = 0, sc_payload = None\<rparr>"

datatype GraphSourceType = Bm25 | Vector | Geo | R2rml | Iceberg | Unknown string

record GraphSourceRecord =
  gs_graph_source_id :: string
  gs_name :: string
  gs_branch :: string
  gs_source_type :: GraphSourceType
  gs_config :: string
  gs_dependencies :: "string list"
  gs_index_id :: "ContentId option"
  gs_index_t :: int
  gs_retracted :: bool

definition GraphSourceRecord_new ::
  "string \<Rightarrow> string \<Rightarrow> GraphSourceType \<Rightarrow> string \<Rightarrow> string list \<Rightarrow> GraphSourceRecord" where
  "GraphSourceRecord_new name branch source_type config dependencies =
     \<lparr>gs_graph_source_id = format_ledger_id name branch, gs_name = name, gs_branch = branch,
      gs_source_type = source_type, gs_config = config, gs_dependencies = dependencies,
      gs_index_id = None, gs_index_t = 0, gs_retracted = False\<rparr>"

section \<open>The state\<close>

text \<open>The \<open>HashSet\<close> and \<open>BTreeSet\<close> fields are never iterated by the commands: they are sets.\<close>

record NameServiceState =
  st_refs :: "(RefKey, RefEntry) hashmap"
  st_ledgers :: "(string, LedgerRecord) hashmap"
  st_retracted :: "RefKey set"
  st_idempotency :: "(IdempotencyCacheKey, ApplyOutcome) hashmap"
  st_queues :: "(RefKey, QueueEntry list) hashmap"
  st_next_queue_id :: nat
  st_recently_cleared :: "(RefKey, ClearMarker) hashmap"
  st_evicted_idempotency_count :: nat
  st_queue_config :: QueueConfig
  st_status :: "(string, StoredStatus) hashmap"
  st_config :: "(string, StoredConfig) hashmap"
  st_graph_sources :: "(string, GraphSourceRecord) hashmap"
  st_worker_eligible_voters :: "NodeId set"
  st_configured_voters :: "NodeId set"

definition NameServiceState_new :: NameServiceState where
  "NameServiceState_new =
     \<lparr>st_refs = hm_empty, st_ledgers = hm_empty, st_retracted = {}, st_idempotency = hm_empty,
      st_queues = hm_empty, st_next_queue_id = 0, st_recently_cleared = hm_empty,
      st_evicted_idempotency_count = 0, st_queue_config = QueueConfig_default,
      st_status = hm_empty, st_config = hm_empty, st_graph_sources = hm_empty,
      st_worker_eligible_voters = {}, st_configured_voters = {}\<rparr>"

section \<open>Command payloads\<close>

record NewIndexHead =
  ni_ledger_id :: string
  ni_branch :: string
  ni_new_index_head :: ContentId
  ni_t :: int
  ni_applied_at_millis :: nat

record RefCas =
  rc_ledger_id :: string
  rc_branch :: string
  rc_kind :: RefKind
  rc_expected :: "RefValue option"
  rc_new :: RefValue
  rc_applied_at_millis :: nat

record NewLedger =
  nl_ledger_id :: string
  nl_branch :: string
  nl_created_at_millis :: nat

record NewBranch =
  nb_ledger_id :: string
  nb_branch :: string
  nb_source_branch :: string
  nb_at_commit :: "(ContentId \<times> int) option"
  nb_applied_at_millis :: nat

record ResetHeadSnapshot =
  rs_commit_head_id :: "ContentId option"
  rs_commit_t :: int
  rs_index_head_id :: "ContentId option"
  rs_index_t :: int

record ConfigUpdate =
  cu_ledger_id :: string
  cu_expected :: "StoredConfig option"
  cu_new :: StoredConfig

record QueueSubmission =
  qs_ledger_id :: string
  qs_branch :: string
  qs_idempotency :: "IdempotencyCacheKey option"
  qs_request_cid :: ContentId
  qs_body_cid :: ContentId
  qs_body_kind :: BodyKind
  qs_applied_at_millis :: nat

record StagedHead =
  sh_ledger_id :: string
  sh_branch :: string
  sh_queue_id :: nat
  sh_commit_id :: ContentId
  sh_commit_t :: int
  sh_applied_at_millis :: nat
  sh_tally :: "RecordedTally option"
  sh_flake_count :: nat

record EntryPoisoning =
  ep_ledger_id :: string
  ep_branch :: string
  ep_queue_id :: nat
  ep_reason :: PoisonReason
  ep_applied_at_millis :: nat

record WorkerEligibility =
  we_voter :: NodeId
  we_eligible :: bool
  we_applied_at_millis :: nat

section \<open>Commands\<close>

datatype (plugins only: code size) Command =
    AdvanceIndexHead NewIndexHead
  | RewriteIndexHead NewIndexHead
  | CreateLedger NewLedger
  | CreateBranch NewBranch
  | DropBranch string string nat
  | ResetHead string string ResetHeadSnapshot nat
  | RetractLedger string string nat
  | PurgeBranch string string nat
  | ReleaseContent ContentId
  | CompareAndSetRef RefCas
  | PushStatus string "StoredStatus option" StoredStatus
  | PushConfig ConfigUpdate
  | PublishGraphSource string string GraphSourceType string "string list"
  | PublishGraphSourceIndex string string ContentId int
  | RetractGraphSource string string
  | EnqueueCommand QueueSubmission
  | ApplyHead StagedHead
  | PoisonQueueEntry EntryPoisoning
  | EvictIdempotency nat nat
  | SetWorkerEligibility WorkerEligibility

section \<open>Responses\<close>

datatype QueueFullScope = PerBranch | Global

datatype EligibilityRefusal = VoterNotConfigured

datatype DesyncReason =
    WrongFront nat
  | QueueCleared ClearReason
  | HeadNotMonotonic int int
  | InvariantViolated

datatype (plugins only: code size) Response =
    IndexAdvanced int ContentId
  | IndexStale int
  | IndexAhead int int
  | RefCasUpdated
  | RefCasConflict "RefValue option"
  | StatusUpdated
  | StatusConflict "StoredStatus option"
  | ConfigUpdated
  | ConfigConflict "StoredConfig option"
  | GraphSourcePublished
  | GraphSourceIndexAdvanced int
  | GraphSourceIndexStale int
  | GraphSourceNotFound string
  | GraphSourceRetracted string
  | GraphSourceAlreadyRetracted string
  | Created string
  | AlreadyExists string
  | BranchCreated string ContentId int
  | SourceBranchNotFound string
  | BranchDropped string "nat option" "(string \<times> ContentId) list"
  | BranchHasChildren string nat
  | HeadReset string "(string \<times> ContentId) list"
  | Retracted string "(string \<times> ContentId) list"
  | AlreadyRetracted string
  | LedgerRetracted string
  | Purged string "(string \<times> ContentId) list"
  | AlreadyPurged string
  | LedgerNotFound string
  | BodyHashMismatch
  | Enqueued string nat
  | IdempotencyHit ApplyRecord
  | IdempotencyFailed PoisonRecord
  | InFlight string nat
  | QueueFull string nat nat QueueFullScope
  | HeadApplied string ContentId int "ContentId option"
  | QueueDesync string nat DesyncReason
  | Poisoned string nat PoisonReason "ContentId option"
  | EvictionApplied nat "(string \<times> ContentId) list"
  | WorkerEligibilitySet NodeId bool bool
  | WorkerEligibilityRefused NodeId bool EligibilityRefusal
  | NoOp

section \<open>Lemmas\<close>

lemma RefKey_new_sel [simp]:
  "rk_ledger_name (RefKey_new l b) = l" "rk_branch (RefKey_new l b) = b"
  by (simp_all add: RefKey_new_def)

lemma RefKey_new_inject [simp]: "RefKey_new l b = RefKey_new l' b' \<longleftrightarrow> l = l' \<and> b = b'"
  by (simp add: RefKey_new_def)

lemma RefKey_new_collapse [simp]: "RefKey_new (rk_ledger_name k) (rk_branch k) = k"
  by (simp add: RefKey_new_def)

lemma RefKey_ledger_id_new [simp]: "RefKey_ledger_id (RefKey_new l b) = format_ledger_id l b"
  by (simp add: RefKey_ledger_id_def)

lemma u64_wrapping_succ_small: "n + 1 < 2 ^ 64 \<Longrightarrow> u64_wrapping_succ n = n + 1"
  by (simp add: u64_wrapping_succ_def)

end
