(* ===== verification/RaftLifecycle.thy ===== *)
theory RaftLifecycle
  imports RaftTypes
begin

text \<open>
  Ledger and branch lifecycle commands of the replicated nameservice
  (\<open>state_machine.rs\<close>: \<open>create_ledger\<close>, \<open>retract_ledger\<close>, \<open>purge_branch\<close>, \<open>create_branch\<close>,
  \<open>drop_branch\<close>, \<open>reset_head\<close> and their helpers), and worker eligibility. Every operation
  maps a state to the new state and the response; a refused command returns the state it
  was given.
\<close>

section \<open>Helpers\<close>

text \<open>The test each command writes inline: the ledger exists and lists the branch.\<close>

definition branch_known :: "(string, LedgerRecord) hashmap \<Rightarrow> string \<Rightarrow> string \<Rightarrow> bool" where
  "branch_known ledgers ledger_id branch =
     (case hm_get ledgers ledger_id of
        None \<Rightarrow> False
      | Some l \<Rightarrow> List.member (lr_branches l) branch)"

definition clear_queue_for_admin ::
  "NameServiceState \<Rightarrow> RefKey \<Rightarrow> ClearReason \<Rightarrow> nat \<Rightarrow> NameServiceState \<times> (string \<times> ContentId) list" where
  "clear_queue_for_admin s ref_key reason applied_at_millis =
     (case hm_get (st_queues s) ref_key of
        None \<Rightarrow> (s, [])
      | Some queue \<Rightarrow>
          let s = s\<lparr>st_queues := hm_remove (st_queues s) ref_key\<rparr> in
          if queue = [] then (s, [])
          else
            (s\<lparr>st_recently_cleared :=
                 hm_insert (st_recently_cleared s) ref_key
                   \<lparr>cm_reason = reason, cm_applied_at_millis = applied_at_millis\<rparr>\<rparr>,
             map (\<lambda>entry. (RefKey_ledger_id ref_key, qe_request_cid entry)) queue))"

definition decrement_child_count ::
  "NameServiceState \<Rightarrow> string \<Rightarrow> string \<Rightarrow> NameServiceState \<times> nat" where
  "decrement_child_count s ledger_id parent_branch =
     (let k = RefKey_new ledger_id parent_branch in
      case hm_get (st_refs s) k of
        Some parent \<Rightarrow>
          let n = u32_saturating_pred (re_branches parent) in
          (s\<lparr>st_refs := hm_insert (st_refs s) k (parent\<lparr>re_branches := n\<rparr>)\<rparr>, n)
      | None \<Rightarrow> (s, 0))"

text \<open>
  Removing a branch from its ledger's list, and the ledger itself when the list empties, as
  \<open>purge_branch\<close> and \<open>drop_branch\<close> do inline; the flag tells whether a branch was removed.
\<close>

definition unregister_branch :: "NameServiceState \<Rightarrow> string \<Rightarrow> string \<Rightarrow> NameServiceState \<times> bool" where
  "unregister_branch s ledger_id branch =
     (case hm_get (st_ledgers s) ledger_id of
        Some ledger \<Rightarrow>
          let bs = filter (\<lambda>b. b \<noteq> branch) (lr_branches ledger);
              removed = length bs < length (lr_branches ledger)
          in (s\<lparr>st_ledgers :=
                  (if bs = [] then hm_remove (st_ledgers s) ledger_id
                   else hm_insert (st_ledgers s) ledger_id (ledger\<lparr>lr_branches := bs\<rparr>))\<rparr>,
              removed)
      | None \<Rightarrow> (s, False))"

section \<open>Commands\<close>

definition create_ledger :: "NameServiceState \<Rightarrow> nat \<Rightarrow> NewLedger \<Rightarrow> NameServiceState \<times> Response" where
  "create_ledger s log_index args =
     (let ledger_id = nl_ledger_id args; branch = nl_branch args;
          ledger = (case hm_get (st_ledgers s) ledger_id of
              Some l \<Rightarrow> l
            | None \<Rightarrow> \<lparr>lr_created_at_millis = nl_created_at_millis args,
                       lr_created_index = log_index, lr_branches = []\<rparr>);
          s = s\<lparr>st_ledgers := hm_insert (st_ledgers s) ledger_id ledger\<rparr>
      in if List.member (lr_branches ledger) branch
         then (s, AlreadyExists (format_ledger_id ledger_id branch))
         else
           (s\<lparr>st_ledgers := hm_insert (st_ledgers s) ledger_id
                (ledger\<lparr>lr_branches := lr_branches ledger @ [branch]\<rparr>)\<rparr>,
            Created (format_ledger_id ledger_id branch)))"

definition retract_ledger ::
  "NameServiceState \<Rightarrow> string \<Rightarrow> string \<Rightarrow> nat \<Rightarrow> NameServiceState \<times> Response" where
  "retract_ledger s ledger_id branch applied_at_millis =
     (let key = RefKey_new ledger_id branch;
          full = format_ledger_id ledger_id branch
      in if \<not> branch_known (st_ledgers s) ledger_id branch then (s, AlreadyRetracted full)
         else if key \<notin> st_retracted s then
           let s = s\<lparr>st_retracted := insert key (st_retracted s)\<rparr>;
               (s, released) = clear_queue_for_admin s key Clear_BranchRetracted applied_at_millis
           in (s, Retracted full released)
         else (s, AlreadyRetracted full))"

definition has_children :: "NameServiceState \<Rightarrow> RefKey \<Rightarrow> nat option" where
  "has_children s key =
     (case hm_get (st_refs s) key of
        Some entry \<Rightarrow> if re_branches entry > 0 then Some (re_branches entry) else None
      | None \<Rightarrow> None)"

definition purge_branch ::
  "NameServiceState \<Rightarrow> string \<Rightarrow> string \<Rightarrow> nat \<Rightarrow> NameServiceState \<times> Response" where
  "purge_branch s ledger_id branch applied_at_millis =
     (let key = RefKey_new ledger_id branch;
          full = format_ledger_id ledger_id branch
      in case has_children s key of
        Some n \<Rightarrow> (s, BranchHasChildren full n)
      | None \<Rightarrow>
          let removed_entry = hm_get (st_refs s) key;
              removed_source = Option.bind removed_entry re_source_branch;
              removed_retraction = (key \<in> st_retracted s);
              s = s\<lparr>st_refs := hm_remove (st_refs s) key,
                    st_retracted := st_retracted s - {key}\<rparr>;
              (s, removed_branch) = unregister_branch s ledger_id branch;
              s = (case removed_source of
                     Some parent \<Rightarrow> fst (decrement_child_count s ledger_id parent)
                   | None \<Rightarrow> s);
              (s, released) = clear_queue_for_admin s key Clear_BranchPurged applied_at_millis
          in if removed_entry \<noteq> None \<or> removed_retraction \<or> removed_branch
             then (s, Purged full released)
             else (s, AlreadyPurged full))"

definition create_branch :: "NameServiceState \<Rightarrow> nat \<Rightarrow> NewBranch \<Rightarrow> NameServiceState \<times> Response" where
  "create_branch s log_index args =
     (let ledger_id = nb_ledger_id args; branch = nb_branch args;
          full = format_ledger_id ledger_id branch
      in case hm_get (st_ledgers s) ledger_id of
        None \<Rightarrow> (s, LedgerNotFound ledger_id)
      | Some ledger \<Rightarrow>
          if List.member (lr_branches ledger) branch then (s, AlreadyExists full)
          else
            let source_key = RefKey_new ledger_id (nb_source_branch args) in
            case hm_get (st_refs s) source_key of
              None \<Rightarrow> (s, SourceBranchNotFound (format_ledger_id ledger_id (nb_source_branch args)))
            | Some source \<Rightarrow>
                let (head, t) = (case nb_at_commit args of
                        Some ht \<Rightarrow> ht
                      | None \<Rightarrow> (re_head source, re_t source));
                    s = s\<lparr>st_ledgers := hm_insert (st_ledgers s) ledger_id
                            (ledger\<lparr>lr_branches := lr_branches ledger @ [branch]\<rparr>)\<rparr>;
                    s = s\<lparr>st_refs := hm_insert (st_refs s) source_key
                            (source\<lparr>re_branches := u32_saturating_succ (re_branches source)\<rparr>)\<rparr>;
                    s = s\<lparr>st_refs := hm_insert (st_refs s) (RefKey_new ledger_id branch)
                            \<lparr>re_head = head, re_t = t,
                             re_last_advanced_at_millis = nb_applied_at_millis args,
                             re_last_advanced_index = log_index, re_index = None,
                             re_source_branch = Some (nb_source_branch args), re_branches = 0\<rparr>\<rparr>
                in (s, BranchCreated full head t))"

definition drop_branch ::
  "NameServiceState \<Rightarrow> string \<Rightarrow> string \<Rightarrow> nat \<Rightarrow> NameServiceState \<times> Response" where
  "drop_branch s ledger_id branch applied_at_millis =
     (let key = RefKey_new ledger_id branch;
          full = format_ledger_id ledger_id branch
      in if \<not> branch_known (st_ledgers s) ledger_id branch then (s, LedgerNotFound full)
         else case has_children s key of
           Some n \<Rightarrow> (s, BranchHasChildren full n)
         | None \<Rightarrow>
             let removed_source = Option.bind (hm_get (st_refs s) key) re_source_branch;
                 s = s\<lparr>st_refs := hm_remove (st_refs s) key,
                       st_retracted := st_retracted s - {key}\<rparr>;
                 s = fst (unregister_branch s ledger_id branch);
                 (s, parent_branches) = (case removed_source of
                     Some parent \<Rightarrow>
                       let (s, n) = decrement_child_count s ledger_id parent in (s, Some n)
                   | None \<Rightarrow> (s, None));
                 (s, released) = clear_queue_for_admin s key Clear_BranchDropped applied_at_millis
             in (s, BranchDropped full parent_branches released))"

definition reset_head ::
  "NameServiceState \<Rightarrow> string \<Rightarrow> string \<Rightarrow> ResetHeadSnapshot \<Rightarrow> nat \<Rightarrow> NameServiceState \<times> Response" where
  "reset_head s ledger_id branch snapshot applied_at_millis =
     (let key = RefKey_new ledger_id branch;
          full = format_ledger_id ledger_id branch
      in if \<not> branch_known (st_ledgers s) ledger_id branch then (s, LedgerNotFound full)
         else if key \<in> st_retracted s then (s, LedgerRetracted full)
         else case rs_commit_head_id snapshot of
           None \<Rightarrow>
             let s = s\<lparr>st_refs := hm_remove (st_refs s) key\<rparr>;
                 (s, released) = clear_queue_for_admin s key Clear_BranchHeadReset applied_at_millis
             in (s, HeadReset full released)
         | Some head \<Rightarrow>
             let (prior_source, prior_branches) = (case hm_get (st_refs s) key of
                     Some r \<Rightarrow> (re_source_branch r, re_branches r)
                   | None \<Rightarrow> (None, 0));
                 idx = map_option (\<lambda>h. \<lparr>ix_head = h, ix_t = rs_index_t snapshot\<rparr>)
                         (rs_index_head_id snapshot);
                 s = s\<lparr>st_refs := hm_insert (st_refs s) key
                         \<lparr>re_head = head, re_t = rs_commit_t snapshot,
                          re_last_advanced_at_millis = 0, re_last_advanced_index = 0,
                          re_index = idx, re_source_branch = prior_source,
                          re_branches = prior_branches\<rparr>\<rparr>;
                 (s, released) = clear_queue_for_admin s key Clear_BranchHeadReset applied_at_millis
             in (s, HeadReset full released))"

definition apply_set_worker_eligibility ::
  "NameServiceState \<Rightarrow> WorkerEligibility \<Rightarrow> NameServiceState \<times> Response" where
  "apply_set_worker_eligibility s args =
     (let voter = we_voter args; eligible = we_eligible args
      in if voter \<notin> st_configured_voters s
         then (s, WorkerEligibilityRefused voter eligible VoterNotConfigured)
         else if eligible then
           (s\<lparr>st_worker_eligible_voters := insert voter (st_worker_eligible_voters s)\<rparr>,
            WorkerEligibilitySet voter eligible (voter \<notin> st_worker_eligible_voters s))
         else
           (s\<lparr>st_worker_eligible_voters := st_worker_eligible_voters s - {voter}\<rparr>,
            WorkerEligibilitySet voter eligible (voter \<in> st_worker_eligible_voters s)))"

end
