(* ===== verification/RaftRefs.thy ===== *)
theory RaftRefs
  imports RaftLifecycle
begin

text \<open>
  Ref and value publication commands of the replicated nameservice (\<open>state_machine.rs\<close>):
  index heads (\<open>set_index_head\<close> and its two callers), compare-and-set on commit and index
  heads, the versioned status and config pushes behind the trait \<open>VersionedValue\<close>, and graph
  source records.
\<close>

section \<open>Index heads\<close>

definition set_index_head ::
  "NameServiceState \<Rightarrow> NewIndexHead \<Rightarrow> (int \<Rightarrow> int \<Rightarrow> bool) \<Rightarrow> NameServiceState \<times> Response" where
  "set_index_head s args is_stale =
     (let ledger_id = ni_ledger_id args; branch = ni_branch args; t = ni_t args
      in if \<not> hm_contains (st_ledgers s) ledger_id then (s, LedgerNotFound ledger_id)
         else
           let ref_key = RefKey_new ledger_id branch in
           if ref_key \<in> st_retracted s then (s, LedgerRetracted (format_ledger_id ledger_id branch))
           else case hm_get (st_refs s) ref_key of
             None \<Rightarrow> (s, LedgerNotFound ledger_id)
           | Some entry \<Rightarrow>
               (case (case re_index entry of
                        Some existing \<Rightarrow> if is_stale (ix_t existing) t then Some (ix_t existing) else None
                      | None \<Rightarrow> None) of
                  Some current_t \<Rightarrow> (s, IndexStale current_t)
                | None \<Rightarrow>
                    if t > re_t entry then (s, IndexAhead (re_t entry) t)
                    else
                      (s\<lparr>st_refs := hm_insert (st_refs s) ref_key
                           (entry\<lparr>re_index := Some \<lparr>ix_head = ni_new_index_head args, ix_t = t\<rparr>,
                                  re_last_advanced_at_millis := ni_applied_at_millis args\<rparr>)\<rparr>,
                       IndexAdvanced t (ni_new_index_head args))))"

definition advance_index_head :: "NameServiceState \<Rightarrow> NewIndexHead \<Rightarrow> NameServiceState \<times> Response" where
  "advance_index_head s args = set_index_head s args (\<lambda>existing_t new_t. new_t \<le> existing_t)"

definition rewrite_index_head :: "NameServiceState \<Rightarrow> NewIndexHead \<Rightarrow> NameServiceState \<times> Response" where
  "rewrite_index_head s args = set_index_head s args (\<lambda>existing_t new_t. new_t < existing_t)"

section \<open>Compare-and-set\<close>

definition current_ref_value :: "NameServiceState \<Rightarrow> RefKey \<Rightarrow> RefKind \<Rightarrow> RefValue option" where
  "current_ref_value s key kind =
     (if \<not> branch_known (st_ledgers s) (rk_ledger_name key) (rk_branch key) then None
      else
        let entry = hm_get (st_refs s) key in
        Some (case kind of
            CommitHead \<Rightarrow>
              \<lparr>rv_id = map_option re_head entry,
               rv_t = (case entry of Some e \<Rightarrow> re_t e | None \<Rightarrow> 0)\<rparr>
          | IndexHead \<Rightarrow>
              \<lparr>rv_id = map_option ix_head (Option.bind entry re_index),
               rv_t = (case Option.bind entry re_index of Some i \<Rightarrow> ix_t i | None \<Rightarrow> 0)\<rparr>))"

definition apply_compare_and_set_ref ::
  "NameServiceState \<Rightarrow> nat \<Rightarrow> RefCas \<Rightarrow> NameServiceState \<times> Response" where
  "apply_compare_and_set_ref s log_index args =
     (let key = RefKey_new (rc_ledger_id args) (rc_branch args);
          full_ledger_id = format_ledger_id (rc_ledger_id args) (rc_branch args);
          kind = rc_kind args; new = rc_new args
      in case current_ref_value s key kind of
        None \<Rightarrow> (s, LedgerNotFound full_ledger_id)
      | Some current \<Rightarrow>
          if key \<in> st_retracted s then (s, LedgerRetracted full_ledger_id)
          else if \<not> (case rc_expected args of
                   None \<Rightarrow> rv_id current = None
                 | Some rv \<Rightarrow> current = rv)
            then (s, RefCasConflict (Some current))
          else if \<not> (case kind of
                   CommitHead \<Rightarrow> rv_t new > rv_t current
                 | IndexHead \<Rightarrow> rv_t new \<ge> rv_t current)
            then (s, RefCasConflict (Some current))
          else
            let (prior_index, prior_source, prior_branches) = (case hm_get (st_refs s) key of
                    Some r \<Rightarrow> (re_index r, re_source_branch r, re_branches r)
                  | None \<Rightarrow> (None, None, 0))
            in case kind of
              CommitHead \<Rightarrow>
                (case rv_id new of
                   None \<Rightarrow> (s, RefCasConflict (Some current))
                 | Some head \<Rightarrow>
                     (s\<lparr>st_refs := hm_insert (st_refs s) key
                          \<lparr>re_head = head, re_t = rv_t new,
                           re_last_advanced_at_millis = rc_applied_at_millis args,
                           re_last_advanced_index = log_index, re_index = prior_index,
                           re_source_branch = prior_source, re_branches = prior_branches\<rparr>\<rparr>,
                      RefCasUpdated))
            | IndexHead \<Rightarrow>
                (case hm_get (st_refs s) key of
                   None \<Rightarrow> (s, IndexAhead 0 (rv_t new))
                 | Some entry \<Rightarrow>
                     if rv_t new > re_t entry then (s, IndexAhead (re_t entry) (rv_t new))
                     else
                       (s\<lparr>st_refs := hm_insert (st_refs s) key
                            (entry\<lparr>re_index := map_option (\<lambda>h. \<lparr>ix_head = h, ix_t = rv_t new\<rparr>) (rv_id new),
                                   re_last_advanced_at_millis := rc_applied_at_millis args\<rparr>)\<rparr>,
                        RefCasUpdated)))"

section \<open>Versioned values\<close>

text \<open>
  The trait \<open>VersionedValue\<close> as a record of its methods, with the derived equality; the two
  implementations are the constants below.
\<close>

record 'a VersionedValue =
  vv_absent :: 'a
  vv_v :: "'a \<Rightarrow> int"
  vv_eq :: "'a \<Rightarrow> 'a \<Rightarrow> bool"
  vv_conflict :: "'a option \<Rightarrow> Response"
  vv_updated :: Response

definition VersionedValue_StoredStatus :: "StoredStatus VersionedValue" where
  "VersionedValue_StoredStatus =
     \<lparr>vv_absent = StoredStatus_initial, vv_v = ss_v, vv_eq = StoredStatus_eq,
      vv_conflict = StatusConflict, vv_updated = StatusUpdated\<rparr>"

definition VersionedValue_StoredConfig :: "StoredConfig VersionedValue" where
  "VersionedValue_StoredConfig =
     \<lparr>vv_absent = StoredConfig_unborn, vv_v = sc_v, vv_eq = StoredConfig_eq,
      vv_conflict = ConfigConflict, vv_updated = ConfigUpdated\<rparr>"

definition apply_versioned_push ::
  "'a VersionedValue \<Rightarrow> (string, LedgerRecord) hashmap \<Rightarrow> (string, 'a) hashmap \<Rightarrow>
   string \<Rightarrow> 'a option \<Rightarrow> 'a \<Rightarrow> (string, 'a) hashmap \<times> Response" where
  "apply_versioned_push T ledgers values ledger_id expected new =
     (case split_ledger_id ledger_id of
        Inl _ \<Rightarrow> (values, vv_conflict T None)
      | Inr (name, branch) \<Rightarrow>
          if \<not> branch_known ledgers name branch then (values, vv_conflict T None)
          else
            let current = (case hm_get values ledger_id of Some v \<Rightarrow> v | None \<Rightarrow> vv_absent T) in
            if \<not> (case expected of Some e \<Rightarrow> vv_eq T e current | None \<Rightarrow> False)
            then (values, vv_conflict T (Some current))
            else if vv_v T new \<le> vv_v T current then (values, vv_conflict T (Some current))
            else (hm_insert values ledger_id new, vv_updated T))"

section \<open>Graph sources\<close>

definition apply_publish_graph_source ::
  "NameServiceState \<Rightarrow> string \<Rightarrow> string \<Rightarrow> GraphSourceType \<Rightarrow> string \<Rightarrow> string list
     \<Rightarrow> NameServiceState \<times> Response" where
  "apply_publish_graph_source s name branch source_type config dependencies =
     (let graph_source_id = format_ledger_id name branch;
          record' = (case hm_get (st_graph_sources s) graph_source_id of
              Some r \<Rightarrow> r\<lparr>gs_source_type := source_type, gs_config := config,
                          gs_dependencies := dependencies\<rparr>
            | None \<Rightarrow> GraphSourceRecord_new name branch source_type config dependencies)
      in (s\<lparr>st_graph_sources := hm_insert (st_graph_sources s) graph_source_id record'\<rparr>,
          GraphSourcePublished))"

definition apply_publish_graph_source_index ::
  "NameServiceState \<Rightarrow> string \<Rightarrow> string \<Rightarrow> ContentId \<Rightarrow> int \<Rightarrow> NameServiceState \<times> Response" where
  "apply_publish_graph_source_index s name branch index_id index_t =
     (let graph_source_id = format_ledger_id name branch
      in case hm_get (st_graph_sources s) graph_source_id of
        None \<Rightarrow> (s, GraphSourceNotFound graph_source_id)
      | Some r \<Rightarrow>
          if index_t \<le> gs_index_t r then (s, GraphSourceIndexStale (gs_index_t r))
          else
            (s\<lparr>st_graph_sources := hm_insert (st_graph_sources s) graph_source_id
                 (r\<lparr>gs_index_id := Some index_id, gs_index_t := index_t\<rparr>)\<rparr>,
             GraphSourceIndexAdvanced index_t))"

definition apply_retract_graph_source ::
  "NameServiceState \<Rightarrow> string \<Rightarrow> string \<Rightarrow> NameServiceState \<times> Response" where
  "apply_retract_graph_source s name branch =
     (let graph_source_id = format_ledger_id name branch
      in case hm_get (st_graph_sources s) graph_source_id of
        Some r \<Rightarrow>
          if \<not> gs_retracted r then
            (s\<lparr>st_graph_sources := hm_insert (st_graph_sources s) graph_source_id
                 (r\<lparr>gs_retracted := True\<rparr>)\<rparr>,
             GraphSourceRetracted graph_source_id)
          else (s, GraphSourceAlreadyRetracted graph_source_id)
      | None \<Rightarrow> (s, GraphSourceAlreadyRetracted graph_source_id))"

end
