(* ===== verification/RaftQueue.thy ===== *)
theory RaftQueue
  imports RaftRefs
begin

text \<open>
  The replicated command queue (\<open>state_machine.rs\<close>): enqueueing with idempotency and depth
  caps, the validated pop shared by \<open>ApplyHead\<close> and \<open>PoisonQueueEntry\<close>, and the batched
  eviction of idempotency records and clear markers.
\<close>

section \<open>Enqueue\<close>

text \<open>The in-flight scan: the first queued entry under the same idempotency key.\<close>

fun find_in_flight :: "QueueEntry list \<Rightarrow> IdempotencyCacheKey \<Rightarrow> QueueEntry option" where
  "find_in_flight [] key = None"
| "find_in_flight (e # es) key =
     (if qe_idempotency e = Some key then Some e else find_in_flight es key)"

definition queue_of :: "NameServiceState \<Rightarrow> RefKey \<Rightarrow> QueueEntry list" where
  "queue_of s k = (case hm_get (st_queues s) k of Some q \<Rightarrow> q | None \<Rightarrow> [])"

definition global_depth :: "NameServiceState \<Rightarrow> nat" where
  "global_depth s = sum_list (map length (hm_values (st_queues s)))"

text \<open>
  Steps 1 and 2 of \<open>apply_enqueue_command\<close>: an answer from the idempotency cache or from the
  queue, if there is one.
\<close>

definition dedup_response ::
  "NameServiceState \<Rightarrow> RefKey \<Rightarrow> string \<Rightarrow> IdempotencyCacheKey option \<Rightarrow> ContentId \<Rightarrow> Response option" where
  "dedup_response s ref_key full_ledger_id idempotency body_cid =
     (case idempotency of
        None \<Rightarrow> None
      | Some key \<Rightarrow>
          (case hm_get (st_idempotency s) key of
             Some outcome \<Rightarrow>
               if ao_body_cid outcome \<noteq> body_cid then Some BodyHashMismatch
               else (case outcome of
                   Applied r \<Rightarrow> Some (IdempotencyHit r)
                 | Failed r \<Rightarrow> Some (IdempotencyFailed r))
           | None \<Rightarrow>
               (case find_in_flight (queue_of s ref_key) key of
                  Some e \<Rightarrow>
                    if qe_body_cid e = body_cid then Some (InFlight full_ledger_id (qe_queue_id e))
                    else Some BodyHashMismatch
                | None \<Rightarrow> None)))"

definition apply_enqueue_command ::
  "NameServiceState \<Rightarrow> nat \<Rightarrow> QueueSubmission \<Rightarrow> NameServiceState \<times> Response" where
  "apply_enqueue_command s log_index args =
     (let ledger_id = qs_ledger_id args; branch = qs_branch args;
          full_ledger_id = format_ledger_id ledger_id branch;
          ref_key = RefKey_new ledger_id branch
      in if \<not> branch_known (st_ledgers s) ledger_id branch then (s, LedgerNotFound full_ledger_id)
         else if ref_key \<in> st_retracted s then (s, LedgerRetracted full_ledger_id)
         else case dedup_response s ref_key full_ledger_id (qs_idempotency args) (qs_body_cid args) of
           Some r \<Rightarrow> (s, r)
         | None \<Rightarrow>
             let per_branch_cap = qc_per_branch_cap (st_queue_config s);
                 per_branch_depth = length (queue_of s ref_key);
                 global_cap = qc_global_cap (st_queue_config s)
             in if per_branch_depth \<ge> per_branch_cap
                then (s, QueueFull full_ledger_id per_branch_depth per_branch_cap PerBranch)
                else if global_depth s \<ge> global_cap
                then (s, QueueFull full_ledger_id (global_depth s) global_cap Global)
                else
                  let queue_id = st_next_queue_id s;
                      entry = \<lparr>qe_queue_id = queue_id, qe_enqueued_index = log_index,
                               qe_enqueued_at_millis = qs_applied_at_millis args,
                               qe_idempotency = qs_idempotency args,
                               qe_request_cid = qs_request_cid args,
                               qe_body_cid = qs_body_cid args, qe_body_kind = qs_body_kind args\<rparr>
                  in (s\<lparr>st_recently_cleared := hm_remove (st_recently_cleared s) ref_key,
                        st_next_queue_id := u64_wrapping_succ (st_next_queue_id s),
                        st_queues := hm_insert (st_queues s) ref_key (queue_of s ref_key @ [entry])\<rparr>,
                      Enqueued full_ledger_id queue_id))"

section \<open>Popping the front\<close>

text \<open>
  \<open>Inl\<close> is the \<open>QueueDesync\<close> response to propagate; the state is returned on both sides, since
  the clear marker is consumed even when the pop is refused.
\<close>

definition pop_validated_front ::
  "NameServiceState \<Rightarrow> RefKey \<Rightarrow> string \<Rightarrow> nat \<Rightarrow> NameServiceState \<times> (Response + QueueEntry)" where
  "pop_validated_front s ref_key full_ledger_id requested_queue_id =
     (case hm_get (st_recently_cleared s) ref_key of
        Some marker \<Rightarrow>
          (s\<lparr>st_recently_cleared := hm_remove (st_recently_cleared s) ref_key\<rparr>,
           Inl (QueueDesync full_ledger_id requested_queue_id (QueueCleared (cm_reason marker))))
      | None \<Rightarrow>
          (case hm_get (st_queues s) ref_key of
             None \<Rightarrow> (s, Inl (QueueDesync full_ledger_id requested_queue_id InvariantViolated))
           | Some [] \<Rightarrow> (s, Inl (QueueDesync full_ledger_id requested_queue_id InvariantViolated))
           | Some (front # rest) \<Rightarrow>
               if qe_queue_id front \<noteq> requested_queue_id
               then (s, Inl (QueueDesync full_ledger_id requested_queue_id
                       (WrongFront (qe_queue_id front))))
               else (s\<lparr>st_queues := hm_insert (st_queues s) ref_key rest\<rparr>, Inr front)))"

definition drop_queue_if_empty :: "NameServiceState \<Rightarrow> RefKey \<Rightarrow> NameServiceState" where
  "drop_queue_if_empty s ref_key =
     (if hm_get (st_queues s) ref_key = Some []
      then s\<lparr>st_queues := hm_remove (st_queues s) ref_key\<rparr> else s)"

text \<open>
  The tail both consumers share: a keyed entry's envelope is held by its idempotency record,
  a keyless entry's envelope is handed back for release.
\<close>

definition record_outcome ::
  "NameServiceState \<Rightarrow> QueueEntry \<Rightarrow> ApplyOutcome \<Rightarrow> NameServiceState \<times> ContentId option" where
  "record_outcome s entry outcome =
     (case qe_idempotency entry of
        Some key \<Rightarrow> (s\<lparr>st_idempotency := hm_insert (st_idempotency s) key outcome\<rparr>, None)
      | None \<Rightarrow> (s, Some (qe_request_cid entry)))"

section \<open>ApplyHead\<close>

definition advance_ref_entry :: "NameServiceState \<Rightarrow> nat \<Rightarrow> StagedHead \<Rightarrow> NameServiceState" where
  "advance_ref_entry s log_index args =
     (let ref_key = RefKey_new (sh_ledger_id args) (sh_branch args)
      in s\<lparr>st_refs := hm_insert (st_refs s) ref_key
            (case hm_get (st_refs s) ref_key of
               Some existing \<Rightarrow>
                 existing\<lparr>re_head := sh_commit_id args, re_t := sh_commit_t args,
                          re_last_advanced_at_millis := sh_applied_at_millis args,
                          re_last_advanced_index := log_index\<rparr>
             | None \<Rightarrow>
                 \<lparr>re_head = sh_commit_id args, re_t = sh_commit_t args,
                  re_last_advanced_at_millis = sh_applied_at_millis args,
                  re_last_advanced_index = log_index, re_index = None,
                  re_source_branch = None, re_branches = 0\<rparr>)\<rparr>)"

definition self_heal_branch :: "NameServiceState \<Rightarrow> string \<Rightarrow> string \<Rightarrow> NameServiceState" where
  "self_heal_branch s ledger_id branch =
     (case hm_get (st_ledgers s) ledger_id of
        Some ledger \<Rightarrow>
          if \<not> List.member (lr_branches ledger) branch then
            s\<lparr>st_ledgers := hm_insert (st_ledgers s) ledger_id
                (ledger\<lparr>lr_branches := lr_branches ledger @ [branch]\<rparr>)\<rparr>
          else s
      | None \<Rightarrow> s)"

definition apply_head :: "NameServiceState \<Rightarrow> nat \<Rightarrow> StagedHead \<Rightarrow> NameServiceState \<times> Response" where
  "apply_head s log_index args =
     (let ledger_id = sh_ledger_id args; branch = sh_branch args;
          queue_id = sh_queue_id args; commit_t = sh_commit_t args;
          full_ledger_id = format_ledger_id ledger_id branch;
          ref_key = RefKey_new ledger_id branch
      in if ref_key \<in> st_retracted s then (s, LedgerRetracted full_ledger_id)
         else case pop_validated_front s ref_key full_ledger_id queue_id of
           (s, Inl resp) \<Rightarrow> (s, resp)
         | (s, Inr entry) \<Rightarrow>
             (case (case hm_get (st_refs s) ref_key of
                      Some r \<Rightarrow> if commit_t \<le> re_t r then Some (re_t r) else None
                    | None \<Rightarrow> None) of
                Some current_t \<Rightarrow>
                  (s\<lparr>st_queues := hm_insert (st_queues s) ref_key (entry # queue_of s ref_key)\<rparr>,
                   QueueDesync full_ledger_id queue_id (HeadNotMonotonic current_t commit_t))
              | None \<Rightarrow>
                  let s = drop_queue_if_empty s ref_key;
                      s = advance_ref_entry s log_index args;
                      s = self_heal_branch s ledger_id branch;
                      (s, released_envelope) = record_outcome s entry
                        (Applied \<lparr>ar_request_cid = qe_request_cid entry,
                           ar_body_cid = qe_body_cid entry, ar_body_kind = qe_body_kind entry,
                           ar_recorded_at_millis = sh_applied_at_millis args,
                           ar_head = sh_commit_id args, ar_t = commit_t,
                           ar_recorded_index = log_index, ar_tally = sh_tally args,
                           ar_flake_count = sh_flake_count args\<rparr>)
                  in (s, HeadApplied full_ledger_id (sh_commit_id args) commit_t released_envelope)))"

section \<open>PoisonQueueEntry\<close>

definition apply_poison_queue_entry ::
  "NameServiceState \<Rightarrow> nat \<Rightarrow> EntryPoisoning \<Rightarrow> NameServiceState \<times> Response" where
  "apply_poison_queue_entry s log_index args =
     (let full_ledger_id = format_ledger_id (ep_ledger_id args) (ep_branch args);
          ref_key = RefKey_new (ep_ledger_id args) (ep_branch args)
      in case pop_validated_front s ref_key full_ledger_id (ep_queue_id args) of
           (s, Inl resp) \<Rightarrow> (s, resp)
         | (s, Inr entry) \<Rightarrow>
             let s = drop_queue_if_empty s ref_key;
                 (s, released_envelope) = record_outcome s entry
                   (Failed \<lparr>pr_request_cid = qe_request_cid entry, pr_body_cid = qe_body_cid entry,
                      pr_reason = ep_reason args, pr_recorded_index = log_index,
                      pr_recorded_at_millis = ep_applied_at_millis args\<rparr>)
             in (s, Poisoned full_ledger_id (ep_queue_id args) (ep_reason args) released_envelope))"

section \<open>EvictIdempotency\<close>

definition EVICT_BATCH_SIZE :: nat where
  "EVICT_BATCH_SIZE = 1024"

definition expired_entries ::
  "(IdempotencyCacheKey, ApplyOutcome) hashmap \<Rightarrow> nat \<Rightarrow> (nat \<times> nat \<times> IdempotencyCacheKey) list" where
  "expired_entries m cutoff_millis =
     map (\<lambda>(key, outcome). (ao_recorded_at_millis outcome, ao_recorded_index outcome, key))
       (filter (\<lambda>(key, outcome). ao_recorded_at_millis outcome < cutoff_millis) m)"

definition eviction_batch ::
  "(IdempotencyCacheKey, ApplyOutcome) hashmap \<Rightarrow> nat \<Rightarrow> (nat \<times> nat \<times> IdempotencyCacheKey) list" where
  "eviction_batch m cutoff_millis =
     take EVICT_BATCH_SIZE (sort_key (\<lambda>(at, idx, _). (at, idx)) (expired_entries m cutoff_millis))"

fun evict_keys ::
  "(IdempotencyCacheKey, ApplyOutcome) hashmap \<Rightarrow> (nat \<times> nat \<times> IdempotencyCacheKey) list
     \<Rightarrow> (IdempotencyCacheKey, ApplyOutcome) hashmap \<times> (string \<times> ContentId) list" where
  "evict_keys m [] = (m, [])"
| "evict_keys m ((_, _, key) # rest) =
     (case hm_get m key of
        Some outcome \<Rightarrow>
          let (m', released) = evict_keys (hm_remove m key) rest
          in (m', (ik_ledger_id key, ao_request_cid outcome) # released)
      | None \<Rightarrow> evict_keys m rest)"

definition apply_evict_idempotency ::
  "NameServiceState \<Rightarrow> nat \<Rightarrow> nat \<Rightarrow> NameServiceState \<times> Response" where
  "apply_evict_idempotency s cutoff_millis marker_cutoff_millis =
     (let expired = eviction_batch (st_idempotency s) cutoff_millis;
          (idempotency, released_envelopes) = evict_keys (st_idempotency s) expired;
          removed = length expired
      in (s\<lparr>st_idempotency := idempotency,
            st_evicted_idempotency_count := u64_add (st_evicted_idempotency_count s) removed,
            st_recently_cleared :=
              hm_retain (\<lambda>marker. cm_applied_at_millis marker \<ge> marker_cutoff_millis)
                (st_recently_cleared s)\<rparr>,
          EvictionApplied removed released_envelopes))"

end
