(* ===== verification/RaftMachine.thy ===== *)
theory RaftMachine
  imports RaftQueue
begin

text \<open>
  The replicated state machine as a whole: \<open>apply\<close> (\<open>state_machine.rs\<close>) and the openraft
  adapter around it (\<open>state_machine_adapter.rs\<close>), which applies a batch of log entries, mirrors
  membership changes into the state, and derives from each command and response the event to
  publish, the waiter to wake and the envelopes to release.

  The log entry of openraft is its index and its payload; of a membership payload the adapter
  reads the voter ids only.
\<close>

section \<open>apply\<close>

fun apply_command :: "NameServiceState \<Rightarrow> Command \<Rightarrow> nat \<Rightarrow> NameServiceState \<times> Response" where
  "apply_command s (AdvanceIndexHead args) log_index = advance_index_head s args"
| "apply_command s (RewriteIndexHead args) log_index = rewrite_index_head s args"
| "apply_command s (CreateLedger args) log_index = create_ledger s log_index args"
| "apply_command s (CreateBranch args) log_index = create_branch s log_index args"
| "apply_command s (DropBranch ledger_id branch at) log_index = drop_branch s ledger_id branch at"
| "apply_command s (ResetHead ledger_id branch snapshot at) log_index =
     reset_head s ledger_id branch snapshot at"
| "apply_command s (RetractLedger ledger_id branch at) log_index =
     retract_ledger s ledger_id branch at"
| "apply_command s (PurgeBranch ledger_id branch at) log_index = purge_branch s ledger_id branch at"
| "apply_command s (ReleaseContent _) log_index = (s, NoOp)"
| "apply_command s (CompareAndSetRef args) log_index = apply_compare_and_set_ref s log_index args"
| "apply_command s (PushStatus ledger_id expected new) log_index =
     (let (values, r) = apply_versioned_push VersionedValue_StoredStatus (st_ledgers s)
            (st_status s) ledger_id expected new
      in (s\<lparr>st_status := values\<rparr>, r))"
| "apply_command s (PushConfig args) log_index =
     (let (values, r) = apply_versioned_push VersionedValue_StoredConfig (st_ledgers s)
            (st_config s) (cu_ledger_id args) (cu_expected args) (cu_new args)
      in (s\<lparr>st_config := values\<rparr>, r))"
| "apply_command s (PublishGraphSource name branch source_type config dependencies) log_index =
     apply_publish_graph_source s name branch source_type config dependencies"
| "apply_command s (PublishGraphSourceIndex name branch index_id index_t) log_index =
     apply_publish_graph_source_index s name branch index_id index_t"
| "apply_command s (RetractGraphSource name branch) log_index =
     apply_retract_graph_source s name branch"
| "apply_command s (EnqueueCommand args) log_index = apply_enqueue_command s log_index args"
| "apply_command s (ApplyHead args) log_index = apply_head s log_index args"
| "apply_command s (PoisonQueueEntry args) log_index = apply_poison_queue_entry s log_index args"
| "apply_command s (EvictIdempotency cutoff_millis marker_cutoff_millis) log_index =
     apply_evict_idempotency s cutoff_millis marker_cutoff_millis"
| "apply_command s (SetWorkerEligibility args) log_index = apply_set_worker_eligibility s args"

section \<open>The adapter\<close>

datatype NameServiceEvent =
    Event_LedgerCommitPublished string ContentId int
  | Event_LedgerIndexPublished string ContentId int
  | Event_LedgerRetracted string
  | Event_GraphSourceConfigPublished string GraphSourceType "string list"
  | Event_GraphSourceIndexPublished string ContentId int
  | Event_GraphSourceRetracted string

datatype AbortReason =
    Abort_BranchDropped | Abort_BranchPurged | Abort_BranchHeadReset | Abort_BranchRetracted
  | Abort_SnapshotInstalled | Abort_Poisoned PoisonReason

datatype WaiterResolution =
    Resolution_Applied nat ContentId int
  | Resolution_Aborted nat AbortReason
  | Resolution_AbortBranch RefKey AbortReason

definition waiter_resolution_for :: "Command \<Rightarrow> Response \<Rightarrow> WaiterResolution option" where
  "waiter_resolution_for cmd response =
     (case (cmd, response) of
        (ApplyHead args, HeadApplied _ commit_id commit_t _) \<Rightarrow>
          Some (Resolution_Applied (sh_queue_id args) commit_id commit_t)
      | (PoisonQueueEntry _, Poisoned _ queue_id reason _) \<Rightarrow>
          Some (Resolution_Aborted queue_id (Abort_Poisoned reason))
      | (DropBranch ledger_id branch _, BranchDropped _ _ _) \<Rightarrow>
          Some (Resolution_AbortBranch (RefKey_new ledger_id branch) Abort_BranchDropped)
      | (PurgeBranch ledger_id branch _, Purged _ _) \<Rightarrow>
          Some (Resolution_AbortBranch (RefKey_new ledger_id branch) Abort_BranchPurged)
      | (ResetHead ledger_id branch _ _, HeadReset _ _) \<Rightarrow>
          Some (Resolution_AbortBranch (RefKey_new ledger_id branch) Abort_BranchHeadReset)
      | (RetractLedger ledger_id branch _, Retracted _ _) \<Rightarrow>
          Some (Resolution_AbortBranch (RefKey_new ledger_id branch) Abort_BranchRetracted)
      | _ \<Rightarrow> None)"

definition event_for :: "Command \<Rightarrow> Response \<Rightarrow> NameServiceEvent option" where
  "event_for cmd response =
     (case (cmd, response) of
        (ApplyHead args, HeadApplied _ commit_id commit_t _) \<Rightarrow>
          Some (Event_LedgerCommitPublished (format_ledger_id (sh_ledger_id args) (sh_branch args))
                  commit_id commit_t)
      | (AdvanceIndexHead args, IndexAdvanced index_t index_head) \<Rightarrow>
          Some (Event_LedgerIndexPublished (format_ledger_id (ni_ledger_id args) (ni_branch args))
                  index_head index_t)
      | (RetractLedger _ _ _, Retracted ledger_id _) \<Rightarrow> Some (Event_LedgerRetracted ledger_id)
      | (PurgeBranch _ _ _, Purged ledger_id _) \<Rightarrow> Some (Event_LedgerRetracted ledger_id)
      | (DropBranch _ _ _, BranchDropped ledger_id _ _) \<Rightarrow> Some (Event_LedgerRetracted ledger_id)
      | (CreateBranch _, BranchCreated ledger_id head t) \<Rightarrow>
          Some (Event_LedgerCommitPublished ledger_id head t)
      | _ \<Rightarrow> None)"

text \<open>The releases a response carries, and the response with them taken out.\<close>

fun drain_releases :: "Response \<Rightarrow> Response \<times> (string \<times> ContentId) list" where
  "drain_releases (EvictionApplied n rel) = (EvictionApplied n [], rel)"
| "drain_releases (Purged l rel) = (Purged l [], rel)"
| "drain_releases (BranchDropped l p rel) = (BranchDropped l p [], rel)"
| "drain_releases (HeadReset l rel) = (HeadReset l [], rel)"
| "drain_releases (Retracted l rel) = (Retracted l [], rel)"
| "drain_releases (HeadApplied l c t (Some cid)) = (HeadApplied l c t None, [(l, cid)])"
| "drain_releases (Poisoned l q r (Some cid)) = (Poisoned l q r None, [(l, cid)])"
| "drain_releases r = (r, [])"

datatype EntryPayload = Blank | Normal Command | Membership "NodeId set"

type_synonym LogEntry = "nat \<times> EntryPayload"

record EntryEffects =
  ef_response :: Response
  ef_event :: "NameServiceEvent option"
  ef_resolution :: "WaiterResolution option"
  ef_releases :: "(string \<times> ContentId) list"

text \<open>\<open>EntryPayload::Membership\<close>: surviving demotions stay demoted, new voters start eligible.\<close>

definition apply_membership :: "NameServiceState \<Rightarrow> NodeId set \<Rightarrow> NameServiceState" where
  "apply_membership s new_voters =
     (let surviving_demotions =
            (st_configured_voters s - st_worker_eligible_voters s) \<inter> new_voters
      in s\<lparr>st_worker_eligible_voters := new_voters - surviving_demotions,
           st_configured_voters := new_voters\<rparr>)"

text \<open>One iteration of the adapter's loop over the entries.\<close>

definition apply_entry :: "NameServiceState \<Rightarrow> LogEntry \<Rightarrow> NameServiceState \<times> EntryEffects" where
  "apply_entry s entry =
     (case entry of (log_index, payload) \<Rightarrow>
        (case payload of
           Blank \<Rightarrow>
             (s, \<lparr>ef_response = NoOp, ef_event = None, ef_resolution = None, ef_releases = []\<rparr>)
         | Normal cmd \<Rightarrow>
             (let (s', response) = apply_command s cmd log_index;
                  (response', releases) = drain_releases response
              in (s', \<lparr>ef_response = response', ef_event = event_for cmd response,
                       ef_resolution = waiter_resolution_for cmd response,
                       ef_releases = releases\<rparr>))
         | Membership voters \<Rightarrow>
             (apply_membership s voters,
              \<lparr>ef_response = NoOp, ef_event = None, ef_resolution = None, ef_releases = []\<rparr>)))"

text \<open>The adapter's own fields the apply path reads and writes.\<close>

record StateMachineAdapter =
  ad_state :: NameServiceState
  ad_last_applied :: "nat option"
  ad_last_membership :: "NodeId set"

definition StateMachineAdapter_new :: StateMachineAdapter where
  "StateMachineAdapter_new =
     \<lparr>ad_state = NameServiceState_new, ad_last_applied = None, ad_last_membership = {}\<rparr>"

definition adapter_step :: "StateMachineAdapter \<Rightarrow> LogEntry \<Rightarrow> StateMachineAdapter \<times> EntryEffects" where
  "adapter_step a entry =
     (let (s, ef) = apply_entry (ad_state a) entry
      in (a\<lparr>ad_state := s, ad_last_applied := Some (fst entry),
            ad_last_membership := (case snd entry of Membership m \<Rightarrow> m | _ \<Rightarrow> ad_last_membership a)\<rparr>,
          ef))"

text \<open>The whole batch: \<open>RaftStateMachine::apply\<close>.\<close>

definition adapter_apply ::
  "StateMachineAdapter \<Rightarrow> LogEntry list \<Rightarrow> StateMachineAdapter \<times> EntryEffects list" where
  "adapter_apply a entries = run_log adapter_step a entries"

section \<open>Replicas\<close>

text \<open>
  Two states that hold the same content, each with hash maps in its own layout (Rust's
  \<open>PartialEq\<close> on the state).
\<close>

definition state_eqv :: "NameServiceState \<Rightarrow> NameServiceState \<Rightarrow> bool" where
  "state_eqv s t \<longleftrightarrow>
     hm_eq (st_refs s) (st_refs t) \<and> hm_eq (st_ledgers s) (st_ledgers t) \<and>
     st_retracted s = st_retracted t \<and> hm_eq (st_idempotency s) (st_idempotency t) \<and>
     hm_eq (st_queues s) (st_queues t) \<and> st_next_queue_id s = st_next_queue_id t \<and>
     hm_eq (st_recently_cleared s) (st_recently_cleared t) \<and>
     st_evicted_idempotency_count s = st_evicted_idempotency_count t \<and>
     st_queue_config s = st_queue_config t \<and> hm_eq (st_status s) (st_status t) \<and>
     hm_eq (st_config s) (st_config t) \<and> hm_eq (st_graph_sources s) (st_graph_sources t) \<and>
     st_worker_eligible_voters s = st_worker_eligible_voters t \<and>
     st_configured_voters s = st_configured_voters t"

definition state_wf :: "NameServiceState \<Rightarrow> bool" where
  "state_wf s \<longleftrightarrow>
     hm_wf (st_refs s) \<and> hm_wf (st_ledgers s) \<and> hm_wf (st_idempotency s) \<and> hm_wf (st_queues s)
     \<and> hm_wf (st_recently_cleared s) \<and> hm_wf (st_status s) \<and> hm_wf (st_config s)
     \<and> hm_wf (st_graph_sources s)"

definition adapter_eqv :: "StateMachineAdapter \<Rightarrow> StateMachineAdapter \<Rightarrow> bool" where
  "adapter_eqv a b \<longleftrightarrow> state_eqv (ad_state a) (ad_state b) \<and> ad_last_applied a = ad_last_applied b
     \<and> ad_last_membership a = ad_last_membership b"

text \<open>
  What openraft guarantees of the entries it hands over: log indexes grow, and an index and
  its successor are \<open>u64\<close>. \<open>next_index\<close> is the first index not yet applied.
\<close>

definition next_index :: "StateMachineAdapter \<Rightarrow> nat" where
  "next_index a = (case ad_last_applied a of None \<Rightarrow> 0 | Some i \<Rightarrow> i + 1)"

definition entry_ok :: "StateMachineAdapter \<Rightarrow> LogEntry \<Rightarrow> bool" where
  "entry_ok a entry \<longleftrightarrow> next_index a \<le> fst entry \<and> fst entry + 1 < 2 ^ 64"

text \<open>
  One entry applied on one replica. The code decides the content of the new state; how its
  hash maps lay that content out, and so the order in which a later iteration sees it, is up
  to the replica.
\<close>

inductive raft_step :: "StateMachineAdapter \<Rightarrow> LogEntry \<Rightarrow> EntryEffects \<Rightarrow> StateMachineAdapter \<Rightarrow> bool" where
  raft_stepI:
    "entry_ok a entry \<Longrightarrow> adapter_step a entry = (a', ef) \<Longrightarrow> adapter_eqv a' b \<Longrightarrow>
     state_wf (ad_state b) \<Longrightarrow> raft_step a entry ef b"

inductive_simps raft_step_iff: "raft_step a entry ef b"

text \<open>The states a replica can be in after applying some log from the start.\<close>

abbreviation raft_trace where
  "raft_trace \<equiv> trace raft_step StateMachineAdapter_new"

end
