(* ===== verification/RaftEffects.thy ===== *)
theory RaftEffects
  imports RaftMachine
begin

text \<open>
  How each command changes the state: field by field for the helpers, and as case rules for
  the queue commands (\<open>enqueue_cases\<close>, \<open>apply_head_cases\<close>, \<open>poison_cases\<close>), which say exactly in
  which states a command is refused and what it leaves behind when it is not. The invariant
  proofs rest on these facts and do not unfold the commands again.
\<close>

section \<open>How the helpers change the state\<close>

lemma branch_known_insert [simp]:
  "branch_known (hm_insert m l r) l' b = (if l' = l then b \<in> set (lr_branches r) else branch_known m l' b)"
  by (simp add: branch_known_def)

lemma branch_known_get: "hm_get m l = Some r \<Longrightarrow> branch_known m l b \<longleftrightarrow> b \<in> set (lr_branches r)"
  by (simp add: branch_known_def)

lemma branch_known_empty [simp]: "\<not> branch_known hm_empty l b"
  by (simp add: branch_known_def)

lemma clear_queue_simps [simp]:
  "st_refs (fst (clear_queue_for_admin s k r at)) = st_refs s"
  "st_ledgers (fst (clear_queue_for_admin s k r at)) = st_ledgers s"
  "st_retracted (fst (clear_queue_for_admin s k r at)) = st_retracted s"
  "st_idempotency (fst (clear_queue_for_admin s k r at)) = st_idempotency s"
  "st_next_queue_id (fst (clear_queue_for_admin s k r at)) = st_next_queue_id s"
  "st_evicted_idempotency_count (fst (clear_queue_for_admin s k r at)) = st_evicted_idempotency_count s"
  "st_queue_config (fst (clear_queue_for_admin s k r at)) = st_queue_config s"
  "st_status (fst (clear_queue_for_admin s k r at)) = st_status s"
  "st_config (fst (clear_queue_for_admin s k r at)) = st_config s"
  "st_graph_sources (fst (clear_queue_for_admin s k r at)) = st_graph_sources s"
  "st_worker_eligible_voters (fst (clear_queue_for_admin s k r at)) = st_worker_eligible_voters s"
  "st_configured_voters (fst (clear_queue_for_admin s k r at)) = st_configured_voters s"
  by (simp_all add: clear_queue_for_admin_def Let_def split: option.split)

lemma clear_queue_queues [simp]:
  "st_queues (fst (clear_queue_for_admin s k r at)) = hm_remove (st_queues s) k"
  by (simp add: clear_queue_for_admin_def Let_def hm_remove_absent split: option.split)

lemma clear_queue_markers [simp]:
  "st_recently_cleared (fst (clear_queue_for_admin s k r at)) =
    (if queue_of s k = [] then st_recently_cleared s
     else hm_insert (st_recently_cleared s) k \<lparr>cm_reason = r, cm_applied_at_millis = at\<rparr>)"
  by (auto simp: clear_queue_for_admin_def queue_of_def Let_def split: option.split)

lemma clear_queue_released [simp]:
  "snd (clear_queue_for_admin s k r at) = map (\<lambda>e. (RefKey_ledger_id k, qe_request_cid e)) (queue_of s k)"
  by (auto simp: clear_queue_for_admin_def queue_of_def Let_def split: option.split)

lemma decrement_simps [simp]:
  "st_ledgers (fst (decrement_child_count s l p)) = st_ledgers s"
  "st_retracted (fst (decrement_child_count s l p)) = st_retracted s"
  "st_idempotency (fst (decrement_child_count s l p)) = st_idempotency s"
  "st_queues (fst (decrement_child_count s l p)) = st_queues s"
  "st_next_queue_id (fst (decrement_child_count s l p)) = st_next_queue_id s"
  "st_recently_cleared (fst (decrement_child_count s l p)) = st_recently_cleared s"
  "st_evicted_idempotency_count (fst (decrement_child_count s l p)) = st_evicted_idempotency_count s"
  "st_queue_config (fst (decrement_child_count s l p)) = st_queue_config s"
  "st_status (fst (decrement_child_count s l p)) = st_status s"
  "st_config (fst (decrement_child_count s l p)) = st_config s"
  "st_graph_sources (fst (decrement_child_count s l p)) = st_graph_sources s"
  "st_worker_eligible_voters (fst (decrement_child_count s l p)) = st_worker_eligible_voters s"
  "st_configured_voters (fst (decrement_child_count s l p)) = st_configured_voters s"
  by (simp_all add: decrement_child_count_def Let_def split: option.split)

lemma decrement_refs:
  "hm_get (st_refs (fst (decrement_child_count s l p))) k =
    (if k = RefKey_new l p
     then map_option (\<lambda>e. e\<lparr>re_branches := re_branches e - 1\<rparr>) (hm_get (st_refs s) k)
     else hm_get (st_refs s) k)"
  by (simp add: decrement_child_count_def Let_def u32_saturating_pred_def split: option.split)

lemma decrement_refs_wf [simp]:
  "hm_wf (st_refs s) \<Longrightarrow> hm_wf (st_refs (fst (decrement_child_count s l p)))"
  by (simp add: decrement_child_count_def Let_def split: option.split)

lemma unregister_simps [simp]:
  "st_refs (fst (unregister_branch s l b)) = st_refs s"
  "st_retracted (fst (unregister_branch s l b)) = st_retracted s"
  "st_idempotency (fst (unregister_branch s l b)) = st_idempotency s"
  "st_queues (fst (unregister_branch s l b)) = st_queues s"
  "st_next_queue_id (fst (unregister_branch s l b)) = st_next_queue_id s"
  "st_recently_cleared (fst (unregister_branch s l b)) = st_recently_cleared s"
  "st_evicted_idempotency_count (fst (unregister_branch s l b)) = st_evicted_idempotency_count s"
  "st_queue_config (fst (unregister_branch s l b)) = st_queue_config s"
  "st_status (fst (unregister_branch s l b)) = st_status s"
  "st_config (fst (unregister_branch s l b)) = st_config s"
  "st_graph_sources (fst (unregister_branch s l b)) = st_graph_sources s"
  "st_worker_eligible_voters (fst (unregister_branch s l b)) = st_worker_eligible_voters s"
  "st_configured_voters (fst (unregister_branch s l b)) = st_configured_voters s"
  by (simp_all add: unregister_branch_def Let_def split: option.split)

lemma unregister_known [simp]:
  "branch_known (st_ledgers (fst (unregister_branch s l b))) l' b' \<longleftrightarrow>
     branch_known (st_ledgers s) l' b' \<and> \<not> (l' = l \<and> b' = b)"
  by (auto simp: unregister_branch_def branch_known_def Let_def filter_empty_conv split: option.split)

lemma unregister_removed [simp]:
  "snd (unregister_branch s l b) \<longleftrightarrow> branch_known (st_ledgers s) l b"
  by (auto simp: unregister_branch_def branch_known_def Let_def length_filter_neq split: option.split)

lemma unregister_ledgers:
  "hm_get (st_ledgers (fst (unregister_branch s l b))) l' = Some r \<longleftrightarrow>
    (if l' = l then (\<exists>r0. hm_get (st_ledgers s) l = Some r0 \<and> filter (\<lambda>x. x \<noteq> b) (lr_branches r0) \<noteq> []
        \<and> r = r0\<lparr>lr_branches := filter (\<lambda>x. x \<noteq> b) (lr_branches r0)\<rparr>)
     else hm_get (st_ledgers s) l' = Some r)"
  by (auto simp: unregister_branch_def Let_def split: option.split)

lemma unregister_ledgers_wf [simp]:
  "hm_wf (st_ledgers s) \<Longrightarrow> hm_wf (st_ledgers (fst (unregister_branch s l b)))"
  by (simp add: unregister_branch_def Let_def split: option.split)

text \<open>The branch a ref key names is registered.\<close>

definition key_known :: "NameServiceState \<Rightarrow> RefKey \<Rightarrow> bool" where
  "key_known s k = branch_known (st_ledgers s) (rk_ledger_name k) (rk_branch k)"

section \<open>Consuming the queue front\<close>

text \<open>The queue with its front taken off: a drained queue leaves the map.\<close>

definition set_queue :: "NameServiceState \<Rightarrow> RefKey \<Rightarrow> QueueEntry list \<Rightarrow> NameServiceState" where
  "set_queue s k q =
     s\<lparr>st_queues := (if q = [] then hm_remove (st_queues s) k else hm_insert (st_queues s) k q)\<rparr>"

definition drop_marker :: "NameServiceState \<Rightarrow> RefKey \<Rightarrow> NameServiceState" where
  "drop_marker s k = s\<lparr>st_recently_cleared := hm_remove (st_recently_cleared s) k\<rparr>"

lemma drop_queue_popped:
  "drop_queue_if_empty (s\<lparr>st_queues := hm_insert (st_queues s) k q\<rparr>) k = set_queue s k q"
  by (simp add: drop_queue_if_empty_def set_queue_def)

lemma pop_cases:
  obtains
    (cleared) marker where "hm_get (st_recently_cleared s) k = Some marker"
      "pop_validated_front s k full q =
         (drop_marker s k, Inl (QueueDesync full q (QueueCleared (cm_reason marker))))"
  | (empty) "hm_get (st_recently_cleared s) k = None" "queue_of s k = []"
      "pop_validated_front s k full q = (s, Inl (QueueDesync full q InvariantViolated))"
  | (wrong) e rest where "hm_get (st_recently_cleared s) k = None"
      "hm_get (st_queues s) k = Some (e # rest)" "qe_queue_id e \<noteq> q"
      "pop_validated_front s k full q = (s, Inl (QueueDesync full q (WrongFront (qe_queue_id e))))"
  | (front) e rest where "hm_get (st_recently_cleared s) k = None"
      "hm_get (st_queues s) k = Some (e # rest)" "qe_queue_id e = q"
      "pop_validated_front s k full q = (s\<lparr>st_queues := hm_insert (st_queues s) k rest\<rparr>, Inr e)"
  by (cases "hm_get (st_recently_cleared s) k"; cases "hm_get (st_queues s) k"; cases "queue_of s k";
      cases "qe_queue_id (hd (queue_of s k)) = q")
    (auto simp: pop_validated_front_def drop_marker_def queue_of_def)

definition applied_record :: "nat \<Rightarrow> StagedHead \<Rightarrow> QueueEntry \<Rightarrow> ApplyRecord" where
  "applied_record i a e =
     \<lparr>ar_request_cid = qe_request_cid e, ar_body_cid = qe_body_cid e, ar_body_kind = qe_body_kind e,
      ar_recorded_at_millis = sh_applied_at_millis a, ar_head = sh_commit_id a, ar_t = sh_commit_t a,
      ar_recorded_index = i, ar_tally = sh_tally a, ar_flake_count = sh_flake_count a\<rparr>"

definition poison_record :: "nat \<Rightarrow> EntryPoisoning \<Rightarrow> QueueEntry \<Rightarrow> PoisonRecord" where
  "poison_record i a e =
     \<lparr>pr_request_cid = qe_request_cid e, pr_body_cid = qe_body_cid e, pr_reason = ep_reason a,
      pr_recorded_index = i, pr_recorded_at_millis = ep_applied_at_millis a\<rparr>"

definition held_envelope :: "QueueEntry \<Rightarrow> ContentId option" where
  "held_envelope e = (if qe_idempotency e = None then Some (qe_request_cid e) else None)"

definition record_for :: "NameServiceState \<Rightarrow> QueueEntry \<Rightarrow> ApplyOutcome \<Rightarrow> NameServiceState" where
  "record_for s e outcome = fst (record_outcome s e outcome)"

lemma record_outcome_eq: "record_outcome s e outcome = (record_for s e outcome, held_envelope e)"
  by (simp add: record_for_def record_outcome_def held_envelope_def split: option.split)

lemma apply_head_cases:
  obtains
    (refused) r where "apply_head s i a = (s, r)"
      "r = LedgerRetracted (format_ledger_id (sh_ledger_id a) (sh_branch a))
        \<or> (\<exists>reason. r = QueueDesync (format_ledger_id (sh_ledger_id a) (sh_branch a)) (sh_queue_id a) reason)"
  | (cleared) c where
      "hm_get (st_recently_cleared s) (RefKey_new (sh_ledger_id a) (sh_branch a)) \<noteq> None"
      "apply_head s i a = (drop_marker s (RefKey_new (sh_ledger_id a) (sh_branch a)),
         QueueDesync (format_ledger_id (sh_ledger_id a) (sh_branch a)) (sh_queue_id a) (QueueCleared c))"
  | (applied) k e rest where "k = RefKey_new (sh_ledger_id a) (sh_branch a)"
      "k \<notin> st_retracted s" "hm_get (st_recently_cleared s) k = None"
      "hm_get (st_queues s) k = Some (e # rest)" "qe_queue_id e = sh_queue_id a"
      "\<And>r. hm_get (st_refs s) k = Some r \<Longrightarrow> re_t r < sh_commit_t a"
      "apply_head s i a =
         (record_for (self_heal_branch (advance_ref_entry (set_queue s k rest) i a) (sh_ledger_id a) (sh_branch a))
            e (Applied (applied_record i a e)),
          HeadApplied (format_ledger_id (sh_ledger_id a) (sh_branch a)) (sh_commit_id a) (sh_commit_t a)
            (held_envelope e))"
proof -
  let ?k = "RefKey_new (sh_ledger_id a) (sh_branch a)"
  let ?full = "format_ledger_id (sh_ledger_id a) (sh_branch a)"
  show ?thesis
  proof (cases "?k \<in> st_retracted s")
    case True
    then show ?thesis by (intro refused) (auto simp: apply_head_def Let_def)
  next
    case live: False
    show ?thesis
    proof (cases rule: pop_cases [of s ?k ?full "sh_queue_id a"])
      case (cleared marker)
      with live show ?thesis
        by (intro that(2) [of "cm_reason marker"]) (auto simp: apply_head_def Let_def)
    next
      case empty
      with live show ?thesis by (intro refused) (auto simp: apply_head_def Let_def)
    next
      case (wrong e rest)
      with live show ?thesis by (intro refused) (auto simp: apply_head_def Let_def)
    next
      case (front e rest)
      show ?thesis
      proof (cases "\<exists>r. hm_get (st_refs s) ?k = Some r \<and> sh_commit_t a \<le> re_t r")
        case True
        then obtain r where "hm_get (st_refs s) ?k = Some r" "sh_commit_t a \<le> re_t r" by blast
        with front live show ?thesis
          by (intro refused [of "QueueDesync ?full (sh_queue_id a) (HeadNotMonotonic (re_t r) (sh_commit_t a))"])
            (auto simp: apply_head_def Let_def queue_of_def hm_insert_same)
      next
        case False
        with front live show ?thesis
          by (intro applied [of ?k e rest])
            (auto simp: apply_head_def Let_def drop_queue_popped record_outcome_eq applied_record_def
              split: option.split)
      qed
    qed
  qed
qed

lemma poison_cases:
  obtains
    (refused) reason where "apply_poison_queue_entry s i a =
        (s, QueueDesync (format_ledger_id (ep_ledger_id a) (ep_branch a)) (ep_queue_id a) reason)"
  | (cleared) c where
      "hm_get (st_recently_cleared s) (RefKey_new (ep_ledger_id a) (ep_branch a)) \<noteq> None"
      "apply_poison_queue_entry s i a = (drop_marker s (RefKey_new (ep_ledger_id a) (ep_branch a)),
         QueueDesync (format_ledger_id (ep_ledger_id a) (ep_branch a)) (ep_queue_id a) (QueueCleared c))"
  | (poisoned) k e rest where "k = RefKey_new (ep_ledger_id a) (ep_branch a)"
      "hm_get (st_recently_cleared s) k = None"
      "hm_get (st_queues s) k = Some (e # rest)" "qe_queue_id e = ep_queue_id a"
      "apply_poison_queue_entry s i a =
         (record_for (set_queue s k rest) e (Failed (poison_record i a e)),
          Poisoned (format_ledger_id (ep_ledger_id a) (ep_branch a)) (ep_queue_id a) (ep_reason a)
            (held_envelope e))"
proof (cases rule: pop_cases [of s "RefKey_new (ep_ledger_id a) (ep_branch a)"
      "format_ledger_id (ep_ledger_id a) (ep_branch a)" "ep_queue_id a"])
  case (cleared marker)
  then show ?thesis
    by (intro that(2) [of "cm_reason marker"]) (auto simp: apply_poison_queue_entry_def Let_def)
next
  case empty
  then show ?thesis by (intro refused) (auto simp: apply_poison_queue_entry_def Let_def)
next
  case (wrong e rest)
  then show ?thesis by (intro refused) (auto simp: apply_poison_queue_entry_def Let_def)
next
  case (front e rest)
  then show ?thesis
    by (intro poisoned [of _ e rest])
      (auto simp: apply_poison_queue_entry_def Let_def drop_queue_popped record_outcome_eq poison_record_def)
qed

definition submitted_entry :: "NameServiceState \<Rightarrow> nat \<Rightarrow> QueueSubmission \<Rightarrow> QueueEntry" where
  "submitted_entry s i a =
     \<lparr>qe_queue_id = st_next_queue_id s, qe_enqueued_index = i,
      qe_enqueued_at_millis = qs_applied_at_millis a, qe_idempotency = qs_idempotency a,
      qe_request_cid = qs_request_cid a, qe_body_cid = qs_body_cid a, qe_body_kind = qs_body_kind a\<rparr>"

lemma dedup_not_enqueued: "dedup_response s k full idem body \<noteq> Some (Enqueued l q)"
  by (auto simp: dedup_response_def split: option.splits ApplyOutcome.splits)

lemma enqueue_cases:
  obtains
    (refused) r where "apply_enqueue_command s i a = (s, r)" "\<And>l q. r \<noteq> Enqueued l q"
  | (enqueued) k where "k = RefKey_new (qs_ledger_id a) (qs_branch a)" "key_known s k"
      "k \<notin> st_retracted s"
      "dedup_response s k (format_ledger_id (qs_ledger_id a) (qs_branch a)) (qs_idempotency a) (qs_body_cid a) = None"
      "length (queue_of s k) < qc_per_branch_cap (st_queue_config s)"
      "global_depth s < qc_global_cap (st_queue_config s)"
      "apply_enqueue_command s i a =
         (s\<lparr>st_recently_cleared := hm_remove (st_recently_cleared s) k,
            st_next_queue_id := u64_wrapping_succ (st_next_queue_id s),
            st_queues := hm_insert (st_queues s) k (queue_of s k @ [submitted_entry s i a])\<rparr>,
          Enqueued (format_ledger_id (qs_ledger_id a) (qs_branch a)) (st_next_queue_id s))"
proof -
  let ?k = "RefKey_new (qs_ledger_id a) (qs_branch a)"
  let ?full = "format_ledger_id (qs_ledger_id a) (qs_branch a)"
  let ?d = "dedup_response s ?k ?full (qs_idempotency a) (qs_body_cid a)"
  show ?thesis
  proof (cases "key_known s ?k \<and> ?k \<notin> st_retracted s \<and> ?d = None
      \<and> length (queue_of s ?k) < qc_per_branch_cap (st_queue_config s)
      \<and> global_depth s < qc_global_cap (st_queue_config s)")
    case True
    then show ?thesis
      by (intro enqueued [of ?k]) (auto simp: apply_enqueue_command_def Let_def key_known_def submitted_entry_def)
  next
    case False
    have "\<exists>r. apply_enqueue_command s i a = (s, r) \<and> (\<forall>l q. r \<noteq> Enqueued l q)"
      using False dedup_not_enqueued [of s ?k ?full "qs_idempotency a" "qs_body_cid a"]
      by (auto simp: apply_enqueue_command_def Let_def key_known_def not_less split: option.splits)
    then show ?thesis using refused by blast
  qed
qed

text \<open>Frames of the pieces of the queue commands.\<close>

lemma set_queue_simps [simp]:
  "st_refs (set_queue s k q) = st_refs s"
  "st_ledgers (set_queue s k q) = st_ledgers s"
  "st_retracted (set_queue s k q) = st_retracted s"
  "st_idempotency (set_queue s k q) = st_idempotency s"
  "st_next_queue_id (set_queue s k q) = st_next_queue_id s"
  "st_recently_cleared (set_queue s k q) = st_recently_cleared s"
  "st_evicted_idempotency_count (set_queue s k q) = st_evicted_idempotency_count s"
  "st_queue_config (set_queue s k q) = st_queue_config s"
  "st_status (set_queue s k q) = st_status s"
  "st_config (set_queue s k q) = st_config s"
  "st_graph_sources (set_queue s k q) = st_graph_sources s"
  "st_worker_eligible_voters (set_queue s k q) = st_worker_eligible_voters s"
  "st_configured_voters (set_queue s k q) = st_configured_voters s"
  by (simp_all add: set_queue_def)

lemma set_queue_get [simp]:
  "hm_get (st_queues (set_queue s k q)) k' =
     (if k' = k then (if q = [] then None else Some q) else hm_get (st_queues s) k')"
  by (simp add: set_queue_def)

lemma set_queue_wf [simp]: "hm_wf (st_queues s) \<Longrightarrow> hm_wf (st_queues (set_queue s k q))"
  by (simp add: set_queue_def)

lemma drop_marker_simps [simp]:
  "st_refs (drop_marker s k) = st_refs s"
  "st_ledgers (drop_marker s k) = st_ledgers s"
  "st_retracted (drop_marker s k) = st_retracted s"
  "st_idempotency (drop_marker s k) = st_idempotency s"
  "st_queues (drop_marker s k) = st_queues s"
  "st_next_queue_id (drop_marker s k) = st_next_queue_id s"
  "st_recently_cleared (drop_marker s k) = hm_remove (st_recently_cleared s) k"
  "st_evicted_idempotency_count (drop_marker s k) = st_evicted_idempotency_count s"
  "st_queue_config (drop_marker s k) = st_queue_config s"
  "st_status (drop_marker s k) = st_status s"
  "st_config (drop_marker s k) = st_config s"
  "st_graph_sources (drop_marker s k) = st_graph_sources s"
  "st_worker_eligible_voters (drop_marker s k) = st_worker_eligible_voters s"
  "st_configured_voters (drop_marker s k) = st_configured_voters s"
  by (simp_all add: drop_marker_def)

lemma record_for_simps [simp]:
  "st_refs (record_for s e oc) = st_refs s"
  "st_ledgers (record_for s e oc) = st_ledgers s"
  "st_retracted (record_for s e oc) = st_retracted s"
  "st_queues (record_for s e oc) = st_queues s"
  "st_next_queue_id (record_for s e oc) = st_next_queue_id s"
  "st_recently_cleared (record_for s e oc) = st_recently_cleared s"
  "st_evicted_idempotency_count (record_for s e oc) = st_evicted_idempotency_count s"
  "st_queue_config (record_for s e oc) = st_queue_config s"
  "st_status (record_for s e oc) = st_status s"
  "st_config (record_for s e oc) = st_config s"
  "st_graph_sources (record_for s e oc) = st_graph_sources s"
  "st_worker_eligible_voters (record_for s e oc) = st_worker_eligible_voters s"
  "st_configured_voters (record_for s e oc) = st_configured_voters s"
  by (simp_all add: record_for_def record_outcome_def split: option.split)

lemma record_for_idempotency:
  "st_idempotency (record_for s e oc) =
     (case qe_idempotency e of Some key \<Rightarrow> hm_insert (st_idempotency s) key oc | None \<Rightarrow> st_idempotency s)"
  by (simp add: record_for_def record_outcome_def split: option.split)

lemma advance_ref_simps [simp]:
  "st_ledgers (advance_ref_entry s i a) = st_ledgers s"
  "st_retracted (advance_ref_entry s i a) = st_retracted s"
  "st_idempotency (advance_ref_entry s i a) = st_idempotency s"
  "st_queues (advance_ref_entry s i a) = st_queues s"
  "st_next_queue_id (advance_ref_entry s i a) = st_next_queue_id s"
  "st_recently_cleared (advance_ref_entry s i a) = st_recently_cleared s"
  "st_evicted_idempotency_count (advance_ref_entry s i a) = st_evicted_idempotency_count s"
  "st_queue_config (advance_ref_entry s i a) = st_queue_config s"
  "st_status (advance_ref_entry s i a) = st_status s"
  "st_config (advance_ref_entry s i a) = st_config s"
  "st_graph_sources (advance_ref_entry s i a) = st_graph_sources s"
  "st_worker_eligible_voters (advance_ref_entry s i a) = st_worker_eligible_voters s"
  "st_configured_voters (advance_ref_entry s i a) = st_configured_voters s"
  by (simp_all add: advance_ref_entry_def Let_def)

lemma advance_ref_wf [simp]: "hm_wf (st_refs s) \<Longrightarrow> hm_wf (st_refs (advance_ref_entry s i a))"
  by (simp add: advance_ref_entry_def Let_def)

lemma self_heal_simps [simp]:
  "st_refs (self_heal_branch s l b) = st_refs s"
  "st_retracted (self_heal_branch s l b) = st_retracted s"
  "st_idempotency (self_heal_branch s l b) = st_idempotency s"
  "st_queues (self_heal_branch s l b) = st_queues s"
  "st_next_queue_id (self_heal_branch s l b) = st_next_queue_id s"
  "st_recently_cleared (self_heal_branch s l b) = st_recently_cleared s"
  "st_evicted_idempotency_count (self_heal_branch s l b) = st_evicted_idempotency_count s"
  "st_queue_config (self_heal_branch s l b) = st_queue_config s"
  "st_status (self_heal_branch s l b) = st_status s"
  "st_config (self_heal_branch s l b) = st_config s"
  "st_graph_sources (self_heal_branch s l b) = st_graph_sources s"
  "st_worker_eligible_voters (self_heal_branch s l b) = st_worker_eligible_voters s"
  "st_configured_voters (self_heal_branch s l b) = st_configured_voters s"
  by (simp_all add: self_heal_branch_def split: option.split)

lemma self_heal_known:
  "branch_known (st_ledgers s) l b \<Longrightarrow> self_heal_branch s l b = s"
  by (simp add: self_heal_branch_def branch_known_def split: option.splits)

end
