(* ===== verification/RaftInvariants.thy ===== *)
theory RaftInvariants
  imports RaftEffects
begin

text \<open>
  The invariants of the replicated state machine, each proved for every command and then for
  every trace of a replica (\<open>raft_trace\<close>):
  \<^item> \<open>registry_inv\<close>: ledgers list distinct branches, at least one; heads, retraction marks and
    queues belong to registered branches; a queue is never empty, never on a retracted branch,
    and never coexists with a clear marker;
  \<^item> \<open>ids_inv\<close>: queue ids grow along a queue, are below the generator and are never shared;
  \<^item> \<open>caps_inv\<close>: the queue depth caps;
  \<^item> \<open>recorded_inv\<close>: idempotency records carry distinct log indexes, all already applied;
  \<^item> \<open>voters_inv\<close>: eligible voters are configured voters.
\<close>

section \<open>The registry\<close>

definition registry_inv :: "NameServiceState \<Rightarrow> bool" where
  "registry_inv s \<longleftrightarrow>
     (\<forall>l r. hm_get (st_ledgers s) l = Some r \<longrightarrow> lr_branches r \<noteq> [] \<and> distinct (lr_branches r)) \<and>
     (\<forall>k. hm_get (st_refs s) k \<noteq> None \<longrightarrow> key_known s k) \<and>
     (\<forall>k. k \<in> st_retracted s \<longrightarrow> key_known s k) \<and>
     (\<forall>k q. hm_get (st_queues s) k = Some q \<longrightarrow>
        q \<noteq> [] \<and> key_known s k \<and> k \<notin> st_retracted s \<and> hm_get (st_recently_cleared s) k = None)"

lemma registry_invI:
  assumes "\<And>l r. hm_get (st_ledgers s) l = Some r \<Longrightarrow> lr_branches r \<noteq> [] \<and> distinct (lr_branches r)"
    and "\<And>k e. hm_get (st_refs s) k = Some e \<Longrightarrow> key_known s k"
    and "\<And>k. k \<in> st_retracted s \<Longrightarrow> key_known s k"
    and "\<And>k q. hm_get (st_queues s) k = Some q \<Longrightarrow>
        q \<noteq> [] \<and> key_known s k \<and> k \<notin> st_retracted s \<and> hm_get (st_recently_cleared s) k = None"
  shows "registry_inv s"
  using assms by (auto simp: registry_inv_def)

lemma registry_invD:
  assumes "registry_inv s"
  shows "hm_get (st_ledgers s) l = Some r \<Longrightarrow> lr_branches r \<noteq> []"
    and "hm_get (st_ledgers s) l = Some r \<Longrightarrow> distinct (lr_branches r)"
    and "hm_get (st_refs s) k = Some e \<Longrightarrow> key_known s k"
    and "k \<in> st_retracted s \<Longrightarrow> key_known s k"
    and "hm_get (st_queues s) k = Some q \<Longrightarrow> q \<noteq> []"
    and "hm_get (st_queues s) k = Some q \<Longrightarrow> key_known s k"
    and "hm_get (st_queues s) k = Some q \<Longrightarrow> k \<notin> st_retracted s"
    and "hm_get (st_queues s) k = Some q \<Longrightarrow> hm_get (st_recently_cleared s) k = None"
  using assms by (auto simp: registry_inv_def)

lemma key_known_cong: "st_ledgers s = st_ledgers t \<Longrightarrow> key_known s = key_known t"
  by (simp add: key_known_def fun_eq_iff)

lemma create_ledger_known:
  "key_known (fst (create_ledger s i a)) k \<longleftrightarrow>
     key_known s k \<or> k = RefKey_new (nl_ledger_id a) (nl_branch a)"
  by (cases k) (auto simp: create_ledger_def key_known_def branch_known_def Let_def RefKey_new_def split: option.split)

lemma create_ledger_ledgers:
  assumes "registry_inv s" "hm_get (st_ledgers (fst (create_ledger s i a))) l = Some r"
  shows "lr_branches r \<noteq> [] \<and> distinct (lr_branches r)"
  using assms registry_invD(1,2) [OF assms(1)]
  by (auto simp: create_ledger_def Let_def split: if_splits option.splits)

lemma create_ledger_frame [simp]:
  "st_refs (fst (create_ledger s i a)) = st_refs s"
  "st_retracted (fst (create_ledger s i a)) = st_retracted s"
  "st_queues (fst (create_ledger s i a)) = st_queues s"
  "st_recently_cleared (fst (create_ledger s i a)) = st_recently_cleared s"
  by (simp_all add: create_ledger_def Let_def)

lemma create_ledger_registry: "registry_inv s \<Longrightarrow> registry_inv (fst (create_ledger s i a))"
  by (rule registry_invI) (auto simp: create_ledger_known dest: create_ledger_ledgers registry_invD)

lemma retract_ledger_registry: "registry_inv s \<Longrightarrow> registry_inv (fst (retract_ledger s l b at))"
  by (auto simp: retract_ledger_def Let_def case_prod_beta registry_inv_def key_known_def queue_of_def
      split: option.splits if_splits)

lemma purge_branch_registry: "registry_inv s \<Longrightarrow> registry_inv (fst (purge_branch s l b at))"
  by (auto simp: purge_branch_def Let_def case_prod_beta registry_inv_def key_known_def queue_of_def
      decrement_refs unregister_ledgers filter_empty_conv
      split: option.splits if_splits)

lemma drop_branch_registry: "registry_inv s \<Longrightarrow> registry_inv (fst (drop_branch s l b at))"
  by (auto simp: drop_branch_def Let_def case_prod_beta registry_inv_def key_known_def queue_of_def
      decrement_refs unregister_ledgers filter_empty_conv
      split: option.splits if_splits)

lemma reset_head_registry: "registry_inv s \<Longrightarrow> registry_inv (fst (reset_head s l b sn at))"
  by (auto simp: reset_head_def Let_def case_prod_beta registry_inv_def key_known_def queue_of_def
      split: option.splits if_splits)

lemma create_branch_known:
  "key_known s k \<Longrightarrow> key_known (fst (create_branch s i a)) k"
  by (auto simp: create_branch_def key_known_def branch_known_def Let_def case_prod_beta split: option.splits)

lemma create_branch_refs_known:
  assumes "hm_get (st_refs (fst (create_branch s i a))) k = Some e"
  shows "hm_get (st_refs s) k \<noteq> None \<or> key_known (fst (create_branch s i a)) k"
  using assms
  by (auto simp: create_branch_def Let_def case_prod_beta key_known_def split: option.splits if_splits)

lemma create_branch_frame [simp]:
  "st_retracted (fst (create_branch s i a)) = st_retracted s"
  "st_queues (fst (create_branch s i a)) = st_queues s"
  "st_recently_cleared (fst (create_branch s i a)) = st_recently_cleared s"
  by (simp_all add: create_branch_def Let_def case_prod_beta split: option.split)

lemma create_branch_registry: "registry_inv s \<Longrightarrow> registry_inv (fst (create_branch s i a))"
proof (rule registry_invI)
  assume inv: "registry_inv s"
  show "lr_branches r \<noteq> [] \<and> distinct (lr_branches r)"
    if "hm_get (st_ledgers (fst (create_branch s i a))) l = Some r" for l r
    using that registry_invD(1,2) [OF inv]
    by (auto simp: create_branch_def Let_def case_prod_beta split: option.splits if_splits)
  show "key_known (fst (create_branch s i a)) k"
    if "hm_get (st_refs (fst (create_branch s i a))) k = Some e" for k e
    using create_branch_refs_known [OF that] registry_invD(3) [OF inv, of k] create_branch_known by auto
  show "key_known (fst (create_branch s i a)) k" if "k \<in> st_retracted (fst (create_branch s i a))" for k
    using that registry_invD(4) [OF inv]
    by (intro create_branch_known) auto
  show "q \<noteq> [] \<and> key_known (fst (create_branch s i a)) k \<and> k \<notin> st_retracted (fst (create_branch s i a))
      \<and> hm_get (st_recently_cleared (fst (create_branch s i a))) k = None"
    if "hm_get (st_queues (fst (create_branch s i a))) k = Some q" for k q
    using that registry_invD(5-8) [OF inv] create_branch_known by simp
qed

lemma registry_inv_values [simp]:
  "registry_inv (s\<lparr>st_status := x\<rparr>) = registry_inv s" "registry_inv (s\<lparr>st_config := y\<rparr>) = registry_inv s"
  by (simp_all add: registry_inv_def key_known_def)

text \<open>Commands that leave the registry fields alone, except for entries under keys already known.\<close>

lemma registry_inv_refs:
  assumes "registry_inv s" and "st_ledgers s' = st_ledgers s" "st_retracted s' = st_retracted s"
    "st_queues s' = st_queues s" "st_recently_cleared s' = st_recently_cleared s"
    and "\<And>k e. hm_get (st_refs s') k = Some e \<Longrightarrow> key_known s k"
  shows "registry_inv s'"
  using assms by (auto simp: registry_inv_def key_known_def)

lemma set_index_head_registry: "registry_inv s \<Longrightarrow> registry_inv (fst (set_index_head s a f))"
  by (rule registry_inv_refs [of s])
    (auto simp: set_index_head_def Let_def dest: registry_invD split: option.splits if_splits)

lemma compare_and_set_outcome:
  "fst (apply_compare_and_set_ref s i a) = s \<or> (\<exists>e. fst (apply_compare_and_set_ref s i a) =
     s\<lparr>st_refs := hm_insert (st_refs s) (RefKey_new (rc_ledger_id a) (rc_branch a)) e\<rparr> \<and>
     current_ref_value s (RefKey_new (rc_ledger_id a) (rc_branch a)) (rc_kind a) \<noteq> None)"
  unfolding apply_compare_and_set_ref_def Let_def case_prod_beta
  by (cases "rc_kind a") (auto simp del: not_None_eq split: option.split)

lemma compare_and_set_registry:
  assumes "registry_inv s"
  shows "registry_inv (fst (apply_compare_and_set_ref s i a))"
  using compare_and_set_outcome [of s i a] assms
  by (auto intro!: registry_inv_refs [OF assms] simp: current_ref_value_def key_known_def RefKey_new_def dest: registry_invD split: if_splits)

lemma graph_source_registry:
  "registry_inv s \<Longrightarrow> registry_inv (fst (apply_publish_graph_source s n b st c d))"
  "registry_inv s \<Longrightarrow> registry_inv (fst (apply_publish_graph_source_index s n b ci t))"
  "registry_inv s \<Longrightarrow> registry_inv (fst (apply_retract_graph_source s n b))"
  by (auto intro!: registry_inv_refs [of s] dest: registry_invD
      simp: apply_publish_graph_source_def apply_publish_graph_source_index_def
        apply_retract_graph_source_def Let_def split: option.splits)

lemma eligibility_registry: "registry_inv s \<Longrightarrow> registry_inv (fst (apply_set_worker_eligibility s a))"
  by (rule registry_inv_refs [of s]) (auto simp: apply_set_worker_eligibility_def Let_def dest: registry_invD split: if_splits)

lemma membership_registry: "registry_inv s \<Longrightarrow> registry_inv (apply_membership s vs)"
  by (rule registry_inv_refs [of s]) (auto simp: apply_membership_def Let_def dest: registry_invD)

lemma enqueue_registry: "registry_inv s \<Longrightarrow> registry_inv (fst (apply_enqueue_command s i a))"
  by (auto simp: apply_enqueue_command_def Let_def registry_inv_def key_known_def
      split: option.splits if_splits)

lemma evict_registry:
  "state_wf s \<Longrightarrow> registry_inv s \<Longrightarrow> registry_inv (fst (apply_evict_idempotency s c m))"
  by (auto simp: apply_evict_idempotency_def Let_def case_prod_beta registry_inv_def key_known_def
      state_wf_def hm_get_retain split: option.splits)

lemma advance_ref_registry:
  assumes "registry_inv s" "key_known s (RefKey_new (sh_ledger_id a) (sh_branch a))"
  shows "registry_inv (advance_ref_entry s i a)"
  using assms(1)
proof (rule registry_inv_refs)
  show "key_known s k" if "hm_get (st_refs (advance_ref_entry s i a)) k = Some e" for k e
    using that assms registry_invD(3) [OF assms(1)]
    by (auto simp: advance_ref_entry_def Let_def split: if_splits)
qed simp_all

lemma set_queue_registry:
  assumes "registry_inv s" "hm_get (st_queues s) k = Some q0"
  shows "registry_inv (set_queue s k q)"
  using assms by (auto simp: registry_inv_def key_known_def split: if_splits)

lemma drop_marker_registry: "registry_inv s \<Longrightarrow> registry_inv (drop_marker s k)"
  by (auto simp: registry_inv_def key_known_def)

lemma record_for_registry: "registry_inv s \<Longrightarrow> registry_inv (record_for s e oc)"
  by (auto simp: registry_inv_def key_known_def)

text \<open>The self-healing branch registration in \<open>apply_head\<close> never has anything to heal.\<close>

lemma apply_head_heals_nothing:
  assumes "registry_inv s" "hm_get (st_queues s) (RefKey_new l b) = Some q"
    "st_ledgers s' = st_ledgers s"
  shows "self_heal_branch s' l b = s'"
  using registry_invD(6) [OF assms(1,2)] assms(3) by (intro self_heal_known) (simp add: key_known_def)

lemma apply_head_registry:
  assumes "registry_inv s"
  shows "registry_inv (fst (apply_head s i a))"
proof (cases rule: apply_head_cases [of s i a])
  case (refused r)
  with assms show ?thesis by simp
next
  case (cleared c)
  with assms show ?thesis by (simp add: drop_marker_registry)
next
  case (applied k e rest)
  have "self_heal_branch (advance_ref_entry (set_queue s k rest) i a) (sh_ledger_id a) (sh_branch a)
      = advance_ref_entry (set_queue s k rest) i a"
    using applied(1,4) by (intro apply_head_heals_nothing [OF assms]) simp_all
  moreover have "registry_inv (advance_ref_entry (set_queue s k rest) i a)"
    using assms applied(1,4) registry_invD(6) [OF assms applied(4)]
    by (intro advance_ref_registry set_queue_registry) (simp_all add: key_known_def)
  ultimately show ?thesis using applied(7) by (simp add: record_for_registry)
qed

lemma poison_registry:
  assumes "registry_inv s"
  shows "registry_inv (fst (apply_poison_queue_entry s i a))"
  using assms
  by (cases rule: poison_cases [of s i a])
    (simp_all add: drop_marker_registry record_for_registry set_queue_registry)

lemma apply_command_registry:
  assumes "state_wf s" "registry_inv s"
  shows "registry_inv (fst (apply_command s c i))"
  using assms
  by (cases c)
    (simp_all add: advance_index_head_def rewrite_index_head_def set_index_head_registry
      create_ledger_registry create_branch_registry drop_branch_registry reset_head_registry
      retract_ledger_registry purge_branch_registry compare_and_set_registry graph_source_registry
      enqueue_registry apply_head_registry poison_registry evict_registry eligibility_registry
      case_prod_beta)

section \<open>Commands that leave queues and records alone\<close>

text \<open>
  All but the four queue commands: the generator, the caps and the idempotency cache are
  unchanged, and at most one branch queue is dropped.
\<close>

definition quiet :: "NameServiceState \<Rightarrow> NameServiceState \<Rightarrow> bool" where
  "quiet s s' \<longleftrightarrow>
     st_next_queue_id s' = st_next_queue_id s \<and> st_queue_config s' = st_queue_config s \<and>
     st_idempotency s' = st_idempotency s \<and>
     (st_queues s' = st_queues s \<or> (\<exists>k. st_queues s' = hm_remove (st_queues s) k))"

fun queue_command :: "Command \<Rightarrow> bool" where
  "queue_command (EnqueueCommand _) = True"
| "queue_command (ApplyHead _) = True"
| "queue_command (PoisonQueueEntry _) = True"
| "queue_command (EvictIdempotency _ _) = True"
| "queue_command _ = False"

fun_cases queue_commandE: "queue_command c"

lemma queue_command_cases:
  assumes "queue_command c"
  obtains (enqueue) a where "c = EnqueueCommand a" | (head) a where "c = ApplyHead a"
  | (poison) a where "c = PoisonQueueEntry a" | (evict) x y where "c = EvictIdempotency x y"
  using assms by (rule queue_commandE)

lemma quiet_refl [simp]: "quiet s s"
  by (simp add: quiet_def)

lemma quiet_values [simp]: "quiet s (s\<lparr>st_status := x\<rparr>)" "quiet s (s\<lparr>st_config := y\<rparr>)"
  by (simp_all add: quiet_def)

lemma quietD:
  assumes "quiet s s'"
  shows "st_next_queue_id s' = st_next_queue_id s" "st_queue_config s' = st_queue_config s"
    "st_idempotency s' = st_idempotency s"
    and "hm_get (st_queues s') k = Some q \<Longrightarrow> hm_get (st_queues s) k = Some q"
  using assms by (auto simp: quiet_def split: if_splits)

lemma quiet_lifecycle:
  "quiet s (fst (create_ledger s i nl))" "quiet s (fst (create_branch s i nb))"
  "quiet s (fst (retract_ledger s l b at))" "quiet s (fst (purge_branch s l b at))"
  "quiet s (fst (drop_branch s l b at))" "quiet s (fst (reset_head s l b sn at))"
  "quiet s (fst (apply_set_worker_eligibility s we))" "quiet s (apply_membership s vs)"
  by (auto simp: quiet_def create_ledger_def create_branch_def retract_ledger_def purge_branch_def
      drop_branch_def reset_head_def apply_set_worker_eligibility_def apply_membership_def
      Let_def case_prod_beta split: option.split)

lemma quiet_refs:
  "quiet s (fst (set_index_head s ni f))" "quiet s (fst (apply_compare_and_set_ref s i rc))"
  "quiet s (fst (apply_publish_graph_source s n b st c d))"
  "quiet s (fst (apply_publish_graph_source_index s n b ci t))"
  "quiet s (fst (apply_retract_graph_source s n b))"
  by (auto simp: quiet_def set_index_head_def apply_compare_and_set_ref_def
      apply_publish_graph_source_def apply_publish_graph_source_index_def
      apply_retract_graph_source_def Let_def case_prod_beta split: option.split RefKind.split)

lemma apply_command_quiet: "\<not> queue_command c \<Longrightarrow> quiet s (fst (apply_command s c i))"
  by (cases c)
    (simp_all add: quiet_lifecycle quiet_refs advance_index_head_def rewrite_index_head_def
      case_prod_beta)

section \<open>Queue ids\<close>

definition ids_inv :: "nat \<Rightarrow> NameServiceState \<Rightarrow> bool" where
  "ids_inv n s \<longleftrightarrow> st_next_queue_id s \<le> n \<and>
     (\<forall>k q. hm_get (st_queues s) k = Some q \<longrightarrow>
        sorted_wrt (<) (map qe_queue_id q) \<and> (\<forall>e \<in> set q. qe_queue_id e < st_next_queue_id s)) \<and>
     (\<forall>k k' q q' e e'. hm_get (st_queues s) k = Some q \<longrightarrow> hm_get (st_queues s) k' = Some q' \<longrightarrow>
        e \<in> set q \<longrightarrow> e' \<in> set q' \<longrightarrow> qe_queue_id e = qe_queue_id e' \<longrightarrow> k = k')"

lemma ids_invD:
  assumes "ids_inv n s"
  shows "st_next_queue_id s \<le> n"
    and "hm_get (st_queues s) k = Some q \<Longrightarrow> sorted_wrt (<) (map qe_queue_id q)"
    and "hm_get (st_queues s) k = Some q \<Longrightarrow> e \<in> set q \<Longrightarrow> qe_queue_id e < st_next_queue_id s"
    and "hm_get (st_queues s) k = Some q \<Longrightarrow> hm_get (st_queues s) k' = Some q' \<Longrightarrow>
      e \<in> set q \<Longrightarrow> e' \<in> set q' \<Longrightarrow> qe_queue_id e = qe_queue_id e' \<Longrightarrow> k = k'"
  using assms unfolding ids_inv_def by blast+

text \<open>Shrinking queues: any part of the old queues, under the same generator.\<close>

lemma ids_inv_shrink:
  assumes "ids_inv n s" "st_next_queue_id s' = st_next_queue_id s" "n \<le> n'"
    and sub: "\<And>k q'. hm_get (st_queues s') k = Some q' \<Longrightarrow>
      \<exists>q. hm_get (st_queues s) k = Some q \<and> set q' \<subseteq> set q \<and>
        (sorted_wrt (<) (map qe_queue_id q) \<longrightarrow> sorted_wrt (<) (map qe_queue_id q'))"
  shows "ids_inv n' s'"
  unfolding ids_inv_def
proof (intro conjI allI impI)
  show "st_next_queue_id s' \<le> n'" using ids_invD(1) [OF assms(1)] assms(2,3) by simp
next
  fix k q' assume "hm_get (st_queues s') k = Some q'"
  from sub [OF this] obtain q where q: "hm_get (st_queues s) k = Some q" "set q' \<subseteq> set q"
    "sorted_wrt (<) (map qe_queue_id q) \<longrightarrow> sorted_wrt (<) (map qe_queue_id q')" by blast
  show "sorted_wrt (<) (map qe_queue_id q')" using q ids_invD(2) [OF assms(1)] by blast
  show "\<forall>e \<in> set q'. qe_queue_id e < st_next_queue_id s'"
    using q ids_invD(3) [OF assms(1) q(1)] assms(2) by auto
next
  fix k k' q q' e e'
  assume h: "hm_get (st_queues s') k = Some q" "hm_get (st_queues s') k' = Some q'"
    "e \<in> set q" "e' \<in> set q'" "qe_queue_id e = qe_queue_id e'"
  then show "k = k'" using sub [OF h(1)] sub [OF h(2)] ids_invD(4) [OF assms(1)] by blast
qed

lemma ids_inv_quiet: "ids_inv n s \<Longrightarrow> quiet s s' \<Longrightarrow> n \<le> n' \<Longrightarrow> ids_inv n' s'"
  by (rule ids_inv_shrink [of n s]) (auto simp: quietD(1) dest: quietD(4))

lemma ids_inv_set_queue:
  assumes "ids_inv n s" "hm_get (st_queues s) k = Some (e # rest)" "n \<le> n'"
  shows "ids_inv n' (set_queue s k rest)"
  using assms(1)
proof (rule ids_inv_shrink)
  fix k' q' assume "hm_get (st_queues (set_queue s k rest)) k' = Some q'"
  with assms(2) show "\<exists>q. hm_get (st_queues s) k' = Some q \<and> set q' \<subseteq> set q \<and>
      (sorted_wrt (<) (map qe_queue_id q) \<longrightarrow> sorted_wrt (<) (map qe_queue_id q'))"
    by (cases "k' = k") (auto split: if_splits)
qed (simp_all add: assms(3))

lemma ids_inv_cong:
  "st_queues s' = st_queues s \<Longrightarrow> st_next_queue_id s' = st_next_queue_id s \<Longrightarrow> ids_inv n s' = ids_inv n s"
  by (simp add: ids_inv_def)

text \<open>
  The generator cannot wrap: each enqueue consumes a log index, log indexes are \<open>u64\<close>, and the
  generator never overtakes the first unapplied index.
\<close>

lemma ids_inv_enqueue:
  assumes inv: "ids_inv n s" and n: "n \<le> i" "i + 1 < 2 ^ 64"
    and q: "st_queues s' = hm_insert (st_queues s) k (queue_of s k @ [submitted_entry s j a])"
    and g: "st_next_queue_id s' = u64_wrapping_succ (st_next_queue_id s)"
  shows "ids_inv (i + 1) s'"
proof -
  have nw: "u64_wrapping_succ (st_next_queue_id s) = st_next_queue_id s + 1"
    using ids_invD(1) [OF inv] n by (intro u64_wrapping_succ_small) simp
  have new: "qe_queue_id (submitted_entry s j a) = st_next_queue_id s"
    by (simp add: submitted_entry_def)
  have old: "qe_queue_id e < st_next_queue_id s" if "e \<in> set (queue_of s k')" for e k'
    using that ids_invD(3) [OF inv] by (cases "hm_get (st_queues s) k'") (auto simp: queue_of_def)
  show ?thesis
    unfolding ids_inv_def
  proof (intro conjI allI impI)
    show "st_next_queue_id s' \<le> i + 1" using ids_invD(1) [OF inv] n g nw by simp
  next
    fix k' q' assume "hm_get (st_queues s') k' = Some q'"
    then show "sorted_wrt (<) (map qe_queue_id q')" "\<forall>e \<in> set q'. qe_queue_id e < st_next_queue_id s'"
      using q g nw new old ids_invD(2,3) [OF inv]
      by (fastforce simp: sorted_wrt_append queue_of_def less_Suc_eq split: if_splits option.splits)+
  next
    fix k1 k2 q1 q2 e1 e2
    assume h: "hm_get (st_queues s') k1 = Some q1" "hm_get (st_queues s') k2 = Some q2"
      "e1 \<in> set q1" "e2 \<in> set q2" "qe_queue_id e1 = qe_queue_id e2"
    have split: "k' = k \<and> e = submitted_entry s j a \<or> (\<exists>q. hm_get (st_queues s) k' = Some q \<and> e \<in> set q)"
      if "hm_get (st_queues s') k' = Some q'" "e \<in> set q'" for k' q' e
      using that by (cases "k' = k"; cases "hm_get (st_queues s) k") (auto simp: q queue_of_def)
    have lt: "qe_queue_id e < st_next_queue_id s" if "hm_get (st_queues s) k' = Some q'" "e \<in> set q'" for k' q' e
      using that by (rule ids_invD(3) [OF inv])
    show "k1 = k2"
      using split [OF h(1,3)] split [OF h(2,4)] h(5) new
      by (elim disjE exE conjE) (auto dest: lt ids_invD(4) [OF inv])
  qed
qed

section \<open>Queue depth\<close>

definition caps_inv :: "NameServiceState \<Rightarrow> bool" where
  "caps_inv s \<longleftrightarrow>
     (\<forall>k. length (queue_of s k) \<le> qc_per_branch_cap (st_queue_config s)) \<and>
     global_depth s \<le> qc_global_cap (st_queue_config s)"

lemma global_depth_sum: "global_depth s = hm_sum length (st_queues s)"
  by (simp add: global_depth_def hm_sum_def)

lemma caps_inv_quiet:
  assumes "caps_inv s" "quiet s s'" "hm_wf (st_queues s)"
  shows "caps_inv s'"
  unfolding caps_inv_def
proof (intro conjI allI)
  show "length (queue_of s' k) \<le> qc_per_branch_cap (st_queue_config s')" for k
    using assms(1,2) by (auto simp: caps_inv_def quiet_def queue_of_def)
  have "hm_sum length (st_queues s') \<le> hm_sum length (st_queues s)"
    using assms(2,3) by (auto simp: quiet_def hm_sum_remove_le)
  then show "global_depth s' \<le> qc_global_cap (st_queue_config s')"
    using assms(1,2) by (simp add: caps_inv_def global_depth_sum quiet_def)
qed

lemma caps_inv_set_queue:
  assumes "caps_inv s" "hm_wf (st_queues s)" "hm_get (st_queues s) k = Some (e # rest)"
  shows "caps_inv (set_queue s k rest)"
  unfolding caps_inv_def
proof (intro conjI allI)
  have "length (queue_of s k) \<le> qc_per_branch_cap (st_queue_config s)" for k
    using assms(1) by (simp add: caps_inv_def)
  then have le: "length (queue_of s k') \<le> qc_per_branch_cap (st_queue_config s)"
    "Suc (length rest) \<le> qc_per_branch_cap (st_queue_config s)" for k'
    using assms(3) by (metis, metis length_Cons option.simps(5) queue_of_def)
  show "length (queue_of (set_queue s k rest) k') \<le> qc_per_branch_cap (st_queue_config (set_queue s k rest))" for k'
    using le(1) [of k'] le(2) by (auto simp: queue_of_def)
  have "hm_sum length (st_queues (set_queue s k rest)) \<le> hm_sum length (st_queues s)"
    using assms(2,3) hm_sum_remove [OF assms(2,3), of length]
    by (simp add: set_queue_def hm_sum_insert hm_sum_remove_le)
  then show "global_depth (set_queue s k rest) \<le> qc_global_cap (st_queue_config (set_queue s k rest))"
    using assms(1) by (simp add: caps_inv_def global_depth_sum)
qed

lemma caps_inv_cong:
  "st_queues s' = st_queues s \<Longrightarrow> st_queue_config s' = st_queue_config s \<Longrightarrow> caps_inv s' = caps_inv s"
  by (simp add: caps_inv_def queue_of_def global_depth_def)

lemma caps_inv_enqueue:
  assumes "caps_inv s" "hm_wf (st_queues s)"
    and "length (queue_of s k) < qc_per_branch_cap (st_queue_config s)"
    and "global_depth s < qc_global_cap (st_queue_config s)"
    and q: "st_queues s' = hm_insert (st_queues s) k (queue_of s k @ [e])"
    and c: "st_queue_config s' = st_queue_config s"
  shows "caps_inv s'"
  unfolding caps_inv_def
proof (intro conjI allI)
  show "length (queue_of s' k') \<le> qc_per_branch_cap (st_queue_config s')" for k'
    using assms(1,3) by (auto simp: caps_inv_def queue_of_def q c)
  have "hm_sum length (st_queues s') = hm_sum length (st_queues s) + 1"
    using hm_sum_remove [OF assms(2), of k _ length]
    by (cases "hm_get (st_queues s) k") (auto simp: q queue_of_def hm_sum_insert assms(2) hm_remove_absent)
  then show "global_depth s' \<le> qc_global_cap (st_queue_config s')"
    using assms(4) by (simp add: global_depth_sum c)
qed

section \<open>Idempotency records\<close>

definition recorded_inv :: "nat \<Rightarrow> NameServiceState \<Rightarrow> bool" where
  "recorded_inv n s \<longleftrightarrow>
     (\<forall>k oc. hm_get (st_idempotency s) k = Some oc \<longrightarrow> ao_recorded_index oc < n) \<and>
     (\<forall>k k' oc oc'. hm_get (st_idempotency s) k = Some oc \<longrightarrow> hm_get (st_idempotency s) k' = Some oc' \<longrightarrow>
        ao_recorded_index oc = ao_recorded_index oc' \<longrightarrow> k = k')"

lemma recorded_inv_shrink:
  assumes "recorded_inv n s" "n \<le> n'"
    and "\<And>k oc. hm_get (st_idempotency s') k = Some oc \<Longrightarrow> hm_get (st_idempotency s) k = Some oc"
  shows "recorded_inv n' s'"
  using assms unfolding recorded_inv_def by (meson less_le_trans)

lemma recorded_inv_quiet: "recorded_inv n s \<Longrightarrow> quiet s s' \<Longrightarrow> n \<le> n' \<Longrightarrow> recorded_inv n' s'"
  by (rule recorded_inv_shrink [of n s]) (simp_all add: quietD)

lemma recorded_inv_record:
  assumes "recorded_inv n s" "n \<le> i" "ao_recorded_index oc = i" "st_idempotency s0 = st_idempotency s"
  shows "recorded_inv (i + 1) (record_for s0 e oc)"
  using assms unfolding recorded_inv_def
  by (auto simp: record_for_idempotency split: option.splits) (fastforce)+

lemma evict_keys_get:
  "hm_get (fst (evict_keys m xs)) k = (if k \<in> (\<lambda>(_, _, k). k) ` set xs then None else hm_get m k)"
  by (induction m xs rule: evict_keys.induct) (auto simp: Let_def case_prod_beta split: option.splits)

lemma evict_keys_wf: "hm_wf m \<Longrightarrow> hm_wf (fst (evict_keys m xs))"
  by (induction m xs rule: evict_keys.induct) (auto simp: Let_def case_prod_beta split: option.splits)

lemma evict_recorded:
  assumes "recorded_inv n s" "n \<le> n'"
  shows "recorded_inv n' (fst (apply_evict_idempotency s c m))"
  using assms
  by (rule recorded_inv_shrink)
    (simp add: apply_evict_idempotency_def Let_def case_prod_beta evict_keys_get split: if_splits)

section \<open>Voters\<close>

definition voters_inv :: "NameServiceState \<Rightarrow> bool" where
  "voters_inv s \<longleftrightarrow> st_worker_eligible_voters s \<subseteq> st_configured_voters s"

section \<open>All invariants, for one command\<close>

lemma wf_lifecycle:
  assumes "state_wf s"
  shows "state_wf (fst (create_ledger s i nl))" "state_wf (fst (create_branch s i nb))"
    "state_wf (fst (retract_ledger s l b at))" "state_wf (fst (purge_branch s l b at))"
    "state_wf (fst (drop_branch s l b at))" "state_wf (fst (reset_head s l b sn at))"
    "state_wf (fst (apply_set_worker_eligibility s we))" "state_wf (apply_membership s vs)"
  using assms
  by (auto simp: state_wf_def create_ledger_def create_branch_def retract_ledger_def purge_branch_def
      drop_branch_def reset_head_def apply_set_worker_eligibility_def apply_membership_def
      Let_def case_prod_beta split: option.split)

lemma wf_refs:
  assumes "state_wf s"
  shows "state_wf (fst (set_index_head s ni f))" "state_wf (fst (apply_compare_and_set_ref s i rc))"
    "state_wf (fst (apply_publish_graph_source s n b st c d))"
    "state_wf (fst (apply_publish_graph_source_index s n b ci t))"
    "state_wf (fst (apply_retract_graph_source s n b))"
  using assms
  by (auto simp: state_wf_def set_index_head_def apply_compare_and_set_ref_def
      apply_publish_graph_source_def apply_publish_graph_source_index_def
      apply_retract_graph_source_def Let_def case_prod_beta split: option.split RefKind.split)

lemma wf_push: "hm_wf m \<Longrightarrow> hm_wf (fst (apply_versioned_push T L m l e n))"
  by (simp add: apply_versioned_push_def Let_def split: sum.split option.split prod.split)

lemma wf_record_for: "state_wf s \<Longrightarrow> state_wf (record_for s e oc)"
  by (simp add: state_wf_def record_for_idempotency split: option.split)

lemma wf_self_heal: "state_wf s \<Longrightarrow> state_wf (self_heal_branch s l b)"
  by (simp add: state_wf_def self_heal_branch_def split: option.split)

lemma wf_pieces:
  assumes "state_wf s"
  shows "state_wf (set_queue s k q)" "state_wf (drop_marker s k)" "state_wf (advance_ref_entry s i a)"
  using assms by (simp_all add: state_wf_def)

lemma wf_queue:
  assumes "state_wf s"
  shows "state_wf (fst (apply_enqueue_command s i qs))" "state_wf (fst (apply_head s i sh))"
    "state_wf (fst (apply_poison_queue_entry s i ep))" "state_wf (fst (apply_evict_idempotency s c m))"
proof -
  show "state_wf (fst (apply_enqueue_command s i qs))"
    using assms by (cases rule: enqueue_cases [of s i qs]) (auto simp: state_wf_def)
  show "state_wf (fst (apply_head s i sh))"
    using assms by (cases rule: apply_head_cases [of s i sh]) (simp_all add: wf_pieces wf_record_for wf_self_heal)
  show "state_wf (fst (apply_poison_queue_entry s i ep))"
    using assms by (cases rule: poison_cases [of s i ep]) (simp_all add: wf_pieces wf_record_for)
  show "state_wf (fst (apply_evict_idempotency s c m))"
    using assms by (simp add: state_wf_def apply_evict_idempotency_def Let_def case_prod_beta evict_keys_wf)
qed

lemma state_wf_values:
  "state_wf s \<Longrightarrow> hm_wf x \<Longrightarrow> state_wf (s\<lparr>st_status := x\<rparr>)"
  "state_wf s \<Longrightarrow> hm_wf y \<Longrightarrow> state_wf (s\<lparr>st_config := y\<rparr>)"
  by (simp_all add: state_wf_def)

lemma apply_command_wf: "state_wf s \<Longrightarrow> state_wf (fst (apply_command s c i))"
  by (cases c)
    (simp_all add: advance_index_head_def rewrite_index_head_def wf_lifecycle wf_refs wf_queue
      case_prod_beta state_wf_values wf_push state_wf_def [of s])

lemma voters_frames:
  "voters_inv s \<Longrightarrow> voters_inv (fst (create_ledger s i nl))" "voters_inv s \<Longrightarrow> voters_inv (fst (create_branch s i nb))"
  "voters_inv s \<Longrightarrow> voters_inv (fst (retract_ledger s l b at))" "voters_inv s \<Longrightarrow> voters_inv (fst (purge_branch s l b at))"
  "voters_inv s \<Longrightarrow> voters_inv (fst (drop_branch s l b at))" "voters_inv s \<Longrightarrow> voters_inv (fst (reset_head s l b sn at))"
  "voters_inv s \<Longrightarrow> voters_inv (fst (apply_set_worker_eligibility s we))" "voters_inv s \<Longrightarrow> voters_inv (apply_membership s vs)"
  "voters_inv s \<Longrightarrow> voters_inv (fst (set_index_head s ni f))" "voters_inv s \<Longrightarrow> voters_inv (fst (apply_compare_and_set_ref s i rc))"
  "voters_inv s \<Longrightarrow> voters_inv (fst (apply_publish_graph_source s n b st c d))"
  "voters_inv s \<Longrightarrow> voters_inv (fst (apply_publish_graph_source_index s n b ci t))"
  "voters_inv s \<Longrightarrow> voters_inv (fst (apply_retract_graph_source s n b))"
  "voters_inv s \<Longrightarrow> voters_inv (fst (apply_evict_idempotency s c' m))"
  "voters_inv s \<Longrightarrow> voters_inv (s\<lparr>st_status := x\<rparr>)" "voters_inv s \<Longrightarrow> voters_inv (s\<lparr>st_config := y\<rparr>)"
  by (auto simp: voters_inv_def create_ledger_def create_branch_def retract_ledger_def purge_branch_def
      drop_branch_def reset_head_def apply_set_worker_eligibility_def apply_membership_def
      set_index_head_def apply_compare_and_set_ref_def apply_publish_graph_source_def
      apply_publish_graph_source_index_def apply_retract_graph_source_def apply_evict_idempotency_def
      Let_def case_prod_beta split: option.split RefKind.split)

lemma voters_queue:
  assumes "voters_inv s"
  shows "voters_inv (fst (apply_enqueue_command s i qs))" "voters_inv (fst (apply_head s i sh))"
    "voters_inv (fst (apply_poison_queue_entry s i ep))"
proof -
  show "voters_inv (fst (apply_enqueue_command s i qs))"
    using assms by (cases rule: enqueue_cases [of s i qs]) (auto simp: voters_inv_def)
  have heal: "voters_inv (self_heal_branch t l b)" if "voters_inv t" for t l b
    using that by (simp add: self_heal_branch_def voters_inv_def split: option.split)
  show "voters_inv (fst (apply_head s i sh))"
    using assms by (cases rule: apply_head_cases [of s i sh]) (auto simp: voters_inv_def heal [unfolded voters_inv_def])
  show "voters_inv (fst (apply_poison_queue_entry s i ep))"
    using assms by (cases rule: poison_cases [of s i ep]) (auto simp: voters_inv_def)
qed

lemma apply_command_voters: "voters_inv s \<Longrightarrow> voters_inv (fst (apply_command s c i))"
  by (cases c)
    (simp_all add: advance_index_head_def rewrite_index_head_def voters_frames voters_queue case_prod_beta)

lemma apply_command_ids:
  assumes "ids_inv n s" "n \<le> i" "i + 1 < 2 ^ 64"
  shows "ids_inv (i + 1) (fst (apply_command s c i))"
proof (cases "queue_command c")
  case False
  with assms show ?thesis by (intro ids_inv_quiet [OF _ apply_command_quiet]) auto
next
  case True
  have up: "ids_inv (i + 1) s" using assms by (auto intro: ids_inv_quiet [OF assms(1) quiet_refl])
  from True show ?thesis
  proof (cases rule: queue_command_cases)
    case (enqueue a)
    show ?thesis
    proof (cases rule: enqueue_cases [of s i a])
      case (refused r)
      with enqueue up show ?thesis by simp
    next
      case (enqueued k)
      show ?thesis unfolding enqueue apply_command.simps enqueued(7)
        by (rule ids_inv_enqueue [OF assms, where k = k and j = i and a = a]) simp_all
    qed
  next
    case (head a)
    then show ?thesis
      using up ids_inv_set_queue [OF assms(1), of _ _ _ "i + 1"] assms(2)
      by (cases rule: apply_head_cases [of s i a])
        (auto simp: ids_inv_cong [of "drop_marker s _" s] ids_inv_cong [of "record_for _ _ _" "set_queue s _ _"])
  next
    case (poison a)
    then show ?thesis
      using up ids_inv_set_queue [OF assms(1), of _ _ _ "i + 1"] assms(2)
      by (cases rule: poison_cases [of s i a])
        (auto simp: ids_inv_cong [of "drop_marker s _" s] ids_inv_cong [of "record_for _ _ _" "set_queue s _ _"])
  next
    case (evict x y)
    then show ?thesis
      using up by (simp add: apply_evict_idempotency_def Let_def case_prod_beta ids_inv_def)
  qed
qed

lemma apply_command_caps:
  assumes "caps_inv s" "state_wf s"
  shows "caps_inv (fst (apply_command s c i))"
proof (cases "queue_command c")
  case False
  with assms show ?thesis by (intro caps_inv_quiet [OF _ apply_command_quiet]) (auto simp: state_wf_def)
next
  case True
  have wf: "hm_wf (st_queues s)" using assms(2) by (simp add: state_wf_def)
  from True show ?thesis
  proof (cases rule: queue_command_cases)
    case (enqueue a)
    show ?thesis
    proof (cases rule: enqueue_cases [of s i a])
      case (refused r)
      with enqueue assms(1) show ?thesis by simp
    next
      case (enqueued k)
      show ?thesis unfolding enqueue apply_command.simps enqueued(7)
        by (rule caps_inv_enqueue [OF assms(1) wf enqueued(5,6)]) simp_all
    qed
  next
    case (head a)
    then show ?thesis
      using assms(1) caps_inv_set_queue [OF assms(1) wf]
      by (cases rule: apply_head_cases [of s i a])
        (auto simp: caps_inv_cong [of "drop_marker s _" s] caps_inv_cong [of "record_for _ _ _" "set_queue s _ _"])
  next
    case (poison a)
    then show ?thesis
      using assms(1) caps_inv_set_queue [OF assms(1) wf]
      by (cases rule: poison_cases [of s i a])
        (auto simp: caps_inv_cong [of "drop_marker s _" s] caps_inv_cong [of "record_for _ _ _" "set_queue s _ _"])
  next
    case (evict x y)
    then show ?thesis
      using assms(1) by (simp add: apply_evict_idempotency_def Let_def case_prod_beta caps_inv_def queue_of_def global_depth_def)
  qed
qed

lemma apply_command_recorded:
  assumes "recorded_inv n s" "n \<le> i"
  shows "recorded_inv (i + 1) (fst (apply_command s c i))"
proof (cases "queue_command c")
  case False
  with assms show ?thesis by (intro recorded_inv_quiet [OF _ apply_command_quiet]) auto
next
  case True
  have up: "recorded_inv (i + 1) t" if "st_idempotency t = st_idempotency s" for t
    using assms that by (auto intro: recorded_inv_shrink [OF assms(1)])
  from True show ?thesis
  proof (cases rule: queue_command_cases)
    case (enqueue a)
    then show ?thesis using up by (cases rule: enqueue_cases [of s i a]) simp_all
  next
    case (head a)
    then show ?thesis
      using up recorded_inv_record [OF assms, of "Applied (applied_record i a _)"]
      by (cases rule: apply_head_cases [of s i a]) (simp_all add: applied_record_def)
  next
    case (poison a)
    then show ?thesis
      using up recorded_inv_record [OF assms, of "Failed (poison_record i a _)"]
      by (cases rule: poison_cases [of s i a]) (simp_all add: poison_record_def)
  next
    case (evict x y)
    then show ?thesis using assms by (simp add: evict_recorded)
  qed
qed

section \<open>All invariants, along every trace\<close>

definition raft_inv :: "StateMachineAdapter \<Rightarrow> bool" where
  "raft_inv a \<longleftrightarrow>
     state_wf (ad_state a) \<and> registry_inv (ad_state a) \<and> ids_inv (next_index a) (ad_state a) \<and>
     caps_inv (ad_state a) \<and> recorded_inv (next_index a) (ad_state a) \<and> voters_inv (ad_state a)"

lemma raft_inv_init: "raft_inv StateMachineAdapter_new"
  by (simp add: raft_inv_def StateMachineAdapter_new_def NameServiceState_new_def state_wf_def
      registry_inv_def ids_inv_def caps_inv_def recorded_inv_def voters_inv_def queue_of_def
      global_depth_sum key_known_def)

lemma apply_entry_inv:
  assumes "raft_inv a" "entry_ok a entry"
  shows "raft_inv (fst (adapter_step a entry))"
proof -
  obtain i p where entry: "entry = (i, p)" by (cases entry)
  have i: "next_index a \<le> i" "i + 1 < 2 ^ 64" using assms(2) by (simp_all add: entry entry_ok_def)
  have mono: "ids_inv (Suc i) t" "recorded_inv (Suc i) t"
    if "quiet (ad_state a) t" for t
    using assms(1) i that ids_inv_quiet [of "next_index a" "ad_state a" t "Suc i"]
      recorded_inv_quiet [of "next_index a" "ad_state a" t "Suc i"] by (auto simp: raft_inv_def)
  show ?thesis
  proof (cases p)
    case Blank
    then show ?thesis
      using assms(1) mono [of "ad_state a"]
      by (simp add: raft_inv_def adapter_step_def apply_entry_def entry next_index_def)
  next
    case (Normal c)
    then show ?thesis
      using assms(1) i apply_command_wf [of "ad_state a" c i] apply_command_registry [of "ad_state a" c i]
        apply_command_ids [of "next_index a" "ad_state a" i c] apply_command_caps [of "ad_state a" c i]
        apply_command_recorded [of "next_index a" "ad_state a" i c] apply_command_voters [of "ad_state a" c i]
      by (simp add: raft_inv_def adapter_step_def apply_entry_def entry next_index_def case_prod_beta Let_def)
  next
    case (Membership vs)
    then show ?thesis
      using assms(1) mono [OF quiet_lifecycle(8), of vs] wf_lifecycle(8) [of "ad_state a" vs]
        membership_registry [of "ad_state a" vs]
        caps_inv_quiet [OF _ quiet_lifecycle(8) [of "ad_state a" vs]] voters_frames(8) [of "ad_state a" vs]
      by (simp add: raft_inv_def adapter_step_def apply_entry_def entry next_index_def state_wf_def)
  qed
qed

text \<open>The invariants speak of content, not of layout.\<close>

lemma state_eqv_get:
  assumes "state_eqv s t"
  shows "hm_get (st_refs t) k = hm_get (st_refs s) k" "hm_get (st_ledgers t) l = hm_get (st_ledgers s) l"
    "hm_get (st_idempotency t) ik = hm_get (st_idempotency s) ik"
    "hm_get (st_queues t) k = hm_get (st_queues s) k"
    "hm_get (st_recently_cleared t) k = hm_get (st_recently_cleared s) k"
    "hm_get (st_status t) l = hm_get (st_status s) l" "hm_get (st_config t) l = hm_get (st_config s) l"
    "hm_get (st_graph_sources t) l = hm_get (st_graph_sources s) l"
    "st_retracted t = st_retracted s" "st_next_queue_id t = st_next_queue_id s"
    "st_queue_config t = st_queue_config s"
    "st_evicted_idempotency_count t = st_evicted_idempotency_count s"
    "st_worker_eligible_voters t = st_worker_eligible_voters s"
    "st_configured_voters t = st_configured_voters s"
  using assms by (simp_all add: state_eqv_def hm_eq_def)

lemma state_eqv_known: "state_eqv s t \<Longrightarrow> key_known t k = key_known s k"
  unfolding key_known_def branch_known_def using state_eqv_get(2) [of s t "rk_ledger_name k"] by simp

lemma state_eqv_queue_of: "state_eqv s t \<Longrightarrow> queue_of t k = queue_of s k"
  unfolding queue_of_def using state_eqv_get(4) [of s t k] by simp

lemma state_eqv_depth:
  assumes "state_eqv s t" "state_wf s" "state_wf t"
  shows "global_depth t = global_depth s"
  unfolding global_depth_sum
  by (rule hm_sum_eq) (use assms in \<open>simp_all add: state_eqv_def state_wf_def hm_eq_sym\<close>)

lemma raft_inv_eqv:
  assumes "adapter_eqv a b" "raft_inv a" "state_wf (ad_state b)"
  shows "raft_inv b"
proof -
  have e: "state_eqv (ad_state a) (ad_state b)" and n: "next_index b = next_index a"
    using assms(1) by (simp_all add: adapter_eqv_def next_index_def)
  note get = state_eqv_get [OF e]
  have "registry_inv (ad_state b)"
    using assms(2) by (simp add: raft_inv_def registry_inv_def get state_eqv_known [OF e])
  moreover have "ids_inv (next_index b) (ad_state b)"
    using assms(2) by (simp add: raft_inv_def ids_inv_def get n)
  moreover have "caps_inv (ad_state b)"
    using assms(2,3) by (simp add: raft_inv_def caps_inv_def get state_eqv_queue_of [OF e] state_eqv_depth [OF e])
  moreover have "recorded_inv (next_index b) (ad_state b)"
    using assms(2) by (simp add: raft_inv_def recorded_inv_def get n)
  moreover have "voters_inv (ad_state b)"
    using assms(2) by (simp add: raft_inv_def voters_inv_def get)
  ultimately show ?thesis using assms(3) by (simp add: raft_inv_def)
qed

lemma raft_step_inv:
  assumes "raft_step a e r b" "raft_inv a"
  shows "raft_inv b"
proof -
  from assms(1) have "entry_ok a e" "adapter_eqv (fst (adapter_step a e)) b" "state_wf (ad_state b)"
    by (simp_all add: raft_step_iff split: prod.splits) auto
  then show ?thesis using raft_inv_eqv apply_entry_inv [OF assms(2)] by blast
qed

interpretation raft: machine raft_step raft_inv
  by unfold_locales (rule raft_step_inv)

lemma raft_trace_inv: "raft_trace es rs a \<Longrightarrow> raft_inv a"
  using raft.trace_inv raft_inv_init by blast

end
