(* ===== verification/RaftReplica.thy ===== *)
theory RaftReplica
  imports RaftInvariants
begin

text \<open>
  Replicas that apply one log agree: whatever order their hash maps iterate in, they give the
  same responses, events, waiter resolutions and content releases, and end in states with the
  same content. The proof shows that every command respects \<open>state_eqv\<close> and that its response
  depends on the content only (\<open>agree\<close>); the two places where the code iterates over a hash
  map are the depth of all queues and the eviction batch, whose sort key
  \<open>(recorded_at_millis, recorded_index)\<close> is injective under \<open>recorded_inv\<close>.
\<close>

section \<open>Runs of the adapter are traces\<close>

fun log_ok :: "nat \<Rightarrow> LogEntry list \<Rightarrow> bool" where
  "log_ok n [] = True"
| "log_ok n (e # es) = (n \<le> fst e \<and> fst e + 1 < 2 ^ 64 \<and> log_ok (fst e + 1) es)"

lemma state_eqv_refl [simp]: "state_eqv s s"
  by (simp add: state_eqv_def)

lemma adapter_eqv_refl [simp]: "adapter_eqv a a"
  by (simp add: adapter_eqv_def)

lemma next_index_step: "next_index (fst (adapter_step a e)) = fst e + 1"
  by (simp add: adapter_step_def next_index_def case_prod_beta Let_def)

lemma adapter_step_is_step:
  assumes "raft_inv a" "entry_ok a e"
  shows "raft_step a e (snd (adapter_step a e)) (fst (adapter_step a e))"
  using apply_entry_inv [OF assms] assms(2)
  by (intro raft_stepI [of a e "fst (adapter_step a e)"]) (simp_all add: raft_inv_def)

lemma adapter_run_trace_from:
  assumes "raft_inv a" "log_ok (next_index a) es"
  shows "trace raft_step a es (snd (adapter_apply a es)) (fst (adapter_apply a es))"
  using assms
proof (induction es arbitrary: a)
  case Nil
  then show ?case by (simp add: adapter_apply_def trace_nil)
next
  case (Cons e es)
  then have ok: "entry_ok a e" by (simp add: entry_ok_def)
  have "trace raft_step (fst (adapter_step a e)) es (snd (adapter_apply (fst (adapter_step a e)) es))
      (fst (adapter_apply (fst (adapter_step a e)) es))"
    using Cons.prems ok by (intro Cons.IH) (simp_all add: apply_entry_inv next_index_step)
  with adapter_step_is_step [OF Cons.prems(1) ok] show ?case
    by (simp add: adapter_apply_def fst_run_log_Cons snd_run_log_Cons trace_cons del: run_log.simps)
qed

lemma adapter_run_trace:
  assumes "log_ok 0 es"
  shows "raft_trace es (snd (adapter_apply StateMachineAdapter_new es))
    (fst (adapter_apply StateMachineAdapter_new es))"
  using assms by (intro adapter_run_trace_from raft_inv_init) (simp add: next_index_def StateMachineAdapter_new_def)

section \<open>Commands read and write content only\<close>

definition agree :: "NameServiceState \<times> 'r \<Rightarrow> NameServiceState \<times> 'r \<Rightarrow> bool" where
  "agree x y \<longleftrightarrow> state_eqv (fst x) (fst y) \<and> snd x = snd y"

lemma agree_refl_iff [simp]: "agree (s, r) (t, r) = state_eqv s t"
  by (simp add: agree_def)

lemma state_eqv_branch_known:
  "state_eqv s t \<Longrightarrow> branch_known (st_ledgers t) l b = branch_known (st_ledgers s) l b"
  unfolding branch_known_def using state_eqv_get(2) [of s t l] by simp

lemma state_eqv_has_children: "state_eqv s t \<Longrightarrow> has_children t k = has_children s k"
  unfolding has_children_def using state_eqv_get(1) [of s t k] by simp

lemma unregister_get:
  "hm_get (st_ledgers (fst (unregister_branch s l b))) l' =
    (if l' = l
     then Option.bind (hm_get (st_ledgers s) l) (\<lambda>r.
       if filter (\<lambda>x. x \<noteq> b) (lr_branches r) = [] then None
       else Some (r\<lparr>lr_branches := filter (\<lambda>x. x \<noteq> b) (lr_branches r)\<rparr>))
     else hm_get (st_ledgers s) l')"
  by (simp add: unregister_branch_def Let_def split: option.split)

lemma decrement_result:
  "snd (decrement_child_count s l p) =
    (case hm_get (st_refs s) (RefKey_new l p) of Some e \<Rightarrow> re_branches e - 1 | None \<Rightarrow> 0)"
  by (simp add: decrement_child_count_def Let_def u32_saturating_pred_def split: option.split)

text \<open>Pointwise form of the equivalence: what is left to show after a command's case split.\<close>

lemmas eqv_pointwise = state_eqv_def hm_eq_def

lemma eqv_create_ledger:
  assumes e: "state_eqv s t"
  shows "agree (create_ledger s i a) (create_ledger t i a)"
  using e unfolding create_ledger_def Let_def state_eqv_get [OF e]
  by (simp add: eqv_pointwise)

lemma eqv_retract_ledger:
  assumes e: "state_eqv s t"
  shows "agree (retract_ledger s l b at) (retract_ledger t l b at)"
  using e
  by (auto simp: retract_ledger_def Let_def case_prod_beta agree_def state_eqv_branch_known [OF e]
      state_eqv_get [OF e] queue_of_def eqv_pointwise)

lemma eqv_purge_branch:
  assumes e: "state_eqv s t"
  shows "agree (purge_branch s l b at) (purge_branch t l b at)"
proof (cases "has_children s (RefKey_new l b)")
  case None
  then show ?thesis
    using e
    by (auto simp: purge_branch_def Let_def case_prod_beta agree_def state_eqv_has_children [OF e]
        state_eqv_branch_known [OF e] state_eqv_get [OF e] queue_of_def eqv_pointwise decrement_refs
        unregister_get split: option.split)
next
  case (Some n)
  then show ?thesis using e by (simp add: purge_branch_def Let_def state_eqv_has_children [OF e])
qed

lemma eqv_drop_branch:
  assumes e: "state_eqv s t"
  shows "agree (drop_branch s l b at) (drop_branch t l b at)"
proof (cases "branch_known (st_ledgers s) l b \<and> has_children s (RefKey_new l b) = None")
  case True
  then show ?thesis
    using e
    by (auto simp: drop_branch_def Let_def case_prod_beta agree_def state_eqv_has_children [OF e]
        state_eqv_branch_known [OF e] state_eqv_get [OF e] queue_of_def eqv_pointwise decrement_refs
        decrement_result unregister_get split: option.split)
next
  case False
  then show ?thesis
    using e by (auto simp: drop_branch_def Let_def state_eqv_has_children [OF e] state_eqv_branch_known [OF e])
qed

lemma eqv_reset_head:
  assumes e: "state_eqv s t"
  shows "agree (reset_head s l b sn at) (reset_head t l b sn at)"
  using e
  by (auto simp: reset_head_def Let_def case_prod_beta agree_def state_eqv_branch_known [OF e]
      state_eqv_get [OF e] queue_of_def eqv_pointwise split: option.split)

lemma eqv_create_branch:
  assumes e: "state_eqv s t"
  shows "agree (create_branch s i a) (create_branch t i a)"
  using e
  by (auto simp: create_branch_def Let_def case_prod_beta agree_def state_eqv_get [OF e] eqv_pointwise
      split: option.split)

lemma eqv_eligibility:
  assumes e: "state_eqv s t"
  shows "agree (apply_set_worker_eligibility s a) (apply_set_worker_eligibility t a)"
  using e by (auto simp: apply_set_worker_eligibility_def Let_def agree_def eqv_pointwise)

lemma eqv_membership: "state_eqv s t \<Longrightarrow> state_eqv (apply_membership s vs) (apply_membership t vs)"
  by (simp add: apply_membership_def Let_def eqv_pointwise)

lemma eqv_set_index_head:
  assumes e: "state_eqv s t"
  shows "agree (set_index_head s a f) (set_index_head t a f)"
  using e
  by (auto simp: set_index_head_def Let_def hm_contains_def agree_def state_eqv_get [OF e] eqv_pointwise
      split: option.split)

lemma state_eqv_current_ref:
  "state_eqv s t \<Longrightarrow> current_ref_value t k kd = current_ref_value s k kd"
  unfolding current_ref_value_def
  using state_eqv_get(1) [of s t k] state_eqv_branch_known [of s t "rk_ledger_name k" "rk_branch k"] by simp

lemma eqv_compare_and_set:
  assumes e: "state_eqv s t"
  shows "agree (apply_compare_and_set_ref s i a) (apply_compare_and_set_ref t i a)"
  using e unfolding apply_compare_and_set_ref_def Let_def case_prod_beta state_eqv_current_ref [OF e]
    state_eqv_get [OF e]
  by (simp add: agree_def eqv_pointwise split: option.split RefKind.split)

lemma eqv_graph_sources:
  assumes e: "state_eqv s t"
  shows "agree (apply_publish_graph_source s n b st c d) (apply_publish_graph_source t n b st c d)"
    "agree (apply_publish_graph_source_index s n b ci x) (apply_publish_graph_source_index t n b ci x)"
    "agree (apply_retract_graph_source s n b) (apply_retract_graph_source t n b)"
  using e
  by (auto simp: apply_publish_graph_source_def apply_publish_graph_source_index_def
      apply_retract_graph_source_def Let_def agree_def state_eqv_get [OF e] eqv_pointwise split: option.split)

lemma eqv_versioned_push:
  assumes "hm_eq L L'" "hm_eq m m'"
  shows "hm_eq (fst (apply_versioned_push T L m l ex n)) (fst (apply_versioned_push T L' m' l ex n)) \<and>
    snd (apply_versioned_push T L m l ex n) = snd (apply_versioned_push T L' m' l ex n)"
  using assms
  by (simp add: apply_versioned_push_def branch_known_def hm_eq_def Let_def split: sum.split option.split)

lemma eqv_enqueue:
  assumes e: "state_eqv s t" and wf: "state_wf s" "state_wf t"
  shows "agree (apply_enqueue_command s i a) (apply_enqueue_command t i a)"
proof -
  have d: "dedup_response t k full idem body = dedup_response s k full idem body" for k full idem body
    unfolding dedup_response_def state_eqv_queue_of [OF e] state_eqv_get [OF e] by (rule refl)
  show ?thesis
    using e unfolding apply_enqueue_command_def Let_def state_eqv_branch_known [OF e] d
      state_eqv_queue_of [OF e] state_eqv_depth [OF e wf] state_eqv_get [OF e]
    by (simp add: agree_def eqv_pointwise split: option.split)
qed

lemma eqv_pop:
  assumes e: "state_eqv s t"
  shows "agree (pop_validated_front s k full q) (pop_validated_front t k full q)"
  using e unfolding pop_validated_front_def state_eqv_get [OF e]
  by (simp add: agree_def eqv_pointwise split: option.split list.split)

lemma eqv_pieces:
  assumes e: "state_eqv s t"
  shows "state_eqv (drop_queue_if_empty s k) (drop_queue_if_empty t k)"
    "agree (record_outcome s en oc) (record_outcome t en oc)"
    "state_eqv (advance_ref_entry s i a) (advance_ref_entry t i a)"
    "state_eqv (self_heal_branch s l b) (self_heal_branch t l b)"
    "state_eqv (s\<lparr>st_queues := hm_insert (st_queues s) k (en # queue_of s k)\<rparr>)
       (t\<lparr>st_queues := hm_insert (st_queues t) k (en # queue_of t k)\<rparr>)"
  using e
  by (auto simp: agree_def eqv_pointwise drop_queue_if_empty_def record_outcome_def queue_of_def
      advance_ref_entry_def self_heal_branch_def Let_def split: option.split)

lemma agree_split:
  assumes "agree x y"
  obtains s t r where "x = (s, r)" "y = (t, r)" "state_eqv s t"
  using assms by (cases x; cases y) (auto simp: agree_def)

lemma eqv_apply_head:
  assumes e: "state_eqv s t"
  shows "agree (apply_head s i a) (apply_head t i a)"
proof (cases "RefKey_new (sh_ledger_id a) (sh_branch a) \<in> st_retracted s")
  case True
  then show ?thesis using e by (simp add: apply_head_def Let_def state_eqv_get [OF e])
next
  case False
  let ?k = "RefKey_new (sh_ledger_id a) (sh_branch a)"
  obtain s1 t1 r where p: "pop_validated_front s ?k (format_ledger_id (sh_ledger_id a) (sh_branch a)) (sh_queue_id a) = (s1, r)"
    "pop_validated_front t ?k (format_ledger_id (sh_ledger_id a) (sh_branch a)) (sh_queue_id a) = (t1, r)"
    and e1: "state_eqv s1 t1"
    using eqv_pop [OF e] by (rule agree_split)
  show ?thesis
  proof (cases r)
    case (Inl x)
    then show ?thesis using False e1 by (simp add: apply_head_def Let_def state_eqv_get [OF e] p)
  next
    case (Inr en)
    note tail = eqv_pieces(2) [OF eqv_pieces(4) [OF eqv_pieces(3) [OF eqv_pieces(1) [OF e1]]]]
    show ?thesis
      using False Inr eqv_pieces(5) [OF e1] tail
      by (simp add: apply_head_def Let_def state_eqv_get [OF e] p state_eqv_get [OF e1] case_prod_beta
          agree_def split: option.split)
  qed
qed

lemma eqv_poison:
  assumes e: "state_eqv s t"
  shows "agree (apply_poison_queue_entry s i a) (apply_poison_queue_entry t i a)"
proof -
  let ?k = "RefKey_new (ep_ledger_id a) (ep_branch a)"
  obtain s1 t1 r where p: "pop_validated_front s ?k (format_ledger_id (ep_ledger_id a) (ep_branch a)) (ep_queue_id a) = (s1, r)"
    "pop_validated_front t ?k (format_ledger_id (ep_ledger_id a) (ep_branch a)) (ep_queue_id a) = (t1, r)"
    and e1: "state_eqv s1 t1"
    using eqv_pop [OF e] by (rule agree_split)
  show ?thesis
    using e1 eqv_pieces(2) [OF eqv_pieces(1) [OF e1]]
    by (cases r) (simp_all add: apply_poison_queue_entry_def Let_def p case_prod_beta agree_def)
qed

section \<open>Eviction does not depend on the iteration order\<close>

lemma recorded_key_inj:
  assumes "hm_wf m" "\<And>k k' oc oc'. hm_get m k = Some oc \<Longrightarrow> hm_get m k' = Some oc' \<Longrightarrow>
      ao_recorded_index oc = ao_recorded_index oc' \<Longrightarrow> k = k'"
  shows "inj_on (\<lambda>(at, idx, _). (at, idx)) (set (expired_entries m c))"
  using assms(2) unfolding inj_on_def expired_entries_def
  by (force simp: hm_get_in_set [OF assms(1)])

lemma eqv_eviction_batch:
  assumes "hm_eq m m'" "hm_wf m" "hm_wf m'"
    "\<And>k k' oc oc'. hm_get m k = Some oc \<Longrightarrow> hm_get m k' = Some oc' \<Longrightarrow>
      ao_recorded_index oc = ao_recorded_index oc' \<Longrightarrow> k = k'"
  shows "eviction_batch m c = eviction_batch m' c"
proof -
  have "mset (expired_entries m c) = mset (expired_entries m' c)"
    using hm_eq_mset [OF assms(1-3)] by (simp add: expired_entries_def)
  from sort_key_mset_cong [OF this recorded_key_inj [OF assms(2,4)]] show ?thesis
    by (simp add: eviction_batch_def)
qed

lemma eqv_evict_keys:
  "hm_eq m m' \<Longrightarrow> hm_eq (fst (evict_keys m xs)) (fst (evict_keys m' xs)) \<and> snd (evict_keys m xs) = snd (evict_keys m' xs)"
proof (induction m xs arbitrary: m' rule: evict_keys.induct)
  case (2 m x y key rest)
  then show ?case
    by (cases "hm_get m key")
      (simp_all add: hm_eq_get [OF 2(3), symmetric] case_prod_beta Let_def hm_eq_remove)
qed simp

lemma eqv_evict:
  assumes e: "state_eqv s t" and wf: "state_wf s" "state_wf t" and r: "recorded_inv n s"
  shows "agree (apply_evict_idempotency s c m) (apply_evict_idempotency t c m)"
proof -
  have "hm_eq (st_idempotency s) (st_idempotency t)" using e by (simp add: state_eqv_def)
  moreover from this have "eviction_batch (st_idempotency s) c = eviction_batch (st_idempotency t) c"
    using wf r by (intro eqv_eviction_batch) (auto simp: state_wf_def recorded_inv_def)
  moreover have "hm_eq (hm_retain P (st_recently_cleared s)) (hm_retain P (st_recently_cleared t))" for P
    using e wf by (intro hm_eq_retain) (auto simp: state_eqv_def state_wf_def)
  ultimately show ?thesis
    using e eqv_evict_keys [of "st_idempotency s" "st_idempotency t"]
    by (simp add: apply_evict_idempotency_def Let_def case_prod_beta agree_def state_eqv_def)
qed

section \<open>Determinism of the replicated log\<close>

lemma eqv_apply_command:
  assumes e: "state_eqv s t" and wf: "state_wf s" "state_wf t" and r: "recorded_inv n s"
  shows "agree (apply_command s c i) (apply_command t c i)"
proof (cases c)
  case (PushStatus l ex nw)
  have "hm_eq (st_ledgers s) (st_ledgers t)" "hm_eq (st_status s) (st_status t)"
    using e by (simp_all add: state_eqv_def)
  from eqv_versioned_push [OF this] show ?thesis
    using e by (simp add: PushStatus case_prod_beta agree_def state_eqv_def Let_def)
next
  case (PushConfig a)
  have "hm_eq (st_ledgers s) (st_ledgers t)" "hm_eq (st_config s) (st_config t)"
    using e by (simp_all add: state_eqv_def)
  from eqv_versioned_push [OF this] show ?thesis
    using e by (simp add: PushConfig case_prod_beta agree_def state_eqv_def Let_def)
qed (simp_all add: advance_index_head_def rewrite_index_head_def eqv_set_index_head [OF e]
    eqv_create_ledger [OF e] eqv_create_branch [OF e] eqv_drop_branch [OF e] eqv_reset_head [OF e]
    eqv_retract_ledger [OF e] eqv_purge_branch [OF e] eqv_compare_and_set [OF e]
    eqv_graph_sources [OF e] eqv_enqueue [OF e wf] eqv_apply_head [OF e] eqv_poison [OF e]
    eqv_evict [OF e wf r] eqv_eligibility [OF e] e)

lemma eqv_adapter_step:
  assumes "raft_inv a" "raft_inv b" "adapter_eqv a b"
  shows "adapter_eqv (fst (adapter_step a e)) (fst (adapter_step b e)) \<and>
    snd (adapter_step a e) = snd (adapter_step b e)"
proof -
  obtain i p where entry: "e = (i, p)" by (cases e)
  have s: "state_eqv (ad_state a) (ad_state b)" using assms(3) by (simp add: adapter_eqv_def)
  have "agree (apply_entry (ad_state a) e) (apply_entry (ad_state b) e)"
  proof (cases p)
    case (Normal c)
    have "agree (apply_command (ad_state a) c i) (apply_command (ad_state b) c i)"
      using assms(1,2) by (intro eqv_apply_command [OF s]) (auto simp: raft_inv_def)
    then show ?thesis
      by (auto simp: apply_entry_def entry Normal Let_def case_prod_beta agree_def)
  qed (simp_all add: apply_entry_def entry s eqv_membership)
  then show ?thesis
    using assms(3)
    by (simp add: adapter_step_def Let_def case_prod_beta agree_def adapter_eqv_def split: EntryPayload.split)
qed

lemma state_eqv_sym: "state_eqv s t \<Longrightarrow> state_eqv t s"
  by (simp add: state_eqv_def hm_eq_sym)

lemma state_eqv_trans: "state_eqv s t \<Longrightarrow> state_eqv t u \<Longrightarrow> state_eqv s u"
  by (auto simp: state_eqv_def hm_eq_def)

lemma adapter_eqv_sym: "adapter_eqv a b \<Longrightarrow> adapter_eqv b a"
  by (simp add: adapter_eqv_def state_eqv_sym)

lemma adapter_eqv_trans: "adapter_eqv a b \<Longrightarrow> adapter_eqv b c \<Longrightarrow> adapter_eqv a c"
  by (auto simp: adapter_eqv_def intro: state_eqv_trans)

interpretation replica: machine_sim raft_step raft_inv adapter_eqv
proof unfold_locales
  fix a b e r a' r' b'
  assume h: "raft_inv a" "raft_inv b" "adapter_eqv a b" and
    st: "raft_step a e r a'" "raft_step b e r' b'"
  from st have "adapter_eqv (fst (adapter_step a e)) a'" "adapter_eqv (fst (adapter_step b e)) b'"
    "r = snd (adapter_step a e)" "r' = snd (adapter_step b e)"
    by (auto simp: raft_step_iff)
  then show "r = r' \<and> adapter_eqv a' b'"
    using eqv_adapter_step [OF h] by (blast intro: adapter_eqv_trans adapter_eqv_sym)
qed

text \<open>A replica may also end a trace in any other layout of the same content.\<close>

lemma trace_relayout:
  assumes "trace raft_step a es rs b" "es \<noteq> []" "adapter_eqv b c" "state_wf (ad_state c)"
  shows "trace raft_step a es rs c"
  using assms
proof (induction rule: trace.induct)
  case (trace_cons a e r a' es rs b)
  show ?case
  proof (cases es)
    case Nil
    with trace_cons have "b = a'" "rs = []" by (auto elim: trace_nilE)
    with trace_cons.hyps(1) trace_cons.prems have "raft_step a e r c"
      by (auto simp: raft_step_iff intro: adapter_eqv_trans)
    then show ?thesis using Nil \<open>rs = []\<close> by (auto intro: trace.intros)
  next
    case Cons
    then show ?thesis using trace_cons by (auto intro: trace.trace_cons)
  qed
qed simp

section \<open>A sample log\<close>

text \<open>
  Three voters join, two ledgers are created, a keyed and a keyless transaction are enqueued on
  \<open>orders:main\<close>, and the first of them is applied. The witnesses run it.
\<close>

definition sample_key :: IdempotencyCacheKey where
  "sample_key = \<lparr>ik_ledger_id = ''orders:main'', ik_key = ''k1''\<rparr>"

definition sample_submission :: "IdempotencyCacheKey option \<Rightarrow> nat \<Rightarrow> QueueSubmission" where
  "sample_submission key n =
     \<lparr>qs_ledger_id = ''orders'', qs_branch = ''main'', qs_idempotency = key,
      qs_request_cid = ContentId [n], qs_body_cid = ContentId [n + 1],
      qs_body_kind = JsonLdInsert, qs_applied_at_millis = 100 + n\<rparr>"

definition sample_head :: "nat \<Rightarrow> nat \<Rightarrow> int \<Rightarrow> StagedHead" where
  "sample_head qid n t =
     \<lparr>sh_ledger_id = ''orders'', sh_branch = ''main'', sh_queue_id = qid,
      sh_commit_id = ContentId [n], sh_commit_t = t, sh_applied_at_millis = 200 + n,
      sh_tally = None, sh_flake_count = 3\<rparr>"

definition sample_log :: "LogEntry list" where
  "sample_log =
     [(1, Membership {1, 2, 3}),
      (2, Normal (CreateLedger \<lparr>nl_ledger_id = ''orders'', nl_branch = ''main'', nl_created_at_millis = 50\<rparr>)),
      (3, Normal (CreateLedger \<lparr>nl_ledger_id = ''users'', nl_branch = ''main'', nl_created_at_millis = 60\<rparr>)),
      (4, Normal (EnqueueCommand (sample_submission (Some sample_key) 10))),
      (5, Normal (EnqueueCommand (sample_submission None 20))),
      (6, Normal (ApplyHead (sample_head 0 30 1)))]"

definition sample_run :: "StateMachineAdapter \<times> EntryEffects list" where
  "sample_run = adapter_apply StateMachineAdapter_new sample_log"

definition sample_state :: NameServiceState where
  "sample_state = ad_state (fst sample_run)"

lemma sample_trace: "raft_trace sample_log (snd sample_run) (fst sample_run)"
  unfolding sample_run_def by (rule adapter_run_trace) (simp add: sample_log_def)

lemma sample_inv: "raft_inv (fst sample_run)"
  using sample_trace by (rule raft_trace_inv)

text \<open>The same state with the ledgers map laid out the other way round.\<close>

definition sample_relayout :: StateMachineAdapter where
  "sample_relayout =
     (fst sample_run)\<lparr>ad_state := sample_state\<lparr>st_ledgers := rev (st_ledgers sample_state)\<rparr>\<rparr>"

lemma sample_relayout_trace: "raft_trace sample_log (snd sample_run) sample_relayout"
proof (rule trace_relayout [OF sample_trace])
  have wf: "state_wf sample_state" using sample_inv by (simp add: raft_inv_def sample_state_def)
  then have "hm_eq (st_ledgers sample_state) (rev (st_ledgers sample_state))"
    by (intro hm_eq_rev) (simp add: state_wf_def)
  then show "adapter_eqv (fst sample_run) sample_relayout"
    by (simp add: sample_relayout_def adapter_eqv_def state_eqv_def sample_state_def)
  show "state_wf (ad_state sample_relayout)"
    using wf by (simp add: sample_relayout_def state_wf_def hm_wf_def flip: rev_map)
qed (simp add: sample_log_def)

text \<open>The state the sample run ends in, written out.\<close>

lemma adapter_apply_state:
  "ad_state (fst (adapter_apply a [])) = ad_state a"
  "ad_state (fst (adapter_apply a ((i, p) # es))) =
     ad_state (fst (adapter_apply (fst (adapter_step a (i, p))) es))"
  by (simp_all add: adapter_apply_def case_prod_beta Let_def)

lemma adapter_step_state:
  "ad_state (fst (adapter_step a (i, Blank))) = ad_state a"
  "ad_state (fst (adapter_step a (i, Normal c))) = fst (apply_command (ad_state a) c i)"
  "ad_state (fst (adapter_step a (i, Membership vs))) = apply_membership (ad_state a) vs"
  by (simp_all add: adapter_step_def apply_entry_def case_prod_beta Let_def)

definition sample_stage where
  "sample_stage refs ledgers idempotency queues next =
     \<lparr>st_refs = refs, st_ledgers = ledgers, st_retracted = {}, st_idempotency = idempotency,
      st_queues = queues, st_next_queue_id = next, st_recently_cleared = [],
      st_evicted_idempotency_count = 0, st_queue_config = QueueConfig_default, st_status = [],
      st_config = [], st_graph_sources = [],
      st_worker_eligible_voters = {1, 2, 3}, st_configured_voters = {1, 2, 3}\<rparr>"

definition sample_ledgers :: "(string, LedgerRecord) hashmap" where
  "sample_ledgers =
     [(''orders'', \<lparr>lr_created_at_millis = 50, lr_created_index = 2, lr_branches = [''main'']\<rparr>),
      (''users'', \<lparr>lr_created_at_millis = 60, lr_created_index = 3, lr_branches = [''main'']\<rparr>)]"

definition sample_entry :: "nat \<Rightarrow> nat \<Rightarrow> IdempotencyCacheKey option \<Rightarrow> nat \<Rightarrow> QueueEntry" where
  "sample_entry qid i key n =
     \<lparr>qe_queue_id = qid, qe_enqueued_index = i, qe_enqueued_at_millis = 100 + n, qe_idempotency = key,
      qe_request_cid = ContentId [n], qe_body_cid = ContentId [n + 1], qe_body_kind = JsonLdInsert\<rparr>"

lemmas sample_defs = Let_def sample_stage_def sample_ledgers_def sample_entry_def sample_submission_def sample_head_def

lemmas hm_defs = hm_empty_def hm_get_def hm_insert_def hm_remove_def hm_values_def

lemma sample_step_1: "apply_membership NameServiceState_new {1, 2, 3} = sample_stage [] [] [] [] 0"
  by (simp add: apply_membership_def NameServiceState_new_def sample_stage_def hm_empty_def)

lemma sample_step_2:
  "fst (apply_command (sample_stage [] [] [] [] 0)
      (CreateLedger \<lparr>nl_ledger_id = ''orders'', nl_branch = ''main'', nl_created_at_millis = 50\<rparr>) 2) =
   sample_stage [] [hd sample_ledgers] [] [] 0"
  "fst (apply_command (sample_stage [] [hd sample_ledgers] [] [] 0)
      (CreateLedger \<lparr>nl_ledger_id = ''users'', nl_branch = ''main'', nl_created_at_millis = 60\<rparr>) 3) =
   sample_stage [] sample_ledgers [] [] 0"
  by (simp_all add: create_ledger_def sample_defs hm_defs)

lemma sample_step_3:
  "fst (apply_command (sample_stage [] sample_ledgers [] [] 0)
      (EnqueueCommand (sample_submission (Some sample_key) 10)) 4) =
   sample_stage [] sample_ledgers []
     [(RefKey_new ''orders'' ''main'', [sample_entry 0 4 (Some sample_key) 10])] 1"
  by (simp add: apply_enqueue_command_def branch_known_def sample_defs dedup_response_def queue_of_def
      global_depth_def QueueConfig_default_def DEFAULT_PER_BRANCH_def DEFAULT_GLOBAL_def
      u64_wrapping_succ_def hm_defs)

lemma sample_step_4:
  "fst (apply_command (sample_stage [] sample_ledgers []
      [(RefKey_new ''orders'' ''main'', [sample_entry 0 4 (Some sample_key) 10])] 1)
      (EnqueueCommand (sample_submission None 20)) 5) =
   sample_stage [] sample_ledgers []
     [(RefKey_new ''orders'' ''main'', [sample_entry 0 4 (Some sample_key) 10, sample_entry 1 5 None 20])] 2"
  by (simp add: apply_enqueue_command_def branch_known_def sample_defs dedup_response_def queue_of_def
      global_depth_def QueueConfig_default_def DEFAULT_PER_BRANCH_def DEFAULT_GLOBAL_def
      u64_wrapping_succ_def hm_defs)

definition sample_ref :: RefEntry where
  "sample_ref =
     \<lparr>re_head = ContentId [30], re_t = 1, re_last_advanced_at_millis = 230, re_last_advanced_index = 6,
      re_index = None, re_source_branch = None, re_branches = 0\<rparr>"

definition sample_record :: ApplyRecord where
  "sample_record =
     \<lparr>ar_request_cid = ContentId [10], ar_body_cid = ContentId [11], ar_body_kind = JsonLdInsert,
      ar_recorded_at_millis = 230, ar_head = ContentId [30], ar_t = 1, ar_recorded_index = 6,
      ar_tally = None, ar_flake_count = 3\<rparr>"

lemma sample_step_5:
  "fst (apply_command (sample_stage [] sample_ledgers []
      [(RefKey_new ''orders'' ''main'', [sample_entry 0 4 (Some sample_key) 10, sample_entry 1 5 None 20])] 2)
      (ApplyHead (sample_head 0 30 1)) 6) =
   sample_stage [(RefKey_new ''orders'' ''main'', sample_ref)] sample_ledgers
     [(sample_key, Applied sample_record)]
     [(RefKey_new ''orders'' ''main'', [sample_entry 1 5 None 20])] 2"
  by (simp add: apply_head_def pop_validated_front_def drop_queue_if_empty_def advance_ref_entry_def
      self_heal_branch_def record_outcome_def sample_defs sample_ref_def sample_record_def hm_defs)

lemma sample_state_eq:
  "sample_state =
     sample_stage [(RefKey_new ''orders'' ''main'', sample_ref)] sample_ledgers
       [(sample_key, Applied sample_record)]
       [(RefKey_new ''orders'' ''main'', [sample_entry 1 5 None 20])] 2"
proof -
  have new: "ad_state StateMachineAdapter_new = NameServiceState_new" by (simp add: StateMachineAdapter_new_def)
  show ?thesis
    unfolding sample_state_def sample_run_def sample_log_def adapter_apply_state adapter_step_state new
      sample_step_1 sample_step_2 sample_step_3 sample_step_4 sample_step_5 ..
qed

text \<open>
  C1. Replica determinism. Two replicas that start empty and apply the same log give the same
  effects for every entry (response, nameservice event, waiter resolution, released content)
  and end in states of the same content, however their hash maps are laid out.
\<close>

theorem replica_determinism:
  assumes "raft_trace es rs a" "raft_trace es rs' b"
  shows "rs = rs' \<and> adapter_eqv a b"
  using replica.trace_sim [OF assms raft_inv_init raft_inv_init] by simp

theorem replica_determinism_witness:
  "adapter_eqv (fst sample_run) sample_relayout \<and> fst sample_run \<noteq> sample_relayout"
proof -
  have "map fst (st_ledgers sample_state) = [''orders'', ''users'']"
    by (simp add: sample_state_eq sample_stage_def sample_ledgers_def)
  then have "fst sample_run \<noteq> sample_relayout"
    by (auto simp: sample_relayout_def sample_state_def rev_map dest!: arg_cong [where f = "\<lambda>a. map fst (st_ledgers (ad_state a))"])
  then show ?thesis using replica_determinism [OF sample_trace sample_relayout_trace] by simp
qed

end
