(* ===== verification/RaftHeads.thy ===== *)
theory RaftHeads
  imports RaftReplica
begin

text \<open>
  What the replicated state machine promises about branch heads along a trace: commit heads
  move forward only, a retracted branch is frozen, an index never runs ahead of its commit
  head, and the lineage of branches is kept. Each promise is shown for one command and then
  for every trace.
\<close>

section \<open>One entry\<close>

lemma raft_stepE:
  assumes "raft_step a (i, p) r b"
  obtains "state_eqv (fst (apply_entry (ad_state a) (i, p))) (ad_state b)"
    "entry_ok a (i, p)" "next_index b = i + 1"
proof -
  from assms have "adapter_eqv (fst (adapter_step a (i, p))) b" "entry_ok a (i, p)"
    by (auto simp: raft_step_iff)
  then show thesis
    using next_index_step [of a "(i, p)"]
    by (intro that) (auto simp: adapter_eqv_def adapter_step_def Let_def case_prod_beta next_index_def)
qed

text \<open>The branch heads change by commands only.\<close>

lemma apply_entry_refs:
  "st_refs (fst (apply_entry s (i, p))) =
     (case p of Normal c \<Rightarrow> st_refs (fst (apply_command s c i)) | _ \<Rightarrow> st_refs s)"
  by (simp add: apply_entry_def case_prod_beta Let_def apply_membership_def split: EntryPayload.split)

section \<open>Commit heads move forward\<close>

text \<open>The commands that may take a branch's head away or rewind it.\<close>

fun rewinds :: "RefKey \<Rightarrow> EntryPayload \<Rightarrow> bool" where
  "rewinds k (Normal (ResetHead l b _ _)) = (k = RefKey_new l b)"
| "rewinds k (Normal (DropBranch l b _)) = (k = RefKey_new l b)"
| "rewinds k (Normal (PurgeBranch l b _)) = (k = RefKey_new l b)"
| "rewinds k _ = False"

definition head_le :: "RefEntry \<Rightarrow> RefEntry \<Rightarrow> bool" where
  "head_le e e' \<longleftrightarrow> re_t e \<le> re_t e' \<and> (re_head e' \<noteq> re_head e \<longrightarrow> re_t e < re_t e')"

lemma head_le_refl [simp]: "head_le e e"
  by (simp add: head_le_def)

lemma head_le_trans: "head_le e e' \<Longrightarrow> head_le e' e'' \<Longrightarrow> head_le e e''"
  unfolding head_le_def by (metis order_trans less_le_trans le_less_trans)

lemma head_le_fields [simp]:
  "head_le e (e\<lparr>re_branches := n\<rparr>)" "head_le e (e\<lparr>re_index := ix, re_last_advanced_at_millis := m\<rparr>)"
  by (simp_all add: head_le_def)

definition keeps_head :: "RefKey \<Rightarrow> RefEntry \<Rightarrow> NameServiceState \<Rightarrow> bool" where
  "keeps_head k e s \<longleftrightarrow> (\<exists>e'. hm_get (st_refs s) k = Some e' \<and> head_le e e')"

lemma keeps_head_refs: "hm_get (st_refs s') k = Some e \<Longrightarrow> keeps_head k e s'"
  by (simp add: keeps_head_def)

lemma keeps_head_lifecycle:
  assumes "hm_get (st_refs s) k = Some e" "registry_inv s"
  shows "keeps_head k e (fst (create_branch s i nb))"
    and "k \<noteq> RefKey_new l b \<Longrightarrow> keeps_head k e (fst (drop_branch s l b at))"
    and "k \<noteq> RefKey_new l b \<Longrightarrow> keeps_head k e (fst (purge_branch s l b at))"
    and "k \<noteq> RefKey_new l b \<Longrightarrow> keeps_head k e (fst (reset_head s l b sn at))"
proof -
  have known: "branch_known (st_ledgers s) (rk_ledger_name k) (rk_branch k)"
    using registry_invD(3) [OF assms(2,1)] by (simp add: key_known_def)
  then show "keeps_head k e (fst (create_branch s i nb))"
    using assms(1)
    by (cases "nb_at_commit nb")
      (auto simp: create_branch_def Let_def case_prod_beta keeps_head_def branch_known_def split: option.split)
  show "k \<noteq> RefKey_new l b \<Longrightarrow> keeps_head k e (fst (drop_branch s l b at))"
    "k \<noteq> RefKey_new l b \<Longrightarrow> keeps_head k e (fst (purge_branch s l b at))"
    "k \<noteq> RefKey_new l b \<Longrightarrow> keeps_head k e (fst (reset_head s l b sn at))"
    using assms(1)
    by (auto simp: drop_branch_def purge_branch_def reset_head_def Let_def case_prod_beta keeps_head_def
        decrement_refs split: option.split)
qed

lemma keeps_head_refs_commands:
  assumes "hm_get (st_refs s) k = Some e"
  shows "keeps_head k e (fst (set_index_head s ni f))"
    "keeps_head k e (fst (apply_compare_and_set_ref s i rc))"
    "keeps_head k e (fst (apply_publish_graph_source s n b st c d))"
    "keeps_head k e (fst (apply_publish_graph_source_index s n b ci t))"
    "keeps_head k e (fst (apply_retract_graph_source s n b))"
proof -
  show "keeps_head k e (fst (apply_compare_and_set_ref s i rc))"
    using assms
    by (auto simp: apply_compare_and_set_ref_def current_ref_value_def Let_def case_prod_beta keeps_head_def
        head_le_def split: option.split RefKind.split)
qed (use assms in \<open>auto simp: set_index_head_def apply_publish_graph_source_def
    apply_publish_graph_source_index_def apply_retract_graph_source_def Let_def keeps_head_def split: option.split\<close>)

lemma keeps_head_queue:
  assumes "hm_get (st_refs s) k = Some e"
  shows "keeps_head k e (fst (apply_head s i a))"
    "keeps_head k e (fst (apply_poison_queue_entry s i ep))"
    "keeps_head k e (fst (apply_enqueue_command s i qs))"
proof -
  show "keeps_head k e (fst (apply_head s i a))"
  proof (cases rule: apply_head_cases [of s i a])
    case (applied k' en rest)
    show ?thesis
      using assms applied(1,6) unfolding applied(7)
      by (cases "k = k'") (auto simp: keeps_head_def advance_ref_entry_def Let_def head_le_def)
  qed (use assms in \<open>simp_all add: keeps_head_refs\<close>)
  show "keeps_head k e (fst (apply_poison_queue_entry s i ep))"
    using assms by (cases rule: poison_cases [of s i ep]) (simp_all add: keeps_head_refs)
  show "keeps_head k e (fst (apply_enqueue_command s i qs))"
    using assms by (cases rule: enqueue_cases [of s i qs]) (simp_all add: keeps_head_refs)
qed

lemma apply_command_head:
  assumes "hm_get (st_refs s) k = Some e" "registry_inv s" "\<not> rewinds k (Normal c)"
  shows "keeps_head k e (fst (apply_command s c i))"
  using assms
  by (cases c)
    (simp_all add: keeps_head_lifecycle keeps_head_refs_commands keeps_head_queue advance_index_head_def
      rewrite_index_head_def case_prod_beta keeps_head_refs apply_evict_idempotency_def Let_def
      create_ledger_def retract_ledger_def apply_set_worker_eligibility_def)

lemma raft_step_head:
  assumes st: "raft_step a (i, p) r b" and inv: "raft_inv a"
    and e: "keeps_head k e (ad_state a)" and p: "\<not> rewinds k p"
  shows "keeps_head k e (ad_state b)"
proof -
  obtain e0 where e0: "hm_get (st_refs (ad_state a)) k = Some e0" "head_le e e0"
    using e by (auto simp: keeps_head_def)
  obtain eqv: "state_eqv (fst (apply_entry (ad_state a) (i, p))) (ad_state b)"
    using st by (rule raft_stepE)
  have "keeps_head k e0 (fst (apply_entry (ad_state a) (i, p)))"
  proof (cases p)
    case (Normal c)
    then show ?thesis
      using apply_command_head [OF e0(1), of c i] inv p
      by (simp add: raft_inv_def keeps_head_def apply_entry_refs)
  qed (use e0 in \<open>simp_all add: keeps_head_def apply_entry_refs\<close>)
  then show ?thesis
    using e0(2) by (auto simp: keeps_head_def state_eqv_get(1) [OF eqv] intro: head_le_trans)
qed

lemma raft_trace_head:
  assumes "trace raft_step a es rs b" "raft_inv a" "keeps_head k e (ad_state a)"
    "\<And>i p. (i, p) \<in> set es \<Longrightarrow> \<not> rewinds k p"
  shows "keeps_head k e (ad_state b)"
  using assms
proof (induction rule: trace.induct)
  case (trace_cons a en r a' es rs b)
  obtain i p where en: "en = (i, p)" by (cases en)
  have "keeps_head k e (ad_state a')"
    using raft_step_head [of a i p r a' k e] trace_cons.hyps(1) trace_cons.prems en by auto
  then show ?case using trace_cons raft_step_inv by (meson list.set_intros(2))
qed simp

section \<open>Retracted branches\<close>

fun removes :: "RefKey \<Rightarrow> Command \<Rightarrow> bool" where
  "removes k (DropBranch l b _) = (k = RefKey_new l b)"
| "removes k (PurgeBranch l b _) = (k = RefKey_new l b)"
| "removes k _ = False"

text \<open>All of a ref entry but the number of branches forked from it.\<close>

definition own_fields :: "RefEntry \<Rightarrow> RefEntry" where
  "own_fields e = e\<lparr>re_branches := 0\<rparr>"

lemma own_fields_branches [simp]: "own_fields (e\<lparr>re_branches := n\<rparr>) = own_fields e"
  by (simp add: own_fields_def)

definition frozen_in :: "RefKey \<Rightarrow> RefEntry option \<Rightarrow> NameServiceState \<Rightarrow> bool" where
  "frozen_in k fe s \<longleftrightarrow> k \<in> st_retracted s \<and> map_option own_fields (hm_get (st_refs s) k) = fe"

lemma frozen_lifecycle:
  assumes "k \<in> st_retracted s" "registry_inv s"
    and fe: "fe = map_option own_fields (hm_get (st_refs s) k)"
  shows "frozen_in k fe (fst (create_branch s i nb))"
    and "frozen_in k fe (fst (retract_ledger s l b at))"
    and "k \<noteq> RefKey_new l b \<Longrightarrow> frozen_in k fe (fst (drop_branch s l b at))"
    and "k \<noteq> RefKey_new l b \<Longrightarrow> frozen_in k fe (fst (purge_branch s l b at))"
    and "frozen_in k fe (fst (reset_head s l b sn at))"
proof -
  have known: "branch_known (st_ledgers s) (rk_ledger_name k) (rk_branch k)"
    using registry_invD(4) [OF assms(2,1)] by (simp add: key_known_def)
  then show "frozen_in k fe (fst (create_branch s i nb))"
    using assms(1) unfolding fe
    by (cases "nb_at_commit nb")
      (auto simp: create_branch_def Let_def case_prod_beta frozen_in_def branch_known_def split: option.split)
  show "frozen_in k fe (fst (retract_ledger s l b at))" "frozen_in k fe (fst (reset_head s l b sn at))"
    "k \<noteq> RefKey_new l b \<Longrightarrow> frozen_in k fe (fst (drop_branch s l b at))"
    "k \<noteq> RefKey_new l b \<Longrightarrow> frozen_in k fe (fst (purge_branch s l b at))"
    using assms(1) unfolding fe
    by (auto simp: drop_branch_def purge_branch_def reset_head_def retract_ledger_def Let_def case_prod_beta
        frozen_in_def decrement_refs option.map_comp o_def split: option.split)
qed

lemma frozen_refs:
  assumes "k \<in> st_retracted s" and fe: "fe = map_option own_fields (hm_get (st_refs s) k)"
  shows "frozen_in k fe (fst (set_index_head s ni f))"
    "frozen_in k fe (fst (apply_compare_and_set_ref s i rc))"
    "frozen_in k fe (fst (apply_publish_graph_source s n b st c d))"
    "frozen_in k fe (fst (apply_publish_graph_source_index s n b ci t))"
    "frozen_in k fe (fst (apply_retract_graph_source s n b))"
  using assms
  by (auto simp: set_index_head_def apply_publish_graph_source_def apply_compare_and_set_ref_def
    apply_publish_graph_source_index_def apply_retract_graph_source_def Let_def case_prod_beta
    frozen_in_def split: option.split RefKind.split)

lemma frozen_queue:
  assumes "k \<in> st_retracted s" and fe: "fe = map_option own_fields (hm_get (st_refs s) k)"
  shows "frozen_in k fe (fst (apply_head s i a))"
    "frozen_in k fe (fst (apply_poison_queue_entry s i ep))"
    "frozen_in k fe (fst (apply_enqueue_command s i qs))"
proof -
  show "frozen_in k fe (fst (apply_head s i a))"
  proof (cases rule: apply_head_cases [of s i a])
    case (applied k' en rest)
    then have "k \<noteq> RefKey_new (sh_ledger_id a) (sh_branch a)" using assms(1) by auto
    then show ?thesis
      using assms unfolding applied(7) by (simp add: frozen_in_def advance_ref_entry_def Let_def)
  qed (use assms in \<open>simp_all add: frozen_in_def\<close>)
  show "frozen_in k fe (fst (apply_poison_queue_entry s i ep))"
    using assms by (cases rule: poison_cases [of s i ep]) (simp_all add: frozen_in_def)
  show "frozen_in k fe (fst (apply_enqueue_command s i qs))"
    using assms by (cases rule: enqueue_cases [of s i qs]) (simp_all add: frozen_in_def)
qed

lemma evict_frame [simp]:
  "st_refs (fst (apply_evict_idempotency s c m)) = st_refs s"
  "st_retracted (fst (apply_evict_idempotency s c m)) = st_retracted s"
  "st_queues (fst (apply_evict_idempotency s c m)) = st_queues s"
  "st_ledgers (fst (apply_evict_idempotency s c m)) = st_ledgers s"
  by (simp_all add: apply_evict_idempotency_def Let_def case_prod_beta)

lemma eligibility_frame [simp]:
  "st_refs (fst (apply_set_worker_eligibility s a)) = st_refs s"
  "st_retracted (fst (apply_set_worker_eligibility s a)) = st_retracted s"
  "st_queues (fst (apply_set_worker_eligibility s a)) = st_queues s"
  "st_ledgers (fst (apply_set_worker_eligibility s a)) = st_ledgers s"
  "st_idempotency (fst (apply_set_worker_eligibility s a)) = st_idempotency s"
  by (simp_all add: apply_set_worker_eligibility_def Let_def)

lemma frozen_frame:
  "k \<in> st_retracted s \<Longrightarrow> st_retracted s' = st_retracted s \<Longrightarrow> st_refs s' = st_refs s \<Longrightarrow>
    frozen_in k (map_option own_fields (hm_get (st_refs s) k)) s'"
  by (simp add: frozen_in_def)

lemma apply_command_frozen:
  assumes "k \<in> st_retracted s" "registry_inv s" "\<not> removes k c"
  shows "frozen_in k (map_option own_fields (hm_get (st_refs s) k)) (fst (apply_command s c i))"
  using assms
  by (cases c)
    (simp_all add: frozen_lifecycle frozen_refs frozen_queue advance_index_head_def
      rewrite_index_head_def case_prod_beta frozen_frame)

section \<open>The index stays behind the commit head\<close>

definition index_behind :: "NameServiceState \<Rightarrow> bool" where
  "index_behind s \<longleftrightarrow>
     (\<forall>k e ix. hm_get (st_refs s) k = Some e \<longrightarrow> re_index e = Some ix \<longrightarrow> ix_t ix \<le> re_t e)"

text \<open>A reset to a snapshot whose own index is behind its own commit.\<close>

fun snapshot_ok :: "EntryPayload \<Rightarrow> bool" where
  "snapshot_ok (Normal (ResetHead _ _ sn _)) =
     (rs_commit_head_id sn \<noteq> None \<and> rs_index_head_id sn \<noteq> None \<longrightarrow> rs_index_t sn \<le> rs_commit_t sn)"
| "snapshot_ok _ = True"

lemma index_behindD:
  "index_behind s \<Longrightarrow> hm_get (st_refs s) k = Some e \<Longrightarrow> re_index e = Some ix \<Longrightarrow> ix_t ix \<le> re_t e"
  by (auto simp: index_behind_def)

lemma index_behind_frame: "st_refs s' = st_refs s \<Longrightarrow> index_behind s \<Longrightarrow> index_behind s'"
  by (simp add: index_behind_def)

lemma index_behind_lifecycle:
  assumes "index_behind s"
  shows "index_behind (fst (create_branch s i nb))" "index_behind (fst (retract_ledger s l b at))"
    "index_behind (fst (drop_branch s l b at))" "index_behind (fst (purge_branch s l b at))"
    "snapshot_ok (Normal (ResetHead l b sn at)) \<Longrightarrow> index_behind (fst (reset_head s l b sn at))"
  using index_behindD [OF assms] unfolding index_behind_def
  by (auto simp: create_branch_def drop_branch_def purge_branch_def reset_head_def retract_ledger_def Let_def
      case_prod_beta decrement_refs split: option.splits if_splits)

lemma index_behind_refs:
  assumes "index_behind s"
  shows "index_behind (fst (set_index_head s ni f))" "index_behind (fst (apply_publish_graph_source s n b st c d))"
    "index_behind (fst (apply_publish_graph_source_index s n b ci t))"
    "index_behind (fst (apply_retract_graph_source s n b))"
  using index_behindD [OF assms] unfolding index_behind_def
  by (auto simp: set_index_head_def apply_publish_graph_source_def apply_publish_graph_source_index_def
      apply_retract_graph_source_def Let_def split: option.splits if_splits)

lemma index_behind_cas:
  assumes "index_behind s"
  shows "index_behind (fst (apply_compare_and_set_ref s i rc))"
  using index_behindD [OF assms] unfolding index_behind_def
  by (fastforce simp: apply_compare_and_set_ref_def current_ref_value_def Let_def case_prod_beta
      split: option.splits if_splits RefKind.splits)

lemma index_behind_queue:
  assumes "index_behind s"
  shows "index_behind (fst (apply_head s i a))" "index_behind (fst (apply_poison_queue_entry s i ep))"
    "index_behind (fst (apply_enqueue_command s i qs))"
proof -
  show "index_behind (fst (apply_head s i a))"
  proof (cases rule: apply_head_cases [of s i a])
    case (applied k en rest)
    show ?thesis
      using index_behindD [OF assms] applied(1,6) unfolding applied(7) index_behind_def
      by (fastforce simp: advance_ref_entry_def Let_def split: option.splits if_splits)
  qed (use assms in \<open>simp_all add: index_behind_frame [of _ s]\<close>)
  show "index_behind (fst (apply_poison_queue_entry s i ep))"
    using assms by (cases rule: poison_cases [of s i ep]) (simp_all add: index_behind_frame [of _ s])
  show "index_behind (fst (apply_enqueue_command s i qs))"
    using assms by (cases rule: enqueue_cases [of s i qs]) (simp_all add: index_behind_frame [of _ s])
qed

lemma apply_command_index:
  assumes "index_behind s" "snapshot_ok (Normal c)"
  shows "index_behind (fst (apply_command s c i))"
proof (cases c)
  case (ResetHead l b sn at)
  then show ?thesis using index_behind_lifecycle(5) [OF assms(1), of l b sn at] assms(2) by simp
qed (simp_all add: index_behind_lifecycle(1-4) [OF assms(1)] index_behind_refs [OF assms(1)]
    index_behind_cas [OF assms(1)] index_behind_queue [OF assms(1)] advance_index_head_def
    rewrite_index_head_def case_prod_beta index_behind_frame [OF _ assms(1)] assms(1))

section \<open>Facts about branch heads along a trace\<close>

text \<open>
  A fact that speaks of the ref entries only, may depend on the next log index, and survives
  every admissible command, survives every trace of admissible entries.
\<close>

locale heads_preserved =
  fixes inv :: "nat \<Rightarrow> NameServiceState \<Rightarrow> bool" and ok :: "nat \<Rightarrow> EntryPayload \<Rightarrow> bool"
  assumes command: "registry_inv s \<Longrightarrow> inv i s \<Longrightarrow> ok i (Normal c) \<Longrightarrow> inv (i + 1) (fst (apply_command s c i))"
    and content: "inv n s \<Longrightarrow> (\<And>k. hm_get (st_refs t) k = hm_get (st_refs s) k) \<Longrightarrow> n \<le> m \<Longrightarrow> inv m t"
begin

lemma step:
  assumes st: "raft_step a (i, p) r b" and h: "raft_inv a" "inv (next_index a) (ad_state a)" "ok i p"
  shows "inv (next_index b) (ad_state b)"
proof -
  obtain eqv: "state_eqv (fst (apply_entry (ad_state a) (i, p))) (ad_state b)" and i: "next_index a \<le> i"
    and n: "next_index b = i + 1"
    using st by (rule raft_stepE) (simp add: entry_ok_def)
  have at_i: "inv i (ad_state a)" using content [OF h(2) refl i] .
  have "inv (i + 1) (fst (apply_entry (ad_state a) (i, p)))"
  proof (cases p)
    case (Normal c)
    have "inv (i + 1) (fst (apply_command (ad_state a) c i))"
      using command [OF _ at_i] h Normal by (simp add: raft_inv_def)
    then show ?thesis by (rule content) (simp_all add: apply_entry_refs Normal)
  qed (use content [OF at_i] in \<open>simp_all add: apply_entry_refs\<close>)
  then show ?thesis by (rule content) (simp_all add: state_eqv_get(1) [OF eqv] n)
qed

lemma along_trace:
  assumes "trace raft_step a es rs b" "raft_inv a" "inv (next_index a) (ad_state a)"
    "\<And>i p. (i, p) \<in> set es \<Longrightarrow> ok i p"
  shows "inv (next_index b) (ad_state b)"
  using assms
proof (induction rule: trace.induct)
  case (trace_cons a en r a' es rs b)
  obtain i p where en: "en = (i, p)" by (cases en)
  have "inv (next_index a') (ad_state a')"
    using step [of a i p r a'] trace_cons.hyps(1) trace_cons.prems en by auto
  then show ?case using trace_cons raft_step_inv by (meson list.set_intros(2))
qed simp

end

interpretation ih: heads_preserved "\<lambda>_. index_behind" "\<lambda>_. snapshot_ok"
  by unfold_locales (rule apply_command_index, assumption+, simp add: index_behind_def)

section \<open>Branch lineage\<close>

text \<open>
  The lineage view of the ref entries: the branch each was forked from and its child count.
  It is sound when each count is the number of branches forked from it and every source still
  has an entry.
\<close>

type_synonym lineage_view = "RefKey \<Rightarrow> (string option \<times> nat) option"

definition kids :: "lineage_view \<Rightarrow> string \<Rightarrow> string \<Rightarrow> string set" where
  "kids v l b = {b'. \<exists>n. v (RefKey_new l b') = Some (Some b, n)}"

definition lineage :: "lineage_view \<Rightarrow> bool" where
  "lineage v \<longleftrightarrow> (\<forall>l b src n. v (RefKey_new l b) = Some (src, n) \<longrightarrow>
     n = card (kids v l b) \<and> (\<forall>p. src = Some p \<longrightarrow> v (RefKey_new l p) \<noteq> None))"

lemma kids_finite: "finite (dom v) \<Longrightarrow> finite (kids v l b)"
proof (rule finite_imageD [where f = "RefKey_new l"])
  assume "finite (dom v)"
  then show "finite (RefKey_new l ` kids v l b)" by (rule rev_finite_subset) (auto simp: kids_def)
qed (simp add: inj_on_def)

lemma kids_le: "finite (dom v) \<Longrightarrow> card (kids v l b) \<le> card (dom v)"
proof -
  assume fin: "finite (dom v)"
  have "card (kids v l b) = card (RefKey_new l ` kids v l b)"
    by (rule card_image [symmetric]) (simp add: inj_on_def)
  also have "\<dots> \<le> card (dom v)" by (rule card_mono [OF fin]) (auto simp: kids_def)
  finally show ?thesis .
qed

lemma lineageD:
  assumes "lineage v" "v (RefKey_new l b) = Some (src, n)"
  shows "n = card (kids v l b)" "src = Some p \<Longrightarrow> v (RefKey_new l p) \<noteq> None"
  using assms by (auto simp: lineage_def)

lemma lineage_orphan: "lineage v \<Longrightarrow> v (RefKey_new l b) = None \<Longrightarrow> kids v l b = {}"
  by (auto simp: kids_def dest: lineageD(2))

lemma lineage_root:
  assumes "lineage v" "v (RefKey_new l b) = None"
  shows "lineage (v(RefKey_new l b \<mapsto> (None, 0)))"
proof -
  have kids: "kids (v(RefKey_new l b \<mapsto> (None, 0))) l' b' = kids v l' b'" for l' b'
    using assms(2) by (auto simp: kids_def)
  show ?thesis
    using assms lineage_orphan [OF assms] unfolding lineage_def kids by auto
qed

lemma lineage_fork:
  assumes lin: "lineage v" and fin: "finite (dom v)" and free: "v (RefKey_new l b) = None"
    and src: "v (RefKey_new l p) = Some (src, n)"
  shows "lineage (v(RefKey_new l p \<mapsto> (src, n + 1), RefKey_new l b \<mapsto> (Some p, 0)))" (is "lineage ?v")
proof -
  have ne: "b \<noteq> p" using free src by auto
  have kids: "kids ?v l' b' = (if l' = l \<and> b' = p then insert b (kids v l p) else kids v l' b')" for l' b'
    using free src ne by (auto simp: kids_def split: if_splits)
  have new: "b \<notin> kids v l p" using free by (simp add: kids_def)
  have "n + 1 = card (insert b (kids v l p))"
    using lineageD(1) [OF lin src] kids_finite [OF fin] new by simp
  then show ?thesis
    using lin free src ne lineage_orphan [OF lin free] unfolding lineage_def kids
    by (auto split: if_splits)
qed

lemma lineage_leaf:
  assumes lin: "lineage v" and fin: "finite (dom v)" and leaf: "v (RefKey_new l b) = Some (src, 0)"
  defines "v0 \<equiv> v(RefKey_new l b := None)"
  shows "lineage (case src of None \<Rightarrow> v0
    | Some p \<Rightarrow> v0(RefKey_new l p := map_option (\<lambda>(s, n). (s, n - 1)) (v0 (RefKey_new l p))))"
proof -
  have no_kids: "kids v l b = {}" using lineageD(1) [OF lin leaf] kids_finite [OF fin] by simp
  then have not_src: "v (RefKey_new l b') \<noteq> Some (Some b, n)" for b' n by (auto simp: kids_def)
  have keep: "v0 (RefKey_new l' p) \<noteq> None" if "v0 (RefKey_new l' b') = Some (Some p, n)" for l' b' p n
    using that lineageD(2) [OF lin, of l' b' "Some p" n p] not_src
    by (auto simp: v0_def split: if_splits)
  have kids0: "kids v0 l' b' = (if l' = l then kids v l b' - {b} else kids v l' b')" for l' b'
    by (auto simp: kids_def v0_def)
  show ?thesis
  proof (cases src)
    case None
    then have "b \<notin> kids v l b'" for b' using leaf by (simp add: kids_def)
    then have same: "kids v0 l' b' = kids v l' b'" for l' b' using kids0 by simp
    have "lineage v0"
      unfolding lineage_def same
    proof (intro allI impI conjI)
      fix l' b' src' n assume v: "v0 (RefKey_new l' b') = Some (src', n)"
      then have "v (RefKey_new l' b') = Some (src', n)" by (simp add: v0_def split: if_splits)
      then show "n = card (kids v l' b')" by (rule lineageD(1) [OF lin])
      show "v0 (RefKey_new l' p) \<noteq> None" if "src' = Some p" for p using keep v that by simp
    qed
    then show ?thesis using None by simp
  next
    case (Some p)
    obtain sp np where parent: "v (RefKey_new l p) = Some (sp, np)"
      using lineageD(2) [OF lin leaf Some] by auto
    have ne: "p \<noteq> b" using not_src [of b] leaf Some by auto
    let ?v = "v0(RefKey_new l p \<mapsto> (sp, np - 1))"
    have step: "v0(RefKey_new l p := map_option (\<lambda>(s, n). (s, n - 1)) (v0 (RefKey_new l p))) = ?v"
      using parent ne by (simp add: v0_def)
    have child: "b \<in> kids v l b' \<longleftrightarrow> b' = p" for b' using leaf Some by (auto simp: kids_def)
    have kids: "kids ?v l' b' = (if l' = l \<and> b' = p then kids v l p - {b} else kids v l' b')" for l' b'
    proof -
      have "kids ?v l' b' = kids v0 l' b'" using parent ne by (auto simp: kids_def v0_def)
      then show ?thesis using child by (auto simp: kids0)
    qed
    have np: "np - 1 = card (kids v l p - {b})"
      using lineageD(1) [OF lin parent] child [of p] kids_finite [OF fin] by simp
    have sp: "sp \<noteq> Some b" using parent not_src [of p] by auto
    have "lineage ?v"
      unfolding lineage_def kids
      using lin np keep lineageD(2) [OF lin parent] not_src ne sp unfolding lineage_def
      by (auto simp: v0_def parent split: if_splits)
    then show ?thesis using Some step by simp
  qed
qed

text \<open>The view of a state, and the invariant: sound, and no more entries than log entries applied.\<close>

definition lineage_of :: "NameServiceState \<Rightarrow> lineage_view" where
  "lineage_of s = (\<lambda>k. map_option (\<lambda>e. (re_source_branch e, re_branches e)) (hm_get (st_refs s) k))"

definition lineage_inv :: "nat \<Rightarrow> NameServiceState \<Rightarrow> bool" where
  "lineage_inv n s \<longleftrightarrow> lineage (lineage_of s) \<and> card (dom (lineage_of s)) \<le> n"

text \<open>No reset to the unborn state, and few enough entries that a child count cannot saturate.\<close>

fun lineage_ok :: "nat \<Rightarrow> EntryPayload \<Rightarrow> bool" where
  "lineage_ok i (Normal (ResetHead _ _ sn _)) = (rs_commit_head_id sn \<noteq> None)"
| "lineage_ok i (Normal (CreateBranch _)) = (i < 2 ^ 32 - 1)"
| "lineage_ok i _ = True"

lemma lineage_of_finite [simp]: "finite (dom (lineage_of s))"
  by (rule finite_subset [of _ "dom (map_of (st_refs s))"])
    (auto simp: lineage_of_def hm_get_def finite_dom_map_of split: option.splits)

lemma lineage_inv_upd:
  assumes "lineage_inv n s" "lineage (lineage_of s')" "dom (lineage_of s') \<subseteq> insert k (dom (lineage_of s))"
  shows "lineage_inv (Suc n) s'"
proof -
  have "card (dom (lineage_of s')) \<le> card (insert k (dom (lineage_of s)))"
    by (rule card_mono [OF _ assms(3)]) simp
  also have "\<dots> \<le> n + 1" using assms(1) by (simp add: card_insert_if lineage_inv_def)
  finally show ?thesis using assms(2) by (simp add: lineage_inv_def)
qed

lemma lineage_inv_frame: "lineage_inv n s \<Longrightarrow> lineage_of s' = lineage_of s \<Longrightarrow> lineage_inv (Suc n) s'"
  by (simp add: lineage_inv_def)

lemma lineage_inv_root:
  assumes "lineage_inv n s" "lineage_of s' = (lineage_of s)(k \<mapsto> (None, 0))" "lineage_of s k = None"
  shows "lineage_inv (Suc n) s'"
proof (rule lineage_inv_upd [OF assms(1)])
  show "lineage (lineage_of s')"
    using lineage_root [of "lineage_of s" "rk_ledger_name k" "rk_branch k"] assms by (simp add: lineage_inv_def)
  show "dom (lineage_of s') \<subseteq> insert k (dom (lineage_of s))" using assms(2) by auto
qed

text \<open>A write to one ref entry that keeps its source and count, or creates a fresh one.\<close>

lemma lineage_inv_write:
  assumes inv: "lineage_inv n s"
    and refs: "\<And>k'. hm_get (st_refs s') k' = (if k' = k then Some e' else hm_get (st_refs s) k')"
    and e': "re_source_branch e' = (case hm_get (st_refs s) k of Some e \<Rightarrow> re_source_branch e | None \<Rightarrow> None)"
      "re_branches e' = (case hm_get (st_refs s) k of Some e \<Rightarrow> re_branches e | None \<Rightarrow> 0)"
  shows "lineage_inv (Suc n) s'"
proof (cases "hm_get (st_refs s) k")
  case None
  then have "lineage_of s' = (lineage_of s)(k \<mapsto> (None, 0))"
    using e' by (auto simp: lineage_of_def refs fun_eq_iff)
  then show ?thesis using None by (intro lineage_inv_root [OF inv]) (simp_all add: lineage_of_def)
next
  case (Some e)
  then have "lineage_of s' = lineage_of s" using e' by (auto simp: lineage_of_def refs fun_eq_iff)
  then show ?thesis by (rule lineage_inv_frame [OF inv])
qed

lemma lineage_inv_same: "lineage_inv n s \<Longrightarrow> st_refs s' = st_refs s \<Longrightarrow> lineage_inv (Suc n) s'"
  by (rule lineage_inv_frame) (simp_all add: lineage_of_def)

lemma lineage_create_branch:
  assumes inv: "lineage_inv i s" and reg: "registry_inv s" and i: "i < 2 ^ 32 - 1"
  shows "lineage_inv (Suc i) (fst (create_branch s i nb))"
proof (cases "fst (create_branch s i nb) = s")
  case True
  then show ?thesis using lineage_inv_same [OF inv] by simp
next
  case False
  let ?l = "nb_ledger_id nb" let ?b = "nb_branch nb" let ?p = "nb_source_branch nb"
  obtain lr src where ok: "hm_get (st_ledgers s) ?l = Some lr" "?b \<notin> set (lr_branches lr)"
    "hm_get (st_refs s) (RefKey_new ?l ?p) = Some src"
    using False by (auto simp: create_branch_def Let_def split: option.splits if_splits)
  have "\<not> key_known s (RefKey_new ?l ?b)" using ok by (simp add: key_known_def branch_known_def)
  then have free: "hm_get (st_refs s) (RefKey_new ?l ?b) = None"
    using registry_invD(3) [OF reg, of "RefKey_new ?l ?b"] by (cases "hm_get (st_refs s) (RefKey_new ?l ?b)") auto
  have v: "lineage_of s (RefKey_new ?l ?p) = Some (re_source_branch src, re_branches src)"
    using ok(3) by (simp add: lineage_of_def)
  have lin: "lineage (lineage_of s)" using inv by (simp add: lineage_inv_def)
  have "re_branches src = card (kids (lineage_of s) ?l ?p)" by (rule lineageD(1) [OF lin v])
  also have "\<dots> \<le> i" using kids_le [OF lineage_of_finite] inv by (meson lineage_inv_def order_trans)
  finally have succ: "u32_saturating_succ (re_branches src) = re_branches src + 1"
    using i by (simp add: u32_saturating_succ_def)
  have new: "lineage_of (fst (create_branch s i nb)) =
      (lineage_of s)(RefKey_new ?l ?p \<mapsto> (re_source_branch src, re_branches src + 1),
        RefKey_new ?l ?b \<mapsto> (Some ?p, 0))"
    using ok free succ
    by (auto simp: create_branch_def Let_def case_prod_beta lineage_of_def fun_eq_iff split: option.splits)
  show ?thesis
  proof (rule lineage_inv_upd [OF inv, where k = "RefKey_new ?l ?b"])
    show "lineage (lineage_of (fst (create_branch s i nb)))"
      unfolding new using free v by (intro lineage_fork lin lineage_of_finite) (simp_all add: lineage_of_def)
    show "dom (lineage_of (fst (create_branch s i nb))) \<subseteq> insert (RefKey_new ?l ?b) (dom (lineage_of s))"
      using v by (auto simp: new)
  qed
qed

lemma lineage_remove:
  assumes inv: "lineage_inv n s" and leaf: "has_children s (RefKey_new l b) = None"
    and refs: "\<And>k. hm_get (st_refs s') k =
      (if k = RefKey_new l b then None
       else if (\<exists>p. Option.bind (hm_get (st_refs s) (RefKey_new l b)) re_source_branch = Some p \<and> k = RefKey_new l p)
       then map_option (\<lambda>e. e\<lparr>re_branches := re_branches e - 1\<rparr>) (hm_get (st_refs s) k)
       else hm_get (st_refs s) k)"
  shows "lineage_inv (Suc n) s'"
proof (cases "hm_get (st_refs s) (RefKey_new l b)")
  case None
  then show ?thesis using inv refs by (intro lineage_inv_frame [OF inv]) (auto simp: lineage_of_def fun_eq_iff)
next
  case (Some e)
  have v: "lineage_of s (RefKey_new l b) = Some (re_source_branch e, 0)"
    using leaf Some by (auto simp: has_children_def lineage_of_def split: if_splits)
  have "lineage (lineage_of s)" using inv by (simp add: lineage_inv_def)
  from lineage_leaf [OF this lineage_of_finite v] have "lineage (lineage_of s')"
    by (rule back_subst [of lineage])
      (cases "re_source_branch e"; auto simp: lineage_of_def refs Some fun_eq_iff option.map_comp o_def)
  moreover have "dom (lineage_of s') \<subseteq> insert (RefKey_new l b) (dom (lineage_of s))"
    by (auto simp: lineage_of_def refs split: if_splits)
  ultimately show ?thesis by (rule lineage_inv_upd [OF inv])
qed

lemma lineage_admin:
  assumes inv: "lineage_inv n s"
  shows "lineage_inv (Suc n) (fst (drop_branch s l b at))" "lineage_inv (Suc n) (fst (purge_branch s l b at))"
    "rs_commit_head_id sn \<noteq> None \<Longrightarrow> lineage_inv (Suc n) (fst (reset_head s l b sn at))"
proof -
  note same = lineage_inv_same [OF inv]
  show "lineage_inv (Suc n) (fst (purge_branch s l b at))"
  proof (cases "has_children s (RefKey_new l b)")
    case None
    then show ?thesis
      by (intro lineage_remove [OF inv None])
        (auto simp: purge_branch_def Let_def case_prod_beta decrement_refs split: option.split)
  qed (simp add: purge_branch_def Let_def same)
  show "lineage_inv (Suc n) (fst (drop_branch s l b at))"
  proof (cases "branch_known (st_ledgers s) l b \<and> has_children s (RefKey_new l b) = None")
    case True
    then show ?thesis
      by (intro lineage_remove [OF inv])
        (auto simp: drop_branch_def Let_def case_prod_beta decrement_refs split: option.split)
  next
    case False
    then show ?thesis using same by (auto simp: drop_branch_def Let_def)
  qed
  assume "rs_commit_head_id sn \<noteq> None"
  then obtain h where h: "rs_commit_head_id sn = Some h" by auto
  show "lineage_inv (Suc n) (fst (reset_head s l b sn at))"
  proof (cases "branch_known (st_ledgers s) l b \<and> RefKey_new l b \<notin> st_retracted s")
    case True
    then show ?thesis
      using h
      by (intro lineage_inv_write [OF inv, where k = "RefKey_new l b"
          and e' = "the (hm_get (st_refs (fst (reset_head s l b sn at))) (RefKey_new l b))"])
        (auto simp: reset_head_def Let_def case_prod_beta split: option.split)
  next
    case False
    then show ?thesis using same by (auto simp: reset_head_def Let_def)
  qed
qed

lemma lineage_refs:
  assumes inv: "lineage_inv n s"
  shows "lineage_inv (Suc n) (fst (set_index_head s ni f))"
    "lineage_inv (Suc n) (fst (apply_compare_and_set_ref s i rc))"
    "lineage_inv (Suc n) (fst (apply_publish_graph_source s n' b st c d))"
    "lineage_inv (Suc n) (fst (apply_publish_graph_source_index s n' b ci t))"
    "lineage_inv (Suc n) (fst (apply_retract_graph_source s n' b))"
proof -
  have upd: "lineage_inv (Suc n) (s\<lparr>st_refs := hm_insert (st_refs s) k e'\<rparr>)"
    if "re_source_branch e' = (case hm_get (st_refs s) k of Some e \<Rightarrow> re_source_branch e | None \<Rightarrow> None)"
      "re_branches e' = (case hm_get (st_refs s) k of Some e \<Rightarrow> re_branches e | None \<Rightarrow> 0)" for k e'
    using that by (intro lineage_inv_write [OF inv, where k = k and e' = e']) auto
  note same = lineage_inv_same [OF inv]
  show "lineage_inv (Suc n) (fst (set_index_head s ni f))"
    by (auto simp: set_index_head_def Let_def same split: option.split intro!: upd)
  show "lineage_inv (Suc n) (fst (apply_compare_and_set_ref s i rc))"
    by (auto simp: apply_compare_and_set_ref_def Let_def case_prod_beta same
        split: option.split RefKind.split intro!: upd)
qed (auto simp: apply_publish_graph_source_def apply_publish_graph_source_index_def
    apply_retract_graph_source_def Let_def lineage_inv_same [OF inv] split: option.split)

lemma lineage_queue:
  assumes inv: "lineage_inv n s"
  shows "lineage_inv (Suc n) (fst (apply_head s i a))"
    "lineage_inv (Suc n) (fst (apply_poison_queue_entry s i ep))"
    "lineage_inv (Suc n) (fst (apply_enqueue_command s i qs))"
proof -
  note same = lineage_inv_same [OF inv]
  show "lineage_inv (Suc n) (fst (apply_head s i a))"
  proof (cases rule: apply_head_cases [of s i a])
    case (applied k en rest)
    show ?thesis
      unfolding applied(7) using applied(1)
      by (intro lineage_inv_write [OF inv, where k = k
          and e' = "the (hm_get (st_refs (advance_ref_entry s i a)) k)"])
        (auto simp: advance_ref_entry_def Let_def split: option.split)
  qed (simp_all add: same)
  show "lineage_inv (Suc n) (fst (apply_poison_queue_entry s i ep))"
    by (cases rule: poison_cases [of s i ep]) (simp_all add: same)
  show "lineage_inv (Suc n) (fst (apply_enqueue_command s i qs))"
    by (cases rule: enqueue_cases [of s i qs]) (simp_all add: same)
qed

lemma apply_command_lineage:
  assumes reg: "registry_inv s" and inv: "lineage_inv i s" and ok: "lineage_ok i (Normal c)"
  shows "lineage_inv (Suc i) (fst (apply_command s c i))"
proof (cases c)
  case (ResetHead l b sn at)
  then show ?thesis using lineage_admin(3) [OF inv] ok by simp
next
  case (CreateBranch nb)
  then show ?thesis using lineage_create_branch [OF inv reg] ok by simp
next
  case (RetractLedger l b at)
  have "st_refs (fst (retract_ledger s l b at)) = st_refs s"
    by (simp add: retract_ledger_def Let_def case_prod_beta)
  then show ?thesis using lineage_inv_same [OF inv] RetractLedger by simp
qed (use lineage_inv_same [OF inv] lineage_admin(1,2) [OF inv] lineage_refs [OF inv] lineage_queue [OF inv]
    in \<open>simp_all add: advance_index_head_def rewrite_index_head_def case_prod_beta\<close>)

lemma lineage_inv_content:
  assumes "lineage_inv n s" "\<And>k. hm_get (st_refs t) k = hm_get (st_refs s) k" "n \<le> m"
  shows "lineage_inv m t"
proof -
  have "lineage_of t = lineage_of s" using assms(2) by (simp add: lineage_of_def)
  then show ?thesis using assms(1,3) by (simp add: lineage_inv_def)
qed

interpretation lh: heads_preserved lineage_inv lineage_ok
  by unfold_locales (simp add: apply_command_lineage, fact lineage_inv_content)

section \<open>Properties\<close>

lemma adapter_apply_append:
  "fst (adapter_apply a (es @ fs)) = fst (adapter_apply (fst (adapter_apply a es)) fs)"
  by (simp add: adapter_apply_def run_log_append case_prod_beta Let_def)

lemma adapter_apply_single: "fst (adapter_apply a [e]) = fst (adapter_step a e)"
  by (simp add: adapter_apply_def case_prod_beta Let_def)

lemma sample_next_index: "next_index (fst sample_run) = 7"
proof -
  have "sample_log = butlast sample_log @ [(6, Normal (ApplyHead (sample_head 0 30 1)))]"
    by (simp add: sample_log_def)
  then have "fst sample_run = fst (adapter_step (fst (adapter_apply StateMachineAdapter_new (butlast sample_log)))
      (6, Normal (ApplyHead (sample_head 0 30 1))))"
    using adapter_apply_append [of StateMachineAdapter_new "butlast sample_log" "[(6, Normal (ApplyHead (sample_head 0 30 1)))]"]
    by (simp add: sample_run_def adapter_apply_single)
  then show ?thesis by (simp add: next_index_step)
qed

text \<open>
  C4. Commit heads move forward. From any reachable state on, as long as no entry resets, drops
  or purges a branch, its head stays published, its \<open>t\<close> never decreases, and it changes identity
  only with a strictly larger \<open>t\<close>.
\<close>

theorem commit_heads_monotone:
  assumes "raft_trace es0 rs0 a" "trace raft_step a es rs b"
    and "hm_get (st_refs (ad_state a)) k = Some e" "\<forall>(i, p) \<in> set es. \<not> rewinds k p"
  shows "\<exists>e'. hm_get (st_refs (ad_state b)) k = Some e' \<and> re_t e \<le> re_t e' \<and>
    (re_head e' \<noteq> re_head e \<longrightarrow> re_t e < re_t e')"
  using raft_trace_head [OF assms(2) raft_trace_inv [OF assms(1)] keeps_head_refs [OF assms(3)]] assms(4)
  by (auto simp: keeps_head_def head_le_def)

theorem commit_heads_monotone_witness:
  "\<exists>e'. hm_get (st_refs (ad_state (fst (adapter_apply (fst sample_run) [(7, Normal (ApplyHead (sample_head 1 40 2)))]))))
       (RefKey_new ''orders'' ''main'') = Some e' \<and>
     re_t sample_ref \<le> re_t e' \<and> (re_head e' \<noteq> re_head sample_ref \<longrightarrow> re_t sample_ref < re_t e')"
proof (rule commit_heads_monotone [OF sample_trace])
  show "trace raft_step (fst sample_run) [(7, Normal (ApplyHead (sample_head 1 40 2)))]
      (snd (adapter_apply (fst sample_run) [(7, Normal (ApplyHead (sample_head 1 40 2)))]))
      (fst (adapter_apply (fst sample_run) [(7, Normal (ApplyHead (sample_head 1 40 2)))]))"
    by (rule adapter_run_trace_from [OF sample_inv]) (simp add: sample_next_index)
  show "hm_get (st_refs (ad_state (fst sample_run))) (RefKey_new ''orders'' ''main'') = Some sample_ref"
    using sample_state_eq by (simp add: sample_state_def sample_stage_def hm_get_def)
qed simp

text \<open>
  C6. A retracted branch is frozen. No command but \<open>DropBranch\<close> and \<open>PurgeBranch\<close> on the branch
  itself lifts the retraction or changes its ref entry (its count of forked branches apart), and
  a retracted branch never has queued work.
\<close>

theorem retracted_branch_frozen:
  assumes "raft_trace es rs a" "k \<in> st_retracted (ad_state a)" "\<not> removes k c"
  shows "k \<in> st_retracted (fst (apply_command (ad_state a) c i)) \<and>
    map_option own_fields (hm_get (st_refs (fst (apply_command (ad_state a) c i))) k) =
      map_option own_fields (hm_get (st_refs (ad_state a)) k) \<and>
    hm_get (st_queues (fst (apply_command (ad_state a) c i))) k = None"
proof -
  have inv: "state_wf (ad_state a)" "registry_inv (ad_state a)"
    using raft_trace_inv [OF assms(1)] by (simp_all add: raft_inv_def)
  have fr: "frozen_in k (map_option own_fields (hm_get (st_refs (ad_state a)) k)) (fst (apply_command (ad_state a) c i))"
    by (rule apply_command_frozen [OF assms(2) inv(2) assms(3)])
  have reg: "registry_inv (fst (apply_command (ad_state a) c i))"
    using inv by (rule apply_command_registry)
  have "hm_get (st_queues (fst (apply_command (ad_state a) c i))) k = None"
    using fr registry_invD(7) [OF reg, of k] unfolding frozen_in_def
    by (cases "hm_get (st_queues (fst (apply_command (ad_state a) c i))) k") auto
  with fr show ?thesis by (simp add: frozen_in_def)
qed

definition sample_retract_log :: "LogEntry list" where
  "sample_retract_log = sample_log @ [(7, Normal (RetractLedger ''orders'' ''main'' 900))]"

lemma sample_extend_state:
  "ad_state (fst (adapter_apply StateMachineAdapter_new (sample_log @ es))) =
     ad_state (fst (adapter_apply (fst sample_run) es))"
  by (simp add: adapter_apply_append sample_run_def)

lemma sample_run_state: "ad_state (fst sample_run) = sample_state"
  by (simp add: sample_state_def)

theorem retracted_branch_frozen_witness:
  "let s = ad_state (fst (adapter_apply StateMachineAdapter_new sample_retract_log));
       s' = fst (apply_command s (ApplyHead (sample_head 1 40 2)) 8)
   in RefKey_new ''orders'' ''main'' \<in> st_retracted s' \<and>
      map_option own_fields (hm_get (st_refs s') (RefKey_new ''orders'' ''main'')) =
        map_option own_fields (hm_get (st_refs s) (RefKey_new ''orders'' ''main'')) \<and>
      hm_get (st_queues s') (RefKey_new ''orders'' ''main'') = None"
proof -
  have tr: "raft_trace sample_retract_log (snd (adapter_apply StateMachineAdapter_new sample_retract_log))
      (fst (adapter_apply StateMachineAdapter_new sample_retract_log))"
    by (rule adapter_run_trace) (simp add: sample_retract_log_def sample_log_def)
  have "RefKey_new ''orders'' ''main'' \<in> st_retracted (ad_state (fst (adapter_apply StateMachineAdapter_new sample_retract_log)))"
    unfolding sample_retract_log_def sample_extend_state adapter_apply_state adapter_step_state sample_run_state sample_state_eq
    by (simp add: retract_ledger_def branch_known_def case_prod_beta sample_defs hm_get_def)
  from retracted_branch_frozen [OF tr this, of "ApplyHead (sample_head 1 40 2)" 8] show ?thesis by (simp add: Let_def)
qed

text \<open>
  C21. The index never runs ahead of the commit head, provided every reset to a snapshot carries
  a snapshot of which this is true; the state machine checks it everywhere else.
\<close>

theorem index_behind_commit_head:
  assumes "raft_trace es rs a" "\<forall>(i, p) \<in> set es. snapshot_ok p"
    and "hm_get (st_refs (ad_state a)) k = Some e" "re_index e = Some ix"
  shows "ix_t ix \<le> re_t e"
proof -
  have "index_behind (ad_state StateMachineAdapter_new)"
    by (simp add: index_behind_def StateMachineAdapter_new_def NameServiceState_new_def)
  from ih.along_trace [OF assms(1) raft_inv_init this] assms(2) have "index_behind (ad_state a)" by auto
  then show ?thesis using assms(3,4) by (rule index_behindD)
qed


text \<open>The sample run, continued: \<open>orders:dev\<close> is forked and the index of \<open>orders:main\<close> published.\<close>

definition sample_fork :: NewBranch where
  "sample_fork = \<lparr>nb_ledger_id = ''orders'', nb_branch = ''dev'', nb_source_branch = ''main'',
     nb_at_commit = None, nb_applied_at_millis = 300\<rparr>"

definition sample_index :: NewIndexHead where
  "sample_index = \<lparr>ni_ledger_id = ''orders'', ni_branch = ''main'', ni_new_index_head = ContentId [31],
     ni_t = 1, ni_applied_at_millis = 310\<rparr>"

definition sample_fork_log :: "LogEntry list" where
  "sample_fork_log = sample_log @ [(7, Normal (CreateBranch sample_fork)), (8, Normal (AdvanceIndexHead sample_index))]"

definition sample_dev :: RefEntry where
  "sample_dev = \<lparr>re_head = ContentId [30], re_t = 1, re_last_advanced_at_millis = 300,
     re_last_advanced_index = 7, re_index = None, re_source_branch = Some ''main'', re_branches = 0\<rparr>"

lemma sample_fork_state:
  "fst (apply_command sample_state (CreateBranch sample_fork) 7) =
     sample_stage [(RefKey_new ''orders'' ''main'', sample_ref\<lparr>re_branches := 1\<rparr>), (RefKey_new ''orders'' ''dev'', sample_dev)]
       [(''orders'', \<lparr>lr_created_at_millis = 50, lr_created_index = 2, lr_branches = [''main'', ''dev'']\<rparr>),
        (''users'', \<lparr>lr_created_at_millis = 60, lr_created_index = 3, lr_branches = [''main'']\<rparr>)]
       [(sample_key, Applied sample_record)] [(RefKey_new ''orders'' ''main'', [sample_entry 1 5 None 20])] 2"
  unfolding sample_state_eq
  by (simp add: create_branch_def sample_fork_def sample_defs sample_ref_def sample_dev_def hm_defs
      u32_saturating_succ_def)

lemma sample_fork_refs:
  "hm_get (st_refs (ad_state (fst (adapter_apply StateMachineAdapter_new sample_fork_log)))) (RefKey_new ''orders'' ''main'') =
     Some (sample_ref\<lparr>re_branches := 1, re_index := Some \<lparr>ix_head = ContentId [31], ix_t = 1\<rparr>,
       re_last_advanced_at_millis := 310\<rparr>)"
  "hm_get (st_refs (ad_state (fst (adapter_apply StateMachineAdapter_new sample_fork_log)))) (RefKey_new ''orders'' ''dev'') =
     Some sample_dev"
  unfolding sample_fork_log_def sample_extend_state adapter_apply_state adapter_step_state sample_run_state
    sample_fork_state
  by (simp_all add: advance_index_head_def set_index_head_def sample_index_def sample_stage_def sample_ref_def
      hm_contains_def hm_defs Let_def)

lemma sample_fork_trace:
  "raft_trace sample_fork_log (snd (adapter_apply StateMachineAdapter_new sample_fork_log))
     (fst (adapter_apply StateMachineAdapter_new sample_fork_log))"
  by (rule adapter_run_trace) (simp add: sample_fork_log_def sample_log_def)

theorem index_behind_commit_head_witness:
  "ix_t \<lparr>ix_head = ContentId [31], ix_t = 1\<rparr> \<le> re_t (sample_ref\<lparr>re_branches := 1,
     re_index := Some \<lparr>ix_head = ContentId [31], ix_t = 1\<rparr>, re_last_advanced_at_millis := 310\<rparr>)"
  by (rule index_behind_commit_head [OF sample_fork_trace _ sample_fork_refs(1)])
    (simp_all add: sample_fork_log_def sample_log_def)


text \<open>
  Resetting a branch to the unborn state forgets its children: the branch can then be
  dropped although another branch was forked from it, and that branch is left with a source
  that is not registered any more.
\<close>

theorem unborn_reset_strands_child:
  "\<exists>es rs a e. raft_trace es rs a \<and>
     hm_get (st_refs (ad_state a)) (RefKey_new ''orders'' ''dev'') = Some e \<and>
     re_source_branch e = Some ''main'' \<and> \<not> branch_known (st_ledgers (ad_state a)) ''orders'' ''main''"
proof -
  let ?reset = "ResetHead ''orders'' ''main''
    \<lparr>rs_commit_head_id = None, rs_commit_t = 0, rs_index_head_id = None, rs_index_t = 0\<rparr> 400"
  let ?log = "sample_log @ [(7, Normal (CreateBranch sample_fork)), (8, Normal ?reset),
    (9, Normal (DropBranch ''orders'' ''main'' 500))]"
  let ?a = "fst (adapter_apply StateMachineAdapter_new ?log)"
  have tr: "raft_trace ?log (snd (adapter_apply StateMachineAdapter_new ?log)) ?a"
    by (rule adapter_run_trace) (simp add: sample_log_def)
  have st: "ad_state ?a = fst (apply_command (fst (apply_command (fst (apply_command sample_state
      (CreateBranch sample_fork) 7)) ?reset 8)) (DropBranch ''orders'' ''main'' 500) 9)"
    unfolding sample_extend_state adapter_apply_state adapter_step_state sample_run_state ..
  have "hm_get (st_refs (ad_state ?a)) (RefKey_new ''orders'' ''dev'') = Some sample_dev"
    "\<not> branch_known (st_ledgers (ad_state ?a)) ''orders'' ''main''"
    unfolding st sample_fork_state
    by (simp_all add: reset_head_def drop_branch_def branch_known_def unregister_branch_def has_children_def
        clear_queue_for_admin_def sample_stage_def Let_def hm_defs)
  moreover have "re_source_branch sample_dev = Some ''main''" by (simp add: sample_dev_def)
  ultimately show ?thesis using tr by blast
qed

end
