(* ===== verification/RaftOnce.thy ===== *)
theory RaftOnce
  imports RaftHeads
begin

text \<open>
  What the replicated queue promises its clients: an outcome recorded under an idempotency key
  is never replaced, retries answer from the record, envelopes are neither lost nor released
  while the state refers to them, eviction takes the oldest records first, and refused commands
  change nothing. Submissions are assumed scoped the way \<open>queued_transactor.rs\<close> builds them:
  the key's ledger id is the canonical id of the branch, whose ledger name has no colon.
\<close>

section \<open>Scoped submissions\<close>

fun scoped :: "EntryPayload \<Rightarrow> bool" where
  "scoped (Normal (EnqueueCommand a)) =
     (\<forall>key. qs_idempotency a = Some key \<longrightarrow>
        ik_ledger_id key = format_ledger_id (qs_ledger_id a) (qs_branch a) \<and> CHR '':'' \<notin> set (qs_ledger_id a))"
| "scoped _ = True"

definition keys_of :: "QueueEntry list \<Rightarrow> IdempotencyCacheKey list" where
  "keys_of q = List.map_filter qe_idempotency q"

lemma keys_of_simps [simp]:
  "keys_of [] = []"
  "keys_of (e # q) = (case qe_idempotency e of Some k \<Rightarrow> k # keys_of q | None \<Rightarrow> keys_of q)"
  "keys_of (q @ q') = keys_of q @ keys_of q'"
  by (simp_all add: keys_of_def List.map_filter_def split: option.split)

lemma keys_of_in: "key \<in> set (keys_of q) \<longleftrightarrow> (\<exists>e \<in> set q. qe_idempotency e = Some key)"
  by (induction q) (auto split: option.splits)

lemma find_in_flight_None: "find_in_flight q key = None \<longleftrightarrow> key \<notin> set (keys_of q)"
  by (induction q) (auto split: option.split)

text \<open>
  A keyed entry waits in the queue of the branch its key names, at most once, and has no
  outcome yet.
\<close>

definition once_inv :: "NameServiceState \<Rightarrow> bool" where
  "once_inv s \<longleftrightarrow>
     (\<forall>k q. hm_get (st_queues s) k = Some q \<longrightarrow> distinct (keys_of q)) \<and>
     (\<forall>k q key. hm_get (st_queues s) k = Some q \<longrightarrow> key \<in> set (keys_of q) \<longrightarrow>
        ik_ledger_id key = RefKey_ledger_id k \<and> CHR '':'' \<notin> set (rk_ledger_name k) \<and>
        hm_get (st_idempotency s) key = None)"

lemma once_invD:
  assumes "once_inv s" "hm_get (st_queues s) k = Some q"
  shows "distinct (keys_of q)"
    and "key \<in> set (keys_of q) \<Longrightarrow> ik_ledger_id key = RefKey_ledger_id k"
    and "key \<in> set (keys_of q) \<Longrightarrow> CHR '':'' \<notin> set (rk_ledger_name k)"
    and "key \<in> set (keys_of q) \<Longrightarrow> hm_get (st_idempotency s) key = None"
  using assms by (auto simp: once_inv_def)

lemma once_inv_unique:
  assumes "once_inv s" "hm_get (st_queues s) k = Some q" "hm_get (st_queues s) k' = Some q'"
    "key \<in> set (keys_of q)" "key \<in> set (keys_of q')"
  shows "k = k'"
proof -
  have "RefKey_ledger_id k = RefKey_ledger_id k'"
    using once_invD(2) [OF assms(1,2,4)] once_invD(2) [OF assms(1,3,5)] by simp
  then have "rk_ledger_name k = rk_ledger_name k' \<and> rk_branch k = rk_branch k'"
    using once_invD(3) [OF assms(1,2,4)] once_invD(3) [OF assms(1,3,5)]
    by (intro format_inject) (simp_all add: RefKey_ledger_id_def)
  then show ?thesis by (metis RefKey_new_collapse)
qed

lemma once_inv_shrink:
  assumes "once_inv s"
    and "\<And>k q'. hm_get (st_queues s') k = Some q' \<Longrightarrow> hm_get (st_queues s) k = Some q'"
    and "\<And>key. hm_get (st_idempotency s) key = None \<Longrightarrow> hm_get (st_idempotency s') key = None"
  shows "once_inv s'"
  using assms unfolding once_inv_def by blast

lemma once_inv_enqueue:
  assumes inv: "once_inv s" and sc: "scoped (Normal (EnqueueCommand a))"
    and k: "k = RefKey_new (qs_ledger_id a) (qs_branch a)"
    and new: "dedup_response s k full (qs_idempotency a) body = None"
    and q: "st_queues s' = hm_insert (st_queues s) k (queue_of s k @ [submitted_entry s j a])"
    and idem: "st_idempotency s' = st_idempotency s"
  shows "once_inv s'"
proof -
  have e: "qe_idempotency (submitted_entry s j a) = qs_idempotency a" by (simp add: submitted_entry_def)
  have old: "distinct (keys_of (queue_of s k))" "key \<in> set (keys_of (queue_of s k)) \<Longrightarrow>
      ik_ledger_id key = RefKey_ledger_id k \<and> CHR '':'' \<notin> set (rk_ledger_name k) \<and> hm_get (st_idempotency s) key = None"
    for key
    using once_invD [OF inv, of k] by (cases "hm_get (st_queues s) k"; auto simp: queue_of_def)+
  have fresh: "hm_get (st_idempotency s) key = None" "key \<notin> set (keys_of (queue_of s k))"
    if "qs_idempotency a = Some key" for key
    using new that by (auto simp: dedup_response_def find_in_flight_None split: option.splits if_splits ApplyOutcome.splits)
  have scope: "ik_ledger_id key = RefKey_ledger_id k \<and> CHR '':'' \<notin> set (rk_ledger_name k)"
    if "qs_idempotency a = Some key" for key
    using sc that k by simp
  show ?thesis
    unfolding once_inv_def q idem hm_get_insert
  proof (intro conjI allI impI)
    fix k' q' assume h: "(if k' = k then Some (queue_of s k @ [submitted_entry s j a]) else hm_get (st_queues s) k') = Some q'"
    show "distinct (keys_of q')"
      using h old(1) fresh(2) once_invD(1) [OF inv] by (auto simp: e split: if_splits option.splits)
    fix key assume key: "key \<in> set (keys_of q')"
    show "ik_ledger_id key = RefKey_ledger_id k'" "CHR '':'' \<notin> set (rk_ledger_name k')"
      "hm_get (st_idempotency s) key = None"
      using h key old(2) scope fresh(1) once_invD(2-4) [OF inv] by (auto simp: e split: if_splits option.splits)
  qed
qed

lemma once_inv_record:
  assumes inv: "once_inv s" and q: "hm_get (st_queues s) k = Some (e # rest)"
    and s0: "st_idempotency s0 = st_idempotency s" "st_queues s0 = st_queues (set_queue s k rest)"
  shows "once_inv (record_for s0 e oc)"
  unfolding once_inv_def record_for_simps s0
proof (intro conjI allI impI)
  fix k' q' assume h: "hm_get (st_queues (set_queue s k rest)) k' = Some q'"
  then obtain q0 where q0: "hm_get (st_queues s) k' = Some q0" "set (keys_of q') \<subseteq> set (keys_of q0)"
    "distinct (keys_of q0) \<longrightarrow> distinct (keys_of q')"
    using q by (cases "k' = k"; cases "qe_idempotency e") (auto split: if_splits)
  show "distinct (keys_of q')" using q0 once_invD(1) [OF inv] by blast
  fix key assume key: "key \<in> set (keys_of q')"
  then have key0: "key \<in> set (keys_of q0)" using q0 by blast
  show "ik_ledger_id key = RefKey_ledger_id k'" "CHR '':'' \<notin> set (rk_ledger_name k')"
    using once_invD(2,3) [OF inv q0(1) key0] by auto
  have "qe_idempotency e \<noteq> Some key"
  proof
    assume ek: "qe_idempotency e = Some key"
    then have "k' = k" using once_inv_unique [OF inv q0(1) q key0] by simp
    then have "q' = rest" using h by (simp split: if_splits)
    then show False using once_invD(1) [OF inv q] ek key by simp
  qed
  then show "hm_get (st_idempotency (record_for s0 e oc)) key = None"
    using once_invD(4) [OF inv q0(1) key0] s0(1) by (auto simp: record_for_idempotency split: option.split)
qed

lemma once_inv_cong:
  "once_inv s \<Longrightarrow> st_queues s' = st_queues s \<Longrightarrow> st_idempotency s' = st_idempotency s \<Longrightarrow> once_inv s'"
  by (simp add: once_inv_def)

lemma apply_command_once:
  assumes inv: "once_inv s" and sc: "scoped (Normal c)"
  shows "once_inv (fst (apply_command s c i))"
proof (cases "queue_command c")
  case False
  show ?thesis
  proof (rule once_inv_shrink [OF inv])
    note q = apply_command_quiet [OF False, of s i]
    show "hm_get (st_queues s) k = Some q'" if "hm_get (st_queues (fst (apply_command s c i))) k = Some q'" for k q'
      using quietD(4) [OF q that] .
    show "hm_get (st_idempotency (fst (apply_command s c i))) key = None"
      if "hm_get (st_idempotency s) key = None" for key
      using that quietD(3) [OF q] by simp
  qed
next
  case True
  then show ?thesis
  proof (cases rule: queue_command_cases)
    case (enqueue a)
    show ?thesis
    proof (cases rule: enqueue_cases [of s i a])
      case (refused r)
      with enqueue inv show ?thesis by simp
    next
      case (enqueued k)
      show ?thesis unfolding enqueue apply_command.simps enqueued(7)
        using sc enqueue by (intro once_inv_enqueue [OF inv _ enqueued(1,4), where j = i]) simp_all
    qed
  next
    case (head a)
    show ?thesis
    proof (cases rule: apply_head_cases [of s i a])
      case (applied k e rest)
      show ?thesis unfolding head apply_command.simps applied(7) fst_conv
        by (rule once_inv_record [OF inv applied(4)]) simp_all
    qed (use head inv in \<open>simp_all add: once_inv_cong [OF inv]\<close>)
  next
    case (poison a)
    show ?thesis
    proof (cases rule: poison_cases [of s i a])
      case (poisoned k e rest)
      show ?thesis unfolding poison apply_command.simps poisoned(5) fst_conv
        by (rule once_inv_record [OF inv poisoned(3)]) simp_all
    qed (use poison inv in \<open>simp_all add: once_inv_cong [OF inv]\<close>)
  next
    case (evict x y)
    show ?thesis
      by (rule once_inv_shrink [OF inv])
        (simp_all add: evict apply_evict_idempotency_def Let_def case_prod_beta evict_keys_get)
  qed
qed

text \<open>Without eviction a recorded outcome stays.\<close>

fun evicts :: "EntryPayload \<Rightarrow> bool" where
  "evicts (Normal (EvictIdempotency _ _)) = True"
| "evicts _ = False"

lemma apply_command_outcome:
  assumes inv: "once_inv s" and key: "hm_get (st_idempotency s) key = Some oc" and ev: "\<not> evicts (Normal c)"
  shows "hm_get (st_idempotency (fst (apply_command s c i))) key = Some oc"
proof (cases "queue_command c")
  case False
  then show ?thesis using quietD(3) [OF apply_command_quiet [OF False]] key by simp
next
  case True
  have other: "qe_idempotency e \<noteq> Some key" if "hm_get (st_queues s) k = Some (e # rest)" for k e rest
    using once_invD(4) [OF inv that, of key] key by auto
  from True show ?thesis
  proof (cases rule: queue_command_cases)
    case (enqueue a)
    then show ?thesis using key by (cases rule: enqueue_cases [of s i a]) simp_all
  next
    case (head a)
    show ?thesis
    proof (cases rule: apply_head_cases [of s i a])
      case (applied k e rest)
      then show ?thesis using head key other [OF applied(4)] by (auto simp: record_for_idempotency split: option.split)
    qed (use head key in simp_all)
  next
    case (poison a)
    show ?thesis
    proof (cases rule: poison_cases [of s i a])
      case (poisoned k e rest)
      then show ?thesis using poison key other [OF poisoned(3)] by (auto simp: record_for_idempotency split: option.split)
    qed (use poison key in simp_all)
  next
    case (evict x y)
    then show ?thesis using ev by simp
  qed
qed

section \<open>Envelopes\<close>

text \<open>
  The envelopes the state refers to, as (ledger id, content id) pairs: those of the queued
  entries and those held by idempotency records.
\<close>

definition queued_envelopes :: "(RefKey, QueueEntry list) hashmap \<Rightarrow> (string \<times> ContentId) multiset" where
  "queued_envelopes m = (\<Sum>(k, q)\<in>#mset m. mset (map (\<lambda>e. (RefKey_ledger_id k, qe_request_cid e)) q))"

definition cached_envelopes :: "(IdempotencyCacheKey, ApplyOutcome) hashmap \<Rightarrow> (string \<times> ContentId) multiset" where
  "cached_envelopes m = image_mset (\<lambda>(key, oc). (ik_ledger_id key, ao_request_cid oc)) (mset m)"

definition held_envelopes :: "NameServiceState \<Rightarrow> (string \<times> ContentId) multiset" where
  "held_envelopes s = queued_envelopes (st_queues s) + cached_envelopes (st_idempotency s)"

lemma queued_remove:
  "hm_wf m \<Longrightarrow> queued_envelopes m = queued_envelopes (hm_remove m k) +
     (case hm_get m k of Some q \<Rightarrow> mset (map (\<lambda>e. (RefKey_ledger_id k, qe_request_cid e)) q) | None \<Rightarrow> {#})"
  by (cases "hm_get m k") (simp_all add: queued_envelopes_def hm_mset_remove hm_remove_absent add.commute)

lemma queued_insert:
  "hm_wf m \<Longrightarrow> queued_envelopes (hm_insert m k q) = queued_envelopes (hm_remove m k) +
     mset (map (\<lambda>e. (RefKey_ledger_id k, qe_request_cid e)) q)"
  by (simp add: queued_envelopes_def hm_mset_insert add.commute)

lemma queued_set_queue:
  assumes "hm_wf (st_queues s)" "hm_get (st_queues s) k = Some (e # rest)"
  shows "queued_envelopes (st_queues s) =
    queued_envelopes (st_queues (set_queue s k rest)) + {#(RefKey_ledger_id k, qe_request_cid e)#}"
  using assms queued_remove [OF assms(1), of k] by (simp add: set_queue_def queued_insert)

lemma cached_insert:
  "hm_wf m \<Longrightarrow> hm_get m key = None \<Longrightarrow>
    cached_envelopes (hm_insert m key oc) = cached_envelopes m + {#(ik_ledger_id key, ao_request_cid oc)#}"
  by (simp add: cached_envelopes_def hm_mset_insert hm_remove_absent)

lemma evict_keys_envelopes:
  "hm_wf m \<Longrightarrow> cached_envelopes m = cached_envelopes (fst (evict_keys m xs)) + mset (snd (evict_keys m xs))"
proof (induction m xs rule: evict_keys.induct)
  case (2 m x y key rest)
  show ?case
  proof (cases "hm_get m key")
    case None
    then show ?thesis using 2 by simp
  next
    case (Some oc)
    have "cached_envelopes m = add_mset (ik_ledger_id key, ao_request_cid oc) (cached_envelopes (hm_remove m key))"
      using 2(3) Some by (simp add: cached_envelopes_def hm_mset_remove)
    then show ?thesis using 2 Some by (simp add: case_prod_beta Let_def)
  qed
qed simp

definition releases :: "Response \<Rightarrow> (string \<times> ContentId) list" where
  "releases r = snd (drain_releases r)"

lemma releases_simps [simp]:
  "releases (EvictionApplied n rel) = rel" "releases (Purged l rel) = rel"
  "releases (BranchDropped l p rel) = rel" "releases (HeadReset l rel) = rel" "releases (Retracted l rel) = rel"
  "releases (HeadApplied l c t env) = (case env of Some cid \<Rightarrow> [(l, cid)] | None \<Rightarrow> [])"
  "releases (Poisoned l q pr env) = (case env of Some cid \<Rightarrow> [(l, cid)] | None \<Rightarrow> [])"
  by (simp_all add: releases_def split: option.split)

text \<open>An administrative clear hands back exactly the envelopes of the queue it drops.\<close>

lemma clear_queue_envelopes:
  assumes "hm_wf m"
  shows "queued_envelopes m = queued_envelopes (hm_remove m k) +
    mset (map (\<lambda>e. (RefKey_ledger_id k, qe_request_cid e)) (case hm_get m k of Some q \<Rightarrow> q | None \<Rightarrow> []))"
  using queued_remove [OF assms, of k] by (simp split: option.split)

lemma admin_envelopes:
  assumes wf: "hm_wf (st_queues s)"
  shows "queued_envelopes (st_queues s) = queued_envelopes (st_queues (fst (retract_ledger s l b at))) +
      mset (releases (snd (retract_ledger s l b at)))"
    and "registry_inv s \<Longrightarrow> queued_envelopes (st_queues s) =
      queued_envelopes (st_queues (fst (purge_branch s l b at))) + mset (releases (snd (purge_branch s l b at)))"
    and "queued_envelopes (st_queues s) = queued_envelopes (st_queues (fst (drop_branch s l b at))) +
      mset (releases (snd (drop_branch s l b at)))"
    and "queued_envelopes (st_queues s) = queued_envelopes (st_queues (fst (reset_head s l b sn at))) +
      mset (releases (snd (reset_head s l b sn at)))"
proof -
  note clear = clear_queue_envelopes [OF wf, of "RefKey_new l b"]
  show "queued_envelopes (st_queues s) = queued_envelopes (st_queues (fst (retract_ledger s l b at))) +
      mset (releases (snd (retract_ledger s l b at)))"
    using clear by (simp add: retract_ledger_def Let_def case_prod_beta queue_of_def releases_def)
  show "queued_envelopes (st_queues s) = queued_envelopes (st_queues (fst (drop_branch s l b at))) +
      mset (releases (snd (drop_branch s l b at)))"
    using clear by (simp add: drop_branch_def Let_def case_prod_beta queue_of_def releases_def split: option.split)
  show "queued_envelopes (st_queues s) = queued_envelopes (st_queues (fst (reset_head s l b sn at))) +
      mset (releases (snd (reset_head s l b sn at)))"
    using clear by (simp add: reset_head_def Let_def case_prod_beta queue_of_def releases_def split: option.split)
  assume reg: "registry_inv s"
  have none: "hm_get (st_queues s) (RefKey_new l b) = None" if "\<not> branch_known (st_ledgers s) l b"
    using that registry_invD(6) [OF reg, of "RefKey_new l b"]
    by (cases "hm_get (st_queues s) (RefKey_new l b)") (auto simp: key_known_def)
  show "queued_envelopes (st_queues s) = queued_envelopes (st_queues (fst (purge_branch s l b at))) +
      mset (releases (snd (purge_branch s l b at)))"
    using clear none
    by (simp add: purge_branch_def Let_def case_prod_beta queue_of_def releases_def split: option.split)
qed

lemma plain_envelopes:
  "st_queues (fst (create_branch s i nb)) = st_queues s"
  "st_queues (fst (set_index_head s ni f)) = st_queues s"
  "st_queues (fst (apply_compare_and_set_ref s i rc)) = st_queues s"
  "st_queues (fst (apply_publish_graph_source s n b st c d)) = st_queues s"
  "st_queues (fst (apply_publish_graph_source_index s n b ci t)) = st_queues s"
  "st_queues (fst (apply_retract_graph_source s n b)) = st_queues s"
  by (simp_all add: create_branch_def set_index_head_def apply_compare_and_set_ref_def
      apply_publish_graph_source_def apply_publish_graph_source_index_def apply_retract_graph_source_def
      Let_def case_prod_beta split: option.split RefKind.split)

lemma plain_releases:
  "releases (snd (create_ledger s i nl)) = []" "releases (snd (create_branch s i nb)) = []"
  "releases (snd (apply_set_worker_eligibility s we)) = []" "releases (snd (set_index_head s ni f)) = []"
  "releases (snd (apply_compare_and_set_ref s i rc)) = []"
  "releases (snd (apply_publish_graph_source s n b st c d)) = []"
  "releases (snd (apply_publish_graph_source_index s n b ci t)) = []"
  "releases (snd (apply_retract_graph_source s n b)) = []"
  by (simp_all add: releases_def create_ledger_def create_branch_def set_index_head_def apply_compare_and_set_ref_def
      apply_publish_graph_source_def apply_publish_graph_source_index_def apply_retract_graph_source_def
      apply_set_worker_eligibility_def Let_def case_prod_beta split: option.split RefKind.split)

lemma push_releases:
  "releases (snd (apply_versioned_push VersionedValue_StoredStatus L m l ex n)) = []"
  "releases (snd (apply_versioned_push VersionedValue_StoredConfig L m' l ex' n')) = []"
  by (simp_all add: releases_def apply_versioned_push_def VersionedValue_StoredStatus_def
      VersionedValue_StoredConfig_def Let_def split: sum.split option.split prod.split)

text \<open>The envelope a successful enqueue adds.\<close>

fun enqueue_envelope :: "Command \<Rightarrow> (string \<times> ContentId) option" where
  "enqueue_envelope (EnqueueCommand a) = Some (format_ledger_id (qs_ledger_id a) (qs_branch a), qs_request_cid a)"
| "enqueue_envelope _ = None"

fun is_enqueued :: "Response \<Rightarrow> bool" where
  "is_enqueued (Enqueued _ _) = True"
| "is_enqueued _ = False"

definition added_envelopes :: "Command \<Rightarrow> Response \<Rightarrow> (string \<times> ContentId) multiset" where
  "added_envelopes c r = (case enqueue_envelope c of Some env \<Rightarrow> if is_enqueued r then {#env#} else {#} | None \<Rightarrow> {#})"

lemma quiet_envelopes:
  assumes wf: "hm_wf (st_queues s)" and reg: "registry_inv s" and c: "\<not> queue_command c"
  shows "queued_envelopes (st_queues s) =
    queued_envelopes (st_queues (fst (apply_command s c i))) + mset (releases (snd (apply_command s c i)))"
  using c
  by (cases c)
    (simp_all add: admin_envelopes [OF wf, symmetric] admin_envelopes(2) [OF wf reg, symmetric] plain_envelopes
      plain_releases push_releases advance_index_head_def rewrite_index_head_def case_prod_beta releases_def [of NoOp])

lemma consumed_envelopes:
  assumes wf: "hm_wf (st_queues s)" "hm_wf (st_idempotency s)" and inv: "once_inv s"
    and q: "hm_get (st_queues s) k = Some (e # rest)"
    and s0: "st_queues s0 = st_queues (set_queue s k rest)" "st_idempotency s0 = st_idempotency s"
    and oc: "ao_request_cid oc = qe_request_cid e"
  shows "held_envelopes s = held_envelopes (record_for s0 e oc) +
    mset (case held_envelope e of Some cid \<Rightarrow> [(RefKey_ledger_id k, cid)] | None \<Rightarrow> [])"
proof (cases "qe_idempotency e")
  case None
  then show ?thesis
    using queued_set_queue [OF wf(1) q]
    by (simp add: held_envelopes_def record_for_idempotency held_envelope_def s0)
next
  case (Some key)
  have "hm_get (st_idempotency s) key = None" "ik_ledger_id key = RefKey_ledger_id k"
    using once_invD(2,4) [OF inv q, of key] Some by auto
  with Some queued_set_queue [OF wf(1) q] show ?thesis
    by (simp add: held_envelopes_def record_for_idempotency held_envelope_def s0 cached_insert [OF wf(2)] oc)
qed

lemma enqueue_envelopes:
  assumes "hm_wf (st_queues s)"
    and "st_queues s' = hm_insert (st_queues s) k (queue_of s k @ [e])" "st_idempotency s' = st_idempotency s"
  shows "held_envelopes s' = add_mset (RefKey_ledger_id k, qe_request_cid e) (held_envelopes s)"
  using queued_remove [OF assms(1), of k] assms
  by (cases "hm_get (st_queues s) k") (simp_all add: held_envelopes_def queued_insert queue_of_def)

lemma held_envelopes_cong:
  "st_queues s' = st_queues s \<Longrightarrow> st_idempotency s' = st_idempotency s \<Longrightarrow> held_envelopes s' = held_envelopes s"
  by (simp add: held_envelopes_def)

lemma added_none [simp]:
  "added_envelopes (ApplyHead a) r = {#}" "added_envelopes (PoisonQueueEntry p) r = {#}"
  "added_envelopes (EvictIdempotency x y) r = {#}"
  by (simp_all add: added_envelopes_def)

lemma quiet_added: "\<not> queue_command c \<Longrightarrow> added_envelopes c r = {#}"
  by (cases c) (simp_all add: added_envelopes_def)

lemma apply_command_envelopes:
  assumes wf: "hm_wf (st_queues s)" "hm_wf (st_idempotency s)" and reg: "registry_inv s" and inv: "once_inv s"
  shows "held_envelopes s + added_envelopes c (snd (apply_command s c i)) =
    held_envelopes (fst (apply_command s c i)) + mset (releases (snd (apply_command s c i)))"
proof (cases "queue_command c")
  case False
  then show ?thesis
    using quiet_envelopes [OF wf(1) reg False, of i] quietD(3) [OF apply_command_quiet [OF False, of s i]]
    by (simp add: held_envelopes_def quiet_added)
next
  case True
  then show ?thesis
  proof (cases rule: queue_command_cases)
    case (enqueue a)
    show ?thesis
    proof (cases rule: enqueue_cases [of s i a])
      case (refused r)
      have "releases r = []"
        using refused(1)
        by (auto simp: apply_enqueue_command_def Let_def releases_def dedup_response_def
            split: option.splits if_splits ApplyOutcome.splits)
      moreover have "\<not> is_enqueued r" using refused(2) by (cases r rule: is_enqueued.cases) auto
      ultimately show ?thesis using refused(1) enqueue by (simp add: added_envelopes_def)
    next
      case (enqueued k)
      show ?thesis
        unfolding enqueue apply_command.simps enqueued(7)
        using enqueue_envelopes [OF wf(1), of _ k "submitted_entry s i a"] enqueued(1)
        by (simp add: added_envelopes_def releases_def submitted_entry_def)
    qed
  next
    case (head a)
    show ?thesis
    proof (cases rule: apply_head_cases [of s i a])
      case (refused r)
      then show ?thesis using head by (auto simp: releases_def)
    next
      case (cleared c')
      then show ?thesis using head by (simp add: releases_def held_envelopes_def)
    next
      case (applied k e rest)
      have "held_envelopes s = held_envelopes (fst (apply_head s i a)) +
          mset (case held_envelope e of Some cid \<Rightarrow> [(RefKey_ledger_id k, cid)] | None \<Rightarrow> [])"
        unfolding applied(7) fst_conv
        by (rule consumed_envelopes [OF wf inv applied(4)]) (simp_all add: applied_record_def)
      then show ?thesis using head applied(1,7) by (simp split: option.splits)
    qed
  next
    case (poison a)
    show ?thesis
    proof (cases rule: poison_cases [of s i a])
      case (refused reason)
      then show ?thesis using poison by (simp add: releases_def)
    next
      case (cleared c')
      then show ?thesis using poison by (simp add: releases_def held_envelopes_def)
    next
      case (poisoned k e rest)
      have "held_envelopes s = held_envelopes (fst (apply_poison_queue_entry s i a)) +
          mset (case held_envelope e of Some cid \<Rightarrow> [(RefKey_ledger_id k, cid)] | None \<Rightarrow> [])"
        unfolding poisoned(5) fst_conv
        by (rule consumed_envelopes [OF wf inv poisoned(3)]) (simp_all add: poison_record_def)
      then show ?thesis using poison poisoned(1,5) by (simp split: option.splits)
    qed
  next
    case (evict x y)
    then show ?thesis
      using evict_keys_envelopes [OF wf(2)]
      by (simp add: apply_evict_idempotency_def Let_def case_prod_beta held_envelopes_def)
  qed
qed

section \<open>Along a trace\<close>

text \<open>What the queue properties read of a state: two maps, up to layout.\<close>

lemma once_inv_content:
  assumes "once_inv s" "state_eqv s t"
  shows "once_inv t"
  using assms(1) unfolding once_inv_def state_eqv_get [OF assms(2)] .

lemma held_envelopes_content:
  assumes "state_eqv s t" "state_wf s" "state_wf t"
  shows "held_envelopes t = held_envelopes s"
proof -
  have "mset (st_queues t) = mset (st_queues s)" "mset (st_idempotency t) = mset (st_idempotency s)"
    using assms by (auto simp: state_eqv_def state_wf_def hm_eq_sym intro!: hm_eq_mset)
  then show ?thesis by (simp add: held_envelopes_def queued_envelopes_def cached_envelopes_def)
qed

lemma apply_entry_queue_fields:
  "st_queues (fst (apply_entry s (i, p))) =
     (case p of Normal c \<Rightarrow> st_queues (fst (apply_command s c i)) | _ \<Rightarrow> st_queues s)"
  "st_idempotency (fst (apply_entry s (i, p))) =
     (case p of Normal c \<Rightarrow> st_idempotency (fst (apply_command s c i)) | _ \<Rightarrow> st_idempotency s)"
  by (simp_all add: apply_entry_def case_prod_beta Let_def apply_membership_def split: EntryPayload.split)

lemma apply_entry_once:
  assumes "once_inv s" "scoped p"
  shows "once_inv (fst (apply_entry s (i, p)))"
proof (cases p)
  case (Normal c)
  have "once_inv (fst (apply_command s c i))" using apply_command_once [OF assms(1)] assms(2) Normal by simp
  then show ?thesis by (rule once_inv_cong) (simp_all add: apply_entry_queue_fields Normal)
qed (rule once_inv_cong [OF assms(1)]; simp add: apply_entry_queue_fields)+

definition scoped_step :: "StateMachineAdapter \<Rightarrow> LogEntry \<Rightarrow> EntryEffects \<Rightarrow> StateMachineAdapter \<Rightarrow> bool" where
  "scoped_step a e r b \<longleftrightarrow> raft_step a e r b \<and> scoped (snd e)"

interpretation queue: machine scoped_step "\<lambda>a. raft_inv a \<and> once_inv (ad_state a)"
proof unfold_locales
  fix a e r b assume st: "scoped_step a e r b" and inv: "raft_inv a \<and> once_inv (ad_state a)"
  obtain i p where e: "e = (i, p)" by (cases e)
  from st e have raft: "raft_step a (i, p) r b" and sc: "scoped p" by (simp_all add: scoped_step_def)
  obtain eqv: "state_eqv (fst (apply_entry (ad_state a) (i, p))) (ad_state b)" using raft by (rule raft_stepE)
  have "once_inv (ad_state b)"
    using inv sc by (intro once_inv_content [OF _ eqv] apply_entry_once) auto
  then show "raft_inv b \<and> once_inv (ad_state b)" using raft_step_inv [OF raft] inv by simp
qed

lemma scoped_trace:
  assumes "trace raft_step a es rs b" "\<forall>(i, p) \<in> set es. scoped p"
  shows "trace scoped_step a es rs b"
proof -
  have "trace (\<lambda>s e r s'. raft_step s e r s' \<and> scoped (snd e)) a es rs b"
    using assms by (intro trace_restrict) auto
  then show ?thesis by (simp add: scoped_step_def [abs_def])
qed

lemma once_inv_init: "once_inv (ad_state StateMachineAdapter_new)"
  by (simp add: once_inv_def StateMachineAdapter_new_def NameServiceState_new_def)

lemma scoped_trace_inv:
  assumes "raft_trace es rs a" "\<forall>(i, p) \<in> set es. scoped p"
  shows "raft_inv a" "once_inv (ad_state a)"
  using queue.trace_inv [OF scoped_trace [OF assms]] raft_inv_init once_inv_init by auto

lemma outcome_kept:
  assumes "trace raft_step a es rs b" "\<forall>(i, p) \<in> set es. scoped p \<and> \<not> evicts p" "raft_inv a" "once_inv (ad_state a)"
    and "hm_get (st_idempotency (ad_state a)) key = Some oc"
  shows "hm_get (st_idempotency (ad_state b)) key = Some oc"
  using assms
proof (induction rule: trace.induct)
  case (trace_cons a e r a' es rs b)
  obtain i p where e: "e = (i, p)" by (cases e)
  have p: "scoped p" "\<not> evicts p" using trace_cons.prems(1) e by auto
  have st: "raft_step a (i, p) r a'" using trace_cons.hyps(1) e by simp
  obtain eqv: "state_eqv (fst (apply_entry (ad_state a) (i, p))) (ad_state a')" using st by (rule raft_stepE)
  have "hm_get (st_idempotency (ad_state a')) key = Some oc"
    unfolding state_eqv_get [OF eqv] apply_entry_queue_fields
    using trace_cons.prems(3,4) p(2) apply_command_outcome [of "ad_state a" key oc] by (cases p) auto
  moreover have "once_inv (ad_state a')"
    using trace_cons.prems(3) p(1) by (intro once_inv_content [OF _ eqv] apply_entry_once) auto
  ultimately show ?case using trace_cons raft_step_inv by simp
qed simp

definition entry_added :: "LogEntry \<Rightarrow> EntryEffects \<Rightarrow> (string \<times> ContentId) multiset" where
  "entry_added e ef = (case snd e of Normal c \<Rightarrow> added_envelopes c (ef_response ef) | _ \<Rightarrow> {#})"

lemma is_enqueued_drain: "is_enqueued (fst (drain_releases r)) = is_enqueued r"
  by (cases r rule: drain_releases.cases) simp_all

lemma added_drain: "added_envelopes c (fst (drain_releases r)) = added_envelopes c r"
  by (simp add: added_envelopes_def is_enqueued_drain split: option.split)

lemma raft_step_envelopes:
  assumes st: "raft_step a (i, p) ef b" and inv: "raft_inv a" "once_inv (ad_state a)"
  shows "held_envelopes (ad_state a) + entry_added (i, p) ef = held_envelopes (ad_state b) + mset (ef_releases ef)"
proof -
  let ?s = "fst (apply_entry (ad_state a) (i, p))"
  obtain eqv: "state_eqv ?s (ad_state b)" and ok: "entry_ok a (i, p)" using st by (rule raft_stepE)
  have wf: "state_wf ?s" "state_wf (ad_state b)"
    using apply_entry_inv [OF inv(1) ok] raft_step_inv [OF st inv(1)]
    by (simp_all add: raft_inv_def adapter_step_def case_prod_beta Let_def)
  have ef: "ef = snd (apply_entry (ad_state a) (i, p))"
    using st by (auto simp: raft_step_iff adapter_step_def Let_def case_prod_beta)
  have "held_envelopes (ad_state a) + entry_added (i, p) ef = held_envelopes ?s + mset (ef_releases ef)"
  proof (cases p)
    case (Normal c)
    have "held_envelopes (ad_state a) + added_envelopes c (snd (apply_command (ad_state a) c i)) =
        held_envelopes (fst (apply_command (ad_state a) c i)) + mset (releases (snd (apply_command (ad_state a) c i)))"
      using inv by (intro apply_command_envelopes) (auto simp: raft_inv_def state_wf_def)
    moreover have "held_envelopes ?s = held_envelopes (fst (apply_command (ad_state a) c i))"
      by (rule held_envelopes_cong) (simp_all add: apply_entry_queue_fields Normal)
    ultimately show ?thesis
      by (simp add: ef Normal entry_added_def apply_entry_def case_prod_beta Let_def added_drain releases_def)
  qed (simp_all add: ef entry_added_def apply_entry_def held_envelopes_def apply_membership_def Let_def)
  then show ?thesis using held_envelopes_content [OF eqv wf] by simp
qed

lemma trace_envelopes:
  assumes "trace scoped_step a es rs b" "raft_inv a" "once_inv (ad_state a)"
  shows "held_envelopes (ad_state a) + sum_list (map2 entry_added es rs) =
    held_envelopes (ad_state b) + mset (concat (map ef_releases rs))"
  using assms
proof (induction rule: trace.induct)
  case (trace_cons a e r a' es rs b)
  have inv: "raft_inv a'" "once_inv (ad_state a')"
    using queue.step_inv [OF trace_cons.hyps(1)] trace_cons.prems by auto
  have "raft_step a e r a'" using trace_cons.hyps(1) by (simp add: scoped_step_def)
  then have "held_envelopes (ad_state a) + entry_added e r = held_envelopes (ad_state a') + mset (ef_releases r)"
    using raft_step_envelopes [of a "fst e" "snd e" r a'] trace_cons.prems by simp
  then show ?case using trace_cons.IH [OF inv]
    by (simp add: add.assoc [symmetric])
qed simp

end
