(* ===== verification/RaftProperties.thy ===== *)
theory RaftProperties
  imports RaftOnce
begin

text \<open>
  Properties of the replicated nameservice that clients and operators rely on: the registry and
  queue invariants, exactly-once application of keyed submissions, conservation of envelopes,
  the eviction policy, refused commands, compare-and-set on refs, and the versioned values.
\<close>

section \<open>Refused commands\<close>

text \<open>The responses that say a command was turned down, or answered without being executed.\<close>

fun refusal :: "Response \<Rightarrow> bool" where
  "refusal (IndexStale _) = True"
| "refusal (IndexAhead _ _) = True"
| "refusal (RefCasConflict _) = True"
| "refusal (StatusConflict _) = True"
| "refusal (ConfigConflict _) = True"
| "refusal (GraphSourceIndexStale _) = True"
| "refusal (GraphSourceNotFound _) = True"
| "refusal (GraphSourceAlreadyRetracted _) = True"
| "refusal (AlreadyExists _) = True"
| "refusal (SourceBranchNotFound _) = True"
| "refusal (BranchHasChildren _ _) = True"
| "refusal (AlreadyRetracted _) = True"
| "refusal (LedgerRetracted _) = True"
| "refusal (AlreadyPurged _) = True"
| "refusal (LedgerNotFound _) = True"
| "refusal BodyHashMismatch = True"
| "refusal (IdempotencyHit _) = True"
| "refusal (IdempotencyFailed _) = True"
| "refusal (InFlight _ _) = True"
| "refusal (QueueFull _ _ _ _) = True"
| "refusal (QueueDesync _ _ _) = True"
| "refusal (WorkerEligibilityRefused _ _ _) = True"
| "refusal _ = False"

abbreviation keeps :: "'a \<Rightarrow> 'a \<times> Response \<Rightarrow> bool" where
  "keeps s x \<equiv> refusal (snd x) \<longrightarrow> fst x = s"

lemma refused_create: "keeps s (create_ledger s i nl)" "keeps s (create_branch s i nb)"
  by (simp_all add: create_ledger_def create_branch_def Let_def case_prod_beta hm_insert_same split: option.split)

lemma refused_retire: "keeps s (retract_ledger s l b at)" "keeps s (drop_branch s l b at)" "keeps s (reset_head s l b sn at)"
  by (simp_all add: retract_ledger_def drop_branch_def reset_head_def Let_def case_prod_beta split: option.split)

lemma refused_eligibility: "keeps s (apply_set_worker_eligibility s we)"
  by (simp add: apply_set_worker_eligibility_def Let_def hm_insert_same split: option.split)

lemmas refused_lifecycle = refused_create refused_retire refused_eligibility

lemma unregister_absent:
  assumes "registry_inv s" "\<not> branch_known (st_ledgers s) l b"
  shows "fst (unregister_branch s l b) = s"
proof (cases "hm_get (st_ledgers s) l")
  case (Some r)
  then have "filter (\<lambda>x. x \<noteq> b) (lr_branches r) = lr_branches r"
    using assms(2) by (auto simp: branch_known_def filter_id_conv)
  then show ?thesis
    using Some registry_invD(1) [OF assms(1) Some] by (simp add: unregister_branch_def Let_def hm_insert_same)
qed (simp add: unregister_branch_def)

lemma refused_purge:
  assumes reg: "registry_inv s" and ref: "refusal (snd (purge_branch s l b at))"
  shows "fst (purge_branch s l b at) = s"
proof (cases "has_children s (RefKey_new l b)")
  case None
  let ?k = "RefKey_new l b"
  have gone: "hm_get (st_refs s) ?k = None" "?k \<notin> st_retracted s" "\<not> branch_known (st_ledgers s) l b"
    using ref None by (auto simp: purge_branch_def Let_def case_prod_beta split: if_splits)
  have q: "hm_get (st_queues s) ?k = None"
    using gone(3) registry_invD(6) [OF reg, of ?k] by (cases "hm_get (st_queues s) ?k") (auto simp: key_known_def)
  show ?thesis
    using None gone q
    by (simp add: purge_branch_def Let_def case_prod_beta hm_remove_absent unregister_absent [OF reg]
        clear_queue_for_admin_def)
qed (simp add: purge_branch_def Let_def)

lemma refused_refs: "keeps s (set_index_head s ni f)" "keeps s (apply_compare_and_set_ref s i rc)"
  by (simp_all add: set_index_head_def apply_compare_and_set_ref_def Let_def case_prod_beta split: option.split RefKind.split)

lemma refused_graph_sources:
  "keeps s (apply_publish_graph_source s n b st c d)" "keeps s (apply_publish_graph_source_index s n b ci t)"
  "keeps s (apply_retract_graph_source s n b)"
  by (simp_all add: apply_publish_graph_source_def apply_publish_graph_source_index_def apply_retract_graph_source_def Let_def
      case_prod_beta split: option.split)

lemma refused_push:
  "refusal (snd (apply_versioned_push VersionedValue_StoredStatus L m l ex n)) \<Longrightarrow>
     fst (apply_versioned_push VersionedValue_StoredStatus L m l ex n) = m"
  "refusal (snd (apply_versioned_push VersionedValue_StoredConfig L m' l ex' n')) \<Longrightarrow>
     fst (apply_versioned_push VersionedValue_StoredConfig L m' l ex' n') = m'"
  by (auto simp: apply_versioned_push_def VersionedValue_StoredStatus_def VersionedValue_StoredConfig_def Let_def
      split: sum.splits option.splits prod.splits if_splits)

text \<open>
  C19. A refused command leaves the state as it was. The one exception is a queue command that
  meets a clear marker: it reports the clear and consumes the marker, nothing else.
\<close>

theorem refused_commands_change_nothing:
  assumes "raft_trace es rs a" "refusal (snd (apply_command (ad_state a) c i))"
  shows "fst (apply_command (ad_state a) c i) = ad_state a \<or>
    (\<exists>k l q why. fst (apply_command (ad_state a) c i) = drop_marker (ad_state a) k \<and>
       hm_get (st_recently_cleared (ad_state a)) k \<noteq> None \<and>
       snd (apply_command (ad_state a) c i) = QueueDesync l q (QueueCleared why))"
proof -
  let ?s = "ad_state a"
  have reg: "registry_inv ?s" using raft_trace_inv [OF assms(1)] by (simp add: raft_inv_def)
  have head: "refusal (snd (apply_head ?s i h)) \<Longrightarrow> fst (apply_head ?s i h) = ?s \<or>
    (\<exists>k l q why. fst (apply_head ?s i h) = drop_marker ?s k \<and>
       hm_get (st_recently_cleared ?s) k \<noteq> None \<and> snd (apply_head ?s i h) = QueueDesync l q (QueueCleared why))" for h
    by (cases rule: apply_head_cases [of ?s i h]) auto
  have poison: "refusal (snd (apply_poison_queue_entry ?s i p)) \<Longrightarrow> fst (apply_poison_queue_entry ?s i p) = ?s \<or>
    (\<exists>k l q why. fst (apply_poison_queue_entry ?s i p) = drop_marker ?s k \<and>
       hm_get (st_recently_cleared ?s) k \<noteq> None \<and>
       snd (apply_poison_queue_entry ?s i p) = QueueDesync l q (QueueCleared why))" for p
    by (cases rule: poison_cases [of ?s i p]) auto
  have enq: "refusal (snd (apply_enqueue_command ?s i q)) \<Longrightarrow> fst (apply_enqueue_command ?s i q) = ?s" for q
    by (cases rule: enqueue_cases [of ?s i q]) auto
  have ev: "\<not> refusal (snd (apply_evict_idempotency ?s x y))" for x y
    by (simp add: apply_evict_idempotency_def Let_def case_prod_beta)
  show ?thesis
    using assms(2) head poison enq ev refused_lifecycle refused_purge [OF reg] refused_refs refused_graph_sources refused_push
    by (cases c) (simp_all add: advance_index_head_def rewrite_index_head_def case_prod_beta)
qed

theorem refused_commands_change_nothing_witness:
  "let c = CreateLedger \<lparr>nl_ledger_id = ''orders'', nl_branch = ''main'', nl_created_at_millis = 70\<rparr>
   in snd (apply_command sample_state c 7) = AlreadyExists ''orders:main'' \<and> fst (apply_command sample_state c 7) = sample_state"
proof -
  let ?c = "CreateLedger \<lparr>nl_ledger_id = ''orders'', nl_branch = ''main'', nl_created_at_millis = 70\<rparr>"
  have r: "snd (apply_command sample_state ?c 7) = AlreadyExists ''orders:main''"
    by (simp add: sample_state_eq create_ledger_def sample_defs hm_defs format_ledger_id_def)
  with refused_commands_change_nothing [OF sample_trace, of ?c 7] show ?thesis
    by (auto simp: sample_state_def Let_def)
qed

section \<open>Invariants of every reachable state\<close>

text \<open>
  C5. The registry. In every reachable state each ledger lists at least one branch and no branch
  twice; heads, retraction marks and queues belong to registered branches; no queue is empty,
  belongs to a retracted branch, or coexists with a clear marker. The branch registration inside
  \<open>apply_head\<close> therefore never has anything to repair.
\<close>

theorem registry_consistent:
  assumes "raft_trace es rs a"
  shows "registry_inv (ad_state a) \<and>
    (\<forall>l b q. hm_get (st_queues (ad_state a)) (RefKey_new l b) = Some q \<longrightarrow>
       self_heal_branch (ad_state a) l b = ad_state a)"
proof -
  have reg: "registry_inv (ad_state a)" using raft_trace_inv [OF assms] by (simp add: raft_inv_def)
  then show ?thesis
    by (auto simp: key_known_def dest!: registry_invD(6) [OF reg] intro!: self_heal_known)
qed

theorem registry_consistent_witness:
  "registry_inv sample_state \<and> self_heal_branch sample_state ''orders'' ''main'' = sample_state"
proof -
  have "hm_get (st_queues (ad_state (fst sample_run))) (RefKey_new ''orders'' ''main'') = Some [sample_entry 1 5 None 20]"
    unfolding sample_run_state sample_state_eq by (simp add: sample_stage_def hm_get_def)
  with registry_consistent [OF sample_trace] show ?thesis by (simp add: sample_run_state)
qed

text \<open>
  C17. Queue ids. In every reachable state the ids along each queue are strictly increasing, no id
  is in two queues, every id is below the generator, and the generator, which the code advances
  with a wrapping addition, never wraps.
\<close>

theorem queue_ids_unique:
  assumes "raft_trace es rs a"
  shows "(\<forall>k. sorted_wrt (<) (map qe_queue_id (queue_of (ad_state a) k))) \<and>
    (\<forall>k k' e e'. e \<in> set (queue_of (ad_state a) k) \<longrightarrow> e' \<in> set (queue_of (ad_state a) k') \<longrightarrow>
       qe_queue_id e = qe_queue_id e' \<longrightarrow> k = k' \<and> e = e') \<and>
    (\<forall>k. \<forall>e \<in> set (queue_of (ad_state a) k). qe_queue_id e < st_next_queue_id (ad_state a)) \<and>
    (\<forall>entry. entry_ok a entry \<longrightarrow>
       u64_wrapping_succ (st_next_queue_id (ad_state a)) = st_next_queue_id (ad_state a) + 1)"
proof -
  have ids: "ids_inv (next_index a) (ad_state a)" using raft_trace_inv [OF assms] by (simp add: raft_inv_def)
  have q: "e \<in> set (queue_of (ad_state a) k) \<Longrightarrow> hm_get (st_queues (ad_state a)) k = Some (queue_of (ad_state a) k)" for e k
    by (cases "hm_get (st_queues (ad_state a)) k") (auto simp: queue_of_def)
  have sorted: "sorted_wrt (<) (map qe_queue_id (queue_of (ad_state a) k))" for k
    using ids_invD(2) [OF ids, of k] by (simp add: queue_of_def split: option.split)
  have same: "e = e'" if "e \<in> set (queue_of (ad_state a) k)" "e' \<in> set (queue_of (ad_state a) k)"
    "qe_queue_id e = qe_queue_id e'" for e e' k
    using that strict_sorted_imp_sorted [OF sorted [of k]] sorted [of k]
    by (simp add: strict_sorted_iff distinct_map inj_on_def)
  have "u64_wrapping_succ (st_next_queue_id (ad_state a)) = st_next_queue_id (ad_state a) + 1"
    if "entry_ok a entry" for entry
    using that ids_invD(1) [OF ids] by (intro u64_wrapping_succ_small) (auto simp: entry_ok_def)
  with sorted same ids_invD(3,4) [OF ids] q show ?thesis by (intro conjI allI ballI impI) blast+
qed

theorem queue_ids_unique_witness:
  "sorted_wrt (<) (map qe_queue_id (queue_of sample_state (RefKey_new ''orders'' ''main''))) \<and>
   map qe_queue_id (queue_of sample_state (RefKey_new ''orders'' ''main'')) = [1]"
  using queue_ids_unique [OF sample_trace]
  by (simp add: sample_run_state sample_state_eq sample_stage_def queue_of_def hm_get_def sample_entry_def)

lemma command_config: "st_queue_config (fst (apply_command s c i)) = st_queue_config s"
proof (cases "queue_command c")
  case False
  then show ?thesis by (rule quietD(2) [OF apply_command_quiet])
next
  case True
  then show ?thesis
  proof (cases rule: queue_command_cases)
    case (enqueue a)
    then show ?thesis by (cases rule: enqueue_cases [of s i a]) simp_all
  next
    case (head a)
    then show ?thesis by (cases rule: apply_head_cases [of s i a]) simp_all
  next
    case (poison a)
    then show ?thesis by (cases rule: poison_cases [of s i a]) simp_all
  next
    case (evict x y)
    then show ?thesis by (simp add: apply_evict_idempotency_def Let_def case_prod_beta)
  qed
qed

lemma step_config: "raft_step a e r b \<Longrightarrow> st_queue_config (ad_state b) = st_queue_config (ad_state a)"
proof -
  assume st: "raft_step a e r b"
  obtain i p where e: "e = (i, p)" by (cases e)
  obtain eqv: "state_eqv (fst (apply_entry (ad_state a) (i, p))) (ad_state b)" using st e raft_stepE by blast
  show ?thesis
    unfolding state_eqv_get [OF eqv]
    by (cases p) (simp_all add: apply_entry_def case_prod_beta Let_def apply_membership_def command_config)
qed

lemma config_constant: "raft_trace es rs a \<Longrightarrow> st_queue_config (ad_state a) = QueueConfig_default"
proof -
  have "trace raft_step b es rs a \<Longrightarrow> st_queue_config (ad_state a) = st_queue_config (ad_state b)" for b
    by (induction rule: trace.induct) (simp_all add: step_config)
  then show "raft_trace es rs a \<Longrightarrow> ?thesis" by (simp add: StateMachineAdapter_new_def NameServiceState_new_def)
qed

text \<open>
  C18. Queue depth. In every reachable state no branch queue is longer than the per-branch cap and
  all queues together are within the global cap; both caps keep their configured values.
\<close>

theorem queue_depth_capped:
  assumes "raft_trace es rs a"
  shows "length (queue_of (ad_state a) k) \<le> qc_per_branch_cap (st_queue_config (ad_state a)) \<and>
    global_depth (ad_state a) \<le> qc_global_cap (st_queue_config (ad_state a)) \<and>
    st_queue_config (ad_state a) = QueueConfig_default"
proof -
  have "st_queue_config (ad_state a) = QueueConfig_default" using assms by (rule config_constant)
  then show ?thesis using raft_trace_inv [OF assms] by (simp add: raft_inv_def caps_inv_def)
qed

theorem queue_depth_capped_witness:
  "length (queue_of sample_state (RefKey_new ''orders'' ''main'')) \<le> 1024 \<and> global_depth sample_state \<le> 16384"
  using queue_depth_capped [OF sample_trace, of "RefKey_new ''orders'' ''main''"]
  by (auto simp: sample_run_state QueueConfig_default_def DEFAULT_PER_BRANCH_def DEFAULT_GLOBAL_def)

text \<open>
  Worker eligibility. In every reachable state only configured voters are eligible, and a
  membership change keeps the eligibility of every voter that stays while new voters start
  eligible.
\<close>

theorem eligibility_follows_membership:
  assumes "raft_trace es rs a" "raft_step a (i, Membership vs) ef b"
  shows "st_worker_eligible_voters (ad_state b) \<subseteq> st_configured_voters (ad_state b) \<and>
    st_configured_voters (ad_state b) = vs \<and>
    (\<forall>v \<in> vs. v \<in> st_worker_eligible_voters (ad_state b) \<longleftrightarrow>
       v \<in> st_worker_eligible_voters (ad_state a) \<or> v \<notin> st_configured_voters (ad_state a))"
proof -
  obtain eqv: "state_eqv (fst (apply_entry (ad_state a) (i, Membership vs))) (ad_state b)"
    using assms(2) by (rule raft_stepE)
  have "raft_inv b" using raft_step_inv [OF assms(2) raft_trace_inv [OF assms(1)]] .
  moreover have "st_worker_eligible_voters (ad_state a) \<subseteq> st_configured_voters (ad_state a)"
    using raft_trace_inv [OF assms(1)] by (simp add: raft_inv_def voters_inv_def)
  ultimately show ?thesis
    using state_eqv_get(13,14) [OF eqv]
    by (auto simp: raft_inv_def voters_inv_def apply_entry_def apply_membership_def Let_def)
qed

theorem eligibility_follows_membership_witness:
  "\<exists>b :: StateMachineAdapter. st_configured_voters (ad_state b) = {2, 3, 4} \<and> (4 :: nat) \<in> st_worker_eligible_voters (ad_state b)"
proof -
  let ?e = "(7, Membership {2, 3, 4})"
  have "raft_step (fst sample_run) ?e (snd (adapter_step (fst sample_run) ?e)) (fst (adapter_step (fst sample_run) ?e))"
    by (rule adapter_step_is_step [OF sample_inv]) (simp add: entry_ok_def sample_next_index)
  note step = eligibility_follows_membership [OF sample_trace this]
  have "(4 :: nat) \<notin> st_configured_voters (ad_state (fst sample_run))"
    by (simp add: sample_run_state sample_state_eq sample_stage_def)
  moreover have "\<forall>v \<in> {2, 3, 4}. v \<in> st_worker_eligible_voters (ad_state (fst (adapter_step (fst sample_run) ?e))) \<longleftrightarrow>
      v \<in> st_worker_eligible_voters (ad_state (fst sample_run)) \<or> v \<notin> st_configured_voters (ad_state (fst sample_run))"
    using step by (elim conjE)
  ultimately have "(4 :: nat) \<in> st_worker_eligible_voters (ad_state (fst (adapter_step (fst sample_run) ?e)))" by simp
  moreover have "st_configured_voters (ad_state (fst (adapter_step (fst sample_run) ?e))) = {2, 3, 4}"
    using step by (elim conjE)
  ultimately show ?thesis by blast
qed

section \<open>Keyed submissions\<close>

text \<open>
  C2. Exactly once. When \<open>ApplyHead\<close> consumes a keyed entry, every later submission under the same
  key to a live branch is answered from the record, without touching the state: with the same body
  it gets the commit that was applied, with another body it is turned down. This holds as long
  as no eviction runs, for submissions scoped to their branch.
\<close>

theorem keyed_submission_applied_once:
  assumes "raft_trace es0 rs0 a" "raft_step a (i, Normal (ApplyHead h)) ef a'" "trace raft_step a' es rs b"
    and "ef_response ef = HeadApplied l c t env"
    and "hm_get (st_queues (ad_state a)) (RefKey_new (sh_ledger_id h) (sh_branch h)) = Some (e # rest)"
    and "qe_idempotency e = Some key"
    and "\<forall>(i, p) \<in> set es0. scoped p" "\<forall>(i, p) \<in> set es. scoped p \<and> \<not> evicts p"
    and "branch_known (st_ledgers (ad_state b)) (qs_ledger_id sub) (qs_branch sub)"
    and "RefKey_new (qs_ledger_id sub) (qs_branch sub) \<notin> st_retracted (ad_state b)"
    and "qs_idempotency sub = Some key"
  shows "apply_enqueue_command (ad_state b) j sub = (ad_state b,
    if qs_body_cid sub = qe_body_cid e then IdempotencyHit (applied_record i h e) else BodyHashMismatch) \<and>
    ar_head (applied_record i h e) = c \<and> ar_t (applied_record i h e) = t"
proof -
  have inv: "raft_inv a" "once_inv (ad_state a)" using scoped_trace_inv [OF assms(1,7)] .
  obtain eqv: "state_eqv (fst (apply_entry (ad_state a) (i, Normal (ApplyHead h)))) (ad_state a')"
    using assms(2) by (rule raft_stepE)
  have ef: "ef = snd (apply_entry (ad_state a) (i, Normal (ApplyHead h)))"
    using assms(2) by (auto simp: raft_step_iff adapter_step_def Let_def case_prod_beta)
  have "hm_get (st_idempotency (fst (apply_head (ad_state a) i h))) key = Some (Applied (applied_record i h e)) \<and>
      sh_commit_id h = c \<and> sh_commit_t h = t"
  proof (cases rule: apply_head_cases [of "ad_state a" i h])
    case (applied k en rst)
    then have "en = e" using assms(5) by simp
    then show ?thesis
      using applied(7) assms(4,6)
      by (cases "held_envelope e")
        (auto simp: ef apply_entry_def Let_def case_prod_beta record_for_idempotency split: option.splits)
  qed (use assms(4) in \<open>auto simp: ef apply_entry_def Let_def case_prod_beta\<close>)
  then have rec: "hm_get (st_idempotency (ad_state a')) key = Some (Applied (applied_record i h e))"
    and ct: "sh_commit_id h = c" "sh_commit_t h = t"
    by (simp_all add: state_eqv_get [OF eqv] apply_entry_queue_fields)
  have inv': "raft_inv a'" "once_inv (ad_state a')"
    using raft_step_inv [OF assms(2) inv(1)] once_inv_content [OF apply_entry_once [OF inv(2)] eqv] by simp_all
  have "hm_get (st_idempotency (ad_state b)) key = Some (Applied (applied_record i h e))"
    using outcome_kept [OF assms(3,8) inv' rec] .
  then show ?thesis
    using assms(9-11) ct by (simp add: apply_enqueue_command_def Let_def dedup_response_def applied_record_def)
qed

text \<open>The sample run just before its last entry.\<close>

definition sample_before :: StateMachineAdapter where
  "sample_before = fst (adapter_apply StateMachineAdapter_new (butlast sample_log))"

lemma sample_before_state:
  "ad_state sample_before = sample_stage [] sample_ledgers []
     [(RefKey_new ''orders'' ''main'', [sample_entry 0 4 (Some sample_key) 10, sample_entry 1 5 None 20])] 2"
proof -
  have new: "ad_state StateMachineAdapter_new = NameServiceState_new" by (simp add: StateMachineAdapter_new_def)
  have log: "butlast sample_log =
     [(1, Membership {1, 2, 3}),
      (2, Normal (CreateLedger \<lparr>nl_ledger_id = ''orders'', nl_branch = ''main'', nl_created_at_millis = 50\<rparr>)),
      (3, Normal (CreateLedger \<lparr>nl_ledger_id = ''users'', nl_branch = ''main'', nl_created_at_millis = 60\<rparr>)),
      (4, Normal (EnqueueCommand (sample_submission (Some sample_key) 10))),
      (5, Normal (EnqueueCommand (sample_submission None 20)))]"
    by (simp add: sample_log_def)
  show ?thesis
    unfolding sample_before_def log adapter_apply_state adapter_step_state new
      sample_step_1 sample_step_2 sample_step_3 sample_step_4 ..
qed

lemma sample_before_trace:
  "raft_trace (butlast sample_log) (snd (adapter_apply StateMachineAdapter_new (butlast sample_log))) sample_before"
  unfolding sample_before_def by (rule adapter_run_trace) (simp add: sample_log_def)

lemma sample_last_step:
  "raft_step sample_before (6, Normal (ApplyHead (sample_head 0 30 1)))
     (snd (adapter_step sample_before (6, Normal (ApplyHead (sample_head 0 30 1))))) (fst sample_run)"
proof -
  have log: "sample_log = butlast sample_log @ [(6, Normal (ApplyHead (sample_head 0 30 1)))]"
    by (simp add: sample_log_def)
  have run: "fst sample_run = fst (adapter_step sample_before (6, Normal (ApplyHead (sample_head 0 30 1))))"
    unfolding sample_run_def sample_before_def
    by (subst log, subst adapter_apply_append) (simp add: adapter_apply_def case_prod_beta Let_def)
  have "next_index sample_before = 6"
  proof -
    have "butlast sample_log = butlast (butlast sample_log) @ [(5, Normal (EnqueueCommand (sample_submission None 20)))]"
      by (simp add: sample_log_def)
    then have eq: "sample_before = fst (adapter_step (fst (adapter_apply StateMachineAdapter_new (butlast (butlast sample_log))))
        (5, Normal (EnqueueCommand (sample_submission None 20))))"
      unfolding sample_before_def
      by (metis (no_types, lifting) adapter_apply_append adapter_apply_single)
    show ?thesis unfolding eq next_index_step by simp
  qed
  then show ?thesis
    unfolding run using raft_trace_inv [OF sample_before_trace]
    by (intro adapter_step_is_step) (simp_all add: entry_ok_def)
qed

theorem keyed_submission_applied_once_witness:
  "apply_enqueue_command sample_state 7 (sample_submission (Some sample_key) 10) =
     (sample_state, IdempotencyHit sample_record)"
proof -
  let ?ef = "snd (adapter_step sample_before (6, Normal (ApplyHead (sample_head 0 30 1))))"
  have resp: "ef_response ?ef = HeadApplied ''orders:main'' (ContentId [30]) 1 None"
    by (simp add: adapter_step_def apply_entry_def case_prod_beta Let_def sample_before_state apply_head_def
        pop_validated_front_def drop_queue_if_empty_def advance_ref_entry_def self_heal_branch_def
        record_outcome_def sample_defs hm_defs format_ledger_id_def)
  have q: "hm_get (st_queues (ad_state sample_before)) (RefKey_new (sh_ledger_id (sample_head 0 30 1)) (sh_branch (sample_head 0 30 1)))
      = Some [sample_entry 0 4 (Some sample_key) 10, sample_entry 1 5 None 20]"
    by (simp add: sample_before_state sample_defs hm_get_def)
  have rcd: "applied_record 6 (sample_head 0 30 1) (sample_entry 0 4 (Some sample_key) 10) = sample_record"
    by (simp add: applied_record_def sample_defs sample_record_def)
  have sc: "\<forall>(i, p) \<in> set (butlast sample_log). scoped p"
    by (simp add: sample_log_def sample_submission_def sample_key_def format_ledger_id_def)
  have live: "branch_known (st_ledgers (ad_state (fst sample_run))) ''orders'' ''main''"
    "RefKey_new ''orders'' ''main'' \<notin> st_retracted (ad_state (fst sample_run))"
    unfolding sample_run_state sample_state_eq
    by (simp_all add: branch_known_def sample_defs hm_get_def)
  show ?thesis
    using keyed_submission_applied_once [OF sample_before_trace sample_last_step trace_nil resp q _ sc,
        of sample_key "sample_submission (Some sample_key) 10" 7] live rcd
    by (simp add: sample_run_state sample_submission_def sample_entry_def)
qed

text \<open>
  C3. Envelopes are conserved. Along every trace of scoped submissions the envelopes that entered
  the queue are, with their multiplicity, those still queued, those held by an idempotency record
  and those handed out for release: none is lost, none is released twice, and none is released
  while the state still refers to it.
\<close>

theorem envelopes_conserved:
  assumes "raft_trace es rs a" "\<forall>(i, p) \<in> set es. scoped p"
  shows "sum_list (map2 entry_added es rs) = held_envelopes (ad_state a) + mset (concat (map ef_releases rs))"
  using trace_envelopes [OF scoped_trace [OF assms] raft_inv_init once_inv_init]
  by (simp add: held_envelopes_def queued_envelopes_def cached_envelopes_def StateMachineAdapter_new_def
      NameServiceState_new_def hm_empty_def)

lemma sample_scoped: "\<forall>(i, p) \<in> set sample_log. scoped p"
  by (simp add: sample_log_def sample_submission_def sample_key_def format_ledger_id_def)

theorem envelopes_conserved_witness:
  "sum_list (map2 entry_added sample_log (snd sample_run)) =
     {#(''orders:main'', ContentId [20]), (''orders:main'', ContentId [10])#} + mset (concat (map ef_releases (snd sample_run)))"
  using envelopes_conserved [OF sample_trace sample_scoped]
  by (simp add: sample_run_state sample_state_eq sample_stage_def held_envelopes_def queued_envelopes_def
      cached_envelopes_def sample_entry_def sample_key_def sample_record_def format_ledger_id_def)

section \<open>Eviction\<close>

text \<open>The age of a record, as eviction orders it.\<close>

definition record_age :: "ApplyOutcome \<Rightarrow> nat \<times> nat" where
  "record_age oc = (ao_recorded_at_millis oc, ao_recorded_index oc)"

lemma expired_in:
  assumes "hm_wf m"
  shows "(at, idx, k) \<in> set (expired_entries m c) \<longleftrightarrow>
    (\<exists>oc. hm_get m k = Some oc \<and> at < c \<and> (at, idx) = record_age oc)"
  unfolding expired_entries_def record_age_def by (auto simp: hm_get_in_set [OF assms] image_iff)

lemma expired_distinct: "hm_wf m \<Longrightarrow> distinct (map (\<lambda>(_, _, k). k) (expired_entries m c))"
  by (simp add: expired_entries_def hm_wf_def o_def case_prod_beta distinct_map_filter)

lemma batch_sorted_split:
  assumes "sorted (map f xs)" "x \<in> set (take n xs)" "y \<in> set (drop n xs)"
  shows "f x \<le> f y"
  using assms sorted_append [of "map f (take n xs)" "map f (drop n xs)"]
  by (simp flip: map_append)

lemma evict_keys_length:
  assumes "distinct (map (\<lambda>(_, _, k). k) xs)" "\<And>at idx k. (at, idx, k) \<in> set xs \<Longrightarrow> hm_get m k \<noteq> None"
  shows "length (snd (evict_keys m xs)) = length xs"
  using assms
proof (induction m xs rule: evict_keys.induct)
  case (2 m at idx k rest)
  obtain oc where oc: "hm_get m k = Some oc" using 2(4) [of at idx k] by auto
  have "hm_get (hm_remove m k) k' \<noteq> None" if "(at', idx', k') \<in> set rest" for at' idx' k'
    using that 2(3) 2(4) [of at' idx' k'] by (force simp: image_iff)
  then show ?case using 2 oc by (simp add: case_prod_beta Let_def)
qed simp

definition evicted :: "(IdempotencyCacheKey, ApplyOutcome) hashmap \<Rightarrow> nat \<Rightarrow> IdempotencyCacheKey set" where
  "evicted m c = (\<lambda>(_, _, k). k) ` set (eviction_batch m c)"

lemma batch_in:
  assumes "hm_wf m" "(at, idx, k) \<in> set (eviction_batch m c)"
  shows "\<exists>oc. hm_get m k = Some oc \<and> at < c \<and> (at, idx) = record_age oc"
proof -
  have "(at, idx, k) \<in> set (expired_entries m c)"
    using in_set_takeD [OF assms(2) [unfolded eviction_batch_def]] by simp
  then show ?thesis by (simp add: expired_in [OF assms(1)])
qed

lemma evicted_expired:
  "hm_wf m \<Longrightarrow> k \<in> evicted m c \<Longrightarrow> \<exists>oc. hm_get m k = Some oc \<and> ao_recorded_at_millis oc < c"
  unfolding evicted_def using batch_in by (fastforce simp: record_age_def)

lemma evicted_oldest:
  assumes wf: "hm_wf m"
    and uniq: "\<And>k k' oc oc'. hm_get m k = Some oc \<Longrightarrow> hm_get m k' = Some oc' \<Longrightarrow>
      ao_recorded_index oc = ao_recorded_index oc' \<Longrightarrow> k = k'"
    and k: "hm_get m k = Some oc" "k \<in> evicted m c"
    and k': "hm_get m k' = Some oc'" "k' \<notin> evicted m c" "ao_recorded_at_millis oc' < c"
  shows "record_age oc < record_age oc'"
proof -
  let ?f = "\<lambda>(at :: nat, idx :: nat, _ :: IdempotencyCacheKey). (at, idx)"
  let ?all = "sort_key ?f (expired_entries m c)"
  have batch: "eviction_batch m c = take EVICT_BATCH_SIZE ?all" by (simp add: eviction_batch_def)
  obtain at idx where x: "(at, idx, k) \<in> set (take EVICT_BATCH_SIZE ?all)" "(at, idx) = record_age oc"
    using k batch_in [OF wf] unfolding evicted_def batch [symmetric] by fastforce
  have "(fst (record_age oc'), snd (record_age oc'), k') \<in> set ?all"
    using k'(1,3) expired_in [OF wf] by (simp add: record_age_def)
  moreover have "set ?all = set (take EVICT_BATCH_SIZE ?all) \<union> set (drop EVICT_BATCH_SIZE ?all)"
    by (metis append_take_drop_id set_append)
  ultimately have "(fst (record_age oc'), snd (record_age oc'), k') \<in> set (drop EVICT_BATCH_SIZE ?all)"
    using k'(2) by (force simp: evicted_def batch image_iff)
  from batch_sorted_split [OF sorted_sort_key x(1) this] have "record_age oc \<le> record_age oc'"
    using x(2) by simp
  moreover have "record_age oc \<noteq> record_age oc'"
    using uniq [OF k(1) k'(1)] k(2) k'(2) by (auto simp: record_age_def)
  ultimately show ?thesis by simp
qed

lemma evicted_released:
  assumes wf: "hm_wf m"
  shows "length (snd (evict_keys m (eviction_batch m c))) = min EVICT_BATCH_SIZE (length (expired_entries m c))"
proof -
  have "distinct (map (\<lambda>(_, _, k). k) (eviction_batch m c))"
    unfolding eviction_batch_def take_map [symmetric]
    using expired_distinct [OF wf, of c] by (simp add: distinct_map inj_on_def)
  then have "length (snd (evict_keys m (eviction_batch m c))) = length (eviction_batch m c)"
    by (rule evict_keys_length) (use batch_in [OF wf] in blast)
  then show ?thesis by (simp add: eviction_batch_def min.commute)
qed

text \<open>
  Eviction policy. One \<open>EvictIdempotency\<close> removes expired records only, the oldest
  \<open>EVICT_BATCH_SIZE\<close> of them when there are more, reports how many and returns the envelope of
  each; every other record keeps its value, and the clear markers past their own cutoff go.
\<close>

theorem eviction_takes_oldest:
  fixes cutoff marker_cutoff :: nat
  assumes "raft_trace es rs a"
  defines "s \<equiv> ad_state a" and "s' \<equiv> fst (apply_evict_idempotency (ad_state a) cutoff marker_cutoff)"
    and "r \<equiv> snd (apply_evict_idempotency (ad_state a) cutoff marker_cutoff)"
  shows "(\<forall>k. hm_get (st_idempotency s') k = hm_get (st_idempotency s) k \<or>
      (hm_get (st_idempotency s') k = None \<and>
       (\<exists>oc. hm_get (st_idempotency s) k = Some oc \<and> ao_recorded_at_millis oc < cutoff))) \<and>
    (\<forall>k k' oc oc'. hm_get (st_idempotency s) k = Some oc \<longrightarrow> hm_get (st_idempotency s') k = None \<longrightarrow>
      hm_get (st_idempotency s') k' = Some oc' \<longrightarrow> ao_recorded_at_millis oc' < cutoff \<longrightarrow>
      record_age oc < record_age oc') \<and>
    (\<exists>rel. r = EvictionApplied (min EVICT_BATCH_SIZE (length (expired_entries (st_idempotency s) cutoff))) rel \<and>
      length rel = min EVICT_BATCH_SIZE (length (expired_entries (st_idempotency s) cutoff))) \<and>
    (\<forall>k. hm_get (st_recently_cleared s') k =
      (case hm_get (st_recently_cleared s) k of
         Some mk \<Rightarrow> if marker_cutoff \<le> cm_applied_at_millis mk then Some mk else None
       | None \<Rightarrow> None))"
proof -
  let ?m = "st_idempotency s"
  have inv: "raft_inv a" using raft_trace_inv [OF assms(1)] .
  have wf: "hm_wf ?m" "hm_wf (st_recently_cleared s)" using inv by (simp_all add: raft_inv_def state_wf_def s_def)
  have gone: "hm_get (st_idempotency s') k = (if k \<in> evicted ?m cutoff then None else hm_get ?m k)" for k
    by (simp add: s'_def s_def apply_evict_idempotency_def Let_def case_prod_beta evict_keys_get evicted_def)
  have oldest: "record_age oc < record_age oc'"
    if "hm_get ?m k = Some oc" "hm_get (st_idempotency s') k = None"
      "hm_get (st_idempotency s') k' = Some oc'" "ao_recorded_at_millis oc' < cutoff" for k k' oc oc'
    using that inv unfolding gone
    by (intro evicted_oldest [OF wf(1), of k oc cutoff k' oc'])
      (auto simp: raft_inv_def recorded_inv_def s_def split: if_splits)
  have only: "hm_get (st_idempotency s') k = hm_get ?m k \<or> (hm_get (st_idempotency s') k = None \<and>
       (\<exists>oc. hm_get ?m k = Some oc \<and> ao_recorded_at_millis oc < cutoff))" for k
    unfolding gone using evicted_expired [OF wf(1)] by auto
  have resp: "r = EvictionApplied (min EVICT_BATCH_SIZE (length (expired_entries ?m cutoff)))
      (snd (evict_keys ?m (eviction_batch ?m cutoff)))"
    by (simp add: r_def s_def apply_evict_idempotency_def Let_def case_prod_beta eviction_batch_def min.commute)
  have markers: "hm_get (st_recently_cleared s') k =
      (case hm_get (st_recently_cleared s) k of
         Some mk \<Rightarrow> if marker_cutoff \<le> cm_applied_at_millis mk then Some mk else None | None \<Rightarrow> None)" for k
    using wf(2) by (simp add: s'_def s_def apply_evict_idempotency_def Let_def case_prod_beta hm_get_retain)
  show ?thesis using only oldest resp evicted_released [OF wf(1)] markers by (intro conjI allI impI) auto
qed

theorem eviction_takes_oldest_witness:
  "\<exists>rel. snd (apply_evict_idempotency sample_state 1000 0) = EvictionApplied 1 rel \<and> length rel = 1"
  using eviction_takes_oldest [OF sample_trace, of 1000 0]
  by (simp add: sample_run_state sample_state_eq sample_stage_def expired_entries_def sample_record_def EVICT_BATCH_SIZE_def)

end
