(* ===== verification/RaftValues.thy ===== *)
theory RaftValues
  imports RaftHeads
begin

text \<open>
  The compare-and-set registers of the nameservice: commit and index heads through
  \<open>CompareAndSetRef\<close>, and the versioned status and config values behind the trait
  \<open>VersionedValue\<close>. The trait's contract is the locale \<open>versioned_value\<close>, interpreted on both
  implementations.
\<close>

section \<open>The contract of a versioned value\<close>

locale versioned_value =
  fixes T :: "'a VersionedValue"
  assumes eq_version: "vv_eq T x y \<Longrightarrow> vv_v T x = vv_v T y"
    and conflict_not_updated: "vv_conflict T actual \<noteq> vv_updated T"
begin

definition current :: "(string, 'a) hashmap \<Rightarrow> string \<Rightarrow> 'a" where
  "current vals l = (case hm_get vals l of Some v \<Rightarrow> v | None \<Rightarrow> vv_absent T)"

lemma push_updated:
  assumes "snd (apply_versioned_push T ledgers vals l expected new) = vv_updated T"
  shows "\<exists>e. expected = Some e \<and> vv_eq T e (current vals l)"
    and "vv_v T (current vals l) < vv_v T new"
    and "fst (apply_versioned_push T ledgers vals l expected new) = hm_insert vals l new"
  using assms
  by (auto simp: apply_versioned_push_def current_def conflict_not_updated Let_def
      split: sum.splits prod.splits if_splits option.splits)

lemma push_conflict:
  "snd (apply_versioned_push T ledgers vals l expected new) \<noteq> vv_updated T \<Longrightarrow>
    fst (apply_versioned_push T ledgers vals l expected new) = vals"
  by (auto simp: apply_versioned_push_def Let_def split: sum.splits prod.splits if_splits option.splits)

lemma push_monotone:
  "vv_v T (current vals l') \<le> vv_v T (current (fst (apply_versioned_push T ledgers vals l expected new)) l')"
proof (cases "snd (apply_versioned_push T ledgers vals l expected new) = vv_updated T")
  case True
  then show ?thesis using push_updated(2,3) [OF True] by (simp add: current_def)
qed (simp add: push_conflict)

lemma stale_push_conflicts:
  assumes "vv_v T e < vv_v T (current vals l)"
  shows "snd (apply_versioned_push T ledgers vals l (Some e) new) \<noteq> vv_updated T"
  using push_updated(1) [of ledgers vals l "Some e" new] eq_version assms by fastforce

end

interpretation status: versioned_value VersionedValue_StoredStatus
  by unfold_locales (simp_all add: VersionedValue_StoredStatus_def StoredStatus_eq_def)

interpretation config: versioned_value VersionedValue_StoredConfig
  by unfold_locales (simp_all add: VersionedValue_StoredConfig_def StoredConfig_eq_def)

section \<open>Only their own pushes change the values\<close>

lemma queue_values:
  "st_status (fst (apply_enqueue_command s i qs)) = st_status s" "st_config (fst (apply_enqueue_command s i qs)) = st_config s"
  "st_status (fst (apply_head s i h)) = st_status s" "st_config (fst (apply_head s i h)) = st_config s"
  "st_status (fst (apply_poison_queue_entry s i ep)) = st_status s" "st_config (fst (apply_poison_queue_entry s i ep)) = st_config s"
  "st_status (fst (apply_evict_idempotency s x y)) = st_status s" "st_config (fst (apply_evict_idempotency s x y)) = st_config s"
proof -
  show "st_status (fst (apply_enqueue_command s i qs)) = st_status s" "st_config (fst (apply_enqueue_command s i qs)) = st_config s"
    by (cases rule: enqueue_cases [of s i qs]; simp)+
  show "st_status (fst (apply_head s i h)) = st_status s" "st_config (fst (apply_head s i h)) = st_config s"
    by (cases rule: apply_head_cases [of s i h]; simp)+
  show "st_status (fst (apply_poison_queue_entry s i ep)) = st_status s" "st_config (fst (apply_poison_queue_entry s i ep)) = st_config s"
    by (cases rule: poison_cases [of s i ep]; simp)+
qed (simp_all add: apply_evict_idempotency_def Let_def case_prod_beta)

lemma lifecycle_values:
  "st_status (fst (create_ledger s i nl)) = st_status s" "st_config (fst (create_ledger s i nl)) = st_config s"
  "st_status (fst (create_branch s i nb)) = st_status s" "st_config (fst (create_branch s i nb)) = st_config s"
  "st_status (fst (retract_ledger s l b at)) = st_status s" "st_config (fst (retract_ledger s l b at)) = st_config s"
  "st_status (fst (purge_branch s l b at)) = st_status s" "st_config (fst (purge_branch s l b at)) = st_config s"
  "st_status (fst (drop_branch s l b at)) = st_status s" "st_config (fst (drop_branch s l b at)) = st_config s"
  "st_status (fst (reset_head s l b sn at)) = st_status s" "st_config (fst (reset_head s l b sn at)) = st_config s"
  "st_status (fst (apply_set_worker_eligibility s we)) = st_status s" "st_config (fst (apply_set_worker_eligibility s we)) = st_config s"
  by (simp_all add: create_ledger_def create_branch_def retract_ledger_def purge_branch_def drop_branch_def
      reset_head_def apply_set_worker_eligibility_def Let_def case_prod_beta split: option.split)

lemma refs_values:
  "st_status (fst (set_index_head s ni f)) = st_status s" "st_config (fst (set_index_head s ni f)) = st_config s"
  "st_status (fst (apply_compare_and_set_ref s i rc)) = st_status s" "st_config (fst (apply_compare_and_set_ref s i rc)) = st_config s"
  "st_status (fst (apply_publish_graph_source s n b st c d)) = st_status s" "st_config (fst (apply_publish_graph_source s n b st c d)) = st_config s"
  "st_status (fst (apply_publish_graph_source_index s n b ci t)) = st_status s"
  "st_config (fst (apply_publish_graph_source_index s n b ci t)) = st_config s"
  "st_status (fst (apply_retract_graph_source s n b)) = st_status s" "st_config (fst (apply_retract_graph_source s n b)) = st_config s"
  by (simp_all add: set_index_head_def apply_compare_and_set_ref_def apply_publish_graph_source_def
      apply_publish_graph_source_index_def apply_retract_graph_source_def Let_def case_prod_beta
      split: option.split RefKind.split)

lemmas value_frames = queue_values lifecycle_values refs_values advance_index_head_def rewrite_index_head_def

text \<open>A lower bound on the version under one id survives every entry.\<close>

lemma apply_entry_values:
  "st_status (fst (apply_entry s (i, p))) = (case p of Normal c \<Rightarrow> st_status (fst (apply_command s c i)) | _ \<Rightarrow> st_status s)"
  "st_config (fst (apply_entry s (i, p))) = (case p of Normal c \<Rightarrow> st_config (fst (apply_command s c i)) | _ \<Rightarrow> st_config s)"
  by (simp_all add: apply_entry_def case_prod_beta Let_def apply_membership_def split: EntryPayload.split)

lemma apply_command_versions:
  "vv_v VersionedValue_StoredStatus (status.current (st_status s) l) \<le>
     vv_v VersionedValue_StoredStatus (status.current (st_status (fst (apply_command s c i))) l)"
  "vv_v VersionedValue_StoredConfig (config.current (st_config s) l) \<le>
     vv_v VersionedValue_StoredConfig (config.current (st_config (fst (apply_command s c i))) l)"
  by (cases c; simp add: value_frames case_prod_beta status.push_monotone config.push_monotone)+

lemma raft_step_versions:
  assumes st: "raft_step a e r b"
  shows "vv_v VersionedValue_StoredStatus (status.current (st_status (ad_state a)) l) \<le>
      vv_v VersionedValue_StoredStatus (status.current (st_status (ad_state b)) l)"
    and "vv_v VersionedValue_StoredConfig (config.current (st_config (ad_state a)) l) \<le>
      vv_v VersionedValue_StoredConfig (config.current (st_config (ad_state b)) l)"
proof -
  obtain i p where e: "e = (i, p)" by (cases e)
  obtain eqv: "state_eqv (fst (apply_entry (ad_state a) (i, p))) (ad_state b)" using st e raft_stepE by blast
  have s: "status.current (st_status (ad_state b)) l = status.current (st_status (fst (apply_entry (ad_state a) (i, p)))) l"
    "config.current (st_config (ad_state b)) l = config.current (st_config (fst (apply_entry (ad_state a) (i, p)))) l"
    unfolding status.current_def config.current_def state_eqv_get [OF eqv] by (rule refl)+
  show "vv_v VersionedValue_StoredStatus (status.current (st_status (ad_state a)) l) \<le>
      vv_v VersionedValue_StoredStatus (status.current (st_status (ad_state b)) l)"
    "vv_v VersionedValue_StoredConfig (config.current (st_config (ad_state a)) l) \<le>
      vv_v VersionedValue_StoredConfig (config.current (st_config (ad_state b)) l)"
    unfolding s apply_entry_values by (cases p; simp add: apply_command_versions)+
qed

lemma raft_trace_versions:
  assumes "trace raft_step a es rs b"
  shows "vv_v VersionedValue_StoredStatus (status.current (st_status (ad_state a)) l) \<le>
      vv_v VersionedValue_StoredStatus (status.current (st_status (ad_state b)) l) \<and>
    vv_v VersionedValue_StoredConfig (config.current (st_config (ad_state a)) l) \<le>
      vv_v VersionedValue_StoredConfig (config.current (st_config (ad_state b)) l)"
  using assms by (induction rule: trace.induct) (auto intro: order_trans raft_step_versions)

section \<open>Properties\<close>

lemma step_effects: "raft_step a e ef b \<Longrightarrow> ef = snd (apply_entry (ad_state a) e)"
  by (auto simp: raft_step_iff adapter_step_def Let_def case_prod_beta)

lemma drain_updated:
  "fst (drain_releases r) = StatusUpdated \<longleftrightarrow> r = StatusUpdated"
  "fst (drain_releases r) = ConfigUpdated \<longleftrightarrow> r = ConfigUpdated"
  by (cases r rule: drain_releases.cases; simp)+


text \<open>
  Config pushes are never lost: the same for \<open>PushConfig\<close>.
\<close>

theorem config_push_never_lost:
  assumes "raft_step a (i, Normal (PushConfig \<lparr>cu_ledger_id = l, cu_expected = Some e, cu_new = new\<rparr>)) ef a'"
    and "ef_response ef = ConfigUpdated" "trace raft_step a' es rs b"
  shows "snd (apply_command (ad_state b) (PushConfig \<lparr>cu_ledger_id = l, cu_expected = Some e, cu_new = new'\<rparr>) j)
    \<noteq> ConfigUpdated"
proof -
  let ?T = VersionedValue_StoredConfig and ?s = "ad_state a"
  have up: "vv_updated ?T = ConfigUpdated" by (simp add: VersionedValue_StoredConfig_def)
  have ok: "snd (apply_versioned_push ?T (st_ledgers ?s) (st_config ?s) l (Some e) new) = vv_updated ?T"
    using assms(2) step_effects [OF assms(1)] unfolding up
    by (simp add: apply_entry_def Let_def case_prod_beta drain_updated)
  obtain eqv: "state_eqv (fst (apply_entry ?s (i, Normal (PushConfig \<lparr>cu_ledger_id = l, cu_expected = Some e, cu_new = new\<rparr>))))
      (ad_state a')"
    using assms(1) by (rule raft_stepE)
  have "vv_v ?T e < vv_v ?T new" using config.push_updated(1,2) [OF ok] config.eq_version by force
  also have "new = config.current (st_config (ad_state a')) l"
    unfolding config.current_def state_eqv_get [OF eqv] apply_entry_values
    using config.push_updated(3) [OF ok] by (simp add: case_prod_beta Let_def)
  also have "vv_v ?T (config.current (st_config (ad_state a')) l) \<le> vv_v ?T (config.current (st_config (ad_state b)) l)"
    using raft_trace_versions [OF assms(3)] by blast
  finally show ?thesis
    using config.stale_push_conflicts [of e "st_config (ad_state b)" l "st_ledgers (ad_state b)" new'] up
    by (simp add: case_prod_beta)
qed

text \<open>
  Compare-and-set on heads. A successful \<open>CompareAndSetRef\<close> found the expected value, installs
  the new one under its key and kind, and leaves every other head of every branch as it was; an
  unsuccessful one changes nothing.
\<close>

theorem compare_and_set_exact:
  "let s' = fst (apply_compare_and_set_ref s i args); r = snd (apply_compare_and_set_ref s i args);
       key = RefKey_new (rc_ledger_id args) (rc_branch args)
   in if r = RefCasUpdated
      then (\<exists>cur. current_ref_value s key (rc_kind args) = Some cur \<and>
              (case rc_expected args of None \<Rightarrow> rv_id cur = None | Some v \<Rightarrow> v = cur)) \<and>
           (rv_id (rc_new args) \<noteq> None \<longrightarrow> current_ref_value s' key (rc_kind args) = Some (rc_new args)) \<and>
           (\<forall>k kind. (k, kind) \<noteq> (key, rc_kind args) \<longrightarrow> current_ref_value s' k kind = current_ref_value s k kind)
      else s' = s"
proof (cases "snd (apply_compare_and_set_ref s i args) = RefCasUpdated")
  case False
  then show ?thesis
    by (auto simp: apply_compare_and_set_ref_def Let_def case_prod_beta split: option.splits if_splits RefKind.splits)
next
  case True
  let ?key = "RefKey_new (rc_ledger_id args) (rc_branch args)"
  obtain cur where cur: "current_ref_value s ?key (rc_kind args) = Some cur"
    "case rc_expected args of None \<Rightarrow> rv_id cur = None | Some v \<Rightarrow> v = cur"
    using True by (auto simp: apply_compare_and_set_ref_def Let_def case_prod_beta split: option.splits if_splits)
  have known: "branch_known (st_ledgers s) (rc_ledger_id args) (rc_branch args)"
    using cur(1) by (simp add: current_ref_value_def split: if_splits)
  have frame: "st_ledgers (fst (apply_compare_and_set_ref s i args)) = st_ledgers s"
    by (simp add: apply_compare_and_set_ref_def Let_def case_prod_beta split: option.split RefKind.split)
  obtain v where refs: "\<And>k. hm_get (st_refs (fst (apply_compare_and_set_ref s i args))) k =
      (if k = ?key then Some v else hm_get (st_refs s) k)"
    and v: "case rc_kind args of
        CommitHead \<Rightarrow> rv_id (rc_new args) = Some (re_head v) \<and> re_t v = rv_t (rc_new args) \<and>
          re_index v = Option.bind (hm_get (st_refs s) ?key) re_index
      | IndexHead \<Rightarrow> (\<exists>e. hm_get (st_refs s) ?key = Some e \<and> re_head v = re_head e \<and> re_t v = re_t e) \<and>
          re_index v = map_option (\<lambda>h. \<lparr>ix_head = h, ix_t = rv_t (rc_new args)\<rparr>) (rv_id (rc_new args))"
    using True
    by (auto simp: apply_compare_and_set_ref_def Let_def case_prod_beta split: option.splits if_splits RefKind.splits)
  have other: "current_ref_value (fst (apply_compare_and_set_ref s i args)) k kind = current_ref_value s k kind"
    if "(k, kind) \<noteq> (?key, rc_kind args)" for k kind
    using that v by (cases kind; cases "rc_kind args") (auto simp: current_ref_value_def frame refs Let_def)
  have new: "rv_id (rc_new args) \<noteq> None \<longrightarrow>
      current_ref_value (fst (apply_compare_and_set_ref s i args)) ?key (rc_kind args) = Some (rc_new args)"
    using v known by (cases "rc_kind args"; cases "rc_new args") (auto simp: current_ref_value_def frame refs Let_def)
  show ?thesis using True cur new other by (auto simp: Let_def)
qed

lemma sample_step_7:
  "raft_step (fst sample_run) (7, p) (snd (adapter_step (fst sample_run) (7, p))) (fst (adapter_step (fst sample_run) (7, p)))"
  by (rule adapter_step_is_step [OF sample_inv]) (simp add: entry_ok_def sample_next_index)

lemma sample_split: "split_ledger_id ''orders:main'' = Inr (''orders'', ''main'')"
  by code_simp

lemma sample_orders_known: "branch_known (st_ledgers sample_state) ''orders'' ''main''"
  by (simp add: sample_state_eq sample_stage_def sample_ledgers_def branch_known_def hm_get_def)

definition sample_status :: StoredStatus where
  "sample_status = \<lparr>ss_v = 2, ss_state = ''indexing'', ss_extra = []\<rparr>"

lemma sample_push_status:
  "ef_response (snd (adapter_step (fst sample_run)
     (7, Normal (PushStatus ''orders:main'' (Some StoredStatus_initial) sample_status)))) = StatusUpdated"
  using sample_orders_known
  by (simp add: adapter_step_def apply_entry_def case_prod_beta Let_def sample_run_state apply_versioned_push_def
      VersionedValue_StoredStatus_def sample_split StoredStatus_eq_def StoredStatus_initial_def sample_status_def
      extra_eq_def sample_state_eq sample_stage_def hm_get_def)


definition sample_config :: StoredConfig where
  "sample_config = \<lparr>sc_v = 1, sc_payload = None\<rparr>"

theorem config_push_never_lost_witness:
  "snd (apply_command (ad_state (fst (adapter_step (fst sample_run)
     (7, Normal (PushConfig \<lparr>cu_ledger_id = ''orders:main'', cu_expected = Some StoredConfig_unborn, cu_new = sample_config\<rparr>)))))
     (PushConfig \<lparr>cu_ledger_id = ''orders:main'', cu_expected = Some StoredConfig_unborn,
        cu_new = \<lparr>sc_v = 5, sc_payload = None\<rparr>\<rparr>) 8) \<noteq> ConfigUpdated"
proof (rule config_push_never_lost [OF sample_step_7 _ trace_nil])
  show "ef_response (snd (adapter_step (fst sample_run) (7, Normal (PushConfig \<lparr>cu_ledger_id = ''orders:main'',
      cu_expected = Some StoredConfig_unborn, cu_new = sample_config\<rparr>)))) = ConfigUpdated"
    using sample_orders_known
    by (simp add: adapter_step_def apply_entry_def case_prod_beta Let_def sample_run_state apply_versioned_push_def
        VersionedValue_StoredConfig_def sample_split StoredConfig_eq_def StoredConfig_unborn_def sample_config_def
        sample_state_eq sample_stage_def hm_get_def)
qed

definition sample_cas :: RefCas where
  "sample_cas = \<lparr>rc_ledger_id = ''orders'', rc_branch = ''main'', rc_kind = CommitHead,
     rc_expected = Some \<lparr>rv_id = Some (ContentId [30]), rv_t = 1\<rparr>,
     rc_new = \<lparr>rv_id = Some (ContentId [44]), rv_t = 2\<rparr>, rc_applied_at_millis = 700\<rparr>"

theorem compare_and_set_exact_witness:
  "current_ref_value (fst (apply_compare_and_set_ref sample_state 7 sample_cas)) (RefKey_new ''orders'' ''main'') CommitHead =
     Some \<lparr>rv_id = Some (ContentId [44]), rv_t = 2\<rparr>"
proof -
  have "snd (apply_compare_and_set_ref sample_state 7 sample_cas) = RefCasUpdated"
    by (simp add: sample_state_eq apply_compare_and_set_ref_def current_ref_value_def branch_known_def sample_cas_def
        sample_defs sample_ref_def hm_defs)
  with compare_and_set_exact [of sample_state 7 sample_cas] show ?thesis
    by (simp add: Let_def sample_cas_def)
qed

text \<open>
  A purged and re-created branch keeps its old status: \<open>PurgeBranch\<close> does not clear the status
  record, so on the fresh branch the initial push, which expects the initial status, is refused.
\<close>

theorem status_survives_purge:
  "\<exists>es rs a. raft_trace es rs a \<and> hm_get (st_refs (ad_state a)) (RefKey_new ''orders'' ''main'') = None \<and>
     branch_known (st_ledgers (ad_state a)) ''orders'' ''main'' \<and>
     snd (apply_command (ad_state a) (PushStatus ''orders:main'' (Some StoredStatus_initial) new) j) =
       StatusConflict (Some sample_status)"
proof -
  let ?create = "CreateLedger \<lparr>nl_ledger_id = ''orders'', nl_branch = ''main'', nl_created_at_millis = 900\<rparr>"
  let ?log = "sample_log @ [(7, Normal (PushStatus ''orders:main'' (Some StoredStatus_initial) sample_status)),
    (8, Normal (PurgeBranch ''orders'' ''main'' 800)), (9, Normal ?create)]"
  let ?a = "fst (adapter_apply StateMachineAdapter_new ?log)"
  have tr: "raft_trace ?log (snd (adapter_apply StateMachineAdapter_new ?log)) ?a"
    by (rule adapter_run_trace) (simp add: sample_log_def)
  have push: "fst (apply_command sample_state (PushStatus ''orders:main'' (Some StoredStatus_initial) sample_status) 7) =
      sample_state\<lparr>st_status := [(''orders:main'', sample_status)]\<rparr>"
    using sample_orders_known
    by (simp add: case_prod_beta Let_def apply_versioned_push_def VersionedValue_StoredStatus_def sample_split
        StoredStatus_eq_def StoredStatus_initial_def sample_status_def extra_eq_def sample_state_eq sample_stage_def hm_defs)
  have st: "ad_state ?a = fst (apply_command (fst (apply_command
      (sample_state\<lparr>st_status := [(''orders:main'', sample_status)]\<rparr>) (PurgeBranch ''orders'' ''main'' 800) 8)) ?create 9)"
    unfolding sample_extend_state adapter_apply_state adapter_step_state sample_run_state push ..
  have status: "st_status (ad_state ?a) = [(''orders:main'', sample_status)]"
    unfolding st by (simp add: lifecycle_values)
  have fresh: "hm_get (st_refs (ad_state ?a)) (RefKey_new ''orders'' ''main'') = None"
    "branch_known (st_ledgers (ad_state ?a)) ''orders'' ''main''"
    unfolding st sample_state_eq
    by (simp_all add: purge_branch_def has_children_def unregister_branch_def clear_queue_for_admin_def create_ledger_def
        branch_known_def sample_stage_def sample_ledgers_def sample_ref_def Let_def hm_defs)
  have refuse: "snd (apply_command t (PushStatus ''orders:main'' (Some StoredStatus_initial) new) j) =
      StatusConflict (Some sample_status)"
    if "st_status t = [(''orders:main'', sample_status)]" "branch_known (st_ledgers t) ''orders'' ''main''" for t :: NameServiceState
    using that
    by (simp add: case_prod_beta Let_def apply_versioned_push_def VersionedValue_StoredStatus_def sample_split
        hm_get_def StoredStatus_eq_def StoredStatus_initial_def sample_status_def)
  with tr fresh status show ?thesis by blast
qed

end
