(* ===== verification/RaftOwnership.thy ===== *)
theory RaftOwnership
  imports RaftHeads
begin

text \<open>
  Which node runs the worker of a branch: rendezvous hashing (\<open>raft/ownership.rs\<close>) over the
  eligible voters (\<open>desired_owners\<close> in \<open>raft/commit_worker.rs\<close>). The hash \<open>xxh64\<close> is a third-party
  function; it is a parameter \<open>xxh\<close> of the definitions (bytes and seed to a \<open>u64\<close>), and nothing
  is assumed of it: ties are broken by the node id.
\<close>

section \<open>Rendezvous hashing\<close>

type_synonym hash64 = "nat list \<Rightarrow> nat \<Rightarrow> nat"

definition RENDEZVOUS_SEED :: nat where
  "RENDEZVOUS_SEED = 0x6661656652464252"

definition str_bytes :: "string \<Rightarrow> nat list" where
  "str_bytes s = map of_char s"

definition u64_to_le_bytes :: "nat \<Rightarrow> nat list" where
  "u64_to_le_bytes n = map (\<lambda>i. n div 256 ^ i mod 256) [0..<8]"

definition key_digest :: "hash64 \<Rightarrow> RefKey \<Rightarrow> nat" where
  "key_digest xxh ref_key =
     (let hash = xxh (str_bytes (rk_ledger_name ref_key)) RENDEZVOUS_SEED;
          hash = xxh (str_bytes '':'') hash
      in xxh (str_bytes (rk_branch ref_key)) hash)"

definition rendezvous_score :: "hash64 \<Rightarrow> NodeId \<Rightarrow> nat \<Rightarrow> nat" where
  "rendezvous_score xxh node digest = xxh (u64_to_le_bytes node) digest"

text \<open>\<open>Iterator::max_by_key\<close>: the last of several maximal elements wins.\<close>

fun max_by_key :: "('a \<Rightarrow> 'k::linorder) \<Rightarrow> 'a list \<Rightarrow> 'a option" where
  "max_by_key f [] = None"
| "max_by_key f (x # xs) = Some (fold (\<lambda>y acc. if f acc \<le> f y then y else acc) xs x)"

definition owner :: "hash64 \<Rightarrow> RefKey \<Rightarrow> NodeId list \<Rightarrow> NodeId option" where
  "owner xxh ref_key voters =
     (let digest = key_digest xxh ref_key
      in map_option snd (max_by_key (\<lambda>(score, node). (score, node))
           (map (\<lambda>node. (rendezvous_score xxh node digest, node)) voters)))"

definition desired_owners :: "hash64 \<Rightarrow> NameServiceState \<Rightarrow> NodeId \<Rightarrow> NodeId list \<Rightarrow> RefKey set" where
  "desired_owners xxh state node_id fallback_voters =
     (if st_worker_eligible_voters state \<noteq> {} then
        set (filter (\<lambda>ref_key. owner xxh ref_key (sorted_list_of_set (st_worker_eligible_voters state)) = Some node_id)
          (hm_keys (st_queues state)))
      else if fallback_voters = [] then {}
      else set (filter (\<lambda>ref_key. owner xxh ref_key fallback_voters = Some node_id) (hm_keys (st_queues state))))"

section \<open>The maximum over a list\<close>

lemma fold_max:
  fixes f :: "'a \<Rightarrow> 'k::linorder"
  defines "m xs x \<equiv> fold (\<lambda>y acc. if f acc \<le> f y then y else acc) xs x"
  shows "m xs x \<in> set (x # xs) \<and> (\<forall>y \<in> set (x # xs). f y \<le> f (m xs x))"
  unfolding m_def
proof (induction xs arbitrary: x)
  case (Cons y xs)
  show ?case using Cons.IH [of "if f x \<le> f y then y else x"] by (auto split: if_splits intro: order_trans)
qed simp

lemma max_by_key_SomeD:
  "max_by_key f xs = Some m \<Longrightarrow> m \<in> set xs \<and> (\<forall>y \<in> set xs. f y \<le> f m)"
  using fold_max by (cases xs) fastforce+

lemma max_by_key_None: "max_by_key f xs = None \<longleftrightarrow> xs = []"
  by (cases xs) simp_all

text \<open>The weight of a node for a branch; the owner is the voter of greatest weight.\<close>

definition weight :: "hash64 \<Rightarrow> RefKey \<Rightarrow> NodeId \<Rightarrow> nat \<times> NodeId" where
  "weight xxh k v = (rendezvous_score xxh v (key_digest xxh k), v)"

lemma weight_inject [simp]: "weight xxh k v = weight xxh k w \<longleftrightarrow> v = w"
  by (auto simp: weight_def)

lemma owner_iff:
  "owner xxh k vs = Some v \<longleftrightarrow> v \<in> set vs \<and> (\<forall>w \<in> set vs. weight xxh k w \<le> weight xxh k v)"
proof -
  let ?ws = "map (\<lambda>v. (rendezvous_score xxh v (key_digest xxh k), v)) vs"
  have own: "owner xxh k vs = map_option snd (max_by_key (\<lambda>p. p) ?ws)"
    by (simp add: owner_def case_prod_beta')
  show ?thesis
  proof (cases "max_by_key (\<lambda>p. p) ?ws")
    case None
    then show ?thesis using own by (simp add: max_by_key_None)
  next
    case (Some m)
    have "m \<in> set ?ws" "\<forall>y \<in> set ?ws. y \<le> m" using max_by_key_SomeD [OF Some] by auto
    then obtain u where u: "u \<in> set vs" "m = weight xxh k u" "\<forall>w \<in> set vs. weight xxh k w \<le> weight xxh k u"
      by (auto simp: weight_def)
    have "owner xxh k vs = Some u" using own Some u(2) by (simp add: weight_def)
    moreover have "u = v" if "v \<in> set vs" "\<forall>w \<in> set vs. weight xxh k w \<le> weight xxh k v"
      using that u by (metis antisym weight_inject)
    ultimately show ?thesis using u by auto
  qed
qed

lemma owner_None: "owner xxh k vs = None \<longleftrightarrow> vs = []"
  by (simp add: owner_def Let_def max_by_key_None)

lemma owner_set_cong: "set vs = set ws \<Longrightarrow> owner xxh k vs = owner xxh k ws"
  using owner_iff [of xxh k vs] owner_iff [of xxh k ws] owner_None [of xxh k vs] owner_None [of xxh k ws]
  by (cases "owner xxh k vs"; cases "owner xxh k ws") auto

section \<open>Properties\<close>

text \<open>
  Every branch has exactly one owner. Over a non-empty voter list \<open>owner\<close> returns a voter, the
  one of greatest (score, id); the result depends on the set of voters only, not on their order
  or repetition.
\<close>

theorem owner_total_and_order_independent:
  "(owner xxh k vs = None \<longleftrightarrow> vs = []) \<and>
   (\<forall>v. owner xxh k vs = Some v \<longleftrightarrow> v \<in> set vs \<and>
      (\<forall>w \<in> set vs. (rendezvous_score xxh w (key_digest xxh k), w) \<le> (rendezvous_score xxh v (key_digest xxh k), v))) \<and>
   (\<forall>ws. set ws = set vs \<longrightarrow> owner xxh k ws = owner xxh k vs)"
proof (intro conjI allI impI)
  show "owner xxh k ws = owner xxh k vs" if "set ws = set vs" for ws using that by (rule owner_set_cong)
qed (simp_all add: owner_None owner_iff weight_def)

theorem owner_total_and_order_independent_witness:
  "owner (\<lambda>bs s. sum_list bs + s) (RefKey_new ''orders'' ''main'') [3, 1, 2] =
   owner (\<lambda>bs s. sum_list bs + s) (RefKey_new ''orders'' ''main'') [1, 2, 3]"
proof -
  have "set [3, 1, 2] = set [1, 2, 3 :: nat]" by auto
  with owner_total_and_order_independent [of "\<lambda>bs s. sum_list bs + s" "RefKey_new ''orders'' ''main''" "[1, 2, 3]"]
  show ?thesis by blast
qed

text \<open>
  Membership changes move as few branches as possible. Removing a voter reassigns only the
  branches it owned, and adding a voter only moves branches to that voter.
\<close>

theorem owner_minimal_disruption:
  "(\<forall>v. v \<noteq> n \<longrightarrow> owner xxh k vs = Some v \<longrightarrow> owner xxh k (removeAll n vs) = Some v) \<and>
   (owner xxh k (n # vs) = Some n \<or> owner xxh k (n # vs) = owner xxh k vs)"
proof -
  have "owner xxh k (n # vs) = owner xxh k vs" if "owner xxh k (n # vs) \<noteq> Some n"
  proof (cases "owner xxh k (n # vs)")
    case None
    then show ?thesis by (simp add: owner_None)
  next
    case (Some v)
    then have "owner xxh k vs = Some v" using that by (auto simp: owner_iff)
    then show ?thesis using Some by simp
  qed
  then show ?thesis by (auto simp: owner_iff)
qed

theorem owner_minimal_disruption_witness:
  "owner (\<lambda>bs s. sum_list bs + s) (RefKey_new ''orders'' ''main'') (removeAll 1 [1, 2, 3]) = Some 3"
proof -
  have "owner (\<lambda>bs s. sum_list bs + s) (RefKey_new ''orders'' ''main'') [1, 2, 3] = Some 3"
    by (simp add: owner_iff weight_def rendezvous_score_def u64_to_le_bytes_def upt_rec)
  with owner_minimal_disruption [of 1 "\<lambda>bs s. sum_list bs + s" "RefKey_new ''orders'' ''main''" "[1, 2, 3]"] show ?thesis by auto
qed



text \<open>
  Demoting every voter does not stop the workers. In a reachable state all three configured
  voters are demoted and work is queued; the owners are then computed from the fallback voter
  list, so a demoted voter still wants the branch.
\<close>

theorem all_demoted_still_owned:
  "\<exists>es rs a v. raft_trace es rs a \<and> st_configured_voters (ad_state a) = {1, 2, 3} \<and>
     st_worker_eligible_voters (ad_state a) = {} \<and> v \<in> {1, 2, 3} \<and>
     RefKey_new ''orders'' ''main'' \<in> desired_owners xxh (ad_state a) v [1, 2, 3]"
proof -
  let ?demote = "\<lambda>v. Normal (SetWorkerEligibility \<lparr>we_voter = v, we_eligible = False, we_applied_at_millis = 0\<rparr>)"
  let ?log = "sample_log @ [(7, ?demote 1), (8, ?demote 2), (9, ?demote 3)]"
  let ?a = "fst (adapter_apply StateMachineAdapter_new ?log)"
  have tr: "raft_trace ?log (snd (adapter_apply StateMachineAdapter_new ?log)) ?a"
    by (rule adapter_run_trace) (simp add: sample_log_def)
  have st: "ad_state ?a = sample_state\<lparr>st_worker_eligible_voters := {}\<rparr>"
    unfolding sample_extend_state adapter_apply_state adapter_step_state sample_run_state
    by (auto simp: sample_state_eq sample_stage_def apply_set_worker_eligibility_def)
  obtain v where v: "owner xxh (RefKey_new ''orders'' ''main'') [1, 2, 3] = Some v"
    using owner_None [of xxh "RefKey_new ''orders'' ''main''" "[1, 2, 3]"] by (cases "owner xxh (RefKey_new ''orders'' ''main'') [1, 2, 3]") auto
  then have "v \<in> {1, 2, 3}" by (auto simp: owner_iff)
  moreover have "RefKey_new ''orders'' ''main'' \<in> desired_owners xxh (ad_state ?a) v [1, 2, 3]"
    unfolding st using v by (simp add: desired_owners_def hm_keys_def sample_state_eq sample_stage_def)
  moreover have "st_configured_voters (ad_state ?a) = {1, 2, 3}" "st_worker_eligible_voters (ad_state ?a) = {}"
    unfolding st by (simp_all add: sample_state_eq sample_stage_def)
  ultimately show ?thesis using tr by blast
qed

end
