(* ===== verification/RaftStorage.thy ===== *)
theory RaftStorage
  imports RaftMachine
begin

text \<open>
  The persistence layer under openraft: the types and the log-store trait of \<open>raft/storage.rs\<close>,
  its in-memory backend (\<open>storage/memory.rs\<close>) and the adapter openraft drives
  (\<open>raft/log_adapter.rs\<close>). The trait is a record of operations; its documented contract is the
  locale \<open>log_store\<close> over an abstract log, a list of entries with contiguous indexes.

  An operation takes the store and returns a result with the store after it. \<open>Panic\<close> is a Rust
  panic. Lock poisoning (a panic in another thread) is left out. Of openraft's types the adapter
  uses, built with \<open>single-term-leader\<close>, a committed leader id is its term alone.
\<close>

section \<open>Types\<close>

type_synonym bytes = "nat list"

record LogId =
  lid_term :: nat
  lid_index :: nat

record Vote =
  vt_term :: nat
  vt_candidate :: NodeId
  vt_committed :: bool

record StoredEntry =
  se_log_id :: LogId
  se_payload :: bytes

record LogState =
  ls_last_purged :: "LogId option"
  ls_last_log :: "LogId option"

type_synonym SnapshotId = string

record SnapshotMeta =
  sn_id :: SnapshotId
  sn_last_applied :: "LogId option"
  sn_membership :: bytes

datatype StorageError = Io string | Serialization string | Corruption string | OtherError string

datatype 'a io_result = Ok 'a | Err StorageError | Panic

text \<open>The \<open>?\<close> operator.\<close>

fun bind_io :: "'a io_result \<times> 's \<Rightarrow> ('a \<Rightarrow> 's \<Rightarrow> 'b io_result \<times> 's) \<Rightarrow> 'b io_result \<times> 's" where
  "bind_io (Ok x, s) f = f x s"
| "bind_io (Err e, s) f = (Err e, s)"
| "bind_io (Panic, s) f = (Panic, s)"

text \<open>The trait \<open>RaftLogStore\<close>.\<close>

record 's RaftLogStore =
  rls_append :: "StoredEntry list \<Rightarrow> 's \<Rightarrow> unit io_result \<times> 's"
  rls_read_range :: "nat \<Rightarrow> nat \<Rightarrow> 's \<Rightarrow> StoredEntry list io_result \<times> 's"
  rls_truncate_from :: "nat \<Rightarrow> 's \<Rightarrow> unit io_result \<times> 's"
  rls_purge_through :: "LogId \<Rightarrow> 's \<Rightarrow> unit io_result \<times> 's"
  rls_log_state :: "'s \<Rightarrow> LogState io_result \<times> 's"
  rls_save_vote :: "Vote \<Rightarrow> 's \<Rightarrow> unit io_result \<times> 's"
  rls_read_vote :: "'s \<Rightarrow> Vote option io_result \<times> 's"
  rls_save_committed :: "LogId option \<Rightarrow> 's \<Rightarrow> unit io_result \<times> 's"
  rls_read_committed :: "'s \<Rightarrow> LogId option io_result \<times> 's"

section \<open>The contract\<close>

text \<open>
  The abstract log: what was purged, the live entries with their indexes contiguous from
  \<open>first_index\<close>, the vote and the committed watermark. \<open>base\<close> is the index of the first entry
  of a log nothing was purged from.
\<close>

record log_view =
  lv_purged :: "LogId option"
  lv_entries :: "StoredEntry list"
  lv_vote :: "Vote option"
  lv_committed :: "LogId option"

abbreviation se_index :: "StoredEntry \<Rightarrow> nat" where
  "se_index e \<equiv> lid_index (se_log_id e)"

definition first_index :: "nat \<Rightarrow> log_view \<Rightarrow> nat" where
  "first_index base v = (case lv_purged v of None \<Rightarrow> base | Some p \<Rightarrow> lid_index p + 1)"

definition contiguous :: "nat \<Rightarrow> log_view \<Rightarrow> bool" where
  "contiguous base v \<longleftrightarrow>
     map se_index (lv_entries v) = [first_index base v ..< first_index base v + length (lv_entries v)] \<and>
     first_index base v + length (lv_entries v) < 2 ^ 64"

text \<open>Entries that may be appended: they continue the log.\<close>

definition extends_log :: "nat \<Rightarrow> log_view \<Rightarrow> StoredEntry list \<Rightarrow> bool" where
  "extends_log base v es \<longleftrightarrow> contiguous base (v\<lparr>lv_entries := lv_entries v @ es\<rparr>)"

definition spec_range :: "nat \<Rightarrow> nat \<Rightarrow> log_view \<Rightarrow> StoredEntry list" where
  "spec_range a b v = filter (\<lambda>e. a \<le> se_index e \<and> se_index e < b) (lv_entries v)"

definition spec_truncate :: "nat \<Rightarrow> log_view \<Rightarrow> log_view" where
  "spec_truncate i v = v\<lparr>lv_entries := filter (\<lambda>e. se_index e < i) (lv_entries v)\<rparr>"

definition spec_purge :: "LogId \<Rightarrow> log_view \<Rightarrow> log_view" where
  "spec_purge l v =
     (if \<exists>p. lv_purged v = Some p \<and> lid_index l \<le> lid_index p then v
      else v\<lparr>lv_purged := Some l, lv_entries := filter (\<lambda>e. lid_index l < se_index e) (lv_entries v)\<rparr>)"

definition spec_state :: "log_view \<Rightarrow> LogState" where
  "spec_state v =
     \<lparr>ls_last_purged = lv_purged v,
      ls_last_log = (if lv_entries v = [] then None else Some (se_log_id (last (lv_entries v))))\<rparr>"

definition delivers :: "('s \<Rightarrow> log_view) \<Rightarrow> ('s \<Rightarrow> bool) \<Rightarrow> 'a io_result \<times> 's \<Rightarrow> 'a \<Rightarrow> log_view \<Rightarrow> bool" where
  "delivers view good r x v \<longleftrightarrow> fst r = Ok x \<and> good (snd r) \<and> view (snd r) = v"

locale log_store =
  fixes store :: "'s RaftLogStore" and view :: "'s \<Rightarrow> log_view" and good :: "'s \<Rightarrow> bool" and base :: nat
  assumes base: "base \<le> 1"
    and good_contiguous: "good s \<Longrightarrow> contiguous base (view s)"
    and append: "good s \<Longrightarrow> extends_log base (view s) es \<Longrightarrow>
      delivers view good (rls_append store es s) () ((view s)\<lparr>lv_entries := lv_entries (view s) @ es\<rparr>)"
    and read_range: "good s \<Longrightarrow> a \<le> b \<Longrightarrow> delivers view good (rls_read_range store a b s) (spec_range a b (view s)) (view s)"
    and truncate_from: "good s \<Longrightarrow> delivers view good (rls_truncate_from store i s) () (spec_truncate i (view s))"
    and purge_through: "good s \<Longrightarrow> lid_index l + 1 < 2 ^ 64 \<Longrightarrow>
      delivers view good (rls_purge_through store l s) () (spec_purge l (view s))"
    and log_state: "good s \<Longrightarrow> delivers view good (rls_log_state store s) (spec_state (view s)) (view s)"
    and save_vote: "good s \<Longrightarrow> delivers view good (rls_save_vote store v s) () ((view s)\<lparr>lv_vote := Some v\<rparr>)"
    and read_vote: "good s \<Longrightarrow> delivers view good (rls_read_vote store s) (lv_vote (view s)) (view s)"
    and save_committed: "good s \<Longrightarrow> delivers view good (rls_save_committed store c s) () ((view s)\<lparr>lv_committed := c\<rparr>)"
    and read_committed: "good s \<Longrightarrow> delivers view good (rls_read_committed store s) (lv_committed (view s)) (view s)"

section \<open>Ordered maps\<close>

text \<open>A \<open>BTreeMap\<close> is the list of its pairs in key order.\<close>

fun bt_insert :: "('k::linorder \<times> 'v) list \<Rightarrow> 'k \<Rightarrow> 'v \<Rightarrow> ('k \<times> 'v) list" where
  "bt_insert [] k v = [(k, v)]"
| "bt_insert ((k', v') # m) k v =
     (if k < k' then (k, v) # (k', v') # m
      else if k = k' then (k, v) # m
      else (k', v') # bt_insert m k v)"

definition bt_range :: "('k::linorder \<times> 'v) list \<Rightarrow> 'k \<Rightarrow> 'k \<Rightarrow> ('k \<times> 'v) list option" where
  "bt_range m a b = (if b < a then None else Some (filter (\<lambda>(k, _). a \<le> k \<and> k < b) m))"

lemma bt_insert_last: "\<forall>x \<in> fst ` set m. x < k \<Longrightarrow> bt_insert m k v = m @ [(k, v)]"
  by (induction m k v rule: bt_insert.induct) auto

section \<open>The in-memory backend\<close>

record LogStoreState =
  ms_entries :: "(nat \<times> StoredEntry) list"
  ms_vote :: "Vote option"
  ms_committed :: "LogId option"
  ms_last_purged :: "LogId option"

definition LogStoreState_default :: LogStoreState where
  "LogStoreState_default = \<lparr>ms_entries = [], ms_vote = None, ms_committed = None, ms_last_purged = None\<rparr>"

definition mem_append :: "StoredEntry list \<Rightarrow> LogStoreState \<Rightarrow> unit io_result \<times> LogStoreState" where
  "mem_append entries s =
     (Ok (), s\<lparr>ms_entries := foldl (\<lambda>m entry. bt_insert m (se_index entry) entry) (ms_entries s) entries\<rparr>)"

definition mem_read_range :: "nat \<Rightarrow> nat \<Rightarrow> LogStoreState \<Rightarrow> StoredEntry list io_result \<times> LogStoreState" where
  "mem_read_range a b s = ((case bt_range (ms_entries s) a b of None \<Rightarrow> Panic | Some r \<Rightarrow> Ok (map snd r)), s)"

definition mem_truncate_from :: "nat \<Rightarrow> LogStoreState \<Rightarrow> unit io_result \<times> LogStoreState" where
  "mem_truncate_from from_index s =
     (Ok (), s\<lparr>ms_entries := filter (\<lambda>(k, _). k < from_index) (ms_entries s)\<rparr>)"

definition mem_purge_through :: "LogId \<Rightarrow> LogStoreState \<Rightarrow> unit io_result \<times> LogStoreState" where
  "mem_purge_through log_id s =
     (let s = s\<lparr>ms_entries := filter (\<lambda>(k, _). k > lid_index log_id) (ms_entries s)\<rparr>
      in (Ok (), (case ms_last_purged s of
            Some existing \<Rightarrow>
              if lid_index existing \<ge> lid_index log_id then s else s\<lparr>ms_last_purged := Some log_id\<rparr>
          | None \<Rightarrow> s\<lparr>ms_last_purged := Some log_id\<rparr>)))"

definition mem_log_state :: "LogStoreState \<Rightarrow> LogState io_result \<times> LogStoreState" where
  "mem_log_state s =
     (Ok \<lparr>ls_last_purged = ms_last_purged s,
          ls_last_log = (if ms_entries s = [] then None else Some (se_log_id (snd (last (ms_entries s)))))\<rparr>, s)"

definition mem_save_vote :: "Vote \<Rightarrow> LogStoreState \<Rightarrow> unit io_result \<times> LogStoreState" where
  "mem_save_vote vote s = (Ok (), s\<lparr>ms_vote := Some vote\<rparr>)"

definition mem_read_vote :: "LogStoreState \<Rightarrow> Vote option io_result \<times> LogStoreState" where
  "mem_read_vote s = (Ok (ms_vote s), s)"

definition mem_save_committed :: "LogId option \<Rightarrow> LogStoreState \<Rightarrow> unit io_result \<times> LogStoreState" where
  "mem_save_committed log_id s = (Ok (), s\<lparr>ms_committed := log_id\<rparr>)"

definition mem_read_committed :: "LogStoreState \<Rightarrow> LogId option io_result \<times> LogStoreState" where
  "mem_read_committed s = (Ok (ms_committed s), s)"

definition MemoryRaftLogStore :: "LogStoreState RaftLogStore" where
  "MemoryRaftLogStore =
     \<lparr>rls_append = mem_append, rls_read_range = mem_read_range, rls_truncate_from = mem_truncate_from,
      rls_purge_through = mem_purge_through, rls_log_state = mem_log_state, rls_save_vote = mem_save_vote,
      rls_read_vote = mem_read_vote, rls_save_committed = mem_save_committed,
      rls_read_committed = mem_read_committed\<rparr>"

lemmas mem_defs = mem_append_def mem_read_range_def mem_truncate_from_def mem_purge_through_def mem_log_state_def
  mem_save_vote_def mem_read_vote_def mem_save_committed_def mem_read_committed_def

definition mem_view :: "LogStoreState \<Rightarrow> log_view" where
  "mem_view s =
     \<lparr>lv_purged = ms_last_purged s, lv_entries = map snd (ms_entries s), lv_vote = ms_vote s,
      lv_committed = ms_committed s\<rparr>"

definition mem_good :: "LogStoreState \<Rightarrow> bool" where
  "mem_good s \<longleftrightarrow> (\<forall>(k, e) \<in> set (ms_entries s). k = se_index e) \<and> contiguous 0 (mem_view s)"

section \<open>Contiguous logs\<close>

lemma filter_less_upt: "filter (\<lambda>x. x < i) [a ..< b] = [a ..< min i b]"
  by (induction b) (auto simp: min_def not_less dest: le_antisym [OF Suc_leI])

lemma map_filter_key: "map f (filter (\<lambda>x. P (f x)) xs) = filter P (map f xs)"
  by (simp add: filter_map o_def)

lemma filter_greater_upt: "filter (\<lambda>x. i < x) [a ..< b] = [max (Suc i) a ..< b]"
  by (induction b) (auto simp: max_def not_less le_Suc_eq)

lemma upt_length: "map f xs = [a ..< b] \<Longrightarrow> map f xs = [a ..< a + length xs] \<and> a + length xs = max a b"
  by (cases "a \<le> b") (auto dest: arg_cong [of _ _ length])

lemma contiguousI:
  assumes "map se_index (lv_entries w) = [a ..< b]" "first_index base w = a" "max a b < 2 ^ 64"
  shows "contiguous base w"
  using upt_length [OF assms(1)] assms(2,3) unfolding contiguous_def by metis

lemma contiguous_truncate: "contiguous base v \<Longrightarrow> contiguous base (spec_truncate i v)"
proof (rule contiguousI)
  assume c: "contiguous base v"
  show "map se_index (lv_entries (spec_truncate i v)) = [first_index base v ..< min i (first_index base v + length (lv_entries v))]"
    using c map_filter_key [where P = "\<lambda>x. x < i" and f = se_index and xs = "lv_entries v"]
    by (simp add: contiguous_def spec_truncate_def filter_less_upt)
  show "max (first_index base v) (min i (first_index base v + length (lv_entries v))) < 2 ^ 64"
    using c unfolding contiguous_def by linarith
qed (simp add: first_index_def spec_truncate_def)

lemma contiguous_purge:
  assumes c: "contiguous base v" and b: "base \<le> 1" and l: "lid_index l + 1 < 2 ^ 64"
  shows "contiguous base (spec_purge l v)"
proof (cases "\<exists>p. lv_purged v = Some p \<and> lid_index l \<le> lid_index p")
  case False
  let ?f = "first_index base v"
  have f: "?f \<le> Suc (lid_index l)" using False b by (auto simp: first_index_def split: option.splits)
  have purged: "spec_purge l v = v\<lparr>lv_purged := Some l, lv_entries := filter (\<lambda>e. lid_index l < se_index e) (lv_entries v)\<rparr>"
    unfolding spec_purge_def by (rule if_not_P [OF False])
  show ?thesis
  proof (rule contiguousI)
    show "map se_index (lv_entries (spec_purge l v)) = [Suc (lid_index l) ..< ?f + length (lv_entries v)]"
      using c f map_filter_key [where P = "\<lambda>x. lid_index l < x" and f = se_index and xs = "lv_entries v"]
      by (simp add: contiguous_def purged filter_greater_upt max_def)
    show "first_index base (spec_purge l v) = Suc (lid_index l)" by (simp add: first_index_def purged)
    show "max (Suc (lid_index l)) (?f + length (lv_entries v)) < 2 ^ 64" using c l unfolding contiguous_def by linarith
  qed
qed (use c in \<open>simp add: spec_purge_def\<close>)

section \<open>The in-memory backend keeps the contract\<close>

lemma mem_append_entries:
  assumes "map fst m @ map se_index es = [a ..< b]"
  shows "foldl (\<lambda>m e. bt_insert m (se_index e) e) m es = m @ map (\<lambda>e. (se_index e, e)) es"
  using assms
proof (induction es arbitrary: m)
  case (Cons e es)
  have "sorted_wrt (<) (map fst m @ se_index e # map se_index es)" using Cons.prems by (simp add: strict_sorted_iff)
  then have "bt_insert m (se_index e) e = m @ [(se_index e, e)]"
    by (intro bt_insert_last) (auto simp: sorted_wrt_append)
  then show ?case using Cons.IH [of "m @ [(se_index e, e)]"] Cons.prems by simp
qed simp

lemma mem_keys: "mem_good s \<Longrightarrow> map fst (ms_entries s) = map se_index (map snd (ms_entries s))"
  by (force simp: mem_good_def)

lemma mem_filter:
  "mem_good s \<Longrightarrow> map snd (filter (\<lambda>(k, _). P k) (ms_entries s)) = filter (\<lambda>e. P (se_index e)) (map snd (ms_entries s))"
  unfolding filter_map o_def by (rule arg_cong [of _ _ "map snd"], rule filter_cong) (auto simp: mem_good_def)

lemma mem_good_view:
  "mem_good s \<longleftrightarrow> (\<forall>(k, e) \<in> set (ms_entries s). k = se_index e) \<and> contiguous 0 (mem_view s)"
  by (rule mem_good_def)

lemma mem_append_delivers:
  assumes "mem_good s" "extends_log 0 (mem_view s) es"
  shows "delivers mem_view mem_good (mem_append es s) () ((mem_view s)\<lparr>lv_entries := lv_entries (mem_view s) @ es\<rparr>)"
proof -
  have c: "contiguous 0 ((mem_view s)\<lparr>lv_entries := map snd (ms_entries s) @ es\<rparr>)"
    using assms(2) by (simp add: extends_log_def mem_view_def)
  then have "map fst (ms_entries s) @ map se_index es = [first_index 0 (mem_view s) ..< first_index 0 (mem_view s) + length (map snd (ms_entries s) @ es)]"
    by (simp add: contiguous_def mem_keys [OF assms(1)] first_index_def)
  note eq = mem_append_entries [OF this]
  have "map (\<lambda>x. snd (se_index x, x)) es = es" by simp
  with c assms(1) eq show ?thesis
    by (auto simp: delivers_def mem_append_def mem_good_def mem_view_def o_def)
qed

lemma mem_truncate_delivers:
  assumes "mem_good s"
  shows "delivers mem_view mem_good (mem_truncate_from i s) () (spec_truncate i (mem_view s))"
proof -
  have v: "mem_view (snd (mem_truncate_from i s)) = spec_truncate i (mem_view s)"
    using mem_filter [OF assms, of "\<lambda>k. k < i"] by (simp add: mem_truncate_from_def mem_view_def spec_truncate_def)
  moreover have "contiguous 0 (spec_truncate i (mem_view s))"
    using assms by (simp add: mem_good_def contiguous_truncate)
  ultimately show ?thesis using assms by (auto simp: delivers_def mem_good_view v mem_truncate_from_def)
qed

lemma mem_purge_delivers:
  assumes "mem_good s" "lid_index l + 1 < 2 ^ 64"
  shows "delivers mem_view mem_good (mem_purge_through l s) () (spec_purge l (mem_view s))"
proof -
  have keep: "filter (\<lambda>e. lid_index l < se_index e) (map snd (ms_entries s)) = map snd (ms_entries s)"
    if "ms_last_purged s = Some p" "lid_index l \<le> lid_index p" for p
  proof (rule filter_True, rule ballI)
    fix e assume "e \<in> set (map snd (ms_entries s))"
    then have "se_index e \<in> set (map se_index (map snd (ms_entries s)))" by force
    also have "\<dots> \<subseteq> {first_index 0 (mem_view s) ..}"
      using assms(1) by (auto simp: mem_good_def contiguous_def mem_view_def)
    finally show "lid_index l < se_index e" using that by (simp add: first_index_def mem_view_def)
  qed
  have v: "mem_view (snd (mem_purge_through l s)) = spec_purge l (mem_view s)"
    using mem_filter [OF assms(1), of "\<lambda>k. k > lid_index l"] keep
    by (auto simp: mem_purge_through_def mem_view_def spec_purge_def Let_def split: option.split)
  moreover have "contiguous 0 (spec_purge l (mem_view s))"
    using assms by (simp add: mem_good_def contiguous_purge)
  moreover have "\<forall>(k, e) \<in> set (ms_entries (snd (mem_purge_through l s))). k = se_index e"
    using assms(1) by (auto simp: mem_good_def mem_purge_through_def Let_def split: option.split)
  ultimately show ?thesis
    by (simp add: delivers_def mem_good_view v) (simp add: mem_purge_through_def Let_def)
qed

interpretation mem: log_store MemoryRaftLogStore mem_view mem_good 0
proof
  fix s assume good: "mem_good s"
  show "contiguous 0 (mem_view s)" using good by (simp add: mem_good_def)
  show "delivers mem_view mem_good (rls_append MemoryRaftLogStore es s) () ((mem_view s)\<lparr>lv_entries := lv_entries (mem_view s) @ es\<rparr>)"
    if "extends_log 0 (mem_view s) es" for es
    using mem_append_delivers [OF good that] by (simp add: MemoryRaftLogStore_def)
  show "delivers mem_view mem_good (rls_read_range MemoryRaftLogStore a b s) (spec_range a b (mem_view s)) (mem_view s)"
    if "a \<le> b" for a b
    using that good mem_filter [OF good, of "\<lambda>k. a \<le> k \<and> k < b"]
    by (simp add: MemoryRaftLogStore_def delivers_def mem_read_range_def bt_range_def spec_range_def mem_view_def)
  show "delivers mem_view mem_good (rls_truncate_from MemoryRaftLogStore i s) () (spec_truncate i (mem_view s))" for i
    using mem_truncate_delivers [OF good] by (simp add: MemoryRaftLogStore_def)
  show "delivers mem_view mem_good (rls_purge_through MemoryRaftLogStore l s) () (spec_purge l (mem_view s))"
    if "lid_index l + 1 < 2 ^ 64" for l
    using mem_purge_delivers [OF good that] by (simp add: MemoryRaftLogStore_def)
qed (auto simp: MemoryRaftLogStore_def delivers_def mem_defs spec_state_def mem_view_def mem_good_def contiguous_def
    first_index_def last_map)

section \<open>The openraft adapter\<close>

text \<open>
  \<open>postcard\<close> is a third-party serializer: a codec is a parameter, and \<open>codec_ok\<close> says that it
  encodes the values of a set and decodes what it encoded. openraft's wrapping of an error (subject and
  verb) is left out.
\<close>

record 'a codec =
  cd_enc :: "'a \<Rightarrow> bytes option"
  cd_dec :: "bytes \<Rightarrow> 'a option"

definition codec_ok :: "'a codec \<Rightarrow> 'a set \<Rightarrow> bool" where
  "codec_ok c A \<longleftrightarrow> (\<forall>x \<in> A. \<exists>b. cd_enc c x = Some b \<and> cd_dec c b = Some x)"

record OrLogId =
  ol_term :: nat
  ol_index :: nat

record OrVote =
  ov_term :: nat
  ov_voted_for :: "NodeId option"
  ov_committed :: bool

record OrLogState =
  os_last_purged_log_id :: "OrLogId option"
  os_last_log_id :: "OrLogId option"

record OrEntry =
  oe_log_id :: OrLogId
  oe_payload :: EntryPayload

datatype Bound = Included nat | Excluded nat | Unbounded

definition to_openraft_log_id :: "LogId \<Rightarrow> OrLogId" where
  "to_openraft_log_id l = \<lparr>ol_term = lid_term l, ol_index = lid_index l\<rparr>"

definition from_openraft_log_id :: "OrLogId \<Rightarrow> LogId" where
  "from_openraft_log_id l = \<lparr>lid_term = ol_term l, lid_index = ol_index l\<rparr>"

definition to_openraft_vote :: "Vote \<Rightarrow> OrVote" where
  "to_openraft_vote v =
     \<lparr>ov_term = vt_term v, ov_voted_for = Some (vt_candidate v), ov_committed = vt_committed v\<rparr>"

definition from_openraft_vote :: "OrVote \<Rightarrow> Vote option" where
  "from_openraft_vote v =
     (case ov_voted_for v of
        None \<Rightarrow> None
      | Some c \<Rightarrow> Some \<lparr>vt_term = ov_term v, vt_candidate = c, vt_committed = ov_committed v\<rparr>)"

definition to_openraft_log_state :: "LogState \<Rightarrow> OrLogState" where
  "to_openraft_log_state s =
     (let last_purged = map_option to_openraft_log_id (ls_last_purged s);
          last_log = (case map_option to_openraft_log_id (ls_last_log s) of
              Some l \<Rightarrow> Some l | None \<Rightarrow> last_purged)
      in \<lparr>os_last_purged_log_id = last_purged, os_last_log_id = last_log\<rparr>)"

definition u64_saturating_succ :: "nat \<Rightarrow> nat" where
  "u64_saturating_succ n = min (n + 1) (2 ^ 64 - 1)"

fun resolve_range :: "Bound \<Rightarrow> Bound \<Rightarrow> nat \<times> nat" where
  "resolve_range start_bound end_bound =
     ((case start_bound of Included n \<Rightarrow> n | Excluded n \<Rightarrow> u64_saturating_succ n | Unbounded \<Rightarrow> 0),
      (case end_bound of Included n \<Rightarrow> u64_saturating_succ n | Excluded n \<Rightarrow> n | Unbounded \<Rightarrow> 2 ^ 64 - 1))"

fun deserialize_entries :: "OrEntry codec \<Rightarrow> StoredEntry list \<Rightarrow> OrEntry list io_result" where
  "deserialize_entries pc [] = Ok []"
| "deserialize_entries pc (raw # rest) =
     (case cd_dec pc (se_payload raw) of
        None \<Rightarrow> Err (Serialization ''entry'')
      | Some e \<Rightarrow>
          (case deserialize_entries pc rest of Ok es \<Rightarrow> Ok (e # es) | Err x \<Rightarrow> Err x | Panic \<Rightarrow> Panic))"

fun serialize_entries :: "OrEntry codec \<Rightarrow> OrEntry list \<Rightarrow> StoredEntry list option" where
  "serialize_entries pc [] = Some []"
| "serialize_entries pc (e # es) =
     (case cd_enc pc e of
        None \<Rightarrow> None
      | Some payload \<Rightarrow>
          map_option (\<lambda>rest. \<lparr>se_log_id = from_openraft_log_id (oe_log_id e), se_payload = payload\<rparr> # rest)
            (serialize_entries pc es))"

definition try_get_log_entries ::
  "'s RaftLogStore \<Rightarrow> OrEntry codec \<Rightarrow> Bound \<Rightarrow> Bound \<Rightarrow> 's \<Rightarrow> OrEntry list io_result \<times> 's" where
  "try_get_log_entries store pc start_bound end_bound s =
     (let (a, b) = resolve_range start_bound end_bound
      in bind_io (rls_read_range store a b s) (\<lambda>raw s. (deserialize_entries pc raw, s)))"

definition get_log_state :: "'s RaftLogStore \<Rightarrow> 's \<Rightarrow> OrLogState io_result \<times> 's" where
  "get_log_state store s = bind_io (rls_log_state store s) (\<lambda>state s. (Ok (to_openraft_log_state state), s))"

definition la_save_vote :: "'s RaftLogStore \<Rightarrow> OrVote \<Rightarrow> 's \<Rightarrow> unit io_result \<times> 's" where
  "la_save_vote store vote s =
     (case from_openraft_vote vote of
        None \<Rightarrow> (Err (OtherError ''openraft attempted to save a vote with no voted_for''), s)
      | Some ours \<Rightarrow> rls_save_vote store ours s)"

definition la_read_vote :: "'s RaftLogStore \<Rightarrow> 's \<Rightarrow> OrVote option io_result \<times> 's" where
  "la_read_vote store s = bind_io (rls_read_vote store s) (\<lambda>ours s. (Ok (map_option to_openraft_vote ours), s))"

definition la_save_committed :: "'s RaftLogStore \<Rightarrow> OrLogId option \<Rightarrow> 's \<Rightarrow> unit io_result \<times> 's" where
  "la_save_committed store committed s = rls_save_committed store (map_option from_openraft_log_id committed) s"

definition la_read_committed :: "'s RaftLogStore \<Rightarrow> 's \<Rightarrow> OrLogId option io_result \<times> 's" where
  "la_read_committed store s =
     bind_io (rls_read_committed store s) (\<lambda>ours s. (Ok (map_option to_openraft_log_id ours), s))"

text \<open>The last component is what \<open>callback.log_io_completed\<close> is told, if it is called.\<close>

definition la_append ::
  "'s RaftLogStore \<Rightarrow> OrEntry codec \<Rightarrow> OrEntry list \<Rightarrow> 's \<Rightarrow> (unit io_result \<times> 's) \<times> bool option" where
  "la_append store pc entries s =
     (case serialize_entries pc entries of
        None \<Rightarrow> ((Err (Serialization ''entry''), s), None)
      | Some ours \<Rightarrow>
          (case rls_append store ours s of
             (Ok u, s') \<Rightarrow> ((Ok (), s'), Some True)
           | (Err e, s') \<Rightarrow> ((Err e, s'), Some False)
           | (Panic, s') \<Rightarrow> ((Panic, s'), None)))"

definition la_truncate :: "'s RaftLogStore \<Rightarrow> OrLogId \<Rightarrow> 's \<Rightarrow> unit io_result \<times> 's" where
  "la_truncate store log_id s = rls_truncate_from store (ol_index log_id) s"

definition la_purge :: "'s RaftLogStore \<Rightarrow> OrLogId \<Rightarrow> 's \<Rightarrow> unit io_result \<times> 's" where
  "la_purge store log_id s = rls_purge_through store (from_openraft_log_id log_id) s"

section \<open>What openraft is promised\<close>

text \<open>The log as openraft sees it, and what the adapter's writes do to it.\<close>

record OrLog =
  or_purged :: "OrLogId option"
  or_entries :: "OrEntry list"
  or_vote :: "OrVote option"
  or_committed :: "OrLogId option"

definition OrLog_empty :: OrLog where
  "OrLog_empty = \<lparr>or_purged = None, or_entries = [], or_vote = None, or_committed = None\<rparr>"

datatype LogAction =
    LA_Append "OrEntry list"
  | LA_Truncate OrLogId
  | LA_Purge OrLogId
  | LA_SaveVote OrVote
  | LA_SaveCommitted "OrLogId option"

abbreviation oe_index :: "OrEntry \<Rightarrow> nat" where
  "oe_index e \<equiv> ol_index (oe_log_id e)"

fun or_step :: "OrLog \<Rightarrow> LogAction \<Rightarrow> OrLog" where
  "or_step l (LA_Append es) = l\<lparr>or_entries := or_entries l @ es\<rparr>"
| "or_step l (LA_Truncate i) = l\<lparr>or_entries := filter (\<lambda>e. oe_index e < ol_index i) (or_entries l)\<rparr>"
| "or_step l (LA_Purge i) =
     (if \<exists>p. or_purged l = Some p \<and> ol_index i \<le> ol_index p then l
      else l\<lparr>or_purged := Some i, or_entries := filter (\<lambda>e. ol_index i < oe_index e) (or_entries l)\<rparr>)"
| "or_step l (LA_SaveVote v) = l\<lparr>or_vote := Some v\<rparr>"
| "or_step l (LA_SaveCommitted c) = l\<lparr>or_committed := c\<rparr>"

fun la_step :: "'s RaftLogStore \<Rightarrow> OrEntry codec \<Rightarrow> LogAction \<Rightarrow> 's \<Rightarrow> unit io_result \<times> 's" where
  "la_step store pc (LA_Append es) s = fst (la_append store pc es s)"
| "la_step store pc (LA_Truncate i) s = la_truncate store i s"
| "la_step store pc (LA_Purge i) s = la_purge store i s"
| "la_step store pc (LA_SaveVote v) s = la_save_vote store v s"
| "la_step store pc (LA_SaveCommitted c) s = la_save_committed store c s"

text \<open>What openraft respects: appends continue the log, indexes are \<open>u64\<close>, a saved vote is for somebody.\<close>

definition or_first :: "nat \<Rightarrow> OrLog \<Rightarrow> nat" where
  "or_first base l = (case or_purged l of None \<Rightarrow> base | Some p \<Rightarrow> ol_index p + 1)"

fun or_ok :: "nat \<Rightarrow> OrLog \<Rightarrow> LogAction \<Rightarrow> bool" where
  "or_ok base l (LA_Append es) \<longleftrightarrow>
     map oe_index es = [or_first base l + length (or_entries l) ..< or_first base l + length (or_entries l) + length es] \<and>
     or_first base l + length (or_entries l) + length es < 2 ^ 64"
| "or_ok base l (LA_Truncate i) \<longleftrightarrow> True"
| "or_ok base l (LA_Purge i) \<longleftrightarrow> ol_index i + 1 < 2 ^ 64"
| "or_ok base l (LA_SaveVote v) \<longleftrightarrow> ov_voted_for v \<noteq> None"
| "or_ok base l (LA_SaveCommitted c) \<longleftrightarrow> True"

fun la_run :: "'s RaftLogStore \<Rightarrow> OrEntry codec \<Rightarrow> LogAction list \<Rightarrow> 's \<Rightarrow> unit io_result \<times> 's" where
  "la_run store pc [] s = (Ok (), s)"
| "la_run store pc (a # as) s = bind_io (la_step store pc a s) (\<lambda>_ s. la_run store pc as s)"

fun or_run_ok :: "nat \<Rightarrow> OrLog \<Rightarrow> LogAction list \<Rightarrow> bool" where
  "or_run_ok base l [] \<longleftrightarrow> True"
| "or_run_ok base l (a # as) \<longleftrightarrow> or_ok base l a \<and> or_run_ok base (or_step l a) as"

definition written :: "LogAction list \<Rightarrow> OrEntry set" where
  "written as = \<Union> ((\<lambda>a. case a of LA_Append es \<Rightarrow> set es | _ \<Rightarrow> {}) ` set as)"

text \<open>The stored form of openraft's log.\<close>

definition stored :: "OrEntry codec \<Rightarrow> OrEntry \<Rightarrow> StoredEntry" where
  "stored pc e = \<lparr>se_log_id = from_openraft_log_id (oe_log_id e), se_payload = the (cd_enc pc e)\<rparr>"

definition or_view :: "OrEntry codec \<Rightarrow> OrLog \<Rightarrow> log_view" where
  "or_view pc l =
     \<lparr>lv_purged = map_option from_openraft_log_id (or_purged l), lv_entries = map (stored pc) (or_entries l),
      lv_vote = Option.bind (or_vote l) from_openraft_vote, lv_committed = map_option from_openraft_log_id (or_committed l)\<rparr>"

text \<open>The answers of the adapter's reads on that log.\<close>

definition or_state :: "OrLog \<Rightarrow> OrLogState" where
  "or_state l =
     \<lparr>os_last_purged_log_id = or_purged l,
      os_last_log_id = (if or_entries l = [] then or_purged l else Some (oe_log_id (last (or_entries l))))\<rparr>"

definition serves :: "'s RaftLogStore \<Rightarrow> OrEntry codec \<Rightarrow> OrLog \<Rightarrow> 's \<Rightarrow> bool" where
  "serves store pc l s \<longleftrightarrow>
     (\<forall>a b i j. resolve_range a b = (i, j) \<and> i \<le> j \<longrightarrow>
        fst (try_get_log_entries store pc a b s) = Ok (filter (\<lambda>e. i \<le> oe_index e \<and> oe_index e < j) (or_entries l))) \<and>
     fst (get_log_state store s) = Ok (or_state l) \<and>
     fst (la_read_vote store s) = Ok (or_vote l) \<and>
     fst (la_read_committed store s) = Ok (or_committed l)"

lemma log_id_round_trip [simp]:
  "to_openraft_log_id (from_openraft_log_id l) = l" "from_openraft_log_id (to_openraft_log_id k) = k"
  by (simp_all add: to_openraft_log_id_def from_openraft_log_id_def)

lemma log_id_round_trip_option [simp]:
  "map_option to_openraft_log_id (map_option from_openraft_log_id x) = x"
  by (cases x) (simp_all add: to_openraft_log_id_def from_openraft_log_id_def)

lemma from_openraft_log_id_index [simp]: "lid_index (from_openraft_log_id l) = ol_index l"
  by (simp add: from_openraft_log_id_def)

lemma stored_index [simp]: "se_log_id (stored pc e) = from_openraft_log_id (oe_log_id e)"
  by (simp add: stored_def)

lemma serialize_stored: "codec_ok pc A \<Longrightarrow> set es \<subseteq> A \<Longrightarrow> serialize_entries pc es = Some (map (stored pc) es)"
proof (induction es)
  case (Cons e es)
  obtain b where "cd_enc pc e = Some b" using Cons.prems unfolding codec_ok_def by force
  then show ?case using Cons by (simp add: stored_def)
qed simp

lemma deserialize_stored: "codec_ok pc A \<Longrightarrow> set es \<subseteq> A \<Longrightarrow> deserialize_entries pc (map (stored pc) es) = Ok es"
proof (induction es)
  case (Cons e es)
  obtain b where "cd_enc pc e = Some b" "cd_dec pc b = Some e" using Cons.prems unfolding codec_ok_def by force
  then show ?case using Cons by (simp add: stored_def)
qed simp

lemma vote_round_trip: "ov_voted_for v \<noteq> None \<Longrightarrow> map_option to_openraft_vote (from_openraft_vote v) = Some v"
  by (auto simp: from_openraft_vote_def to_openraft_vote_def)

lemma or_first_index:
  "first_index base \<lparr>lv_purged = map_option from_openraft_log_id (or_purged l), lv_entries = es, lv_vote = v, lv_committed = c\<rparr> = or_first base l"
  by (simp add: first_index_def or_first_def split: option.split)

lemma or_run_vote:
  "or_run_ok base l as \<Longrightarrow> \<forall>v. or_vote l = Some v \<longrightarrow> ov_voted_for v \<noteq> None \<Longrightarrow>
   \<forall>v. or_vote (foldl or_step l as) = Some v \<longrightarrow> ov_voted_for v \<noteq> None"
proof (induction as arbitrary: l)
  case (Cons a as)
  have "\<forall>v. or_vote (or_step l a) = Some v \<longrightarrow> ov_voted_for v \<noteq> None" using Cons.prems by (cases a) auto
  from Cons.IH [OF _ this] Cons.prems(1) show ?case by simp
qed simp

lemma or_run_entries: "set (or_entries (foldl or_step l as)) \<subseteq> set (or_entries l) \<union> written as"
proof (induction as arbitrary: l)
  case (Cons a as)
  have "set (or_entries (or_step l a)) \<subseteq> set (or_entries l) \<union> written [a]" by (cases a) (auto simp: written_def)
  with Cons.IH [of "or_step l a"] show ?case by (auto simp: written_def)
qed simp

context log_store
begin

lemma la_step_sim:
  assumes "good s" "view s = or_view pc l" "codec_ok pc A" "or_ok base l a" "written [a] \<subseteq> A"
  shows "delivers view good (la_step store pc a s) () (or_view pc (or_step l a))"
proof (cases a)
  case (LA_Append es)
  let ?f = "or_first base l" and ?n = "length (or_entries l)"
  have "contiguous base (or_view pc l)" using good_contiguous [OF assms(1)] assms(2) by simp
  then have "map oe_index (or_entries l) = [?f ..< ?f + ?n]"
    by (simp add: contiguous_def or_view_def or_first_index o_def)
  then have "map oe_index (or_entries l @ es) = [?f ..< ?f + ?n + length es]"
    using assms(4) LA_Append by (simp add: upt_add_eq_append [symmetric])
  then have "extends_log base (view s) (map (stored pc) es)"
    using assms(4) LA_Append
    by (simp add: extends_log_def contiguous_def assms(2) or_view_def or_first_index o_def add.assoc)
  from append [OF assms(1) this] show ?thesis
    using LA_Append assms(2) assms(5)
    by (auto simp: la_append_def serialize_stored [OF assms(3)] written_def delivers_def or_view_def
        split: io_result.splits prod.splits)
next
  case (LA_Truncate i)
  then show ?thesis using truncate_from [OF assms(1), of "ol_index i"] assms(2)
    by (simp add: la_truncate_def spec_truncate_def or_view_def filter_map o_def)
next
  case (LA_Purge i)
  then show ?thesis using purge_through [OF assms(1), of "from_openraft_log_id i"] assms(2,4)
    by (cases "or_purged l") (simp_all add: la_purge_def spec_purge_def or_view_def filter_map o_def split: if_splits)
next
  case (LA_SaveVote v)
  obtain w where "from_openraft_vote v = Some w" using assms(4) LA_SaveVote by (auto simp: from_openraft_vote_def)
  then show ?thesis using LA_SaveVote save_vote [OF assms(1)] assms(2) by (simp add: la_save_vote_def or_view_def)
next
  case (LA_SaveCommitted c)
  then show ?thesis using save_committed [OF assms(1)] assms(2) by (simp add: la_save_committed_def or_view_def)
qed

lemma la_run_sim:
  assumes "codec_ok pc A"
  shows "good s \<Longrightarrow> view s = or_view pc l \<Longrightarrow> or_run_ok base l as \<Longrightarrow> written as \<subseteq> A \<Longrightarrow>
    delivers view good (la_run store pc as s) () (or_view pc (foldl or_step l as))"
proof (induction as arbitrary: s l)
  case Nil
  then show ?case by (simp add: delivers_def)
next
  case (Cons a as)
  have d: "delivers view good (la_step store pc a s) () (or_view pc (or_step l a))"
    using Cons.prems by (intro la_step_sim [OF _ _ assms]) (auto simp: written_def)
  then obtain s' where "la_step store pc a s = (Ok (), s')" by (cases "la_step store pc a s") (auto simp: delivers_def)
  then show ?case using d Cons.IH [of s' "or_step l a"] Cons.prems(3,4) by (simp add: delivers_def written_def)
qed

lemma view_serves:
  assumes "good s" "view s = or_view pc l" "codec_ok pc A" "set (or_entries l) \<subseteq> A" "\<forall>v. or_vote l = Some v \<longrightarrow> ov_voted_for v \<noteq> None"
  shows "serves store pc l s"
  unfolding serves_def
proof (intro conjI allI impI)
  fix a b i j assume ij: "resolve_range a b = (i, j) \<and> i \<le> j"
  have "fst (rls_read_range store i j s) = Ok (map (stored pc) (filter (\<lambda>e. i \<le> oe_index e \<and> oe_index e < j) (or_entries l)))"
    using read_range [OF assms(1), of i j] ij assms(2) by (simp add: delivers_def spec_range_def or_view_def filter_map o_def)
  then show "fst (try_get_log_entries store pc a b s) = Ok (filter (\<lambda>e. i \<le> oe_index e \<and> oe_index e < j) (or_entries l))"
    using ij by (cases "rls_read_range store i j s") (simp add: try_get_log_entries_def deserialize_stored [OF assms(3) subset_trans [OF filter_is_subset assms(4)]])
next
  show "fst (get_log_state store s) = Ok (or_state l)"
    using log_state [OF assms(1)] assms(2)
    by (cases "rls_log_state store s")
      (auto simp: delivers_def get_log_state_def spec_state_def or_view_def or_state_def to_openraft_log_state_def
        Let_def last_map split: option.split)
  show "fst (la_read_vote store s) = Ok (or_vote l)"
    using read_vote [OF assms(1)] assms(2,5) vote_round_trip
    by (cases "rls_read_vote store s"; cases "or_vote l") (auto simp: delivers_def la_read_vote_def or_view_def)
  show "fst (la_read_committed store s) = Ok (or_committed l)"
    using read_committed [OF assms(1)] assms(2)
    by (cases "rls_read_committed store s") (auto simp: delivers_def la_read_committed_def or_view_def)
qed

lemma la_run_serves:
  assumes "codec_ok pc (written as)" "good s" "view s = or_view pc OrLog_empty" "or_run_ok base OrLog_empty as"
  shows "fst (la_run store pc as s) = Ok () \<and> serves store pc (foldl or_step OrLog_empty as) (snd (la_run store pc as s))"
proof -
  have "\<forall>v. or_vote (foldl or_step OrLog_empty as) = Some v \<longrightarrow> ov_voted_for v \<noteq> None"
    using or_run_vote [OF assms(4)] by (simp add: OrLog_empty_def)
  moreover have "delivers view good (la_run store pc as s) () (or_view pc (foldl or_step OrLog_empty as))"
    using assms by (intro la_run_sim) auto
  moreover have "set (or_entries (foldl or_step OrLog_empty as)) \<subseteq> written as"
    using or_run_entries [of OrLog_empty as] by (simp add: OrLog_empty_def)
  ultimately show ?thesis using view_serves [OF _ _ assms(1)] by (simp add: delivers_def)
qed

end

section \<open>A sample\<close>

text \<open>A codec of blank entries, and a sequence of writes: four entries, one cut off, one purged.\<close>

definition sample_codec :: "OrEntry codec" where
  "sample_codec =
     \<lparr>cd_enc = (\<lambda>e. Some [ol_term (oe_log_id e), oe_index e]),
      cd_dec = (\<lambda>b. Some \<lparr>oe_log_id = \<lparr>ol_term = b ! 0, ol_index = b ! 1\<rparr>, oe_payload = Blank\<rparr>)\<rparr>"

definition blank_entry :: "nat \<Rightarrow> nat \<Rightarrow> OrEntry" where
  "blank_entry t i = \<lparr>oe_log_id = \<lparr>ol_term = t, ol_index = i\<rparr>, oe_payload = Blank\<rparr>"

definition sample_writes :: "nat \<Rightarrow> LogAction list" where
  "sample_writes i =
     [LA_Append [blank_entry 1 i, blank_entry 1 (i + 1), blank_entry 1 (i + 2)],
      LA_Truncate \<lparr>ol_term = 1, ol_index = i + 2\<rparr>,
      LA_SaveVote \<lparr>ov_term = 2, ov_voted_for = Some 3, ov_committed = False\<rparr>,
      LA_Append [blank_entry 2 (i + 2)], LA_Purge \<lparr>ol_term = 1, ol_index = i\<rparr>]"

lemma sample_codec_ok: "codec_ok sample_codec (written (sample_writes i))"
  by (auto simp: codec_ok_def written_def sample_writes_def sample_codec_def blank_entry_def)

lemma sample_writes_log:
  "foldl or_step OrLog_empty (sample_writes i) =
     \<lparr>or_purged = Some \<lparr>ol_term = 1, ol_index = i\<rparr>, or_entries = [blank_entry 1 (i + 1), blank_entry 2 (i + 2)],
      or_vote = Some \<lparr>ov_term = 2, ov_voted_for = Some 3, ov_committed = False\<rparr>, or_committed = None\<rparr>"
  by (simp add: sample_writes_def OrLog_empty_def blank_entry_def)

lemma sample_writes_ok: "i \<le> 1 \<Longrightarrow> or_run_ok i OrLog_empty (sample_writes i)"
  by (simp add: sample_writes_def OrLog_empty_def blank_entry_def or_first_def upt_rec)

section \<open>Properties\<close>

text \<open>
  C33. The in-memory store serves openraft its log. After any sequence of the adapter's writes that
  openraft may issue (appends that continue the log, truncations, purges, votes, committed
  marks), every write succeeded, and the adapter's reads answer from the log those writes
  describe: the live entries of a range in order, the last log and purge ids, the last vote saved
  and the committed mark.
\<close>

theorem memory_store_serves_openraft:
  assumes "codec_ok pc (written as)" "or_run_ok 0 OrLog_empty as"
  shows "fst (la_run MemoryRaftLogStore pc as LogStoreState_default) = Ok () \<and>
    serves MemoryRaftLogStore pc (foldl or_step OrLog_empty as) (snd (la_run MemoryRaftLogStore pc as LogStoreState_default))"
  by (rule mem.la_run_serves [OF assms(1) _ _ assms(2)])
    (simp_all add: mem_good_def mem_view_def LogStoreState_default_def or_view_def OrLog_empty_def contiguous_def first_index_def)

theorem memory_store_serves_openraft_witness:
  "serves MemoryRaftLogStore sample_codec
     \<lparr>or_purged = Some \<lparr>ol_term = 1, ol_index = 0\<rparr>, or_entries = [blank_entry 1 1, blank_entry 2 2],
      or_vote = Some \<lparr>ov_term = 2, ov_voted_for = Some 3, ov_committed = False\<rparr>, or_committed = None\<rparr>
     (snd (la_run MemoryRaftLogStore sample_codec (sample_writes 0) LogStoreState_default))"
  using memory_store_serves_openraft [OF sample_codec_ok sample_writes_ok [of 0]]
  by (simp add: sample_writes_log numeral_2_eq_2)

end
