(* ===== verification/RaftDisk.thy ===== *)
theory RaftDisk
  imports RaftStorage
begin

text \<open>
  The file system under the durable backend (\<open>storage/fs.rs\<close>) and the file helpers of that file.

  A directory is its durable content and the list of updates made since it was last synced. A
  crash keeps any subset of those updates: POSIX orders neither renames nor unlinks. Contents of
  a file are synced before it is renamed, so an update carries the whole new content. An I/O call
  numbered \<open>n\<close> succeeds when \<open>io n\<close>; a failed call changes nothing. A run that stops at call
  \<open>n\<close>, and a crash there, is a run whose calls fail from \<open>n\<close> on.
\<close>

section \<open>Directories\<close>

record Dir =
  dr_durable :: "(string, bytes) hashmap"
  dr_pending :: "(string \<times> bytes option) list"

fun dir_update :: "(string, bytes) hashmap \<Rightarrow> string \<times> bytes option \<Rightarrow> (string, bytes) hashmap" where
  "dir_update m (name, Some b) = hm_insert m name b"
| "dir_update m (name, None) = hm_remove m name"

definition dir_now :: "Dir \<Rightarrow> (string, bytes) hashmap" where
  "dir_now d = foldl dir_update (dr_durable d) (dr_pending d)"

datatype Folder = Root | LogFolder | SnapshotFolder

record Disk =
  dk_dir :: "Folder \<Rightarrow> Dir"
  dk_calls :: nat

definition empty_disk :: Disk where
  "empty_disk = \<lparr>dk_dir = (\<lambda>_. \<lparr>dr_durable = hm_empty, dr_pending = []\<rparr>), dk_calls = 0\<rparr>"

definition files :: "Disk \<Rightarrow> Folder \<Rightarrow> (string, bytes) hashmap" where
  "files d f = dir_now (dk_dir d f)"

definition set_file :: "Folder \<Rightarrow> string \<Rightarrow> bytes option \<Rightarrow> Disk \<Rightarrow> Disk" where
  "set_file f name v d =
     d\<lparr>dk_dir := (dk_dir d)(f := (dk_dir d f)\<lparr>dr_pending := dr_pending (dk_dir d f) @ [(name, v)]\<rparr>)\<rparr>"

definition sync_folder :: "Folder \<Rightarrow> Disk \<Rightarrow> Disk" where
  "sync_folder f d = d\<lparr>dk_dir := (dk_dir d)(f := \<lparr>dr_durable = files d f, dr_pending = []\<rparr>)\<rparr>"

text \<open>What is found after a crash.\<close>

definition crash_dir :: "Dir \<Rightarrow> Dir \<Rightarrow> bool" where
  "crash_dir d d' \<longleftrightarrow>
     (\<exists>kept \<in> set (subseqs (dr_pending d)). d' = \<lparr>dr_durable = foldl dir_update (dr_durable d) kept, dr_pending = []\<rparr>)"

definition crash :: "Disk \<Rightarrow> Disk \<Rightarrow> bool" where
  "crash d d' \<longleftrightarrow> (\<forall>f. crash_dir (dk_dir d f) (dk_dir d' f))"

section \<open>I/O calls\<close>

type_synonym io_oracle = "nat \<Rightarrow> bool"

definition fs_call :: "io_oracle \<Rightarrow> string \<Rightarrow> (Disk \<Rightarrow> 'a \<times> Disk) \<Rightarrow> Disk \<Rightarrow> 'a io_result \<times> Disk" where
  "fs_call io action f d =
     (let d1 = d\<lparr>dk_calls := dk_calls d + 1\<rparr>
      in if io (dk_calls d) then (case f d1 of (x, d2) \<Rightarrow> (Ok x, d2)) else (Err (Io action), d1))"

definition fsync_dir :: "io_oracle \<Rightarrow> Folder \<Rightarrow> Disk \<Rightarrow> unit io_result \<times> Disk" where
  "fsync_dir io f d =
     bind_io (fs_call io ''open parent dir'' (\<lambda>d. ((), d)) d) (\<lambda>_ d.
     fs_call io ''sync parent dir'' (\<lambda>d. ((), sync_folder f d)) d)"

text \<open>\<open>Path::with_extension\<close> on a file name: the part after the last dot is replaced.\<close>

definition file_stem :: "string \<Rightarrow> string" where
  "file_stem name =
     (let ext = takeWhile (\<lambda>c. c \<noteq> CHR ''.'') (rev name); stem = take (length name - length ext - 1) name
      in if length ext = length name \<or> stem = [] then name else stem)"

definition with_extension :: "string \<Rightarrow> string \<Rightarrow> string" where
  "with_extension name ext = file_stem name @ ''.'' @ ext"

definition write_and_rename :: "io_oracle \<Rightarrow> Folder \<Rightarrow> string \<Rightarrow> bytes \<Rightarrow> Disk \<Rightarrow> unit io_result \<times> Disk" where
  "write_and_rename io f name b d =
     (let tmp = with_extension name ''tmp''
      in bind_io (fs_call io ''create tmp'' (\<lambda>d. ((), set_file f tmp (Some []) d)) d) (\<lambda>_ d.
         bind_io (fs_call io ''write tmp'' (\<lambda>d. ((), set_file f tmp (Some b) d)) d) (\<lambda>_ d.
         bind_io (fs_call io ''sync tmp'' (\<lambda>d. ((), d)) d) (\<lambda>_ d.
         fs_call io ''rename tmp'' (\<lambda>d. ((), set_file f name (Some b) (set_file f tmp None d))) d))))"

definition atomic_write :: "io_oracle \<Rightarrow> Folder \<Rightarrow> string \<Rightarrow> bytes \<Rightarrow> Disk \<Rightarrow> unit io_result \<times> Disk" where
  "atomic_write io f name b d = bind_io (write_and_rename io f name b d) (\<lambda>_ d. fsync_dir io f d)"

definition read_if_exists :: "io_oracle \<Rightarrow> Folder \<Rightarrow> string \<Rightarrow> Disk \<Rightarrow> bytes option io_result \<times> Disk" where
  "read_if_exists io f name d = fs_call io ''read'' (\<lambda>d. (hm_get (files d f) name, d)) d"

definition remove_if_exists :: "io_oracle \<Rightarrow> Folder \<Rightarrow> string \<Rightarrow> Disk \<Rightarrow> unit io_result \<times> Disk" where
  "remove_if_exists io f name d =
     fs_call io ''remove file'' (\<lambda>d. ((), if hm_contains (files d f) name then set_file f name None d else d)) d"

definition read_dir :: "io_oracle \<Rightarrow> string \<Rightarrow> string \<Rightarrow> Folder \<Rightarrow> Disk \<Rightarrow> string list io_result \<times> Disk" where
  "read_dir io open_action iter_action f d =
     bind_io (fs_call io open_action (\<lambda>d. ((), d)) d) (\<lambda>_ d.
     fs_call io iter_action (\<lambda>d. (hm_keys (files d f), d)) d)"

section \<open>Laws of the file system\<close>

lemma files_set_file [simp]:
  "files (set_file f name v d) f' = (if f' = f then dir_update (files d f) (name, v) else files d f')"
  by (simp add: files_def set_file_def dir_now_def)

lemma durable_set_file [simp]: "dr_durable (dk_dir (set_file f name v d) f') = dr_durable (dk_dir d f')"
  by (simp add: set_file_def)

lemma files_sync [simp]: "files (sync_folder f d) f' = files d f'"
  by (simp add: files_def sync_folder_def dir_now_def)

lemma files_calls [simp]: "files (d\<lparr>dk_calls := n\<rparr>) f = files d f"
  by (simp add: files_def)

lemma hm_get_dir_update [simp]: "hm_get (dir_update m (name, v)) name' = (if name' = name then v else hm_get m name')"
  by (cases v) simp_all

lemma hm_wf_dir_update [simp]: "hm_wf m \<Longrightarrow> hm_wf (dir_update m u)"
  by (cases "(m, u)" rule: dir_update.cases) simp_all

text \<open>A folder is synced when nothing is pending in it.\<close>

definition synced :: "Disk \<Rightarrow> Folder \<Rightarrow> bool" where
  "synced d f \<longleftrightarrow> dr_pending (dk_dir d f) = []"

lemma synced_simps [simp]:
  "synced (sync_folder f d) f' \<longleftrightarrow> f' = f \<or> synced d f'"
  "synced (d\<lparr>dk_calls := n\<rparr>) f \<longleftrightarrow> synced d f"
  "synced (set_file f name v d) f' \<longleftrightarrow> f' \<noteq> f \<and> synced d f'"
  by (auto simp: synced_def sync_folder_def set_file_def)

text \<open>
  After a crash the value of a file is the durable one or one of the pending updates; a folder
  with nothing pending is kept as it is.
\<close>

definition versions :: "Disk \<Rightarrow> Folder \<Rightarrow> string \<Rightarrow> bytes option set" where
  "versions d f name =
     insert (hm_get (dr_durable (dk_dir d f)) name) {v. (name, v) \<in> set (dr_pending (dk_dir d f))}"

lemma foldl_update_version:
  "hm_get (foldl dir_update m us) name \<in> insert (hm_get m name) {v. (name, v) \<in> set us}"
proof (induction us arbitrary: m)
  case (Cons u us)
  obtain name' v where "u = (name', v)" by (cases u)
  then show ?case using Cons.IH [of "dir_update m u"] by (auto split: if_splits)
qed simp

lemma crash_version: "crash d d' \<Longrightarrow> hm_get (files d' f) name \<in> versions d f name"
proof -
  assume "crash d d'"
  then obtain kept where k: "kept \<in> set (subseqs (dr_pending (dk_dir d f)))"
    "dk_dir d' f = \<lparr>dr_durable = foldl dir_update (dr_durable (dk_dir d f)) kept, dr_pending = []\<rparr>"
    unfolding crash_def crash_dir_def by blast
  have "set kept \<subseteq> set (dr_pending (dk_dir d f))"
    using k(1) by (metis PowD imageI subseqs_powset)
  then show ?thesis
    using foldl_update_version [of "dr_durable (dk_dir d f)" kept name] k(2) by (auto simp: files_def dir_now_def versions_def)
qed

lemma crash_synced: "crash d d' \<Longrightarrow> synced d' f"
  by (auto simp: crash_def crash_dir_def synced_def dest!: spec [of _ f])

lemma crash_keeps: "crash d d' \<Longrightarrow> synced d f \<Longrightarrow> files d' f = files d f"
  by (auto simp: crash_def crash_dir_def synced_def files_def dir_now_def dest!: spec [of _ f])

lemma crash_self: "synced d Root \<Longrightarrow> synced d LogFolder \<Longrightarrow> synced d SnapshotFolder \<Longrightarrow> crash d d"
  unfolding crash_def crash_dir_def synced_def
proof
  fix f assume "dr_pending (dk_dir d Root) = []" "dr_pending (dk_dir d LogFolder) = []" "dr_pending (dk_dir d SnapshotFolder) = []"
  then show "\<exists>kept\<in>set (subseqs (dr_pending (dk_dir d f))). dk_dir d f = \<lparr>dr_durable = foldl dir_update (dr_durable (dk_dir d f)) kept, dr_pending = []\<rparr>"
    by (cases f) (auto intro!: Dir.equality)
qed

lemma crash_wf: "crash d d' \<Longrightarrow> hm_wf (dr_durable (dk_dir d f)) \<Longrightarrow> hm_wf (files d' f)"
proof -
  assume "crash d d'" "hm_wf (dr_durable (dk_dir d f))"
  moreover have "hm_wf m \<Longrightarrow> hm_wf (foldl dir_update m us)" for m us by (induction us arbitrary: m) simp_all
  ultimately show ?thesis by (auto simp: crash_def crash_dir_def files_def dir_now_def dest!: spec [of _ f])
qed

lemma versions_set_file [simp]:
  "versions (set_file f name v d) f' name' = (if f' = f \<and> name' = name then insert v (versions d f' name') else versions d f' name')"
  by (auto simp: versions_def set_file_def)

lemma versions_sync [simp]:
  "versions (sync_folder f d) f' name = (if f' = f then {hm_get (files d f) name} else versions d f' name)"
  by (auto simp: versions_def sync_folder_def)

lemma versions_calls [simp]: "versions (d\<lparr>dk_calls := n\<rparr>) f name = versions d f name"
  by (simp add: versions_def)

lemma versions_synced: "synced d f \<Longrightarrow> versions d f name = {hm_get (files d f) name}"
  by (auto simp: versions_def synced_def files_def dir_now_def)

lemma version_now: "hm_get (files d f) name \<in> versions d f name"
  using foldl_update_version [of "dr_durable (dk_dir d f)" "dr_pending (dk_dir d f)" name]
  by (simp add: files_def dir_now_def versions_def)

section \<open>Runs with failures\<close>

text \<open>
  \<open>outcome io r Q E\<close>: a run that returned satisfies \<open>Q\<close> of its value and disk; a run that stopped
  with an error satisfies \<open>E\<close> of its disk, and some call of the oracle fails.
\<close>

definition outcome :: "io_oracle \<Rightarrow> 'a io_result \<times> Disk \<Rightarrow> ('a \<Rightarrow> Disk \<Rightarrow> bool) \<Rightarrow> (Disk \<Rightarrow> bool) \<Rightarrow> bool" where
  "outcome io r Q E \<longleftrightarrow>
     (case r of (Ok x, d) \<Rightarrow> Q x d | (Err _, d) \<Rightarrow> (\<exists>n. \<not> io n) \<and> E d | (Panic, _) \<Rightarrow> False)"

lemma outcome_Ok [simp]: "outcome io (Ok x, d) Q E \<longleftrightarrow> Q x d"
  by (simp add: outcome_def)

lemma outcome_bind:
  assumes "outcome io r R E" "\<And>x d. R x d \<Longrightarrow> outcome io (f x d) Q E"
  shows "outcome io (bind_io r f) Q E"
  using assms by (cases "(r, f)" rule: bind_io.cases) (auto simp: outcome_def)

lemma outcome_mono:
  assumes "outcome io r R F" "\<And>x d. R x d \<Longrightarrow> Q x d" "\<And>d. F d \<Longrightarrow> E d"
  shows "outcome io r Q E"
  using assms by (auto simp: outcome_def split: io_result.splits)

lemma outcome_call:
  assumes "\<And>x d2. f (d\<lparr>dk_calls := dk_calls d + 1\<rparr>) = (x, d2) \<Longrightarrow> Q x d2" "E (d\<lparr>dk_calls := dk_calls d + 1\<rparr>)"
  shows "outcome io (fs_call io action f d) Q E"
  using assms by (auto simp: outcome_def fs_call_def Let_def split: prod.splits)

lemma outcome_all_ok: "outcome (\<lambda>_. True) r Q E \<Longrightarrow> \<exists>x. fst r = Ok x \<and> Q x (snd r)"
  by (auto simp: outcome_def split: prod.splits io_result.splits)

lemma outcome_either: "outcome io r Q E \<Longrightarrow> (\<exists>x. fst r = Ok x \<and> Q x (snd r)) \<or> ((\<nexists>x. fst r = Ok x) \<and> E (snd r))"
  by (auto simp: outcome_def split: prod.splits io_result.splits)

text \<open>
  \<open>within S d d'\<close>: outside temporary files, the versions a file may have in \<open>d'\<close> are those it had
  in \<open>d\<close> and those of \<open>S\<close>. \<open>changed U d d'\<close>: the current content is that of \<open>d\<close> updated with \<open>U\<close>.
\<close>

definition is_tmp :: "string \<Rightarrow> bool" where
  "is_tmp name \<longleftrightarrow> (\<exists>stem. name = stem @ ''.tmp'')"

definition within :: "(Folder \<times> string \<times> bytes option) set \<Rightarrow> Disk \<Rightarrow> Disk \<Rightarrow> bool" where
  "within S d d' \<longleftrightarrow>
     (\<forall>f name. \<not> is_tmp name \<longrightarrow> versions d' f name \<subseteq> versions d f name \<union> {v. (f, name, v) \<in> S}) \<and>
     (\<forall>f. hm_wf (dr_durable (dk_dir d f)) \<and> hm_wf (files d f) \<longrightarrow> hm_wf (dr_durable (dk_dir d' f)) \<and> hm_wf (files d' f))"

definition changed :: "(Folder \<times> string \<rightharpoonup> bytes option) \<Rightarrow> Disk \<Rightarrow> Disk \<Rightarrow> bool" where
  "changed U d d' \<longleftrightarrow>
     (\<forall>f name. \<not> is_tmp name \<longrightarrow>
        hm_get (files d' f) name = (case U (f, name) of Some v \<Rightarrow> v | None \<Rightarrow> hm_get (files d f) name))"

definition only :: "Folder \<Rightarrow> Disk \<Rightarrow> Disk \<Rightarrow> bool" where
  "only f d d' \<longleftrightarrow> (\<forall>f'. f' \<noteq> f \<longrightarrow> dk_dir d' f' = dk_dir d f')"

lemma is_tmp_with_extension [simp]: "is_tmp (with_extension name ''tmp'')"
  by (auto simp: is_tmp_def with_extension_def)

lemma within_refl [simp]: "within S d d" "within S d (d\<lparr>dk_calls := n\<rparr>)"
  by (auto simp: within_def)

lemma within_trans: "within S d1 d2 \<Longrightarrow> within S d2 d3 \<Longrightarrow> within S d1 d3"
  unfolding within_def by blast

lemma within_mono: "within S d d' \<Longrightarrow> S \<subseteq> T \<Longrightarrow> within T d d'"
  unfolding within_def by blast

lemma within_set_file: "is_tmp name \<or> (f, name, v) \<in> S \<Longrightarrow> within S d (set_file f name v d)"
  by (auto simp: within_def)

lemma within_sync: "within S d (sync_folder f d)"
  using version_now by (auto simp: within_def) (auto simp: sync_folder_def files_def)

lemma crash_within: "crash d d' \<Longrightarrow> within {} d d'"
proof -
  assume c: "crash d d'"
  have "versions d' f name \<subseteq> versions d f name" for f name
    using crash_version [OF c, of f name] by (simp add: versions_synced [OF crash_synced [OF c]])
  moreover have "dr_durable (dk_dir d' f) = files d' f" for f
    using crash_synced [OF c, of f] by (simp add: synced_def files_def dir_now_def)
  ultimately show ?thesis using crash_wf [OF c] unfolding within_def by auto
qed

lemma within_file:
  "within S d d' \<Longrightarrow> synced d f \<Longrightarrow> \<not> is_tmp name \<Longrightarrow>
   hm_get (files d' f) name = hm_get (files d f) name \<or> (f, name, hm_get (files d' f) name) \<in> S"
  using version_now [of d' f name] unfolding within_def by (fastforce simp: versions_synced)

lemma changed_refl [simp]: "changed Map.empty d d" "changed Map.empty d (d\<lparr>dk_calls := n\<rparr>)"
  by (simp_all add: changed_def)

lemma changed_trans: "changed U d1 d2 \<Longrightarrow> changed V d2 d3 \<Longrightarrow> changed (U ++ V) d1 d3"
  by (auto simp: changed_def map_add_def split: option.split)

lemma only_refl [simp]: "only f d d" "only f d (d\<lparr>dk_calls := n\<rparr>)"
  by (simp_all add: only_def)

lemma only_trans: "only f d1 d2 \<Longrightarrow> only f d2 d3 \<Longrightarrow> only f d1 d3"
  by (simp add: only_def)

lemma only_folder: "only f d d' \<Longrightarrow> f' \<noteq> f \<Longrightarrow> files d' f' = files d f' \<and> versions d' f' = versions d f' \<and> synced d' f' = synced d f'"
  by (simp add: only_def files_def versions_def synced_def fun_eq_iff)

lemma only_set_file [simp]: "only f d (set_file f name v d')  \<longleftrightarrow> only f d d'"
  by (simp add: only_def set_file_def)

lemma only_sync [simp]: "only f d (sync_folder f d') \<longleftrightarrow> only f d d'"
  by (simp add: only_def sync_folder_def)

text \<open>What each helper does.\<close>

lemma fsync_dir_outcome:
  "outcome io (fsync_dir io f d)
     (\<lambda>_ d'. synced d' f \<and> files d' = files d \<and> only f d d' \<and> within {} d d')
     (\<lambda>d'. only f d d' \<and> within {} d d' \<and> files d' = files d)"
  unfolding fsync_dir_def
  by (rule outcome_bind [where R = "\<lambda>_ d'. d' = d\<lparr>dk_calls := dk_calls d + 1\<rparr>"]; rule outcome_call)
    (auto simp: fun_eq_iff intro: within_trans [OF within_refl(2) within_sync])

lemma write_and_rename_outcome:
  "outcome io (write_and_rename io f name b d)
     (\<lambda>_ d'. changed [(f, name) \<mapsto> Some b] d d' \<and> only f d d' \<and> within {(f, name, Some b)} d d')
     (\<lambda>d'. only f d d' \<and> within {(f, name, Some b)} d d')"
proof -
  let ?S = "{(f, name, Some b)}" and ?tmp = "with_extension name ''tmp''"
  define R where "R d' \<longleftrightarrow> changed Map.empty d d' \<and> only f d d' \<and> within ?S d d'" for d'
  have start: "R d" by (simp add: R_def)
  have calls: "R (d'\<lparr>dk_calls := n\<rparr>)" if "R d'" for d' n
    using that within_trans [OF _ within_refl(2)] by (auto simp: R_def changed_def only_def)
  have tmp: "R (set_file f ?tmp v d')" if "R d'" for v d'
    using that within_trans [OF _ within_set_file] by (auto simp: R_def changed_def)
  have renamed: "changed [(f, name) \<mapsto> Some b] d (set_file f name (Some b) d') \<and> only f d (set_file f name (Some b) d') \<and>
      within ?S d (set_file f name (Some b) d')" if "R d'" for d'
    using that within_trans [OF _ within_set_file] by (auto simp: R_def changed_def)
  have failed: "only f d d' \<and> within ?S d d'" if "R d'" for d' using that by (simp add: R_def)
  note call = outcome_call [where E = "\<lambda>d'. only f d d' \<and> within ?S d d'"]
  show ?thesis unfolding write_and_rename_def Let_def
  proof (rule outcome_bind [where R = "\<lambda>_. R"], rule call)
    fix d1 assume d1: "R d1"
    show "outcome io (bind_io (fs_call io ''write tmp'' (\<lambda>d. ((), set_file f ?tmp (Some b) d)) d1) (\<lambda>_ d.
        bind_io (fs_call io ''sync tmp'' (\<lambda>d. ((), d)) d) (\<lambda>_ d.
        fs_call io ''rename tmp'' (\<lambda>d. ((), set_file f name (Some b) (set_file f ?tmp None d))) d)))
      (\<lambda>_ d'. changed [(f, name) \<mapsto> Some b] d d' \<and> only f d d' \<and> within ?S d d') (\<lambda>d'. only f d d' \<and> within ?S d d')"
    proof (rule outcome_bind [where R = "\<lambda>_. R"], rule call)
      fix d2 assume d2: "R d2"
      show "outcome io (bind_io (fs_call io ''sync tmp'' (\<lambda>d. ((), d)) d2) (\<lambda>_ d.
          fs_call io ''rename tmp'' (\<lambda>d. ((), set_file f name (Some b) (set_file f ?tmp None d))) d))
        (\<lambda>_ d'. changed [(f, name) \<mapsto> Some b] d d' \<and> only f d d' \<and> within ?S d d') (\<lambda>d'. only f d d' \<and> within ?S d d')"
      proof (rule outcome_bind [where R = "\<lambda>_. R"], rule call)
        fix d3 assume d3: "R d3"
        show "outcome io (fs_call io ''rename tmp'' (\<lambda>d. ((), set_file f name (Some b) (set_file f ?tmp None d))) d3)
          (\<lambda>_ d'. changed [(f, name) \<mapsto> Some b] d d' \<and> only f d d' \<and> within ?S d d') (\<lambda>d'. only f d d' \<and> within ?S d d')"
          by (rule call) (use renamed [OF tmp [OF calls [OF d3]]] failed [OF calls [OF d3]] in auto)
      qed (use calls [OF d2] failed [OF calls [OF d2]] in auto)
    qed (use tmp [OF calls [OF d1]] failed [OF calls [OF d1]] in auto)
  qed (use tmp [OF calls [OF start]] failed [OF calls [OF start]] in auto)
qed

lemma atomic_write_outcome:
  "outcome io (atomic_write io f name b d)
     (\<lambda>_ d'. changed [(f, name) \<mapsto> Some b] d d' \<and> synced d' f \<and> only f d d' \<and> within {(f, name, Some b)} d d')
     (\<lambda>d'. only f d d' \<and> within {(f, name, Some b)} d d')"
  unfolding atomic_write_def
proof (rule outcome_bind [OF outcome_mono [OF write_and_rename_outcome]])
  fix u d1 assume d1: "changed [(f, name) \<mapsto> Some b] d d1 \<and> only f d d1 \<and> within {(f, name, Some b)} d d1"
  have w: "within {(f, name, Some b)} d d2" if "within {} d1 d2" for d2
    using d1 that within_trans within_mono [OF that] by blast
  show "outcome io (fsync_dir io f d1)
     (\<lambda>_ d'. changed [(f, name) \<mapsto> Some b] d d' \<and> synced d' f \<and> only f d d' \<and> within {(f, name, Some b)} d d')
     (\<lambda>d'. only f d d' \<and> within {(f, name, Some b)} d d')"
    by (rule outcome_mono [OF fsync_dir_outcome]) (use d1 w only_trans in \<open>auto simp: changed_def\<close>)
qed auto

lemma read_outcome:
  "outcome io (read_if_exists io f name d)
     (\<lambda>v d'. v = hm_get (files d f) name \<and> d' = d\<lparr>dk_calls := dk_calls d + 1\<rparr>) (\<lambda>d'. d' = d\<lparr>dk_calls := dk_calls d + 1\<rparr>)"
  unfolding read_if_exists_def by (rule outcome_call) auto

lemma remove_outcome:
  "outcome io (remove_if_exists io f name d)
     (\<lambda>_ d'. changed [(f, name) \<mapsto> None] d d' \<and> only f d d' \<and> within {(f, name, None)} d d')
     (\<lambda>d'. only f d d' \<and> within {} d d')"
  unfolding remove_if_exists_def
proof (rule outcome_call)
  let ?d = "d\<lparr>dk_calls := dk_calls d + 1\<rparr>"
  have "within {(f, name, None)} d (set_file f name None ?d)"
    by (rule within_trans [OF within_refl(2) within_set_file]) simp
  then show "changed [(f, name) \<mapsto> None] d d2 \<and> only f d d2 \<and> within {(f, name, None)} d d2"
    if "((), if hm_contains (files ?d f) name then set_file f name None ?d else ?d) = (x, d2)" for x d2
    using that by (auto simp: changed_def hm_contains_def split: if_splits)
qed simp

lemma read_dir_outcome:
  "outcome io (read_dir io a b f d)
     (\<lambda>names d'. names = hm_keys (files d f) \<and> dk_dir d' = dk_dir d) (\<lambda>d'. dk_dir d' = dk_dir d)"
  unfolding read_dir_def
  by (rule outcome_bind [where R = "\<lambda>_ d'. d' = d\<lparr>dk_calls := dk_calls d + 1\<rparr>"]; rule outcome_call) auto

end
