(* ===== verification/RaftFsLog.thy ===== *)
theory RaftFsLog
  imports RaftDisk
begin

text \<open>
  The filesystem log store, \<open>FsRaftLogStore\<close> of \<open>raft/storage/fs.rs\<close>, over the disk model.
  \<open>postcard\<close> is a parameter: one codec per stored type.
\<close>

section \<open>File names\<close>

definition hex_digit :: "nat \<Rightarrow> char" where
  "hex_digit n = ''0123456789abcdef'' ! n"

fun hex_digits :: "nat \<Rightarrow> string" where
  "hex_digits n = (if n < 16 then [hex_digit n] else hex_digits (n div 16) @ [hex_digit (n mod 16)])"

declare hex_digits.simps [simp del]

definition entry_filename :: "nat \<Rightarrow> string" where
  "entry_filename index =
     (let digits = hex_digits index in replicate (16 - length digits) (CHR ''0'') @ digits @ ''.entry'')"

text \<open>\<open>char::to_digit(16)\<close> and \<open>u64::from_str_radix(_, 16)\<close>.\<close>

definition hex_value :: "char \<Rightarrow> nat option" where
  "hex_value c =
     (let n = (of_char c :: nat)
      in if 48 \<le> n \<and> n \<le> 57 then Some (n - 48)
         else if 97 \<le> n \<and> n \<le> 102 then Some (n - 87)
         else if 65 \<le> n \<and> n \<le> 70 then Some (n - 55)
         else None)"

fun parse_hex :: "nat \<Rightarrow> string \<Rightarrow> nat option" where
  "parse_hex acc [] = Some acc"
| "parse_hex acc (c # cs) =
     (case hex_value c of
        None \<Rightarrow> None
      | Some v \<Rightarrow> if acc * 16 + v < 2 ^ 64 then parse_hex (acc * 16 + v) cs else None)"

definition u64_from_str_radix_16 :: "string \<Rightarrow> nat option" where
  "u64_from_str_radix_16 s =
     (if s = [] \<or> s = ''+'' \<or> s = ''-'' then None
      else if hd s = CHR ''+'' then parse_hex 0 (tl s) else parse_hex 0 s)"

definition strip_suffix :: "string \<Rightarrow> string \<Rightarrow> string option" where
  "strip_suffix suf s =
     (if length suf \<le> length s \<and> drop (length s - length suf) s = suf then Some (take (length s - length suf) s) else None)"

definition parse_entry_filename :: "string \<Rightarrow> nat option" where
  "parse_entry_filename name = Option.bind (strip_suffix ''.entry'' name) u64_from_str_radix_16"

lemma strip_suffix_append [simp]: "strip_suffix suf (s @ suf) = Some s"
  by (simp add: strip_suffix_def)

lemma hex_value_digit: "n < 16 \<Longrightarrow> hex_value (hex_digit n) = Some n"
  by (simp add: less_Suc_eq numeral_eq_Suc hex_digit_def)
    (elim disjE; simp add: hex_value_def)

lemma parse_hex_append:
  "parse_hex acc (xs @ ys) = Option.bind (parse_hex acc xs) (\<lambda>a. parse_hex a ys)"
  by (induction acc xs rule: parse_hex.induct) (auto split: option.split)

lemma parse_hex_digits:
  "acc * 16 ^ length (hex_digits n) + n < 2 ^ 64 \<Longrightarrow>
   parse_hex acc (hex_digits n) = Some (acc * 16 ^ length (hex_digits n) + n)"
proof (induction n arbitrary: acc rule: hex_digits.induct)
  case (1 n)
  show ?case
  proof (cases "n < 16")
    case True
    then show ?thesis using 1(2) by (simp add: hex_digits.simps [of n] hex_value_digit)
  next
    case False
    let ?m = "n div 16" and ?k = "16 ^ length (hex_digits (n div 16))"
    have d: "hex_digits n = hex_digits ?m @ [hex_digit (n mod 16)]" using False by (simp add: hex_digits.simps [of n])
    have v: "acc * 16 ^ length (hex_digits n) + n = (acc * ?k + ?m) * 16 + n mod 16"
      by (simp add: d algebra_simps)
    have "parse_hex acc (hex_digits ?m) = Some (acc * ?k + ?m)"
    proof (rule 1(1) [OF False])
      have "acc * ?k + ?m \<le> (acc * ?k + ?m) * 16 + n mod 16" by simp
      then show "acc * ?k + ?m < 2 ^ 64" using 1(2) v by linarith
    qed
    then show ?thesis using 1(2) v by (simp add: d parse_hex_append hex_value_digit)
  qed
qed

lemma parse_hex_zeros: "parse_hex 0 (replicate k (CHR ''0'') @ s) = parse_hex 0 s"
  by (induction k) (simp_all add: hex_value_def)

lemma hex_digits_Cons: "\<exists>n cs. n < 16 \<and> hex_digits i = hex_digit n # cs"
proof (induction i rule: hex_digits.induct)
  case (1 i)
  show ?case using 1 by (cases "i < 16") (auto simp: hex_digits.simps [of i])
qed

lemma hex_digit_plain: "n < 16 \<Longrightarrow> hex_digit n \<noteq> CHR ''+'' \<and> hex_digit n \<noteq> CHR ''-''"
  using hex_value_digit [of n] by (auto simp: hex_value_def)

lemma parse_entry_filename_entry [simp]:
  assumes "i < 2 ^ 64"
  shows "parse_entry_filename (entry_filename i) = Some i"
proof -
  let ?s = "replicate (16 - length (hex_digits i)) (CHR ''0'') @ hex_digits i"
  obtain n cs where "n < 16" "hex_digits i = hex_digit n # cs" using hex_digits_Cons by blast
  then have "?s \<noteq> []" "hd ?s \<noteq> CHR ''+''" "hd ?s \<noteq> CHR ''-''"
    using hex_digit_plain [of n] by (cases "16 - length (hex_digits i)"; simp)+
  then have "u64_from_str_radix_16 ?s = parse_hex 0 ?s" by (auto simp: u64_from_str_radix_16_def)
  also have "\<dots> = Some i" using parse_hex_digits [of 0 i] assms by (simp add: parse_hex_zeros)
  finally show ?thesis
    using strip_suffix_append [of "''.entry''" ?s] by (simp add: parse_entry_filename_def entry_filename_def Let_def)
qed

lemma entry_filename_inject: "i < 2 ^ 64 \<Longrightarrow> j < 2 ^ 64 \<Longrightarrow> entry_filename i = entry_filename j \<longleftrightarrow> i = j"
  using parse_entry_filename_entry by (metis option.inject)

lemma strip_suffix_tmp: "strip_suffix ''.entry'' (xs @ ''.tmp'') = None"
proof -
  have "xs @ ''.tmp'' \<noteq> ys @ ''.entry''" for ys by (auto dest: arg_cong [of _ _ rev])
  then show ?thesis by (auto simp: strip_suffix_def)
qed

section \<open>The store\<close>

record Postcard =
  pc_entry :: "StoredEntry codec"
  pc_log_id :: "LogId codec"
  pc_vote :: "Vote codec"
  pc_meta :: "SnapshotMeta codec"

definition postcard_ok :: "Postcard \<Rightarrow> bool" where
  "postcard_ok pc \<longleftrightarrow> codec_ok (pc_entry pc) UNIV \<and> codec_ok (pc_log_id pc) UNIV \<and> codec_ok (pc_vote pc) UNIV
     \<and> codec_ok (pc_meta pc) UNIV"

definition fs_encode :: "'a codec \<Rightarrow> string \<Rightarrow> 'a \<Rightarrow> Disk \<Rightarrow> bytes io_result \<times> Disk" where
  "fs_encode c action x d = ((case cd_enc c x of Some b \<Rightarrow> Ok b | None \<Rightarrow> Err (Serialization action)), d)"

definition fs_decode :: "'a codec \<Rightarrow> string \<Rightarrow> bytes \<Rightarrow> Disk \<Rightarrow> 'a io_result \<times> Disk" where
  "fs_decode c action b d = ((case cd_dec c b of Some x \<Rightarrow> Ok x | None \<Rightarrow> Err (Serialization action)), d)"

text \<open>The shared shape of the single-value readers: a missing file is \<open>None\<close>.\<close>

definition fs_read_value :: "'a codec \<Rightarrow> string \<Rightarrow> io_oracle \<Rightarrow> Folder \<Rightarrow> string \<Rightarrow> Disk \<Rightarrow> 'a option io_result \<times> Disk" where
  "fs_read_value c action io f name d =
     bind_io (read_if_exists io f name d) (\<lambda>found d.
       case found of
         None \<Rightarrow> (Ok None, d)
       | Some b \<Rightarrow> bind_io (fs_decode c action b d) (\<lambda>x d. (Ok (Some x), d)))"

definition list_entry_indices :: "io_oracle \<Rightarrow> Disk \<Rightarrow> nat list io_result \<times> Disk" where
  "list_entry_indices io d =
     bind_io (read_dir io ''read log dir'' ''iter log dir'' LogFolder d) (\<lambda>names d.
       (Ok (sort (List.map_filter parse_entry_filename names)), d))"

definition read_entry :: "Postcard \<Rightarrow> io_oracle \<Rightarrow> nat \<Rightarrow> Disk \<Rightarrow> StoredEntry option io_result \<times> Disk" where
  "read_entry pc io index d = fs_read_value (pc_entry pc) ''decode entry'' io LogFolder (entry_filename index) d"

definition read_last_purged :: "Postcard \<Rightarrow> io_oracle \<Rightarrow> Disk \<Rightarrow> LogId option io_result \<times> Disk" where
  "read_last_purged pc io d = fs_read_value (pc_log_id pc) ''decode last_purged'' io Root ''last_purged'' d"

fun append_entries :: "Postcard \<Rightarrow> io_oracle \<Rightarrow> StoredEntry list \<Rightarrow> Disk \<Rightarrow> unit io_result \<times> Disk" where
  "append_entries pc io [] d = (Ok (), d)"
| "append_entries pc io (e # es) d =
     bind_io (fs_encode (pc_entry pc) ''encode entry'' e d) (\<lambda>b d.
     bind_io (write_and_rename io LogFolder (entry_filename (se_index e)) b d) (\<lambda>_ d.
     append_entries pc io es d))"

definition fs_append :: "Postcard \<Rightarrow> io_oracle \<Rightarrow> StoredEntry list \<Rightarrow> Disk \<Rightarrow> unit io_result \<times> Disk" where
  "fs_append pc io entries d =
     bind_io (append_entries pc io entries d) (\<lambda>_ d.
       if entries \<noteq> [] then fsync_dir io LogFolder d else (Ok (), d))"

fun read_entries :: "Postcard \<Rightarrow> io_oracle \<Rightarrow> nat list \<Rightarrow> Disk \<Rightarrow> StoredEntry list io_result \<times> Disk" where
  "read_entries pc io [] d = (Ok [], d)"
| "read_entries pc io (i # is) d =
     bind_io (read_entry pc io i d) (\<lambda>found d.
     bind_io (read_entries pc io is d) (\<lambda>rest d.
       (Ok (case found of Some e \<Rightarrow> e # rest | None \<Rightarrow> rest), d)))"

definition fs_read_range :: "Postcard \<Rightarrow> io_oracle \<Rightarrow> nat \<Rightarrow> nat \<Rightarrow> Disk \<Rightarrow> StoredEntry list io_result \<times> Disk" where
  "fs_read_range pc io a b d =
     bind_io (list_entry_indices io d) (\<lambda>indices d.
       read_entries pc io (filter (\<lambda>i. a \<le> i \<and> i < b) indices) d)"

fun remove_entries :: "io_oracle \<Rightarrow> nat list \<Rightarrow> Disk \<Rightarrow> unit io_result \<times> Disk" where
  "remove_entries io [] d = (Ok (), d)"
| "remove_entries io (i # is) d =
     bind_io (remove_if_exists io LogFolder (entry_filename i) d) (\<lambda>_ d. remove_entries io is d)"

text \<open>The batch of unlinks both \<open>truncate_from\<close> and \<open>purge_through\<close> end with: the directory is synced if there was one.\<close>

definition remove_batch :: "io_oracle \<Rightarrow> nat list \<Rightarrow> Disk \<Rightarrow> unit io_result \<times> Disk" where
  "remove_batch io doomed d =
     bind_io (remove_entries io doomed d) (\<lambda>_ d.
       if doomed \<noteq> [] then fsync_dir io LogFolder d else (Ok (), d))"

definition fs_truncate_from :: "io_oracle \<Rightarrow> nat \<Rightarrow> Disk \<Rightarrow> unit io_result \<times> Disk" where
  "fs_truncate_from io from_index d =
     bind_io (list_entry_indices io d) (\<lambda>indices d.
       remove_batch io (rev (filter (\<lambda>i. from_index \<le> i) indices)) d)"

definition fs_purge_through :: "Postcard \<Rightarrow> io_oracle \<Rightarrow> LogId \<Rightarrow> Disk \<Rightarrow> unit io_result \<times> Disk" where
  "fs_purge_through pc io log_id d =
     bind_io (read_last_purged pc io d) (\<lambda>existing d.
       if (case existing of Some p \<Rightarrow> lid_index p \<ge> lid_index log_id | None \<Rightarrow> False) then (Ok (), d)
       else
         bind_io (fs_encode (pc_log_id pc) ''encode last_purged'' log_id d) (\<lambda>b d.
         bind_io (atomic_write io Root ''last_purged'' b d) (\<lambda>_ d.
         bind_io (list_entry_indices io d) (\<lambda>indices d.
           remove_batch io (filter (\<lambda>i. i \<le> lid_index log_id) indices) d))))"

text \<open>The \<open>scan\<close> of \<open>log_state\<close> and its last item: the top of the run that starts at \<open>expected\<close>.\<close>

fun last_of_run :: "nat \<Rightarrow> nat option \<Rightarrow> nat list \<Rightarrow> nat option" where
  "last_of_run expected found [] = found"
| "last_of_run expected found (i # is) = (if i = expected then last_of_run (expected + 1) (Some i) is else found)"

definition fs_log_state :: "Postcard \<Rightarrow> io_oracle \<Rightarrow> Disk \<Rightarrow> LogState io_result \<times> Disk" where
  "fs_log_state pc io d =
     bind_io (read_last_purged pc io d) (\<lambda>last_purged d.
     bind_io (list_entry_indices io d) (\<lambda>indices d.
       let purged_cutoff = map_option lid_index last_purged;
           first_expected = (case purged_cutoff of None \<Rightarrow> 1 | Some c \<Rightarrow> c + 1);
           above = filter (\<lambda>i. case purged_cutoff of None \<Rightarrow> True | Some c \<Rightarrow> c < i) indices
       in bind_io (case last_of_run first_expected None above of
              Some i \<Rightarrow> bind_io (read_entry pc io i d) (\<lambda>e d. (Ok (map_option se_log_id e), d))
            | None \<Rightarrow> (Ok None, d)) (\<lambda>last_log d.
            (Ok \<lparr>ls_last_purged = last_purged, ls_last_log = last_log\<rparr>, d))))"

definition fs_save_vote :: "Postcard \<Rightarrow> io_oracle \<Rightarrow> Vote \<Rightarrow> Disk \<Rightarrow> unit io_result \<times> Disk" where
  "fs_save_vote pc io vote d =
     bind_io (fs_encode (pc_vote pc) ''encode vote'' vote d) (\<lambda>b d. atomic_write io Root ''vote'' b d)"

definition fs_read_vote :: "Postcard \<Rightarrow> io_oracle \<Rightarrow> Disk \<Rightarrow> Vote option io_result \<times> Disk" where
  "fs_read_vote pc io d = fs_read_value (pc_vote pc) ''decode vote'' io Root ''vote'' d"

definition fs_save_committed :: "Postcard \<Rightarrow> io_oracle \<Rightarrow> LogId option \<Rightarrow> Disk \<Rightarrow> unit io_result \<times> Disk" where
  "fs_save_committed pc io log_id d =
     (case log_id of
        Some i \<Rightarrow>
          bind_io (fs_encode (pc_log_id pc) ''encode committed'' i d) (\<lambda>b d. atomic_write io Root ''committed'' b d)
      | None \<Rightarrow> bind_io (remove_if_exists io Root ''committed'' d) (\<lambda>_ d. fsync_dir io Root d))"

definition fs_read_committed :: "Postcard \<Rightarrow> io_oracle \<Rightarrow> Disk \<Rightarrow> LogId option io_result \<times> Disk" where
  "fs_read_committed pc io d = fs_read_value (pc_log_id pc) ''decode committed'' io Root ''committed'' d"

definition FsRaftLogStore :: "Postcard \<Rightarrow> io_oracle \<Rightarrow> Disk RaftLogStore" where
  "FsRaftLogStore pc io =
     \<lparr>rls_append = fs_append pc io, rls_read_range = fs_read_range pc io, rls_truncate_from = fs_truncate_from io,
      rls_purge_through = fs_purge_through pc io, rls_log_state = fs_log_state pc io, rls_save_vote = fs_save_vote pc io,
      rls_read_vote = fs_read_vote pc io, rls_save_committed = fs_save_committed pc io,
      rls_read_committed = fs_read_committed pc io\<rparr>"

section \<open>Contents\<close>

text \<open>What the files say: the entry at an index, and the abstract log.\<close>

definition encoded :: "'a codec \<Rightarrow> 'a \<Rightarrow> bytes" where
  "encoded c x = the (cd_enc c x)"

definition value_of :: "'a codec \<Rightarrow> Disk \<Rightarrow> Folder \<Rightarrow> string \<Rightarrow> 'a option" where
  "value_of c d f name = Option.bind (hm_get (files d f) name) (cd_dec c)"

definition entry_at :: "Postcard \<Rightarrow> Disk \<Rightarrow> nat \<Rightarrow> StoredEntry option" where
  "entry_at pc d i = (if i < 2 ^ 64 then value_of (pc_entry pc) d LogFolder (entry_filename i) else None)"

definition fs_indices :: "Disk \<Rightarrow> nat list" where
  "fs_indices d = sort (List.map_filter parse_entry_filename (hm_keys (files d LogFolder)))"

definition fs_view :: "Postcard \<Rightarrow> Disk \<Rightarrow> log_view" where
  "fs_view pc d =
     \<lparr>lv_purged = value_of (pc_log_id pc) d Root ''last_purged'',
      lv_entries = List.map_filter (entry_at pc d) (fs_indices d),
      lv_vote = value_of (pc_vote pc) d Root ''vote'',
      lv_committed = value_of (pc_log_id pc) d Root ''committed''\<rparr>"

text \<open>
  What may stand in a file: an entry file has the canonical name of its index and holds an entry
  with that index; the marker files hold encodings.
\<close>

definition entry_file_ok :: "Postcard \<Rightarrow> string \<Rightarrow> bytes option \<Rightarrow> bool" where
  "entry_file_ok pc name v \<longleftrightarrow>
     (\<forall>b i. v = Some b \<longrightarrow> parse_entry_filename name = Some i \<longrightarrow>
        name = entry_filename i \<and> i < 2 ^ 64 \<and> (\<exists>e. b = encoded (pc_entry pc) e \<and> se_index e = i))"

definition marker_ok :: "Postcard \<Rightarrow> string \<Rightarrow> bytes option \<Rightarrow> bool" where
  "marker_ok pc name v \<longleftrightarrow>
     (\<forall>b. v = Some b \<longrightarrow>
        (name = ''vote'' \<longrightarrow> b \<in> range (encoded (pc_vote pc))) \<and>
        (name = ''committed'' \<or> name = ''last_purged'' \<longrightarrow> b \<in> range (encoded (pc_log_id pc))))"

fun file_ok :: "Postcard \<Rightarrow> Folder \<Rightarrow> string \<Rightarrow> bytes option \<Rightarrow> bool" where
  "file_ok pc LogFolder name v \<longleftrightarrow> entry_file_ok pc name v"
| "file_ok pc Root name v \<longleftrightarrow> marker_ok pc name v"
| "file_ok pc SnapshotFolder name v \<longleftrightarrow> True"

definition disk_ok :: "Postcard \<Rightarrow> Disk \<Rightarrow> bool" where
  "disk_ok pc d \<longleftrightarrow> postcard_ok pc \<and>
     (\<forall>f. hm_wf (dr_durable (dk_dir d f)) \<and> hm_wf (files d f)) \<and> (\<forall>f name. \<forall>v \<in> versions d f name. file_ok pc f name v)"

definition fs_good :: "Postcard \<Rightarrow> Disk \<Rightarrow> bool" where
  "fs_good pc d \<longleftrightarrow> disk_ok pc d \<and> contiguous 1 (fs_view pc d)"

lemma encoded_simps [simp]:
  assumes "codec_ok c UNIV"
  shows "cd_enc c x = Some (encoded c x)" "cd_dec c (encoded c x) = Some x"
  using assms by (auto simp: codec_ok_def encoded_def) (metis UNIV_I option.sel)+

lemma encoded_inject [simp]: "codec_ok c UNIV \<Longrightarrow> encoded c x = encoded c y \<longleftrightarrow> x = y"
  by (metis encoded_simps(2) option.inject)

lemma postcard_okD [simp]:
  "postcard_ok pc \<Longrightarrow> codec_ok (pc_entry pc) UNIV" "postcard_ok pc \<Longrightarrow> codec_ok (pc_log_id pc) UNIV"
  "postcard_ok pc \<Longrightarrow> codec_ok (pc_vote pc) UNIV" "postcard_ok pc \<Longrightarrow> codec_ok (pc_meta pc) UNIV"
  by (simp_all add: postcard_ok_def)

lemma disk_okD:
  assumes "disk_ok pc d"
  shows "postcard_ok pc" "hm_wf (files d f)" "file_ok pc f name (hm_get (files d f) name)"
  using assms version_now by (auto simp: disk_ok_def)

lemma entry_at_Some:
  assumes "disk_ok pc d"
  shows "entry_at pc d i = Some e \<longleftrightarrow>
    i < 2 ^ 64 \<and> se_index e = i \<and> hm_get (files d LogFolder) (entry_filename i) = Some (encoded (pc_entry pc) e)"
proof (cases "i < 2 ^ 64")
  case True
  have "entry_file_ok pc (entry_filename i) (hm_get (files d LogFolder) (entry_filename i))"
    using disk_okD(3) [OF assms, of LogFolder] by simp
  then show ?thesis using True disk_okD(1) [OF assms]
    by (auto simp: entry_at_def value_of_def entry_file_ok_def bind_eq_Some_conv)
qed (simp add: entry_at_def)

lemma entry_at_index: "disk_ok pc d \<Longrightarrow> entry_at pc d i = Some e \<Longrightarrow> se_index e = i"
  by (simp add: entry_at_Some)

lemma set_map_filter: "set (List.map_filter f xs) = {y. \<exists>x \<in> set xs. f x = Some y}"
  by (force simp: List.map_filter_def)

lemma map_Some_map_filter: "map Some (List.map_filter f xs) = map f (filter (\<lambda>x. f x \<noteq> None) xs)"
  by (induction xs) (auto simp: List.map_filter_simps split: option.split)

lemma fs_indices_set:
  assumes "disk_ok pc d"
  shows "set (fs_indices d) = dom (entry_at pc d)"
proof -
  have "(\<exists>name. hm_get (files d LogFolder) name \<noteq> None \<and> parse_entry_filename name = Some i) \<longleftrightarrow> (\<exists>e. entry_at pc d i = Some e)" for i
  proof
    assume "\<exists>name. hm_get (files d LogFolder) name \<noteq> None \<and> parse_entry_filename name = Some i"
    then obtain name b where n: "hm_get (files d LogFolder) name = Some b" "parse_entry_filename name = Some i" by blast
    have "entry_file_ok pc name (hm_get (files d LogFolder) name)" using disk_okD(3) [OF assms, of LogFolder] by simp
    with n show "\<exists>e. entry_at pc d i = Some e" by (auto simp: entry_file_ok_def entry_at_Some [OF assms])
  next
    assume "\<exists>e. entry_at pc d i = Some e"
    then show "\<exists>name. hm_get (files d LogFolder) name \<noteq> None \<and> parse_entry_filename name = Some i"
      using entry_at_Some [OF assms, of i] parse_entry_filename_entry [of i] by blast
  qed
  moreover have "set (fs_indices d) = {i. \<exists>name. hm_get (files d LogFolder) name \<noteq> None \<and> parse_entry_filename name = Some i}"
    by (simp add: fs_indices_def set_map_filter hm_keys_iff Bex_def)
  ultimately show ?thesis by (simp add: dom_def)
qed

lemma fs_indices_distinct:
  assumes "disk_ok pc d"
  shows "distinct (fs_indices d)"
proof -
  have "inj_on parse_entry_filename {name \<in> set (hm_keys (files d LogFolder)). parse_entry_filename name \<noteq> None}"
  proof (rule inj_onI, clarify)
    fix x y i assume xy: "x \<in> set (hm_keys (files d LogFolder))" "y \<in> set (hm_keys (files d LogFolder))"
      "parse_entry_filename x = Some i" "parse_entry_filename x = parse_entry_filename y"
    have "entry_file_ok pc n (hm_get (files d LogFolder) n)" for n using disk_okD(3) [OF assms, of LogFolder] by simp
    then have "n = entry_filename i" if "n \<in> set (hm_keys (files d LogFolder))" "parse_entry_filename n = Some i" for n
      using that by (force simp: entry_file_ok_def hm_keys_iff)
    then show "x = y" using xy by metis
  qed
  moreover have "distinct (hm_keys (files d LogFolder))" using disk_okD(2) [OF assms] by (simp add: hm_keys_def hm_wf_def)
  ultimately have "distinct (map parse_entry_filename (filter (\<lambda>n. parse_entry_filename n \<noteq> None) (hm_keys (files d LogFolder))))"
    by (auto simp: distinct_map inj_on_def)
  then have "distinct (map Some (List.map_filter parse_entry_filename (hm_keys (files d LogFolder))))"
    by (simp only: map_Some_map_filter)
  then show ?thesis by (simp add: fs_indices_def distinct_map)
qed

lemma fs_indices_sorted: "disk_ok pc d \<Longrightarrow> fs_indices d = sorted_list_of_set (dom (entry_at pc d))"
  using fs_indices_set fs_indices_distinct
  by (metis fs_indices_def sorted_list_of_set.idem_if_sorted_distinct sorted_sort)

lemma fs_indices_strict: "disk_ok pc d \<Longrightarrow> sorted_wrt (<) (fs_indices d)"
  by (simp add: fs_indices_sorted)

section \<open>Reading\<close>

lemma same_dir:
  assumes "dk_dir d' = dk_dir d"
  shows "files d' = files d" "versions d' = versions d" "synced d' = synced d"
  by (simp_all only: fun_eq_iff files_def versions_def synced_def assms) simp_all

lemma same_dir_ok:
  assumes "dk_dir d' = dk_dir d"
  shows "disk_ok pc d' = disk_ok pc d"
  by (simp only: disk_ok_def same_dir [OF assms] assms)

lemma same_files:
  assumes "files d' = files d"
  shows "fs_view pc d' = fs_view pc d" "entry_at pc d' = entry_at pc d" "fs_indices d' = fs_indices d" "value_of c d' = value_of c d"
proof -
  have v: "value_of c d' = value_of c d" for c :: "'x codec" using assms by (simp add: value_of_def fun_eq_iff)
  show "value_of c d' = value_of c d" by (rule v)
  show e: "entry_at pc d' = entry_at pc d" by (simp add: entry_at_def v fun_eq_iff)
  show i: "fs_indices d' = fs_indices d" by (simp add: fs_indices_def assms)
  show "fs_view pc d' = fs_view pc d" by (simp add: fs_view_def e i v)
qed

lemma list_entry_indices_outcome:
  "outcome io (list_entry_indices io d) (\<lambda>is d'. is = fs_indices d \<and> dk_dir d' = dk_dir d) (\<lambda>d'. dk_dir d' = dk_dir d)"
  unfolding list_entry_indices_def fs_indices_def by (rule outcome_bind [OF read_dir_outcome]) simp

lemma fs_read_value_outcome:
  assumes "\<And>b. hm_get (files d f) name = Some b \<Longrightarrow> cd_dec c b \<noteq> None"
  shows "outcome io (fs_read_value c a io f name d)
    (\<lambda>v d'. v = value_of c d f name \<and> dk_dir d' = dk_dir d) (\<lambda>d'. dk_dir d' = dk_dir d)"
  unfolding fs_read_value_def
  by (rule outcome_bind [OF outcome_mono [OF read_outcome]])
    (use assms in \<open>auto simp: fs_decode_def value_of_def split: option.split\<close>)

lemma marker_decodes:
  assumes "disk_ok pc d" "hm_get (files d Root) name = Some b"
  shows "name = ''vote'' \<Longrightarrow> cd_dec (pc_vote pc) b \<noteq> None"
    and "name = ''committed'' \<or> name = ''last_purged'' \<Longrightarrow> cd_dec (pc_log_id pc) b \<noteq> None"
proof -
  have m: "marker_ok pc name (Some b)" using disk_okD(3) [OF assms(1), of Root name] assms(2) by simp
  show "cd_dec (pc_vote pc) b \<noteq> None" if n: "name = ''vote''"
  proof -
    from m n obtain x where "b = encoded (pc_vote pc) x" by (auto simp: marker_ok_def)
    then show ?thesis using disk_okD(1) [OF assms(1)] by simp
  qed
  show "cd_dec (pc_log_id pc) b \<noteq> None" if n: "name = ''committed'' \<or> name = ''last_purged''"
  proof -
    from m n obtain x where "b = encoded (pc_log_id pc) x" by (auto simp: marker_ok_def)
    then show ?thesis using disk_okD(1) [OF assms(1)] by simp
  qed
qed

lemma read_last_purged_outcome:
  "disk_ok pc d \<Longrightarrow> outcome io (read_last_purged pc io d)
    (\<lambda>v d'. v = lv_purged (fs_view pc d) \<and> dk_dir d' = dk_dir d) (\<lambda>d'. dk_dir d' = dk_dir d)"
  unfolding read_last_purged_def
  by (rule outcome_mono [OF fs_read_value_outcome]) (auto simp: fs_view_def dest: marker_decodes(2))

lemma read_entry_outcome:
  assumes "disk_ok pc d" "i < 2 ^ 64"
  shows "outcome io (read_entry pc io i d)
    (\<lambda>v d'. v = entry_at pc d i \<and> dk_dir d' = dk_dir d) (\<lambda>d'. dk_dir d' = dk_dir d)"
  unfolding read_entry_def
proof (rule outcome_mono [OF fs_read_value_outcome])
  fix b assume "hm_get (files d LogFolder) (entry_filename i) = Some b"
  then have "entry_file_ok pc (entry_filename i) (Some b)"
    using disk_okD(3) [OF assms(1), of LogFolder "entry_filename i"] by simp
  then obtain e where "b = encoded (pc_entry pc) e"
    using parse_entry_filename_entry [OF assms(2)] unfolding entry_file_ok_def by blast
  then show "cd_dec (pc_entry pc) b \<noteq> None" using disk_okD(1) [OF assms(1)] by simp
qed (use assms(2) in \<open>auto simp: entry_at_def\<close>)

lemma read_entries_outcome:
  "disk_ok pc d \<Longrightarrow> \<forall>i \<in> set is. i < 2 ^ 64 \<Longrightarrow> outcome io (read_entries pc io is d)
    (\<lambda>es d'. es = List.map_filter (entry_at pc d) is \<and> dk_dir d' = dk_dir d) (\<lambda>d'. dk_dir d' = dk_dir d)"
proof (induction "is" arbitrary: d)
  case Nil
  then show ?case by (simp add: List.map_filter_simps)
next
  case (Cons i "is")
  show ?case unfolding read_entries.simps
  proof (rule outcome_bind [OF read_entry_outcome])
    fix found and d1 :: Disk assume d1: "found = entry_at pc d i \<and> dk_dir d1 = dk_dir d"
    then have same: "entry_at pc d1 = entry_at pc d" "disk_ok pc d1"
      using Cons.prems(1) same_files(2) [OF same_dir(1), of d1 d] same_dir_ok [of d1 d] by simp_all
    show "outcome io (bind_io (read_entries pc io is d1) (\<lambda>rest d. (Ok (case found of Some e \<Rightarrow> e # rest | None \<Rightarrow> rest), d)))
      (\<lambda>es d'. es = List.map_filter (entry_at pc d) (i # is) \<and> dk_dir d' = dk_dir d) (\<lambda>d'. dk_dir d' = dk_dir d)"
      by (rule outcome_bind [OF outcome_mono [OF Cons.IH [OF same(2)]]])
        (use d1 same Cons.prems in \<open>auto simp: List.map_filter_simps\<close>)
  qed (use Cons.prems in auto)
qed

section \<open>The abstract log as a map\<close>

definition index_map :: "StoredEntry list \<Rightarrow> nat \<rightharpoonup> StoredEntry" where
  "index_map es = map_of (map (\<lambda>e. (se_index e, e)) es)"

lemma option_eqI: "(\<And>x. a = Some x \<longleftrightarrow> b = Some x) \<Longrightarrow> a = b"
  by (cases a; cases b) auto

lemma index_map_dom: "dom (index_map es) = se_index ` set es"
  by (simp add: index_map_def dom_map_of_conv_image_fst image_image)

lemma index_map_Some: "distinct (map se_index es) \<Longrightarrow> index_map es i = Some e \<longleftrightarrow> e \<in> set es \<and> se_index e = i"
  unfolding index_map_def by (subst map_of_eq_Some_iff) (auto simp: o_def)

lemma index_map_filter:
  "distinct (map se_index es) \<Longrightarrow> index_map (filter (\<lambda>e. P (se_index e)) es) i = (if P i then index_map es i else None)"
proof (rule option_eqI)
  fix e assume d: "distinct (map se_index es)"
  then have "distinct (map se_index (filter (\<lambda>e. P (se_index e)) es))" by (simp add: distinct_map_filter)
  then show "index_map (filter (\<lambda>e. P (se_index e)) es) i = Some e \<longleftrightarrow> (if P i then index_map es i else None) = Some e"
    using d by (auto simp: index_map_Some)
qed

lemma map_filter_index_map:
  assumes "distinct (map se_index es)"
  shows "List.map_filter (index_map es) (map se_index es) = es"
proof -
  have "\<forall>e \<in> set es. index_map es (se_index e) = Some e" using assms by (simp add: index_map_Some)
  then have "List.map_filter (index_map es) (map se_index xs) = xs" if "set xs \<subseteq> set es" for xs
    using that by (induction xs) (auto simp: List.map_filter_simps)
  then show ?thesis by simp
qed

lemma view_entries_iff:
  assumes "disk_ok pc d" "sorted_wrt (<) (map se_index es)"
  shows "lv_entries (fs_view pc d) = es \<longleftrightarrow> entry_at pc d = index_map es"
proof
  have dist: "distinct (map se_index es)" using assms(2) by (simp add: strict_sorted_iff)
  assume at: "entry_at pc d = index_map es"
  then have "fs_indices d = sorted_list_of_set (set (map se_index es))"
    by (simp add: fs_indices_sorted [OF assms(1)] index_map_dom)
  also have "\<dots> = map se_index es"
    using assms(2) by (simp add: sorted_list_of_set.idem_if_sorted_distinct strict_sorted_iff del: set_map)
  finally show "lv_entries (fs_view pc d) = es" by (simp add: fs_view_def at map_filter_index_map [OF dist])
next
  have dist: "distinct (map se_index es)" using assms(2) by (simp add: strict_sorted_iff)
  assume "lv_entries (fs_view pc d) = es"
  then have set: "set es = {e. \<exists>i \<in> dom (entry_at pc d). entry_at pc d i = Some e}"
    using fs_indices_set [OF assms(1)] set_map_filter [of "entry_at pc d" "fs_indices d"] by (simp add: fs_view_def)
  show "entry_at pc d = index_map es"
  proof (rule ext, rule option_eqI)
    fix i e show "entry_at pc d i = Some e \<longleftrightarrow> index_map es i = Some e"
      unfolding index_map_Some [OF dist] set using entry_at_index [OF assms(1)] by blast
  qed
qed

lemma contiguous_sorted: "contiguous base v \<Longrightarrow> sorted_wrt (<) (map se_index (lv_entries v))"
  by (simp add: contiguous_def)

lemma good_entry_at: "fs_good pc d \<Longrightarrow> entry_at pc d = index_map (lv_entries (fs_view pc d))"
  using view_entries_iff contiguous_sorted unfolding fs_good_def by blast

section \<open>Writing\<close>

lemma is_tmp_names [simp]:
  "\<not> is_tmp (entry_filename i)" "\<not> is_tmp ''vote''" "\<not> is_tmp ''committed''" "\<not> is_tmp ''last_purged''"
  by (auto simp: is_tmp_def entry_filename_def Let_def dest: arg_cong [of _ _ rev])

lemma file_ok_tmp: "is_tmp name \<Longrightarrow> file_ok pc f name v"
proof -
  assume "is_tmp name"
  then obtain stem where n: "name = stem @ ''.tmp''" by (auto simp: is_tmp_def)
  have "parse_entry_filename name = None" unfolding n
    by (simp add: parse_entry_filename_def strip_suffix_tmp)
  moreover have "name \<noteq> ''vote''" "name \<noteq> ''committed''" "name \<noteq> ''last_purged''"
    using is_tmp_names \<open>is_tmp name\<close> by auto
  ultimately show ?thesis by (cases f) (simp_all add: entry_file_ok_def marker_ok_def)
qed

lemma within_disk_ok:
  assumes "disk_ok pc d" "within S d d'" "\<And>f name v. (f, name, v) \<in> S \<Longrightarrow> file_ok pc f name v"
  shows "disk_ok pc d'"
  unfolding disk_ok_def
proof (intro conjI allI ballI)
  fix f name v assume v: "v \<in> versions d' f name"
  show "file_ok pc f name v"
  proof (cases "is_tmp name")
    case False
    then have "v \<in> versions d f name \<or> (f, name, v) \<in> S" using assms(2) v unfolding within_def by blast
    then show ?thesis using assms(1,3) unfolding disk_ok_def by blast
  qed (rule file_ok_tmp)
qed (use assms(1,2) in \<open>auto simp: disk_ok_def within_def\<close>)

definition entry_updates :: "Postcard \<Rightarrow> StoredEntry list \<Rightarrow> (Folder \<times> string \<times> bytes option) set" where
  "entry_updates pc es = (\<lambda>e. (LogFolder, entry_filename (se_index e), Some (encoded (pc_entry pc) e))) ` set es"

definition entry_map :: "Postcard \<Rightarrow> StoredEntry list \<Rightarrow> Folder \<times> string \<rightharpoonup> bytes option" where
  "entry_map pc es =
     map_of (rev (map (\<lambda>e. ((LogFolder, entry_filename (se_index e)), Some (encoded (pc_entry pc) e))) es))"

definition removals :: "nat list \<Rightarrow> (Folder \<times> string \<times> bytes option) set" where
  "removals is = (\<lambda>i. (LogFolder, entry_filename i, None)) ` set is"

definition removal_map :: "nat list \<Rightarrow> Folder \<times> string \<rightharpoonup> bytes option" where
  "removal_map is = (\<lambda>(f, name). if f = LogFolder \<and> name \<in> entry_filename ` set is then Some None else None)"

lemma entry_updates_ok:
  "(f, name, v) \<in> entry_updates pc es \<Longrightarrow> \<forall>e \<in> set es. se_index e < 2 ^ 64 \<Longrightarrow> file_ok pc f name v"
  by (auto simp: entry_updates_def entry_file_ok_def)

lemma removals_ok: "(f, name, v) \<in> removals is \<Longrightarrow> file_ok pc f name v"
  by (auto simp: removals_def entry_file_ok_def)

lemma append_entries_outcome:
  assumes "postcard_ok pc"
  shows "outcome io (append_entries pc io es d)
    (\<lambda>_ d'. changed (entry_map pc es) d d' \<and> only LogFolder d d' \<and> within (entry_updates pc es) d d')
    (\<lambda>d'. only LogFolder d d' \<and> within (entry_updates pc es) d d')"
proof (induction es arbitrary: d)
  case Nil
  then show ?case by (simp add: entry_map_def changed_def)
next
  case (Cons e es)
  let ?b = "encoded (pc_entry pc) e" and ?n = "entry_filename (se_index e)"
  have enc: "fs_encode (pc_entry pc) a e d = (Ok ?b, d)" for a using assms by (simp add: fs_encode_def)
  have sub: "{(LogFolder, ?n, Some ?b)} \<subseteq> entry_updates pc (e # es)" "entry_updates pc es \<subseteq> entry_updates pc (e # es)"
    by (auto simp: entry_updates_def)
  have map: "entry_map pc (e # es) = [(LogFolder, ?n) \<mapsto> Some ?b] ++ entry_map pc es" by (simp add: entry_map_def)
  show ?case unfolding append_entries.simps enc bind_io.simps
  proof (rule outcome_bind [OF outcome_mono [OF write_and_rename_outcome]])
    fix u and d1 :: Disk assume d1: "changed [(LogFolder, ?n) \<mapsto> Some ?b] d d1 \<and> only LogFolder d d1 \<and> within {(LogFolder, ?n, Some ?b)} d d1"
    have w: "within (entry_updates pc (e # es)) d d2" if "within (entry_updates pc es) d1 d2" for d2
      using d1 that within_mono [OF _ sub(1)] within_mono [OF _ sub(2)] within_trans by blast
    show "outcome io (append_entries pc io es d1)
      (\<lambda>_ d'. changed (entry_map pc (e # es)) d d' \<and> only LogFolder d d' \<and> within (entry_updates pc (e # es)) d d')
      (\<lambda>d'. only LogFolder d d' \<and> within (entry_updates pc (e # es)) d d')"
      by (rule outcome_mono [OF Cons.IH]) (use d1 w only_trans changed_trans in \<open>auto simp: map\<close>)
  qed (use within_mono [OF _ sub(1)] in auto)
qed

lemma fs_append_outcome:
  assumes "postcard_ok pc"
  shows "outcome io (fs_append pc io es d)
    (\<lambda>_ d'. changed (entry_map pc es) d d' \<and> only LogFolder d d' \<and> within (entry_updates pc es) d d' \<and>
       (es \<noteq> [] \<or> synced d LogFolder \<longrightarrow> synced d' LogFolder))
    (\<lambda>d'. only LogFolder d d' \<and> within (entry_updates pc es) d d')"
proof (cases "es = []")
  case True
  then show ?thesis by (simp add: fs_append_def entry_map_def changed_def)
next
  case False
  show ?thesis unfolding fs_append_def
  proof (rule outcome_bind [OF append_entries_outcome [OF assms]])
    fix u and d1 :: Disk assume d1: "changed (entry_map pc es) d d1 \<and> only LogFolder d d1 \<and> within (entry_updates pc es) d d1"
    have w: "within (entry_updates pc es) d d2" if "within {} d1 d2" for d2
      using d1 that within_mono [OF that] within_trans by blast
    show "outcome io (if es \<noteq> [] then fsync_dir io LogFolder d1 else (Ok (), d1))
      (\<lambda>_ d'. changed (entry_map pc es) d d' \<and> only LogFolder d d' \<and> within (entry_updates pc es) d d' \<and>
         (es \<noteq> [] \<or> synced d LogFolder \<longrightarrow> synced d' LogFolder))
      (\<lambda>d'. only LogFolder d d' \<and> within (entry_updates pc es) d d')"
      using False outcome_mono [OF fsync_dir_outcome [of io LogFolder d1]] d1 w only_trans
      by (auto simp: changed_def elim!: outcome_mono)
  qed
qed

lemma remove_entries_outcome:
  "outcome io (remove_entries io is d)
    (\<lambda>_ d'. changed (removal_map is) d d' \<and> only LogFolder d d' \<and> within (removals is) d d')
    (\<lambda>d'. only LogFolder d d' \<and> within (removals is) d d')"
proof (induction "is" arbitrary: d)
  case Nil
  then show ?case by (simp add: removal_map_def changed_def)
next
  case (Cons i "is")
  have sub: "{(LogFolder, entry_filename i, None)} \<subseteq> removals (i # is)" "removals is \<subseteq> removals (i # is)"
    by (auto simp: removals_def)
  have map: "removal_map (i # is) = [(LogFolder, entry_filename i) \<mapsto> None] ++ removal_map is"
    by (auto simp: removal_map_def map_add_def fun_eq_iff)
  show ?case unfolding remove_entries.simps
  proof (rule outcome_bind [OF outcome_mono [OF remove_outcome]])
    fix u and d1 :: Disk assume d1: "changed [(LogFolder, entry_filename i) \<mapsto> None] d d1 \<and> only LogFolder d d1 \<and> within {(LogFolder, entry_filename i, None)} d d1"
    have w: "within (removals (i # is)) d d2" if "within (removals is) d1 d2" for d2
      using d1 that within_mono [OF _ sub(1)] within_mono [OF _ sub(2)] within_trans by blast
    show "outcome io (remove_entries io is d1)
      (\<lambda>_ d'. changed (removal_map (i # is)) d d' \<and> only LogFolder d d' \<and> within (removals (i # is)) d d')
      (\<lambda>d'. only LogFolder d d' \<and> within (removals (i # is)) d d')"
      by (rule outcome_mono [OF Cons.IH]) (use d1 w only_trans changed_trans in \<open>auto simp: map\<close>)
  qed (use within_mono in auto)
qed

lemma remove_batch_outcome:
  "outcome io (remove_batch io is d)
    (\<lambda>_ d'. changed (removal_map is) d d' \<and> only LogFolder d d' \<and> within (removals is) d d' \<and>
       (is \<noteq> [] \<or> synced d LogFolder \<longrightarrow> synced d' LogFolder))
    (\<lambda>d'. only LogFolder d d' \<and> within (removals is) d d')"
proof (cases "is = []")
  case True
  then show ?thesis by (simp add: remove_batch_def removal_map_def changed_def)
next
  case False
  show ?thesis unfolding remove_batch_def
  proof (rule outcome_bind [OF remove_entries_outcome])
    fix u and d1 :: Disk assume d1: "changed (removal_map is) d d1 \<and> only LogFolder d d1 \<and> within (removals is) d d1"
    have w: "within (removals is) d d2" if "within {} d1 d2" for d2
      using d1 that within_mono [OF that] within_trans by blast
    show "outcome io (if is \<noteq> [] then fsync_dir io LogFolder d1 else (Ok (), d1))
      (\<lambda>_ d'. changed (removal_map is) d d' \<and> only LogFolder d d' \<and> within (removals is) d d' \<and>
         (is \<noteq> [] \<or> synced d LogFolder \<longrightarrow> synced d' LogFolder))
      (\<lambda>d'. only LogFolder d d' \<and> within (removals is) d d')"
      using False outcome_mono [OF fsync_dir_outcome [of io LogFolder d1]] d1 w only_trans
      by (auto simp: changed_def elim!: outcome_mono)
  qed
qed

lemma same_dir_relations:
  assumes "dk_dir d1 = dk_dir d"
  shows "changed U d1 d' = changed U d d'" "only f d1 d' = only f d d'" "within S d1 d' = within S d d'"
  by (simp_all only: changed_def only_def within_def same_dir [OF assms] assms)

lemma same_dir_still:
  assumes "dk_dir d' = dk_dir d"
  shows "only f d d'" "within S d d'"
  using assms by (simp_all add: only_def within_def same_dir [OF assms])

lemma fs_truncate_outcome:
  fixes from_index :: nat
  assumes "disk_ok pc d"
  defines "doomed \<equiv> rev (filter (\<lambda>i. from_index \<le> i) (fs_indices d))"
  shows "outcome io (fs_truncate_from io from_index d)
    (\<lambda>_ d'. changed (removal_map doomed) d d' \<and> only LogFolder d d' \<and> within (removals doomed) d d' \<and>
       (synced d LogFolder \<longrightarrow> synced d' LogFolder))
    (\<lambda>d'. only LogFolder d d' \<and> within (removals doomed) d d')"
  unfolding fs_truncate_from_def
proof (rule outcome_bind [OF outcome_mono [OF list_entry_indices_outcome]])
  fix "is" and d1 :: Disk assume d1: "is = fs_indices d \<and> dk_dir d1 = dk_dir d"
  show "outcome io (remove_batch io (rev (filter (\<lambda>i. from_index \<le> i) is)) d1)
    (\<lambda>_ d'. changed (removal_map doomed) d d' \<and> only LogFolder d d' \<and> within (removals doomed) d d' \<and>
       (synced d LogFolder \<longrightarrow> synced d' LogFolder))
    (\<lambda>d'. only LogFolder d d' \<and> within (removals doomed) d d')"
    by (rule outcome_mono [OF remove_batch_outcome])
      (use d1 same_dir(3) [of d1 d] in \<open>auto simp: doomed_def same_dir_relations [of d1 d]\<close>)
qed (simp_all add: same_dir_still)

text \<open>
  A purge: unless the marker already covers the id, the marker is written and synced, then the
  entries up to it are removed.
\<close>

definition marks :: "Postcard \<Rightarrow> LogId \<Rightarrow> Disk \<Rightarrow> Disk \<Rightarrow> bool" where
  "marks pc l d d1 \<longleftrightarrow>
     changed [(Root, ''last_purged'') \<mapsto> Some (encoded (pc_log_id pc) l)] d d1 \<and> synced d1 Root \<and> only Root d d1 \<and>
     within {(Root, ''last_purged'', Some (encoded (pc_log_id pc) l))} d d1"

abbreviation covered :: "log_view \<Rightarrow> LogId \<Rightarrow> bool" where
  "covered v l \<equiv> (\<exists>p. lv_purged v = Some p \<and> lid_index l \<le> lid_index p)"

lemma fs_purge_outcome:
  fixes l :: LogId
  assumes ok: "disk_ok pc d"
  defines "doomed \<equiv> filter (\<lambda>i. i \<le> lid_index l) (fs_indices d)"
    and "m \<equiv> {(Root, ''last_purged'', Some (encoded (pc_log_id pc) l))}"
  shows "outcome io (fs_purge_through pc io l d)
    (\<lambda>_ d'. if covered (fs_view pc d) l then dk_dir d' = dk_dir d
       else \<exists>d1. marks pc l d d1 \<and> changed (removal_map doomed) d1 d' \<and> only LogFolder d1 d' \<and>
          within (removals doomed) d1 d' \<and> (synced d1 LogFolder \<longrightarrow> synced d' LogFolder))
    (\<lambda>d'. (only Root d d' \<and> within m d d' \<and> (covered (fs_view pc d) l \<longrightarrow> dk_dir d' = dk_dir d)) \<or>
       (\<not> covered (fs_view pc d) l \<and> (\<exists>d1. marks pc l d d1 \<and> only LogFolder d1 d' \<and> within (removals doomed) d1 d')))"
    (is "outcome io _ ?Q ?E")
  unfolding fs_purge_through_def
proof (rule outcome_bind [OF outcome_mono [OF read_last_purged_outcome [OF ok]]])
  fix existing and d1 :: Disk assume d1: "existing = lv_purged (fs_view pc d) \<and> dk_dir d1 = dk_dir d"
  note rel = same_dir_relations [OF conjunct2 [OF d1]]
  let ?b = "encoded (pc_log_id pc) l"
  have enc: "fs_encode (pc_log_id pc) a l d1 = (Ok ?b, d1)" for a using disk_okD(1) [OF ok] by (simp add: fs_encode_def)
  show "outcome io (if (case existing of Some p \<Rightarrow> lid_index p \<ge> lid_index l | None \<Rightarrow> False) then (Ok (), d1)
      else bind_io (fs_encode (pc_log_id pc) ''encode last_purged'' l d1) (\<lambda>b d.
        bind_io (atomic_write io Root ''last_purged'' b d) (\<lambda>_ d.
        bind_io (list_entry_indices io d) (\<lambda>indices d. remove_batch io (filter (\<lambda>i. i \<le> lid_index l) indices) d)))) ?Q ?E"
  proof (cases "covered (fs_view pc d) l")
    case True
    then show ?thesis using d1 by auto
  next
    case False
    have not: "\<not> (case existing of Some p \<Rightarrow> lid_index p \<ge> lid_index l | None \<Rightarrow> False)"
      using False d1 by (simp split: option.split)
    have "outcome io (bind_io (atomic_write io Root ''last_purged'' ?b d1) (\<lambda>_ d.
        bind_io (list_entry_indices io d) (\<lambda>indices d. remove_batch io (filter (\<lambda>i. i \<le> lid_index l) indices) d))) ?Q ?E"
    proof (rule outcome_bind [where R = "\<lambda>_. marks pc l d"])
      show "outcome io (atomic_write io Root ''last_purged'' ?b d1) (\<lambda>_. marks pc l d) ?E"
        by (rule outcome_mono [OF atomic_write_outcome]) (use False in \<open>auto simp: marks_def rel m_def\<close>)
    next
      fix u and d2 :: Disk assume marked: "marks pc l d d2"
      then have fi: "fs_indices d2 = fs_indices d" using only_folder [of Root d d2 LogFolder] by (simp add: marks_def fs_indices_def)
      show "outcome io (bind_io (list_entry_indices io d2) (\<lambda>indices d. remove_batch io (filter (\<lambda>i. i \<le> lid_index l) indices) d)) ?Q ?E"
      proof (rule outcome_bind [OF outcome_mono [OF list_entry_indices_outcome]])
        fix "is" and d3 :: Disk assume d3: "is = fs_indices d2 \<and> dk_dir d3 = dk_dir d2"
        have sd: "filter (\<lambda>i. i \<le> lid_index l) is = doomed" using d3 fi by (simp add: doomed_def)
        show "outcome io (remove_batch io (filter (\<lambda>i. i \<le> lid_index l) is) d3) ?Q ?E"
          unfolding sd using False marked d3 same_dir(3) [of d3 d2]
          by (intro outcome_mono [OF remove_batch_outcome]) (auto simp: same_dir_relations [of d3 d2])
      qed (use False marked same_dir_still in blast)+
    qed
    then show ?thesis by (simp add: not enc)
  qed
qed (simp_all add: same_dir_still)

end
