(* ===== verification/RaftFsStore.thy ===== *)
theory RaftFsStore
  imports RaftFsLog
begin

text \<open>
  What the filesystem log store promises. Without I/O failures it keeps the log-store contract
  for logs that start at index 1. Crashes are the subject of \<open>RaftFsCrash\<close>, and the logs for which
  the contract fails of \<open>RaftFsLimits\<close>.
\<close>

section \<open>The log state\<close>

lemma last_of_run_upt: "last_of_run a found [a ..< a + n] = (if n = 0 then found else Some (a + n - 1))"
proof (induction n arbitrary: a found)
  case (Suc n)
  then show ?case using Suc.IH [of "Suc a" "Some a"] by (auto simp: upt_rec [of a])
qed simp

lemma last_of_run_cases:
  "sorted_wrt (<) is \<Longrightarrow> \<forall>i \<in> set is. a \<le> i \<Longrightarrow>
   (last_of_run a found is = found \<and> a \<notin> set is) \<or>
   (\<exists>k \<ge> a. last_of_run a found is = Some k \<and> {a .. k} \<subseteq> set is \<and> Suc k \<notin> set is)"
proof (induction a found "is" rule: last_of_run.induct)
  case (2 a found i "is")
  show ?case
  proof (cases "i = a")
    case True
    have le: "\<forall>j \<in> set is. a + 1 \<le> j" using 2(2) True by auto
    from 2(1) [OF True _ le] 2(2) True consider
        "last_of_run (a + 1) (Some a) is = Some a" "a + 1 \<notin> set is"
      | k where "k \<ge> a + 1" "last_of_run (a + 1) (Some a) is = Some k" "{a + 1 .. k} \<subseteq> set is" "Suc k \<notin> set is"
      by auto
    then show ?thesis
    proof cases
      case 1
      then show ?thesis using True by (intro disjI2 exI [of _ a]) auto
    next
      case (2 k)
      have "{a .. k} = insert a {a + 1 .. k}" using 2(1) by auto
      then have "{a .. k} \<subseteq> set (i # is)" using True 2(3) by auto
      moreover have "Suc k \<notin> set (i # is)" "last_of_run a found (i # is) = Some k" "a \<le> k" using True 2(1,2,4) by simp_all
      ultimately show ?thesis by blast
    qed
  qed (use 2(2,3) in force)
qed simp

definition fs_state :: "Postcard \<Rightarrow> Disk \<Rightarrow> LogState" where
  "fs_state pc d =
     (let p = lv_purged (fs_view pc d); first = (case p of None \<Rightarrow> 1 | Some l \<Rightarrow> lid_index l + 1);
          above = filter (\<lambda>i. case p of None \<Rightarrow> True | Some l \<Rightarrow> lid_index l < i) (fs_indices d)
      in \<lparr>ls_last_purged = p,
          ls_last_log = Option.bind (last_of_run first None above) (\<lambda>i. map_option se_log_id (entry_at pc d i))\<rparr>)"

lemma last_of_run_in: "last_of_run a found is = Some k \<Longrightarrow> found = Some k \<or> k \<in> set is"
  by (induction a found "is" rule: last_of_run.induct) (auto split: if_splits)

lemma fs_log_state_outcome:
  assumes ok: "disk_ok pc d"
  shows "outcome io (fs_log_state pc io d) (\<lambda>st d'. st = fs_state pc d \<and> dk_dir d' = dk_dir d) (\<lambda>d'. dk_dir d' = dk_dir d)"
  unfolding fs_log_state_def
proof (rule outcome_bind [OF read_last_purged_outcome [OF ok]])
  fix p and d1 :: Disk assume d1: "p = lv_purged (fs_view pc d) \<and> dk_dir d1 = dk_dir d"
  let ?first = "case p of None \<Rightarrow> 1 | Some l \<Rightarrow> lid_index l + 1"
  let ?above = "filter (\<lambda>i. case p of None \<Rightarrow> True | Some l \<Rightarrow> lid_index l < i)"
  have shape: "(case map_option lid_index p of None \<Rightarrow> x | Some c \<Rightarrow> h c) = (case p of None \<Rightarrow> x | Some l \<Rightarrow> h (lid_index l))" for x :: 'x and h
    by (cases p) simp_all
  show "outcome io (bind_io (list_entry_indices io d1) (\<lambda>indices d.
       let purged_cutoff = map_option lid_index p;
           first_expected = (case purged_cutoff of None \<Rightarrow> 1 | Some c \<Rightarrow> c + 1);
           above = filter (\<lambda>i. case purged_cutoff of None \<Rightarrow> True | Some c \<Rightarrow> c < i) indices
       in bind_io (case last_of_run first_expected None above of
              Some i \<Rightarrow> bind_io (read_entry pc io i d) (\<lambda>e d. (Ok (map_option se_log_id e), d))
            | None \<Rightarrow> (Ok None, d)) (\<lambda>last_log d. (Ok \<lparr>ls_last_purged = p, ls_last_log = last_log\<rparr>, d))))
    (\<lambda>st d'. st = fs_state pc d \<and> dk_dir d' = dk_dir d) (\<lambda>d'. dk_dir d' = dk_dir d)"
    unfolding Let_def shape
  proof (rule outcome_bind [where R = "\<lambda>is d2. is = fs_indices d \<and> dk_dir d2 = dk_dir d"])
    show "outcome io (list_entry_indices io d1) (\<lambda>is d2. is = fs_indices d \<and> dk_dir d2 = dk_dir d) (\<lambda>d'. dk_dir d' = dk_dir d)"
      by (rule outcome_mono [OF list_entry_indices_outcome]) (use d1 same_files(3) [OF same_dir(1), of d1 d] in auto)
  next
    fix "is" and d2 :: Disk assume d2: "is = fs_indices d \<and> dk_dir d2 = dk_dir d"
    let ?last = "last_of_run ?first None (?above is)"
    show "outcome io (bind_io (case ?last of Some i \<Rightarrow> bind_io (read_entry pc io i d2) (\<lambda>e d. (Ok (map_option se_log_id e), d)) | None \<Rightarrow> (Ok None, d2))
        (\<lambda>last_log d. (Ok \<lparr>ls_last_purged = p, ls_last_log = last_log\<rparr>, d)))
      (\<lambda>st d'. st = fs_state pc d \<and> dk_dir d' = dk_dir d) (\<lambda>d'. dk_dir d' = dk_dir d)"
    proof (cases ?last)
      case None
      then show ?thesis using d1 d2 by (simp add: fs_state_def Let_def)
    next
      case (Some k)
      then have "k < 2 ^ 64" using last_of_run_in [OF Some] d2 fs_indices_set [OF ok] entry_at_Some [OF ok] by auto
      moreover have "disk_ok pc d2" "entry_at pc d2 = entry_at pc d"
        using ok d2 same_dir_ok [of d2 d] same_files(2) [OF same_dir(1), of d2 d] by simp_all
      ultimately have "outcome io (read_entry pc io k d2) (\<lambda>v d'. v = entry_at pc d k \<and> dk_dir d' = dk_dir d) (\<lambda>d'. dk_dir d' = dk_dir d)"
        using read_entry_outcome [of pc d2 k io] d2 by simp
      then have "outcome io (bind_io (read_entry pc io k d2) (\<lambda>e d. (Ok (map_option se_log_id e), d)))
          (\<lambda>v d'. v = map_option se_log_id (entry_at pc d k) \<and> dk_dir d' = dk_dir d) (\<lambda>d'. dk_dir d' = dk_dir d)"
        by (rule outcome_bind) simp
      then have "outcome io (bind_io (bind_io (read_entry pc io k d2) (\<lambda>e d. (Ok (map_option se_log_id e), d)))
          (\<lambda>last_log d. (Ok \<lparr>ls_last_purged = p, ls_last_log = last_log\<rparr>, d)))
        (\<lambda>st d'. st = fs_state pc d \<and> dk_dir d' = dk_dir d) (\<lambda>d'. dk_dir d' = dk_dir d)"
        by (rule outcome_bind) (use d1 d2 Some in \<open>simp add: fs_state_def Let_def\<close>)
      then show ?thesis using Some by simp
    qed
  qed
qed

section \<open>Contents after a write\<close>

lemma view_indices: "disk_ok pc d \<Longrightarrow> map se_index (lv_entries (fs_view pc d)) = fs_indices d"
proof -
  assume ok: "disk_ok pc d"
  have "map se_index (List.map_filter (entry_at pc d) is) = is" if "set is \<subseteq> dom (entry_at pc d)" for "is"
    using that entry_at_index [OF ok] by (induction "is") (auto simp: List.map_filter_simps)
  then show ?thesis using fs_indices_set [OF ok] by (simp add: fs_view_def)
qed

lemma view_sorted: "disk_ok pc d \<Longrightarrow> sorted_wrt (<) (map se_index (lv_entries (fs_view pc d)))"
  using view_indices fs_indices_strict by metis

lemma view_entry_at: "disk_ok pc d \<Longrightarrow> entry_at pc d = index_map (lv_entries (fs_view pc d))"
  using view_entries_iff [OF _ view_sorted] by blast

lemma entry_map_index:
  assumes "distinct (map se_index es)" "\<forall>e \<in> set es. se_index e < 2 ^ 64" "i < 2 ^ 64"
  shows "entry_map pc es (LogFolder, entry_filename i) = map_option (\<lambda>e. Some (encoded (pc_entry pc) e)) (index_map es i)"
proof (rule option_eqI)
  fix v
  let ?kv = "\<lambda>e. ((LogFolder, entry_filename (se_index e)), Some (encoded (pc_entry pc) e))"
  have inj: "inj_on (\<lambda>e. (LogFolder, entry_filename (se_index e))) (set es)"
    using assms(1,2) by (auto simp: inj_on_def entry_filename_inject distinct_map)
  have "distinct (map (\<lambda>e. (LogFolder, entry_filename (se_index e))) es)"
    using assms(1) inj by (simp add: distinct_map)
  then have "distinct (map fst (rev (map ?kv es)))" by (simp add: rev_map [symmetric] o_def)
  then have "entry_map pc es (LogFolder, entry_filename i) = Some v \<longleftrightarrow>
      (\<exists>e \<in> set es. entry_filename (se_index e) = entry_filename i \<and> v = Some (encoded (pc_entry pc) e))"
    unfolding entry_map_def by (subst map_of_eq_Some_iff) (force simp: image_iff)+
  also have "\<dots> \<longleftrightarrow> (\<exists>e. index_map es i = Some e \<and> v = Some (encoded (pc_entry pc) e))"
    using assms(2,3) by (auto simp: index_map_Some [OF assms(1)] entry_filename_inject)
  finally show "entry_map pc es (LogFolder, entry_filename i) = Some v \<longleftrightarrow>
      map_option (\<lambda>e. Some (encoded (pc_entry pc) e)) (index_map es i) = Some v" by auto
qed

lemma entry_at_encoded:
  "postcard_ok pc \<Longrightarrow> i < 2 ^ 64 \<Longrightarrow> hm_get (files d LogFolder) (entry_filename i) = Some (encoded (pc_entry pc) e) \<Longrightarrow>
   entry_at pc d i = Some e"
  unfolding entry_at_def value_of_def by simp

lemma entry_at_cong:
  "i < 2 ^ 64 \<Longrightarrow> hm_get (files d' LogFolder) (entry_filename i) = hm_get (files d LogFolder) (entry_filename i) \<Longrightarrow>
   entry_at pc d' i = entry_at pc d i"
  unfolding entry_at_def value_of_def by simp

lemma entry_at_append:
  assumes "postcard_ok pc" "changed (entry_map pc es) d d'" "distinct (map se_index es)" "\<forall>e \<in> set es. se_index e < 2 ^ 64"
  shows "entry_at pc d' = entry_at pc d ++ index_map es"
proof (rule ext)
  fix i
  show "entry_at pc d' i = (entry_at pc d ++ index_map es) i"
  proof (cases "i < 2 ^ 64")
    case True
    have content: "hm_get (files d' LogFolder) (entry_filename i) =
        (case index_map es i of Some e \<Rightarrow> Some (encoded (pc_entry pc) e) | None \<Rightarrow> hm_get (files d LogFolder) (entry_filename i))"
      using assms(2) entry_map_index [OF assms(3,4) True, of pc] by (simp add: changed_def split: option.split)
    show ?thesis
    proof (cases "index_map es i")
      case None
      then show ?thesis using content entry_at_cong [OF True, of d' d pc] by (simp add: map_add_def)
    next
      case (Some e)
      then show ?thesis using content entry_at_encoded [OF assms(1) True, of d' e] by (simp add: map_add_def)
    qed
  next
    case False
    then have "i \<notin> dom (index_map es)" unfolding index_map_dom using assms(4) by auto
    then show ?thesis using False by (simp add: entry_at_def map_add_def domIff)
  qed
qed

lemma entry_at_removed:
  assumes "changed (removal_map is) d d'" "\<forall>i \<in> set is. i < 2 ^ 64"
  shows "entry_at pc d' i = (if i \<in> set is then None else entry_at pc d i)"
proof (cases "i < 2 ^ 64")
  case True
  have "entry_filename i \<in> entry_filename ` set is \<longleftrightarrow> i \<in> set is" using True assms(2) entry_filename_inject by (metis imageE imageI)
  then have "hm_get (files d' LogFolder) (entry_filename i) = (if i \<in> set is then None else hm_get (files d LogFolder) (entry_filename i))"
    using assms(1) by (simp add: changed_def removal_map_def)
  then show ?thesis using True by (simp add: entry_at_def value_of_def)
qed (use assms(2) in \<open>auto simp: entry_at_def\<close>)

lemma index_map_append: "distinct (map se_index (es @ fs)) \<Longrightarrow> index_map (es @ fs) = index_map es ++ index_map fs"
proof -
  assume "distinct (map se_index (es @ fs))"
  then have "dom (index_map es) \<inter> dom (index_map fs) = {}" unfolding index_map_dom by auto
  then show ?thesis unfolding index_map_def map_append map_of_append by (rule map_add_comm [symmetric])
qed

lemma root_view:
  assumes "files d' Root = files d Root"
  shows "fs_view pc d' = (fs_view pc d)\<lparr>lv_entries := lv_entries (fs_view pc d')\<rparr>"
  using assms by (simp add: fs_view_def value_of_def)

lemma view_entries_bound: "disk_ok pc d \<Longrightarrow> e \<in> set (lv_entries (fs_view pc d)) \<Longrightarrow> se_index e < 2 ^ 64"
  by (auto simp: fs_view_def set_map_filter entry_at_Some)

lemma fs_indices_bound: "disk_ok pc d \<Longrightarrow> i \<in> set (fs_indices d) \<Longrightarrow> i < 2 ^ 64"
  using fs_indices_set by (auto simp: entry_at_Some)

section \<open>The contract\<close>

abbreviation no_failure :: io_oracle where
  "no_failure \<equiv> (\<lambda>_. True)"

lemma contiguous_bound: "contiguous base v \<Longrightarrow> e \<in> set (lv_entries v) \<Longrightarrow> se_index e < 2 ^ 64"
proof -
  assume c: "contiguous base v" "e \<in> set (lv_entries v)"
  then have "se_index e \<in> set (map se_index (lv_entries v))" by simp
  with c(1) show ?thesis unfolding contiguous_def by (metis atLeastLessThan_iff less_trans set_upt)
qed

lemma fs_append_ok:
  assumes "fs_good pc d" "extends_log 1 (fs_view pc d) es" "changed (entry_map pc es) d d'" "only LogFolder d d'"
    "within (entry_updates pc es) d d'"
  shows "fs_good pc d' \<and> fs_view pc d' = (fs_view pc d)\<lparr>lv_entries := lv_entries (fs_view pc d) @ es\<rparr>"
proof -
  let ?L = "lv_entries (fs_view pc d)" and ?v = "(fs_view pc d)\<lparr>lv_entries := lv_entries (fs_view pc d) @ es\<rparr>"
  have ok: "disk_ok pc d" "postcard_ok pc" using assms(1) disk_okD(1) by (auto simp: fs_good_def)
  have c: "contiguous 1 ?v" using assms(2) by (simp add: extends_log_def)
  have sorted: "sorted_wrt (<) (map se_index (?L @ es))" using contiguous_sorted [OF c] by simp
  then have dist: "distinct (map se_index (?L @ es))" unfolding strict_sorted_iff by simp
  have bound: "\<forall>e \<in> set es. se_index e < 2 ^ 64" using contiguous_bound [OF c] by auto
  have ok': "disk_ok pc d'" using within_disk_ok [OF ok(1) assms(5)] entry_updates_ok bound by blast
  have "entry_at pc d' = index_map (?L @ es)"
    using entry_at_append [OF ok(2) assms(3) _ bound] dist good_entry_at [OF assms(1)] index_map_append [OF dist] by simp
  then have "lv_entries (fs_view pc d') = ?L @ es" by (simp only: view_entries_iff [OF ok' sorted])
  then have "fs_view pc d' = ?v" using root_view [of d' d pc] only_folder [OF assms(4), of Root] by simp
  then show ?thesis using ok' c by (simp add: fs_good_def)
qed

lemma fs_removed_ok:
  assumes "disk_ok pc d" "changed (removal_map is) d d'" "only LogFolder d d'" "within (removals is) d d'"
    "\<And>i. i \<in> set (fs_indices d) \<Longrightarrow> i \<in> set is \<longleftrightarrow> \<not> P i" "set is \<subseteq> set (fs_indices d)"
  shows "disk_ok pc d' \<and> fs_view pc d' = (fs_view pc d)\<lparr>lv_entries := filter (\<lambda>e. P (se_index e)) (lv_entries (fs_view pc d))\<rparr>"
proof -
  let ?L = "lv_entries (fs_view pc d)"
  have ok': "disk_ok pc d'" using within_disk_ok [OF assms(1,4)] removals_ok by blast
  have sorted: "sorted_wrt (<) (map se_index ?L)" using view_sorted [OF assms(1)] .
  then have dist: "distinct (map se_index ?L)" unfolding strict_sorted_iff by simp
  have bound: "\<forall>i \<in> set is. i < 2 ^ 64" using assms(6) fs_indices_bound [OF assms(1)] by blast
  have "entry_at pc d' = index_map (filter (\<lambda>e. P (se_index e)) ?L)"
  proof (rule ext)
    fix i
    have "i \<in> set (fs_indices d) \<longleftrightarrow> entry_at pc d i \<noteq> None" using fs_indices_set [OF assms(1)] by (auto simp: domIff)
    then show "entry_at pc d' i = index_map (filter (\<lambda>e. P (se_index e)) ?L) i"
      using entry_at_removed [OF assms(2) bound, of pc i] index_map_filter [OF dist, of P i] view_entry_at [OF assms(1)] assms(5,6)
      by auto
  qed
  moreover have "sorted_wrt (<) (map se_index (filter (\<lambda>e. P (se_index e)) ?L))"
    using sorted by (simp add: sorted_wrt_map sorted_wrt_filter)
  ultimately have "lv_entries (fs_view pc d') = filter (\<lambda>e. P (se_index e)) ?L" by (simp only: view_entries_iff [OF ok'])
  then show ?thesis using ok' root_view [of d' d pc] only_folder [OF assms(3), of Root] by simp
qed

lemma log_only_root:
  assumes "only Root d d'"
  shows "lv_entries (fs_view pc d') = lv_entries (fs_view pc d)" "fs_indices d' = fs_indices d" "entry_at pc d' = entry_at pc d"
proof -
  have f: "files d' LogFolder = files d LogFolder" using only_folder [OF assms, of LogFolder] by simp
  show i: "fs_indices d' = fs_indices d" using f by (simp add: fs_indices_def)
  show e: "entry_at pc d' = entry_at pc d" using f by (simp add: entry_at_def value_of_def fun_eq_iff)
  show "lv_entries (fs_view pc d') = lv_entries (fs_view pc d)" using i e by (simp add: fs_view_def)
qed

lemma marker_within_ok:
  assumes "disk_ok pc d" "within {(Root, name, v)} d d'"
    "\<And>b. v = Some b \<Longrightarrow> (name = ''vote'' \<and> b \<in> range (encoded (pc_vote pc))) \<or>
       (name \<in> {''committed'', ''last_purged''} \<and> b \<in> range (encoded (pc_log_id pc)))"
  shows "disk_ok pc d'"
  by (rule within_disk_ok [OF assms(1,2)]) (use assms(3) in \<open>auto simp: marker_ok_def\<close>)

lemma value_of_changed:
  "changed U d d' \<Longrightarrow> \<not> is_tmp name \<Longrightarrow>
   value_of c d' f name = (case U (f, name) of None \<Rightarrow> value_of c d f name | Some v \<Rightarrow> Option.bind v (cd_dec c))"
  by (simp add: value_of_def changed_def split: option.split)

lemma fs_marker_view:
  assumes "changed [(Root, name) \<mapsto> v] d d'" "only Root d d'"
  shows "fs_view pc d' =
    \<lparr>lv_purged = (if name = ''last_purged'' then Option.bind v (cd_dec (pc_log_id pc)) else lv_purged (fs_view pc d)),
     lv_entries = lv_entries (fs_view pc d),
     lv_vote = (if name = ''vote'' then Option.bind v (cd_dec (pc_vote pc)) else lv_vote (fs_view pc d)),
     lv_committed = (if name = ''committed'' then Option.bind v (cd_dec (pc_log_id pc)) else lv_committed (fs_view pc d))\<rparr>"
proof -
  have view: "fs_view pc d' = \<lparr>lv_purged = value_of (pc_log_id pc) d' Root ''last_purged'', lv_entries = lv_entries (fs_view pc d),
      lv_vote = value_of (pc_vote pc) d' Root ''vote'', lv_committed = value_of (pc_log_id pc) d' Root ''committed''\<rparr>"
    using log_only_root(1) [OF assms(2), of pc] by (simp add: fs_view_def)
  have val: "value_of c d' Root n = (if name = n then Option.bind v (cd_dec c) else value_of c d Root n)"
    if "\<not> is_tmp n" for n and c :: "'x codec"
    using value_of_changed [OF assms(1) that, of c Root] by simp
  show ?thesis unfolding view by (simp add: fs_view_def [of pc d] val)
qed

lemma fs_truncate_ok:
  fixes i :: nat
  assumes "fs_good pc d" "changed (removal_map (rev (filter (\<lambda>k. i \<le> k) (fs_indices d)))) d d'" "only LogFolder d d'"
    "within (removals (rev (filter (\<lambda>k. i \<le> k) (fs_indices d)))) d d'"
  shows "fs_good pc d' \<and> fs_view pc d' = spec_truncate i (fs_view pc d)"
proof -
  have ok: "disk_ok pc d" and c: "contiguous 1 (fs_view pc d)" using assms(1) by (auto simp: fs_good_def)
  have "disk_ok pc d' \<and> fs_view pc d' = spec_truncate i (fs_view pc d)"
    unfolding spec_truncate_def by (rule fs_removed_ok [OF ok assms(2,3,4)]) auto
  then show ?thesis using contiguous_truncate [OF c, of i] by (simp add: fs_good_def)
qed

lemma marks_view:
  assumes "disk_ok pc d" "marks pc l d d1"
  shows "disk_ok pc d1" "fs_view pc d1 = (fs_view pc d)\<lparr>lv_purged := Some l\<rparr>" "fs_indices d1 = fs_indices d"
  using assms disk_okD(1) [OF assms(1)] log_only_root(2)
  by (auto simp: marks_def fs_marker_view intro: marker_within_ok)

lemma fs_purge_ok:
  assumes "fs_good pc d" "marks pc l d d1" "\<not> covered (fs_view pc d) l" "lid_index l + 1 < 2 ^ 64"
    "changed (removal_map (filter (\<lambda>i. i \<le> lid_index l) (fs_indices d))) d1 d'" "only LogFolder d1 d'"
    "within (removals (filter (\<lambda>i. i \<le> lid_index l) (fs_indices d))) d1 d'"
  shows "fs_good pc d' \<and> fs_view pc d' = spec_purge l (fs_view pc d)"
proof -
  have ok: "disk_ok pc d" and c: "contiguous 1 (fs_view pc d)" using assms(1) by (auto simp: fs_good_def)
  note d1 = marks_view [OF ok assms(2)]
  have "disk_ok pc d' \<and> fs_view pc d' = (fs_view pc d1)\<lparr>lv_entries := filter (\<lambda>e. lid_index l < se_index e) (lv_entries (fs_view pc d1))\<rparr>"
    by (rule fs_removed_ok [OF d1(1) assms(5,6,7)]) (auto simp: d1(3))
  moreover have "spec_purge l (fs_view pc d) =
      (fs_view pc d)\<lparr>lv_purged := Some l, lv_entries := filter (\<lambda>e. lid_index l < se_index e) (lv_entries (fs_view pc d))\<rparr>"
    unfolding spec_purge_def by (rule if_not_P [OF assms(3)])
  ultimately show ?thesis using contiguous_purge [OF c _ assms(4)] d1(2) by (simp add: fs_good_def)
qed

lemma fs_save_vote_outcome:
  assumes "disk_ok pc d"
  shows "outcome io (fs_save_vote pc io v d)
    (\<lambda>_ d'. disk_ok pc d' \<and> fs_view pc d' = (fs_view pc d)\<lparr>lv_vote := Some v\<rparr> \<and> synced d' Root \<and> only Root d d')
    (\<lambda>d'. only Root d d' \<and> within {(Root, ''vote'', Some (encoded (pc_vote pc) v))} d d')"
proof -
  have enc: "fs_encode (pc_vote pc) a v d = (Ok (encoded (pc_vote pc) v), d)" for a
    using disk_okD(1) [OF assms] by (simp add: fs_encode_def)
  show ?thesis unfolding fs_save_vote_def enc bind_io.simps
    by (rule outcome_mono [OF atomic_write_outcome])
      (use assms disk_okD(1) [OF assms] in \<open>auto simp: fs_marker_view intro: marker_within_ok\<close>)
qed

lemma fs_save_committed_outcome:
  assumes "disk_ok pc d"
  shows "outcome io (fs_save_committed pc io c d)
    (\<lambda>_ d'. disk_ok pc d' \<and> fs_view pc d' = (fs_view pc d)\<lparr>lv_committed := c\<rparr> \<and> synced d' Root \<and> only Root d d')
    (\<lambda>d'. only Root d d' \<and> within {(Root, ''committed'', map_option (encoded (pc_log_id pc)) c)} d d')"
proof (cases c)
  case (Some l)
  have enc: "fs_encode (pc_log_id pc) a l d = (Ok (encoded (pc_log_id pc) l), d)" for a
    using disk_okD(1) [OF assms] by (simp add: fs_encode_def)
  show ?thesis unfolding fs_save_committed_def Some option.case enc bind_io.simps
    by (rule outcome_mono [OF atomic_write_outcome])
      (use assms disk_okD(1) [OF assms] in \<open>auto simp: fs_marker_view intro: marker_within_ok\<close>)
next
  case None
  show ?thesis unfolding fs_save_committed_def None option.case
  proof (rule outcome_bind [where R = "\<lambda>_ d'. changed [(Root, ''committed'') \<mapsto> None] d d' \<and> only Root d d' \<and> within {(Root, ''committed'', None)} d d'"])
    fix u and d1 :: Disk assume d1: "changed [(Root, ''committed'') \<mapsto> None] d d1 \<and> only Root d d1 \<and> within {(Root, ''committed'', None)} d d1"
    have w: "within {(Root, ''committed'', None)} d d2" if "within {} d1 d2" for d2
      using d1 that within_mono [OF that] within_trans by blast
    have ok: "disk_ok pc d2" if "within {} d1 d2" for d2
      using marker_within_ok [OF assms w [OF that]] by simp
    show "outcome io (fsync_dir io Root d1)
      (\<lambda>_ d'. disk_ok pc d' \<and> fs_view pc d' = (fs_view pc d)\<lparr>lv_committed := None\<rparr> \<and> synced d' Root \<and> only Root d d')
      (\<lambda>d'. only Root d d' \<and> within {(Root, ''committed'', map_option (encoded (pc_log_id pc)) None)} d d')"
    proof (rule outcome_mono [OF fsync_dir_outcome])
      fix u and d2 :: Disk assume d2: "synced d2 Root \<and> files d2 = files d1 \<and> only Root d1 d2 \<and> within {} d1 d2"
      then have "fs_view pc d2 = fs_view pc d1" using same_files(1) by blast
      then show "disk_ok pc d2 \<and> fs_view pc d2 = (fs_view pc d)\<lparr>lv_committed := None\<rparr> \<and> synced d2 Root \<and> only Root d d2"
        using d1 d2 ok only_trans by (auto simp: fs_marker_view)
    qed (use d1 w only_trans in auto)
  qed (rule outcome_mono [OF remove_outcome], use within_mono in auto)
qed

lemma fs_delivers:
  assumes "outcome no_failure r (\<lambda>y d'. y = x \<and> fs_good pc d' \<and> fs_view pc d' = v) E"
  shows "delivers (fs_view pc) (fs_good pc) r x v"
  using outcome_all_ok [OF assms] by (auto simp: delivers_def)

lemma fs_good_same: "fs_good pc d \<Longrightarrow> dk_dir d' = dk_dir d \<Longrightarrow> fs_good pc d' \<and> fs_view pc d' = fs_view pc d"
  using same_dir_ok [of d' d pc] same_files(1) [OF same_dir(1), of d' d pc] by (simp add: fs_good_def)

lemma fs_state_spec:
  assumes "fs_good pc d"
  shows "fs_state pc d = spec_state (fs_view pc d)"
proof -
  let ?v = "fs_view pc d" and ?f = "first_index 1 (fs_view pc d)" and ?n = "length (lv_entries (fs_view pc d))"
  have ok: "disk_ok pc d" and c: "contiguous 1 ?v" using assms by (auto simp: fs_good_def)
  have dist: "distinct (map se_index (lv_entries ?v))" using contiguous_sorted [OF c] unfolding strict_sorted_iff by simp
  have idx: "fs_indices d = [?f ..< ?f + ?n]" using view_indices [OF ok] c by (simp add: contiguous_def)
  have first: "(case lv_purged ?v of None \<Rightarrow> 1 | Some l \<Rightarrow> lid_index l + 1) = ?f" by (simp add: first_index_def split: option.split)
  have above: "filter (\<lambda>i. case lv_purged ?v of None \<Rightarrow> True | Some l \<Rightarrow> lid_index l < i) (fs_indices d) = fs_indices d"
    unfolding idx by (auto simp: filter_id_conv first_index_def split: option.splits)
  have last: "entry_at pc d (?f + ?n - 1) = Some (last (lv_entries ?v))" if "?n \<noteq> 0"
  proof -
    have "map se_index (lv_entries ?v) = [?f ..< ?f + ?n]" using c by (simp add: contiguous_def)
    then have "se_index (last (lv_entries ?v)) = last [?f ..< ?f + ?n]" using that by (metis last_map length_0_conv)
    also have "\<dots> = ?f + ?n - 1" using that by (simp add: last_upt)
    finally show ?thesis using that by (simp add: good_entry_at [OF assms] index_map_Some [OF dist])
  qed
  show ?thesis
    unfolding fs_state_def spec_state_def Let_def first above unfolding idx last_of_run_upt using last by auto
qed

interpretation fs: log_store "FsRaftLogStore pc no_failure" "fs_view pc" "fs_good pc" 1 for pc
proof
  fix d assume good: "fs_good pc d"
  then have ok: "disk_ok pc d" and pok: "postcard_ok pc" and c: "contiguous 1 (fs_view pc d)"
    using disk_okD(1) by (auto simp: fs_good_def)
  show "contiguous 1 (fs_view pc d)" by (rule c)
  show "delivers (fs_view pc) (fs_good pc) (rls_append (FsRaftLogStore pc no_failure) es d) ()
      ((fs_view pc d)\<lparr>lv_entries := lv_entries (fs_view pc d) @ es\<rparr>)" if "extends_log 1 (fs_view pc d) es" for es
    by (rule fs_delivers, simp add: FsRaftLogStore_def, rule outcome_mono [OF fs_append_outcome [OF pok]])
      (use fs_append_ok [OF good that] in auto)
  show "delivers (fs_view pc) (fs_good pc) (rls_read_range (FsRaftLogStore pc no_failure) a b d) (spec_range a b (fs_view pc d)) (fs_view pc d)" for a b
  proof -
    have bound: "\<forall>i \<in> set (filter (\<lambda>i. a \<le> i \<and> i < b) (fs_indices d)). i < 2 ^ 64" using fs_indices_bound [OF ok] by simp
    have range: "List.map_filter (entry_at pc d) (filter (\<lambda>i. a \<le> i \<and> i < b) is) =
        filter (\<lambda>e. a \<le> se_index e \<and> se_index e < b) (List.map_filter (entry_at pc d) is)" for "is"
      using entry_at_index [OF ok] by (induction "is") (auto simp: List.map_filter_simps split: option.split)
    have "outcome no_failure (fs_read_range pc no_failure a b d)
        (\<lambda>y d'. y = spec_range a b (fs_view pc d) \<and> fs_good pc d' \<and> fs_view pc d' = fs_view pc d) (\<lambda>_. True)"
      unfolding fs_read_range_def
    proof (rule outcome_bind [where R = "\<lambda>is d1. is = fs_indices d \<and> dk_dir d1 = dk_dir d"])
      fix "is" and d1 :: Disk assume d1: "is = fs_indices d \<and> dk_dir d1 = dk_dir d"
      then have same: "disk_ok pc d1" "entry_at pc d1 = entry_at pc d"
        using ok same_dir_ok [of d1 d] same_files(2) [OF same_dir(1), of d1 d] by simp_all
      show "outcome no_failure (read_entries pc no_failure (filter (\<lambda>i. a \<le> i \<and> i < b) is) d1)
          (\<lambda>y d'. y = spec_range a b (fs_view pc d) \<and> fs_good pc d' \<and> fs_view pc d' = fs_view pc d) (\<lambda>_. True)"
        by (rule outcome_mono [OF read_entries_outcome [OF same(1)]])
          (use d1 bound same(2) fs_good_same [OF good] range in \<open>auto simp: spec_range_def fs_view_def [of pc d]\<close>)
    qed (rule outcome_mono [OF list_entry_indices_outcome], auto)
    then show ?thesis unfolding FsRaftLogStore_def by (simp add: fs_delivers)
  qed
  show "delivers (fs_view pc) (fs_good pc) (rls_truncate_from (FsRaftLogStore pc no_failure) i d) () (spec_truncate i (fs_view pc d))" for i
    by (rule fs_delivers, simp add: FsRaftLogStore_def, rule outcome_mono [OF fs_truncate_outcome [OF ok]])
      (use fs_truncate_ok [OF good] in auto)
  show "delivers (fs_view pc) (fs_good pc) (rls_purge_through (FsRaftLogStore pc no_failure) l d) () (spec_purge l (fs_view pc d))"
    if "lid_index l + 1 < 2 ^ 64" for l
  proof (rule fs_delivers, simp add: FsRaftLogStore_def, rule outcome_mono [OF fs_purge_outcome [OF ok]])
    fix u and d' :: Disk
    let ?doomed = "filter (\<lambda>i. i \<le> lid_index l) (fs_indices d)"
    assume q: "if covered (fs_view pc d) l then dk_dir d' = dk_dir d
      else \<exists>d1. marks pc l d d1 \<and> changed (removal_map ?doomed) d1 d' \<and> only LogFolder d1 d' \<and>
         within (removals ?doomed) d1 d' \<and> (synced d1 LogFolder \<longrightarrow> synced d' LogFolder)"
    show "fs_good pc d' \<and> fs_view pc d' = spec_purge l (fs_view pc d)"
    proof (cases "covered (fs_view pc d) l")
      case True
      then show ?thesis using q fs_good_same [OF good, of d'] by (simp add: spec_purge_def)
    next
      case False
      then obtain d1 where "marks pc l d d1" "changed (removal_map ?doomed) d1 d'" "only LogFolder d1 d'" "within (removals ?doomed) d1 d'"
        using q [unfolded if_not_P [OF False]] by blast
      then show ?thesis using fs_purge_ok [OF good _ False that] by blast
    qed
  qed
  show "delivers (fs_view pc) (fs_good pc) (rls_read_vote (FsRaftLogStore pc no_failure) d) (lv_vote (fs_view pc d)) (fs_view pc d)"
    by (rule fs_delivers, simp add: FsRaftLogStore_def fs_read_vote_def, rule outcome_mono [OF fs_read_value_outcome])
      (use marker_decodes(1) [OF ok] in blast, elim conjE, drule fs_good_same [OF good], simp add: fs_view_def [of pc d])
  show "delivers (fs_view pc) (fs_good pc) (rls_read_committed (FsRaftLogStore pc no_failure) d) (lv_committed (fs_view pc d)) (fs_view pc d)"
    by (rule fs_delivers, simp add: FsRaftLogStore_def fs_read_committed_def, rule outcome_mono [OF fs_read_value_outcome])
      (use marker_decodes(2) [OF ok] in blast, elim conjE, drule fs_good_same [OF good], simp add: fs_view_def [of pc d])
  show "delivers (fs_view pc) (fs_good pc) (rls_log_state (FsRaftLogStore pc no_failure) d) (spec_state (fs_view pc d)) (fs_view pc d)"
    by (rule fs_delivers, simp add: FsRaftLogStore_def, rule outcome_mono [OF fs_log_state_outcome [OF ok]])
      (elim conjE, drule fs_good_same [OF good], simp add: fs_state_spec [OF good])
  show "delivers (fs_view pc) (fs_good pc) (rls_save_vote (FsRaftLogStore pc no_failure) v d) () ((fs_view pc d)\<lparr>lv_vote := Some v\<rparr>)" for v
    by (rule fs_delivers, simp add: FsRaftLogStore_def, rule outcome_mono [OF fs_save_vote_outcome [OF ok]])
      (use c in \<open>auto simp: fs_good_def contiguous_def first_index_def\<close>)
  show "delivers (fs_view pc) (fs_good pc) (rls_save_committed (FsRaftLogStore pc no_failure) l d) () ((fs_view pc d)\<lparr>lv_committed := l\<rparr>)" for l
    by (rule fs_delivers, simp add: FsRaftLogStore_def, rule outcome_mono [OF fs_save_committed_outcome [OF ok]])
      (use c in \<open>auto simp: fs_good_def contiguous_def first_index_def\<close>)
qed simp

end
