(* ===== verification/RaftFsCrash.thy ===== *)
theory RaftFsCrash
  imports RaftFsStore
begin

text \<open>
  Crashes of the filesystem log store: what a node finds after an append, a truncation or a purge
  that stopped at any I/O call and lost any subset of the directory updates not yet synced.
\<close>

section \<open>Recovery\<close>

text \<open>
  \<open>recovers pc d p es\<close>: openraft, asking for the log state and reading the log up to it, gets the
  purge id \<open>p\<close> and the entries \<open>es\<close>.
\<close>

definition recovers :: "Postcard \<Rightarrow> Disk \<Rightarrow> LogId option \<Rightarrow> StoredEntry list \<Rightarrow> bool" where
  "recovers pc d p es \<longleftrightarrow>
     (let first = (case p of None \<Rightarrow> 1 | Some l \<Rightarrow> lid_index l + 1)
      in fst (fs_log_state pc no_failure d) =
           Ok \<lparr>ls_last_purged = p, ls_last_log = (if es = [] then None else Some (se_log_id (last es)))\<rparr> \<and>
         fst (fs_read_range pc no_failure first (first + length es) d) = Ok es)"

lemma fs_read_range_result:
  assumes "disk_ok pc d"
  shows "fst (fs_read_range pc no_failure a b d) = Ok (List.map_filter (entry_at pc d) (filter (\<lambda>i. a \<le> i \<and> i < b) (fs_indices d)))"
proof -
  have bound: "\<forall>i \<in> set (filter (\<lambda>i. a \<le> i \<and> i < b) (fs_indices d)). i < 2 ^ 64" using fs_indices_bound [OF assms] by simp
  have "outcome no_failure (fs_read_range pc no_failure a b d)
      (\<lambda>y _. y = List.map_filter (entry_at pc d) (filter (\<lambda>i. a \<le> i \<and> i < b) (fs_indices d))) (\<lambda>_. True)"
    unfolding fs_read_range_def
  proof (rule outcome_bind [where R = "\<lambda>is d1. is = fs_indices d \<and> dk_dir d1 = dk_dir d"])
    fix "is" and d1 :: Disk assume d1: "is = fs_indices d \<and> dk_dir d1 = dk_dir d"
    then have same: "disk_ok pc d1" "entry_at pc d1 = entry_at pc d"
      using assms same_dir_ok [of d1 d] same_files(2) [OF same_dir(1), of d1 d] by simp_all
    show "outcome no_failure (read_entries pc no_failure (filter (\<lambda>i. a \<le> i \<and> i < b) is) d1)
        (\<lambda>y _. y = List.map_filter (entry_at pc d) (filter (\<lambda>i. a \<le> i \<and> i < b) (fs_indices d))) (\<lambda>_. True)"
      by (rule outcome_mono [OF read_entries_outcome [OF same(1)]]) (use d1 bound same(2) in auto)
  qed (rule outcome_mono [OF list_entry_indices_outcome], auto)
  then show ?thesis using outcome_all_ok by fastforce
qed

lemma filter_between_indices:
  assumes "disk_ok pc d" "set [a ..< b] \<subseteq> dom (entry_at pc d)"
  shows "filter (\<lambda>i. a \<le> i \<and> i < b) (fs_indices d) = [a ..< b]"
proof (rule sorted_distinct_set_unique)
  show "set (filter (\<lambda>i. a \<le> i \<and> i < b) (fs_indices d)) = set [a ..< b]"
    using assms(2) fs_indices_set [OF assms(1)] by auto
  show "sorted (filter (\<lambda>i. a \<le> i \<and> i < b) (fs_indices d))" "distinct (filter (\<lambda>i. a \<le> i \<and> i < b) (fs_indices d))"
    using fs_indices_strict [OF assms(1)] by (simp_all add: strict_sorted_iff sorted_wrt_filter)
qed simp_all

lemma recovers_run:
  fixes es :: "StoredEntry list"
  assumes ok: "disk_ok pc d" and p: "lv_purged (fs_view pc d) = p"
  defines "f \<equiv> (case p of None \<Rightarrow> 1 | Some l \<Rightarrow> lid_index l + 1)"
  assumes idx: "map se_index es = [f ..< f + length es]" and here: "\<And>e. e \<in> set es \<Longrightarrow> entry_at pc d (se_index e) = Some e"
    and stop: "entry_at pc d (f + length es) = None" and zero: "p = None \<Longrightarrow> entry_at pc d 0 = None"
  shows "recovers pc d p es"
proof -
  let ?n = "length es"
  have sub: "set [f ..< f + ?n] \<subseteq> dom (entry_at pc d)"
  proof
    fix i assume "i \<in> set [f ..< f + ?n]"
    then have "i \<in> se_index ` set es" using idx by (metis set_map)
    then show "i \<in> dom (entry_at pc d)" using here by auto
  qed
  have "List.map_filter (entry_at pc d) (map se_index xs) = xs" if "set xs \<subseteq> set es" for xs
    using that here by (induction xs) (auto simp: List.map_filter_simps)
  then have read: "List.map_filter (entry_at pc d) [f ..< f + ?n] = es" using idx by (metis order_refl)
  define tail where "tail = filter (\<lambda>i. case p of None \<Rightarrow> True | Some l \<Rightarrow> lid_index l < i) (fs_indices d)"
  have above: "set tail = {i \<in> dom (entry_at pc d). f \<le> i}"
  proof -
    have "i \<noteq> 0" if "p = None" "i \<in> dom (entry_at pc d)" for i using zero [OF that(1)] that(2) by (auto intro: gr0I)
    then show ?thesis using fs_indices_set [OF ok] by (cases p) (auto simp: f_def Suc_le_eq tail_def)
  qed
  have "sorted_wrt (<) tail" unfolding tail_def using fs_indices_strict [OF ok] by (rule sorted_wrt_filter)
  moreover have "\<forall>i \<in> set tail. f \<le> i" using above by simp
  ultimately have last: "last_of_run f None tail = (if ?n = 0 then None else Some (f + ?n - 1))"
    using last_of_run_cases [of tail f None]
  proof (elim meta_impE disjE exE conjE, goal_cases)
    case 3
    have "?n = 0" using 3(4) sub above by (cases "?n = 0") (auto simp: subset_iff)
    with 3(3) show ?case by simp
  next
    case (4 k)
    have "f + ?n \<notin> set tail" using stop above by (simp add: domIff)
    then have "k < f + ?n" using 4(5) by (cases "k < f + ?n") (auto simp: subset_iff)
    moreover have "f + ?n \<le> Suc k" using 4(3,6) sub above by (cases "f + ?n \<le> Suc k") (auto simp: subset_iff)
    ultimately have "k = f + ?n - 1" "?n \<noteq> 0" using 4(3) by linarith+
    then show ?case using 4(4) by simp
  qed
  have top: "entry_at pc d (f + ?n - 1) = Some (List.last es)" if "?n \<noteq> 0"
  proof -
    have "se_index (List.last es) = List.last [f ..< f + ?n]" using that idx by (metis last_map length_0_conv)
    then show ?thesis using here [of "List.last es"] that by (simp add: last_upt)
  qed
  have "fs_state pc d = \<lparr>ls_last_purged = p, ls_last_log = (if es = [] then None else Some (se_log_id (List.last es)))\<rparr>"
    using last top by (auto simp: fs_state_def Let_def p f_def [symmetric] tail_def [symmetric])
  moreover have "fst (fs_log_state pc no_failure d) = Ok (fs_state pc d)"
    using outcome_all_ok [OF fs_log_state_outcome [OF ok, of no_failure]] by auto
  moreover have "fst (fs_read_range pc no_failure f (f + ?n) d) = Ok es"
    unfolding fs_read_range_result [OF ok] filter_between_indices [OF ok sub] read ..
  ultimately show ?thesis by (simp add: recovers_def f_def [symmetric] Let_def)
qed

text \<open>When the entries found are some of a contiguous log, the longest prefix that is there is read back.\<close>

lemma recovers_submap:
  fixes M :: "StoredEntry list"
  assumes ok: "disk_ok pc d" and p: "lv_purged (fs_view pc d) = p"
  defines "f \<equiv> (case p of None \<Rightarrow> 1 | Some l \<Rightarrow> lid_index l + 1)"
  assumes idx: "map se_index M = [f ..< f + length M]"
    and sub: "\<And>i e. f \<le> i \<Longrightarrow> entry_at pc d i = Some e \<Longrightarrow> e \<in> set M" and zero: "p = None \<Longrightarrow> entry_at pc d 0 = None"
  shows "recovers pc d p (takeWhile (\<lambda>e. entry_at pc d (se_index e) \<noteq> None) M)"
proof -
  define N where "N = takeWhile (\<lambda>e. entry_at pc d (se_index e) \<noteq> None) M"
  have N: "N = take (length N) M" "length N \<le> length M" unfolding N_def by (rule takeWhile_eq_take, rule length_takeWhile_le)
  have range: "f \<le> se_index e" if "e \<in> set M" for e
  proof -
    have "se_index e \<in> set (map se_index M)" using that by simp
    then show ?thesis unfolding idx by (simp del: set_map)
  qed
  have "distinct (map se_index M)" unfolding idx by simp
  then have inj: "inj_on se_index (set M)" by (simp add: distinct_map)
  have pre: "map se_index N = [f ..< f + length N]"
  proof -
    have "map se_index N = take (length N) [f ..< f + length M]" using N(1) idx by (metis take_map)
    then show ?thesis using N(2) by (simp add: take_upt)
  qed
  have here: "entry_at pc d (se_index e) = Some e" if "e \<in> set N" for e
  proof -
    from that have e: "e \<in> set M" "entry_at pc d (se_index e) \<noteq> None" unfolding N_def by (auto dest: set_takeWhileD)
    then obtain e' where e': "entry_at pc d (se_index e) = Some e'" by blast
    have "e' \<in> set M" "se_index e' = se_index e" using sub [OF range [OF e(1)] e'] entry_at_index [OF ok e'] by simp_all
    then have "e' = e" using inj e(1) by (auto dest: inj_onD)
    with e' show ?thesis by simp
  qed
  have stop: "entry_at pc d (f + length N) = None"
  proof (cases "length N < length M")
    case True
    then have "entry_at pc d (se_index (M ! length N)) = None" unfolding N_def using nth_length_takeWhile by blast
    moreover have "se_index (M ! length N) = map se_index M ! length N" using True by simp
    ultimately show ?thesis using idx True by simp
  next
    case False
    show ?thesis
    proof (rule ccontr)
      assume "entry_at pc d (f + length N) \<noteq> None"
      then obtain e where e: "entry_at pc d (f + length N) = Some e" by blast
      then have "e \<in> set M" "se_index e = f + length N" using sub [OF _ e] entry_at_index [OF ok e] by simp_all
      then have "f + length N \<in> set [f ..< f + length M]" using idx by (metis image_eqI set_map)
      then show False using False by simp
    qed
  qed
  show ?thesis unfolding N_def [symmetric]
    by (rule recovers_run [OF ok p]) (use pre here stop zero in \<open>simp_all add: f_def\<close>)
qed

section \<open>What a crash leaves\<close>

lemma within_entry:
  assumes "disk_ok pc d" "within S d d'" "synced d LogFolder" "disk_ok pc d'" "i < 2 ^ 64"
  shows "entry_at pc d' i = entry_at pc d i \<or> (LogFolder, entry_filename i, hm_get (files d' LogFolder) (entry_filename i)) \<in> S"
  using within_file [OF assms(2,3), of "entry_filename i"] entry_at_cong [OF assms(5), of d' d pc] by auto

lemma entry_at_bound: "disk_ok pc d \<Longrightarrow> \<not> i < 2 ^ 64 \<Longrightarrow> entry_at pc d i = None"
  by (simp add: entry_at_def)

lemma view_zero: "fs_good pc d \<Longrightarrow> entry_at pc d 0 = None"
proof -
  assume good: "fs_good pc d"
  then have "map se_index (lv_entries (fs_view pc d)) = [first_index 1 (fs_view pc d) ..< first_index 1 (fs_view pc d) + length (lv_entries (fs_view pc d))]"
    by (simp add: fs_good_def contiguous_def)
  then have "0 \<notin> set (map se_index (lv_entries (fs_view pc d)))" by (auto simp: first_index_def split: option.splits)
  then have "0 \<notin> dom (entry_at pc d)" using good_entry_at [OF good] index_map_dom by simp
  then show ?thesis by (simp add: domIff)
qed

lemma view_next:
  assumes "fs_good pc d"
  shows "entry_at pc d (first_index 1 (fs_view pc d) + length (lv_entries (fs_view pc d)) + k) = None"
proof -
  let ?f = "first_index 1 (fs_view pc d)" and ?L = "lv_entries (fs_view pc d)"
  have "map se_index ?L = [?f ..< ?f + length ?L]" using assms by (simp add: fs_good_def contiguous_def)
  then have "?f + length ?L + k \<notin> set (map se_index ?L)" by simp
  then have "?f + length ?L + k \<notin> dom (entry_at pc d)" using good_entry_at [OF assms] index_map_dom by simp
  then show ?thesis by (simp add: domIff)
qed

lemma view_here: "fs_good pc d \<Longrightarrow> e \<in> set (lv_entries (fs_view pc d)) \<Longrightarrow> entry_at pc d (se_index e) = Some e"
  using good_entry_at contiguous_sorted [of 1 "fs_view pc d"]
  by (simp add: index_map_Some fs_good_def strict_sorted_iff)

lemma view_member: "fs_good pc d \<Longrightarrow> entry_at pc d i = Some e \<Longrightarrow> e \<in> set (lv_entries (fs_view pc d))"
  using good_entry_at contiguous_sorted [of 1 "fs_view pc d"]
  by (simp add: index_map_Some fs_good_def strict_sorted_iff)

lemma within_append:
  assumes "disk_ok pc d" "postcard_ok pc" "within (entry_updates pc es) d d'" "synced d LogFolder" "disk_ok pc d'"
    and bound: "\<forall>e \<in> set es. se_index e < 2 ^ 64"
  shows "entry_at pc d' i = entry_at pc d i \<or> (\<exists>e \<in> set es. se_index e = i \<and> entry_at pc d' i = Some e)"
proof (cases "i < 2 ^ 64")
  case True
  from within_entry [OF assms(1,3,4,5) True] show ?thesis
  proof
    assume "(LogFolder, entry_filename i, hm_get (files d' LogFolder) (entry_filename i)) \<in> entry_updates pc es"
    then obtain e where e: "e \<in> set es" "entry_filename i = entry_filename (se_index e)"
      "hm_get (files d' LogFolder) (entry_filename i) = Some (encoded (pc_entry pc) e)" by (auto simp: entry_updates_def)
    then have "se_index e = i" using bound True entry_filename_inject by simp
    then show ?thesis using e entry_at_encoded [OF assms(2) True e(3)] by blast
  qed simp
qed (simp add: entry_at_bound [OF assms(1)] entry_at_bound [OF assms(5)])

lemma crash_root:
  assumes "crash d1 d2" "only LogFolder d d1" "synced d Root"
  shows "lv_purged (fs_view pc d2) = lv_purged (fs_view pc d)"
proof -
  have "files d2 Root = files d1 Root" using crash_keeps [OF assms(1)] only_folder [OF assms(2), of Root] assms(3) by simp
  also have "\<dots> = files d Root" using only_folder [OF assms(2), of Root] by simp
  finally show ?thesis by (simp add: fs_view_def value_of_def)
qed

lemma crash_log: "crash d1 d2 \<Longrightarrow> synced d1 LogFolder \<Longrightarrow> entry_at pc d2 = entry_at pc d1"
  using crash_keeps [of d1 d2 LogFolder] by (simp add: entry_at_def value_of_def fun_eq_iff)

lemma crash_after:
  assumes "within S d d1" "crash d1 d2"
  shows "within S d d2"
  using within_trans [OF assms(1) within_mono [OF crash_within [OF assms(2)]]] by blast

lemma takeWhile_take:
  "\<exists>k \<le> length xs. takeWhile P xs = take k xs \<and> (takeWhile P xs = xs \<longrightarrow> k = length xs) \<and> (takeWhile P xs = [] \<longrightarrow> k = 0)"
proof (rule exI [of _ "length (takeWhile P xs)"], intro conjI impI)
  show "takeWhile P xs = take (length (takeWhile P xs)) xs" by (rule takeWhile_eq_take)
  show "length (takeWhile P xs) = length xs" if "takeWhile P xs = xs" using arg_cong [OF that, of length] .
qed (simp_all add: length_takeWhile_le)

lemma filter_split_sorted: "sorted_wrt (<) (map g xs) \<Longrightarrow> xs = filter (\<lambda>x. g x < i) xs @ filter (\<lambda>x. i \<le> g x) xs"
  for i :: nat
proof (induction xs)
  case (Cons x xs)
  show ?case
  proof (cases "g x < i")
    case False
    then have "filter (\<lambda>x. g x < i) xs = []" using Cons.prems by (auto simp: filter_empty_conv)
    then show ?thesis using False Cons by simp
  qed (use Cons in simp)
qed simp

lemma within_removed:
  assumes "disk_ok pc d" "within (removals is) d d'" "synced d LogFolder" "disk_ok pc d'" "\<forall>i \<in> set is. i < 2 ^ 64"
  shows "entry_at pc d' i = entry_at pc d i \<or> (i \<in> set is \<and> entry_at pc d' i = None)"
proof (cases "i < 2 ^ 64")
  case True
  from within_entry [OF assms(1-4) True] show ?thesis
  proof
    assume r: "(LogFolder, entry_filename i, hm_get (files d' LogFolder) (entry_filename i)) \<in> removals is"
    then have "hm_get (files d' LogFolder) (entry_filename i) = None" by (auto simp: removals_def)
    moreover have "i \<in> set is" using r True assms(5) entry_filename_inject by (auto simp: removals_def)
    ultimately show ?thesis by (simp add: entry_at_def value_of_def)
  qed simp
qed (simp add: entry_at_bound [OF assms(1)] entry_at_bound [OF assms(4)])

section \<open>A sample\<close>

text \<open>An encoding of each stored type, entries without payload, and the crash that keeps the updates of given names.\<close>

definition enc_log_id :: "LogId \<Rightarrow> bytes" where
  "enc_log_id l = [lid_term l, lid_index l]"

fun dec_meta :: "SnapshotId \<Rightarrow> bytes \<Rightarrow> SnapshotMeta option" where
  "dec_meta s (0 # m) = Some \<lparr>sn_id = s, sn_last_applied = None, sn_membership = m\<rparr>"
| "dec_meta s (Suc 0 # t # i # m) =
     Some \<lparr>sn_id = s, sn_last_applied = Some \<lparr>lid_term = t, lid_index = i\<rparr>, sn_membership = m\<rparr>"
| "dec_meta s _ = None"

definition sample_pc :: Postcard where
  "sample_pc =
     \<lparr>pc_entry = \<lparr>cd_enc = (\<lambda>e. Some (enc_log_id (se_log_id e) @ se_payload e)),
        cd_dec = (\<lambda>b. Some \<lparr>se_log_id = \<lparr>lid_term = b ! 0, lid_index = b ! 1\<rparr>, se_payload = drop 2 b\<rparr>)\<rparr>,
      pc_log_id = \<lparr>cd_enc = (\<lambda>l. Some (enc_log_id l)), cd_dec = (\<lambda>b. Some \<lparr>lid_term = b ! 0, lid_index = b ! 1\<rparr>)\<rparr>,
      pc_vote = \<lparr>cd_enc = (\<lambda>v. Some [vt_term v, vt_candidate v, of_bool (vt_committed v)]),
        cd_dec = (\<lambda>b. Some \<lparr>vt_term = b ! 0, vt_candidate = b ! 1, vt_committed = (b ! 2 = 1)\<rparr>)\<rparr>,
      pc_meta = \<lparr>cd_enc = (\<lambda>m. Some (length (sn_id m) # map of_char (sn_id m) @
          (case sn_last_applied m of None \<Rightarrow> [0] | Some l \<Rightarrow> 1 # enc_log_id l) @ sn_membership m)),
        cd_dec = (\<lambda>b. dec_meta (map char_of (take (hd b) (tl b))) (drop (hd b) (tl b)))\<rparr>\<rparr>"

definition plain_entry :: "nat \<Rightarrow> nat \<Rightarrow> StoredEntry" where
  "plain_entry t i = \<lparr>se_log_id = \<lparr>lid_term = t, lid_index = i\<rparr>, se_payload = []\<rparr>"

definition crash_keeping :: "string list \<Rightarrow> Disk \<Rightarrow> Disk" where
  "crash_keeping names d =
     d\<lparr>dk_dir := (\<lambda>f. \<lparr>dr_durable = foldl dir_update (dr_durable (dk_dir d f)) (filter (\<lambda>u. fst u \<in> set names) (dr_pending (dk_dir d f))),
       dr_pending = []\<rparr>)\<rparr>"

lemma sample_pc_ok: "postcard_ok sample_pc"
  by (auto simp: postcard_ok_def codec_ok_def sample_pc_def enc_log_id_def comp_def split: option.split)

lemma filter_in_subseqs: "filter P xs \<in> set (subseqs xs)"
  by (induction xs) (auto simp: Let_def)

lemma crash_crash_keeping: "crash d (crash_keeping names d)"
  unfolding crash_def crash_dir_def crash_keeping_def using filter_in_subseqs by auto

lemma empty_disk_good:
  "synced empty_disk f"
  "fs_view pc empty_disk = \<lparr>lv_purged = None, lv_entries = [], lv_vote = None, lv_committed = None\<rparr>"
  "postcard_ok pc \<Longrightarrow> fs_good pc empty_disk"
proof -
  have f: "files empty_disk = (\<lambda>_. hm_empty)" "dr_durable (dk_dir empty_disk f) = hm_empty" "versions empty_disk = (\<lambda>_ _. {None})" for f
    by (auto simp: empty_disk_def files_def dir_now_def versions_def fun_eq_iff)
  have fo: "file_ok pc f name None" for f name by (cases f) (simp_all add: entry_file_ok_def marker_ok_def)
  show "synced empty_disk f" by (simp add: synced_def empty_disk_def)
  show v: "fs_view pc empty_disk = \<lparr>lv_purged = None, lv_entries = [], lv_vote = None, lv_committed = None\<rparr>"
  proof -
    have "fs_indices empty_disk = []" by (simp add: fs_indices_def f hm_keys_def hm_empty_def List.map_filter_simps)
    then show ?thesis by (simp add: fs_view_def value_of_def f List.map_filter_simps)
  qed
  show "postcard_ok pc \<Longrightarrow> fs_good pc empty_disk"
    by (simp add: fs_good_def disk_ok_def v f fo contiguous_def first_index_def)
qed

text \<open>A store with three entries.\<close>

definition sample_disk :: Disk where
  "sample_disk = snd (fs_append sample_pc no_failure [plain_entry 1 1, plain_entry 1 2, plain_entry 1 3] empty_disk)"

lemma sample_disk_good:
  "fs_good sample_pc sample_disk"
  "fs_view sample_pc sample_disk =
     \<lparr>lv_purged = None, lv_entries = [plain_entry 1 1, plain_entry 1 2, plain_entry 1 3], lv_vote = None, lv_committed = None\<rparr>"
  "synced sample_disk f"
proof -
  let ?es = "[plain_entry 1 1, plain_entry 1 2, plain_entry 1 3]"
  have "extends_log 1 (fs_view sample_pc empty_disk) ?es"
    by (simp add: empty_disk_good extends_log_def contiguous_def first_index_def plain_entry_def upt_rec)
  from fs.append [OF empty_disk_good(3) [OF sample_pc_ok] this]
  show "fs_good sample_pc sample_disk" "fs_view sample_pc sample_disk =
     \<lparr>lv_purged = None, lv_entries = ?es, lv_vote = None, lv_committed = None\<rparr>"
    by (simp_all add: delivers_def FsRaftLogStore_def sample_disk_def empty_disk_good)
  have "only LogFolder empty_disk sample_disk \<and> synced sample_disk LogFolder"
    using outcome_all_ok [OF fs_append_outcome [OF sample_pc_ok, of no_failure ?es empty_disk]]
    by (auto simp: sample_disk_def empty_disk_good(1))
  then show "synced sample_disk f" using only_folder [of LogFolder empty_disk sample_disk f] by (cases "f = LogFolder") (simp_all add: empty_disk_good(1))
qed

section \<open>Properties\<close>





lemma purge_recovers:
  assumes good: "fs_good pc d" and unc: "\<not> covered (fs_view pc d) l" and l: "lid_index l + 1 < 2 ^ 64"
    and ok2: "disk_ok pc d2" and each: "\<And>i. lid_index l < i \<Longrightarrow> entry_at pc d2 i = entry_at pc d i"
    and p2: "lv_purged (fs_view pc d2) = Some l"
  shows "recovers pc d2 (lv_purged (spec_purge l (fs_view pc d))) (lv_entries (spec_purge l (fs_view pc d)))"
proof -
  let ?w = "spec_purge l (fs_view pc d)"
  let ?M = "filter (\<lambda>e. lid_index l < se_index e) (lv_entries (fs_view pc d))"
  have ok: "disk_ok pc d" using good by (simp add: fs_good_def)
  have w: "lv_purged ?w = Some l" "lv_entries ?w = ?M" unfolding spec_purge_def if_not_P [OF unc] by simp_all
  have "contiguous 1 ?w" using contiguous_purge [of 1 "fs_view pc d" l] good l by (simp add: fs_good_def)
  then have idx: "map se_index ?M = [lid_index l + 1 ..< lid_index l + 1 + length ?M]" using w by (simp add: contiguous_def first_index_def)
  have "recovers pc d2 (Some l) (takeWhile (\<lambda>e. entry_at pc d2 (se_index e) \<noteq> None) ?M)"
  proof (rule recovers_submap [OF ok2 p2])
    fix i e assume i: "(case Some l of None \<Rightarrow> 1 | Some l \<Rightarrow> lid_index l + 1) \<le> i" and e: "entry_at pc d2 i = Some e"
    then have "entry_at pc d i = Some e" using each by simp
    then show "e \<in> set ?M" using i view_member [OF good] entry_at_index [OF ok] by fastforce
  qed (use idx in simp_all)
  moreover have "takeWhile (\<lambda>e. entry_at pc d2 (se_index e) \<noteq> None) ?M = ?M"
    unfolding takeWhile_eq_all_conv using each view_here [OF good] by simp
  ultimately show ?thesis using w by (simp only:)
qed

lemma unchanged_recovers:
  assumes good: "fs_good pc d" and ok2: "disk_ok pc d2" and "entry_at pc d2 = entry_at pc d"
    and p2: "lv_purged (fs_view pc d2) = lv_purged (fs_view pc d)"
  shows "recovers pc d2 (lv_purged (fs_view pc d)) (lv_entries (fs_view pc d))"
proof (rule recovers_run [OF ok2 p2])
  let ?v = "fs_view pc d"
  have f: "(case lv_purged ?v of None \<Rightarrow> 1 | Some l \<Rightarrow> lid_index l + 1) = first_index 1 ?v" by (simp add: first_index_def split: option.split)
  show "map se_index (lv_entries ?v) = [(case lv_purged ?v of None \<Rightarrow> 1 | Some l \<Rightarrow> lid_index l + 1) ..<
      (case lv_purged ?v of None \<Rightarrow> 1 | Some l \<Rightarrow> lid_index l + 1) + length (lv_entries ?v)]"
    unfolding f using good by (simp add: fs_good_def contiguous_def)
  show "entry_at pc d2 ((case lv_purged ?v of None \<Rightarrow> 1 | Some l \<Rightarrow> lid_index l + 1) + length (lv_entries ?v)) = None"
    unfolding f assms(3) using view_next [OF good, of 0] by simp
qed (use assms(3) view_here [OF good] view_zero [OF good] in simp_all)



text \<open>
  A vote is not forgotten. Whatever I/O calls of \<open>save_vote\<close> fail and whichever updates a crash
  then loses, the vote read back is the old one or the new one and the log is the old one; when the
  save returned \<open>Ok\<close>, the vote is the new one.
\<close>

theorem vote_crash_safe:
  assumes good: "fs_good pc d" and syn: "synced d LogFolder" "synced d Root"
    and run: "fs_save_vote pc io vote d = (r, d1)" and crash: "crash d1 d2"
  shows "\<exists>v \<in> {lv_vote (fs_view pc d), Some vote}. fst (fs_read_vote pc no_failure d2) = Ok v \<and> (r = Ok () \<longrightarrow> v = Some vote) \<and>
    recovers pc d2 (lv_purged (fs_view pc d)) (lv_entries (fs_view pc d))"
proof -
  let ?b = "Some (encoded (pc_vote pc) vote)"
  have ok: "disk_ok pc d" "postcard_ok pc" using good disk_okD(1) by (auto simp: fs_good_def)
  have enc: "fs_encode (pc_vote pc) a vote d = (Ok (encoded (pc_vote pc) vote), d)" for a using ok(2) by (simp add: fs_encode_def)
  from atomic_write_outcome [of io Root "''vote''" "encoded (pc_vote pc) vote" d]
  have o: "only Root d d1 \<and> within {(Root, ''vote'', ?b)} d d1 \<and> (r = Ok () \<longrightarrow> changed [(Root, ''vote'') \<mapsto> ?b] d d1 \<and> synced d1 Root)"
    using run by (auto simp: fs_save_vote_def enc outcome_def split: io_result.splits)
  then have w: "within {(Root, ''vote'', ?b)} d d2" using crash_after crash by blast
  have ok2: "disk_ok pc d2" using marker_within_ok [OF ok(1) w] by simp
  have "synced d1 LogFolder" using only_folder [of Root d d1 LogFolder] o syn by simp
  then have e: "entry_at pc d2 = entry_at pc d" using crash_log [OF crash] log_only_root(3) [of d d1] o by simp
  have p: "lv_purged (fs_view pc d2) = lv_purged (fs_view pc d)"
    using within_file [OF w syn(2), of "''last_purged''"] by (auto simp: fs_view_def value_of_def)
  have "hm_get (files d2 Root) ''vote'' = ?b" if "r = Ok ()"
    using crash_keeps [OF crash, of Root] o that by (simp add: changed_def)
  moreover have "hm_get (files d2 Root) ''vote'' = hm_get (files d Root) ''vote'' \<or> hm_get (files d2 Root) ''vote'' = ?b"
    using within_file [OF w syn(2), of "''vote''"] by auto
  ultimately have v: "lv_vote (fs_view pc d2) \<in> {lv_vote (fs_view pc d), Some vote} \<and> (r = Ok () \<longrightarrow> lv_vote (fs_view pc d2) = Some vote)"
    using ok(2) by (auto simp: fs_view_def value_of_def)
  have "fst (fs_read_vote pc no_failure d2) = Ok (lv_vote (fs_view pc d2))"
    using outcome_all_ok [OF fs_read_value_outcome [of d2 Root "''vote''" "pc_vote pc"]] marker_decodes(1) [OF ok2]
    unfolding fs_read_vote_def by (fastforce simp: fs_view_def)
  then show ?thesis using v unchanged_recovers [OF good ok2 e p] by blast
qed

theorem vote_crash_safe_witness:
  "\<exists>v \<in> {None, Some \<lparr>vt_term = 2, vt_candidate = 1, vt_committed = False\<rparr>}.
     fst (fs_read_vote sample_pc no_failure (crash_keeping []
       (snd (fs_save_vote sample_pc (\<lambda>n. n < 15) \<lparr>vt_term = 2, vt_candidate = 1, vt_committed = False\<rparr> sample_disk)))) = Ok v"
  using vote_crash_safe [OF sample_disk_good(1,3,3) surjective_pairing crash_crash_keeping,
      of "\<lparr>vt_term = 2, vt_candidate = 1, vt_committed = False\<rparr>" "[]" "\<lambda>n. n < 15"]
  unfolding sample_disk_good(2) by (elim bexE conjE) (rule bexI, assumption, simp)

end
