(* ===== verification/RaftFsLimits.thy ===== *)
theory RaftFsLimits
  imports RaftFsCrash
begin

text \<open>
  The filesystem log store under openraft: the writes it serves, and the places where the store
  does not do what its comments say.
\<close>

text \<open>
  Entries above a hole come back. The comment on \<open>append\<close> has entries that a crash left past
  a gap dropped on recovery, but recovery deletes nothing: after a crash that kept entries 1 and 3 of an unacknowledged batch the
  store reports a log that ends at 1, and an append of a new entry 2, which succeeds, makes it
  report the stale entry 3, of an older term than its predecessor, as the end of the log.
\<close>

theorem orphan_above_hole_returns:
  "\<exists>io d1 d2 d3.
     fs_append sample_pc io [plain_entry 1 1, plain_entry 1 2, plain_entry 1 3] empty_disk = (Err (Io ''sync parent dir''), d1) \<and>
     crash d1 d2 \<and> recovers sample_pc d2 None [plain_entry 1 1] \<and>
     fs_append sample_pc no_failure [plain_entry 2 2] d2 = (Ok (), d3) \<and>
     recovers sample_pc d3 None [plain_entry 1 1, plain_entry 2 2, plain_entry 1 3]"
proof -
  let ?e = plain_entry and ?fn = entry_filename
  let ?es = "[?e 1 1, ?e 1 2, ?e 1 3]" and ?io = "\<lambda>n. n < (13 :: nat)"
  define d1 where "d1 = snd (fs_append sample_pc ?io ?es empty_disk)"
  define d2 where "d2 = crash_keeping [?fn 1, ?fn 3] d1"
  define d3 where "d3 = snd (fs_append sample_pc no_failure [?e 2 2] d2)"
  have idx [simp]: "se_index (?e t i) = i" for t i by (simp add: plain_entry_def)
  have enc: "fs_encode (pc_entry sample_pc) a e d = (Ok (encoded (pc_entry sample_pc) e), d)" for a e d
    using sample_pc_ok by (simp add: fs_encode_def)
  have ne: "with_extension (?fn i) ''tmp'' \<noteq> ?fn j" for i j
    using is_tmp_with_extension [of "?fn i"] is_tmp_names(1) [of j] by metis
  have fn: "?fn 2 \<noteq> ?fn 1" "?fn 2 \<noteq> ?fn 3" "?fn 1 \<noteq> ?fn 3" by (simp_all add: entry_filename_inject)
  have run: "fst (fs_append sample_pc ?io ?es empty_disk) = Err (Io ''sync parent dir'') \<and>
      dr_pending (dk_dir d1 LogFolder) = concat (map (\<lambda>i. [(with_extension (?fn i) ''tmp'', Some []),
        (with_extension (?fn i) ''tmp'', Some (encoded (pc_entry sample_pc) (?e 1 i))), (with_extension (?fn i) ''tmp'', None),
        (?fn i, Some (encoded (pc_entry sample_pc) (?e 1 i)))]) [1, 2, 3]) \<and> dr_durable (dk_dir d1 LogFolder) = hm_empty"
    by (simp add: d1_def fs_append_def enc write_and_rename_def fs_call_def fsync_dir_def empty_disk_def Let_def set_file_def)
  have get2: "hm_get (files d2 LogFolder) n = (if n = ?fn 3 then Some (encoded (pc_entry sample_pc) (?e 1 3))
      else if n = ?fn 1 then Some (encoded (pc_entry sample_pc) (?e 1 1)) else None)" for n
    using run fn ne by (simp add: d2_def crash_keeping_def files_def dir_now_def)
  have crash: "crash d1 d2" unfolding d2_def by (rule crash_crash_keeping)
  have o: "only LogFolder empty_disk d1 \<and> within (entry_updates sample_pc ?es) empty_disk d1"
    using outcome_either [OF fs_append_outcome [OF sample_pc_ok, of ?io ?es empty_disk]] unfolding d1_def by blast
  have ok2: "disk_ok sample_pc d2"
    using within_disk_ok [OF _ crash_after [OF conjunct2 [OF o] crash]] entry_updates_ok empty_disk_good(3) [OF sample_pc_ok]
    by (fastforce simp: fs_good_def)
  have at2: "entry_at sample_pc d2 = [1 \<mapsto> ?e 1 1, 3 \<mapsto> ?e 1 3]"
  proof (rule ext, rule option_eqI)
    fix i x
    show "entry_at sample_pc d2 i = Some x \<longleftrightarrow> [1 \<mapsto> ?e 1 1, 3 \<mapsto> ?e 1 3] i = Some x"
      unfolding entry_at_Some [OF ok2] get2 using sample_pc_ok by (auto simp: entry_filename_inject split: if_splits)
  qed
  have p2: "lv_purged (fs_view sample_pc d2) = None"
    using crash_root [OF crash conjunct1 [OF o] empty_disk_good(1)] by (simp add: empty_disk_good)
  have rec2: "recovers sample_pc d2 None [?e 1 1]" by (rule recovers_run [OF ok2 p2]) (simp_all add: at2)
  have "\<exists>u. fst (fs_append sample_pc no_failure [?e 2 2] d2) = Ok u \<and> changed (entry_map sample_pc [?e 2 2]) d2 d3 \<and>
      only LogFolder d2 d3 \<and> within (entry_updates sample_pc [?e 2 2]) d2 d3"
    using outcome_all_ok [OF fs_append_outcome [OF sample_pc_ok, of no_failure "[?e 2 2]" d2]] unfolding d3_def by blast
  then have o3: "fst (fs_append sample_pc no_failure [?e 2 2] d2) = Ok ()" "changed (entry_map sample_pc [?e 2 2]) d2 d3"
    "only LogFolder d2 d3" "within (entry_updates sample_pc [?e 2 2]) d2 d3" by auto
  have ok3: "disk_ok sample_pc d3" using within_disk_ok [OF ok2 o3(4)] entry_updates_ok by fastforce
  have at3: "entry_at sample_pc d3 = [1 \<mapsto> ?e 1 1, 3 \<mapsto> ?e 1 3, 2 \<mapsto> ?e 2 2]"
    using entry_at_append [OF sample_pc_ok o3(2)] by (simp add: at2 index_map_def)
  have p3: "lv_purged (fs_view sample_pc d3) = None"
    using only_folder [OF o3(3), of Root] p2 by (simp add: fs_view_def value_of_def)
  have "recovers sample_pc d3 None [?e 1 1, ?e 2 2, ?e 1 3]"
    by (rule recovers_run [OF ok3 p3]) (auto simp: at3 upt_rec)
  moreover have "fs_append sample_pc ?io ?es empty_disk = (Err (Io ''sync parent dir''), d1)"
    "fs_append sample_pc no_failure [?e 2 2] d2 = (Ok (), d3)"
    using run o3(1) by (simp_all add: d1_def d3_def prod_eq_iff)
  ultimately show ?thesis using crash rec2 by blast
qed



text \<open>
  A log that starts at index 0 is invisible. \<open>log_state\<close> looks for the log from index 1
  on when nothing was purged, but openraft's first entry (the membership \<open>initialize\<close> writes) has
  index 0: entries appended from 0 on are stored and can be read, but the log state is that of an
  empty store. The in-memory store reports them.
\<close>

theorem log_from_zero_invisible:
  assumes pok: "postcard_ok pc" and idx: "map se_index es = [0 ..< length es]" and n: "es \<noteq> []" "length es < 2 ^ 64"
  shows "(\<exists>d. fs_append pc no_failure es empty_disk = (Ok (), d) \<and>
      fst (fs_read_range pc no_failure 0 (length es) d) = Ok es \<and>
      fst (fs_log_state pc no_failure d) = Ok \<lparr>ls_last_purged = None, ls_last_log = None\<rparr>) \<and>
    (\<exists>s. mem_append es LogStoreState_default = (Ok (), s) \<and>
      fst (mem_log_state s) = Ok \<lparr>ls_last_purged = None, ls_last_log = Some (se_log_id (last es))\<rparr>)"
proof (intro conjI)
  define d where "d = snd (fs_append pc no_failure es empty_disk)"
  have dist: "distinct (map se_index es)" unfolding idx by simp
  have "e \<in> set es \<Longrightarrow> se_index e \<in> set [0 ..< length es]" for e unfolding idx [symmetric] by simp
  then have bound: "\<forall>e \<in> set es. se_index e < 2 ^ 64" using n(2) by fastforce
  have o: "fst (fs_append pc no_failure es empty_disk) = Ok ()" "changed (entry_map pc es) empty_disk d"
    "only LogFolder empty_disk d" "within (entry_updates pc es) empty_disk d"
    using outcome_all_ok [OF fs_append_outcome [OF pok, of no_failure es empty_disk]] by (auto simp: d_def)
  have ok: "disk_ok pc d"
    by (rule within_disk_ok [OF _ o(4)]) (use empty_disk_good(3) [OF pok] entry_updates_ok bound in \<open>auto simp: fs_good_def\<close>)
  have "entry_at pc empty_disk = Map.empty" using good_entry_at [OF empty_disk_good(3) [OF pok]] by (simp add: empty_disk_good index_map_def)
  then have at_d: "entry_at pc d = index_map es" using entry_at_append [OF pok o(2) dist bound] by simp
  have dom_d: "dom (entry_at pc d) = set [0 ..< length es]" unfolding at_d index_map_dom idx [symmetric] by simp
  have fi: "fs_indices d = [0 ..< length es]" unfolding fs_indices_sorted [OF ok] dom_d by (rule sorted_list_of_set.idem_if_sorted_distinct) simp_all
  have p: "lv_purged (fs_view pc d) = None"
    using only_folder [OF o(3), of Root] empty_disk_good(2) [of pc] by (simp add: fs_view_def value_of_def)
  have "List.map_filter (entry_at pc d) [0 ..< length es] = es" using map_filter_index_map [OF dist] unfolding at_d idx .
  moreover have "filter (\<lambda>i. 0 \<le> i \<and> i < length es) [0 ..< length es] = [0 ..< length es]" by simp
  ultimately have "fst (fs_read_range pc no_failure 0 (length es) d) = Ok es" unfolding fs_read_range_result [OF ok] fi by simp
  moreover have "fs_state pc d = \<lparr>ls_last_purged = None, ls_last_log = None\<rparr>"
    using n(1) by (simp add: fs_state_def p fi upt_rec [of 0])
  then have "fst (fs_log_state pc no_failure d) = Ok \<lparr>ls_last_purged = None, ls_last_log = None\<rparr>"
    using outcome_all_ok [OF fs_log_state_outcome [OF ok, of no_failure]] by auto
  ultimately show "\<exists>d. fs_append pc no_failure es empty_disk = (Ok (), d) \<and> fst (fs_read_range pc no_failure 0 (length es) d) = Ok es \<and>
      fst (fs_log_state pc no_failure d) = Ok \<lparr>ls_last_purged = None, ls_last_log = None\<rparr>"
    using o(1) by (intro exI [of _ d]) (simp add: d_def prod_eq_iff)
next
  have v: "mem_view LogStoreState_default = \<lparr>lv_purged = None, lv_entries = [], lv_vote = None, lv_committed = None\<rparr>"
    by (simp add: mem_view_def LogStoreState_default_def)
  then have "mem_good LogStoreState_default" "extends_log 0 (mem_view LogStoreState_default) es"
    using idx n by (simp_all add: mem_good_def extends_log_def contiguous_def first_index_def LogStoreState_default_def)
  from mem.append [OF this] obtain s where s: "mem_append es LogStoreState_default = (Ok (), s)" "mem_good s" "lv_entries (mem_view s) = es"
      "lv_purged (mem_view s) = None"
    by (cases "mem_append es LogStoreState_default") (auto simp: delivers_def MemoryRaftLogStore_def v)
  then have "fst (mem_log_state s) = Ok \<lparr>ls_last_purged = None, ls_last_log = Some (se_log_id (last es))\<rparr>"
    using mem.log_state [OF s(2)] n(1) by (simp add: delivers_def MemoryRaftLogStore_def spec_state_def)
  then show "\<exists>s. mem_append es LogStoreState_default = (Ok (), s) \<and>
      fst (mem_log_state s) = Ok \<lparr>ls_last_purged = None, ls_last_log = Some (se_log_id (last es))\<rparr>" using s(1) by blast
qed

theorem log_from_zero_invisible_witness:
  "\<exists>d. fs_append sample_pc no_failure [plain_entry 1 0, plain_entry 1 1] empty_disk = (Ok (), d) \<and>
     fst (fs_log_state sample_pc no_failure d) = Ok \<lparr>ls_last_purged = None, ls_last_log = None\<rparr>"
  using log_from_zero_invisible [OF sample_pc_ok, of "[plain_entry 1 0, plain_entry 1 1]"]
  by (auto simp: plain_entry_def)

text \<open>
  Purged entries can still be read. The comment on \<open>purge_through\<close> has \<open>read_range\<close> filter entries at or
  below the purge marker, but it reads every file in its range: when a purge stops after the
  marker is durable, the log state says entries up to 2 are purged, and a read from 1 on returns them.
\<close>

theorem purged_entries_readable:
  "\<exists>io d1. fs_purge_through sample_pc io \<lparr>lid_term = 1, lid_index = 2\<rparr> sample_disk = (Err (Io ''read log dir''), d1) \<and>
     fst (fs_log_state sample_pc no_failure d1) = Ok \<lparr>ls_last_purged = Some \<lparr>lid_term = 1, lid_index = 2\<rparr>,
       ls_last_log = Some \<lparr>lid_term = 1, lid_index = 3\<rparr>\<rparr> \<and>
     fst (fs_read_range sample_pc no_failure 1 4 d1) = Ok [plain_entry 1 1, plain_entry 1 2, plain_entry 1 3]"
proof -
  let ?d = sample_disk
  define l where "l = (\<lparr>lid_term = 1, lid_index = 2\<rparr> :: LogId)"
  let ?b = "encoded (pc_log_id sample_pc) l" and ?io = "\<lambda>n. n < dk_calls sample_disk + 7"
  define da where "da = ?d\<lparr>dk_calls := dk_calls ?d + 1\<rparr>"
  define d1 where "d1 = snd (atomic_write ?io Root ''last_purged'' ?b da)"
  have none: "hm_get (files ?d Root) ''last_purged'' = None"
    using sample_disk_good(1,2) marker_decodes(2) [of sample_pc ?d "''last_purged''"]
    by (cases "hm_get (files ?d Root) ''last_purged''") (auto simp: fs_view_def value_of_def fs_good_def)
  have enc: "fs_encode (pc_log_id sample_pc) a l d = (Ok ?b, d)" for a d using sample_pc_ok by (simp add: fs_encode_def)
  have aw: "fst (atomic_write ?io Root ''last_purged'' ?b da) = Ok ()" "dk_calls d1 = dk_calls ?d + 7"
    by (simp_all add: d1_def da_def atomic_write_def write_and_rename_def fsync_dir_def fs_call_def Let_def set_file_def sync_folder_def)
  have m: "marks sample_pc l ?d d1"
    using outcome_either [OF atomic_write_outcome [of ?io Root "''last_purged''" ?b da]] aw(1)
      same_dir_relations [of da ?d] unfolding d1_def marks_def by (auto simp: da_def)
  have run: "fs_purge_through sample_pc ?io l ?d = (Err (Io ''read log dir''), d1\<lparr>dk_calls := dk_calls ?d + 8\<rparr>)"
  proof -
    have "read_last_purged sample_pc ?io ?d = (Ok None, da)"
      by (simp add: read_last_purged_def fs_read_value_def read_if_exists_def fs_call_def Let_def none da_def)
    moreover have "atomic_write ?io Root ''last_purged'' ?b da = (Ok (), d1)" using aw(1) by (simp add: d1_def prod_eq_iff)
    moreover have "list_entry_indices ?io d1 = (Err (Io ''read log dir''), d1\<lparr>dk_calls := dk_calls ?d + 8\<rparr>)"
      by (simp add: list_entry_indices_def read_dir_def fs_call_def Let_def aw(2))
    ultimately show ?thesis by (simp add: fs_purge_through_def enc)
  qed
  let ?d2 = "d1\<lparr>dk_calls := dk_calls ?d + 8\<rparr>"
  have good: "fs_good sample_pc ?d" and ok: "disk_ok sample_pc ?d" using sample_disk_good(1) by (simp_all add: fs_good_def)
  note mv = marks_view [OF ok m]
  have s2: "disk_ok sample_pc ?d2" "fs_view sample_pc ?d2 = fs_view sample_pc d1" "entry_at sample_pc ?d2 = entry_at sample_pc ?d"
    "fs_indices ?d2 = fs_indices ?d"
    using mv(1,3) same_dir_ok [of ?d2 d1 sample_pc] same_files(1,2,3) [OF same_dir(1), of ?d2 d1] log_only_root(3) [of ?d d1 sample_pc] m
    by (simp_all add: marks_def)
  have "recovers sample_pc ?d2 (lv_purged (spec_purge l (fs_view sample_pc ?d))) (lv_entries (spec_purge l (fs_view sample_pc ?d)))"
    by (rule purge_recovers [OF good _ _ s2(1)]) (simp_all add: s2 mv(2), simp_all add: sample_disk_good(2) l_def)
  then have "recovers sample_pc ?d2 (Some l) [plain_entry 1 3]"
    by (simp add: spec_purge_def sample_disk_good(2) l_def plain_entry_def)
  then have ls: "fst (fs_log_state sample_pc no_failure ?d2) = Ok \<lparr>ls_last_purged = Some l, ls_last_log = Some \<lparr>lid_term = 1, lid_index = 3\<rparr>\<rparr>"
    by (simp add: recovers_def plain_entry_def)
  have fi: "fs_indices ?d = [1, 2, 3]" using view_indices [OF ok] by (simp add: sample_disk_good(2) plain_entry_def)
  have "List.map_filter (entry_at sample_pc ?d) (fs_indices ?d) = [plain_entry 1 1, plain_entry 1 2, plain_entry 1 3]"
    using sample_disk_good(2) by (simp add: fs_view_def)
  moreover have "filter (\<lambda>i. 1 \<le> i \<and> i < 4) (fs_indices ?d) = fs_indices ?d" unfolding fi by simp
  ultimately have "fst (fs_read_range sample_pc no_failure 1 4 ?d2) = Ok [plain_entry 1 1, plain_entry 1 2, plain_entry 1 3]"
    unfolding fs_read_range_result [OF s2(1)] s2(3,4) by simp
  then show ?thesis using run ls unfolding l_def by blast
qed

end
