(* ===== verification/RaftSnapshot.thy ===== *)
theory RaftSnapshot
  imports RaftFsCrash LedgerId Utf8
begin

text \<open>
  Snapshot stores: the trait \<open>RaftSnapshotStore\<close> and its contract, the in-memory store, the
  filesystem store of \<open>raft/storage/fs.rs\<close> with the validation of snapshot ids and the sweep of
  superseded files, and what a crash during a snapshot write leaves.
\<close>

section \<open>The trait\<close>

record 's RaftSnapshotStore =
  rss_write :: "SnapshotMeta \<Rightarrow> bytes \<Rightarrow> 's \<Rightarrow> unit io_result \<times> 's"
  rss_read :: "SnapshotId \<Rightarrow> 's \<Rightarrow> bytes option io_result \<times> 's"
  rss_current :: "'s \<Rightarrow> (SnapshotMeta \<times> bytes) option io_result \<times> 's"

locale snapshot_store =
  fixes store :: "'s RaftSnapshotStore" and latest :: "'s \<Rightarrow> (SnapshotMeta \<times> bytes) option" and good :: "'s \<Rightarrow> bool"
    and accepts :: "SnapshotId \<Rightarrow> bool"
  assumes write_latest: "good s \<Longrightarrow> accepts (sn_id m) \<Longrightarrow>
      \<exists>s'. rss_write store m data s = (Ok (), s') \<and> good s' \<and> latest s' = Some (m, data)"
    and current: "good s \<Longrightarrow> \<exists>s'. rss_current store s = (Ok (latest s), s') \<and> good s' \<and> latest s' = latest s"
    and read_latest: "good s \<Longrightarrow> latest s = Some (m, data) \<Longrightarrow>
      \<exists>s'. rss_read store (sn_id m) s = (Ok (Some data), s') \<and> good s' \<and> latest s' = latest s"

section \<open>The in-memory store\<close>

record SnapshotStoreState =
  sp_snapshots :: "(SnapshotId, SnapshotMeta \<times> bytes) hashmap"
  sp_current :: "SnapshotId option"

definition SnapshotStoreState_default :: SnapshotStoreState where
  "SnapshotStoreState_default = \<lparr>sp_snapshots = hm_empty, sp_current = None\<rparr>"

definition mem_snapshot_write :: "SnapshotMeta \<Rightarrow> bytes \<Rightarrow> SnapshotStoreState \<Rightarrow> unit io_result \<times> SnapshotStoreState" where
  "mem_snapshot_write meta data s =
     (Ok (), s\<lparr>sp_snapshots := hm_insert (sp_snapshots s) (sn_id meta) (meta, data), sp_current := Some (sn_id meta)\<rparr>)"

definition mem_snapshot_read :: "SnapshotId \<Rightarrow> SnapshotStoreState \<Rightarrow> bytes option io_result \<times> SnapshotStoreState" where
  "mem_snapshot_read i s = (Ok (map_option snd (hm_get (sp_snapshots s) i)), s)"

definition mem_snapshot_current :: "SnapshotStoreState \<Rightarrow> (SnapshotMeta \<times> bytes) option io_result \<times> SnapshotStoreState" where
  "mem_snapshot_current s = (Ok (Option.bind (sp_current s) (hm_get (sp_snapshots s))), s)"

definition MemoryRaftSnapshotStore :: "SnapshotStoreState RaftSnapshotStore" where
  "MemoryRaftSnapshotStore =
     \<lparr>rss_write = mem_snapshot_write, rss_read = mem_snapshot_read, rss_current = mem_snapshot_current\<rparr>"

definition mem_latest :: "SnapshotStoreState \<Rightarrow> (SnapshotMeta \<times> bytes) option" where
  "mem_latest s = Option.bind (sp_current s) (hm_get (sp_snapshots s))"

definition mem_snapshots_good :: "SnapshotStoreState \<Rightarrow> bool" where
  "mem_snapshots_good s \<longleftrightarrow> (\<forall>i m data. hm_get (sp_snapshots s) i = Some (m, data) \<longrightarrow> sn_id m = i)"

interpretation mem_snap: snapshot_store MemoryRaftSnapshotStore mem_latest mem_snapshots_good "\<lambda>_. True"
  by unfold_locales
    (auto simp: MemoryRaftSnapshotStore_def mem_snapshot_write_def mem_snapshot_read_def mem_snapshot_current_def
      mem_latest_def mem_snapshots_good_def split: bind_splits if_splits)

section \<open>The filesystem store\<close>

text \<open>Snapshot ids that may become part of a file name.\<close>

definition path_safe_char :: "char \<Rightarrow> bool" where
  "path_safe_char c \<longleftrightarrow>
     (let n = (of_char c :: nat)
      in (65 \<le> n \<and> n \<le> 90) \<or> (97 \<le> n \<and> n \<le> 122) \<or> (48 \<le> n \<and> n \<le> 57) \<or> c \<in> {CHR ''-'', CHR ''_'', CHR ''.''})"

definition validate_path_safe_id :: "SnapshotId \<Rightarrow> string io_result" where
  "validate_path_safe_id s =
     (if s = [] then Err (Corruption ''snapshot id is empty'')
      else if length s > 128 then Err (Corruption ''snapshot id length exceeds cap'')
      else if contains_str ''..'' s then Err (Corruption ''snapshot id contains path-traversal'')
      else if list_ex (\<lambda>c. \<not> path_safe_char c) s then Err (Corruption ''snapshot id contains disallowed character'')
      else Ok s)"

definition meta_path :: "string \<Rightarrow> string" where
  "meta_path i = i @ ''.meta''"

definition data_path :: "string \<Rightarrow> string" where
  "data_path i = i @ ''.data''"

text \<open>\<open>str::as_bytes\<close> and \<open>std::str::from_utf8\<close>: strings are their bytes.\<close>

definition string_bytes :: "string \<Rightarrow> bytes" where
  "string_bytes s = map of_char s"

definition str_from_utf8 :: "bytes \<Rightarrow> string option" where
  "str_from_utf8 b = (if utf8_valid b then Some (map char_of b) else None)"

text \<open>
  The sweep: a failed call to list or remove is only logged. \<open>next_entry\<close> is one call per file and
  ends the loop when it fails.
\<close>

definition superseded :: "string \<Rightarrow> string \<Rightarrow> bool" where
  "superseded keep_id name \<longleftrightarrow>
     (case (case strip_suffix ''.meta'' name of Some stem \<Rightarrow> Some stem | None \<Rightarrow> strip_suffix ''.data'' name) of
        Some stem \<Rightarrow> stem \<noteq> keep_id
      | None \<Rightarrow> False) \<or> strip_suffix ''.tmp'' name \<noteq> None"

fun reclaim_loop :: "io_oracle \<Rightarrow> string \<Rightarrow> string list \<Rightarrow> bool \<Rightarrow> Disk \<Rightarrow> bool \<times> Disk" where
  "reclaim_loop io keep_id [] removed d = (removed, snd (fs_call io ''next entry'' (\<lambda>d. ((), d)) d))"
| "reclaim_loop io keep_id (name # names) removed d =
     (case fs_call io ''next entry'' (\<lambda>d. ((), d)) d of
        (Ok _, d) \<Rightarrow>
          if \<not> superseded keep_id name then reclaim_loop io keep_id names removed d
          else
            (case fs_call io ''remove file'' (\<lambda>d. (hm_contains (files d SnapshotFolder) name,
                 if hm_contains (files d SnapshotFolder) name then set_file SnapshotFolder name None d else d)) d of
               (Ok existed, d) \<Rightarrow> reclaim_loop io keep_id names (removed \<or> existed) d
             | (_, d) \<Rightarrow> reclaim_loop io keep_id names removed d)
      | (_, d) \<Rightarrow> (removed, d))"

definition reclaim_superseded :: "io_oracle \<Rightarrow> string \<Rightarrow> Disk \<Rightarrow> Disk" where
  "reclaim_superseded io keep_id d =
     (case fs_call io ''read snapshot dir'' (\<lambda>d. (hm_keys (files d SnapshotFolder), d)) d of
        (Ok names, d) \<Rightarrow>
          (case reclaim_loop io keep_id names False d of
             (removed, d) \<Rightarrow> if removed then snd (fsync_dir io SnapshotFolder d) else d)
      | (_, d) \<Rightarrow> d)"

definition fs_snapshot_write :: "Postcard \<Rightarrow> io_oracle \<Rightarrow> SnapshotMeta \<Rightarrow> bytes \<Rightarrow> Disk \<Rightarrow> unit io_result \<times> Disk" where
  "fs_snapshot_write pc io meta data d =
     bind_io (validate_path_safe_id (sn_id meta), d) (\<lambda>safe_id d.
     bind_io (fs_encode (pc_meta pc) ''encode snapshot meta'' meta d) (\<lambda>meta_bytes d.
     bind_io (atomic_write io SnapshotFolder (meta_path safe_id) meta_bytes d) (\<lambda>_ d.
     bind_io (atomic_write io SnapshotFolder (data_path safe_id) data d) (\<lambda>_ d.
     bind_io (atomic_write io SnapshotFolder ''current'' (string_bytes safe_id) d) (\<lambda>_ d.
       (Ok (), reclaim_superseded io safe_id d))))))"

definition fs_snapshot_read :: "io_oracle \<Rightarrow> SnapshotId \<Rightarrow> Disk \<Rightarrow> bytes option io_result \<times> Disk" where
  "fs_snapshot_read io i d =
     bind_io (validate_path_safe_id i, d) (\<lambda>safe_id d. read_if_exists io SnapshotFolder (data_path safe_id) d)"

definition fs_snapshot_current :: "Postcard \<Rightarrow> io_oracle \<Rightarrow> Disk \<Rightarrow> (SnapshotMeta \<times> bytes) option io_result \<times> Disk" where
  "fs_snapshot_current pc io d =
     bind_io (read_if_exists io SnapshotFolder ''current'' d) (\<lambda>found d.
       case found of
         None \<Rightarrow> (Ok None, d)
       | Some id_bytes \<Rightarrow>
           (case str_from_utf8 id_bytes of
              None \<Rightarrow> (Err (Corruption ''current snapshot id is not utf8''), d)
            | Some i \<Rightarrow>
                bind_io (validate_path_safe_id i, d) (\<lambda>safe_id d.
                bind_io (read_if_exists io SnapshotFolder (meta_path safe_id) d) (\<lambda>meta_found d.
                  case meta_found of
                    None \<Rightarrow> (Err (Corruption ''meta file is missing''), d)
                  | Some meta_bytes \<Rightarrow>
                      bind_io (fs_decode (pc_meta pc) ''decode snapshot meta'' meta_bytes d) (\<lambda>meta d.
                      bind_io (read_if_exists io SnapshotFolder (data_path safe_id) d) (\<lambda>data_found d.
                        case data_found of
                          None \<Rightarrow> (Err (Corruption ''data file is missing''), d)
                        | Some data \<Rightarrow> (Ok (Some (meta, data)), d)))))))"

definition FsRaftSnapshotStore :: "Postcard \<Rightarrow> io_oracle \<Rightarrow> Disk RaftSnapshotStore" where
  "FsRaftSnapshotStore pc io =
     \<lparr>rss_write = fs_snapshot_write pc io, rss_read = fs_snapshot_read io, rss_current = fs_snapshot_current pc io\<rparr>"

section \<open>Laws of the filesystem store\<close>

lemma validate_path_safe_id_Ok: "validate_path_safe_id s = Ok x \<longleftrightarrow> x = s \<and> s \<noteq> [] \<and> length s \<le> 128 \<and>
    \<not> contains_str ''..'' s \<and> list_all path_safe_char s"
  by (auto simp: validate_path_safe_id_def list_ex_iff list_all_iff)

lemma validate_not_panic: "validate_path_safe_id s \<noteq> Panic"
  by (simp add: validate_path_safe_id_def)

lemma snapshot_names [simp]:
  "meta_path i = meta_path j \<longleftrightarrow> i = j" "data_path i = data_path j \<longleftrightarrow> i = j" "meta_path i \<noteq> data_path j" "data_path j \<noteq> meta_path i"
  "meta_path i \<noteq> ''current''" "''current'' \<noteq> meta_path i" "data_path i \<noteq> ''current''" "''current'' \<noteq> data_path i"
  "\<not> is_tmp (meta_path i)" "\<not> is_tmp (data_path i)" "\<not> is_tmp ''current''"
  by (auto simp: meta_path_def data_path_def is_tmp_def dest: arg_cong [of _ _ rev])

lemma strip_suffix_Some: "strip_suffix suf s = Some x \<longleftrightarrow> s = x @ suf"
proof
  assume "strip_suffix suf s = Some x"
  then have x: "x = take (length s - length suf) s" "drop (length s - length suf) s = suf" by (auto simp: strip_suffix_def split: if_splits)
  then show "s = x @ suf" using append_take_drop_id [of "length s - length suf" s] by simp
qed simp

lemma strip_suffix_other: "(\<And>x. s \<noteq> x @ suf) \<Longrightarrow> strip_suffix suf s = None"
  using strip_suffix_Some [of suf s] by (cases "strip_suffix suf s") auto

lemma kept_files:
  "\<not> superseded i (meta_path i)" "\<not> superseded i (data_path i)" "\<not> superseded i ''current''"
proof -
  have no: "strip_suffix ''.tmp'' (meta_path j) = None" "strip_suffix ''.tmp'' (data_path j) = None"
    "strip_suffix ''.meta'' (data_path j) = None" "strip_suffix ''.tmp'' ''current'' = None"
    "strip_suffix ''.meta'' ''current'' = None" "strip_suffix ''.data'' ''current'' = None" for j
    by (auto intro!: strip_suffix_other simp: meta_path_def data_path_def dest: arg_cong [of _ _ rev])
  have yes: "strip_suffix ''.meta'' (meta_path i) = Some i" "strip_suffix ''.data'' (data_path i) = Some i"
    by (simp_all add: meta_path_def data_path_def)
  show "\<not> superseded i (meta_path i)" "\<not> superseded i (data_path i)" "\<not> superseded i ''current''"
    by (simp_all add: superseded_def no yes)
qed

definition swept :: "string \<Rightarrow> (Folder \<times> string \<times> bytes option) set" where
  "swept keep_id = {(SnapshotFolder, name, None) | name. superseded keep_id name}"

lemma within_call [simp]: "within S (d\<lparr>dk_calls := n\<rparr>) d' \<longleftrightarrow> within S d d'"
  by (simp add: within_def)

lemma reclaim_loop_within: "within (swept keep_id) d (snd (reclaim_loop io keep_id names removed d))"
proof (induction names arbitrary: removed d)
  case (Cons name names)
  let ?d1 = "d\<lparr>dk_calls := dk_calls d + 1\<rparr>" and ?d2 = "d\<lparr>dk_calls := dk_calls d + 2\<rparr>"
  have w: "within (swept keep_id) d d'" if "within (swept keep_id) (set_file SnapshotFolder name None ?d2) d'" "superseded keep_id name" for d'
    using within_trans [OF within_set_file [of name SnapshotFolder None "swept keep_id" ?d2] that(1)] that(2) by (auto simp: swept_def)
  have i: "within (swept keep_id) d (snd (reclaim_loop io keep_id names b (d\<lparr>dk_calls := n\<rparr>)))" for b n
    using Cons.IH [of "d\<lparr>dk_calls := n\<rparr>" b] by simp
  show ?case using i w [OF Cons.IH] by (auto simp: fs_call_def Let_def)
qed (simp add: fs_call_def Let_def)

lemma reclaim_within: "within (swept keep_id) d (reclaim_superseded io keep_id d)"
proof -
  have s: "within (swept keep_id) d1 (snd (fsync_dir io SnapshotFolder d1))" for d1
    using outcome_either [OF fsync_dir_outcome [of io SnapshotFolder d1]] within_mono [of "{}" d1 _ "swept keep_id"] by auto
  show ?thesis
    using reclaim_loop_within [of keep_id "d\<lparr>dk_calls := dk_calls d + 1\<rparr>" io "hm_keys (files d SnapshotFolder)" False]
    by (auto simp: reclaim_superseded_def fs_call_def Let_def case_prod_beta intro: within_trans [OF _ s])
qed

text \<open>A file that every crash finds with the same content, and a store whose current snapshot is \<open>c\<close>.\<close>

definition settled :: "Disk \<Rightarrow> string \<Rightarrow> bytes option \<Rightarrow> bool" where
  "settled d name v \<longleftrightarrow> versions d SnapshotFolder name = {v}"

fun snap_good :: "Postcard \<Rightarrow> (SnapshotMeta \<times> bytes) option \<Rightarrow> Disk \<Rightarrow> bool" where
  "snap_good pc None d \<longleftrightarrow> settled d ''current'' None"
| "snap_good pc (Some (m, data)) d \<longleftrightarrow>
     (validate_path_safe_id (sn_id m) = Ok (sn_id m) \<and> settled d ''current'' (Some (string_bytes (sn_id m))) \<and>
      settled d (meta_path (sn_id m)) (Some (encoded (pc_meta pc) m)) \<and> settled d (data_path (sn_id m)) (Some data))"

lemma settled_now: "settled d name v \<Longrightarrow> hm_get (files d SnapshotFolder) name = v"
  using version_now [of d SnapshotFolder name] by (simp add: settled_def)

lemma settled_synced: "synced d SnapshotFolder \<Longrightarrow> hm_get (files d SnapshotFolder) name = v \<Longrightarrow> settled d name v"
  by (simp add: settled_def versions_synced)

lemma within_versions: "within S d d' \<Longrightarrow> \<not> is_tmp name \<Longrightarrow> versions d' f name \<subseteq> versions d f name \<union> {w. (f, name, w) \<in> S}"
  unfolding within_def by blast

lemma settled_within:
  assumes "settled d name v" "within S d d'" "\<not> is_tmp name" "\<And>w. (SnapshotFolder, name, w) \<in> S \<Longrightarrow> w = v"
  shows "settled d' name v"
proof -
  have "versions d' SnapshotFolder name \<subseteq> versions d SnapshotFolder name \<union> {w. (SnapshotFolder, name, w) \<in> S}"
    using assms(2,3) unfolding within_def by blast
  then have "versions d' SnapshotFolder name \<subseteq> {v}" using assms(1,4) by (auto simp: settled_def)
  then show ?thesis using version_now [of d' SnapshotFolder name] by (auto simp: settled_def)
qed

lemma snap_good_within:
  assumes "snap_good pc c d" "within S d d'"
    and "\<And>w. (SnapshotFolder, ''current'', w) \<notin> S"
    and "\<And>m data w. c = Some (m, data) \<Longrightarrow> (SnapshotFolder, meta_path (sn_id m), w) \<notin> S \<and> (SnapshotFolder, data_path (sn_id m), w) \<notin> S"
  shows "snap_good pc c d'"
  using assms settled_within [OF _ assms(2)] by (cases "(pc, c, d)" rule: snap_good.cases) fastforce+

lemma str_from_utf8_safe:
  assumes "validate_path_safe_id s = Ok s"
  shows "str_from_utf8 (string_bytes s) = Some s"
proof -
  have "of_char c < (128 :: nat)" if "path_safe_char c" for c using that by (auto simp: path_safe_char_def Let_def)
  then have "list_all (\<lambda>b. b < 128) (string_bytes s)"
    using assms by (auto simp: validate_path_safe_id_Ok string_bytes_def list_all_iff)
  then show ?thesis using utf8_ascii [of "string_bytes s"] by (simp add: str_from_utf8_def string_bytes_def comp_def)
qed

lemma snapshot_current_good:
  assumes "postcard_ok pc" "snap_good pc c d"
  shows "\<exists>d'. fs_snapshot_current pc no_failure d = (Ok c, d') \<and> dk_dir d' = dk_dir d"
proof (cases c)
  case None
  then have "hm_get (files d SnapshotFolder) ''current'' = None" using assms(2) settled_now by simp
  then show ?thesis using None by (simp add: fs_snapshot_current_def read_if_exists_def fs_call_def Let_def)
next
  case (Some md)
  obtain m data where md: "md = (m, data)" by (cases md)
  have now: "hm_get (files d SnapshotFolder) ''current'' = Some (string_bytes (sn_id m))"
    "hm_get (files d SnapshotFolder) (meta_path (sn_id m)) = Some (encoded (pc_meta pc) m)"
    "hm_get (files d SnapshotFolder) (data_path (sn_id m)) = Some data" "validate_path_safe_id (sn_id m) = Ok (sn_id m)"
    using assms(2) settled_now by (auto simp: Some md)
  show ?thesis using now str_from_utf8_safe [OF now(4)] assms(1)
    by (simp add: Some md fs_snapshot_current_def read_if_exists_def fs_call_def Let_def fs_decode_def)
qed

text \<open>One \<open>atomic_write\<close> into the snapshot folder: what it may have touched, and what \<open>Ok\<close> means.\<close>

lemma snapshot_file_written:
  obtains (finished) "fst (atomic_write io SnapshotFolder name b d) = Ok ()"
      "changed [(SnapshotFolder, name) \<mapsto> Some b] d (snd (atomic_write io SnapshotFolder name b d))"
      "synced (snd (atomic_write io SnapshotFolder name b d)) SnapshotFolder"
      "within {(SnapshotFolder, name, Some b)} d (snd (atomic_write io SnapshotFolder name b d))"
    | (failed) "\<nexists>x. fst (atomic_write io SnapshotFolder name b d) = Ok x"
      "within {(SnapshotFolder, name, Some b)} d (snd (atomic_write io SnapshotFolder name b d))"
  using outcome_either [OF atomic_write_outcome [of io SnapshotFolder name b d]] by fastforce

lemma bind_io_stops: "\<nexists>x. fst r = Ok x \<Longrightarrow> snd (bind_io r f) = snd r \<and> fst (bind_io r f) \<noteq> Ok y"
  by (cases r; cases "fst r") auto

lemma bind_io_goes: "fst r = Ok x \<Longrightarrow> bind_io r f = f x (snd r)"
  by (cases r) auto

text \<open>
  Where a write can end: before the pointer was touched, in the write of the pointer, or after it,
  with the sweep behind it.
\<close>

lemma snapshot_write_cases:
  assumes pok: "postcard_ok pc" and ok: "validate_path_safe_id (sn_id m) = Ok (sn_id m)"
    and run: "fs_snapshot_write pc io m data d = (r, d')"
  defines "S \<equiv> {(SnapshotFolder, meta_path (sn_id m), Some (encoded (pc_meta pc) m)), (SnapshotFolder, data_path (sn_id m), Some data)}"
    and "P \<equiv> {(SnapshotFolder, ''current'', Some (string_bytes (sn_id m)))}"
  obtains (early) "r \<noteq> Ok ()" "within S d d'"
    | (pointer) d1 where "r \<noteq> Ok ()" "within S d d1" "settled d1 (meta_path (sn_id m)) (Some (encoded (pc_meta pc) m))"
        "settled d1 (data_path (sn_id m)) (Some data)" "within P d1 d'"
    | (complete) "r = Ok ()" "snap_good pc (Some (m, data)) d'"
proof -
  let ?i = "sn_id m" and ?b = "encoded (pc_meta pc) m" and ?w = "atomic_write io SnapshotFolder"
  let ?d1 = "snd (?w (meta_path ?i) ?b d)"
  let ?d2 = "snd (?w (data_path ?i) data ?d1)"
  let ?d3 = "snd (?w ''current'' (string_bytes ?i) ?d2)"
  have enc: "fs_encode (pc_meta pc) a m d = (Ok ?b, d)" for a using pok by (simp add: fs_encode_def)
  have eq: "bind_io (?w (meta_path ?i) ?b d) (\<lambda>_ d. bind_io (?w (data_path ?i) data d) (\<lambda>_ d.
      bind_io (?w ''current'' (string_bytes ?i) d) (\<lambda>_ d. (Ok (), reclaim_superseded io ?i d)))) = (r, d')"
    using run by (simp add: fs_snapshot_write_def ok enc)
  have mono: "within S x y" if "within {(SnapshotFolder, meta_path ?i, Some ?b)} x y \<or> within {(SnapshotFolder, data_path ?i, Some data)} x y" for x y
    using that within_mono by (auto simp: S_def)
  show thesis
  proof (cases rule: snapshot_file_written [of io "meta_path ?i" ?b d])
    case failed
    then show thesis using bind_io_stops [OF failed(1)] eq mono early by (metis fst_conv snd_conv)
  next
    case meta: finished
    note eq1 = eq [unfolded bind_io_goes [OF meta(1)]]
    show thesis
    proof (cases rule: snapshot_file_written [of io "data_path ?i" data ?d1])
      case failed
      have "within S d ?d2" using within_trans mono meta(4) failed(2) by blast
      then show thesis using bind_io_stops [OF failed(1)] eq1 early by (metis fst_conv snd_conv)
    next
      case data: finished
      note eq2 = eq1 [unfolded bind_io_goes [OF data(1)]]
      have files2: "settled ?d2 (meta_path ?i) (Some ?b)" "settled ?d2 (data_path ?i) (Some data)"
        using meta(2) data(2) by (auto intro!: settled_synced [OF data(3)] simp: changed_def)
      have w2: "within S d ?d2" using within_trans mono meta(4) data(4) by blast
      show thesis
      proof (cases rule: snapshot_file_written [of io "''current''" "string_bytes ?i" ?d2])
        case failed
        have "r \<noteq> Ok ()" "d' = ?d3" using bind_io_stops [OF failed(1)] eq2 by (metis fst_conv snd_conv)+
        then show thesis using pointer [OF _ w2 files2] failed(2) by (simp add: P_def)
      next
        case current: finished
        have r: "r = Ok ()" "d' = reclaim_superseded io ?i ?d3" using eq2 [unfolded bind_io_goes [OF current(1)]] by auto
        have "snap_good pc (Some (m, data)) ?d3"
          using ok current(2) settled_now [OF files2(1)] settled_now [OF files2(2)]
          by (auto intro!: settled_synced [OF current(3)] simp: changed_def)
        then have "snap_good pc (Some (m, data)) d'" unfolding r(2)
          by (rule snap_good_within [OF _ reclaim_within]) (auto simp: swept_def kept_files)
        then show thesis using complete r(1) by blast
      qed
    qed
  qed
qed

lemma snap_good_crash: "snap_good pc c d \<Longrightarrow> crash d d' \<Longrightarrow> snap_good pc c d'"
  by (rule snap_good_within [OF _ crash_within]) auto

fun pointer_of :: "(SnapshotMeta \<times> bytes) option \<Rightarrow> bytes option" where
  "pointer_of None = None"
| "pointer_of (Some (m, data)) = Some (string_bytes (sn_id m))"

lemma snap_good_pointer: "snap_good pc c d \<Longrightarrow> settled d ''current'' (pointer_of c)"
  by (cases c rule: pointer_of.cases) simp_all

lemma snap_good_back:
  assumes good: "snap_good pc c d" and w: "within {(SnapshotFolder, ''current'', v)} d d'" and old: "settled d' ''current'' (pointer_of c)"
  shows "snap_good pc c d'"
proof (cases c rule: pointer_of.cases)
  case (2 m data)
  have "settled d' n x" if "settled d n x" "\<not> is_tmp n" "n \<noteq> ''current''" for n x
    by (rule settled_within [OF that(1) w that(2)]) (use that(3) in simp)
  then show ?thesis using good old unfolding 2 by simp
qed (use old in simp)

lemma snapshot_refused:
  assumes "validate_path_safe_id (sn_id m) \<noteq> Ok (sn_id m)" "fs_snapshot_write pc io m data d = (r, d')"
  shows "r \<noteq> Ok () \<and> d' = d"
  using assms validate_path_safe_id_Ok [of "sn_id m"]
  by (cases "validate_path_safe_id (sn_id m)") (auto simp: fs_snapshot_write_def)

text \<open>Without I/O failures the store keeps the contract.\<close>

definition fs_latest :: "Postcard \<Rightarrow> Disk \<Rightarrow> (SnapshotMeta \<times> bytes) option" where
  "fs_latest pc d = (case fst (fs_snapshot_current pc no_failure d) of Ok c \<Rightarrow> c | _ \<Rightarrow> None)"

definition fs_snapshots_good :: "Postcard \<Rightarrow> Disk \<Rightarrow> bool" where
  "fs_snapshots_good pc d \<longleftrightarrow> postcard_ok pc \<and> snap_good pc (fs_latest pc d) d"

lemma fs_latest_good: "postcard_ok pc \<Longrightarrow> snap_good pc c d \<Longrightarrow> fs_latest pc d = c \<and> fs_snapshots_good pc d"
  using snapshot_current_good [of pc c d] by (auto simp: fs_latest_def fs_snapshots_good_def)

lemma same_dir_snapshots: "dk_dir d' = dk_dir d \<Longrightarrow> snap_good pc c d' = snap_good pc c d"
  by (cases "(pc, c, d)" rule: snap_good.cases) (simp_all add: settled_def same_dir(2) [of d' d])

lemma snapshot_write_succeeds:
  assumes "postcard_ok pc" "validate_path_safe_id (sn_id m) = Ok (sn_id m)"
  shows "\<exists>d'. fs_snapshot_write pc no_failure m data d = (Ok (), d')"
proof -
  have ok: "\<exists>d'. atomic_write no_failure SnapshotFolder n b d = (Ok (), d')" for n b d
    using outcome_all_ok [OF atomic_write_outcome [of no_failure SnapshotFolder n b d]] by (cases "atomic_write no_failure SnapshotFolder n b d") auto
  obtain d1 where d1: "atomic_write no_failure SnapshotFolder (meta_path (sn_id m)) (encoded (pc_meta pc) m) d = (Ok (), d1)" using ok by blast
  obtain d2 where d2: "atomic_write no_failure SnapshotFolder (data_path (sn_id m)) data d1 = (Ok (), d2)" using ok by blast
  obtain d3 where d3: "atomic_write no_failure SnapshotFolder ''current'' (string_bytes (sn_id m)) d2 = (Ok (), d3)" using ok by blast
  show ?thesis using assms d1 d2 d3 by (simp add: fs_snapshot_write_def fs_encode_def)
qed

interpretation fs_snap: snapshot_store "FsRaftSnapshotStore pc no_failure" "fs_latest pc" "fs_snapshots_good pc"
  "\<lambda>i. validate_path_safe_id i = Ok i" for pc
proof
  fix d m data assume good: "fs_snapshots_good pc d"
  then have pok: "postcard_ok pc" and c: "snap_good pc (fs_latest pc d) d" by (simp_all add: fs_snapshots_good_def)
  show "\<exists>d'. rss_write (FsRaftSnapshotStore pc no_failure) m data d = (Ok (), d') \<and> fs_snapshots_good pc d' \<and> fs_latest pc d' = Some (m, data)"
    if ok: "validate_path_safe_id (sn_id m) = Ok (sn_id m)"
  proof -
    obtain d' where run: "fs_snapshot_write pc no_failure m data d = (Ok (), d')" using snapshot_write_succeeds [OF pok ok] by blast
    from pok ok run have "snap_good pc (Some (m, data)) d'" by (cases rule: snapshot_write_cases) auto
    from fs_latest_good [OF pok this] show ?thesis using run by (simp add: FsRaftSnapshotStore_def)
  qed
  show "\<exists>d'. rss_current (FsRaftSnapshotStore pc no_failure) d = (Ok (fs_latest pc d), d') \<and> fs_snapshots_good pc d' \<and> fs_latest pc d' = fs_latest pc d"
  proof -
    obtain d' where d': "fs_snapshot_current pc no_failure d = (Ok (fs_latest pc d), d')" "dk_dir d' = dk_dir d"
      using snapshot_current_good [OF pok c] by blast
    have "snap_good pc (fs_latest pc d) d'" using c same_dir_snapshots [OF d'(2)] by simp
    then show ?thesis using fs_latest_good [OF pok] d'(1) by (simp add: FsRaftSnapshotStore_def)
  qed
  show "\<exists>d'. rss_read (FsRaftSnapshotStore pc no_failure) (sn_id m) d = (Ok (Some data), d') \<and> fs_snapshots_good pc d' \<and> fs_latest pc d' = fs_latest pc d"
    if l: "fs_latest pc d = Some (m, data)"
  proof -
    let ?d = "d\<lparr>dk_calls := dk_calls d + 1\<rparr>"
    have "fs_snapshot_read no_failure (sn_id m) d = (Ok (Some data), ?d)"
      using c settled_now [of d "data_path (sn_id m)"] by (simp add: l fs_snapshot_read_def read_if_exists_def fs_call_def Let_def)
    moreover have "snap_good pc (fs_latest pc d) ?d" using c same_dir_snapshots [of ?d d] by simp
    ultimately show ?thesis using fs_latest_good [OF pok] by (simp add: FsRaftSnapshotStore_def)
  qed
qed

lemma snapshot_replaced:
  assumes pok: "postcard_ok pc" and ok: "validate_path_safe_id (sn_id m) = Ok (sn_id m)" and good: "snap_good pc c d"
    and fresh: "\<And>m0 data0. c = Some (m0, data0) \<Longrightarrow> sn_id m0 \<noteq> sn_id m"
    and run: "fs_snapshot_write pc io m data d = (r, d1)" and crash: "crash d1 d2"
  shows "\<exists>c' \<in> {c, Some (m, data)}. snap_good pc c' d2 \<and> (r = Ok () \<longrightarrow> c' = Some (m, data))"
proof -
  have keep: "snap_good pc c x" if "within {(SnapshotFolder, meta_path (sn_id m), Some (encoded (pc_meta pc) m)),
      (SnapshotFolder, data_path (sn_id m), Some data)} d x" for x
    by (rule snap_good_within [OF good that]) (use fresh in auto)
  from pok ok run show ?thesis
  proof (cases rule: snapshot_write_cases)
    case early
    then show ?thesis using snap_good_crash [OF keep crash] by auto
  next
    case (pointer d')
    let ?p = "Some (string_bytes (sn_id m))"
    have w: "within {(SnapshotFolder, ''current'', ?p)} d' d2" by (rule crash_after [OF pointer(5) crash])
    note old = keep [OF pointer(2)]
    have "versions d2 SnapshotFolder ''current'' \<subseteq> versions d' SnapshotFolder ''current'' \<union> {?p}"
      using within_versions [OF w, of "''current''" SnapshotFolder] by auto
    then have "hm_get (files d2 SnapshotFolder) ''current'' \<in> versions d' SnapshotFolder ''current'' \<union> {?p}"
      using version_now [of d2 SnapshotFolder "''current''"] by blast
    then have "hm_get (files d2 SnapshotFolder) ''current'' \<in> {pointer_of c, ?p}"
      using snap_good_pointer [OF old] by (auto simp: settled_def)
    then consider "settled d2 ''current'' (pointer_of c)" | "settled d2 ''current'' ?p"
      using settled_synced [OF crash_synced [OF crash]] by blast
    then show ?thesis
    proof cases
      case 1
      then show ?thesis using snap_good_back [OF old w] pointer(1) by auto
    next
      case 2
      then have "snap_good pc (Some (m, data)) d2"
        using ok settled_within [OF pointer(3) w] settled_within [OF pointer(4) w] by simp
      then show ?thesis by auto
    qed
  next
    case complete
    then show ?thesis using snap_good_crash [OF complete(2) crash] by auto
  qed
qed

lemma snapshot_rewritten:
  assumes pok: "postcard_ok pc" and ok: "validate_path_safe_id (sn_id m) = Ok (sn_id m)"
    and run: "fs_snapshot_write pc io m data d = (r, d1)" and crash: "crash d1 d2" and good: "snap_good pc (Some (m, data0)) d"
  shows "\<exists>c' \<in> {Some (m, data0), Some (m, data)}. snap_good pc c' d2 \<and> (r = Ok () \<longrightarrow> c' = Some (m, data))"
proof -
  let ?S = "{(SnapshotFolder, meta_path (sn_id m), Some (encoded (pc_meta pc) m)), (SnapshotFolder, data_path (sn_id m), Some data)}"
  let ?T = "insert (SnapshotFolder, ''current'', Some (string_bytes (sn_id m))) ?S"
  have unfinished: ?thesis if w: "within ?T d d1" and r: "r \<noteq> Ok ()"
  proof -
    have w2: "within ?T d d2" by (rule crash_after [OF w crash])
    have s: "settled d2 ''current'' (Some (string_bytes (sn_id m)))" "settled d2 (meta_path (sn_id m)) (Some (encoded (pc_meta pc) m))"
      using good by (auto intro!: settled_within [OF _ w2])
    have "hm_get (files d2 SnapshotFolder) (data_path (sn_id m)) \<in> {Some data0, Some data}"
      using within_versions [OF w2, of "data_path (sn_id m)" SnapshotFolder] version_now [of d2 SnapshotFolder "data_path (sn_id m)"] good
      by (auto simp: settled_def)
    then have "settled d2 (data_path (sn_id m)) (Some data0) \<or> settled d2 (data_path (sn_id m)) (Some data)"
      using settled_synced [OF crash_synced [OF crash]] by blast
    then show ?thesis using s ok r by auto
  qed
  from pok ok run show ?thesis
  proof (cases rule: snapshot_write_cases)
    case early
    then show ?thesis using unfinished within_mono by blast
  next
    case (pointer d')
    have "within ?T d d1" by (rule within_trans [OF within_mono [OF pointer(2)] within_mono [OF pointer(5)]]) auto
    then show ?thesis using unfinished pointer(1) by blast
  next
    case complete
    then show ?thesis using snap_good_crash [OF complete(2) crash] by auto
  qed
qed

text \<open>A write that returned \<open>Ok\<close> survives every crash.\<close>

lemma snapshot_written:
  assumes "postcard_ok pc" "fs_snapshot_write pc io m data d = (Ok (), d1)" "crash d1 d2"
  shows "snap_good pc (Some (m, data)) d2"
proof -
  have ok: "validate_path_safe_id (sn_id m) = Ok (sn_id m)" using snapshot_refused [OF _ assms(2)] by blast
  from assms(1) ok assms(2) have "snap_good pc (Some (m, data)) d1" by (cases rule: snapshot_write_cases) auto
  then show ?thesis using snap_good_crash assms(3) by blast
qed

section \<open>Properties\<close>


definition sample_meta :: SnapshotMeta where
  "sample_meta = \<lparr>sn_id = ''snap-3-1'', sn_last_applied = Some \<lparr>lid_term = 1, lid_index = 3\<rparr>, sn_membership = []\<rparr>"


text \<open>
  A snapshot id cannot leave the snapshot folder. An id that the store accepts is a
  non-empty name of at most 128 characters without a path separator, and neither it nor the file
  names built from it is a relative path component; every other id is refused as corruption, on
  the write and on both read paths, before any file is touched.
\<close>

theorem snapshot_id_confined:
  "case validate_path_safe_id i of
     Ok s \<Rightarrow> s = i \<and> i \<noteq> [] \<and> length i \<le> 128 \<and> set i \<inter> {CHR ''/'', CHR 0x5C, CHR 0x00} = {} \<and> i \<noteq> ''..'' \<and>
       {meta_path i, data_path i} \<inter> {''.'', ''..'', ''current''} = {}
   | Err e \<Rightarrow> (\<exists>reason. e = Corruption reason) \<and> fs_snapshot_read io i d = (Err e, d) \<and>
       fs_snapshot_write pc io (m\<lparr>sn_id := i\<rparr>) data d = (Err e, d) \<and>
       fst (fs_snapshot_current pc no_failure (set_file SnapshotFolder ''current'' (Some (string_bytes i)) d))
         \<in> {Err e, Err (Corruption ''current snapshot id is not utf8'')}
   | Panic \<Rightarrow> False"
proof (cases "validate_path_safe_id i")
  case (Ok s)
  then have ok: "s = i" "i \<noteq> []" "length i \<le> 128" "\<not> contains_str ''..'' i" "list_all path_safe_char i"
    unfolding validate_path_safe_id_Ok by auto
  have "\<not> path_safe_char c" if "c \<in> {CHR ''/'', CHR 0x5C, CHR 0x00}" for c using that by (auto simp: path_safe_char_def)
  then have "set i \<inter> {CHR ''/'', CHR 0x5C, CHR 0x00} = {}" using ok(5) by (auto simp: list_all_iff)
  moreover have "i \<noteq> ''..''" using ok(4) by auto
  moreover have "{meta_path i, data_path i} \<inter> {''.'', ''..'', ''current''} = {}"
    using ok(2) by (auto simp: meta_path_def data_path_def append_eq_Cons_conv)
  ultimately show ?thesis using Ok ok by simp
next
  case (Err e)
  then have "\<exists>reason. e = Corruption reason" by (auto simp: validate_path_safe_id_def split: if_splits)
  moreover have "fst (fs_snapshot_current pc no_failure (set_file SnapshotFolder ''current'' (Some (string_bytes i)) d))
      \<in> {Err e, Err (Corruption ''current snapshot id is not utf8'')}"
    using Err by (simp add: fs_snapshot_current_def read_if_exists_def fs_call_def Let_def str_from_utf8_def string_bytes_def comp_def)
  ultimately show ?thesis using Err by (simp add: fs_snapshot_read_def fs_snapshot_write_def)
qed (simp add: validate_not_panic)

end
