(* ===== verification/RaftWaiter.thy ===== *)
theory RaftWaiter
  imports RaftHeads
begin

text \<open>
  The per-process bridge from the replicated queue back to the clients that wait on it:
  \<open>raft/waiter.rs\<close> (parked waiters and buffered outcomes), \<open>raft/staged_receipt.rs\<close> (receipts
  stashed by the worker) and the dispatch of waiter resolutions in \<open>state_machine_adapter.rs\<close>.

  A \<open>tokio\<close> oneshot channel is a fresh number; sending on it appends to \<open>wm_sent\<close>. Both maps
  are \<open>DashMap\<close>s, locked per operation, so an execution is a sequence of operations.
\<close>

section \<open>Receipts\<close>

datatype ConflictStrategy = TakeBoth | Abort | TakeSource | TakeBranch | Skip

record IndexingStatus =
  is_enabled :: bool
  is_needed :: bool
  is_novelty_size :: nat
  is_index_t :: int
  is_commit_t :: int

record ReasoningTally =
  rt_capped :: bool
  rt_capped_reason :: "string option"
  rt_derived_facts :: nat
  rt_iterations :: nat
  rt_duration_ms :: nat

record TrackingTally =
  tt_time :: "string option"
  tt_fuel :: "f64 option"
  tt_policy :: "(string, PolicyStats) hashmap option"
  tt_reasoning :: "ReasoningTally option"

definition RecordedReasoningTally_from :: "ReasoningTally \<Rightarrow> RecordedReasoningTally" where
  "RecordedReasoningTally_from r =
     \<lparr>rr_capped = rt_capped r, rr_capped_reason = rt_capped_reason r, rr_derived_facts = rt_derived_facts r,
      rr_iterations = rt_iterations r, rr_duration_ms = rt_duration_ms r\<rparr>"

definition ReasoningTally_from :: "RecordedReasoningTally \<Rightarrow> ReasoningTally" where
  "ReasoningTally_from r =
     \<lparr>rt_capped = rr_capped r, rt_capped_reason = rr_capped_reason r, rt_derived_facts = rr_derived_facts r,
      rt_iterations = rr_iterations r, rt_duration_ms = rr_duration_ms r\<rparr>"

definition RecordedTally_from :: "TrackingTally \<Rightarrow> RecordedTally" where
  "RecordedTally_from t =
     \<lparr>tl_time = tt_time t, tl_fuel = tt_fuel t, tl_policy = tt_policy t,
      tl_reasoning = map_option RecordedReasoningTally_from (tt_reasoning t)\<rparr>"

definition TrackingTally_from :: "RecordedTally \<Rightarrow> TrackingTally" where
  "TrackingTally_from r =
     \<lparr>tt_time = tl_time r, tt_fuel = tl_fuel r, tt_policy = tl_policy r,
      tt_reasoning = map_option ReasoningTally_from (tl_reasoning r)\<rparr>"

record TransactApplied =
  ta_commit_id :: ContentId
  ta_commit_t :: int
  ta_flake_count :: nat
  ta_tally :: "TrackingTally option"

record PushApplied =
  pa_commit_id :: ContentId
  pa_commit_t :: int
  pa_accepted :: nat
  pa_indexing :: IndexingStatus

record RevertApplied =
  va_commit_id :: ContentId
  va_commit_t :: int
  va_reverted_commits :: "ContentId list"
  va_conflict_count :: nat
  va_strategy :: ConflictStrategy

record MergeApplied =
  ma_commit_id :: ContentId
  ma_commit_t :: int
  ma_fast_forward :: bool
  ma_commits_copied :: nat
  ma_conflict_count :: nat
  ma_strategy :: ConflictStrategy

record RebaseApplied =
  ra_commit_id :: ContentId
  ra_commit_t :: int
  ra_fast_forward :: bool
  ra_replayed :: nat
  ra_skipped :: nat
  ra_conflicts :: nat
  ra_failures :: nat
  ra_total_commits :: nat
  ra_source_head_t :: int
  ra_source_head_id :: ContentId
  ra_strategy :: ConflictStrategy

datatype AppliedReceipt =
    Receipt_Transact TransactApplied
  | Receipt_Push PushApplied
  | Receipt_Revert RevertApplied
  | Receipt_Merge MergeApplied
  | Receipt_Rebase RebaseApplied
  | Receipt_Minimal ContentId int

fun receipt_commit_id :: "AppliedReceipt \<Rightarrow> ContentId" where
  "receipt_commit_id (Receipt_Transact r) = ta_commit_id r"
| "receipt_commit_id (Receipt_Push r) = pa_commit_id r"
| "receipt_commit_id (Receipt_Revert r) = va_commit_id r"
| "receipt_commit_id (Receipt_Merge r) = ma_commit_id r"
| "receipt_commit_id (Receipt_Rebase r) = ra_commit_id r"
| "receipt_commit_id (Receipt_Minimal c t) = c"

fun receipt_commit_t :: "AppliedReceipt \<Rightarrow> int" where
  "receipt_commit_t (Receipt_Transact r) = ta_commit_t r"
| "receipt_commit_t (Receipt_Push r) = pa_commit_t r"
| "receipt_commit_t (Receipt_Revert r) = va_commit_t r"
| "receipt_commit_t (Receipt_Merge r) = ma_commit_t r"
| "receipt_commit_t (Receipt_Rebase r) = ra_commit_t r"
| "receipt_commit_t (Receipt_Minimal c t) = t"

record TransactStashMetadata =
  tm_flake_count :: nat
  tm_tally :: "TrackingTally option"

section \<open>The stash of receipts\<close>

type_synonym StagedReceiptMap = "(nat, RefKey \<times> AppliedReceipt) hashmap"

definition stash :: "StagedReceiptMap \<Rightarrow> nat \<Rightarrow> RefKey \<Rightarrow> AppliedReceipt \<Rightarrow> StagedReceiptMap" where
  "stash m queue_id ref_key receipt = hm_insert m queue_id (ref_key, receipt)"

definition stash_if_absent :: "StagedReceiptMap \<Rightarrow> nat \<Rightarrow> RefKey \<Rightarrow> AppliedReceipt \<Rightarrow> StagedReceiptMap \<times> bool" where
  "stash_if_absent m queue_id ref_key receipt =
     (case hm_get m queue_id of
        None \<Rightarrow> (hm_insert m queue_id (ref_key, receipt), True)
      | Some _ \<Rightarrow> (m, False))"

definition stash_take :: "StagedReceiptMap \<Rightarrow> nat \<Rightarrow> StagedReceiptMap \<times> AppliedReceipt option" where
  "stash_take m queue_id = (hm_remove m queue_id, map_option snd (hm_get m queue_id))"

definition stash_ids_for :: "StagedReceiptMap \<Rightarrow> RefKey \<Rightarrow> nat list" where
  "stash_ids_for m ref_key = map fst (filter (\<lambda>(_, k, _). k = ref_key) m)"

fun stash_take_all :: "StagedReceiptMap \<Rightarrow> nat list \<Rightarrow> StagedReceiptMap \<times> AppliedReceipt list" where
  "stash_take_all m [] = (m, [])"
| "stash_take_all m (q # qs) =
     (let (m', r) = stash_take m q; (m'', rs) = stash_take_all m' qs
      in (m'', (case r of Some x \<Rightarrow> x # rs | None \<Rightarrow> rs)))"

definition take_for_ref_key :: "StagedReceiptMap \<Rightarrow> RefKey \<Rightarrow> StagedReceiptMap \<times> AppliedReceipt list" where
  "take_for_ref_key m ref_key = stash_take_all m (stash_ids_for m ref_key)"

definition peek_queue_id_for :: "StagedReceiptMap \<Rightarrow> RefKey \<Rightarrow> nat option" where
  "peek_queue_id_for m ref_key =
     (case stash_ids_for m ref_key of [] \<Rightarrow> None | q # qs \<Rightarrow> Some (fold min qs q))"

definition take_pending :: "StagedReceiptMap \<Rightarrow> RefKey \<Rightarrow> StagedReceiptMap \<times> (nat \<times> AppliedReceipt) option" where
  "take_pending m ref_key =
     (case peek_queue_id_for m ref_key of
        None \<Rightarrow> (m, None)
      | Some queue_id \<Rightarrow>
          (hm_remove m queue_id, map_option (\<lambda>(_, v). (queue_id, v)) (hm_get m queue_id)))"

definition peek_transact_metadata :: "StagedReceiptMap \<Rightarrow> nat \<Rightarrow> TransactStashMetadata option" where
  "peek_transact_metadata m queue_id =
     (case hm_get m queue_id of
        Some (_, Receipt_Transact r) \<Rightarrow> Some \<lparr>tm_flake_count = ta_flake_count r, tm_tally = ta_tally r\<rparr>
      | _ \<Rightarrow> None)"

definition stash_clear_all :: "StagedReceiptMap \<Rightarrow> StagedReceiptMap" where
  "stash_clear_all m = hm_empty"

text \<open>\<open>StashGuard\<close>: the guard is the id it removes when it is dropped.\<close>

definition guard_stash :: "StagedReceiptMap \<Rightarrow> nat \<Rightarrow> RefKey \<Rightarrow> AppliedReceipt \<Rightarrow> StagedReceiptMap \<times> nat" where
  "guard_stash m queue_id ref_key receipt = (stash m queue_id ref_key receipt, queue_id)"

definition guard_try_stash :: "StagedReceiptMap \<Rightarrow> nat \<Rightarrow> RefKey \<Rightarrow> AppliedReceipt \<Rightarrow> StagedReceiptMap \<times> nat option" where
  "guard_try_stash m queue_id ref_key receipt =
     (let (m, stashed) = stash_if_absent m queue_id ref_key receipt in (m, if stashed then Some queue_id else None))"

definition guard_drop :: "StagedReceiptMap \<Rightarrow> nat \<Rightarrow> StagedReceiptMap" where
  "guard_drop m queue_id = fst (stash_take m queue_id)"

section \<open>The waiter map\<close>

datatype WaiterOutcome = Outcome_Applied AppliedReceipt | Outcome_Aborted AbortReason

datatype WaiterSlot = Parked RefKey nat | Resolved WaiterOutcome

record WaiterMap =
  wm_slots :: "(nat, WaiterSlot) hashmap"
  wm_next_channel :: nat
  wm_sent :: "(nat \<times> WaiterOutcome) list"

definition WaiterMap_new :: WaiterMap where
  "WaiterMap_new = \<lparr>wm_slots = hm_empty, wm_next_channel = 0, wm_sent = []\<rparr>"

definition send :: "WaiterMap \<Rightarrow> nat \<Rightarrow> WaiterOutcome \<Rightarrow> WaiterMap" where
  "send w sender outcome = w\<lparr>wm_sent := wm_sent w @ [(sender, outcome)]\<rparr>"

definition register :: "WaiterMap \<Rightarrow> nat \<Rightarrow> RefKey \<Rightarrow> WaiterMap \<times> nat" where
  "register w queue_id ref_key =
     (let channel = wm_next_channel w; w = w\<lparr>wm_next_channel := wm_next_channel w + 1\<rparr>
      in case hm_get (wm_slots w) queue_id of
        None \<Rightarrow> (w\<lparr>wm_slots := hm_insert (wm_slots w) queue_id (Parked ref_key channel)\<rparr>, channel)
      | Some (Resolved outcome) \<Rightarrow>
          (send (w\<lparr>wm_slots := hm_remove (wm_slots w) queue_id\<rparr>) channel outcome, channel)
      | Some (Parked _ _) \<Rightarrow>
          (w\<lparr>wm_slots := hm_insert (wm_slots w) queue_id (Parked ref_key channel)\<rparr>, channel))"

definition resolve_with :: "WaiterMap \<Rightarrow> nat \<Rightarrow> WaiterOutcome \<Rightarrow> WaiterMap" where
  "resolve_with w queue_id outcome =
     (case hm_get (wm_slots w) queue_id of
        None \<Rightarrow> w\<lparr>wm_slots := hm_insert (wm_slots w) queue_id (Resolved outcome)\<rparr>
      | Some (Parked _ sender) \<Rightarrow> send (w\<lparr>wm_slots := hm_remove (wm_slots w) queue_id\<rparr>) sender outcome
      | Some (Resolved _) \<Rightarrow> w\<lparr>wm_slots := hm_insert (wm_slots w) queue_id (Resolved outcome)\<rparr>)"

definition resolve_applied :: "WaiterMap \<Rightarrow> nat \<Rightarrow> AppliedReceipt \<Rightarrow> WaiterMap" where
  "resolve_applied w queue_id receipt = resolve_with w queue_id (Outcome_Applied receipt)"

definition resolve_aborted :: "WaiterMap \<Rightarrow> nat \<Rightarrow> AbortReason \<Rightarrow> WaiterMap" where
  "resolve_aborted w queue_id reason = resolve_with w queue_id (Outcome_Aborted reason)"

definition parked_on :: "(nat, WaiterSlot) hashmap \<Rightarrow> RefKey \<Rightarrow> nat list" where
  "parked_on slots ref_key =
     map fst (filter (\<lambda>(_, slot). case slot of Parked rk _ \<Rightarrow> rk = ref_key | Resolved _ \<Rightarrow> False) slots)"

definition abort_all_for_branch :: "WaiterMap \<Rightarrow> RefKey \<Rightarrow> AbortReason \<Rightarrow> WaiterMap" where
  "abort_all_for_branch w ref_key reason =
     fold (\<lambda>queue_id w. resolve_aborted w queue_id reason) (parked_on (wm_slots w) ref_key) w"

definition drain_one :: "AbortReason \<Rightarrow> nat \<Rightarrow> WaiterMap \<Rightarrow> WaiterMap" where
  "drain_one reason queue_id w =
     (let w' = w\<lparr>wm_slots := hm_remove (wm_slots w) queue_id\<rparr>
      in case hm_get (wm_slots w) queue_id of
        Some (Parked _ sender) \<Rightarrow> send w' sender (Outcome_Aborted reason)
      | _ \<Rightarrow> w')"

definition drain_all_with :: "WaiterMap \<Rightarrow> AbortReason \<Rightarrow> WaiterMap" where
  "drain_all_with w reason = fold (drain_one reason) (hm_keys (wm_slots w)) w"

section \<open>Dispatch of resolutions\<close>

text \<open>The loop over the collected resolutions at the end of \<open>RaftStateMachine::apply\<close>.\<close>

fun dispatch_resolution :: "WaiterMap \<times> StagedReceiptMap \<Rightarrow> WaiterResolution \<Rightarrow> WaiterMap \<times> StagedReceiptMap" where
  "dispatch_resolution (w, m) (Resolution_Applied queue_id commit_id commit_t) =
     (let (m', stashed) = stash_take m queue_id;
          receipt = (case stashed of Some r \<Rightarrow> r | None \<Rightarrow> Receipt_Minimal commit_id commit_t)
      in (resolve_applied w queue_id receipt, m'))"
| "dispatch_resolution (w, m) (Resolution_Aborted queue_id reason) =
     (resolve_aborted w queue_id reason, fst (stash_take m queue_id))"
| "dispatch_resolution (w, m) (Resolution_AbortBranch ref_key reason) =
     (abort_all_for_branch w ref_key reason, fst (take_for_ref_key m ref_key))"

definition dispatch_all :: "WaiterMap \<times> StagedReceiptMap \<Rightarrow> WaiterResolution list \<Rightarrow> WaiterMap \<times> StagedReceiptMap" where
  "dispatch_all wm resolutions = foldl dispatch_resolution wm resolutions"

section \<open>Sequences of operations\<close>

datatype WaiterAction =
    Act_Register nat RefKey
  | Act_Resolve nat WaiterOutcome
  | Act_AbortBranch RefKey AbortReason
  | Act_Drain AbortReason

fun waiter_step :: "WaiterMap \<Rightarrow> WaiterAction \<Rightarrow> WaiterMap" where
  "waiter_step w (Act_Register q k) = fst (register w q k)"
| "waiter_step w (Act_Resolve q outcome) = resolve_with w q outcome"
| "waiter_step w (Act_AbortBranch k reason) = abort_all_for_branch w k reason"
| "waiter_step w (Act_Drain reason) = drain_all_with w reason"

text \<open>Well-formed: every channel is parked at most once and never after an outcome was sent on it.\<close>

definition waiter_wf :: "WaiterMap \<Rightarrow> bool" where
  "waiter_wf w \<longleftrightarrow> hm_wf (wm_slots w) \<and>
     (\<forall>q k ch. hm_get (wm_slots w) q = Some (Parked k ch) \<longrightarrow> ch < wm_next_channel w \<and> ch \<notin> fst ` set (wm_sent w)) \<and>
     (\<forall>q q' k k' ch. hm_get (wm_slots w) q = Some (Parked k ch) \<longrightarrow> hm_get (wm_slots w) q' = Some (Parked k' ch) \<longrightarrow> q = q') \<and>
     (\<forall>ch \<in> fst ` set (wm_sent w). ch < wm_next_channel w) \<and> distinct (map fst (wm_sent w))"

lemma send_simps [simp]:
  "wm_slots (send w ch oc) = wm_slots w" "wm_next_channel (send w ch oc) = wm_next_channel w"
  "wm_sent (send w ch oc) = wm_sent w @ [(ch, oc)]"
  by (simp_all add: send_def)

lemma map_of_None: "map_of xs x = None \<longleftrightarrow> x \<notin> fst ` set xs"
  by (rule map_of_eq_None_iff)

lemma waiter_wf_new: "waiter_wf WaiterMap_new"
  by (simp add: waiter_wf_def WaiterMap_new_def)

lemma waiter_wfD:
  assumes "waiter_wf w"
  shows "hm_wf (wm_slots w)"
    and "hm_get (wm_slots w) q = Some (Parked k ch) \<Longrightarrow> ch < wm_next_channel w"
    and "hm_get (wm_slots w) q = Some (Parked k ch) \<Longrightarrow> map_of (wm_sent w) ch = None"
    and "hm_get (wm_slots w) q = Some (Parked k ch) \<Longrightarrow> hm_get (wm_slots w) q' = Some (Parked k' ch) \<Longrightarrow> q = q'"
    and "map_of (wm_sent w) (wm_next_channel w) = None"
  using assms by (auto simp: waiter_wf_def map_of_None)

lemma register_wf: "waiter_wf w \<Longrightarrow> waiter_wf (fst (register w q k))"
  unfolding waiter_wf_def register_def Let_def
  by (auto simp: less_Suc_eq split: option.splits WaiterSlot.splits if_splits)

lemma resolve_wf: "waiter_wf w \<Longrightarrow> waiter_wf (resolve_with w q oc)"
  unfolding waiter_wf_def resolve_with_def
  by (auto split: option.splits WaiterSlot.splits if_splits)

lemma drain_one_wf: "waiter_wf w \<Longrightarrow> waiter_wf (drain_one reason q w)"
  unfolding waiter_wf_def drain_one_def Let_def
  by (auto split: option.splits WaiterSlot.splits if_splits)

lemma fold_wf: "(\<And>q w. waiter_wf w \<Longrightarrow> waiter_wf (f q w)) \<Longrightarrow> waiter_wf w \<Longrightarrow> waiter_wf (fold f qs w)"
  by (induction qs arbitrary: w) auto

lemma waiter_step_wf: "waiter_wf w \<Longrightarrow> waiter_wf (waiter_step w a)"
  by (cases a)
    (auto simp: register_wf resolve_wf abort_all_for_branch_def drain_all_with_def resolve_aborted_def
      intro!: fold_wf drain_one_wf resolve_wf)

text \<open>Operations on other queue ids leave a slot, and the channel parked in it, alone.\<close>

lemma resolve_other [simp]: "q' \<noteq> q \<Longrightarrow> hm_get (wm_slots (resolve_with w q oc)) q' = hm_get (wm_slots w) q'"
  by (simp add: resolve_with_def split: option.split WaiterSlot.split)

lemma resolve_parked:
  assumes "hm_get (wm_slots w) q = Some (Parked k ch)" "waiter_wf w"
  shows "hm_get (wm_slots (resolve_with w q oc)) q = None" "map_of (wm_sent (resolve_with w q oc)) ch = Some oc"
  using assms waiter_wfD(3) [OF assms(2,1)] by (simp_all add: resolve_with_def map_add_def)

lemma fold_resolve_other:
  "q \<notin> set qs \<Longrightarrow> hm_get (wm_slots (fold (\<lambda>q w. resolve_with w q oc) qs w)) q = hm_get (wm_slots w) q"
  by (induction qs arbitrary: w) auto

lemma resolve_sent: "map_of (wm_sent w) ch = Some o1 \<Longrightarrow> map_of (wm_sent (resolve_with w q oc)) ch = Some o1"
  by (simp add: resolve_with_def map_add_def split: option.split WaiterSlot.split)

lemma fold_resolve_sent:
  "map_of (wm_sent w) ch = Some o1 \<Longrightarrow> map_of (wm_sent (fold (\<lambda>q w. resolve_with w q oc) qs w)) ch = Some o1"
  by (induction qs arbitrary: w) (auto simp: resolve_sent)

lemma fold_resolve_parked:
  assumes "q \<in> set qs" "distinct qs" "hm_get (wm_slots w) q = Some (Parked k ch)" "waiter_wf w"
  shows "hm_get (wm_slots (fold (\<lambda>q w. resolve_with w q oc) qs w)) q = None \<and>
    map_of (wm_sent (fold (\<lambda>q w. resolve_with w q oc) qs w)) ch = Some oc"
  using assms
proof (induction qs arbitrary: w)
  case (Cons x qs)
  show ?case
  proof (cases "x = q")
    case True
    then have "q \<notin> set qs" using Cons.prems by simp
    then show ?thesis
      using True resolve_parked [OF Cons.prems(3,4), of oc] by (simp add: fold_resolve_other fold_resolve_sent)
  next
    case False
    then show ?thesis using Cons by (simp add: resolve_wf)
  qed
qed simp

lemma parked_on_iff:
  "hm_wf slots \<Longrightarrow> q \<in> set (parked_on slots k) \<longleftrightarrow> (\<exists>ch. hm_get slots q = Some (Parked k ch))"
proof -
  assume wf: "hm_wf slots"
  have "q \<in> set (parked_on slots k) \<longleftrightarrow> (\<exists>slot. (q, slot) \<in> set slots \<and> (\<exists>ch. slot = Parked k ch))"
    unfolding parked_on_def by (auto split: WaiterSlot.splits intro: rev_image_eqI)
  then show ?thesis by (auto simp: hm_get_in_set [OF wf])
qed

lemma parked_on_distinct: "hm_wf slots \<Longrightarrow> distinct (parked_on slots k)"
  by (simp add: parked_on_def hm_wf_def distinct_map_filter)

lemma abort_all_fold: "abort_all_for_branch w k reason =
    fold (\<lambda>q w. resolve_with w q (Outcome_Aborted reason)) (parked_on (wm_slots w) k) w"
  by (simp add: abort_all_for_branch_def resolve_aborted_def)

lemma abort_all_spec:
  assumes "waiter_wf w"
  shows "hm_get (wm_slots w) q = Some (Parked k ch) \<Longrightarrow>
      hm_get (wm_slots (abort_all_for_branch w k reason)) q = None \<and>
      map_of (wm_sent (abort_all_for_branch w k reason)) ch = Some (Outcome_Aborted reason)"
    and "(\<nexists>ch. hm_get (wm_slots w) q = Some (Parked k ch)) \<Longrightarrow>
      hm_get (wm_slots (abort_all_for_branch w k reason)) q = hm_get (wm_slots w) q"
proof -
  note wf = waiter_wfD(1) [OF assms]
  show "hm_get (wm_slots w) q = Some (Parked k ch) \<Longrightarrow>
      hm_get (wm_slots (abort_all_for_branch w k reason)) q = None \<and>
      map_of (wm_sent (abort_all_for_branch w k reason)) ch = Some (Outcome_Aborted reason)"
    unfolding abort_all_fold
    by (rule fold_resolve_parked [OF _ parked_on_distinct [OF wf] _ assms]) (auto simp: parked_on_iff [OF wf])
  show "(\<nexists>ch. hm_get (wm_slots w) q = Some (Parked k ch)) \<Longrightarrow>
      hm_get (wm_slots (abort_all_for_branch w k reason)) q = hm_get (wm_slots w) q"
    unfolding abort_all_fold by (rule fold_resolve_other) (simp add: parked_on_iff [OF wf])
qed

fun touches :: "nat \<Rightarrow> RefKey \<Rightarrow> WaiterAction \<Rightarrow> bool" where
  "touches q k (Act_Register q' k') = (q' = q)"
| "touches q k (Act_Resolve q' oc) = (q' = q)"
| "touches q k (Act_AbortBranch k' reason) = (k' = k)"
| "touches q k (Act_Drain reason) = True"

lemma register_other [simp]: "q' \<noteq> q \<Longrightarrow> hm_get (wm_slots (fst (register w q k))) q' = hm_get (wm_slots w) q'"
  by (simp add: register_def Let_def split: option.split WaiterSlot.split)

lemma parked_untouched:
  assumes "waiter_wf w" "hm_get (wm_slots w) q = Some (Parked k ch)" "\<not> touches q k a"
  shows "hm_get (wm_slots (waiter_step w a)) q = Some (Parked k ch)"
  using assms by (cases a) (auto simp: abort_all_spec(2) [OF assms(1)])

lemma buffered_untouched:
  assumes "waiter_wf w" "hm_get (wm_slots w) q = Some (Resolved oc)"
    and "\<not> touches q k a \<or> (\<exists>reason. a = Act_AbortBranch k reason)"
  shows "hm_get (wm_slots (waiter_step w a)) q = Some (Resolved oc)"
  using assms by (cases a) (auto simp: abort_all_spec(2) [OF assms(1)])

lemma waiter_steps_wf: "waiter_wf w \<Longrightarrow> waiter_wf (foldl waiter_step w acts)"
  by (induction acts arbitrary: w) (auto simp: waiter_step_wf)

lemma parked_through:
  assumes "waiter_wf w" "hm_get (wm_slots w) q = Some (Parked k ch)" "\<And>a. a \<in> set acts \<Longrightarrow> \<not> touches q k a"
  shows "hm_get (wm_slots (foldl waiter_step w acts)) q = Some (Parked k ch)"
  using assms by (induction acts arbitrary: w) (auto simp: waiter_step_wf parked_untouched)

lemma buffered_through:
  assumes "waiter_wf w" "hm_get (wm_slots w) q = Some (Resolved oc)"
    "\<And>a. a \<in> set acts \<Longrightarrow> \<not> touches q k a \<or> (\<exists>reason. a = Act_AbortBranch k reason)"
  shows "hm_get (wm_slots (foldl waiter_step w acts)) q = Some (Resolved oc)"
  using assms
proof (induction acts arbitrary: w)
  case (Cons a acts)
  have "hm_get (wm_slots (waiter_step w a)) q = Some (Resolved oc)"
    using buffered_untouched [OF Cons.prems(1,2)] Cons.prems(3) [of a] by simp
  then show ?case using Cons by (simp add: waiter_step_wf)
qed simp

text \<open>
  While a guard is held no other guard for its id can be taken by \<open>try_stash\<close>, and dropping it
  leaves the map as if it had never been.
\<close>

lemma guard_try_stash_cases:
  assumes "hm_wf m"
  shows "case guard_try_stash m q k r of
    (m', Some g) \<Rightarrow> g = q \<and> hm_get m q = None \<and> hm_get m' q = Some (k, r) \<and> guard_try_stash m' q k' r' = (m', None) \<and>
      hm_eq (guard_drop m' g) m
  | (m', None) \<Rightarrow> m' = m \<and> hm_get m q \<noteq> None"
  using assms by (auto simp: guard_try_stash_def stash_if_absent_def guard_drop_def stash_take_def hm_eq_def split: option.splits)

section \<open>Properties\<close>

text \<open>
  C23. Waiting and resolving commute. Whether the client parks first or the outcome arrives first,
  and whatever operations on other queue ids run in between, the client's channel receives the
  outcome and the slot is freed. (No duplicate registration, snapshot install, or abort of the
  branch while the client is parked.)
\<close>

theorem waiter_order_agnostic:
  assumes "waiter_wf w" "hm_get (wm_slots w) q = None"
  shows "(\<forall>acts. (\<forall>a \<in> set acts. \<not> touches q k a) \<longrightarrow>
      (let (w1, ch) = register w q k; w2 = resolve_with (foldl waiter_step w1 acts) q outcome
       in map_of (wm_sent w2) ch = Some outcome \<and> hm_get (wm_slots w2) q = None)) \<and>
    (\<forall>acts. (\<forall>a \<in> set acts. \<not> touches q k a \<or> (\<exists>reason. a = Act_AbortBranch k reason)) \<longrightarrow>
      (let (w2, ch) = register (foldl waiter_step (resolve_with w q outcome) acts) q k
       in map_of (wm_sent w2) ch = Some outcome \<and> hm_get (wm_slots w2) q = None))"
proof (intro conjI allI impI)
  fix acts assume acts: "\<forall>a \<in> set acts. \<not> touches q k a"
  obtain w1 ch where reg: "register w q k = (w1, ch)" by (cases "register w q k")
  have slot: "hm_get (wm_slots w1) q = Some (Parked k ch)" using reg assms(2) by (auto simp: register_def Let_def)
  have wf: "waiter_wf w1" using register_wf [OF assms(1), of q k] reg by simp
  have "hm_get (wm_slots (foldl waiter_step w1 acts)) q = Some (Parked k ch)"
    using parked_through [OF wf slot] acts by blast
  from resolve_parked [OF this waiter_steps_wf [OF wf]] reg
  show "let (w1, ch) = register w q k; w2 = resolve_with (foldl waiter_step w1 acts) q outcome
       in map_of (wm_sent w2) ch = Some outcome \<and> hm_get (wm_slots w2) q = None" by (simp add: Let_def)
next
  fix acts assume acts: "\<forall>a \<in> set acts. \<not> touches q k a \<or> (\<exists>reason. a = Act_AbortBranch k reason)"
  let ?w1 = "resolve_with w q outcome"
  have slot: "hm_get (wm_slots ?w1) q = Some (Resolved outcome)" using assms(2) by (simp add: resolve_with_def)
  have wf: "waiter_wf ?w1" using resolve_wf [OF assms(1)] .
  have "hm_get (wm_slots (foldl waiter_step ?w1 acts)) q = Some (Resolved outcome)"
    using buffered_through [OF wf slot] acts by blast
  with waiter_wfD(5) [OF waiter_steps_wf [OF wf]]
  show "let (w2, ch) = register (foldl waiter_step ?w1 acts) q k
       in map_of (wm_sent w2) ch = Some outcome \<and> hm_get (wm_slots w2) q = None"
    by (simp add: register_def Let_def map_add_def)
qed

definition sample_branch :: RefKey where
  "sample_branch = RefKey_new ''orders'' ''main''"

theorem waiter_order_agnostic_witness:
  "let (w2, ch) = register (foldl waiter_step (resolve_with WaiterMap_new 7 (Outcome_Aborted Abort_SnapshotInstalled))
       [Act_Register 8 sample_branch, Act_AbortBranch sample_branch Abort_BranchDropped]) 7 sample_branch
   in map_of (wm_sent w2) ch = Some (Outcome_Aborted Abort_SnapshotInstalled) \<and> hm_get (wm_slots w2) 7 = None"
proof -
  have "hm_get (wm_slots WaiterMap_new) 7 = None" by (simp add: WaiterMap_new_def)
  note both = waiter_order_agnostic [OF waiter_wf_new this, of sample_branch "Outcome_Aborted Abort_SnapshotInstalled"]
  show ?thesis by (rule both [THEN conjunct2, THEN spec, THEN mp]) simp
qed

lemma stash_take_all_get:
  "hm_get (fst (stash_take_all m qs)) q = (if q \<in> set qs then None else hm_get m q)"
  by (induction m qs rule: stash_take_all.induct) (auto simp: stash_take_def case_prod_beta Let_def)

lemma stash_ids_iff: "hm_wf m \<Longrightarrow> q \<in> set (stash_ids_for m k) \<longleftrightarrow> (\<exists>r. hm_get m q = Some (k, r))"
  unfolding stash_ids_for_def by (force simp: hm_get_in_set)

text \<open>
  Clearing a branch wakes everyone parked on it. Dispatching an \<open>AbortBranch\<close> resolution sends
  the reason to every client parked on the branch and frees its slot, leaves every other slot as
  it was, and drops exactly the stashed receipts of the branch.
\<close>

theorem branch_abort_wakes_all:
  assumes "waiter_wf w" "hm_wf m"
  shows "let (w', m') = dispatch_resolution (w, m) (Resolution_AbortBranch k reason)
    in (\<forall>q ch. hm_get (wm_slots w) q = Some (Parked k ch) \<longrightarrow>
          map_of (wm_sent w') ch = Some (Outcome_Aborted reason) \<and> hm_get (wm_slots w') q = None) \<and>
       (\<forall>q. (\<nexists>ch. hm_get (wm_slots w) q = Some (Parked k ch)) \<longrightarrow> hm_get (wm_slots w') q = hm_get (wm_slots w) q) \<and>
       (\<forall>q. hm_get m' q = (case hm_get m q of Some (k', r) \<Rightarrow> if k' = k then None else Some (k', r) | None \<Rightarrow> None))"
  using abort_all_spec [OF assms(1)]
  by (auto simp: Let_def take_for_ref_key_def stash_take_all_get stash_ids_iff [OF assms(2)] split: option.split)

theorem branch_abort_wakes_all_witness:
  "map_of (wm_sent (fst (dispatch_resolution (fst (register WaiterMap_new 7 sample_branch), [])
     (Resolution_AbortBranch sample_branch Abort_BranchDropped)))) 0 = Some (Outcome_Aborted Abort_BranchDropped)"
proof -
  have slot: "hm_get (wm_slots (fst (register WaiterMap_new 7 sample_branch))) 7 = Some (Parked sample_branch 0)"
    by (simp add: register_def WaiterMap_new_def)
  have "hm_wf ([] :: StagedReceiptMap)" by (simp add: hm_wf_def)
  from branch_abort_wakes_all [OF register_wf [OF waiter_wf_new] this, of 7 sample_branch sample_branch Abort_BranchDropped] slot
  show ?thesis by (auto simp: Let_def case_prod_beta)
qed

text \<open>
  A branch abort is not buffered. When the branch is cleared before the client has parked, the
  abort leaves nothing behind for it: the client parks and no outcome is on its channel.
\<close>

theorem branch_abort_not_buffered:
  assumes "waiter_wf w" "hm_get (wm_slots w) q = None"
  shows "let (w2, ch) = register (abort_all_for_branch w k reason) q k
    in hm_get (wm_slots w2) q = Some (Parked k ch) \<and> map_of (wm_sent w2) ch = None"
proof -
  have "hm_get (wm_slots (abort_all_for_branch w k reason)) q = None"
    using abort_all_spec(2) [OF assms(1), of q k] assms(2) by simp
  moreover have "waiter_wf (abort_all_for_branch w k reason)"
    using waiter_step_wf [OF assms(1), of "Act_AbortBranch k reason"] by simp
  ultimately show ?thesis using waiter_wfD(5) by (simp add: register_def Let_def)
qed

theorem branch_abort_not_buffered_witness:
  "let (w2, ch) = register (abort_all_for_branch WaiterMap_new sample_branch Abort_BranchDropped) 7 sample_branch
   in hm_get (wm_slots w2) 7 = Some (Parked sample_branch ch) \<and> map_of (wm_sent w2) ch = None"
  by (rule branch_abort_not_buffered [OF waiter_wf_new]) (simp add: WaiterMap_new_def)

text \<open>
  An applied entry wakes its client. When \<open>apply\<close> answers \<open>ApplyHead\<close> with \<open>HeadApplied\<close>, the
  dispatch of the entry's resolution sends the client parked on the queue id the receipt the
  worker stashed, or a minimal receipt with the commit that was applied.
\<close>

theorem applied_entry_wakes_client:
  assumes "waiter_wf w" "hm_get (wm_slots w) (sh_queue_id h) = Some (Parked k ch)"
    and "snd (apply_command s (ApplyHead h) i) = HeadApplied l c t env"
  shows "\<exists>resolution. ef_resolution (snd (apply_entry s (i, Normal (ApplyHead h)))) = Some resolution \<and>
    (let (w', m') = dispatch_resolution (w, m) resolution
     in map_of (wm_sent w') ch = Some (Outcome_Applied
          (case hm_get m (sh_queue_id h) of Some (_, r) \<Rightarrow> r | None \<Rightarrow> Receipt_Minimal c t)) \<and>
        hm_get (wm_slots w') (sh_queue_id h) = None \<and> hm_get m' (sh_queue_id h) = None)"
proof -
  have "ef_resolution (snd (apply_entry s (i, Normal (ApplyHead h)))) = Some (Resolution_Applied (sh_queue_id h) c t)"
    using assms(3) by (simp add: apply_entry_def case_prod_beta Let_def waiter_resolution_for_def)
  then show ?thesis
    using resolve_parked [OF assms(2,1)]
    by (auto simp: resolve_applied_def stash_take_def Let_def split: option.split)
qed

theorem applied_entry_wakes_client_witness:
  "\<exists>resolution. ef_resolution (snd (apply_entry sample_state (7, Normal (ApplyHead (sample_head 1 40 2))))) = Some resolution \<and>
    (let (w', m') = dispatch_resolution (fst (register WaiterMap_new 1 sample_branch), []) resolution
     in map_of (wm_sent w') 0 = Some (Outcome_Applied (Receipt_Minimal (ContentId [40]) 2)))"
proof -
  have slot: "hm_get (wm_slots (fst (register WaiterMap_new 1 sample_branch))) (sh_queue_id (sample_head 1 40 2)) = Some (Parked sample_branch 0)"
    by (simp add: register_def WaiterMap_new_def Let_def sample_head_def)
  have resp: "snd (apply_command sample_state (ApplyHead (sample_head 1 40 2)) 7) =
      HeadApplied ''orders:main'' (ContentId [40]) 2 (Some (ContentId [20]))"
    unfolding sample_state_eq
    by (simp add: apply_head_def pop_validated_front_def queue_of_def record_outcome_def drop_queue_if_empty_def
        advance_ref_entry_def self_heal_branch_def sample_ref_def sample_defs hm_defs format_ledger_id_def)
  from applied_entry_wakes_client [OF register_wf [OF waiter_wf_new] slot resp, of "[]"]
  show ?thesis by (auto simp: Let_def case_prod_beta hm_get_def)
qed

end
