(* ===== verification/RaftRestart.thy ===== *)
theory RaftRestart
  imports RaftSnapshot RaftWaiter
begin

text \<open>
  Snapshots of the state machine: building, restoring, serving and installing them in
  \<open>raft/state_machine_adapter.rs\<close>, over any snapshot store that keeps the contract. A node that
  restarts from a snapshot and replays the log tail ends where it would have been.

  \<open>postcard\<close> on the state and on the membership are parameters. Decoding a state lays its hash
  maps out anew, so a round trip gives a state of the same content, not the same value.
\<close>

section \<open>The node\<close>

record StateCodec =
  sc_state :: "NameServiceState codec"
  sc_membership :: "NodeId set codec"

record Node =
  nd_adapter :: StateMachineAdapter
  nd_last_term :: nat
  nd_snapshot_counter :: nat
  nd_waiters :: "WaiterMap option"
  nd_staged :: "StagedReceiptMap option"

definition Node_new :: Node where
  "Node_new = \<lparr>nd_adapter = StateMachineAdapter_new, nd_last_term = 0, nd_snapshot_counter = 0, nd_waiters = None, nd_staged = None\<rparr>"

text \<open>The field \<open>last_applied\<close> is the index of the adapter with the term of that entry.\<close>

definition nd_last_applied :: "Node \<Rightarrow> OrLogId option" where
  "nd_last_applied n = map_option (\<lambda>i. \<lparr>ol_term = nd_last_term n, ol_index = i\<rparr>) (ad_last_applied (nd_adapter n))"

definition set_last_applied :: "OrLogId option \<Rightarrow> Node \<Rightarrow> Node" where
  "set_last_applied l n =
     n\<lparr>nd_adapter := (nd_adapter n)\<lparr>ad_last_applied := map_option ol_index l\<rparr>,
       nd_last_term := (case l of None \<Rightarrow> 0 | Some i \<Rightarrow> ol_term i)\<rparr>"

definition node_apply :: "Node \<Rightarrow> (nat \<times> LogEntry) list \<Rightarrow> Node \<times> EntryEffects list" where
  "node_apply n entries =
     (let (a, effects) = adapter_apply (nd_adapter n) (map snd entries)
      in (n\<lparr>nd_adapter := a, nd_last_term := (if entries = [] then nd_last_term n else fst (last entries))\<rparr>, effects))"

definition state_error :: string where
  "state_error = ''state machine codec''"

definition restore_from_snapshot ::
  "StateCodec \<Rightarrow> 's RaftSnapshotStore \<Rightarrow> Node \<Rightarrow> 's \<Rightarrow> Node io_result \<times> 's" where
  "restore_from_snapshot sc store node s =
     bind_io (rss_current store s) (\<lambda>current s.
       case current of
         None \<Rightarrow> (Ok node, s)
       | Some (our_meta, b) \<Rightarrow>
           (case cd_dec (sc_state sc) b of
              None \<Rightarrow> (Err (Serialization state_error), s)
            | Some restored_state \<Rightarrow>
                (case cd_dec (sc_membership sc) (sn_membership our_meta) of
                   None \<Rightarrow> (Err (Serialization state_error), s)
                 | Some last_membership \<Rightarrow>
                     (let node = node\<lparr>nd_adapter := (nd_adapter node)\<lparr>ad_state := restored_state\<rparr>\<rparr>;
                          node = set_last_applied (map_option to_openraft_log_id (sn_last_applied our_meta)) node
                      in (Ok (node\<lparr>nd_adapter := (nd_adapter node)\<lparr>ad_last_membership := last_membership\<rparr>\<rparr>), s)))))"

definition open_node :: "StateCodec \<Rightarrow> 's RaftSnapshotStore \<Rightarrow> 's \<Rightarrow> Node io_result \<times> 's" where
  "open_node sc store s = restore_from_snapshot sc store Node_new s"

section \<open>Building\<close>

record SnapshotBuilder =
  sb_state :: NameServiceState
  sb_last_applied :: "OrLogId option"
  sb_last_membership :: "NodeId set"
  sb_counter :: nat

record OrSnapshotMeta =
  om_last_log_id :: "OrLogId option"
  om_last_membership :: "NodeId set"
  om_snapshot_id :: string

definition get_snapshot_builder :: "Node \<Rightarrow> SnapshotBuilder \<times> Node" where
  "get_snapshot_builder node =
     (let counter = (nd_snapshot_counter node + 1) mod 2 ^ 64
      in (\<lparr>sb_state = ad_state (nd_adapter node), sb_last_applied = nd_last_applied node,
           sb_last_membership = ad_last_membership (nd_adapter node), sb_counter = counter\<rparr>,
          node\<lparr>nd_snapshot_counter := counter\<rparr>))"

text \<open>\<open>format!("snap-{}-{}")\<close> on two \<open>u64\<close>.\<close>

fun decimal :: "nat \<Rightarrow> string" where
  "decimal n = (if n < 10 then [hex_digit n] else decimal (n div 10) @ [hex_digit (n mod 10)])"

declare decimal.simps [simp del]

definition snapshot_name :: "nat \<Rightarrow> nat \<Rightarrow> string" where
  "snapshot_name last_index counter = ''snap-'' @ decimal last_index @ ''-'' @ decimal counter"

definition builder_meta :: "SnapshotBuilder \<Rightarrow> bytes \<Rightarrow> SnapshotMeta" where
  "builder_meta b membership_bytes =
     \<lparr>sn_id = snapshot_name (case sb_last_applied b of None \<Rightarrow> 0 | Some l \<Rightarrow> ol_index l) (sb_counter b),
      sn_last_applied = map_option from_openraft_log_id (sb_last_applied b), sn_membership = membership_bytes\<rparr>"

definition build_snapshot ::
  "StateCodec \<Rightarrow> 's RaftSnapshotStore \<Rightarrow> SnapshotBuilder \<Rightarrow> 's \<Rightarrow> (OrSnapshotMeta \<times> bytes) io_result \<times> 's" where
  "build_snapshot sc store b s =
     (case cd_enc (sc_state sc) (sb_state b) of
        None \<Rightarrow> (Err (Serialization state_error), s)
      | Some bs \<Rightarrow>
          (case cd_enc (sc_membership sc) (sb_last_membership b) of
             None \<Rightarrow> (Err (Serialization state_error), s)
           | Some membership_bytes \<Rightarrow>
               (let our_meta = builder_meta b membership_bytes
                in bind_io (rss_write store our_meta bs s) (\<lambda>_ s.
                     (Ok (\<lparr>om_last_log_id = sb_last_applied b, om_last_membership = sb_last_membership b,
                           om_snapshot_id = sn_id our_meta\<rparr>, bs), s)))))"

section \<open>Installing\<close>

text \<open>The result lists the heads that are reported to the ledger cache.\<close>

definition install_snapshot ::
  "StateCodec \<Rightarrow> 's RaftSnapshotStore \<Rightarrow> OrSnapshotMeta \<Rightarrow> bytes \<Rightarrow> Node \<Rightarrow> 's \<Rightarrow>
   ((string \<times> int) list io_result \<times> Node) \<times> 's" where
  "install_snapshot sc store meta b node s =
     (case cd_dec (sc_state sc) b of
        None \<Rightarrow> ((Err (Serialization state_error), node), s)
      | Some new_state \<Rightarrow>
          (let restored_heads = map (\<lambda>(key, entry). (RefKey_ledger_id key, re_t entry)) (st_refs new_state)
           in case cd_enc (sc_membership sc) (om_last_membership meta) of
                None \<Rightarrow> ((Err (Serialization state_error), node), s)
              | Some membership_bytes \<Rightarrow>
                  (case rss_write store \<lparr>sn_id = om_snapshot_id meta,
                       sn_last_applied = map_option from_openraft_log_id (om_last_log_id meta),
                       sn_membership = membership_bytes\<rparr> b s of
                     (Ok _, s) \<Rightarrow>
                       (let node = node\<lparr>nd_adapter := (nd_adapter node)\<lparr>ad_state := new_state\<rparr>\<rparr>;
                            node = set_last_applied (om_last_log_id meta) node;
                            node = node\<lparr>nd_adapter := (nd_adapter node)\<lparr>ad_last_membership := om_last_membership meta\<rparr>\<rparr>;
                            node = node\<lparr>nd_waiters := map_option (\<lambda>w. drain_all_with w Abort_SnapshotInstalled) (nd_waiters node)\<rparr>;
                            node = node\<lparr>nd_staged := map_option stash_clear_all (nd_staged node)\<rparr>
                        in ((Ok restored_heads, node), s))
                   | (Err e, s) \<Rightarrow> ((Err e, node), s)
                   | (Panic, s) \<Rightarrow> ((Panic, node), s))))"

definition get_current_snapshot ::
  "StateCodec \<Rightarrow> 's RaftSnapshotStore \<Rightarrow> 's \<Rightarrow> (OrSnapshotMeta \<times> bytes) option io_result \<times> 's" where
  "get_current_snapshot sc store s =
     bind_io (rss_current store s) (\<lambda>current s.
       case current of
         None \<Rightarrow> (Ok None, s)
       | Some (our_meta, data) \<Rightarrow>
           (case cd_dec (sc_membership sc) (sn_membership our_meta) of
              None \<Rightarrow> (Err (Serialization state_error), s)
            | Some last_membership \<Rightarrow>
                (Ok (Some (\<lparr>om_last_log_id = map_option to_openraft_log_id (sn_last_applied our_meta),
                  om_last_membership = last_membership, om_snapshot_id = sn_id our_meta\<rparr>, data)), s)))"

section \<open>Snapshot ids\<close>

lemma decimal_digits: "list_all (\<lambda>c. \<exists>n < 10. c = hex_digit n) (decimal n)"
proof (induction n rule: decimal.induct)
  case (1 n)
  show ?case using 1 by (cases "n < 10") (auto simp: decimal.simps [of n] intro: exI [of _ "n mod 10"])
qed

lemma decimal_length: "n < 10 ^ k \<Longrightarrow> 0 < k \<Longrightarrow> length (decimal n) \<le> k"
proof (induction k arbitrary: n)
  case (Suc k)
  show ?case
  proof (cases "n < 10")
    case False
    then have "0 < k" using Suc.prems(1) by (cases k) auto
    moreover have "n div 10 < 10 ^ k" using Suc.prems(1) by (simp add: less_mult_imp_div_less mult.commute)
    ultimately show ?thesis using Suc.IH [of "n div 10"] False by (simp add: decimal.simps [of n])
  qed (simp add: decimal.simps [of n])
qed simp

lemma decimal_digit: "n < 10 \<Longrightarrow> path_safe_char (hex_digit n) \<and> hex_digit n \<noteq> CHR ''.''"
  by (simp add: less_Suc_eq numeral_eq_Suc hex_digit_def) (elim disjE; simp add: path_safe_char_def)

lemma contains_dots: "CHR ''.'' \<notin> set s \<Longrightarrow> \<not> contains_str ''..'' s"
  by (induction s) auto

text \<open>The ids a node makes are among those the filesystem store accepts.\<close>

lemma snapshot_name_safe:
  assumes "i < 2 ^ 64" "k < 2 ^ 64"
  shows "validate_path_safe_id (snapshot_name i k) = Ok (snapshot_name i k)"
proof -
  have "i < 10 ^ 20" "k < 10 ^ 20" using assms by simp_all
  then have "length (decimal i) \<le> 20" "length (decimal k) \<le> 20" by (simp_all add: decimal_length)
  then have "length (snapshot_name i k) \<le> 128" "snapshot_name i k \<noteq> []" by (simp_all add: snapshot_name_def)
  moreover have "path_safe_char c \<and> c \<noteq> CHR ''.''" if "c \<in> set (snapshot_name i k)" for c
  proof -
    have "c \<in> set (decimal i) \<union> set (decimal k) \<union> set ''snap-''" using that by (auto simp: snapshot_name_def)
    moreover have "path_safe_char c \<and> c \<noteq> CHR ''.''" if "c \<in> set (decimal j)" for j
      using that decimal_digits [of j] decimal_digit unfolding list_all_iff by metis
    moreover have "path_safe_char c \<and> c \<noteq> CHR ''.''" if "c \<in> set ''snap-''" using that by (auto simp: path_safe_char_def)
    ultimately show ?thesis by blast
  qed
  ultimately show ?thesis using contains_dots [of "snapshot_name i k"] by (auto simp: validate_path_safe_id_Ok list_all_iff)
qed

section \<open>Snapshots hold the node's content\<close>

definition round_trips :: "StateCodec \<Rightarrow> Node \<Rightarrow> bool" where
  "round_trips sc n \<longleftrightarrow>
     (\<exists>b t. cd_enc (sc_state sc) (ad_state (nd_adapter n)) = Some b \<and> cd_dec (sc_state sc) b = Some t \<and>
        state_eqv (ad_state (nd_adapter n)) t \<and> state_wf t) \<and>
     (\<exists>b. cd_enc (sc_membership sc) (ad_last_membership (nd_adapter n)) = Some b \<and>
        cd_dec (sc_membership sc) b = Some (ad_last_membership (nd_adapter n)))"

definition snapshot_of :: "StateCodec \<Rightarrow> Node \<Rightarrow> SnapshotMeta \<Rightarrow> bytes \<Rightarrow> bool" where
  "snapshot_of sc n m b \<longleftrightarrow>
     sn_last_applied m = map_option from_openraft_log_id (nd_last_applied n) \<and>
     cd_dec (sc_membership sc) (sn_membership m) = Some (ad_last_membership (nd_adapter n)) \<and>
     cd_enc (sc_membership sc) (ad_last_membership (nd_adapter n)) = Some (sn_membership m) \<and>
     (\<exists>t. cd_dec (sc_state sc) b = Some t \<and> state_eqv (ad_state (nd_adapter n)) t \<and> state_wf t)"

definition node_eqv :: "Node \<Rightarrow> Node \<Rightarrow> bool" where
  "node_eqv n n' \<longleftrightarrow> adapter_eqv (nd_adapter n) (nd_adapter n') \<and> state_wf (ad_state (nd_adapter n')) \<and>
     nd_last_applied n' = nd_last_applied n"

abbreviation node_builder :: "Node \<Rightarrow> SnapshotBuilder" where
  "node_builder n \<equiv> fst (get_snapshot_builder n)"

definition node_snapshot_id :: "Node \<Rightarrow> string" where
  "node_snapshot_id n = snapshot_name (case ad_last_applied (nd_adapter n) of None \<Rightarrow> 0 | Some i \<Rightarrow> i) ((nd_snapshot_counter n + 1) mod 2 ^ 64)"

lemma builder_meta_node:
  "sn_id (builder_meta (node_builder n) mb) = node_snapshot_id n"
  "sn_last_applied (builder_meta (node_builder n) mb) = map_option from_openraft_log_id (nd_last_applied n)"
  "sn_membership (builder_meta (node_builder n) mb) = mb"
  by (simp_all add: builder_meta_def get_snapshot_builder_def node_snapshot_id_def nd_last_applied_def Let_def split: option.split)

lemma set_last_applied_simps [simp]:
  "nd_last_applied (set_last_applied l n) = l"
  "ad_last_applied (nd_adapter (set_last_applied l n)) = map_option ol_index l"
  "ad_state (nd_adapter (set_last_applied l n)) = ad_state (nd_adapter n)"
  "ad_last_membership (nd_adapter (set_last_applied l n)) = ad_last_membership (nd_adapter n)"
  "nd_waiters (set_last_applied l n) = nd_waiters n" "nd_staged (set_last_applied l n) = nd_staged n"
  by (auto simp: set_last_applied_def nd_last_applied_def split: option.split)

lemma last_applied_index: "map_option ol_index (nd_last_applied n) = ad_last_applied (nd_adapter n)"
  by (simp add: nd_last_applied_def option.map_comp comp_def option.map_ident)

text \<open>A restored node: the new state, the last applied id and the membership of the snapshot.\<close>

lemma restored_eqv:
  assumes "state_eqv (ad_state (nd_adapter n)) t" "state_wf t" "l = nd_last_applied n"
    and "nd_last_applied n' = l" "ad_state (nd_adapter n') = t" "ad_last_membership (nd_adapter n') = ad_last_membership (nd_adapter n)"
  shows "node_eqv n n'"
  using assms last_applied_index [of n] last_applied_index [of n'] by (simp add: node_eqv_def adapter_eqv_def)

lemma nd_last_applied_machine [simp]:
  "nd_last_applied (n\<lparr>nd_adapter := (nd_adapter n)\<lparr>ad_state := s\<rparr>\<rparr>) = nd_last_applied n"
  "nd_last_applied (n\<lparr>nd_adapter := (nd_adapter n)\<lparr>ad_last_membership := m\<rparr>\<rparr>) = nd_last_applied n"
  "nd_last_applied (n\<lparr>nd_waiters := w\<rparr>) = nd_last_applied n" "nd_last_applied (n\<lparr>nd_staged := x\<rparr>) = nd_last_applied n"
  by (simp_all add: nd_last_applied_def)

context snapshot_store
begin

lemma build_keeps:
  assumes "good s" "accepts (node_snapshot_id n)" "round_trips sc n"
  shows "\<exists>meta b m s'. build_snapshot sc store (node_builder n) s = (Ok (meta, b), s') \<and> good s' \<and> latest s' = Some (m, b) \<and>
    snapshot_of sc n m b \<and> sn_id m = node_snapshot_id n"
proof -
  obtain b t mb where c: "cd_enc (sc_state sc) (ad_state (nd_adapter n)) = Some b" "cd_dec (sc_state sc) b = Some t"
      "state_eqv (ad_state (nd_adapter n)) t" "state_wf t"
      "cd_enc (sc_membership sc) (ad_last_membership (nd_adapter n)) = Some mb"
      "cd_dec (sc_membership sc) mb = Some (ad_last_membership (nd_adapter n))"
    using assms(3) unfolding round_trips_def by blast
  let ?m = "builder_meta (node_builder n) mb"
  obtain s' where "rss_write store ?m b s = (Ok (), s')" "good s'" "latest s' = Some (?m, b)"
    using write_latest [OF assms(1), of ?m b] assms(2) by (auto simp: builder_meta_node)
  moreover have "snapshot_of sc n ?m b" using c by (simp add: snapshot_of_def builder_meta_node)
  ultimately show ?thesis using c(1,5) builder_meta_node(1) [of n mb]
    by (auto simp: build_snapshot_def get_snapshot_builder_def Let_def)
qed

lemma open_restores:
  assumes "good s" "latest s = Some (m, b)" "snapshot_of sc n m b"
  shows "\<exists>n' s'. open_node sc store s = (Ok n', s') \<and> node_eqv n n' \<and> good s' \<and> latest s' = latest s"
proof -
  obtain s' where s': "rss_current store s = (Ok (Some (m, b)), s')" "good s'" "latest s' = latest s"
    using current [OF assms(1)] assms(2) by auto
  obtain t where t: "cd_dec (sc_state sc) b = Some t" "state_eqv (ad_state (nd_adapter n)) t" "state_wf t"
    using assms(3) by (auto simp: snapshot_of_def)
  have m: "map_option to_openraft_log_id (sn_last_applied m) = nd_last_applied n"
    "cd_dec (sc_membership sc) (sn_membership m) = Some (ad_last_membership (nd_adapter n))"
    using assms(3) by (auto simp: snapshot_of_def option.map_comp comp_def option.map_ident)
  show ?thesis using s' t(1) m
    by (auto simp: open_node_def restore_from_snapshot_def Let_def intro!: restored_eqv [OF t(2,3) refl])
qed

lemma serve_current:
  assumes "good s" "latest s = Some (m, b)" "snapshot_of sc n m b"
  shows "\<exists>s'. get_current_snapshot sc store s = (Ok (Some (\<lparr>om_last_log_id = nd_last_applied n,
    om_last_membership = ad_last_membership (nd_adapter n), om_snapshot_id = sn_id m\<rparr>, b)), s') \<and> good s' \<and> latest s' = latest s"
proof -
  obtain s' where "rss_current store s = (Ok (Some (m, b)), s')" "good s'" "latest s' = latest s"
    using current [OF assms(1)] assms(2) by auto
  then show ?thesis using assms(3)
    by (auto simp: get_current_snapshot_def snapshot_of_def option.map_comp comp_def option.map_ident)
qed

lemma install_adopts:
  assumes "good s" "accepts (sn_id m)" "snapshot_of sc n m b"
  defines "meta \<equiv> \<lparr>om_last_log_id = nd_last_applied n, om_last_membership = ad_last_membership (nd_adapter n), om_snapshot_id = sn_id m\<rparr>"
  shows "\<exists>heads n' m' s'. install_snapshot sc store meta b f s = ((Ok heads, n'), s') \<and> node_eqv n n' \<and> good s' \<and>
    latest s' = Some (m', b) \<and> snapshot_of sc n m' b \<and>
    nd_waiters n' = map_option (\<lambda>w. drain_all_with w Abort_SnapshotInstalled) (nd_waiters f) \<and> nd_staged n' = map_option (\<lambda>_. hm_empty) (nd_staged f)"
proof -
  let ?m = "\<lparr>sn_id = sn_id m, sn_last_applied = map_option from_openraft_log_id (nd_last_applied n), sn_membership = sn_membership m\<rparr>"
  obtain s' where s': "rss_write store ?m b s = (Ok (), s')" "good s'" "latest s' = Some (?m, b)"
    using write_latest [OF assms(1), of ?m b] assms(2) by auto
  obtain t where t: "cd_dec (sc_state sc) b = Some t" "state_eqv (ad_state (nd_adapter n)) t" "state_wf t"
    using assms(3) by (auto simp: snapshot_of_def)
  have e: "cd_enc (sc_membership sc) (ad_last_membership (nd_adapter n)) = Some (sn_membership m)" "snapshot_of sc n ?m b"
    using assms(3) by (auto simp: snapshot_of_def)
  have "map_option stash_clear_all (nd_staged f) = map_option (\<lambda>_. hm_empty) (nd_staged f)"
    by (rule option.map_cong) (simp_all add: stash_clear_all_def)
  then show ?thesis using s' t(1) e
    by (auto simp: install_snapshot_def meta_def Let_def intro!: restored_eqv [OF t(2,3) refl])
qed

end

section \<open>A sample\<close>

text \<open>The node of the sample log, and codecs that give its state back in another layout.\<close>

definition sample_node :: Node where
  "sample_node = Node_new\<lparr>nd_adapter := fst sample_run, nd_last_term := 1\<rparr>"

definition sample_state_codec :: StateCodec where
  "sample_state_codec =
     \<lparr>sc_state = \<lparr>cd_enc = (\<lambda>_. Some [0]), cd_dec = (\<lambda>b. if b = [0] then Some (ad_state sample_relayout) else None)\<rparr>,
      sc_membership = \<lparr>cd_enc = (\<lambda>m. if finite m then Some (sorted_list_of_set m) else None), cd_dec = (\<lambda>b. Some (set b))\<rparr>\<rparr>"

lemma sample_node_facts:
  "ad_last_applied (nd_adapter sample_node) = Some 6" "ad_last_membership (nd_adapter sample_node) = {1, 2, 3}"
  by (simp_all add: sample_node_def sample_run_def sample_log_def adapter_apply_def adapter_step_def Let_def case_prod_beta)

lemma sample_node_codec: "round_trips sample_state_codec sample_node"
proof -
  have "adapter_eqv (fst sample_run) sample_relayout"
    using replica.trace_sim [OF sample_trace sample_relayout_trace raft_inv_init raft_inv_init] by simp
  moreover have "state_wf (ad_state sample_relayout)"
    using raft_trace_inv [OF sample_relayout_trace] by (simp add: raft_inv_def)
  moreover have "finite (ad_last_membership (nd_adapter sample_node))" by (simp add: sample_node_facts)
  ultimately show ?thesis by (simp add: round_trips_def sample_state_codec_def adapter_eqv_def) (simp add: sample_node_def)
qed

lemma empty_disk_snapshots: "snap_good pc None empty_disk" "postcard_ok pc \<Longrightarrow> fs_snapshots_good pc empty_disk"
proof -
  show g: "snap_good pc None empty_disk"
    using versions_synced [OF empty_disk_good(1)] by (simp add: settled_def files_def empty_disk_def dir_now_def)
  show "postcard_ok pc \<Longrightarrow> fs_snapshots_good pc empty_disk" using fs_latest_good [OF _ g] by simp
qed

lemma sample_node_tail: "log_ok (next_index (nd_adapter sample_node)) [(7, Blank)]"
  by (simp add: next_index_def sample_node_facts)

lemma sample_node_trace: "raft_trace sample_log (snd sample_run) (nd_adapter sample_node)"
  using sample_trace by (simp add: sample_node_def)

section \<open>Properties\<close>

lemma eqv_replay:
  assumes "raft_inv (nd_adapter n)" "node_eqv n n'" "log_ok (next_index (nd_adapter n)) es"
  shows "snd (adapter_apply (nd_adapter n') es) = snd (adapter_apply (nd_adapter n) es) \<and>
    adapter_eqv (fst (adapter_apply (nd_adapter n) es)) (fst (adapter_apply (nd_adapter n') es))"
proof -
  have inv: "raft_inv (nd_adapter n')" using raft_inv_eqv assms(1,2) by (auto simp: node_eqv_def)
  have "log_ok (next_index (nd_adapter n')) es" using assms(2,3) by (simp add: node_eqv_def adapter_eqv_def next_index_def)
  from replica.trace_sim [OF adapter_run_trace_from [OF assms(1,3)] adapter_run_trace_from [OF inv this] assms(1) inv]
  show ?thesis using assms(2) by (simp add: node_eqv_def)
qed

lemma build_meta:
  assumes "build_snapshot sc store (node_builder n) s = (Ok (meta, b), s')" "round_trips sc n"
  obtains m where "rss_write store m b s = (Ok (), s')" "snapshot_of sc n m b" "sn_id m = node_snapshot_id n"
proof -
  obtain b1 t mb where c: "cd_enc (sc_state sc) (ad_state (nd_adapter n)) = Some b1" "cd_dec (sc_state sc) b1 = Some t"
      "state_eqv (ad_state (nd_adapter n)) t" "state_wf t"
      "cd_enc (sc_membership sc) (ad_last_membership (nd_adapter n)) = Some mb"
      "cd_dec (sc_membership sc) mb = Some (ad_last_membership (nd_adapter n))"
    using assms(2) unfolding round_trips_def by blast
  let ?m = "builder_meta (node_builder n) mb"
  have "bind_io (rss_write store ?m b1 s) (\<lambda>_ s. (Ok (meta, b1), s)) = (Ok (meta, b), s')"
    using assms(1) c(1,5) by (cases "rss_write store ?m b1 s"; cases "fst (rss_write store ?m b1 s)")
      (auto simp: build_snapshot_def get_snapshot_builder_def Let_def)
  then have "b1 = b" "rss_write store ?m b s = (Ok (), s')"
    by (cases "rss_write store ?m b1 s"; cases "fst (rss_write store ?m b1 s)"; auto)+
  then show thesis using that [of ?m] c by (simp add: snapshot_of_def builder_meta_node)
qed



text \<open>
  C40. A follower adopts the leader's snapshot. A snapshot that a node built and serves from its
  store, installed on any other node, gives that node a state of the same content, the same last
  applied id and membership, makes it the follower's own current snapshot, ends every parked waiter and
  drops every stashed receipt; from then on both nodes answer the rest of the log alike.
\<close>

theorem follower_adopts_snapshot:
  assumes "fs_snapshots_good pc d" "fs_snapshots_good pc df" "raft_trace log rs (nd_adapter n)" "round_trips sc n"
    and index: "\<And>i. ad_last_applied (nd_adapter n) = Some i \<Longrightarrow> i < 2 ^ 64" and tail: "log_ok (next_index (nd_adapter n)) es"
  shows "\<exists>built d1 meta b d2 heads f' df1.
    build_snapshot sc (FsRaftSnapshotStore pc no_failure) (node_builder n) d = (Ok built, d1) \<and>
    get_current_snapshot sc (FsRaftSnapshotStore pc no_failure) d1 = (Ok (Some (meta, b)), d2) \<and>
    install_snapshot sc (FsRaftSnapshotStore pc no_failure) meta b f df = ((Ok heads, f'), df1) \<and>
    node_eqv n f' \<and> map_option snd (fs_latest pc df1) = Some b \<and>
    nd_waiters f' = map_option (\<lambda>w. drain_all_with w Abort_SnapshotInstalled) (nd_waiters f) \<and>
    nd_staged f' = map_option (\<lambda>_. hm_empty) (nd_staged f) \<and>
    snd (adapter_apply (nd_adapter f') es) = snd (adapter_apply (nd_adapter n) es)"
proof -
  have safe: "validate_path_safe_id (node_snapshot_id n) = Ok (node_snapshot_id n)"
    unfolding node_snapshot_id_def using index by (intro snapshot_name_safe) (auto split: option.split)
  obtain built b m d1 where b: "build_snapshot sc (FsRaftSnapshotStore pc no_failure) (node_builder n) d = (Ok (built, b), d1)"
      "fs_snapshots_good pc d1" "fs_latest pc d1 = Some (m, b)" "snapshot_of sc n m b" "sn_id m = node_snapshot_id n"
    using fs_snap.build_keeps [OF assms(1) safe assms(4)] by blast
  let ?meta = "\<lparr>om_last_log_id = nd_last_applied n, om_last_membership = ad_last_membership (nd_adapter n), om_snapshot_id = sn_id m\<rparr>"
  obtain d2 where g: "get_current_snapshot sc (FsRaftSnapshotStore pc no_failure) d1 = (Ok (Some (?meta, b)), d2)"
    using fs_snap.serve_current [OF b(2,3,4)] by blast
  obtain heads f' m' df1 where i: "install_snapshot sc (FsRaftSnapshotStore pc no_failure) ?meta b f df = ((Ok heads, f'), df1)"
      "node_eqv n f'" "fs_latest pc df1 = Some (m', b)"
      "nd_waiters f' = map_option (\<lambda>w. drain_all_with w Abort_SnapshotInstalled) (nd_waiters f)" "nd_staged f' = map_option (\<lambda>_. hm_empty) (nd_staged f)"
    using fs_snap.install_adopts [OF assms(2) _ b(4), of f] safe b(5) by auto
  have "raft_inv (nd_adapter n)" using raft.trace_inv [OF assms(3) raft_inv_init] .
  from eqv_replay [OF this i(2) tail] show ?thesis using b(1) g i
    by (intro exI [of _ "(built, b)"] exI [of _ d1] exI [of _ ?meta] exI [of _ b] exI [of _ d2] exI [of _ heads] exI [of _ f'] exI [of _ df1]) simp
qed

theorem follower_adopts_snapshot_witness:
  "\<exists>heads f' df1 meta b. install_snapshot sample_state_codec (FsRaftSnapshotStore sample_pc no_failure) meta b Node_new empty_disk
      = ((Ok heads, f'), df1) \<and> node_eqv sample_node f'"
  using follower_adopts_snapshot [OF empty_disk_snapshots(2) empty_disk_snapshots(2) sample_node_trace sample_node_codec _ sample_node_tail,
      OF sample_pc_ok sample_pc_ok, of Node_new]
  by (simp add: sample_node_facts) blast

end
