(* ===== verification/CommitVarint.thy ===== *)
theory CommitVarint
  imports "HOL-Library.Word" Utf8
begin

text \<open>
  The byte-level primitives of the commit format (\<open>fluree-db-core/src/commit/codec/varint.rs\<close>):
  LEB128 variable-length integers, zigzag encoding, little-endian numbers and bounded reads.

  \<open>u8\<close>, \<open>u16\<close>, \<open>u32\<close>, \<open>u64\<close> are words of their width, and so are \<open>i32\<close> and \<open>i64\<close> (in two's
  complement) and \<open>f64\<close> (its bit pattern). A \<open>usize\<close> is a \<open>nat\<close> below \<open>2 ^ 64\<close>. A Rust string is
  its bytes. A writer maps the buffer to the extended buffer; a reader takes the buffer and a
  position and gives a value and the next position, an error, or a panic. Arithmetic that
  overflows is taken as in a release build, where it wraps.
\<close>

unbundle bit_operations_syntax

type_synonym u8 = "8 word"
type_synonym u16 = "16 word"
type_synonym u32 = "32 word"
type_synonym u64 = "64 word"
type_synonym str = "u8 list"

datatype CommitCodecError =
    InvalidMagic | UnsupportedVersion u8 | TooSmall nat nat | InvalidDictionary string | InvalidOp string
  | InvalidOpTag u8 | DecompressionFailed | CompressionFailed | EnvelopeDecode string | EnvelopeEncode string
  | UnexpectedEof | UnsupportedValue string | NonDefaultGraph u16 u32 | LimitExceeded string | TOutOfRange int
  | GIdOutOfRange u64 | NegativeListIndex u32 | HashMismatch

datatype 'a parse = Done 'a | Fail CommitCodecError | Abort

primrec bind_parse :: "'a parse \<Rightarrow> ('a \<Rightarrow> 'b parse) \<Rightarrow> 'b parse" where
  "bind_parse (Done x) f = f x"
| "bind_parse (Fail e) f = Fail e"
| "bind_parse Abort f = Abort"

definition usize_max :: nat where
  "usize_max = 2 ^ 64 - 1"

section \<open>Reads\<close>

definition read_exact :: "u8 list \<Rightarrow> nat \<Rightarrow> nat \<Rightarrow> (u8 list \<times> nat) parse" where
  "read_exact data pos n =
     (if pos + n > usize_max then Fail UnexpectedEof
      else if pos + n > length data then Fail UnexpectedEof
      else Done (take n (drop pos data), pos + n))"

definition read_u8 :: "u8 list \<Rightarrow> nat \<Rightarrow> (u8 \<times> nat) parse" where
  "read_u8 data pos = (if pos \<ge> length data then Fail UnexpectedEof else Done (data ! pos, pos + 1))"

text \<open>\<open>std::str::from_utf8\<close>.\<close>

definition from_utf8 :: "u8 list \<Rightarrow> str option" where
  "from_utf8 bs = (if utf8_valid (map unat bs) then Some bs else None)"

section \<open>Variable-length integers\<close>

function encode_varint :: "u64 \<Rightarrow> u8 list \<Rightarrow> u8 list" where
  "encode_varint value buf =
     (let byte = (ucast (value AND 0x7F) :: u8); value = drop_bit 7 value
      in if value \<noteq> 0 then encode_varint value (buf @ [byte OR 0x80]) else buf @ [byte])"
  by pat_completeness auto
termination
proof (relation "measure (unat \<circ> fst)")
  fix v w :: u64 and buf :: "u8 list" and b :: u8
  assume w: "w = drop_bit 7 v" "w \<noteq> 0"
  then have "v \<noteq> 0" by auto
  then have "unat v div 2 ^ 7 < unat v" by (simp add: unat_gt_0)
  then show "((w, buf @ [b OR 0x80]), v, buf) \<in> measure (unat \<circ> fst)"
    by (simp add: w(1) drop_bit_eq_div unat_div)
qed simp

declare encode_varint.simps [simp del]

text \<open>
  The loop of \<open>decode_varint\<close>. A shift of a \<open>u64\<close> by 64 or more panics in a debug build; in a release build the
  shift amount is taken modulo 64.
\<close>

function decode_varint_from :: "u64 \<Rightarrow> nat \<Rightarrow> u8 list \<Rightarrow> nat \<Rightarrow> (u64 \<times> nat) parse" where
  "decode_varint_from result shift buf pos =
     (if pos \<ge> length buf then Fail UnexpectedEof
      else
        (let byte = buf ! pos; pos = pos + 1; payload = (ucast (byte AND 0x7F) :: u64)
         in if shift \<ge> 63 \<and> payload > 1 then Fail (InvalidOp ''varint overflow'')
            else
              (let result = result OR push_bit (shift mod 64) payload
               in if byte AND 0x80 = 0 then Done (result, pos) else decode_varint_from result (shift + 7) buf pos)))"
  by pat_completeness auto
termination by (relation "measure (\<lambda>(_, _, buf, pos). length buf - pos)") auto

declare decode_varint_from.simps [simp del]

definition decode_varint :: "u8 list \<Rightarrow> nat \<Rightarrow> (u64 \<times> nat) parse" where
  "decode_varint buf pos = decode_varint_from 0 0 buf pos"

section \<open>Zigzag\<close>

definition zigzag_encode :: "u64 \<Rightarrow> u64" where
  "zigzag_encode value = push_bit 1 value XOR signed_drop_bit 63 value"

definition zigzag_decode :: "u64 \<Rightarrow> u64" where
  "zigzag_decode value = drop_bit 1 value XOR - (value AND 1)"

section \<open>Little-endian numbers\<close>

definition to_le_bytes :: "nat \<Rightarrow> 'a::len word \<Rightarrow> u8 list" where
  "to_le_bytes n w = map (\<lambda>i. ucast (drop_bit (8 * i) w)) [0 ..< n]"

primrec from_le_bytes :: "u8 list \<Rightarrow> 'a::len word" where
  "from_le_bytes [] = 0"
| "from_le_bytes (b # bs) = ucast b OR push_bit 8 (from_le_bytes bs)"

section \<open>Laws\<close>

lemma bind_parse_Done: "bind_parse r f = Done y \<longleftrightarrow> (\<exists>x. r = Done x \<and> f x = Done y)"
  by (cases r) auto

lemma read_exact_at:
  "length pre + length bs + length post \<le> usize_max \<Longrightarrow>
   read_exact (pre @ bs @ post) (length pre) (length bs) = Done (bs, length pre + length bs)"
  by (simp add: read_exact_def)

lemma read_u8_at: "read_u8 (pre @ b # post) (length pre) = Done (b, length pre + 1)"
  by (simp add: read_u8_def)

lemma encode_varint_buf: "encode_varint v (xs @ ys) = xs @ encode_varint v ys"
proof (induction v ys rule: encode_varint.induct)
  case (1 v ys)
  show ?case
  proof (cases "drop_bit 7 v = 0")
    case False
    then show ?thesis using 1 [OF refl refl False] by (simp add: encode_varint.simps [of v] Let_def)
  qed (simp add: encode_varint.simps [of v])
qed

lemma encode_varint_append: "encode_varint v buf = buf @ encode_varint v []"
  using encode_varint_buf [of v buf "[]"] by simp

lemma sign_word: "signed_drop_bit 63 (v :: u64) = (if bit v 63 then - 1 else 0)"
  by (rule bit_word_eqI) (auto simp: bit_signed_drop_bit_iff not_le)

lemma zigzag_round_trip: "zigzag_decode (zigzag_encode v) = v"
proof -
  define p where "p = push_bit 1 v"
  have p: "bit p n \<longleftrightarrow> 1 \<le> n \<and> n < 64 \<and> bit v (n - 1)" for n unfolding p_def by (simp only: bit_push_bit_iff possible_bit_word) simp
  have enc: "zigzag_encode v = (if bit v 63 then NOT p else p)"
    by (simp add: zigzag_encode_def sign_word p_def)
  have one: "NOT p AND 1 = 1" "p AND 1 = 0"
    by (rule bit_word_eqI, auto simp: bit_and_iff bit_not_iff p bit_1_iff)+
  show ?thesis
  proof (rule bit_word_eqI)
    fix n assume n: "n < LENGTH(64)"
    have "n = 63 \<or> n < 63" using n by auto
    then show "bit (zigzag_decode (zigzag_encode v)) n = bit v n"
      by (auto simp: zigzag_decode_def enc one bit_xor_iff bit_drop_bit_eq bit_not_iff p)
  qed
qed

lemma bit_from_le_bytes:
  "bit (from_le_bytes bs :: 'a::len word) k \<longleftrightarrow> k < LENGTH('a) \<and> k div 8 < length bs \<and> bit (bs ! (k div 8)) (k mod 8)"
proof (induction bs arbitrary: k)
  case (Cons b bs)
  show ?case
  proof (cases "k < 8")
    case False
    then obtain j where "k = j + 8" using le_Suc_ex [of 8 k] by (auto simp: add.commute)
    moreover have "\<not> bit b (j + 8)" by (auto dest: bit_imp_le_length)
    moreover have "(j + 8) div 8 = Suc (j div 8)" by simp
    ultimately show ?thesis using Cons.IH [of j] by (auto simp: bit_simps simp del: div_add_self2)
  qed (auto simp: bit_simps)
qed simp

lemma le_bytes_round_trip:
  assumes "LENGTH('a) = 8 * n"
  shows "from_le_bytes (to_le_bytes n w) = (w :: 'a::len word)"
proof (rule bit_word_eqI)
  fix k assume k: "k < LENGTH('a)"
  then have "k div 8 < n" using assms by (simp add: less_mult_imp_div_less)
  then show "bit (from_le_bytes (to_le_bytes n w) :: 'a word) k = bit w k"
    using k by (simp add: bit_from_le_bytes to_le_bytes_def bit_simps)
qed

text \<open>The bytes of a varint, and what the decoder takes from one.\<close>

lemma varint_masks: "bit (0x7F :: int) n \<longleftrightarrow> n < 7" "bit (0x80 :: int) n \<longleftrightarrow> n = 7"
proof -
  have m: "(0x7F :: int) = mask 7" "(0x80 :: int) = 2 ^ 7" by (simp_all add: mask_eq_exp_minus_1)
  show "bit (0x7F :: int) n \<longleftrightarrow> n < 7" "bit (0x80 :: int) n \<longleftrightarrow> n = 7"
    unfolding m by (auto simp only: bit_mask_iff bit_exp_iff possible_bit_int)
qed

lemma varint_byte:
  fixes v :: u64
  defines "b \<equiv> (ucast (v AND 0x7F) :: u8)"
  shows "ucast (b AND 0x7F) = v AND 0x7F" "ucast ((b OR 0x80) AND 0x7F) = v AND 0x7F" "b AND 0x80 = 0" "(b OR 0x80) AND 0x80 \<noteq> 0"
proof -
  show "ucast (b AND 0x7F) = v AND 0x7F" "ucast ((b OR 0x80) AND 0x7F) = v AND 0x7F" "b AND 0x80 = 0" unfolding b_def
    by (rule bit_word_eqI; auto simp: bit_and_iff bit_or_iff bit_ucast_iff varint_masks)+
  have "bit ((b OR 0x80) AND 0x80) 7" by (simp add: bit_and_iff bit_or_iff varint_masks)
  then show "(b OR 0x80) AND 0x80 \<noteq> 0" by (metis bit_0_eq bot_apply bot_bool_def)
qed

lemma varint_join: "(r OR push_bit s (v AND 0x7F)) OR push_bit (s + 7) (drop_bit 7 v) = r OR push_bit s (v :: u64)"
proof (rule bit_word_eqI)
  fix n assume n: "n < LENGTH(64)"
  show "bit ((r OR push_bit s (v AND 0x7F)) OR push_bit (s + 7) (drop_bit 7 v)) n = bit (r OR push_bit s v) n"
  proof (cases "s + 7 \<le> n")
    case True
    then have "7 + (n - (s + 7)) = n - s" by simp
    then show ?thesis using True n by (auto simp: bit_or_iff bit_push_bit_iff bit_and_iff varint_masks bit_drop_bit_eq)
  next
    case False
    then show ?thesis using n by (auto simp: bit_or_iff bit_push_bit_iff bit_and_iff varint_masks)
  qed
qed

lemma decode_varint_from_encode:
  assumes "unat v < 2 ^ (64 - s)" "s = 7 * k" "s \<le> 63"
  shows "decode_varint_from r s (pre @ encode_varint v [] @ post) (length pre) =
    Done (r OR push_bit s v, length pre + length (encode_varint v []))"
  using assms
proof (induction "unat v" arbitrary: v r s k pre rule: less_induct)
  case less
  let ?b = "ucast (v AND 0x7F) :: u8" and ?v = "drop_bit 7 v"
  have fit: "\<not> (s \<ge> 63 \<and> v AND 0x7F > 1)"
  proof (cases "s = 63")
    case True
    then have "unat v = 0 \<or> unat v = 1" using less.prems(1) by auto
    then have "v = 0 \<or> v = 1" by (auto simp: word_unat_eq_iff)
    then show ?thesis by auto
  qed (use less.prems in simp)
  have sm: "s mod 64 = s" using less.prems by simp
  show ?case
  proof (cases "?v = 0")
    case True
    have "encode_varint v [] = [?b]" using True by (simp add: encode_varint.simps [of v])
    moreover have "r OR push_bit s (v AND 0x7F) = r OR push_bit s v" using varint_join [of r s v] True by simp
    ultimately show ?thesis using fit sm varint_byte [of v] by (subst decode_varint_from.simps) (simp add: Let_def nth_append)
  next
    case False
    have bytes: "encode_varint v [] = (?b OR 0x80) # encode_varint ?v []"
      using False encode_varint_append [of ?v "[?b OR 0x80]"] by (simp add: encode_varint.simps [of v] Let_def)
    have dv: "unat ?v = unat v div 128" by (simp add: drop_bit_eq_div unat_div)
    have big: "128 \<le> unat v" using False dv by (metis div_less linorder_not_less unat_eq_0)
    have s: "s < 63" using less.prems big by (cases "s = 63") auto
    then have s7: "s + 7 = 7 * (k + 1)" "s + 7 \<le> 63" using less.prems(2) by auto
    have "(2 :: nat) ^ (64 - s) = 2 ^ (64 - (s + 7)) * 128" using s7(2) power_add [of "2 :: nat" "64 - (s + 7)" 7] by (simp add: Nat.diff_add_assoc2 [symmetric] del: power_add)
    then have "unat ?v < 2 ^ (64 - (s + 7))" using less.prems(1) dv by (simp add: less_mult_imp_div_less)
    from less.hyps [OF _ this s7, of "r OR push_bit s (v AND 0x7F)" "pre @ [?b OR 0x80]"]
    have "decode_varint_from (r OR push_bit s (v AND 0x7F)) (s + 7) (pre @ encode_varint v [] @ post) (Suc (length pre)) =
        Done (r OR push_bit s v, length pre + length (encode_varint v []))"
      using dv big unfolding bytes varint_join by simp
    then show ?thesis using fit sm varint_byte [of v] by (subst decode_varint_from.simps) (simp add: Let_def nth_append bytes)
  qed
qed

lemma varint_at:
  "decode_varint (pre @ encode_varint v [] @ post) (length pre) = Done (v, length pre + length (encode_varint v []))"
  unfolding decode_varint_def using decode_varint_from_encode [of v 0 0 0 pre post] unsigned_less [of v] by simp

end
