(* ===== verification/CommitDict.thy ===== *)
theory CommitDict
  imports CommitVarint Prelude
begin

text \<open>
  The commit-local string dictionaries (\<open>commit/codec/string_dict.rs\<close>): the builder that assigns
  ids on the write path, its serialised form, and the reader. Reading back a serialised builder
  gives its strings, and every id the builder handed out looks up the string it was given for.
\<close>

section \<open>Write path\<close>

record StringDictBuilder =
  db_map :: "(str, u32) hashmap"
  db_entries :: "str list"

definition StringDictBuilder_new :: StringDictBuilder where
  "StringDictBuilder_new = \<lparr>db_map = hm_empty, db_entries = []\<rparr>"

definition dict_insert :: "StringDictBuilder \<Rightarrow> str \<Rightarrow> StringDictBuilder \<times> u32" where
  "dict_insert b s =
     (case hm_get (db_map b) s of
        Some i \<Rightarrow> (b, i)
      | None \<Rightarrow>
          (let i = of_nat (length (db_entries b)) + 1
           in (b\<lparr>db_map := hm_insert (db_map b) s i, db_entries := db_entries b @ [s]\<rparr>, i)))"

definition serialize_entry :: "str \<Rightarrow> u8 list \<Rightarrow> u8 list" where
  "serialize_entry s buf = encode_varint (of_nat (length s)) buf @ s"

definition dict_serialize :: "StringDictBuilder \<Rightarrow> u8 list" where
  "dict_serialize b = fold serialize_entry (db_entries b) (encode_varint (of_nat (length (db_entries b))) [])"

section \<open>Read path\<close>

type_synonym StringDict = "str list"

fun deserialize_strings :: "nat \<Rightarrow> u8 list \<Rightarrow> nat \<Rightarrow> str list parse" where
  "deserialize_strings 0 data pos = Done []"
| "deserialize_strings (Suc n) data pos =
     bind_parse (decode_varint data pos) (\<lambda>(len, pos).
       case read_exact data pos (unat len) of
         Done (bs, pos) \<Rightarrow>
           (case from_utf8 bs of
              Some s \<Rightarrow> bind_parse (deserialize_strings n data pos) (\<lambda>rest. Done (s # rest))
            | None \<Rightarrow> Fail (InvalidDictionary ''invalid UTF-8''))
       | Fail _ \<Rightarrow> Fail (InvalidDictionary ''string bytes extend past dictionary end'')
       | Abort \<Rightarrow> Abort)"

text \<open>
  \<open>Vec::with_capacity\<close> panics when the elements, 24 bytes each, do not fit in \<open>isize\<close>. That the
  allocator may run out of memory before is left out.
\<close>

definition with_capacity_ok :: "nat \<Rightarrow> nat \<Rightarrow> bool" where
  "with_capacity_ok elem cap \<longleftrightarrow> elem * cap < 2 ^ 63"

definition dict_deserialize :: "u8 list \<Rightarrow> StringDict parse" where
  "dict_deserialize data =
     bind_parse (decode_varint data 0) (\<lambda>(count, pos).
       if \<not> with_capacity_ok 24 (unat count) then Abort else deserialize_strings (unat count) data pos)"

definition dict_get :: "StringDict \<Rightarrow> u32 \<Rightarrow> str parse" where
  "dict_get d local_id =
     (if local_id = 0 then Fail (InvalidDictionary ''local_id 0 is reserved'')
      else if unat (local_id - 1) < length d then Done (d ! unat (local_id - 1))
      else Fail (InvalidDictionary ''local_id out of range''))"

section \<open>Ids\<close>

definition dict_ok :: "StringDictBuilder \<Rightarrow> bool" where
  "dict_ok b \<longleftrightarrow> length (db_entries b) < 2 ^ 32 \<and> list_all (utf8_valid \<circ> map unat) (db_entries b) \<and>
     (\<forall>s i. hm_get (db_map b) s = Some i \<longrightarrow> i \<noteq> 0 \<and> unat (i - 1) < length (db_entries b) \<and> db_entries b ! unat (i - 1) = s)"

lemma dict_ok_new [simp]: "dict_ok StringDictBuilder_new"
  by (simp add: dict_ok_def StringDictBuilder_new_def)

lemma dict_ok_get: "dict_ok b \<Longrightarrow> hm_get (db_map b) s = Some i \<Longrightarrow> dict_get (db_entries b) i = Done s"
  by (auto simp: dict_ok_def dict_get_def)

lemma dict_get_prefix: "dict_get d i = Done s \<Longrightarrow> dict_get (d @ d') i = Done s"
  by (auto simp: dict_get_def nth_append split: if_splits)

lemma dict_insert_ok:
  assumes ok: "dict_ok b" and room: "length (db_entries b) + 1 < 2 ^ 32" and s: "utf8_valid (map unat s)"
  shows "\<exists>new. db_entries (fst (dict_insert b s)) = db_entries b @ new" "dict_ok (fst (dict_insert b s))"
    and "dict_get (db_entries (fst (dict_insert b s))) (snd (dict_insert b s)) = Done s"
proof -
  let ?n = "length (db_entries b)" and ?i = "of_nat (length (db_entries b)) + 1 :: u32"
  have n: "unat (?i - 1) = ?n" using room by (simp add: unat_of_nat)
  have "unat (of_nat (Suc ?n) :: u32) = Suc ?n" using room by (simp only: unat_of_nat) simp
  moreover have "?i = of_nat (Suc ?n)" by (simp add: add.commute)
  ultimately have i: "?i \<noteq> 0" by (metis nat.distinct(1) unat_0)
  show "\<exists>new. db_entries (fst (dict_insert b s)) = db_entries b @ new"
    by (auto simp: dict_insert_def Let_def split: option.split)
  show "dict_ok (fst (dict_insert b s))"
    using ok room s n i by (cases "hm_get (db_map b) s") (auto simp: dict_insert_def dict_ok_def Let_def nth_append dest: less_SucI)
  show "dict_get (db_entries (fst (dict_insert b s))) (snd (dict_insert b s)) = Done s"
    using n i dict_ok_get [OF ok] by (cases "hm_get (db_map b) s") (auto simp: dict_insert_def dict_get_def Let_def)
qed

section \<open>The serialised form\<close>

abbreviation entry_bytes :: "str \<Rightarrow> u8 list" where
  "entry_bytes s \<equiv> encode_varint (of_nat (length s)) [] @ s"

lemma fold_serialize: "fold serialize_entry ss buf = buf @ concat (map entry_bytes ss)"
proof (induction ss arbitrary: buf)
  case (Cons s ss)
  have "serialize_entry s buf = buf @ entry_bytes s"
    using encode_varint_append [of "of_nat (length s)" buf] by (simp add: serialize_entry_def)
  then show ?case by (simp add: Cons)
qed simp

lemma deserialize_strings_at:
  assumes "length (pre @ concat (map entry_bytes ss) @ post) \<le> usize_max" "list_all (utf8_valid \<circ> map unat) ss"
  shows "deserialize_strings (length ss) (pre @ concat (map entry_bytes ss) @ post) (length pre) = Done ss"
  using assms
proof (induction ss arbitrary: pre)
  case (Cons s ss)
  let ?v = "encode_varint (of_nat (length s)) []" and ?rest = "concat (map entry_bytes ss) @ post"
  have len: "unat (of_nat (length s) :: u64) = length s" using Cons.prems(1) by (simp add: unat_of_nat usize_max_def)
  have "decode_varint (pre @ ?v @ s @ ?rest) (length pre) = Done (of_nat (length s), length pre + length ?v)" by (rule varint_at)
  moreover have "read_exact ((pre @ ?v) @ s @ ?rest) (length (pre @ ?v)) (length s) = Done (s, length (pre @ ?v) + length s)"
    using Cons.prems(1) by (intro read_exact_at) simp
  moreover have "deserialize_strings (length ss) ((pre @ ?v @ s) @ ?rest) (length (pre @ ?v @ s)) = Done ss"
    using Cons.prems by (intro Cons.IH) simp_all
  ultimately show ?case using Cons.prems(2) by (simp add: len from_utf8_def add.assoc)
qed simp

lemma dict_round_trip:
  assumes "dict_ok b" "length (dict_serialize b) \<le> usize_max"
  shows "dict_deserialize (dict_serialize b) = Done (db_entries b)"
proof -
  let ?n = "length (db_entries b)" and ?v = "encode_varint (of_nat (length (db_entries b))) []"
  let ?data = "?v @ concat (map entry_bytes (db_entries b))"
  have data: "dict_serialize b = ?data" by (simp add: dict_serialize_def fold_serialize)
  have n: "unat (of_nat ?n :: u64) = ?n" using assms(1) by (simp add: dict_ok_def unat_of_nat)
  have "decode_varint ?data 0 = Done (of_nat ?n, length ?v)" using varint_at [of "[]" "of_nat ?n"] by simp
  moreover have "deserialize_strings ?n ?data (length ?v) = Done (db_entries b)"
    using deserialize_strings_at [of ?v "db_entries b" "[]"] assms data by (simp add: dict_ok_def)
  moreover have "with_capacity_ok 24 ?n" using assms(1) by (simp add: with_capacity_ok_def dict_ok_def)
  ultimately show ?thesis by (simp add: dict_deserialize_def data n)
qed

end
