(* ===== verification/CommitReaders.thy ===== *)
theory CommitReaders
  imports CommitVarint
begin

text \<open>
  Readers composed in sequence, the way the decoders of \<open>commit/codec\<close> pass the buffer and the position from one
  read to the next, and a calculus for round trips: \<open>reads p bs x\<close> says that the bytes \<open>bs\<close> are read as \<open>x\<close>
  wherever they stand, and it composes along \<open>bindR\<close>.
\<close>

section \<open>Readers\<close>

type_synonym 'a reader = "u8 list \<Rightarrow> nat \<Rightarrow> ('a \<times> nat) parse"

definition bindR :: "'a reader \<Rightarrow> ('a \<Rightarrow> 'b reader) \<Rightarrow> 'b reader" where
  "bindR p q = (\<lambda>data pos. bind_parse (p data pos) (\<lambda>(x, pos). q x data pos))"

definition liftR :: "'a parse \<Rightarrow> 'a reader" where
  "liftR r = (\<lambda>data pos. bind_parse r (\<lambda>x. Done (x, pos)))"

definition decode_inline_str :: "str reader" where
  "decode_inline_str =
     bindR decode_varint (\<lambda>len.
     bindR (\<lambda>data pos. read_exact data pos (unat len)) (\<lambda>bs.
     liftR (case from_utf8 bs of Some s \<Rightarrow> Done s | None \<Rightarrow> Fail (InvalidOp ''invalid UTF-8''))))"

text \<open>A loop \<open>for _ in 0..n\<close> that pushes what it reads.\<close>

fun readN :: "nat \<Rightarrow> 'a reader \<Rightarrow> 'a list reader" where
  "readN 0 p = liftR (Done [])"
| "readN (Suc n) p = bindR p (\<lambda>x. bindR (readN n p) (\<lambda>xs. liftR (Done (x # xs))))"

section \<open>What a reader takes from an encoding\<close>

definition reads :: "'a reader \<Rightarrow> u8 list \<Rightarrow> 'a \<Rightarrow> bool" where
  "reads p bs x \<longleftrightarrow> (\<forall>pre post. length pre + length bs + length post \<le> usize_max \<longrightarrow>
     p (pre @ bs @ post) (length pre) = Done (x, length pre + length bs))"

lemma readsI:
  "(\<And>pre post. length pre + length bs + length post \<le> usize_max \<Longrightarrow> p (pre @ bs @ post) (length pre) = Done (x, length pre + length bs)) \<Longrightarrow>
   reads p bs x"
  by (simp add: reads_def)

lemma readsD:
  "reads p bs x \<Longrightarrow> length pre + length bs + length post \<le> usize_max \<Longrightarrow> p (pre @ bs @ post) (length pre) = Done (x, length pre + length bs)"
  by (simp add: reads_def)

lemma reads_whole: "reads p bs x \<Longrightarrow> length bs \<le> usize_max \<Longrightarrow> p bs 0 = Done (x, length bs)"
  using readsD [of p bs x "[]" "[]"] by simp

lemma reads_bind:
  assumes p: "reads p bs x" and q: "reads (q x) cs y"
  shows "reads (bindR p q) (bs @ cs) y"
proof (rule readsI)
  fix pre post :: "u8 list" assume len: "length pre + length (bs @ cs) + length post \<le> usize_max"
  show "bindR p q (pre @ (bs @ cs) @ post) (length pre) = Done (y, length pre + length (bs @ cs))"
    using readsD [OF p, of pre "cs @ post"] readsD [OF q, of "pre @ bs" post] len by (simp add: bindR_def add.assoc)
qed

lemma reads_pure: "reads (liftR (Done x)) [] x"
  by (simp add: reads_def liftR_def)

lemma reads_lift: "r = Done x \<Longrightarrow> reads (q x) bs y \<Longrightarrow> reads (bindR (liftR r) q) bs y"
  using reads_bind [where p = "liftR (Done x)" and bs = "[]" and q = q and x = x and cs = bs and y = y] reads_pure [of x] by simp

lemma reads_then: "reads p bs x \<Longrightarrow> reads (bindR p (\<lambda>x. liftR (Done (f x)))) bs (f x)"
  using reads_bind [where p = p and bs = bs and q = "\<lambda>x. liftR (Done (f x))" and x = x and cs = "[]"] reads_pure [of "f x"] by simp

lemma reads_then_eq: "reads p bs x \<Longrightarrow> f x = y \<Longrightarrow> reads (bindR p (\<lambda>x. liftR (Done (f x)))) bs y"
  using reads_then [of p bs x f] by simp

lemma reads_Suc: "reads p bs x \<Longrightarrow> reads (readN n p) cs xs \<Longrightarrow> reads (readN (Suc n) p) (bs @ cs) (x # xs)"
  unfolding readN.simps by (rule reads_bind, assumption, rule reads_then)

lemma readN_reads: "list_all (\<lambda>x. reads p (enc x) (f x)) xs \<Longrightarrow> reads (readN (length xs) p) (concat (map enc xs)) (map f xs)"
proof (induction xs)
  case (Cons x xs)
  then show ?case using reads_Suc [of p "enc x" "f x"] by simp
qed (simp add: reads_pure)

lemma reads_varint: "reads decode_varint (encode_varint v []) v"
  by (simp add: reads_def varint_at)

lemma reads_u8: "reads read_u8 [b] b"
  by (simp add: reads_def read_u8_at)

lemma reads_exact: "n = length bs \<Longrightarrow> reads (\<lambda>data pos. read_exact data pos n) bs bs"
  by (simp add: reads_def read_exact_at)

section \<open>Strings\<close>

text \<open>What the type \<open>String\<close> guarantees of its bytes.\<close>

definition str_ok :: "str \<Rightarrow> bool" where
  "str_ok s \<longleftrightarrow> utf8_valid (map unat s) \<and> length s \<le> usize_max"

lemma unat_of_usize: "n \<le> usize_max \<Longrightarrow> unat (of_nat n :: u64) = n"
  by (simp add: usize_max_def unat_of_nat)

lemma reads_str:
  assumes "str_ok s"
  shows "reads decode_inline_str (encode_varint (of_nat (length s)) [] @ s) s"
proof -
  have "reads (\<lambda>data pos. read_exact data pos (unat (of_nat (length s) :: u64))) s s"
    using assms by (intro reads_exact) (simp add: str_ok_def unat_of_usize)
  moreover have "reads (liftR (case from_utf8 s of Some s \<Rightarrow> Done s | None \<Rightarrow> Fail (InvalidOp ''invalid UTF-8''))) [] s"
    using assms reads_pure [of s] by (simp add: from_utf8_def str_ok_def)
  ultimately show ?thesis
    unfolding decode_inline_str_def by (intro reads_bind [OF reads_varint] reads_bind [where bs = s and cs = "[]", simplified])
qed

end
