(* ===== verification/CommitOps.thy ===== *)
theory CommitOps
  imports CommitDict CommitReaders
begin

text \<open>
  The op stream of a commit: \<open>encode_op\<close> of \<open>commit/codec/op_codec.rs\<close> writes a flake, and
  \<open>decode_raw_op\<close> of \<open>commit/codec/raw_reader.rs\<close> reads one back over the dictionaries of the commit.

  A temporal or arbitrary-precision number carries the text its \<open>Display\<close> writes, and a geo point
  the two coordinates its accessors give; turning the text of a raw op back into such a value
  (\<open>TryFrom<RawObject>\<close>) is not modelled.
\<close>

section \<open>Flakes\<close>

record Sid =
  sid_namespace_code :: u16
  sid_name :: str

datatype FlakeValue =
    is_FV_Ref: FV_Ref Sid | FV_Long u64 | FV_Double u64 | FV_String str | FV_Boolean bool | FV_DateTime str | FV_Date str | FV_Time str
  | FV_BigInt str | FV_Decimal str | FV_Json str | FV_Null | FV_GYear str | FV_GYearMonth str | FV_GMonth str | FV_GDay str
  | FV_GMonthDay str | FV_YearMonthDuration str | FV_DayTimeDuration str | FV_Duration str | FV_GeoPoint u64 u64
  | FV_Vector "u64 list"

record FlakeMeta =
  fm_lang :: "str option"
  fm_i :: "u32 option"

record Flake =
  fl_g :: "Sid option"
  fl_s :: Sid
  fl_p :: Sid
  fl_o :: FlakeValue
  fl_dt :: Sid
  fl_t :: u64
  fl_op :: bool
  fl_m :: "FlakeMeta option"

datatype OTag =
    Tag_Ref | Tag_Long | Tag_Double | Tag_String | Tag_Boolean | Tag_DateTime | Tag_Date | Tag_Time | Tag_BigInt | Tag_Decimal
  | Tag_Json | Tag_Null | Tag_GYear | Tag_GYearMonth | Tag_GMonth | Tag_GDay | Tag_GMonthDay | Tag_YearMonthDuration
  | Tag_DayTimeDuration | Tag_Duration | Tag_GeoPoint | Tag_Vector

definition otags :: "OTag list" where
  "otags = [Tag_Ref, Tag_Long, Tag_Double, Tag_String, Tag_Boolean, Tag_DateTime, Tag_Date, Tag_Time, Tag_BigInt, Tag_Decimal,
     Tag_Json, Tag_Null, Tag_GYear, Tag_GYearMonth, Tag_GMonth, Tag_GDay, Tag_GMonthDay, Tag_YearMonthDuration,
     Tag_DayTimeDuration, Tag_Duration, Tag_GeoPoint, Tag_Vector]"

text \<open>The discriminants are the positions in this list: \<open>tag as u8\<close> and \<open>OTag::from_u8\<close>.\<close>

fun otag_u8 :: "OTag \<Rightarrow> u8" where
  "otag_u8 Tag_Ref = 0" | "otag_u8 Tag_Long = 1" | "otag_u8 Tag_Double = 2" | "otag_u8 Tag_String = 3"
| "otag_u8 Tag_Boolean = 4" | "otag_u8 Tag_DateTime = 5" | "otag_u8 Tag_Date = 6" | "otag_u8 Tag_Time = 7"
| "otag_u8 Tag_BigInt = 8" | "otag_u8 Tag_Decimal = 9" | "otag_u8 Tag_Json = 10" | "otag_u8 Tag_Null = 11"
| "otag_u8 Tag_GYear = 12" | "otag_u8 Tag_GYearMonth = 13" | "otag_u8 Tag_GMonth = 14" | "otag_u8 Tag_GDay = 15"
| "otag_u8 Tag_GMonthDay = 16" | "otag_u8 Tag_YearMonthDuration = 17" | "otag_u8 Tag_DayTimeDuration = 18"
| "otag_u8 Tag_Duration = 19" | "otag_u8 Tag_GeoPoint = 20" | "otag_u8 Tag_Vector = 21"

definition OTag_from_u8 :: "u8 \<Rightarrow> OTag parse" where
  "OTag_from_u8 b = (if unat b < length otags then Done (otags ! unat b) else Fail (InvalidOpTag b))"

definition OP_FLAG_ASSERT :: u8 where
  "OP_FLAG_ASSERT = 1"

definition OP_FLAG_HAS_LANG :: u8 where
  "OP_FLAG_HAS_LANG = 2"

definition OP_FLAG_HAS_I :: u8 where
  "OP_FLAG_HAS_I = 4"

section \<open>Encoding\<close>

record CommitDicts =
  cd_graph :: StringDictBuilder
  cd_subject :: StringDictBuilder
  cd_predicate :: StringDictBuilder
  cd_datatype :: StringDictBuilder
  cd_object_ref :: StringDictBuilder

definition CommitDicts_new :: CommitDicts where
  "CommitDicts_new =
     \<lparr>cd_graph = StringDictBuilder_new, cd_subject = StringDictBuilder_new, cd_predicate = StringDictBuilder_new,
      cd_datatype = StringDictBuilder_new, cd_object_ref = StringDictBuilder_new\<rparr>"

definition encode_len_prefixed_str :: "str \<Rightarrow> u8 list \<Rightarrow> u8 list" where
  "encode_len_prefixed_str s buf = encode_varint (of_nat (length s)) buf @ s"

text \<open>A one-byte placeholder, the text, and the length filled in: in place, or spliced when it takes more bytes.\<close>

definition encode_len_prefixed_display :: "str \<Rightarrow> u8 list \<Rightarrow> u8 list" where
  "encode_len_prefixed_display text_of_value buf =
     (let len_pos = length buf; buf = buf @ [0]; data_start = length buf; buf = buf @ text_of_value;
          data_len = length buf - data_start
      in if data_len < 128 then buf[len_pos := of_nat data_len]
         else take len_pos buf @ encode_varint (of_nat data_len) [] @ drop (len_pos + 1) buf)"

definition encode_sid :: "Sid \<Rightarrow> StringDictBuilder \<Rightarrow> u8 list \<Rightarrow> StringDictBuilder \<times> u8 list" where
  "encode_sid sid d buf =
     (let buf = encode_varint (ucast (sid_namespace_code sid)) buf; (d, i) = dict_insert d (sid_name sid)
      in (d, encode_varint (ucast i) buf))"

primrec encode_object :: "FlakeValue \<Rightarrow> CommitDicts \<Rightarrow> u8 list \<Rightarrow> CommitDicts \<times> u8 list" where
  "encode_object (FV_Ref sid) dicts buf =
     (let (d, buf) = encode_sid sid (cd_object_ref dicts) (buf @ [otag_u8 Tag_Ref]) in (dicts\<lparr>cd_object_ref := d\<rparr>, buf))"
| "encode_object (FV_Long n) dicts buf = (dicts, encode_varint (zigzag_encode n) (buf @ [otag_u8 Tag_Long]))"
| "encode_object (FV_Double x) dicts buf = (dicts, buf @ [otag_u8 Tag_Double] @ to_le_bytes 8 x)"
| "encode_object (FV_String s) dicts buf = (dicts, encode_len_prefixed_str s (buf @ [otag_u8 Tag_String]))"
| "encode_object (FV_Boolean b) dicts buf = (dicts, buf @ [otag_u8 Tag_Boolean] @ [of_bool b])"
| "encode_object (FV_DateTime s) dicts buf = (dicts, encode_len_prefixed_display s (buf @ [otag_u8 Tag_DateTime]))"
| "encode_object (FV_Date s) dicts buf = (dicts, encode_len_prefixed_display s (buf @ [otag_u8 Tag_Date]))"
| "encode_object (FV_Time s) dicts buf = (dicts, encode_len_prefixed_display s (buf @ [otag_u8 Tag_Time]))"
| "encode_object (FV_BigInt s) dicts buf = (dicts, encode_len_prefixed_display s (buf @ [otag_u8 Tag_BigInt]))"
| "encode_object (FV_Decimal s) dicts buf = (dicts, encode_len_prefixed_display s (buf @ [otag_u8 Tag_Decimal]))"
| "encode_object (FV_Json s) dicts buf = (dicts, encode_len_prefixed_str s (buf @ [otag_u8 Tag_Json]))"
| "encode_object FV_Null dicts buf = (dicts, buf @ [otag_u8 Tag_Null])"
| "encode_object (FV_GYear s) dicts buf = (dicts, encode_len_prefixed_display s (buf @ [otag_u8 Tag_GYear]))"
| "encode_object (FV_GYearMonth s) dicts buf = (dicts, encode_len_prefixed_display s (buf @ [otag_u8 Tag_GYearMonth]))"
| "encode_object (FV_GMonth s) dicts buf = (dicts, encode_len_prefixed_display s (buf @ [otag_u8 Tag_GMonth]))"
| "encode_object (FV_GDay s) dicts buf = (dicts, encode_len_prefixed_display s (buf @ [otag_u8 Tag_GDay]))"
| "encode_object (FV_GMonthDay s) dicts buf = (dicts, encode_len_prefixed_display s (buf @ [otag_u8 Tag_GMonthDay]))"
| "encode_object (FV_YearMonthDuration s) dicts buf =
     (dicts, encode_len_prefixed_display s (buf @ [otag_u8 Tag_YearMonthDuration]))"
| "encode_object (FV_DayTimeDuration s) dicts buf = (dicts, encode_len_prefixed_display s (buf @ [otag_u8 Tag_DayTimeDuration]))"
| "encode_object (FV_Duration s) dicts buf = (dicts, encode_len_prefixed_display s (buf @ [otag_u8 Tag_Duration]))"
| "encode_object (FV_GeoPoint lat lng) dicts buf =
     (dicts, buf @ [otag_u8 Tag_GeoPoint] @ to_le_bytes 8 lat @ to_le_bytes 8 lng)"
| "encode_object (FV_Vector v) dicts buf =
     (dicts, fold (\<lambda>x buf. buf @ to_le_bytes 8 x) v (encode_varint (of_nat (length v)) (buf @ [otag_u8 Tag_Vector])))"

definition encode_op :: "Flake \<Rightarrow> CommitDicts \<Rightarrow> u8 list \<Rightarrow> (CommitDicts \<times> u8 list) parse" where
  "encode_op flake dicts buf =
     (let (g, buf) = (case fl_g flake of
            Some sid \<Rightarrow> encode_sid sid (cd_graph dicts) buf
          | None \<Rightarrow> (cd_graph dicts, encode_varint 0 (encode_varint 0 buf)));
          (s, buf) = encode_sid (fl_s flake) (cd_subject dicts) buf;
          (p, buf) = encode_sid (fl_p flake) (cd_predicate dicts) buf;
          (dt, buf) = encode_sid (fl_dt flake) (cd_datatype dicts) buf;
          (dicts, buf) = encode_object (fl_o flake)
            (dicts\<lparr>cd_graph := g, cd_subject := s, cd_predicate := p, cd_datatype := dt\<rparr>) buf;
          lang = Option.bind (fl_m flake) fm_lang; i = Option.bind (fl_m flake) fm_i;
          flags = (if fl_op flake then OP_FLAG_ASSERT else 0);
          flags = (if lang \<noteq> None then flags OR OP_FLAG_HAS_LANG else flags);
          flags = (if i \<noteq> None then flags OR OP_FLAG_HAS_I else flags);
          buf = buf @ [flags];
          buf = (case lang of Some l \<Rightarrow> encode_varint (of_nat (length l)) buf @ l | None \<Rightarrow> buf)
      in case i of
           Some n \<Rightarrow> if sint n < 0 then Fail (NegativeListIndex n) else Done (dicts, encode_varint (scast n) buf)
         | None \<Rightarrow> Done (dicts, buf))"

fun encode_ops :: "Flake list \<Rightarrow> CommitDicts \<Rightarrow> u8 list \<Rightarrow> (CommitDicts \<times> u8 list) parse" where
  "encode_ops [] dicts buf = Done (dicts, buf)"
| "encode_ops (f # fs) dicts buf = bind_parse (encode_op f dicts buf) (\<lambda>(dicts, buf). encode_ops fs dicts buf)"

section \<open>Decoding\<close>

record ReadDicts =
  rd_graph :: StringDict
  rd_subject :: StringDict
  rd_predicate :: StringDict
  rd_datatype :: StringDict
  rd_object_ref :: StringDict

datatype RawObject =
    Raw_Ref u16 str | Raw_Long u64 | Raw_Double u64 | Raw_Str str | Raw_Boolean bool | Raw_DateTimeStr str | Raw_DateStr str
  | Raw_TimeStr str | Raw_BigIntStr str | Raw_DecimalStr str | Raw_JsonStr str | Raw_Null | Raw_GYearStr str
  | Raw_GYearMonthStr str | Raw_GMonthStr str | Raw_GDayStr str | Raw_GMonthDayStr str | Raw_YearMonthDurationStr str
  | Raw_DayTimeDurationStr str | Raw_DurationStr str | Raw_GeoPoint u64 u64 | Raw_Vector "u64 list"

record RawOp =
  ro_g_ns_code :: u16
  ro_g_name :: str
  ro_s_ns_code :: u16
  ro_s_name :: str
  ro_p_ns_code :: u16
  ro_p_name :: str
  ro_dt_ns_code :: u16
  ro_dt_name :: str
  ro_o :: RawObject
  ro_op :: bool
  ro_lang :: "str option"
  ro_i :: "u32 option"

definition read_f64 :: "u64 reader" where
  "read_f64 = bindR (\<lambda>data pos. read_exact data pos 8) (\<lambda>bs. liftR (Done (from_le_bytes bs)))"

fun le_elements :: "nat \<Rightarrow> u8 list \<Rightarrow> u64 list" where
  "le_elements 0 bs = []"
| "le_elements (Suc n) bs = from_le_bytes (take 8 bs) # le_elements n (drop 8 bs)"

definition decode_text :: "(str \<Rightarrow> RawObject) \<Rightarrow> RawObject reader" where
  "decode_text c = bindR decode_inline_str (\<lambda>s. liftR (Done (c s)))"

definition decode_sid :: "StringDict \<Rightarrow> (u16 \<times> str) reader" where
  "decode_sid d =
     bindR decode_varint (\<lambda>ns_code.
     bindR decode_varint (\<lambda>name_id.
     bindR (liftR (dict_get d (ucast name_id))) (\<lambda>name.
     liftR (Done (ucast ns_code, name)))))"

primrec decode_raw_object :: "OTag \<Rightarrow> ReadDicts \<Rightarrow> RawObject reader" where
  "decode_raw_object Tag_Ref dicts = bindR (decode_sid (rd_object_ref dicts)) (\<lambda>(ns, name). liftR (Done (Raw_Ref ns name)))"
| "decode_raw_object Tag_Long dicts = bindR decode_varint (\<lambda>raw. liftR (Done (Raw_Long (zigzag_decode raw))))"
| "decode_raw_object Tag_Double dicts = bindR read_f64 (\<lambda>x. liftR (Done (Raw_Double x)))"
| "decode_raw_object Tag_String dicts = decode_text Raw_Str"
| "decode_raw_object Tag_Boolean dicts = bindR read_u8 (\<lambda>b. liftR (Done (Raw_Boolean (b \<noteq> 0))))"
| "decode_raw_object Tag_DateTime dicts = decode_text Raw_DateTimeStr"
| "decode_raw_object Tag_Date dicts = decode_text Raw_DateStr"
| "decode_raw_object Tag_Time dicts = decode_text Raw_TimeStr"
| "decode_raw_object Tag_BigInt dicts = decode_text Raw_BigIntStr"
| "decode_raw_object Tag_Decimal dicts = decode_text Raw_DecimalStr"
| "decode_raw_object Tag_Json dicts = decode_text Raw_JsonStr"
| "decode_raw_object Tag_Null dicts = liftR (Done Raw_Null)"
| "decode_raw_object Tag_GYear dicts = decode_text Raw_GYearStr"
| "decode_raw_object Tag_GYearMonth dicts = decode_text Raw_GYearMonthStr"
| "decode_raw_object Tag_GMonth dicts = decode_text Raw_GMonthStr"
| "decode_raw_object Tag_GDay dicts = decode_text Raw_GDayStr"
| "decode_raw_object Tag_GMonthDay dicts = decode_text Raw_GMonthDayStr"
| "decode_raw_object Tag_YearMonthDuration dicts = decode_text Raw_YearMonthDurationStr"
| "decode_raw_object Tag_DayTimeDuration dicts = decode_text Raw_DayTimeDurationStr"
| "decode_raw_object Tag_Duration dicts = decode_text Raw_DurationStr"
| "decode_raw_object Tag_GeoPoint dicts =
     bindR (\<lambda>data pos. read_exact data pos 16) (\<lambda>bs.
     liftR (Done (Raw_GeoPoint (from_le_bytes (take 8 bs)) (from_le_bytes (drop 8 bs)))))"
| "decode_raw_object Tag_Vector dicts =
     bindR decode_varint (\<lambda>len.
       if unat len * 8 > usize_max then liftR (Fail UnexpectedEof)
       else bindR (\<lambda>data pos. read_exact data pos (unat len * 8)) (\<lambda>bs. liftR (Done (Raw_Vector (le_elements (unat len) bs)))))"

definition decode_raw_op :: "ReadDicts \<Rightarrow> RawOp reader" where
  "decode_raw_op dicts =
     bindR decode_varint (\<lambda>g_ns_code.
     bindR decode_varint (\<lambda>g_name_id.
     bindR (liftR (if (ucast g_name_id :: u32) = 0 then Done [] else dict_get (rd_graph dicts) (ucast g_name_id))) (\<lambda>g_name.
     bindR (decode_sid (rd_subject dicts)) (\<lambda>(s_ns_code, s_name).
     bindR (decode_sid (rd_predicate dicts)) (\<lambda>(p_ns_code, p_name).
     bindR (decode_sid (rd_datatype dicts)) (\<lambda>(dt_ns_code, dt_name).
     bindR read_u8 (\<lambda>b.
     bindR (liftR (OTag_from_u8 b)) (\<lambda>o_tag.
     bindR (decode_raw_object o_tag dicts) (\<lambda>obj.
     bindR read_u8 (\<lambda>flags.
     bindR (if flags AND OP_FLAG_HAS_LANG \<noteq> 0 then bindR decode_inline_str (\<lambda>s. liftR (Done (Some s))) else liftR (Done None)) (\<lambda>lang.
     bindR (if flags AND OP_FLAG_HAS_I \<noteq> 0
            then bindR decode_varint (\<lambda>raw.
              if raw > 0x7FFFFFFF then liftR (Fail (InvalidOp ''list index exceeds i32::MAX'')) else liftR (Done (Some (ucast raw))))
            else liftR (Done None)) (\<lambda>i.
     liftR (Done \<lparr>ro_g_ns_code = ucast g_ns_code, ro_g_name = g_name, ro_s_ns_code = s_ns_code, ro_s_name = s_name,
       ro_p_ns_code = p_ns_code, ro_p_name = p_name, ro_dt_ns_code = dt_ns_code, ro_dt_name = dt_name, ro_o = obj,
       ro_op = (flags AND OP_FLAG_ASSERT \<noteq> 0), ro_lang = lang, ro_i = i\<rparr>)))))))))))))"

text \<open>The loop of \<open>for_each_op\<close>, collecting what it hands to the callback.\<close>

definition decode_ops :: "nat \<Rightarrow> ReadDicts \<Rightarrow> RawOp list reader" where
  "decode_ops n dicts = readN n (decode_raw_op dicts)"

end
