(* ===== verification/CommitRoundTrip.thy ===== *)
theory CommitRoundTrip
  imports CommitOps "HOL-Library.Sublist"
begin

text \<open>
  What the raw reader gives back of the flakes a commit was written from: the op stream and the five
  dictionaries that \<open>encode_op\<close> produces decode, op by op, to the raw form of each flake.
\<close>

section \<open>Raw form\<close>

primrec raw_object :: "FlakeValue \<Rightarrow> RawObject" where
  "raw_object (FV_Ref sid) = Raw_Ref (sid_namespace_code sid) (sid_name sid)"
| "raw_object (FV_Long n) = Raw_Long n"
| "raw_object (FV_Double x) = Raw_Double x"
| "raw_object (FV_String s) = Raw_Str s"
| "raw_object (FV_Boolean b) = Raw_Boolean b"
| "raw_object (FV_DateTime s) = Raw_DateTimeStr s"
| "raw_object (FV_Date s) = Raw_DateStr s"
| "raw_object (FV_Time s) = Raw_TimeStr s"
| "raw_object (FV_BigInt s) = Raw_BigIntStr s"
| "raw_object (FV_Decimal s) = Raw_DecimalStr s"
| "raw_object (FV_Json s) = Raw_JsonStr s"
| "raw_object FV_Null = Raw_Null"
| "raw_object (FV_GYear s) = Raw_GYearStr s"
| "raw_object (FV_GYearMonth s) = Raw_GYearMonthStr s"
| "raw_object (FV_GMonth s) = Raw_GMonthStr s"
| "raw_object (FV_GDay s) = Raw_GDayStr s"
| "raw_object (FV_GMonthDay s) = Raw_GMonthDayStr s"
| "raw_object (FV_YearMonthDuration s) = Raw_YearMonthDurationStr s"
| "raw_object (FV_DayTimeDuration s) = Raw_DayTimeDurationStr s"
| "raw_object (FV_Duration s) = Raw_DurationStr s"
| "raw_object (FV_GeoPoint lat lng) = Raw_GeoPoint lat lng"
| "raw_object (FV_Vector v) = Raw_Vector v"

definition raw_op :: "Flake \<Rightarrow> RawOp" where
  "raw_op f =
     \<lparr>ro_g_ns_code = (case fl_g f of Some sid \<Rightarrow> sid_namespace_code sid | None \<Rightarrow> 0),
      ro_g_name = (case fl_g f of Some sid \<Rightarrow> sid_name sid | None \<Rightarrow> []),
      ro_s_ns_code = sid_namespace_code (fl_s f), ro_s_name = sid_name (fl_s f),
      ro_p_ns_code = sid_namespace_code (fl_p f), ro_p_name = sid_name (fl_p f),
      ro_dt_ns_code = sid_namespace_code (fl_dt f), ro_dt_name = sid_name (fl_dt f),
      ro_o = raw_object (fl_o f), ro_op = fl_op f,
      ro_lang = Option.bind (fl_m f) fm_lang, ro_i = Option.bind (fl_m f) fm_i\<rparr>"

text \<open>What the Rust types guarantee of a flake: strings are UTF-8, and a vector fits in memory.\<close>

primrec value_ok :: "FlakeValue \<Rightarrow> bool" where
  "value_ok (FV_Ref sid) \<longleftrightarrow> str_ok (sid_name sid)"
| "value_ok (FV_Long n) \<longleftrightarrow> True"
| "value_ok (FV_Double x) \<longleftrightarrow> True"
| "value_ok (FV_String s) \<longleftrightarrow> str_ok s"
| "value_ok (FV_Boolean b) \<longleftrightarrow> True"
| "value_ok (FV_DateTime s) \<longleftrightarrow> str_ok s"
| "value_ok (FV_Date s) \<longleftrightarrow> str_ok s"
| "value_ok (FV_Time s) \<longleftrightarrow> str_ok s"
| "value_ok (FV_BigInt s) \<longleftrightarrow> str_ok s"
| "value_ok (FV_Decimal s) \<longleftrightarrow> str_ok s"
| "value_ok (FV_Json s) \<longleftrightarrow> str_ok s"
| "value_ok FV_Null \<longleftrightarrow> True"
| "value_ok (FV_GYear s) \<longleftrightarrow> str_ok s"
| "value_ok (FV_GYearMonth s) \<longleftrightarrow> str_ok s"
| "value_ok (FV_GMonth s) \<longleftrightarrow> str_ok s"
| "value_ok (FV_GDay s) \<longleftrightarrow> str_ok s"
| "value_ok (FV_GMonthDay s) \<longleftrightarrow> str_ok s"
| "value_ok (FV_YearMonthDuration s) \<longleftrightarrow> str_ok s"
| "value_ok (FV_DayTimeDuration s) \<longleftrightarrow> str_ok s"
| "value_ok (FV_Duration s) \<longleftrightarrow> str_ok s"
| "value_ok (FV_GeoPoint lat lng) \<longleftrightarrow> True"
| "value_ok (FV_Vector v) \<longleftrightarrow> length v * 8 \<le> usize_max"

definition flake_ok :: "Flake \<Rightarrow> bool" where
  "flake_ok f \<longleftrightarrow> pred_option (str_ok \<circ> sid_name) (fl_g f) \<and> str_ok (sid_name (fl_s f)) \<and> str_ok (sid_name (fl_p f)) \<and>
     str_ok (sid_name (fl_dt f)) \<and> value_ok (fl_o f) \<and> pred_option str_ok (Option.bind (fl_m f) fm_lang)"

section \<open>Growing dictionaries\<close>

definition grows :: "nat \<Rightarrow> StringDictBuilder \<Rightarrow> StringDictBuilder \<Rightarrow> bool" where
  "grows n d d' \<longleftrightarrow> dict_ok d' \<and> length (db_entries d') \<le> n \<and> prefix (db_entries d) (db_entries d')"

lemma encode_sid_grows:
  assumes "dict_ok d" "length (db_entries d) \<le> n" "n + 1 < 2 ^ 32" "str_ok (sid_name sid)"
  obtains d' i where "encode_sid sid d buf = (d', buf @ encode_varint (ucast (sid_namespace_code sid)) [] @ encode_varint (ucast i) [])"
    "grows (n + 1) d d'" "\<And>D. prefix (db_entries d') D \<Longrightarrow> dict_get D i = Done (sid_name sid)"
proof -
  obtain d' i where ins: "dict_insert d (sid_name sid) = (d', i)" by (cases "dict_insert d (sid_name sid)")
  have room: "length (db_entries d) + 1 < 2 ^ 32" using assms(2,3) by simp
  have u: "utf8_valid (map unat (sid_name sid))" using assms(4) by (simp add: str_ok_def)
  note ok = dict_insert_ok [OF assms(1) room u, unfolded ins fst_conv snd_conv]
  have "length (db_entries d') \<le> length (db_entries d) + 1"
    using ins by (auto simp: dict_insert_def Let_def split: option.splits)
  then have "grows (n + 1) d d'" using ok(1,2) assms(2) by (auto simp: grows_def)
  moreover have "dict_get D i = Done (sid_name sid)" if "prefix (db_entries d') D" for D
    using dict_get_prefix [OF ok(3)] that by (auto simp: prefix_def)
  moreover have "encode_sid sid d buf = (d', buf @ encode_varint (ucast (sid_namespace_code sid)) [] @ encode_varint (ucast i) [])"
    using encode_varint_append [of "ucast (sid_namespace_code sid)" buf]
      encode_varint_append [of "ucast i" "encode_varint (ucast (sid_namespace_code sid)) buf"] ins
    by (simp add: encode_sid_def Let_def)
  ultimately show thesis using that by blast
qed

lemma ucast_back: "LENGTH('a::len) \<le> LENGTH('b::len) \<Longrightarrow> (ucast (ucast (w :: 'a word) :: 'b word) :: 'a word) = w"
  by (rule bit_word_eqI) (simp add: bit_ucast_iff)

lemma reads_sid:
  assumes "dict_get D i = Done name"
  shows "reads (decode_sid D) (encode_varint (ucast (ns :: u16)) [] @ encode_varint (ucast i) []) (ns, name)"
  unfolding decode_sid_def
  by (rule reads_bind [OF reads_varint], rule reads_bind [where cs = "[]", OF reads_varint, simplified], rule reads_lift)
     (use assms reads_pure [of "(ns, name)"] in \<open>simp_all add: ucast_back\<close>)

section \<open>Objects\<close>

text \<open>The length that is filled in afterwards is the one that would have been written first.\<close>

lemma encode_varint_small: "n < 128 \<Longrightarrow> encode_varint (of_nat n) [] = [of_nat n]"
proof -
  assume n: "n < 128"
  have "unat (of_nat n :: u64) = n" using n by (simp add: unat_of_nat)
  then have "drop_bit 7 (of_nat n :: u64) = 0" using n by (simp add: word_unat_eq_iff drop_bit_eq_div unat_div)
  moreover have "ucast ((of_nat n :: u64) AND 0x7F) = (of_nat n :: u8)"
  proof -
    have "(0x7F :: u64) = mask 7" by (simp add: mask_eq_exp_minus_1)
    then have "(of_nat n :: u64) AND 0x7F = take_bit 7 (of_nat n)" by (simp only: take_bit_eq_mask)
    also have "\<dots> = of_nat n" using n by (simp add: take_bit_of_nat take_bit_nat_eq_self)
    finally have "(of_nat n :: u64) AND 0x7F = of_nat n" .
    then show ?thesis using n by (simp add: word_unat_eq_iff unat_of_nat unsigned_ucast_eq take_bit_nat_eq_self)
  qed
  ultimately show ?thesis by (simp add: encode_varint.simps [of "of_nat n"])
qed

lemma encode_len_prefixed: "encode_len_prefixed_str s buf = buf @ entry_bytes s"
  using encode_varint_append [of "of_nat (length s)" buf] by (simp add: encode_len_prefixed_str_def)

lemma encode_display: "encode_len_prefixed_display s buf = encode_len_prefixed_str s buf"
  by (simp add: encode_len_prefixed encode_len_prefixed_display_def Let_def encode_varint_small list_update_append)

lemma reads_text: "str_ok s \<Longrightarrow> reads (decode_text c) (entry_bytes s) (c s)"
  unfolding decode_text_def by (intro reads_then reads_str)

lemma length_to_le_bytes [simp]: "length (to_le_bytes n w) = n"
  by (simp add: to_le_bytes_def)

lemma le_bytes_64: "from_le_bytes (to_le_bytes 8 w) = (w :: u64)"
  by (rule le_bytes_round_trip) simp

lemma le_elements_concat: "le_elements (length v) (concat (map (to_le_bytes 8) v)) = v"
  by (induction v) (simp_all add: le_bytes_64)

lemma fold_le_bytes: "fold (\<lambda>x buf. buf @ to_le_bytes 8 (x :: u64)) v buf = buf @ concat (map (to_le_bytes 8) v)"
  by (induction v arbitrary: buf) simp_all

lemma reads_vector:
  assumes "length v * 8 \<le> usize_max"
  shows "reads (decode_raw_object Tag_Vector R) (encode_varint (of_nat (length v)) [] @ concat (map (to_le_bytes 8) v)) (Raw_Vector v)"
proof -
  let ?bs = "concat (map (to_le_bytes 8) v)"
  have n: "unat (of_nat (length v) :: u64) = length v" using assms by (simp add: unat_of_usize)
  have "length ?bs = length v * 8" by (induction v) simp_all
  then have "reads (\<lambda>data pos. read_exact data pos (length v * 8)) ?bs ?bs" by (intro reads_exact) simp
  from reads_then [OF this, of "\<lambda>bs. Raw_Vector (le_elements (length v) bs)"]
  show ?thesis using assms by (simp add: n le_elements_concat reads_bind [OF reads_varint])
qed

lemma reads_f64: "reads read_f64 (to_le_bytes 8 x) x"
proof -
  have "reads (\<lambda>data pos. read_exact data pos 8) (to_le_bytes 8 x) (to_le_bytes 8 x)" by (rule reads_exact) simp
  from reads_then [OF this, of "from_le_bytes :: _ \<Rightarrow> u64"] show ?thesis by (simp add: read_f64_def le_bytes_64)
qed

lemma reads_geo: "reads (decode_raw_object Tag_GeoPoint R) (to_le_bytes 8 lat @ to_le_bytes 8 lng) (Raw_GeoPoint lat lng)"
proof -
  let ?bs = "to_le_bytes 8 lat @ to_le_bytes 8 lng"
  have "reads (\<lambda>data pos. read_exact data pos 16) ?bs ?bs" by (rule reads_exact) simp
  from reads_then [OF this, of "\<lambda>bs. Raw_GeoPoint (from_le_bytes (take 8 bs)) (from_le_bytes (drop 8 bs))"]
  show ?thesis by (simp add: le_bytes_64)
qed

primrec value_tag :: "FlakeValue \<Rightarrow> OTag" where
  "value_tag (FV_Ref sid) = Tag_Ref"
| "value_tag (FV_Long n) = Tag_Long"
| "value_tag (FV_Double x) = Tag_Double"
| "value_tag (FV_String s) = Tag_String"
| "value_tag (FV_Boolean b) = Tag_Boolean"
| "value_tag (FV_DateTime s) = Tag_DateTime"
| "value_tag (FV_Date s) = Tag_Date"
| "value_tag (FV_Time s) = Tag_Time"
| "value_tag (FV_BigInt s) = Tag_BigInt"
| "value_tag (FV_Decimal s) = Tag_Decimal"
| "value_tag (FV_Json s) = Tag_Json"
| "value_tag FV_Null = Tag_Null"
| "value_tag (FV_GYear s) = Tag_GYear"
| "value_tag (FV_GYearMonth s) = Tag_GYearMonth"
| "value_tag (FV_GMonth s) = Tag_GMonth"
| "value_tag (FV_GDay s) = Tag_GDay"
| "value_tag (FV_GMonthDay s) = Tag_GMonthDay"
| "value_tag (FV_YearMonthDuration s) = Tag_YearMonthDuration"
| "value_tag (FV_DayTimeDuration s) = Tag_DayTimeDuration"
| "value_tag (FV_Duration s) = Tag_Duration"
| "value_tag (FV_GeoPoint lat lng) = Tag_GeoPoint"
| "value_tag (FV_Vector v) = Tag_Vector"

text \<open>The payload of every value that is not a reference stands for itself, whatever the dictionaries are.\<close>

primrec payload :: "FlakeValue \<Rightarrow> u8 list" where
  "payload (FV_Ref sid) = []"
| "payload (FV_Long n) = encode_varint (zigzag_encode n) []"
| "payload (FV_Double x) = to_le_bytes 8 x"
| "payload (FV_String s) = entry_bytes s"
| "payload (FV_Boolean b) = [of_bool b]"
| "payload (FV_DateTime s) = entry_bytes s"
| "payload (FV_Date s) = entry_bytes s"
| "payload (FV_Time s) = entry_bytes s"
| "payload (FV_BigInt s) = entry_bytes s"
| "payload (FV_Decimal s) = entry_bytes s"
| "payload (FV_Json s) = entry_bytes s"
| "payload FV_Null = []"
| "payload (FV_GYear s) = entry_bytes s"
| "payload (FV_GYearMonth s) = entry_bytes s"
| "payload (FV_GMonth s) = entry_bytes s"
| "payload (FV_GDay s) = entry_bytes s"
| "payload (FV_GMonthDay s) = entry_bytes s"
| "payload (FV_YearMonthDuration s) = entry_bytes s"
| "payload (FV_DayTimeDuration s) = entry_bytes s"
| "payload (FV_Duration s) = entry_bytes s"
| "payload (FV_GeoPoint lat lng) = to_le_bytes 8 lat @ to_le_bytes 8 lng"
| "payload (FV_Vector v) = encode_varint (of_nat (length v)) [] @ concat (map (to_le_bytes 8) v)"

lemma encode_payload: "\<not> is_FV_Ref v \<Longrightarrow> encode_object v D buf = (D, buf @ otag_u8 (value_tag v) # payload v)"
  using encode_varint_append [of _ "buf @ [otag_u8 (value_tag v)]"]
  by (cases v) (simp_all add: encode_display encode_len_prefixed fold_le_bytes)

lemma reads_long: "reads (decode_raw_object Tag_Long R) (encode_varint (zigzag_encode n) []) (Raw_Long n)"
  using reads_then [OF reads_varint, of "\<lambda>raw. Raw_Long (zigzag_decode raw)" "zigzag_encode n"] by (simp add: zigzag_round_trip)

lemma reads_payload: "\<not> is_FV_Ref v \<Longrightarrow> value_ok v \<Longrightarrow> reads (decode_raw_object (value_tag v) R) (payload v) (raw_object v)"
  using reads_then [OF reads_f64, of Raw_Double]
    reads_then [OF reads_u8, of "\<lambda>b. Raw_Boolean (b \<noteq> 0)" "of_bool _"]
  by (cases v) (simp_all add: reads_text reads_long reads_vector reads_geo reads_pure
    del: decode_raw_object.simps(2,21,22))

lemma OTag_round_trip: "OTag_from_u8 (otag_u8 tag) = Done tag"
  by (cases tag) (simp_all add: OTag_from_u8_def otags_def)

section \<open>Ops\<close>

definition dicts_grow :: "nat \<Rightarrow> CommitDicts \<Rightarrow> CommitDicts \<Rightarrow> bool" where
  "dicts_grow n D D' \<longleftrightarrow> grows n (cd_graph D) (cd_graph D') \<and> grows n (cd_subject D) (cd_subject D') \<and>
     grows n (cd_predicate D) (cd_predicate D') \<and> grows n (cd_datatype D) (cd_datatype D') \<and> grows n (cd_object_ref D) (cd_object_ref D')"

abbreviation dicts_ok :: "nat \<Rightarrow> CommitDicts \<Rightarrow> bool" where
  "dicts_ok n D \<equiv> dicts_grow n D D"

definition read_dicts :: "CommitDicts \<Rightarrow> ReadDicts" where
  "read_dicts D = \<lparr>rd_graph = db_entries (cd_graph D), rd_subject = db_entries (cd_subject D), rd_predicate = db_entries (cd_predicate D),
     rd_datatype = db_entries (cd_datatype D), rd_object_ref = db_entries (cd_object_ref D)\<rparr>"

definition extends :: "CommitDicts \<Rightarrow> ReadDicts \<Rightarrow> bool" where
  "extends D R \<longleftrightarrow> prefix (db_entries (cd_graph D)) (rd_graph R) \<and> prefix (db_entries (cd_subject D)) (rd_subject R) \<and>
     prefix (db_entries (cd_predicate D)) (rd_predicate R) \<and> prefix (db_entries (cd_datatype D)) (rd_datatype R) \<and>
     prefix (db_entries (cd_object_ref D)) (rd_object_ref R)"

lemma grows_trans: "grows m d d' \<Longrightarrow> grows n d' d'' \<Longrightarrow> grows n d d''"
  by (auto simp: grows_def intro: prefix_order.trans)

lemma grows_refl: "grows m d d' \<Longrightarrow> m \<le> n \<Longrightarrow> grows n d' d'"
  by (simp add: grows_def)

lemma dicts_grow_trans: "dicts_grow m D D' \<Longrightarrow> dicts_grow n D' D'' \<Longrightarrow> dicts_grow n D D''"
  by (auto simp: dicts_grow_def intro: grows_trans)

lemma dicts_grow_ok: "dicts_grow n D D' \<Longrightarrow> dicts_ok n D'"
  by (simp add: dicts_grow_def grows_def)

lemma dicts_ok_new: "dicts_ok n CommitDicts_new"
  by (simp add: dicts_grow_def grows_def CommitDicts_new_def) (simp add: StringDictBuilder_new_def)

lemma extends_mono: "dicts_grow n D D' \<Longrightarrow> extends D' R \<Longrightarrow> extends D R"
  by (auto simp: extends_def dicts_grow_def grows_def intro: prefix_order.trans)

lemma extends_self: "extends D (read_dicts D)"
  by (simp add: extends_def read_dicts_def)

lemma encode_object_reads:
  assumes "dict_ok (cd_object_ref D)" "length (db_entries (cd_object_ref D)) \<le> n" "n + 1 < 2 ^ 32" "value_ok v"
  obtains d' bs where "encode_object v D buf = (D\<lparr>cd_object_ref := d'\<rparr>, buf @ otag_u8 (value_tag v) # bs)"
    "grows (n + 1) (cd_object_ref D) d'"
    "\<And>R. prefix (db_entries d') (rd_object_ref R) \<Longrightarrow> reads (decode_raw_object (value_tag v) R) bs (raw_object v)"
proof (cases "is_FV_Ref v")
  case True
  then obtain sid where v: "v = FV_Ref sid" by (cases v) auto
  then have ok: "str_ok (sid_name sid)" using assms(4) by simp
  obtain d' i where e: "encode_sid sid (cd_object_ref D) (buf @ [otag_u8 Tag_Ref]) =
        (d', (buf @ [otag_u8 Tag_Ref]) @ encode_varint (ucast (sid_namespace_code sid)) [] @ encode_varint (ucast i) [])"
      and g: "grows (n + 1) (cd_object_ref D) d'" and i: "\<And>E. prefix (db_entries d') E \<Longrightarrow> dict_get E i = Done (sid_name sid)"
    by (rule encode_sid_grows [OF assms(1,2,3) ok]) blast
  let ?bs = "encode_varint (ucast (sid_namespace_code sid)) [] @ encode_varint (ucast i) []"
  have "reads (decode_raw_object Tag_Ref R) ?bs (raw_object v)" if "prefix (db_entries d') (rd_object_ref R)" for R
    using reads_then [OF reads_sid [OF i [OF that]], of "\<lambda>(ns, name). Raw_Ref ns name"] by (simp add: v split_def)
  then show thesis using that [of d' ?bs] e g by (simp add: v)
next
  case False
  then have "encode_object v D buf = (D\<lparr>cd_object_ref := cd_object_ref D\<rparr>, buf @ otag_u8 (value_tag v) # payload v)"
    using encode_payload by simp
  moreover have "grows (n + 1) (cd_object_ref D) (cd_object_ref D)" using assms(1,2) by (simp add: grows_def)
  ultimately show thesis using that [of "cd_object_ref D" "payload v"] reads_payload [OF False assms(4)] by blast
qed

definition op_flags :: "bool \<Rightarrow> bool \<Rightarrow> bool \<Rightarrow> u8" where
  "op_flags assert has_lang has_i =
     (let flags = (if assert then OP_FLAG_ASSERT else 0); flags = (if has_lang then flags OR OP_FLAG_HAS_LANG else flags)
      in if has_i then flags OR OP_FLAG_HAS_I else flags)"

lemma op_flags_bits:
  "op_flags a l i AND OP_FLAG_ASSERT \<noteq> 0 \<longleftrightarrow> a" "op_flags a l i AND OP_FLAG_HAS_LANG \<noteq> 0 \<longleftrightarrow> l" "op_flags a l i AND OP_FLAG_HAS_I \<noteq> 0 \<longleftrightarrow> i"
  by (cases a; cases l; cases i; simp add: op_flags_def OP_FLAG_ASSERT_def OP_FLAG_HAS_LANG_def OP_FLAG_HAS_I_def)+

lemma sint_nonneg:
  assumes "\<not> sint (w :: 'a::len word) < 0"
  shows "sint w = uint w"
proof -
  have b: "\<not> bit (uint w) (LENGTH('a) - Suc 0)" using assms by (simp add: sint_uint signed_take_bit_negative_iff)
  have "take_bit (LENGTH('a) - Suc 0) (uint w) = uint w"
  proof (rule bit_eqI)
    fix k
    show "bit (take_bit (LENGTH('a) - Suc 0) (uint w)) k = bit (uint w) k"
      using b by (cases "k = LENGTH('a) - Suc 0") (auto simp: bit_take_bit_iff bit_uint_iff)
  qed
  then show ?thesis using b by (simp add: sint_uint signed_take_bit_eq_if_positive)
qed

lemma list_index:
  assumes "\<not> sint (n :: u32) < 0"
  shows "(scast n :: u64) = ucast n" "\<not> (ucast n :: u64) > 0x7FFFFFFF"
proof -
  have "(scast n :: u64) = of_int (sint n)" "(ucast n :: u64) = of_int (uint n)" by simp_all
  then show "(scast n :: u64) = ucast n" using sint_nonneg [OF assms] by metis
  have "uint n < 2 ^ 31" using sint_nonneg [OF assms] sint_lt [of n] by simp
  then show "\<not> (ucast n :: u64) > 0x7FFFFFFF" by (simp add: word_less_def uint_up_ucast is_up)
qed

lemma encode_varint_Cons: "encode_varint v (x # xs) = x # encode_varint v xs"
  using encode_varint_buf [of v "[x]" xs] by simp

abbreviation lang_bytes :: "str option \<Rightarrow> u8 list" where
  "lang_bytes lang \<equiv> (case lang of Some l \<Rightarrow> entry_bytes l | None \<Rightarrow> [])"

abbreviation index_bytes :: "u32 option \<Rightarrow> u8 list" where
  "index_bytes i \<equiv> (case i of Some n \<Rightarrow> encode_varint (scast n) [] | None \<Rightarrow> [])"

lemma reads_lang:
  assumes "pred_option str_ok lang"
  shows "reads (if lang \<noteq> None then bindR decode_inline_str (\<lambda>s. liftR (Done (Some s))) else liftR (Done None)) (lang_bytes lang) lang"
proof (cases lang)
  case (Some l)
  then show ?thesis using reads_then [OF reads_str, of l Some] assms by simp
qed (simp add: reads_pure)

lemma reads_index:
  assumes "pred_option (\<lambda>n. \<not> sint n < 0) i"
  shows "reads (if i \<noteq> None
      then bindR decode_varint (\<lambda>raw.
        if raw > 0x7FFFFFFF then liftR (Fail (InvalidOp ''list index exceeds i32::MAX'')) else liftR (Done (Some (ucast raw))))
      else liftR (Done None)) (index_bytes i) i"
proof (cases i)
  case (Some n)
  then have n: "\<not> sint n < 0" using assms by simp
  let ?q = "\<lambda>raw :: u64. if raw > 0x7FFFFFFF then liftR (Fail (InvalidOp ''list index exceeds i32::MAX'')) else liftR (Done (Some (ucast raw :: u32)))"
  have "reads (?q (scast n)) [] (Some n)"
    using list_index [OF n] reads_pure [of "Some n"] by (simp add: ucast_back)
  then have "reads (bindR decode_varint ?q) (encode_varint (scast n) [] @ []) (Some n)" by (rule reads_bind [OF reads_varint])
  then show ?thesis using Some by simp
qed (simp add: reads_pure)

lemma reads_raw_op:
  assumes "(if i = 0 then Done [] else dict_get (rd_graph R) i) = Done g_name"
    and "reads (decode_sid (rd_subject R)) sb (s_ns, s_name)" "reads (decode_sid (rd_predicate R)) pb (p_ns, p_name)"
    and "reads (decode_sid (rd_datatype R)) db (dt_ns, dt_name)" "reads (decode_raw_object tag R) ob obj"
    and "pred_option str_ok lang" "pred_option (\<lambda>n. \<not> sint n < 0) idx"
  shows "reads (decode_raw_op R)
     (encode_varint (ucast (g_ns :: u16)) [] @ encode_varint (ucast i) [] @ sb @ pb @ db @ [otag_u8 tag] @ ob @
      [op_flags op (lang \<noteq> None) (idx \<noteq> None)] @ lang_bytes lang @ index_bytes idx)
     \<lparr>ro_g_ns_code = g_ns, ro_g_name = g_name, ro_s_ns_code = s_ns, ro_s_name = s_name, ro_p_ns_code = p_ns, ro_p_name = p_name,
      ro_dt_ns_code = dt_ns, ro_dt_name = dt_name, ro_o = obj, ro_op = op, ro_lang = lang, ro_i = idx\<rparr>"
  unfolding decode_raw_op_def
  apply (rule reads_bind [OF reads_varint], rule reads_bind [OF reads_varint], rule reads_lift [where x = g_name])
   apply (use assms(1) in \<open>simp add: ucast_back split: if_splits\<close>)
  apply (rule reads_bind [OF assms(2)], simp only: prod.case)
  apply (rule reads_bind [OF assms(3)], simp only: prod.case)
  apply (rule reads_bind [OF assms(4)], simp only: prod.case)
  apply (rule reads_bind [OF reads_u8], rule reads_lift [OF OTag_round_trip], rule reads_bind [OF assms(5)])
  apply (rule reads_bind [OF reads_u8], simp only: op_flags_bits)
  apply (rule reads_bind [OF reads_lang [OF assms(6)]], rule reads_then_eq [OF reads_index [OF assms(7)]])
  apply (simp add: ucast_back)
  done


lemma encode_graph_reads:
  assumes "dict_ok d" "length (db_entries d) \<le> n" "n + 1 < 2 ^ 32" "pred_option (str_ok \<circ> sid_name) g"
  obtains d' i where
    "(case g of Some sid \<Rightarrow> encode_sid sid d buf | None \<Rightarrow> (d, encode_varint 0 (encode_varint 0 buf))) =
      (d', buf @ encode_varint (ucast (case g of Some sid \<Rightarrow> sid_namespace_code sid | None \<Rightarrow> 0)) [] @ encode_varint (ucast i) [])"
    "grows (n + 1) d d'" "i = 0 \<longleftrightarrow> g = None"
    "\<And>D. prefix (db_entries d') D \<Longrightarrow> (if i = 0 then Done [] else dict_get D i) = Done (case g of Some sid \<Rightarrow> sid_name sid | None \<Rightarrow> [])"
proof (cases g)
  case None
  have "encode_varint 0 (encode_varint 0 buf) = buf @ encode_varint 0 [] @ encode_varint 0 []"
    using encode_varint_append [of 0 buf] encode_varint_append [of 0 "encode_varint 0 buf"] by simp
  then show thesis using that [of d 0] assms(1,2) None by (simp add: grows_def)
next
  case (Some sid)
  then have ok: "str_ok (sid_name sid)" using assms(4) by simp
  obtain d' i where e: "encode_sid sid d buf = (d', buf @ encode_varint (ucast (sid_namespace_code sid)) [] @ encode_varint (ucast i) [])"
      and g: "grows (n + 1) d d'" and i: "\<And>E. prefix (db_entries d') E \<Longrightarrow> dict_get E i = Done (sid_name sid)"
    by (rule encode_sid_grows [OF assms(1,2,3) ok]) blast
  have "i \<noteq> 0" using i [of "db_entries d'"] by (auto simp: dict_get_def)
  then show thesis using that [of d' i] e g i Some by simp
qed

text \<open>One op: the dictionaries grow by at most an entry each, and over any later dictionaries the bytes read back.\<close>

abbreviation sid_bytes :: "Sid \<Rightarrow> u32 \<Rightarrow> u8 list" where
  "sid_bytes sid i \<equiv> encode_varint (ucast (sid_namespace_code sid)) [] @ encode_varint (ucast i) []"

definition op_bytes :: "Flake \<Rightarrow> u32 \<Rightarrow> u32 \<Rightarrow> u32 \<Rightarrow> u32 \<Rightarrow> u8 list \<Rightarrow> u8 list" where
  "op_bytes f i1 i2 i3 i4 ob =
     encode_varint (ucast (case fl_g f of Some sid \<Rightarrow> sid_namespace_code sid | None \<Rightarrow> 0)) [] @ encode_varint (ucast i1) [] @
     sid_bytes (fl_s f) i2 @ sid_bytes (fl_p f) i3 @ sid_bytes (fl_dt f) i4 @ [otag_u8 (value_tag (fl_o f))] @ ob @
     [op_flags (fl_op f) (Option.bind (fl_m f) fm_lang \<noteq> None) (Option.bind (fl_m f) fm_i \<noteq> None)] @
     lang_bytes (Option.bind (fl_m f) fm_lang) @ index_bytes (Option.bind (fl_m f) fm_i)"

definition op_names :: "Flake \<Rightarrow> u32 \<Rightarrow> u32 \<Rightarrow> u32 \<Rightarrow> u32 \<Rightarrow> u8 list \<Rightarrow> ReadDicts \<Rightarrow> bool" where
  "op_names f i1 i2 i3 i4 ob R \<longleftrightarrow>
     (if i1 = 0 then Done [] else dict_get (rd_graph R) i1) = Done (case fl_g f of Some sid \<Rightarrow> sid_name sid | None \<Rightarrow> []) \<and>
     dict_get (rd_subject R) i2 = Done (sid_name (fl_s f)) \<and> dict_get (rd_predicate R) i3 = Done (sid_name (fl_p f)) \<and>
     dict_get (rd_datatype R) i4 = Done (sid_name (fl_dt f)) \<and> reads (decode_raw_object (value_tag (fl_o f)) R) ob (raw_object (fl_o f))"

definition index_ok :: "Flake \<Rightarrow> bool" where
  "index_ok f \<longleftrightarrow> pred_option (\<lambda>n. \<not> sint n < 0) (Option.bind (fl_m f) fm_i)"

lemma encode_op_parts:
  assumes ok: "dicts_ok n D" "n + 1 < 2 ^ 32" "flake_ok f" and enc: "encode_op f D buf = Done (D', buf')"
  obtains i1 i2 i3 i4 ob where "buf' = buf @ op_bytes f i1 i2 i3 i4 ob" "dicts_grow (n + 1) D D'" "index_ok f" "i1 = 0 \<longleftrightarrow> fl_g f = None"
    "\<And>R. extends D' R \<Longrightarrow> op_names f i1 i2 i3 i4 ob R"
proof -
  note d = ok(1) [unfolded dicts_grow_def grows_def]
  note fl = ok(3) [unfolded flake_ok_def]
  let ?V = "\<lambda>v. encode_varint v []"
  obtain dg i1 where g: "(case fl_g f of Some sid \<Rightarrow> encode_sid sid (cd_graph D) buf | None \<Rightarrow> (cd_graph D, encode_varint 0 (encode_varint 0 buf))) =
      (dg, buf @ ?V (ucast (case fl_g f of Some sid \<Rightarrow> sid_namespace_code sid | None \<Rightarrow> 0)) @ ?V (ucast i1))"
    and gg: "grows (n + 1) (cd_graph D) dg" "i1 = 0 \<longleftrightarrow> fl_g f = None"
    and gr: "\<And>E. prefix (db_entries dg) E \<Longrightarrow> (if i1 = 0 then Done [] else dict_get E i1) = Done (case fl_g f of Some sid \<Rightarrow> sid_name sid | None \<Rightarrow> [])"
    by (rule encode_graph_reads [of "cd_graph D" n "fl_g f" buf]) (use d ok(2) fl in auto)
  let ?b1 = "buf @ ?V (ucast (case fl_g f of Some sid \<Rightarrow> sid_namespace_code sid | None \<Rightarrow> 0)) @ ?V (ucast i1)"
  obtain ds i2 where s: "encode_sid (fl_s f) (cd_subject D) ?b1 = (ds, ?b1 @ ?V (ucast (sid_namespace_code (fl_s f))) @ ?V (ucast i2))"
    and gs: "grows (n + 1) (cd_subject D) ds" and sr: "\<And>E. prefix (db_entries ds) E \<Longrightarrow> dict_get E i2 = Done (sid_name (fl_s f))"
    by (rule encode_sid_grows [of "cd_subject D" n "fl_s f" ?b1]) (use d ok(2) fl in auto)
  let ?b2 = "?b1 @ ?V (ucast (sid_namespace_code (fl_s f))) @ ?V (ucast i2)"
  obtain dp i3 where p: "encode_sid (fl_p f) (cd_predicate D) ?b2 = (dp, ?b2 @ ?V (ucast (sid_namespace_code (fl_p f))) @ ?V (ucast i3))"
    and gp: "grows (n + 1) (cd_predicate D) dp" and pr: "\<And>E. prefix (db_entries dp) E \<Longrightarrow> dict_get E i3 = Done (sid_name (fl_p f))"
    by (rule encode_sid_grows [of "cd_predicate D" n "fl_p f" ?b2]) (use d ok(2) fl in auto)
  let ?b3 = "?b2 @ ?V (ucast (sid_namespace_code (fl_p f))) @ ?V (ucast i3)"
  obtain dd i4 where t: "encode_sid (fl_dt f) (cd_datatype D) ?b3 = (dd, ?b3 @ ?V (ucast (sid_namespace_code (fl_dt f))) @ ?V (ucast i4))"
    and gd: "grows (n + 1) (cd_datatype D) dd" and dr: "\<And>E. prefix (db_entries dd) E \<Longrightarrow> dict_get E i4 = Done (sid_name (fl_dt f))"
    by (rule encode_sid_grows [of "cd_datatype D" n "fl_dt f" ?b3]) (use d ok(2) fl in auto)
  let ?b4 = "?b3 @ ?V (ucast (sid_namespace_code (fl_dt f))) @ ?V (ucast i4)"
  let ?D = "D\<lparr>cd_graph := dg, cd_subject := ds, cd_predicate := dp, cd_datatype := dd\<rparr>"
  obtain d5 ob where o: "encode_object (fl_o f) ?D ?b4 = (?D\<lparr>cd_object_ref := d5\<rparr>, ?b4 @ otag_u8 (value_tag (fl_o f)) # ob)"
    and go: "grows (n + 1) (cd_object_ref D) d5"
    and or: "\<And>R. prefix (db_entries d5) (rd_object_ref R) \<Longrightarrow> reads (decode_raw_object (value_tag (fl_o f)) R) ob (raw_object (fl_o f))"
    by (rule encode_object_reads [of ?D n "fl_o f" ?b4]) (use d ok(2) fl in auto)
  let ?lang = "Option.bind (fl_m f) fm_lang" and ?i = "Option.bind (fl_m f) fm_i"
  let ?b5 = "?b4 @ otag_u8 (value_tag (fl_o f)) # ob @ [op_flags (fl_op f) (?lang \<noteq> None) (?i \<noteq> None)] @ lang_bytes ?lang"
  note flags = op_flags_def [of "fl_op f" "?lang \<noteq> None" "?i \<noteq> None", unfolded Let_def, symmetric]
  have "encode_op f D buf = (case ?i of Some n \<Rightarrow> if sint n < 0 then Fail (NegativeListIndex n)
       else Done (?D\<lparr>cd_object_ref := d5\<rparr>, encode_varint (scast n) ?b5) | None \<Rightarrow> Done (?D\<lparr>cd_object_ref := d5\<rparr>, ?b5))"
    by (simp only: encode_op_def g s p t o Let_def prod.case flags)
       (cases "?lang"; cases "?i"; simp only: option.case encode_varint_buf encode_varint_Cons append.assoc append_Cons append_Nil append_Nil2)
  then have D': "D' = ?D\<lparr>cd_object_ref := d5\<rparr>" and buf': "buf' = ?b5 @ index_bytes ?i" and i: "pred_option (\<lambda>n. \<not> sint n < 0) ?i"
    using enc encode_varint_append [of _ ?b5] by (auto split: option.splits if_splits)
  show thesis
  proof (rule that)
    show "dicts_grow (n + 1) D D'" using gg gs gp gd go by (simp add: dicts_grow_def D')
    show "index_ok f" using i by (simp add: index_ok_def)
    show "i1 = 0 \<longleftrightarrow> fl_g f = None" by (rule gg(2))
    show "buf' = buf @ op_bytes f i1 i2 i3 i4 ob" by (simp add: buf' op_bytes_def)
    fix R assume "extends D' R"
    then show "op_names f i1 i2 i3 i4 ob R" using gr sr pr dr or by (simp add: extends_def D' op_names_def)
  qed
qed

text \<open>Over any later dictionaries the bytes of an op read back.\<close>

lemma encode_op_reads:
  assumes "dicts_ok n D" "n + 1 < 2 ^ 32" "flake_ok f" "encode_op f D buf = Done (D', buf')"
  obtains bs where "buf' = buf @ bs" "dicts_grow (n + 1) D D'" "\<And>R. extends D' R \<Longrightarrow> reads (decode_raw_op R) bs (raw_op f)"
proof -
  obtain i1 i2 i3 i4 ob where p: "buf' = buf @ op_bytes f i1 i2 i3 i4 ob" "dicts_grow (n + 1) D D'" "index_ok f"
      and n: "\<And>R. extends D' R \<Longrightarrow> op_names f i1 i2 i3 i4 ob R"
    by (rule encode_op_parts [OF assms]) blast
  have l: "pred_option str_ok (Option.bind (fl_m f) fm_lang)" using assms(3) by (simp add: flake_ok_def)
  have "reads (decode_raw_op R) (op_bytes f i1 i2 i3 i4 ob) (raw_op f)" if "extends D' R" for R
    using n [OF that] unfolding op_bytes_def raw_op_def op_names_def
    by (elim conjE, intro reads_raw_op reads_sid l p(3) [unfolded index_ok_def])
  then show thesis using that p(1,2) by blast
qed

section \<open>The op stream\<close>

lemma encode_ops_reads:
  assumes "dicts_ok n D" "n + length fs < 2 ^ 32" "list_all flake_ok fs" "encode_ops fs D buf = Done (D', buf')"
  obtains bs where "buf' = buf @ bs" "dicts_grow (n + length fs) D D'" "\<And>R. extends D' R \<Longrightarrow> reads (decode_ops (length fs) R) bs (map raw_op fs)"
  using assms
proof (induction fs arbitrary: n D buf thesis)
  case Nil
  then show ?case by (simp add: decode_ops_def reads_pure)
next
  case (Cons f fs)
  obtain D1 buf1 where e1: "encode_op f D buf = Done (D1, buf1)" and e2: "encode_ops fs D1 buf1 = Done (D', buf')"
    using Cons.prems(5) by (auto simp: bind_parse_Done)
  have f: "n + 1 < 2 ^ 32" "flake_ok f" using Cons.prems(3,4) by auto
  obtain bs1 where b1: "buf1 = buf @ bs1" "dicts_grow (n + 1) D D1" and r1: "\<And>R. extends D1 R \<Longrightarrow> reads (decode_raw_op R) bs1 (raw_op f)"
    by (rule encode_op_reads [OF Cons.prems(2) f e1]) blast
  have fs: "n + 1 + length fs < 2 ^ 32" "list_all flake_ok fs" using Cons.prems(3,4) by auto
  obtain bs2 where b2: "buf' = buf1 @ bs2" "dicts_grow (n + 1 + length fs) D1 D'"
      and r2: "\<And>R. extends D' R \<Longrightarrow> reads (decode_ops (length fs) R) bs2 (map raw_op fs)"
    by (rule Cons.IH [OF _ dicts_grow_ok [OF b1(2)] fs e2]) blast
  have "reads (decode_ops (length (f # fs)) R) (bs1 @ bs2) (map raw_op (f # fs))" if "extends D' R" for R
    using reads_Suc [OF r1 [OF extends_mono [OF b2(2) that]]] r2 [OF that] by (simp add: decode_ops_def)
  moreover have "dicts_grow (n + length (f # fs)) D D'" using dicts_grow_trans [OF b1(2) b2(2)] by simp
  ultimately show ?case using Cons.prems(1) [of "bs1 @ bs2"] b1(1) b2(1) by simp
qed

text \<open>Only a negative list index stops the encoder.\<close>

lemma encode_op_total: "index_ok f \<Longrightarrow> \<exists>r. encode_op f D buf = Done r"
  unfolding encode_op_def Let_def index_ok_def by (cases "Option.bind (fl_m f) fm_i") (simp_all split: prod.split)

lemma encode_ops_total: "list_all index_ok fs \<Longrightarrow> \<exists>r. encode_ops fs D buf = Done r"
proof (induction fs arbitrary: D buf)
  case (Cons f fs)
  then obtain D1 buf1 where "encode_op f D buf = Done (D1, buf1)" using encode_op_total [of f D buf] by auto
  then show ?case using Cons by simp
qed simp

end
