(* ===== verification/CommitFormat.thy ===== *)
theory CommitFormat
  imports CommitRoundTrip
begin

text \<open>
  The fixed parts of a commit blob (\<open>commit/codec/format.rs\<close>): the 32-byte header, the 64-byte footer with the
  locations of the five dictionaries, and the signature block that may follow.

  An array \<open>[u8; n]\<close> is a list; its length is part of the well-formedness predicates. \<open>t: i64\<close> is a word in two's
  complement. The numbers that the error messages of the code quote are left out.
\<close>

definition MAGIC :: "u8 list" where
  "MAGIC = [0x46, 0x43, 0x56, 0x32]"

definition VERSION :: u8 where
  "VERSION = 4"

definition VERSION_V3 :: u8 where
  "VERSION_V3 = 3"

definition HEADER_LEN :: nat where
  "HEADER_LEN = 32"

definition FOOTER_LEN :: nat where
  "FOOTER_LEN = 64"

definition MIN_COMMIT_LEN :: nat where
  "MIN_COMMIT_LEN = HEADER_LEN + FOOTER_LEN"

definition FLAG_ZSTD :: u8 where
  "FLAG_ZSTD = 1"

definition FLAG_HAS_COMMIT_SIG :: u8 where
  "FLAG_HAS_COMMIT_SIG = 2"

definition ALGO_ED25519 :: u8 where
  "ALGO_ED25519 = 1"

definition MAX_SIG_COUNT :: nat where
  "MAX_SIG_COUNT = 64"

definition MAX_SIGNER_LEN :: nat where
  "MAX_SIGNER_LEN = 256"

definition MAX_METADATA_LEN :: nat where
  "MAX_METADATA_LEN = 4096"

section \<open>Signature block\<close>

record CommitSignature =
  cs_signer :: str
  cs_algo :: u8
  cs_signature :: "u8 list"
  cs_metadata :: "u8 list option"

definition encode_sig :: "CommitSignature \<Rightarrow> u8 list \<Rightarrow> u8 list" where
  "encode_sig sig buf =
     (let buf = buf @ to_le_bytes 2 (of_nat (length (cs_signer sig)) :: u16); buf = buf @ cs_signer sig;
          buf = buf @ [cs_algo sig]; buf = buf @ cs_signature sig
      in case cs_metadata sig of
           Some meta \<Rightarrow> (buf @ to_le_bytes 2 (of_nat (length meta) :: u16)) @ meta
         | None \<Rightarrow> buf @ to_le_bytes 2 (0 :: u16))"

definition encode_sig_block :: "CommitSignature list \<Rightarrow> u8 list \<Rightarrow> u8 list" where
  "encode_sig_block sigs buf = fold encode_sig sigs (buf @ to_le_bytes 2 (of_nat (length sigs) :: u16))"

definition read_le :: "nat \<Rightarrow> 'a::len word reader" where
  "read_le n = bindR (\<lambda>data pos. read_exact data pos n) (\<lambda>bs. liftR (Done (from_le_bytes bs)))"

definition decode_sig :: "CommitSignature reader" where
  "decode_sig =
     bindR (read_le 2) (\<lambda>signer_len :: u16.
     if unat signer_len > MAX_SIGNER_LEN then liftR (Fail (EnvelopeDecode ''signer length exceeds maximum''))
     else
     bindR (\<lambda>data pos. read_exact data pos (unat signer_len)) (\<lambda>signer_bytes.
     bindR (liftR (case from_utf8 signer_bytes of
       Some s \<Rightarrow> Done s | None \<Rightarrow> Fail (EnvelopeDecode ''invalid signer UTF-8''))) (\<lambda>signer.
     bindR read_u8 (\<lambda>algo.
     if algo \<noteq> ALGO_ED25519 then liftR (Fail (EnvelopeDecode ''unknown signature algorithm''))
     else
     bindR (\<lambda>data pos. read_exact data pos 64) (\<lambda>signature.
     bindR (read_le 2) (\<lambda>meta_len :: u16.
     bindR (if unat meta_len > 0
            then if unat meta_len > MAX_METADATA_LEN then liftR (Fail (EnvelopeDecode ''metadata length exceeds maximum''))
                 else bindR (\<lambda>data pos. read_exact data pos (unat meta_len)) (\<lambda>meta. liftR (Done (Some meta)))
            else liftR (Done None)) (\<lambda>metadata.
     liftR (Done \<lparr>cs_signer = signer, cs_algo = algo, cs_signature = signature, cs_metadata = metadata\<rparr>))))))))"

definition decode_sig_block :: "u8 list \<Rightarrow> CommitSignature list parse" where
  "decode_sig_block data =
     bind_parse
       (bindR (read_le 2) (\<lambda>sig_count :: u16.
          if unat sig_count > MAX_SIG_COUNT then liftR (Fail (EnvelopeDecode ''signature count exceeds maximum''))
          else readN (unat sig_count) decode_sig) data 0)
       (\<lambda>(sigs, pos). if pos \<noteq> length data then Fail (EnvelopeDecode ''signature block: trailing bytes'') else Done sigs)"

fun sig_block_size_from :: "nat \<Rightarrow> CommitSignature list \<Rightarrow> nat" where
  "sig_block_size_from n [] = n"
| "sig_block_size_from n (sig # sigs) =
     sig_block_size_from (n + 2 + length (cs_signer sig) + 1 + 64 + 2 + (case cs_metadata sig of Some meta \<Rightarrow> length meta | None \<Rightarrow> 0)) sigs"

definition sig_block_size :: "CommitSignature list \<Rightarrow> nat" where
  "sig_block_size sigs = sig_block_size_from 2 sigs"

section \<open>Header\<close>

record CommitHeader =
  ch_version :: u8
  ch_flags :: u8
  ch_t :: u64
  ch_op_count :: u32
  ch_envelope_len :: u32
  ch_sig_block_len :: u16

text \<open>Writing into a buffer that is too short panics.\<close>

definition CommitHeader_write_to :: "CommitHeader \<Rightarrow> u8 list \<Rightarrow> u8 list parse" where
  "CommitHeader_write_to h buf =
     (if length buf < HEADER_LEN then Abort
      else Done (MAGIC @ [ch_version h] @ [ch_flags h] @ to_le_bytes 4 (ucast (ch_t h) :: u32) @ to_le_bytes 4 (ch_op_count h) @
        to_le_bytes 4 (ch_envelope_len h) @ to_le_bytes 2 (ch_sig_block_len h) @ replicate 12 0 @ drop HEADER_LEN buf))"

definition slice :: "nat \<Rightarrow> nat \<Rightarrow> 'a list \<Rightarrow> 'a list" where
  "slice i j xs = take (j - i) (drop i xs)"

definition CommitHeader_read_from :: "u8 list \<Rightarrow> CommitHeader parse" where
  "CommitHeader_read_from buf =
     (if length buf < HEADER_LEN then Fail (TooSmall (length buf) HEADER_LEN)
      else if slice 0 4 buf \<noteq> MAGIC then Fail InvalidMagic
      else
        (let version = buf ! 4
         in if version \<noteq> VERSION \<and> version \<noteq> VERSION_V3 then Fail (UnsupportedVersion version)
            else
              (let flags = buf ! 5; raw_t = (from_le_bytes (slice 6 10 buf) :: u32); t = ucast raw_t;
                   op_count = from_le_bytes (slice 10 14 buf); envelope_len = from_le_bytes (slice 14 18 buf);
                   sig_block_len = from_le_bytes (slice 18 20 buf)
               in Done \<lparr>ch_version = version, ch_flags = flags, ch_t = t, ch_op_count = op_count, ch_envelope_len = envelope_len,
                    ch_sig_block_len = sig_block_len\<rparr>)))"

section \<open>Footer\<close>

record DictLocation =
  dl_offset :: u64
  dl_len :: u32

record CommitFooter =
  cf_dicts :: "DictLocation list"
  cf_ops_section_len :: u32

definition CommitFooter_write_to :: "CommitFooter \<Rightarrow> u8 list \<Rightarrow> u8 list parse" where
  "CommitFooter_write_to f buf =
     (if length buf < FOOTER_LEN then Abort
      else Done (concat (map (\<lambda>d. to_le_bytes 8 (dl_offset d) @ to_le_bytes 4 (dl_len d)) (cf_dicts f)) @
        to_le_bytes 4 (cf_ops_section_len f) @ drop FOOTER_LEN buf))"

fun read_locations :: "nat \<Rightarrow> nat \<Rightarrow> u8 list \<Rightarrow> DictLocation list \<times> nat" where
  "read_locations 0 pos buf = ([], pos)"
| "read_locations (Suc n) pos buf =
     (let d = \<lparr>dl_offset = from_le_bytes (slice pos (pos + 8) buf), dl_len = from_le_bytes (slice (pos + 8) (pos + 8 + 4) buf)\<rparr>;
          (ds, pos) = read_locations n (pos + 8 + 4) buf
      in (d # ds, pos))"

definition CommitFooter_read_from :: "u8 list \<Rightarrow> CommitFooter parse" where
  "CommitFooter_read_from buf =
     (if length buf < FOOTER_LEN then Fail (TooSmall (length buf) FOOTER_LEN)
      else
        (let (dicts, pos) = read_locations 5 0 buf
         in Done \<lparr>cf_dicts = dicts, cf_ops_section_len = from_le_bytes (slice pos (pos + 4) buf)\<rparr>))"

section \<open>Round trips\<close>

lemma le_bytes_w [simp]:
  "from_le_bytes (to_le_bytes 8 w8) = (w8 :: u64)" "from_le_bytes (to_le_bytes 4 w4) = (w4 :: u32)"
  "from_le_bytes (to_le_bytes 2 w2) = (w2 :: u16)"
  by (rule le_bytes_round_trip, simp)+

lemma slice_at: "i = length pre \<Longrightarrow> j = i + length xs \<Longrightarrow> slice i j (pre @ xs @ post) = xs"
  by (simp add: slice_def)

lemma length_MAGIC [simp]: "length MAGIC = 4"
  by (simp add: MAGIC_def)

definition header_ok :: "CommitHeader \<Rightarrow> bool" where
  "header_ok h \<longleftrightarrow> (ch_version h = VERSION \<or> ch_version h = VERSION_V3) \<and> unat (ch_t h) < 2 ^ 32"

definition header_bytes :: "CommitHeader \<Rightarrow> u8 list" where
  "header_bytes h = MAGIC @ [ch_version h] @ [ch_flags h] @ to_le_bytes 4 (ucast (ch_t h) :: u32) @ to_le_bytes 4 (ch_op_count h) @
        to_le_bytes 4 (ch_envelope_len h) @ to_le_bytes 2 (ch_sig_block_len h) @ replicate 12 0"

lemma length_header_bytes [simp]: "length (header_bytes h) = HEADER_LEN"
  by (simp add: header_bytes_def HEADER_LEN_def)

lemma header_written: "length buf \<ge> HEADER_LEN \<Longrightarrow> CommitHeader_write_to h buf = Done (header_bytes h @ drop HEADER_LEN buf)"
  by (simp add: CommitHeader_write_to_def header_bytes_def)

lemma ucast_32_64: "unat (w :: u64) < 2 ^ 32 \<Longrightarrow> ucast (ucast w :: u32) = w"
  by (simp add: word_unat_eq_iff unsigned_ucast_eq unsigned_take_bit_eq take_bit_nat_eq_self)

lemma header_round_trip:
  assumes "header_ok h"
  shows "CommitHeader_read_from (header_bytes h @ rest) = Done h"
proof -
  let ?M = MAGIC and ?a = "to_le_bytes 4 (ucast (ch_t h) :: u32)" and ?b = "to_le_bytes 4 (ch_op_count h)"
    and ?c = "to_le_bytes 4 (ch_envelope_len h)" and ?d = "to_le_bytes 2 (ch_sig_block_len h)" and ?z = "replicate 12 0 @ rest"
  let ?buf = "header_bytes h @ rest"
  have buf: "?buf = ?M @ [ch_version h] @ [ch_flags h] @ ?a @ ?b @ ?c @ ?d @ ?z" by (simp add: header_bytes_def)
  have magic: "slice 0 4 ?buf = ?M" using slice_at [of 0 "[]" 4 ?M] unfolding buf by simp
  have bytes: "?buf ! 4 = ch_version h" "?buf ! 5 = ch_flags h" unfolding buf by (simp_all add: nth_append)
  have a: "slice 6 10 ?buf = ?a" using slice_at [of 6 "?M @ [ch_version h] @ [ch_flags h]" 10 ?a] unfolding buf by simp
  have b: "slice 10 14 ?buf = ?b" using slice_at [of 10 "?M @ [ch_version h] @ [ch_flags h] @ ?a" 14 ?b] unfolding buf by simp
  have c: "slice 14 18 ?buf = ?c" using slice_at [of 14 "?M @ [ch_version h] @ [ch_flags h] @ ?a @ ?b" 18 ?c] unfolding buf by simp
  have d: "slice 18 20 ?buf = ?d" using slice_at [of 18 "?M @ [ch_version h] @ [ch_flags h] @ ?a @ ?b @ ?c" 20 ?d] unfolding buf by simp
  show ?thesis
    using assms unfolding CommitHeader_read_from_def magic a b c d bytes Let_def by (auto simp: header_ok_def ucast_32_64)
qed

definition location_bytes :: "DictLocation \<Rightarrow> u8 list" where
  "location_bytes d = to_le_bytes 8 (dl_offset d) @ to_le_bytes 4 (dl_len d)"

definition footer_bytes :: "CommitFooter \<Rightarrow> u8 list" where
  "footer_bytes f = concat (map location_bytes (cf_dicts f)) @ to_le_bytes 4 (cf_ops_section_len f)"

lemma footer_written: "length buf \<ge> FOOTER_LEN \<Longrightarrow> CommitFooter_write_to f buf = Done (footer_bytes f @ drop FOOTER_LEN buf)"
  by (simp add: CommitFooter_write_to_def footer_bytes_def location_bytes_def [abs_def])

lemma length_locations: "length (concat (map location_bytes ds)) = 12 * length ds"
  by (induction ds) (simp_all add: location_bytes_def)

lemma length_footer_bytes: "length (cf_dicts f) = 5 \<Longrightarrow> length (footer_bytes f) = FOOTER_LEN"
  by (simp add: footer_bytes_def length_locations FOOTER_LEN_def)

lemma read_locations_at:
  "read_locations (length ds) (length pre) (pre @ concat (map location_bytes ds) @ post) = (ds, length pre + 12 * length ds)"
proof (induction ds arbitrary: pre)
  case (Cons d ds)
  let ?o = "to_le_bytes 8 (dl_offset d)" and ?l = "to_le_bytes 4 (dl_len d)" and ?rest = "concat (map location_bytes ds) @ post"
  let ?buf = "pre @ ?o @ ?l @ ?rest"
  have "slice (length pre) (length pre + 8) ?buf = ?o" using slice_at [of _ pre _ ?o] by simp
  moreover have "slice (length pre + 8) (length pre + 8 + 4) ?buf = ?l" using slice_at [of _ "pre @ ?o" _ ?l] by simp
  moreover have "read_locations (length ds) (length pre + 8 + 4) ?buf = (ds, length pre + 8 + 4 + 12 * length ds)"
    using Cons.IH [of "pre @ ?o @ ?l"] by (simp add: add.assoc)
  ultimately show ?case by (simp add: location_bytes_def [of d])
qed simp

lemma footer_round_trip:
  assumes "length (cf_dicts f) = 5"
  shows "CommitFooter_read_from (footer_bytes f) = Done f"
proof -
  let ?ds = "concat (map location_bytes (cf_dicts f))" and ?n = "to_le_bytes 4 (cf_ops_section_len f)"
  have "read_locations 5 0 (footer_bytes f) = (cf_dicts f, 60)"
    using read_locations_at [of "cf_dicts f" "[]" ?n] assms by (simp add: footer_bytes_def)
  moreover have "slice 60 64 (footer_bytes f) = ?n"
    using slice_at [of 60 ?ds 64 ?n "[]"] assms by (simp add: footer_bytes_def length_locations)
  ultimately show ?thesis using length_footer_bytes [OF assms] by (simp add: CommitFooter_read_from_def)
qed


subsection \<open>Signatures\<close>

text \<open>What the decoder's limits leave: the encoder checks none of them, and writes empty metadata as no metadata.\<close>

definition sig_ok :: "CommitSignature \<Rightarrow> bool" where
  "sig_ok sig \<longleftrightarrow> utf8_valid (map unat (cs_signer sig)) \<and> length (cs_signer sig) \<le> MAX_SIGNER_LEN \<and> cs_algo sig = ALGO_ED25519 \<and>
     length (cs_signature sig) = 64 \<and> pred_option (\<lambda>meta. 0 < length meta \<and> length meta \<le> MAX_METADATA_LEN) (cs_metadata sig)"

definition sig_bytes :: "CommitSignature \<Rightarrow> u8 list" where
  "sig_bytes sig = to_le_bytes 2 (of_nat (length (cs_signer sig)) :: u16) @ cs_signer sig @ [cs_algo sig] @ cs_signature sig @
     (case cs_metadata sig of Some meta \<Rightarrow> to_le_bytes 2 (of_nat (length meta) :: u16) @ meta | None \<Rightarrow> to_le_bytes 2 (0 :: u16))"

lemma encode_sig_bytes: "encode_sig sig buf = buf @ sig_bytes sig"
  by (simp add: encode_sig_def sig_bytes_def split: option.split)

lemma encode_sigs_bytes: "fold encode_sig sigs buf = buf @ concat (map sig_bytes sigs)"
  by (induction sigs arbitrary: buf) (simp_all add: encode_sig_bytes)

lemma reads_le: "from_le_bytes (to_le_bytes n w) = w \<Longrightarrow> reads (read_le n) (to_le_bytes n w) w"
  unfolding read_le_def by (rule reads_then_eq [OF reads_exact]) simp_all

lemma reads_u16: "reads (read_le 2) (to_le_bytes 2 w) (w :: u16)"
  by (rule reads_le) simp

lemma unat_of_u16: "n < 2 ^ 16 \<Longrightarrow> unat (of_nat n :: u16) = n"
  by (simp add: unat_of_nat)

lemma reads_metadata:
  assumes "pred_option (\<lambda>meta. 0 < length meta \<and> length meta \<le> MAX_METADATA_LEN) m"
  shows "reads (bindR (read_le 2) (\<lambda>meta_len :: u16.
     bindR (if unat meta_len > 0
            then if unat meta_len > MAX_METADATA_LEN then liftR (Fail (EnvelopeDecode ''metadata length exceeds maximum''))
                 else bindR (\<lambda>data pos. read_exact data pos (unat meta_len)) (\<lambda>meta. liftR (Done (Some meta)))
            else liftR (Done None)) (\<lambda>metadata. liftR (Done (f metadata)))))
     (case m of Some meta \<Rightarrow> to_le_bytes 2 (of_nat (length meta) :: u16) @ meta | None \<Rightarrow> to_le_bytes 2 (0 :: u16)) (f m)"
    (is "reads (bindR (read_le 2) ?q) _ _")
proof (cases m)
  case None
  have "reads (?q 0) [] (f None)" using reads_then [OF reads_pure [of None], of f] by simp
  then have "reads (bindR (read_le 2) ?q) (to_le_bytes 2 (0 :: u16) @ []) (f None)" by (rule reads_bind [OF reads_u16])
  then show ?thesis using None by simp
next
  case (Some meta)
  then have m: "0 < length meta" "length meta \<le> MAX_METADATA_LEN" "unat (of_nat (length meta) :: u16) = length meta"
    using assms by (auto simp: MAX_METADATA_LEN_def unat_of_nat)
  have "reads (bindR (\<lambda>data pos. read_exact data pos (length meta)) (\<lambda>meta. liftR (Done (Some meta)))) meta (Some meta)"
    by (rule reads_then [OF reads_exact]) simp
  from reads_then [OF this, of f] have "reads (?q (of_nat (length meta))) meta (f (Some meta))" using m by simp
  then have "reads (bindR (read_le 2) ?q) (to_le_bytes 2 (of_nat (length meta) :: u16) @ meta) (f (Some meta))"
    by (rule reads_bind [OF reads_u16])
  then show ?thesis using Some by simp
qed

lemma reads_sig:
  assumes "sig_ok sig"
  shows "reads decode_sig (sig_bytes sig) sig"
proof -
  note ok = assms [unfolded sig_ok_def]
  let ?n = "of_nat (length (cs_signer sig)) :: u16"
  have n: "unat ?n = length (cs_signer sig)" using ok by (simp add: MAX_SIGNER_LEN_def unat_of_nat)
  let ?f = "\<lambda>m. \<lparr>cs_signer = cs_signer sig, cs_algo = cs_algo sig, cs_signature = cs_signature sig, cs_metadata = m\<rparr>"
  have sig: "?f (cs_metadata sig) = sig" by simp
  have "pred_option (\<lambda>meta. 0 < length meta \<and> length meta \<le> MAX_METADATA_LEN) (cs_metadata sig)" using ok by simp
  note meta = reads_metadata [OF this, of ?f, unfolded sig]
  have u: "from_utf8 (cs_signer sig) = Some (cs_signer sig)" using ok by (simp add: from_utf8_def)
  show ?thesis
    unfolding decode_sig_def sig_bytes_def
    apply (rule reads_bind [OF reads_u16])
    apply (simp only: n if_not_P [of "_ < _"], subst if_not_P, use ok in simp)
    apply (rule reads_bind [OF reads_exact], simp, rule reads_lift, simp add: u)
    apply (rule reads_bind [OF reads_u8], subst if_not_P, use ok in simp)
    apply (rule reads_bind [OF reads_exact], use ok in simp)
    apply (rule meta)
    done
qed

lemma reads_sigs: "list_all sig_ok sigs \<Longrightarrow> reads (readN (length sigs) decode_sig) (concat (map sig_bytes sigs)) sigs"
  using readN_reads [of decode_sig sig_bytes "\<lambda>sig. sig" sigs] by (simp add: list_all_iff reads_sig)

lemma sig_block_round_trip:
  assumes "list_all sig_ok sigs" "length sigs \<le> MAX_SIG_COUNT" "length (encode_sig_block sigs []) \<le> usize_max"
  shows "decode_sig_block (encode_sig_block sigs []) = Done sigs"
proof -
  let ?n = "of_nat (length sigs) :: u16" and ?bs = "concat (map sig_bytes sigs)"
  let ?q = "\<lambda>sig_count :: u16. if unat sig_count > MAX_SIG_COUNT then liftR (Fail (EnvelopeDecode ''signature count exceeds maximum''))
          else readN (unat sig_count) decode_sig"
  have n: "unat ?n = length sigs" using assms(2) by (simp add: MAX_SIG_COUNT_def unat_of_nat)
  have e: "encode_sig_block sigs [] = to_le_bytes 2 ?n @ ?bs" by (simp add: encode_sig_block_def encode_sigs_bytes)
  have "reads (?q ?n) ?bs sigs" using assms reads_sigs by (simp add: n)
  then have "reads (bindR (read_le 2) ?q) (to_le_bytes 2 ?n @ ?bs) sigs" by (rule reads_bind [OF reads_u16])
  from reads_whole [OF this] show ?thesis using assms(3) by (simp add: decode_sig_block_def e)
qed

lemma sig_block_size_bytes:
  assumes "list_all (\<lambda>sig. length (cs_signature sig) = 64) sigs"
  shows "sig_block_size_from n sigs = n + length (concat (map sig_bytes sigs))"
  using assms by (induction sigs arbitrary: n) (auto simp: sig_bytes_def split: option.split)

lemma sig_block_length:
  assumes "list_all (\<lambda>sig. length (cs_signature sig) = 64) sigs"
  shows "length (encode_sig_block sigs buf) = length buf + sig_block_size sigs"
  using sig_block_size_bytes [OF assms, of 2] by (simp add: encode_sig_block_def encode_sigs_bytes sig_block_size_def)

end
