(* ===== verification/CommitEnvelope.thy ===== *)
theory CommitEnvelope
  imports CommitFormat
begin

text \<open>
  The envelope of a commit (\<open>commit/codec/envelope.rs\<close>): parents, namespace and graph deltas, transaction reference,
  time, transaction signature, transaction metadata and split mode, in a binary form with presence flags.

  A content id is a value of the \<open>cid\<close> crate, known here only by its two conversions, the fields of \<open>CidLib\<close>.
\<close>

section \<open>Data\<close>

record 'c CidLib =
  cid_to_bytes :: "'c \<Rightarrow> u8 list"
  cid_from_bytes :: "u8 list \<Rightarrow> 'c option"

datatype NsSplitMode = MostGranular | HostPlusN u8

definition HOST_PLUS_N_MAX :: u8 where
  "HOST_PLUS_N_MAX = 254"

primrec NsSplitMode_to_byte :: "NsSplitMode \<Rightarrow> u8 option" where
  "NsSplitMode_to_byte MostGranular = Some 0"
| "NsSplitMode_to_byte (HostPlusN n) = (if n > HOST_PLUS_N_MAX then None else Some (n + 1))"

definition NsSplitMode_from_byte :: "u8 \<Rightarrow> NsSplitMode" where
  "NsSplitMode_from_byte b = (if b = 0 then MostGranular else HostPlusN (b - 1))"

record TxnSignature =
  ts_signer :: str
  ts_txn_id :: "str option"

datatype TxnMetaValue =
    TM_String str
  | TM_TypedLiteral (tm_value: str) (tm_dt_ns: u16) (tm_dt_name: str)
  | TM_LangString (tm_value: str) (tm_lang: str)
  | TM_Ref (tm_ns: u16) (tm_name: str)
  | TM_Long u64
  | TM_Double u64
  | TM_Boolean bool

record TxnMetaEntry =
  te_predicate_ns :: u16
  te_predicate_name :: str
  te_value :: TxnMetaValue

record 'c CodecEnvelope =
  ce_t :: u64
  ce_parents :: "'c list"
  ce_namespace_delta :: "(u16, str) hashmap"
  ce_txn :: "'c option"
  ce_time :: "str option"
  ce_txn_signature :: "TxnSignature option"
  ce_txn_meta :: "TxnMetaEntry list"
  ce_graph_delta :: "(u16, str) hashmap"
  ce_ns_split_mode :: "NsSplitMode option"

definition FLAG_TXN_META :: u8 where "FLAG_TXN_META = 0x01"
definition FLAG_PARENT :: u8 where "FLAG_PARENT = 0x02"
definition FLAG_NAMESPACE_DELTA :: u8 where "FLAG_NAMESPACE_DELTA = 0x04"
definition FLAG_TXN :: u8 where "FLAG_TXN = 0x08"
definition FLAG_TIME :: u8 where "FLAG_TIME = 0x10"
definition FLAG_TXN_SIGNATURE :: u8 where "FLAG_TXN_SIGNATURE = 0x80"

definition KNOWN_FLAGS :: u8 where
  "KNOWN_FLAGS = FLAG_TXN_META OR FLAG_PARENT OR FLAG_NAMESPACE_DELTA OR FLAG_TXN OR FLAG_TIME OR FLAG_TXN_SIGNATURE"

definition MAX_GRAPH_DELTA_ENTRIES :: nat where "MAX_GRAPH_DELTA_ENTRIES = 256"
definition MAX_GRAPH_IRI_LENGTH :: nat where "MAX_GRAPH_IRI_LENGTH = 8192"
definition MAX_CID_BYTES :: nat where "MAX_CID_BYTES = 128"
definition MAX_PARENTS :: nat where "MAX_PARENTS = 16"
definition MAX_TXN_META_ENTRIES :: nat where "MAX_TXN_META_ENTRIES = 256"

text \<open>\<open>f64::is_finite\<close> on the bit pattern: the exponent bits are not all ones.\<close>

definition is_finite :: "u64 \<Rightarrow> bool" where
  "is_finite x \<longleftrightarrow> drop_bit 52 x AND 0x7FF \<noteq> 0x7FF"

section \<open>Encoding\<close>

definition encode_len_str :: "str \<Rightarrow> u8 list \<Rightarrow> u8 list" where
  "encode_len_str s buf = encode_varint (of_nat (length s)) buf @ s"

definition encode_len_bytes :: "u8 list \<Rightarrow> u8 list \<Rightarrow> u8 list parse" where
  "encode_len_bytes bs buf =
     (if length bs > MAX_CID_BYTES then Fail (EnvelopeDecode ''CID byte length exceeds maximum'')
      else Done (encode_varint (of_nat (length bs)) buf @ bs))"

definition encode_commit_id :: "'c CidLib \<Rightarrow> 'c \<Rightarrow> u8 list \<Rightarrow> u8 list parse" where
  "encode_commit_id L c buf = encode_len_bytes (cid_to_bytes L c) buf"

fun encode_commit_ids :: "'c CidLib \<Rightarrow> 'c list \<Rightarrow> u8 list \<Rightarrow> u8 list parse" where
  "encode_commit_ids L [] buf = Done buf"
| "encode_commit_ids L (c # cs) buf = bind_parse (encode_commit_id L c buf) (encode_commit_ids L cs)"

definition encode_delta_entry :: "u16 \<times> str \<Rightarrow> u8 list \<Rightarrow> u8 list" where
  "encode_delta_entry = (\<lambda>(code, prefix) buf. encode_len_str prefix (encode_varint (ucast code) buf))"

text \<open>\<open>encode_ns_delta\<close> and \<open>encode_graph_delta\<close> have the same body.\<close>

definition encode_ns_delta :: "(u16, str) hashmap \<Rightarrow> u8 list \<Rightarrow> u8 list" where
  "encode_ns_delta delta buf = fold encode_delta_entry (sort_key fst delta) (encode_varint (of_nat (length delta)) buf)"

definition encode_graph_delta :: "(u16, str) hashmap \<Rightarrow> u8 list \<Rightarrow> u8 list" where
  "encode_graph_delta delta buf = fold encode_delta_entry (sort_key fst delta) (encode_varint (of_nat (length delta)) buf)"

primrec encode_txn_meta_value :: "TxnMetaValue \<Rightarrow> u8 list \<Rightarrow> u8 list parse" where
  "encode_txn_meta_value (TM_String s) buf = Done (encode_len_str s (buf @ [0]))"
| "encode_txn_meta_value (TM_TypedLiteral v dt_ns dt_name) buf =
     Done (encode_len_str dt_name (encode_varint (ucast dt_ns) (encode_len_str v (buf @ [1]))))"
| "encode_txn_meta_value (TM_LangString v lang) buf = Done (encode_len_str lang (encode_len_str v (buf @ [2])))"
| "encode_txn_meta_value (TM_Ref ns name) buf = Done (encode_len_str name (encode_varint (ucast ns) (buf @ [3])))"
| "encode_txn_meta_value (TM_Long n) buf = Done (encode_varint (zigzag_encode n) (buf @ [4]))"
| "encode_txn_meta_value (TM_Double n) buf =
     (if \<not> is_finite n then Fail (EnvelopeEncode ''txn_meta does not support non-finite double values'')
      else Done ((buf @ [5]) @ to_le_bytes 8 n))"
| "encode_txn_meta_value (TM_Boolean b) buf = Done ((buf @ [6]) @ [of_bool b])"

fun encode_txn_meta_entries :: "TxnMetaEntry list \<Rightarrow> u8 list \<Rightarrow> u8 list parse" where
  "encode_txn_meta_entries [] buf = Done buf"
| "encode_txn_meta_entries (e # es) buf =
     (let buf = encode_varint (ucast (te_predicate_ns e)) buf; buf = encode_len_str (te_predicate_name e) buf
      in bind_parse (encode_txn_meta_value (te_value e) buf) (encode_txn_meta_entries es))"

definition encode_txn_meta :: "TxnMetaEntry list \<Rightarrow> u8 list \<Rightarrow> u8 list parse" where
  "encode_txn_meta entries buf =
     (if length entries > MAX_TXN_META_ENTRIES then Fail (EnvelopeEncode ''txn_meta entry count exceeds maximum'')
      else encode_txn_meta_entries entries (encode_varint (of_nat (length entries)) buf))"

definition envelope_flags :: "'c CodecEnvelope \<Rightarrow> u8" where
  "envelope_flags e =
     (let flags = 0;
          flags = (if ce_txn_meta e \<noteq> [] then flags OR FLAG_TXN_META else flags);
          flags = (if ce_parents e \<noteq> [] then flags OR FLAG_PARENT else flags);
          flags = (if ce_namespace_delta e \<noteq> [] then flags OR FLAG_NAMESPACE_DELTA else flags);
          flags = (if ce_txn e \<noteq> None then flags OR FLAG_TXN else flags);
          flags = (if ce_time e \<noteq> None then flags OR FLAG_TIME else flags)
      in if ce_txn_signature e \<noteq> None then flags OR FLAG_TXN_SIGNATURE else flags)"

definition encode_txn_signature :: "TxnSignature \<Rightarrow> u8 list \<Rightarrow> u8 list" where
  "encode_txn_signature sig buf =
     (let buf = encode_len_str (ts_signer sig) buf
      in case ts_txn_id sig of Some txn_id \<Rightarrow> encode_len_str txn_id (buf @ [1]) | None \<Rightarrow> buf @ [0])"

definition encode_graph_delta_ext :: "(u16, str) hashmap \<Rightarrow> u8 list \<Rightarrow> u8 list parse" where
  "encode_graph_delta_ext delta buf =
     (if delta \<noteq> []
      then if length delta > MAX_GRAPH_DELTA_ENTRIES then Fail (LimitExceeded ''graph_delta entries'')
           else if list_ex (\<lambda>(g_id, iri). length iri > MAX_GRAPH_IRI_LENGTH) delta then Fail (LimitExceeded ''graph_delta IRI'')
           else Done (encode_graph_delta delta (buf @ [1]))
      else Done (buf @ [0]))"

definition encode_ns_split_mode :: "NsSplitMode option \<Rightarrow> u8 list \<Rightarrow> u8 list parse" where
  "encode_ns_split_mode m buf =
     (case m of
        Some mode \<Rightarrow>
          (case NsSplitMode_to_byte mode of
             Some b \<Rightarrow> Done ((buf @ [1]) @ [b])
           | None \<Rightarrow> Fail (EnvelopeDecode ''ns_split_mode encode''))
      | None \<Rightarrow> Done (buf @ [0]))"

definition encode_envelope_fields :: "'c CidLib \<Rightarrow> 'c CodecEnvelope \<Rightarrow> u8 list \<Rightarrow> u8 list parse" where
  "encode_envelope_fields L e buf =
     (let num_parents = length (ce_parents e)
      in if num_parents > MAX_PARENTS then Fail (EnvelopeEncode ''too many parents'')
         else
           (let version = (if num_parents \<le> 1 then 2 else 3 :: u64);
                buf = encode_varint (zigzag_encode version) buf;
                buf = buf @ [envelope_flags e]
            in bind_parse (if ce_txn_meta e \<noteq> [] then encode_txn_meta (ce_txn_meta e) buf else Done buf) (\<lambda>buf.
               bind_parse
                 (if ce_parents e \<noteq> []
                  then if version = 3 then encode_commit_ids L (ce_parents e) (encode_varint (of_nat num_parents) buf)
                       else encode_commit_id L (ce_parents e ! 0) buf
                  else Done buf) (\<lambda>buf.
               let buf = (if ce_namespace_delta e \<noteq> [] then encode_ns_delta (ce_namespace_delta e) buf else buf)
               in bind_parse (case ce_txn e of Some txn \<Rightarrow> encode_len_bytes (cid_to_bytes L txn) buf | None \<Rightarrow> Done buf) (\<lambda>buf.
                  let buf = (case ce_time e of Some time \<Rightarrow> encode_len_str time buf | None \<Rightarrow> buf);
                      buf = (case ce_txn_signature e of Some sig \<Rightarrow> encode_txn_signature sig buf | None \<Rightarrow> buf)
                  in bind_parse (encode_graph_delta_ext (ce_graph_delta e) buf) (\<lambda>buf.
                     encode_ns_split_mode (ce_ns_split_mode e) buf)))))) "

section \<open>Decoding\<close>

definition decode_len_str :: "str reader" where
  "decode_len_str =
     bindR decode_varint (\<lambda>len.
     bindR (\<lambda>data pos. read_exact data pos (unat len)) (\<lambda>bs.
     liftR (case from_utf8 bs of Some s \<Rightarrow> Done s | None \<Rightarrow> Fail (EnvelopeDecode ''invalid UTF-8''))))"

definition decode_len_bytes :: "u8 list reader" where
  "decode_len_bytes =
     bindR decode_varint (\<lambda>len.
       if len > of_nat MAX_CID_BYTES then liftR (Fail (EnvelopeDecode ''CID byte length exceeds maximum''))
       else (\<lambda>data pos. read_exact data pos (unat len)))"

definition decode_commit_id :: "'c CidLib \<Rightarrow> 'c reader" where
  "decode_commit_id L =
     bindR decode_len_bytes (\<lambda>cid_bytes.
     liftR (case cid_from_bytes L cid_bytes of Some c \<Rightarrow> Done c | None \<Rightarrow> Fail (EnvelopeDecode ''invalid commit id CID'')))"

text \<open>\<open>HashMap::with_capacity\<close> panics when the buckets, 8/7 of the capacity rounded up to a power of two, of 33 bytes each
  overflow \<open>isize\<close>.\<close>

definition map_capacity_ok :: "nat \<Rightarrow> bool" where
  "map_capacity_ok n \<longleftrightarrow> n * 8 div 7 \<le> 2 ^ 57"

fun decode_delta_entries :: "u16 reader \<Rightarrow> nat \<Rightarrow> (u16, str) hashmap \<Rightarrow> (u16, str) hashmap reader" where
  "decode_delta_entries key 0 m = liftR (Done m)"
| "decode_delta_entries key (Suc n) m =
     bindR key (\<lambda>code. bindR decode_len_str (\<lambda>prefix. decode_delta_entries key n (hm_insert m code prefix)))"

definition decode_delta :: "u16 reader \<Rightarrow> (u16, str) hashmap reader" where
  "decode_delta key =
     bindR decode_varint (\<lambda>count.
       if \<not> map_capacity_ok (unat count) then liftR Abort else decode_delta_entries key (unat count) hm_empty)"

definition decode_ns_delta :: "(u16, str) hashmap reader" where
  "decode_ns_delta = decode_delta (bindR decode_varint (\<lambda>raw. liftR (Done (ucast raw))))"

definition decode_graph_delta :: "(u16, str) hashmap reader" where
  "decode_graph_delta =
     decode_delta (bindR decode_varint (\<lambda>raw. if raw > 0xFFFF then liftR (Fail (GIdOutOfRange raw)) else liftR (Done (ucast raw))))"

definition decode_txn_meta_value :: "TxnMetaValue reader" where
  "decode_txn_meta_value =
     bindR read_u8 (\<lambda>tag.
       if tag = 0 then bindR decode_len_str (\<lambda>s. liftR (Done (TM_String s)))
       else if tag = 1 then
         bindR decode_len_str (\<lambda>v. bindR decode_varint (\<lambda>dt_ns. bindR decode_len_str (\<lambda>dt_name.
           liftR (Done (TM_TypedLiteral v (ucast dt_ns) dt_name)))))
       else if tag = 2 then bindR decode_len_str (\<lambda>v. bindR decode_len_str (\<lambda>lang. liftR (Done (TM_LangString v lang))))
       else if tag = 3 then bindR decode_varint (\<lambda>ns. bindR decode_len_str (\<lambda>name. liftR (Done (TM_Ref (ucast ns) name))))
       else if tag = 4 then bindR decode_varint (\<lambda>raw. liftR (Done (TM_Long (zigzag_decode raw))))
       else if tag = 5 then
         bindR read_f64 (\<lambda>n.
           if \<not> is_finite n then liftR (Fail (EnvelopeDecode ''txn_meta contains non-finite double value'')) else liftR (Done (TM_Double n)))
       else if tag = 6 then bindR read_u8 (\<lambda>b. liftR (Done (TM_Boolean (b \<noteq> 0))))
       else liftR (Fail (EnvelopeDecode ''unknown txn_meta value tag'')))"

definition decode_txn_meta_entry :: "TxnMetaEntry reader" where
  "decode_txn_meta_entry =
     bindR decode_varint (\<lambda>predicate_ns.
     bindR decode_len_str (\<lambda>predicate_name.
     bindR decode_txn_meta_value (\<lambda>v.
     liftR (Done \<lparr>te_predicate_ns = ucast predicate_ns, te_predicate_name = predicate_name, te_value = v\<rparr>))))"

definition decode_txn_meta :: "TxnMetaEntry list reader" where
  "decode_txn_meta =
     bindR decode_varint (\<lambda>count.
       if unat count > MAX_TXN_META_ENTRIES then liftR (Fail (EnvelopeDecode ''txn_meta entry count exceeds maximum''))
       else readN (unat count) decode_txn_meta_entry)"

definition decode_parents :: "'c CidLib \<Rightarrow> u32 \<Rightarrow> 'c list reader" where
  "decode_parents L v =
     (if v = 3
      then bindR decode_varint (\<lambda>count.
        if unat count > MAX_PARENTS then liftR (Fail (EnvelopeDecode ''parents count exceeds maximum''))
        else readN (unat count) (decode_commit_id L))
      else bindR (decode_commit_id L) (\<lambda>c. liftR (Done [c])))"

definition decode_txn :: "'c CidLib \<Rightarrow> 'c reader" where
  "decode_txn L =
     bindR decode_len_bytes (\<lambda>cid_bytes.
     liftR (case cid_from_bytes L cid_bytes of Some c \<Rightarrow> Done c | None \<Rightarrow> Fail (EnvelopeDecode ''invalid txn CID'')))"

definition decode_txn_signature :: "TxnSignature reader" where
  "decode_txn_signature =
     bindR decode_len_str (\<lambda>signer.
     if length signer > 256 then liftR (Fail (EnvelopeDecode ''txn_signature signer length exceeds maximum 256''))
     else
     bindR read_u8 (\<lambda>has_txn_id.
     bindR (if has_txn_id \<noteq> 0
            then bindR decode_len_str (\<lambda>id.
              if length id > 256 then liftR (Fail (EnvelopeDecode ''txn_signature txn_id length exceeds maximum 256''))
              else liftR (Done (Some id)))
            else liftR (Done None)) (\<lambda>txn_id.
     liftR (Done \<lparr>ts_signer = signer, ts_txn_id = txn_id\<rparr>))))"

definition when_flag :: "bool \<Rightarrow> 'a \<Rightarrow> 'a reader \<Rightarrow> 'a reader" where
  "when_flag b x p = (if b then p else liftR (Done x))"

definition when_more :: "'a \<Rightarrow> 'a reader \<Rightarrow> 'a reader" where
  "when_more x p = (\<lambda>data pos. if pos < length data then p data pos else Done (x, pos))"

definition decode_fields :: "'c CidLib \<Rightarrow> 'c CodecEnvelope reader" where
  "decode_fields L =
     bindR decode_varint (\<lambda>raw.
     let v = (ucast (zigzag_decode raw) :: u32)
     in if v \<noteq> 2 \<and> v \<noteq> 3 then liftR (Fail (EnvelopeDecode ''unsupported envelope version''))
     else
     bindR read_u8 (\<lambda>flags.
     if flags AND NOT KNOWN_FLAGS \<noteq> 0 then liftR (Fail (EnvelopeDecode ''unknown envelope flags''))
     else
     bindR (when_flag (flags AND FLAG_TXN_META \<noteq> 0) [] decode_txn_meta) (\<lambda>txn_meta.
     bindR (when_flag (flags AND FLAG_PARENT \<noteq> 0) [] (decode_parents L v)) (\<lambda>parents.
     bindR (when_flag (flags AND FLAG_NAMESPACE_DELTA \<noteq> 0) hm_empty decode_ns_delta) (\<lambda>namespace_delta.
     bindR (when_flag (flags AND FLAG_TXN \<noteq> 0) None (bindR (decode_txn L) (\<lambda>c. liftR (Done (Some c))))) (\<lambda>txn.
     bindR (when_flag (flags AND FLAG_TIME \<noteq> 0) None (bindR decode_len_str (\<lambda>s. liftR (Done (Some s))))) (\<lambda>time.
     bindR (when_flag (flags AND FLAG_TXN_SIGNATURE \<noteq> 0) None (bindR decode_txn_signature (\<lambda>s. liftR (Done (Some s))))) (\<lambda>txn_signature.
     bindR (when_more hm_empty (bindR read_u8 (\<lambda>b. when_flag (b \<noteq> 0) hm_empty decode_graph_delta))) (\<lambda>graph_delta.
     bindR (when_more None (bindR read_u8 (\<lambda>b. when_flag (b \<noteq> 0) None
       (bindR read_u8 (\<lambda>m. liftR (Done (Some (NsSplitMode_from_byte m)))))))) (\<lambda>ns_split_mode.
     liftR (Done \<lparr>ce_t = 0, ce_parents = parents, ce_namespace_delta = namespace_delta, ce_txn = txn, ce_time = time,
       ce_txn_signature = txn_signature, ce_txn_meta = txn_meta, ce_graph_delta = graph_delta, ce_ns_split_mode = ns_split_mode\<rparr>)))))))))))"

definition decode_envelope :: "'c CidLib \<Rightarrow> u8 list \<Rightarrow> 'c CodecEnvelope parse" where
  "decode_envelope L data =
     bind_parse (decode_fields L data 0) (\<lambda>(e, pos).
       if pos \<noteq> length data then Fail (EnvelopeDecode ''trailing bytes'') else Done e)"

end
