(* ===== verification/CommitBlob.thy ===== *)
theory CommitBlob
  imports CommitEnvelope
begin

text \<open>
  Whole commit blobs: \<open>write_commit\<close> of \<open>commit/codec/writer.rs\<close>, the two readers of a version 4 blob, \<open>read_commit_v4\<close>
  (\<open>reader.rs\<close>) that rebuilds the flakes and \<open>load_commit_ops_v4\<close> (\<open>raw_reader.rs\<close>) that keeps them raw, and the readers of
  the envelope alone.

  The libraries the code calls are parameters: \<open>zstd\<close> as two functions, the content id of a blob, the signer (its DID and
  what it signs a body with), and the parsers of the textual values, which \<open>TextLib\<close> gives as the text of the parsed value.
\<close>

section \<open>Libraries\<close>

record Zstd =
  zstd_encode :: "u8 list \<Rightarrow> u8 list option"
  zstd_decode :: "u8 list \<Rightarrow> u8 list option"

record TextLib =
  text_parse :: "OTag \<Rightarrow> str \<Rightarrow> str option"
  geo_point :: "u64 \<Rightarrow> u64 \<Rightarrow> (u64 \<times> u64) option"

record Signer =
  sg_did :: str
  sg_sign :: "u8 list \<Rightarrow> u8 list"

section \<open>Flakes from ops\<close>

primrec try_from :: "TextLib \<Rightarrow> RawObject \<Rightarrow> FlakeValue option" where
  "try_from T (Raw_Ref ns_code name) = Some (FV_Ref \<lparr>sid_namespace_code = ns_code, sid_name = name\<rparr>)"
| "try_from T (Raw_Long n) = Some (FV_Long n)"
| "try_from T (Raw_Double n) = Some (FV_Double n)"
| "try_from T (Raw_Str s) = Some (FV_String s)"
| "try_from T (Raw_Boolean b) = Some (FV_Boolean b)"
| "try_from T Raw_Null = Some FV_Null"
| "try_from T (Raw_JsonStr s) = Some (FV_Json s)"
| "try_from T (Raw_DateTimeStr s) = map_option FV_DateTime (text_parse T Tag_DateTime s)"
| "try_from T (Raw_DateStr s) = map_option FV_Date (text_parse T Tag_Date s)"
| "try_from T (Raw_TimeStr s) = map_option FV_Time (text_parse T Tag_Time s)"
| "try_from T (Raw_BigIntStr s) = map_option FV_BigInt (text_parse T Tag_BigInt s)"
| "try_from T (Raw_DecimalStr s) = map_option FV_Decimal (text_parse T Tag_Decimal s)"
| "try_from T (Raw_GYearStr s) = map_option FV_GYear (text_parse T Tag_GYear s)"
| "try_from T (Raw_GYearMonthStr s) = map_option FV_GYearMonth (text_parse T Tag_GYearMonth s)"
| "try_from T (Raw_GMonthStr s) = map_option FV_GMonth (text_parse T Tag_GMonth s)"
| "try_from T (Raw_GDayStr s) = map_option FV_GDay (text_parse T Tag_GDay s)"
| "try_from T (Raw_GMonthDayStr s) = map_option FV_GMonthDay (text_parse T Tag_GMonthDay s)"
| "try_from T (Raw_YearMonthDurationStr s) = map_option FV_YearMonthDuration (text_parse T Tag_YearMonthDuration s)"
| "try_from T (Raw_DayTimeDurationStr s) = map_option FV_DayTimeDuration (text_parse T Tag_DayTimeDuration s)"
| "try_from T (Raw_DurationStr s) = map_option FV_Duration (text_parse T Tag_Duration s)"
| "try_from T (Raw_GeoPoint lat lng) = map_option (\<lambda>(lat, lng). FV_GeoPoint lat lng) (geo_point T lat lng)"
| "try_from T (Raw_Vector v) = Some (FV_Vector v)"

definition decode_ns_code :: "u16 reader" where
  "decode_ns_code =
     bindR decode_varint (\<lambda>raw.
       if raw > 0xFFFF then liftR (Fail (InvalidOp ''namespace code exceeds u16::MAX'')) else liftR (Done (ucast raw)))"

definition decode_object :: "TextLib \<Rightarrow> OTag \<Rightarrow> ReadDicts \<Rightarrow> FlakeValue reader" where
  "decode_object T tag dicts =
     bindR (decode_raw_object tag dicts) (\<lambda>raw.
     liftR (case try_from T raw of Some v \<Rightarrow> Done v | None \<Rightarrow> Fail (InvalidOp ''bad value'')))"

definition decode_flake_sid :: "StringDict \<Rightarrow> Sid reader" where
  "decode_flake_sid d =
     bindR decode_ns_code (\<lambda>ns_code.
     bindR decode_varint (\<lambda>name_id.
     bindR (liftR (dict_get d (ucast name_id))) (\<lambda>name.
     liftR (Done \<lparr>sid_namespace_code = ns_code, sid_name = name\<rparr>))))"

definition decode_graph :: "StringDict \<Rightarrow> Sid option reader" where
  "decode_graph d =
     bindR decode_ns_code (\<lambda>g_ns_code.
     bindR decode_varint (\<lambda>g_name_id.
       if g_ns_code = 0 \<and> (ucast g_name_id :: u32) = 0 then liftR (Done None)
       else if (ucast g_name_id :: u32) = 0
       then liftR (Fail (InvalidOp ''graph name_id 0 is reserved (use (0,0) for default graph)''))
       else bindR (liftR (dict_get d (ucast g_name_id))) (\<lambda>g_name.
         liftR (Done (Some \<lparr>sid_namespace_code = g_ns_code, sid_name = g_name\<rparr>)))))"

definition flake_meta :: "str option \<Rightarrow> u32 option \<Rightarrow> FlakeMeta option" where
  "flake_meta lang i =
     (case (lang, i) of
        (Some l, Some idx) \<Rightarrow> Some \<lparr>fm_lang = Some l, fm_i = Some idx\<rparr>
      | (Some l, None) \<Rightarrow> Some \<lparr>fm_lang = Some l, fm_i = None\<rparr>
      | (None, Some idx) \<Rightarrow> Some \<lparr>fm_lang = None, fm_i = Some idx\<rparr>
      | (None, None) \<Rightarrow> None)"

definition decode_op :: "TextLib \<Rightarrow> ReadDicts \<Rightarrow> u64 \<Rightarrow> Flake reader" where
  "decode_op T dicts t =
     bindR (decode_graph (rd_graph dicts)) (\<lambda>g.
     bindR (decode_flake_sid (rd_subject dicts)) (\<lambda>s.
     bindR (decode_flake_sid (rd_predicate dicts)) (\<lambda>p.
     bindR (decode_flake_sid (rd_datatype dicts)) (\<lambda>dt.
     bindR read_u8 (\<lambda>b.
     bindR (liftR (OTag_from_u8 b)) (\<lambda>o_tag.
     bindR (decode_object T o_tag dicts) (\<lambda>obj.
     bindR read_u8 (\<lambda>flags.
     bindR (if flags AND OP_FLAG_HAS_LANG \<noteq> 0 then bindR decode_inline_str (\<lambda>s. liftR (Done (Some s))) else liftR (Done None)) (\<lambda>lang.
     bindR (if flags AND OP_FLAG_HAS_I \<noteq> 0
            then bindR decode_varint (\<lambda>raw.
              if raw > 0x7FFFFFFF then liftR (Fail (InvalidOp ''list index exceeds i32::MAX'')) else liftR (Done (Some (ucast raw))))
            else liftR (Done None)) (\<lambda>i.
     liftR (Done \<lparr>fl_g = g, fl_s = s, fl_p = p, fl_o = obj, fl_dt = dt, fl_t = t, fl_op = (flags AND OP_FLAG_ASSERT \<noteq> 0),
       fl_m = flake_meta lang i\<rparr>)))))))))))"

section \<open>Commits\<close>

record 'c Commit =
  cm_id :: "'c option"
  cm_t :: u64
  cm_time :: "str option"
  cm_flakes :: "Flake list"
  cm_parents :: "'c list"
  cm_txn :: "'c option"
  cm_namespace_delta :: "(u16, str) hashmap"
  cm_txn_signature :: "TxnSignature option"
  cm_commit_signatures :: "CommitSignature list"
  cm_txn_meta :: "TxnMetaEntry list"
  cm_graph_delta :: "(u16, str) hashmap"
  cm_ns_split_mode :: "NsSplitMode option"

definition from_commit :: "'c Commit \<Rightarrow> 'c CodecEnvelope" where
  "from_commit c =
     \<lparr>ce_t = cm_t c, ce_parents = cm_parents c, ce_namespace_delta = cm_namespace_delta c, ce_txn = cm_txn c, ce_time = cm_time c,
      ce_txn_signature = cm_txn_signature c, ce_txn_meta = cm_txn_meta c, ce_graph_delta = cm_graph_delta c,
      ce_ns_split_mode = cm_ns_split_mode c\<rparr>"

definition encode_envelope :: "'c CidLib \<Rightarrow> 'c Commit \<Rightarrow> u8 list \<Rightarrow> u8 list parse" where
  "encode_envelope L c buf = encode_envelope_fields L (from_commit c) buf"

section \<open>Writing\<close>

definition commit_sig :: "str \<Rightarrow> u8 list \<Rightarrow> CommitSignature" where
  "commit_sig did signature = \<lparr>cs_signer = did, cs_algo = ALGO_ED25519, cs_signature = signature, cs_metadata = None\<rparr>"

definition pre_sig_block_len :: "Signer option \<Rightarrow> u16" where
  "pre_sig_block_len signing =
     (case signing of Some sg \<Rightarrow> of_nat (sig_block_size [commit_sig (sg_did sg) (replicate 64 0)]) | None \<Rightarrow> 0)"

definition compress_ops :: "Zstd \<Rightarrow> bool \<Rightarrow> u8 list \<Rightarrow> (u8 list \<times> bool) parse" where
  "compress_ops Z compress ops_raw =
     (if compress \<and> ops_raw \<noteq> []
      then case zstd_encode Z ops_raw of
             None \<Rightarrow> Fail CompressionFailed
           | Some compressed \<Rightarrow> if length compressed < length ops_raw then Done (compressed, True) else Done (ops_raw, False)
      else Done (ops_raw, False))"

fun append_dicts :: "u8 list list \<Rightarrow> u8 list \<Rightarrow> DictLocation list \<times> u8 list" where
  "append_dicts [] output = ([], output)"
| "append_dicts (bytes # rest) output =
     (let loc = \<lparr>dl_offset = of_nat (length output), dl_len = of_nat (length bytes)\<rparr>;
          (locs, output) = append_dicts rest (output @ bytes)
      in (loc # locs, output))"

definition write_commit :: "'c CidLib \<Rightarrow> Zstd \<Rightarrow> 'c Commit \<Rightarrow> bool \<Rightarrow> Signer option \<Rightarrow> u8 list parse" where
  "write_commit L Z commit compress signing =
     (if sint (cm_t commit) < 0 \<or> sint (cm_t commit) > 0xFFFFFFFF then Fail (TOutOfRange (sint (cm_t commit)))
      else
        bind_parse (encode_envelope L commit []) (\<lambda>envelope_bytes.
        bind_parse (encode_ops (cm_flakes commit) CommitDicts_new []) (\<lambda>(dicts, ops_raw).
        bind_parse (compress_ops Z compress ops_raw) (\<lambda>(ops_section, is_compressed).
        let dict_bytes = map dict_serialize [cd_graph dicts, cd_subject dicts, cd_predicate dicts, cd_datatype dicts, cd_object_ref dicts];
            flags = 0;
            flags = (if is_compressed then flags OR FLAG_ZSTD else flags);
            flags = (if signing \<noteq> None then flags OR FLAG_HAS_COMMIT_SIG else flags);
            header = \<lparr>ch_version = VERSION, ch_flags = flags, ch_t = cm_t commit, ch_op_count = of_nat (length (cm_flakes commit)),
              ch_envelope_len = of_nat (length envelope_bytes), ch_sig_block_len = pre_sig_block_len signing\<rparr>
        in bind_parse (CommitHeader_write_to header (replicate HEADER_LEN 0)) (\<lambda>header_buf.
           let output = header_buf @ envelope_bytes @ ops_section;
               (dict_locations, output) = append_dicts dict_bytes output;
               footer = \<lparr>cf_dicts = dict_locations, cf_ops_section_len = of_nat (length ops_section)\<rparr>
           in bind_parse (CommitFooter_write_to footer (replicate FOOTER_LEN 0)) (\<lambda>footer_buf.
              let output = output @ footer_buf
              in Done (case signing of
                   Some sg \<Rightarrow> encode_sig_block [commit_sig (sg_did sg) (sg_sign sg output)] output
                 | None \<Rightarrow> output)))))))"

section \<open>Reading\<close>

text \<open>Indexing a slice with a range panics when the range is backwards or ends past the slice.\<close>

definition range :: "nat \<Rightarrow> nat \<Rightarrow> 'a list \<Rightarrow> 'a list parse" where
  "range i j xs = (if i \<le> j \<and> j \<le> length xs then Done (slice i j xs) else Abort)"

text \<open>\<open>usize\<close> arithmetic of a release build.\<close>

definition add_usize :: "nat \<Rightarrow> nat \<Rightarrow> nat" where
  "add_usize a b = (a + b) mod 2 ^ 64"

definition sub_usize :: "nat \<Rightarrow> nat \<Rightarrow> nat" where
  "sub_usize a b = (if b \<le> a then a - b else 2 ^ 64 + a - b)"

definition load_one :: "u8 list \<Rightarrow> nat \<Rightarrow> DictLocation \<Rightarrow> nat \<Rightarrow> (StringDict \<times> nat) parse" where
  "load_one bytes valid_end loc prev_end =
     (let start = unat (dl_offset loc); stop = add_usize start (unat (dl_len loc))
      in if start < prev_end then Fail (InvalidDictionary ''dict overlaps previous region'')
         else if stop > valid_end then Fail (InvalidDictionary ''dict extends past dict region end'')
         else bind_parse (range start stop bytes) (\<lambda>bs. bind_parse (dict_deserialize bs) (\<lambda>d. Done (d, stop))))"

definition load_dicts :: "u8 list \<Rightarrow> CommitFooter \<Rightarrow> nat \<Rightarrow> nat \<Rightarrow> ReadDicts parse" where
  "load_dicts bytes footer valid_start valid_end =
     bind_parse (load_one bytes valid_end (cf_dicts footer ! 0) valid_start) (\<lambda>(graph, prev_end).
     bind_parse (load_one bytes valid_end (cf_dicts footer ! 1) prev_end) (\<lambda>(subject, prev_end).
     bind_parse (load_one bytes valid_end (cf_dicts footer ! 2) prev_end) (\<lambda>(predicate, prev_end).
     bind_parse (load_one bytes valid_end (cf_dicts footer ! 3) prev_end) (\<lambda>(datatyp, prev_end).
     bind_parse (load_one bytes valid_end (cf_dicts footer ! 4) prev_end) (\<lambda>(object_ref, prev_end).
     Done \<lparr>rd_graph = graph, rd_subject = subject, rd_predicate = predicate, rd_datatype = datatyp, rd_object_ref = object_ref\<rparr>)))))"

definition has_sig_block :: "CommitHeader \<Rightarrow> bool" where
  "has_sig_block h \<longleftrightarrow> ch_flags h AND FLAG_HAS_COMMIT_SIG \<noteq> 0 \<and> unat (ch_sig_block_len h) > 0"

definition body_end_of :: "CommitHeader \<Rightarrow> nat \<Rightarrow> nat parse" where
  "body_end_of h blob_len =
     (if has_sig_block h
      then if blob_len < unat (ch_sig_block_len h) then Fail (TooSmall blob_len (unat (ch_sig_block_len h)))
           else Done (blob_len - unat (ch_sig_block_len h))
      else Done blob_len)"

definition read_envelope :: "'c CidLib \<Rightarrow> CommitHeader \<Rightarrow> u8 list \<Rightarrow> ('c CodecEnvelope \<times> nat) parse" where
  "read_envelope L h bytes =
     (let envelope_end = HEADER_LEN + unat (ch_envelope_len h)
      in if envelope_end > length bytes then Fail (TooSmall (length bytes) envelope_end)
         else bind_parse (range HEADER_LEN envelope_end bytes) (\<lambda>bs.
           bind_parse (decode_envelope L bs) (\<lambda>e. Done (e, envelope_end))))"

text \<open>Steps 5 to 8 of both readers: the footer, the bounds of the ops section, the dictionaries and the ops.\<close>

definition read_ops :: "Zstd \<Rightarrow> CommitHeader \<Rightarrow> u8 list \<Rightarrow> nat \<Rightarrow> nat \<Rightarrow> (ReadDicts \<times> u8 list) parse" where
  "read_ops Z h bytes envelope_end body_end =
     (let footer_start = sub_usize body_end FOOTER_LEN
      in bind_parse (range footer_start body_end bytes) (\<lambda>footer_bytes.
         bind_parse (CommitFooter_read_from footer_bytes) (\<lambda>footer.
         let ops_start = envelope_end; ops_end = ops_start + unat (cf_ops_section_len footer)
         in if ops_end > footer_start then Fail (InvalidOp ''ops section extends into footer'')
            else
              bind_parse (load_dicts bytes footer ops_end footer_start) (\<lambda>dicts.
              bind_parse (range ops_start ops_end bytes) (\<lambda>ops_bytes.
              bind_parse
                (if ch_flags h AND FLAG_ZSTD \<noteq> 0
                 then case zstd_decode Z ops_bytes of Some ops \<Rightarrow> Done ops | None \<Rightarrow> Fail DecompressionFailed
                 else Done ops_bytes) (\<lambda>ops_data.
              Done (dicts, ops_data)))))))"

record 'c CommitOps =
  co_envelope :: "'c CodecEnvelope"
  co_t :: u64
  co_op_count :: u32
  co_dicts :: ReadDicts
  co_ops_data :: "u8 list"

definition load_commit_ops_v4 :: "'c CidLib \<Rightarrow> Zstd \<Rightarrow> u8 list \<Rightarrow> 'c CommitOps parse" where
  "load_commit_ops_v4 L Z bytes =
     (let blob_len = length bytes
      in if blob_len < MIN_COMMIT_LEN then Fail (TooSmall blob_len MIN_COMMIT_LEN)
         else
           bind_parse (CommitHeader_read_from bytes) (\<lambda>header.
           bind_parse (body_end_of header blob_len) (\<lambda>body_end.
           bind_parse (read_envelope L header bytes) (\<lambda>(envelope, envelope_end).
           bind_parse (read_ops Z header bytes envelope_end body_end) (\<lambda>(dicts, ops_data).
           Done \<lparr>co_envelope = envelope\<lparr>ce_t := ch_t header\<rparr>, co_t = ch_t header, co_op_count = ch_op_count header,
             co_dicts = dicts, co_ops_data = ops_data\<rparr>)))))"

text \<open>What \<open>for_each_op\<close> hands to its callback, for a blob of version 4.\<close>

definition for_each_op :: "'c CommitOps \<Rightarrow> RawOp list parse" where
  "for_each_op ops = bind_parse (decode_ops (unat (co_op_count ops)) (co_dicts ops) (co_ops_data ops) 0) (\<lambda>(raw_ops, pos). Done raw_ops)"

definition read_commit_v4 :: "'c CidLib \<Rightarrow> Zstd \<Rightarrow> TextLib \<Rightarrow> (u8 list \<Rightarrow> 'c) \<Rightarrow> u8 list \<Rightarrow> 'c Commit parse" where
  "read_commit_v4 L Z T content_id bytes =
     (let blob_len = length bytes
      in if blob_len < MIN_COMMIT_LEN then Fail (TooSmall blob_len MIN_COMMIT_LEN)
         else
           bind_parse (CommitHeader_read_from bytes) (\<lambda>header.
           bind_parse (body_end_of header blob_len) (\<lambda>body_end.
           let commit_id = content_id bytes
           in bind_parse
                (if has_sig_block header
                 then bind_parse (range body_end (body_end + unat (ch_sig_block_len header)) bytes) decode_sig_block
                 else Done []) (\<lambda>commit_signatures.
              bind_parse (read_envelope L header bytes) (\<lambda>(envelope, envelope_end).
              bind_parse (read_ops Z header bytes envelope_end body_end) (\<lambda>(dicts, ops_data).
              bind_parse (readN (unat (ch_op_count header)) (decode_op T dicts (ch_t header)) ops_data 0) (\<lambda>(flakes, pos).
              Done \<lparr>cm_id = Some commit_id, cm_t = ch_t header, cm_time = ce_time envelope, cm_flakes = flakes,
                cm_parents = ce_parents envelope, cm_txn = ce_txn envelope, cm_namespace_delta = ce_namespace_delta envelope,
                cm_txn_signature = ce_txn_signature envelope, cm_commit_signatures = commit_signatures,
                cm_txn_meta = ce_txn_meta envelope, cm_graph_delta = ce_graph_delta envelope,
                cm_ns_split_mode = ce_ns_split_mode envelope\<rparr>)))))))"

record 'c CommitEnvelope =
  en_t :: u64
  en_parents :: "'c list"
  en_txn :: "'c option"
  en_namespace_delta :: "(u16, str) hashmap"
  en_txn_meta :: "TxnMetaEntry list"
  en_graph_delta :: "(u16, str) hashmap"
  en_ns_split_mode :: "NsSplitMode option"

definition read_commit_envelope_v4 :: "'c CidLib \<Rightarrow> u8 list \<Rightarrow> 'c CommitEnvelope parse" where
  "read_commit_envelope_v4 L bytes =
     (if length bytes < HEADER_LEN then Fail (TooSmall (length bytes) HEADER_LEN)
      else
        bind_parse (CommitHeader_read_from bytes) (\<lambda>header.
        bind_parse (read_envelope L header bytes) (\<lambda>(env, envelope_end).
        Done \<lparr>en_t = ch_t header, en_parents = ce_parents env, en_txn = ce_txn env, en_namespace_delta = ce_namespace_delta env,
          en_txn_meta = ce_txn_meta env, en_graph_delta = ce_graph_delta env, en_ns_split_mode = ce_ns_split_mode env\<rparr>)))"

definition verify_commit_blob_v4 :: "(u8 list \<Rightarrow> 'c) \<Rightarrow> u8 list \<Rightarrow> 'c parse" where
  "verify_commit_blob_v4 content_id bytes =
     (let blob_len = length bytes
      in if blob_len < MIN_COMMIT_LEN then Fail (TooSmall blob_len MIN_COMMIT_LEN)
         else bind_parse (CommitHeader_read_from bytes) (\<lambda>_. Done (content_id bytes)))"

datatype CommitBlobVersion = V3 | V4

definition detect_version :: "u8 list \<Rightarrow> CommitBlobVersion parse" where
  "detect_version bytes =
     (if length bytes < HEADER_LEN then Fail (TooSmall (length bytes) HEADER_LEN)
      else if slice 0 4 bytes \<noteq> MAGIC then Fail InvalidMagic
      else if bytes ! 4 = VERSION_V3 then Done V3
      else if bytes ! 4 = VERSION then Done V4
      else Fail (UnsupportedVersion (bytes ! 4)))"

end
