(* ===== verification/CommitEnvelopeRoundTrip.thy ===== *)
theory CommitEnvelopeRoundTrip
  imports CommitEnvelope
begin

text \<open>
  Every envelope the encoder accepts reads back as it was, up to the order of the two hash maps and the field \<open>t\<close>, which
  travels in the header. The one limit the decoder has and the encoder lacks is on the transaction signature.
\<close>

section \<open>Parts\<close>

lemma reads_when: "(b \<Longrightarrow> reads p bs x) \<Longrightarrow> (\<not> b \<Longrightarrow> bs = [] \<and> x = d) \<Longrightarrow> reads (when_flag b d p) bs x"
  by (cases b) (simp_all add: when_flag_def reads_pure)

lemma reads_more: "reads p bs x \<Longrightarrow> bs \<noteq> [] \<Longrightarrow> reads (when_more d p) bs x"
  by (auto simp: reads_def when_more_def)

lemma encode_len_str_bytes: "encode_len_str s buf = buf @ entry_bytes s"
  using encode_varint_append [of "of_nat (length s)" buf] by (simp add: encode_len_str_def)

lemma reads_len_str:
  assumes "str_ok s"
  shows "reads decode_len_str (entry_bytes s) s"
proof -
  have "reads (\<lambda>data pos. read_exact data pos (unat (of_nat (length s) :: u64))) s s"
    using assms by (intro reads_exact) (simp add: str_ok_def unat_of_usize)
  moreover have "reads (liftR (case from_utf8 s of Some s \<Rightarrow> Done s | None \<Rightarrow> Fail (EnvelopeDecode ''invalid UTF-8''))) [] s"
    using assms reads_pure [of s] by (simp add: from_utf8_def str_ok_def)
  ultimately show ?thesis
    unfolding decode_len_str_def by (intro reads_bind [OF reads_varint] reads_bind [where bs = s and cs = "[]", simplified])
qed

definition cid_lib :: "'c CidLib \<Rightarrow> bool" where
  "cid_lib L \<longleftrightarrow> (\<forall>c. cid_from_bytes L (cid_to_bytes L c) = Some c)"

lemma encode_len_bytes_Done:
  assumes "encode_len_bytes bs buf = Done buf'"
  shows "buf' = buf @ entry_bytes bs" "reads decode_len_bytes (entry_bytes bs) bs"
proof -
  have len: "length bs \<le> MAX_CID_BYTES" using assms by (simp add: encode_len_bytes_def split: if_splits)
  then have n: "unat (of_nat (length bs) :: u64) = length bs" by (intro unat_of_usize) (simp add: MAX_CID_BYTES_def usize_max_def)
  show "buf' = buf @ entry_bytes bs"
    using assms encode_varint_append [of "of_nat (length bs)" buf] by (simp add: encode_len_bytes_def split: if_splits)
  have "\<not> (of_nat (length bs) :: u64) > of_nat MAX_CID_BYTES"
    using len n by (simp add: word_less_nat_alt MAX_CID_BYTES_def)
  then show "reads decode_len_bytes (entry_bytes bs) bs"
    unfolding decode_len_bytes_def by (intro reads_bind [OF reads_varint]) (simp add: n reads_exact)
qed

lemma encode_commit_id_Done:
  assumes "encode_commit_id L c buf = Done buf'" "cid_lib L"
  shows "buf' = buf @ entry_bytes (cid_to_bytes L c)" "reads (decode_commit_id L) (entry_bytes (cid_to_bytes L c)) c"
    "reads (decode_txn L) (entry_bytes (cid_to_bytes L c)) c"
proof -
  note e = encode_len_bytes_Done [OF assms(1) [unfolded encode_commit_id_def]]
  have f: "cid_from_bytes L (cid_to_bytes L c) = Some c" using assms(2) by (simp add: cid_lib_def)
  show "buf' = buf @ entry_bytes (cid_to_bytes L c)" by (rule e(1))
  show "reads (decode_commit_id L) (entry_bytes (cid_to_bytes L c)) c" "reads (decode_txn L) (entry_bytes (cid_to_bytes L c)) c"
    unfolding decode_commit_id_def decode_txn_def
    using reads_bind [OF e(2), of _ "[]" c] by (simp_all add: f reads_pure)
qed

lemma encode_commit_ids_Done:
  assumes "encode_commit_ids L cs buf = Done buf'" "cid_lib L"
  shows "\<exists>bs. buf' = buf @ bs \<and> reads (readN (length cs) (decode_commit_id L)) bs cs"
  using assms(1)
proof (induction cs arbitrary: buf)
  case (Cons c cs)
  then obtain buf1 where c: "encode_commit_id L c buf = Done buf1" and cs: "encode_commit_ids L cs buf1 = Done buf'"
    by (auto simp: bind_parse_Done)
  note e = encode_commit_id_Done [OF c assms(2)]
  obtain bs where "buf' = buf1 @ bs" "reads (readN (length cs) (decode_commit_id L)) bs cs" using Cons.IH [OF cs] by blast
  then show ?case using reads_Suc [OF e(2)] e(1) by auto
qed (simp add: reads_pure)

section \<open>Deltas\<close>

definition delta_ok :: "(u16, str) hashmap \<Rightarrow> bool" where
  "delta_ok m \<longleftrightarrow> hm_wf m \<and> list_all (str_ok \<circ> snd) m"

abbreviation delta_entry_bytes :: "u16 \<times> str \<Rightarrow> u8 list" where
  "delta_entry_bytes kv \<equiv> encode_varint (ucast (fst kv)) [] @ entry_bytes (snd kv)"

lemma encode_delta_bytes: "fold encode_delta_entry es buf = buf @ concat (map delta_entry_bytes es)"
proof (induction es arbitrary: buf)
  case (Cons e es)
  have "encode_delta_entry e buf = buf @ delta_entry_bytes e"
    using encode_varint_append [of "ucast (fst e)" buf] by (cases e) (simp add: encode_delta_entry_def encode_len_str_bytes)
  then show ?case by (simp add: Cons)
qed simp

lemma hm_insert_fresh: "k \<notin> fst ` set m \<Longrightarrow> hm_insert m k v = m @ [(k, v)]"
  unfolding hm_insert_def by (induction m) auto

lemma reads_delta_entries:
  assumes "\<And>k. reads key (encode_varint (ucast (k :: u16)) []) k" "list_all (str_ok \<circ> snd) es" "distinct (map fst (m @ es))"
  shows "reads (decode_delta_entries key (length es) m) (concat (map delta_entry_bytes es)) (m @ es)"
  using assms(2,3)
proof (induction es arbitrary: m)
  case (Cons e es)
  have "hm_insert m (fst e) (snd e) = m @ [e]" using Cons.prems(2) hm_insert_fresh [of "fst e" m "snd e"] by simp
  then have "reads (decode_delta_entries key (length es) (hm_insert m (fst e) (snd e))) (concat (map delta_entry_bytes es)) (m @ e # es)"
    using Cons.IH [of "m @ [e]"] Cons.prems by simp
  then have "reads (bindR decode_len_str (\<lambda>prefix. decode_delta_entries key (length es) (hm_insert m (fst e) prefix)))
      (entry_bytes (snd e) @ concat (map delta_entry_bytes es)) (m @ e # es)"
    using Cons.prems(1) by (intro reads_bind [OF reads_len_str]) simp_all
  from reads_bind [where q = "\<lambda>code. bindR decode_len_str (\<lambda>prefix. decode_delta_entries key (length es) (hm_insert m code prefix))",
      OF assms(1) [of "fst e"] this] show ?case by simp
qed (simp add: reads_pure)


lemma delta_ok_sorted:
  assumes "delta_ok m"
  shows "distinct (map fst (sort_key fst m))" "list_all (str_ok \<circ> snd) (sort_key fst m)" "hm_eq (sort_key fst m) m"
    "unat (of_nat (length m) :: u64) = length m" "map_capacity_ok (length m)"
proof -
  have d: "distinct (map fst m)" using assms by (simp add: delta_ok_def hm_wf_def)
  have p: "mset (map fst (sort_key fst m)) = mset (map fst m)" by simp
  show s: "distinct (map fst (sort_key fst m))" using d mset_eq_imp_distinct_iff [OF p] by simp
  show "list_all (str_ok \<circ> snd) (sort_key fst m)" using assms by (simp add: delta_ok_def list_all_iff)
  have "map_of (sort_key fst m) = map_of m" by (rule map_of_inject_set [THEN iffD2]) (use d s in simp_all)
  then show "hm_eq (sort_key fst m) m" by (simp add: hm_eq_def hm_get_def)
  have "length m = card (set (map fst m))" using distinct_card [OF d] by simp
  also have "\<dots> \<le> card (UNIV :: u16 set)" by (rule card_mono) simp_all
  also have "\<dots> = 2 ^ 16" by (simp add: card_word)
  finally have "length m \<le> 65536" by simp
  then show "unat (of_nat (length m) :: u64) = length m" "map_capacity_ok (length m)"
    by (simp_all add: unat_of_nat map_capacity_ok_def)
qed

lemma reads_delta:
  assumes "delta_ok m" "\<And>k. reads key (encode_varint (ucast (k :: u16)) []) k"
  shows "reads (decode_delta key) (encode_varint (of_nat (length m)) [] @ concat (map delta_entry_bytes (sort_key fst m))) (sort_key fst m)"
proof -
  note d = delta_ok_sorted [OF assms(1)]
  have "reads (decode_delta_entries key (length (sort_key fst m)) hm_empty) (concat (map delta_entry_bytes (sort_key fst m))) (hm_empty @ sort_key fst m)"
    using d by (intro reads_delta_entries [OF assms(2)]) (simp_all add: hm_empty_def)
  then show ?thesis
    unfolding decode_delta_def using d(4,5) by (intro reads_bind [OF reads_varint]) (simp add: hm_empty_def)
qed

lemma reads_ns_delta:
  assumes "delta_ok m"
  shows "reads decode_ns_delta (encode_varint (of_nat (length m)) [] @ concat (map delta_entry_bytes (sort_key fst m))) (sort_key fst m)"
  unfolding decode_ns_delta_def by (rule reads_delta [OF assms], rule reads_then_eq [OF reads_varint]) (simp add: ucast_back)

lemma u16_in_range: "\<not> (ucast (k :: u16) :: u64) > 0xFFFF"
proof -
  have "unat (ucast k :: u64) = unat k" by (simp add: unsigned_ucast_eq take_bit_nat_eq_self unsigned_less [THEN order.strict_trans2])
  moreover have "unat k < 65536" using unsigned_less [of k] by simp
  ultimately show ?thesis by (simp add: word_less_nat_alt)
qed

lemma reads_graph_delta:
  assumes "delta_ok m"
  shows "reads decode_graph_delta (encode_varint (of_nat (length m)) [] @ concat (map delta_entry_bytes (sort_key fst m))) (sort_key fst m)"
  unfolding decode_graph_delta_def
proof (rule reads_delta [OF assms])
  fix k :: u16
  let ?q = "\<lambda>raw :: u64. if raw > 0xFFFF then liftR (Fail (GIdOutOfRange raw)) else liftR (Done (ucast raw :: u16))"
  have "reads (?q (ucast k)) [] k" using reads_pure [of k] u16_in_range [of k] by (simp add: ucast_back)
  then have "reads (bindR decode_varint ?q) (encode_varint (ucast k) [] @ []) k" by (rule reads_bind [OF reads_varint])
  then show "reads (bindR decode_varint ?q) (encode_varint (ucast k) []) k" by simp
qed

section \<open>Transaction metadata\<close>

primrec meta_value_ok :: "TxnMetaValue \<Rightarrow> bool" where
  "meta_value_ok (TM_String s) \<longleftrightarrow> str_ok s"
| "meta_value_ok (TM_TypedLiteral v dt_ns dt_name) \<longleftrightarrow> str_ok v \<and> str_ok dt_name"
| "meta_value_ok (TM_LangString v lang) \<longleftrightarrow> str_ok v \<and> str_ok lang"
| "meta_value_ok (TM_Ref ns name) \<longleftrightarrow> str_ok name"
| "meta_value_ok (TM_Long n) \<longleftrightarrow> True"
| "meta_value_ok (TM_Double n) \<longleftrightarrow> True"
| "meta_value_ok (TM_Boolean b) \<longleftrightarrow> True"

definition meta_ok :: "TxnMetaEntry \<Rightarrow> bool" where
  "meta_ok e \<longleftrightarrow> str_ok (te_predicate_name e) \<and> meta_value_ok (te_value e)"

lemma reads_case: "reads (q t) bs x \<Longrightarrow> reads (bindR read_u8 q) (t # bs) x"
  using reads_bind [OF reads_u8, of q t bs x] by simp

lemma encode_meta_value_Done:
  assumes "encode_txn_meta_value v buf = Done buf'" "meta_value_ok v"
  shows "\<exists>bs. buf' = buf @ bs \<and> reads decode_txn_meta_value bs v"
proof (cases v)
  case (TM_String s)
  have "reads decode_txn_meta_value (0 # entry_bytes s) v" unfolding decode_txn_meta_value_def TM_String
    by (rule reads_case) (use assms(2) TM_String reads_then [OF reads_len_str, of s TM_String] in simp)
  then show ?thesis using assms(1) TM_String by (auto simp: encode_len_str_bytes)
next
  case (TM_TypedLiteral s ns name)
  have "reads decode_txn_meta_value (1 # entry_bytes s @ encode_varint (ucast ns) [] @ entry_bytes name) v"
    unfolding decode_txn_meta_value_def TM_TypedLiteral
    apply (rule reads_case, simp only: one_neq_zero if_False if_True refl)
    apply (rule reads_bind [OF reads_len_str], use assms(2) TM_TypedLiteral in simp, rule reads_bind [OF reads_varint])
    apply (rule reads_then_eq [OF reads_len_str], use assms(2) TM_TypedLiteral in simp, simp add: ucast_back)
    done
  then show ?thesis using assms(1) TM_TypedLiteral encode_varint_append [of "ucast ns" s] by (auto simp: encode_len_str_bytes encode_varint_buf encode_varint_Cons)
next
  case (TM_LangString s lang)
  have "reads decode_txn_meta_value (2 # entry_bytes s @ entry_bytes lang) v" unfolding decode_txn_meta_value_def TM_LangString
    apply (rule reads_case, simp)
    apply (rule reads_bind [OF reads_len_str, simplified], use assms(2) TM_LangString in simp)
    apply (rule reads_then [OF reads_len_str], use assms(2) TM_LangString in simp)
    done
  then show ?thesis using assms(1) TM_LangString by (auto simp: encode_len_str_bytes)
next
  case (TM_Ref ns name)
  have "reads decode_txn_meta_value (3 # encode_varint (ucast ns) [] @ entry_bytes name) v" unfolding decode_txn_meta_value_def TM_Ref
    apply (rule reads_case, simp, rule reads_bind [OF reads_varint])
    apply (rule reads_then_eq [OF reads_len_str], use assms(2) TM_Ref in simp, simp add: ucast_back)
    done
  then show ?thesis using assms(1) TM_Ref by (auto simp: encode_len_str_bytes encode_varint_buf encode_varint_Cons)
next
  case (TM_Long n)
  have "reads decode_txn_meta_value (4 # encode_varint (zigzag_encode n) []) v" unfolding decode_txn_meta_value_def TM_Long
    by (rule reads_case, simp, rule reads_then_eq [OF reads_varint]) (simp add: zigzag_round_trip)
  then show ?thesis using assms(1) TM_Long by (auto simp: encode_varint_buf encode_varint_Cons)
next
  case (TM_Double n)
  then have fin: "is_finite n" using assms(1) by (simp split: if_splits)
  let ?q = "\<lambda>n. if \<not> is_finite n then liftR (Fail (EnvelopeDecode ''txn_meta contains non-finite double value'')) else liftR (Done (TM_Double n))"
  have "reads (?q n) [] (TM_Double n)" using fin by (simp add: reads_pure)
  then have "reads (bindR read_f64 ?q) (to_le_bytes 8 n @ []) (TM_Double n)" by (rule reads_bind [OF reads_f64])
  then have "reads decode_txn_meta_value (5 # to_le_bytes 8 n) v" unfolding decode_txn_meta_value_def TM_Double
    by (intro reads_case) simp
  then show ?thesis using assms(1) TM_Double by (auto split: if_splits)
next
  case (TM_Boolean b)
  have "reads (bindR read_u8 (\<lambda>b. liftR (Done (TM_Boolean (b \<noteq> 0))))) [of_bool b] (TM_Boolean b)"
    by (rule reads_then_eq [OF reads_u8]) simp
  then have "reads decode_txn_meta_value (6 # [of_bool b]) v" unfolding decode_txn_meta_value_def TM_Boolean by (intro reads_case) simp
  then show ?thesis using assms(1) TM_Boolean by auto
qed

lemma encode_meta_entries_Done:
  assumes "encode_txn_meta_entries es buf = Done buf'" "list_all meta_ok es"
  shows "\<exists>bs. buf' = buf @ bs \<and> reads (readN (length es) decode_txn_meta_entry) bs es"
  using assms
proof (induction es arbitrary: buf)
  case (Cons e es)
  let ?h = "encode_varint (ucast (te_predicate_ns e)) [] @ entry_bytes (te_predicate_name e)"
  have h: "encode_len_str (te_predicate_name e) (encode_varint (ucast (te_predicate_ns e)) buf) = buf @ ?h"
    using encode_varint_append [of "ucast (te_predicate_ns e)" buf] by (simp add: encode_len_str_bytes)
  then obtain buf1 where v: "encode_txn_meta_value (te_value e) (buf @ ?h) = Done buf1" and es: "encode_txn_meta_entries es buf1 = Done buf'"
    using Cons.prems(1) by (auto simp: bind_parse_Done)
  have e: "meta_value_ok (te_value e)" "str_ok (te_predicate_name e)" "list_all meta_ok es" using Cons.prems(2) by (simp_all add: meta_ok_def [of e])
  obtain vb where vb: "buf1 = (buf @ ?h) @ vb" "reads decode_txn_meta_value vb (te_value e)" using encode_meta_value_Done [OF v e(1)] by blast
  obtain bs where bs: "buf' = buf1 @ bs" "reads (readN (length es) decode_txn_meta_entry) bs es" using Cons.IH [OF es e(3)] by blast
  have "reads decode_txn_meta_entry (encode_varint (ucast (te_predicate_ns e)) [] @ entry_bytes (te_predicate_name e) @ vb) e"
    unfolding decode_txn_meta_entry_def
    apply (rule reads_bind [OF reads_varint], rule reads_bind [OF reads_len_str [OF e(2)]], rule reads_then_eq [OF vb(2)])
    apply (simp add: ucast_back)
    done
  then show ?case using reads_Suc [OF _ bs(2)] bs(1) vb(1) by fastforce
qed (simp add: reads_pure)

lemma encode_txn_meta_Done:
  assumes "encode_txn_meta es buf = Done buf'" "list_all meta_ok es"
  shows "\<exists>bs. buf' = buf @ bs \<and> reads decode_txn_meta bs es"
proof -
  have len: "length es \<le> MAX_TXN_META_ENTRIES" and enc: "encode_txn_meta_entries es (encode_varint (of_nat (length es)) buf) = Done buf'"
    using assms(1) by (simp_all add: encode_txn_meta_def split: if_splits)
  have n: "unat (of_nat (length es) :: u64) = length es" using len by (simp add: MAX_TXN_META_ENTRIES_def unat_of_nat)
  obtain bs where bs: "buf' = encode_varint (of_nat (length es)) buf @ bs" "reads (readN (length es) decode_txn_meta_entry) bs es"
    using encode_meta_entries_Done [OF enc assms(2)] by blast
  have "reads decode_txn_meta (encode_varint (of_nat (length es)) [] @ bs) es"
    unfolding decode_txn_meta_def using len bs(2) n by (intro reads_bind [OF reads_varint]) simp
  then show ?thesis using bs(1) encode_varint_append [of "of_nat (length es)" buf] by auto
qed


section \<open>Transaction signature and split mode\<close>

definition txn_signature_ok :: "TxnSignature \<Rightarrow> bool" where
  "txn_signature_ok sig \<longleftrightarrow> str_ok (ts_signer sig) \<and> length (ts_signer sig) \<le> 256 \<and>
     pred_option (\<lambda>txn_id. str_ok txn_id \<and> length txn_id \<le> 256) (ts_txn_id sig)"

abbreviation txn_signature_bytes :: "TxnSignature \<Rightarrow> u8 list" where
  "txn_signature_bytes sig \<equiv> entry_bytes (ts_signer sig) @ (case ts_txn_id sig of Some txn_id \<Rightarrow> 1 # entry_bytes txn_id | None \<Rightarrow> [0])"

lemma encode_txn_signature_bytes: "encode_txn_signature sig buf = buf @ txn_signature_bytes sig"
  by (simp add: encode_txn_signature_def encode_len_str_bytes split: option.split)

lemma reads_txn_signature:
  assumes "txn_signature_ok sig"
  shows "reads decode_txn_signature (txn_signature_bytes sig) sig"
proof -
  note ok = assms [unfolded txn_signature_ok_def]
  let ?id = "\<lambda>has_txn_id :: u8. if has_txn_id \<noteq> 0
            then bindR decode_len_str (\<lambda>id.
              if length id > 256 then liftR (Fail (EnvelopeDecode ''txn_signature txn_id length exceeds maximum 256''))
              else liftR (Done (Some id)))
            else liftR (Done None)"
  have tail: "reads (bindR read_u8 (\<lambda>has_txn_id. bindR (?id has_txn_id) (\<lambda>txn_id. liftR (Done \<lparr>ts_signer = ts_signer sig, ts_txn_id = txn_id\<rparr>))))
     (case ts_txn_id sig of Some txn_id \<Rightarrow> 1 # entry_bytes txn_id | None \<Rightarrow> [0]) sig"
  proof (cases "ts_txn_id sig")
    case None
    have "reads (?id 0) [] None" by (simp add: reads_pure)
    then show ?thesis unfolding None option.case by (intro reads_case reads_then_eq) (auto simp: None [symmetric])
  next
    case (Some i)
    then have i: "str_ok i" "length i \<le> 256" using ok by simp_all
    have "reads (if length i > 256 then liftR (Fail (EnvelopeDecode ''txn_signature txn_id length exceeds maximum 256'')) else liftR (Done (Some i))) [] (Some i)"
      using i by (simp add: reads_pure)
    then have "reads (bindR decode_len_str (\<lambda>id. if length id > 256 then liftR (Fail (EnvelopeDecode ''txn_signature txn_id length exceeds maximum 256''))
        else liftR (Done (Some id)))) (entry_bytes i @ []) (Some i)" by (rule reads_bind [OF reads_len_str [OF i(1)]])
    then have "reads (?id 1) (entry_bytes i) (Some i)" by simp
    then show ?thesis unfolding Some option.case by (intro reads_case reads_then_eq) (auto simp: Some [symmetric])
  qed
  show ?thesis
    unfolding decode_txn_signature_def
    by (rule reads_bind [OF reads_len_str], use ok in simp, subst if_not_P, use ok in simp, rule tail)
qed

lemma NsSplitMode_round_trip: "NsSplitMode_to_byte m = Some b \<Longrightarrow> NsSplitMode_from_byte b = m"
proof (cases m)
  case (HostPlusN n)
  assume b: "NsSplitMode_to_byte m = Some b"
  have "n + 1 \<noteq> 0"
  proof
    assume "n + 1 = 0"
    then have "n = - 1" by (simp add: eq_neg_iff_add_eq_0)
    then show False using b HostPlusN by (simp add: HOST_PLUS_N_MAX_def)
  qed
  then show ?thesis using b HostPlusN by (auto simp: NsSplitMode_from_byte_def split: if_splits)
qed (simp add: NsSplitMode_from_byte_def)

lemma encode_ns_split_mode_Done:
  assumes "encode_ns_split_mode m buf = Done buf'"
  shows "\<exists>bs. buf' = buf @ bs \<and> reads (when_more None (bindR read_u8 (\<lambda>b. when_flag (b \<noteq> 0) None
       (bindR read_u8 (\<lambda>m. liftR (Done (Some (NsSplitMode_from_byte m)))))))) bs m"
proof (cases m)
  case None
  then show ?thesis using assms by (intro exI [of _ "[0]"]) (auto simp: encode_ns_split_mode_def when_flag_def intro!: reads_more reads_case reads_pure)
next
  case (Some mode)
  then obtain b where b: "NsSplitMode_to_byte mode = Some b" "buf' = buf @ [1, b]"
    using assms by (auto simp: encode_ns_split_mode_def split: option.splits)
  have "reads (bindR read_u8 (\<lambda>m. liftR (Done (Some (NsSplitMode_from_byte m))))) [b] m"
    using NsSplitMode_round_trip [OF b(1)] Some by (intro reads_then_eq [OF reads_u8]) simp
  then show ?thesis using b(2) by (intro exI [of _ "[1, b]"]) (auto simp: when_flag_def intro!: reads_more reads_case)
qed

lemma encode_graph_delta_ext_Done:
  assumes "encode_graph_delta_ext m buf = Done buf'" "delta_ok m"
  shows "\<exists>bs. buf' = buf @ bs \<and> reads (when_more hm_empty (bindR read_u8 (\<lambda>b. when_flag (b \<noteq> 0) hm_empty decode_graph_delta))) bs (sort_key fst m)"
proof (cases "m = []")
  case True
  then show ?thesis using assms by (intro exI [of _ "[0]"]) (auto simp: encode_graph_delta_ext_def when_flag_def hm_empty_def intro!: reads_more reads_case reads_pure)
next
  case False
  let ?bs = "encode_varint (of_nat (length m)) [] @ concat (map delta_entry_bytes (sort_key fst m))"
  have "buf' = buf @ 1 # ?bs"
    using assms(1) False encode_varint_append [of "of_nat (length m)" "buf @ [1]"]
    by (auto simp: encode_graph_delta_ext_def encode_graph_delta_def encode_delta_bytes split: if_splits)
  then show ?thesis using reads_graph_delta [OF assms(2)] by (intro exI [of _ "1 # ?bs"]) (auto simp: when_flag_def intro!: reads_more reads_case)
qed

section \<open>The envelope\<close>

definition env_flags :: "bool \<Rightarrow> bool \<Rightarrow> bool \<Rightarrow> bool \<Rightarrow> bool \<Rightarrow> bool \<Rightarrow> u8" where
  "env_flags a b c d e f = (if a then FLAG_TXN_META else 0) OR (if b then FLAG_PARENT else 0) OR (if c then FLAG_NAMESPACE_DELTA else 0) OR
     (if d then FLAG_TXN else 0) OR (if e then FLAG_TIME else 0) OR (if f then FLAG_TXN_SIGNATURE else 0)"

lemmas flag_defs = FLAG_TXN_META_def FLAG_PARENT_def FLAG_NAMESPACE_DELTA_def FLAG_TXN_def FLAG_TIME_def FLAG_TXN_SIGNATURE_def KNOWN_FLAGS_def

lemma envelope_flags_eq:
  "envelope_flags e = env_flags (ce_txn_meta e \<noteq> []) (ce_parents e \<noteq> []) (ce_namespace_delta e \<noteq> []) (ce_txn e \<noteq> None) (ce_time e \<noteq> None)
     (ce_txn_signature e \<noteq> None)"
  by (simp add: envelope_flags_def env_flags_def or.assoc)

lemma env_flags_bits:
  "env_flags a b c d e f AND FLAG_TXN_META \<noteq> 0 \<longleftrightarrow> a" "env_flags a b c d e f AND FLAG_PARENT \<noteq> 0 \<longleftrightarrow> b"
  "env_flags a b c d e f AND FLAG_NAMESPACE_DELTA \<noteq> 0 \<longleftrightarrow> c" "env_flags a b c d e f AND FLAG_TXN \<noteq> 0 \<longleftrightarrow> d"
  "env_flags a b c d e f AND FLAG_TIME \<noteq> 0 \<longleftrightarrow> e" "env_flags a b c d e f AND FLAG_TXN_SIGNATURE \<noteq> 0 \<longleftrightarrow> f"
  "env_flags a b c d e f AND NOT KNOWN_FLAGS = 0"
  by (cases a; cases b; cases c; cases d; cases e; cases f; simp add: env_flags_def flag_defs)+


definition envelope_ok :: "'c CodecEnvelope \<Rightarrow> bool" where
  "envelope_ok e \<longleftrightarrow> list_all meta_ok (ce_txn_meta e) \<and> delta_ok (ce_namespace_delta e) \<and> delta_ok (ce_graph_delta e) \<and>
     pred_option str_ok (ce_time e) \<and> pred_option txn_signature_ok (ce_txn_signature e)"

text \<open>The envelope as it comes back: the maps in the order they were written, and no \<open>t\<close>.\<close>

definition stored_envelope :: "'c CodecEnvelope \<Rightarrow> 'c CodecEnvelope" where
  "stored_envelope e = e\<lparr>ce_t := 0, ce_namespace_delta := sort_key fst (ce_namespace_delta e), ce_graph_delta := sort_key fst (ce_graph_delta e)\<rparr>"

lemma encode_parents_Done:
  fixes v :: u64
  assumes "(if ps \<noteq> [] then if v = 3 then encode_commit_ids L ps (encode_varint (of_nat (length ps)) buf) else encode_commit_id L (ps ! 0) buf
     else Done buf) = Done buf'" "v = (if length ps \<le> 1 then 2 else 3)" "length ps \<le> MAX_PARENTS" "cid_lib L"
  shows "\<exists>bs. buf' = buf @ bs \<and> reads (when_flag (ps \<noteq> []) [] (decode_parents L (ucast v))) bs ps"
proof (cases "length ps \<le> 1")
  case True
  then consider "ps = []" | c where "ps = [c]" by (cases ps) auto
  then show ?thesis
  proof cases
    case (2 c)
    then have "encode_commit_id L c buf = Done buf'" using assms(1,2) by simp
    from encode_commit_id_Done [OF this assms(4)] show ?thesis
      using 2 assms(2) reads_then [of "decode_commit_id L" _ c "\<lambda>c. [c]"] by (auto simp: when_flag_def decode_parents_def)
  qed (use assms(1) in \<open>simp add: when_flag_def reads_pure\<close>)
next
  case False
  let ?n = "encode_varint (of_nat (length ps)) []"
  have v: "v = 3" "ps \<noteq> []" using False assms(2) by auto
  then have "encode_commit_ids L ps (encode_varint (of_nat (length ps)) buf) = Done buf'" using assms(1) by simp
  then obtain bs where bs: "buf' = encode_varint (of_nat (length ps)) buf @ bs" "reads (readN (length ps) (decode_commit_id L)) bs ps"
    using encode_commit_ids_Done [OF _ assms(4)] by blast
  have n: "unat (of_nat (length ps) :: u64) = length ps" using assms(3) by (simp add: MAX_PARENTS_def unat_of_nat)
  have "reads (decode_parents L 3) (?n @ bs) ps"
    unfolding decode_parents_def using bs(2) assms(3) by (simp add: n reads_bind [OF reads_varint])
  then show ?thesis using bs(1) v encode_varint_append [of "of_nat (length ps)" buf]
    by (intro exI [of _ "?n @ bs"]) (simp add: when_flag_def)
qed

lemma reads_fields:
  fixes e :: "'c CodecEnvelope"
  defines "flags \<equiv> envelope_flags e" and "v \<equiv> if length (ce_parents e) \<le> 1 then 2 else 3 :: u64"
  assumes "reads (when_flag (ce_txn_meta e \<noteq> []) [] decode_txn_meta) b1 (ce_txn_meta e)"
    and "reads (when_flag (ce_parents e \<noteq> []) [] (decode_parents L (ucast v))) b2 (ce_parents e)"
    and "reads (when_flag (ce_namespace_delta e \<noteq> []) hm_empty decode_ns_delta) b3 (sort_key fst (ce_namespace_delta e))"
    and "reads (when_flag (ce_txn e \<noteq> None) None (bindR (decode_txn L) (\<lambda>c. liftR (Done (Some c))))) b4 (ce_txn e)"
    and "reads (when_flag (ce_time e \<noteq> None) None (bindR decode_len_str (\<lambda>s. liftR (Done (Some s))))) b5 (ce_time e)"
    and "reads (when_flag (ce_txn_signature e \<noteq> None) None (bindR decode_txn_signature (\<lambda>s. liftR (Done (Some s))))) b6 (ce_txn_signature e)"
    and "reads (when_more hm_empty (bindR read_u8 (\<lambda>b. when_flag (b \<noteq> 0) hm_empty decode_graph_delta))) b7 (sort_key fst (ce_graph_delta e))"
    and "reads (when_more None (bindR read_u8 (\<lambda>b. when_flag (b \<noteq> 0) None
       (bindR read_u8 (\<lambda>m. liftR (Done (Some (NsSplitMode_from_byte m)))))))) b8 (ce_ns_split_mode e)"
  shows "reads (decode_fields L) (encode_varint (zigzag_encode v) [] @ [flags] @ b1 @ b2 @ b3 @ b4 @ b5 @ b6 @ b7 @ b8) (stored_envelope e)"
proof -
  have v: "(ucast (zigzag_decode (zigzag_encode v)) :: u32) = ucast v" "(ucast v :: u32) = 2 \<or> (ucast v :: u32) = 3"
    by (simp_all add: zigzag_round_trip v_def)
  show ?thesis
    unfolding decode_fields_def
    apply (rule reads_bind [OF reads_varint], unfold Let_def v(1), subst if_not_P, use v(2) in blast)
    apply (rule reads_bind [OF reads_u8], unfold flags_def envelope_flags_eq env_flags_bits simp_thms(6) not_True_eq_False if_False)
    apply (rule reads_bind [OF assms(3)], rule reads_bind [OF assms(4)], rule reads_bind [OF assms(5)], rule reads_bind [OF assms(6)])
    apply (rule reads_bind [OF assms(7)], rule reads_bind [OF assms(8)], rule reads_bind [OF assms(9)], rule reads_then_eq [OF assms(10)])
    apply (simp add: stored_envelope_def)
    done
qed

lemma envelope_reads:
  assumes enc: "encode_envelope_fields L e buf = Done out" and lib: "cid_lib L" and ok: "envelope_ok e"
  shows "\<exists>bs. out = buf @ bs \<and> reads (decode_fields L) bs (stored_envelope e)"
proof -
  note e = ok [unfolded envelope_ok_def]
  define v :: u64 where "v = (if length (ce_parents e) \<le> 1 then 2 else 3)"
  define c0 where "c0 = encode_varint (zigzag_encode v) buf @ [envelope_flags e]"
  have parents: "length (ce_parents e) \<le> MAX_PARENTS" using enc by (simp add: encode_envelope_fields_def Let_def split: if_splits)
  obtain c1 c2 c4 c7 where
      s1: "(if ce_txn_meta e \<noteq> [] then encode_txn_meta (ce_txn_meta e) c0 else Done c0) = Done c1"
    and s2: "(if ce_parents e \<noteq> [] then if v = 3 then encode_commit_ids L (ce_parents e) (encode_varint (of_nat (length (ce_parents e))) c1)
       else encode_commit_id L (ce_parents e ! 0) c1 else Done c1) = Done c2"
    and s4: "(case ce_txn e of Some txn \<Rightarrow> encode_len_bytes (cid_to_bytes L txn) (if ce_namespace_delta e \<noteq> [] then encode_ns_delta (ce_namespace_delta e) c2 else c2)
       | None \<Rightarrow> Done (if ce_namespace_delta e \<noteq> [] then encode_ns_delta (ce_namespace_delta e) c2 else c2)) = Done c4"
    and s7: "encode_graph_delta_ext (ce_graph_delta e)
       (case ce_txn_signature e of
          Some sig \<Rightarrow> encode_txn_signature sig (case ce_time e of Some time \<Rightarrow> encode_len_str time c4 | None \<Rightarrow> c4)
        | None \<Rightarrow> (case ce_time e of Some time \<Rightarrow> encode_len_str time c4 | None \<Rightarrow> c4)) = Done c7"
    and s8: "encode_ns_split_mode (ce_ns_split_mode e) c7 = Done out"
    using enc parents unfolding encode_envelope_fields_def Let_def bind_parse_Done v_def c0_def by (auto simp: bind_parse_Done)
  obtain b1 where b1: "c1 = c0 @ b1" "reads (when_flag (ce_txn_meta e \<noteq> []) [] decode_txn_meta) b1 (ce_txn_meta e)"
    using s1 e encode_txn_meta_Done [of "ce_txn_meta e" c0 c1]
    by (cases "ce_txn_meta e = []") (auto simp: when_flag_def reads_pure)
  obtain b2 where b2: "c2 = c1 @ b2" "reads (when_flag (ce_parents e \<noteq> []) [] (decode_parents L (ucast v))) b2 (ce_parents e)"
    using encode_parents_Done [OF s2 v_def parents lib] by blast
  let ?d = "encode_varint (of_nat (length (ce_namespace_delta e))) [] @ concat (map delta_entry_bytes (sort_key fst (ce_namespace_delta e)))"
  obtain b3 where b3: "(if ce_namespace_delta e \<noteq> [] then encode_ns_delta (ce_namespace_delta e) c2 else c2) = c2 @ b3"
      "reads (when_flag (ce_namespace_delta e \<noteq> []) hm_empty decode_ns_delta) b3 (sort_key fst (ce_namespace_delta e))"
  proof (cases "ce_namespace_delta e = []")
    case True
    then show thesis using that [of "[]"] by (simp add: when_flag_def reads_pure hm_empty_def)
  next
    case False
    then show thesis
      using that [of ?d] e reads_ns_delta encode_varint_append [of "of_nat (length (ce_namespace_delta e))" c2]
      by (simp add: when_flag_def encode_ns_delta_def encode_delta_bytes)
  qed
  obtain b4 where b4: "c4 = (c2 @ b3) @ b4" "reads (when_flag (ce_txn e \<noteq> None) None (bindR (decode_txn L) (\<lambda>c. liftR (Done (Some c))))) b4 (ce_txn e)"
  proof (cases "ce_txn e")
    case None
    then show thesis using that [of "[]"] s4 b3(1) by (simp add: when_flag_def reads_pure)
  next
    case (Some c)
    then have "encode_commit_id L c (c2 @ b3) = Done c4" using s4 b3(1) by (simp add: encode_commit_id_def)
    from encode_commit_id_Done [OF this lib] show thesis
      using that Some reads_then [of "decode_txn L" _ c Some] by (auto simp: when_flag_def)
  qed
  obtain b5 where b5: "(case ce_time e of Some time \<Rightarrow> encode_len_str time c4 | None \<Rightarrow> c4) = c4 @ b5"
      "reads (when_flag (ce_time e \<noteq> None) None (bindR decode_len_str (\<lambda>s. liftR (Done (Some s))))) b5 (ce_time e)"
    using that [of "[]"] that [of "entry_bytes (the (ce_time e))"] e reads_then [OF reads_len_str, of "the (ce_time e)" Some]
    by (cases "ce_time e") (simp_all add: when_flag_def reads_pure encode_len_str_bytes)
  obtain b6 where b6: "(case ce_txn_signature e of Some sig \<Rightarrow> encode_txn_signature sig (c4 @ b5) | None \<Rightarrow> c4 @ b5) = (c4 @ b5) @ b6"
      "reads (when_flag (ce_txn_signature e \<noteq> None) None (bindR decode_txn_signature (\<lambda>s. liftR (Done (Some s))))) b6 (ce_txn_signature e)"
    using that [of "[]"] that [of "txn_signature_bytes (the (ce_txn_signature e))"] e
      reads_then [OF reads_txn_signature, of "the (ce_txn_signature e)" Some]
    by (cases "ce_txn_signature e") (simp_all add: when_flag_def reads_pure encode_txn_signature_bytes)
  obtain b7 where b7: "c7 = ((c4 @ b5) @ b6) @ b7"
      "reads (when_more hm_empty (bindR read_u8 (\<lambda>b. when_flag (b \<noteq> 0) hm_empty decode_graph_delta))) b7 (sort_key fst (ce_graph_delta e))"
    using encode_graph_delta_ext_Done [OF s7 [unfolded b5(1) b6(1)]] e by blast
  obtain b8 where b8: "out = c7 @ b8" "reads (when_more None (bindR read_u8 (\<lambda>b. when_flag (b \<noteq> 0) None
       (bindR read_u8 (\<lambda>m. liftR (Done (Some (NsSplitMode_from_byte m)))))))) b8 (ce_ns_split_mode e)"
    using encode_ns_split_mode_Done [OF s8] by blast
  note r = reads_fields [of e b1 L b2 b3 b4 b5 b6 b7 b8, folded v_def, OF b1(2) b2(2) b3(2) b4(2) b5(2) b6(2) b7(2) b8(2)]
  show ?thesis
    using r b1(1) b2(1) b4(1) b7(1) b8(1) encode_varint_append [of "zigzag_encode v" buf]
    by (intro exI [of _ "encode_varint (zigzag_encode v) [] @ [envelope_flags e] @ b1 @ b2 @ b3 @ b4 @ b5 @ b6 @ b7 @ b8"]) (simp add: c0_def)
qed

lemma envelope_round_trip:
  assumes "encode_envelope_fields L e [] = Done bs" "cid_lib L" "envelope_ok e" "length bs \<le> usize_max"
  shows "decode_envelope L bs = Done (stored_envelope e)"
  using envelope_reads [OF assms(1-3)] reads_whole [of "decode_fields L" bs "stored_envelope e"] assms(4) by (simp add: decode_envelope_def)

end
