(* ===== verification/CommitBlobRoundTrip.thy ===== *)
theory CommitBlobRoundTrip
  imports CommitBlob CommitEnvelopeRoundTrip
begin

text \<open>
  A commit that was written reads back, through the raw reader and through the flake reader, signed or not, compressed or
  not.
\<close>

section \<open>Flakes\<close>

text \<open>A flake as the reader gives it: \<open>t\<close> is the one of the commit, and metadata that says nothing is left out.\<close>

definition read_flake :: "u64 \<Rightarrow> Flake \<Rightarrow> Flake" where
  "read_flake t f = f\<lparr>fl_t := t, fl_m := flake_meta (Option.bind (fl_m f) fm_lang) (Option.bind (fl_m f) fm_i)\<rparr>"

lemma reads_ns_code: "reads decode_ns_code (encode_varint (ucast (ns :: u16)) []) ns"
proof -
  let ?q = "\<lambda>raw :: u64. if raw > 0xFFFF then liftR (Fail (InvalidOp ''namespace code exceeds u16::MAX'')) else liftR (Done (ucast raw :: u16))"
  have "\<not> (ucast ns :: u64) > 0xFFFF" by (rule u16_in_range)
  then have "reads (?q (ucast ns)) [] ns" using reads_pure [of ns] by (simp add: ucast_back)
  then have "reads (bindR decode_varint ?q) (encode_varint (ucast ns) [] @ []) ns" by (rule reads_bind [OF reads_varint])
  then show ?thesis by (simp add: decode_ns_code_def)
qed

lemma sid_eta: "\<lparr>sid_namespace_code = sid_namespace_code sid, sid_name = sid_name sid\<rparr> = (sid :: Sid)"
  by simp

lemma reads_flake_sid:
  assumes "dict_get D i = Done (sid_name sid)"
  shows "reads (decode_flake_sid D) (sid_bytes sid i) sid"
  unfolding decode_flake_sid_def
proof (rule reads_bind [OF reads_ns_code], rule reads_bind [where cs = "[]", OF reads_varint, simplified], rule reads_lift)
  show "dict_get D (ucast (ucast i :: u64)) = Done (sid_name sid)" using assms by (simp add: ucast_back)
  show "reads (liftR (Done \<lparr>sid_namespace_code = sid_namespace_code sid, sid_name = sid_name sid\<rparr>)) [] sid"
    unfolding sid_eta by (rule reads_pure)
qed

lemma reads_graph:
  assumes "(if i = 0 then Done [] else dict_get D i) = Done (case g of Some sid \<Rightarrow> sid_name sid | None \<Rightarrow> [])" "i = 0 \<longleftrightarrow> g = None"
  shows "reads (decode_graph D) (encode_varint (ucast (case g of Some sid \<Rightarrow> sid_namespace_code sid | None \<Rightarrow> 0)) [] @ encode_varint (ucast i) []) g"
  unfolding decode_graph_def
proof (rule reads_bind [OF reads_ns_code], rule reads_bind [where cs = "[]", OF reads_varint, simplified])
  show "reads (if (case g of Some sid \<Rightarrow> sid_namespace_code sid | None \<Rightarrow> 0) = 0 \<and> (ucast (ucast i :: u64) :: u32) = 0 then liftR (Done None)
       else if (ucast (ucast i :: u64) :: u32) = 0
       then liftR (Fail (InvalidOp ''graph name_id 0 is reserved (use (0,0) for default graph)''))
       else bindR (liftR (dict_get D (ucast (ucast i :: u64)))) (\<lambda>g_name.
         liftR (Done (Some \<lparr>sid_namespace_code = (case g of Some sid \<Rightarrow> sid_namespace_code sid | None \<Rightarrow> 0), sid_name = g_name\<rparr>)))) [] g"
  proof (cases g)
    case None
    then show ?thesis using assms(2) by (simp add: reads_pure)
  next
    case (Some sid)
    have "reads (bindR (liftR (dict_get D i)) (\<lambda>n. liftR (Done (Some \<lparr>sid_namespace_code = sid_namespace_code sid, sid_name = n\<rparr>)))) [] g"
      by (rule reads_lift [where x = "sid_name sid"]) (use assms Some reads_pure [of g] in \<open>simp_all add: sid_eta\<close>)
    then show ?thesis using assms(2) Some by (simp add: ucast_back)
  qed
qed

lemma reads_object:
  assumes "reads (decode_raw_object tag R) ob (raw_object v)" "try_from T (raw_object v) = Some v"
  shows "reads (decode_object T tag R) ob v"
proof -
  let ?q = "\<lambda>raw. liftR (case try_from T raw of Some v \<Rightarrow> Done v | None \<Rightarrow> Fail (InvalidOp ''bad value''))"
  have "reads (?q (raw_object v)) [] v" using assms(2) by (simp add: reads_pure)
  then have "reads (bindR (decode_raw_object tag R) ?q) (ob @ []) v" by (rule reads_bind [OF assms(1)])
  then show ?thesis by (simp add: decode_object_def)
qed

lemma reads_flake:
  assumes "op_names f i1 i2 i3 i4 ob R" "i1 = 0 \<longleftrightarrow> fl_g f = None" "index_ok f" "flake_ok f" "try_from T (raw_object (fl_o f)) = Some (fl_o f)"
  shows "reads (decode_op T R t) (op_bytes f i1 i2 i3 i4 ob) (read_flake t f)"
proof -
  note n = assms(1) [unfolded op_names_def]
  have l: "pred_option str_ok (Option.bind (fl_m f) fm_lang)" using assms(4) by (simp add: flake_ok_def)
  have g: "reads (decode_graph (rd_graph R)) (encode_varint (ucast (case fl_g f of Some sid \<Rightarrow> sid_namespace_code sid | None \<Rightarrow> 0)) [] @ encode_varint (ucast i1) []) (fl_g f)"
    using n assms(2) by (intro reads_graph) simp_all
  have assoc: "op_bytes f i1 i2 i3 i4 ob = (encode_varint (ucast (case fl_g f of Some sid \<Rightarrow> sid_namespace_code sid | None \<Rightarrow> 0)) [] @ encode_varint (ucast i1) []) @
     sid_bytes (fl_s f) i2 @ sid_bytes (fl_p f) i3 @ sid_bytes (fl_dt f) i4 @ [otag_u8 (value_tag (fl_o f))] @ ob @
     [op_flags (fl_op f) (Option.bind (fl_m f) fm_lang \<noteq> None) (Option.bind (fl_m f) fm_i \<noteq> None)] @
     lang_bytes (Option.bind (fl_m f) fm_lang) @ index_bytes (Option.bind (fl_m f) fm_i)"
    by (simp add: op_bytes_def)
  have sids: "reads (decode_flake_sid (rd_subject R)) (sid_bytes (fl_s f) i2) (fl_s f)"
      "reads (decode_flake_sid (rd_predicate R)) (sid_bytes (fl_p f) i3) (fl_p f)"
      "reads (decode_flake_sid (rd_datatype R)) (sid_bytes (fl_dt f) i4) (fl_dt f)"
      "reads (decode_object T (value_tag (fl_o f)) R) ob (fl_o f)"
    using n reads_object [OF _ assms(5)] by (simp_all add: reads_flake_sid)
  show ?thesis
    unfolding decode_op_def assoc
    apply (rule reads_bind [OF g], rule reads_bind [OF sids(1)], rule reads_bind [OF sids(2)], rule reads_bind [OF sids(3)])
    apply (rule reads_bind [OF reads_u8], rule reads_lift [OF OTag_round_trip], rule reads_bind [OF sids(4)])
    apply (rule reads_bind [OF reads_u8], simp only: op_flags_bits)
    apply (rule reads_bind [OF reads_lang [OF l]], rule reads_then_eq [OF reads_index [OF assms(3) [unfolded index_ok_def]]])
    apply (simp add: read_flake_def)
    done
qed

lemma encode_ops_flakes:
  assumes "dicts_ok n D" "n + length fs < 2 ^ 32" "list_all flake_ok fs" "list_all (\<lambda>f. try_from T (raw_object (fl_o f)) = Some (fl_o f)) fs"
    "encode_ops fs D buf = Done (D', buf')"
  shows "\<exists>bs. buf' = buf @ bs \<and> dicts_grow (n + length fs) D D' \<and>
    (\<forall>R. extends D' R \<longrightarrow> reads (readN (length fs) (decode_op T R t)) bs (map (read_flake t) fs))"
  using assms
proof (induction fs arbitrary: n D buf)
  case Nil
  then show ?case by (simp add: reads_pure)
next
  case (Cons f fs)
  obtain D1 buf1 where e1: "encode_op f D buf = Done (D1, buf1)" and e2: "encode_ops fs D1 buf1 = Done (D', buf')"
    using Cons.prems(5) by (auto simp: bind_parse_Done)
  have f: "n + 1 < 2 ^ 32" "flake_ok f" "try_from T (raw_object (fl_o f)) = Some (fl_o f)" using Cons.prems(2-4) by auto
  obtain i1 i2 i3 i4 ob where b1: "buf1 = buf @ op_bytes f i1 i2 i3 i4 ob" "dicts_grow (n + 1) D D1" "index_ok f" "i1 = 0 \<longleftrightarrow> fl_g f = None"
      and r1: "\<And>R. extends D1 R \<Longrightarrow> op_names f i1 i2 i3 i4 ob R"
    by (rule encode_op_parts [OF Cons.prems(1) f(1,2) e1]) (rule that; assumption)
  have fs: "n + 1 + length fs < 2 ^ 32" "list_all flake_ok fs" "list_all (\<lambda>f. try_from T (raw_object (fl_o f)) = Some (fl_o f)) fs"
    using Cons.prems(2-4) by auto
  obtain bs2 where b2: "buf' = buf1 @ bs2" "dicts_grow (n + 1 + length fs) D1 D'"
      and r2: "\<And>R. extends D' R \<Longrightarrow> reads (readN (length fs) (decode_op T R t)) bs2 (map (read_flake t) fs)"
    using Cons.IH [OF dicts_grow_ok [OF b1(2)] fs e2] by blast
  have "reads (readN (length (f # fs)) (decode_op T R t)) (op_bytes f i1 i2 i3 i4 ob @ bs2) (map (read_flake t) (f # fs))" if R: "extends D' R" for R
    using reads_Suc [OF reads_flake [OF r1 [OF extends_mono [OF b2(2) R]] b1(4,3) f(2,3)] r2 [OF R]] by simp
  moreover have "dicts_grow (n + length (f # fs)) D D'" using dicts_grow_trans [OF b1(2) b2(2)] by simp
  ultimately show ?case using b1(1) b2(1) by (intro exI [of _ "op_bytes f i1 i2 i3 i4 ob @ bs2"]) simp
qed


section \<open>Layout\<close>

fun locations :: "nat \<Rightarrow> u8 list list \<Rightarrow> DictLocation list" where
  "locations n [] = []"
| "locations n (bs # rest) = \<lparr>dl_offset = of_nat n, dl_len = of_nat (length bs)\<rparr> # locations (n + length bs) rest"

lemma append_dicts_eq: "append_dicts ds out = (locations (length out) ds, out @ concat ds)"
  by (induction ds arbitrary: out) simp_all

definition blob_flags :: "bool \<Rightarrow> bool \<Rightarrow> u8" where
  "blob_flags z s = (if z then FLAG_ZSTD else 0) OR (if s then FLAG_HAS_COMMIT_SIG else 0)"

lemma blob_flags_bits: "blob_flags z s AND FLAG_ZSTD \<noteq> 0 \<longleftrightarrow> z" "blob_flags z s AND FLAG_HAS_COMMIT_SIG \<noteq> 0 \<longleftrightarrow> s"
  by (cases z; cases s; simp add: blob_flags_def FLAG_ZSTD_def FLAG_HAS_COMMIT_SIG_def)+

definition dict_list :: "CommitDicts \<Rightarrow> StringDictBuilder list" where
  "dict_list D = [cd_graph D, cd_subject D, cd_predicate D, cd_datatype D, cd_object_ref D]"

definition blob_header :: "'c Commit \<Rightarrow> bool \<Rightarrow> Signer option \<Rightarrow> u8 list \<Rightarrow> CommitHeader" where
  "blob_header c z signing env =
     \<lparr>ch_version = VERSION, ch_flags = blob_flags z (signing \<noteq> None), ch_t = cm_t c, ch_op_count = of_nat (length (cm_flakes c)),
      ch_envelope_len = of_nat (length env), ch_sig_block_len = pre_sig_block_len signing\<rparr>"

definition blob_footer :: "u8 list \<Rightarrow> u8 list \<Rightarrow> CommitDicts \<Rightarrow> CommitFooter" where
  "blob_footer env ops D =
     \<lparr>cf_dicts = locations (HEADER_LEN + length env + length ops) (map dict_serialize (dict_list D)), cf_ops_section_len = of_nat (length ops)\<rparr>"

definition blob_body :: "CommitHeader \<Rightarrow> u8 list \<Rightarrow> u8 list \<Rightarrow> CommitDicts \<Rightarrow> u8 list" where
  "blob_body h env ops D =
     header_bytes h @ env @ ops @ concat (map dict_serialize (dict_list D)) @ footer_bytes (blob_footer env ops D)"

definition blob_signatures :: "Signer option \<Rightarrow> u8 list \<Rightarrow> CommitSignature list" where
  "blob_signatures signing body = (case signing of Some sg \<Rightarrow> [commit_sig (sg_did sg) (sg_sign sg body)] | None \<Rightarrow> [])"

lemma write_commit_layout:
  assumes "write_commit L Z c compress signing = Done out"
  obtains env D ops_raw ops z where "\<not> sint (cm_t c) < 0" "sint (cm_t c) \<le> 0xFFFFFFFF" "encode_envelope L c [] = Done env"
    "encode_ops (cm_flakes c) CommitDicts_new [] = Done (D, ops_raw)" "compress_ops Z compress ops_raw = Done (ops, z)"
    "out = blob_body (blob_header c z signing env) env ops D @
       (if signing = None then [] else encode_sig_block (blob_signatures signing (blob_body (blob_header c z signing env) env ops D)) [])"
proof -
  have t: "\<not> sint (cm_t c) < 0" "sint (cm_t c) \<le> 0xFFFFFFFF" using assms by (auto simp: write_commit_def split: if_splits)
  obtain env D ops_raw ops z where p: "encode_envelope L c [] = Done env" "encode_ops (cm_flakes c) CommitDicts_new [] = Done (D, ops_raw)"
      "compress_ops Z compress ops_raw = Done (ops, z)"
    using assms t unfolding write_commit_def by (auto simp: bind_parse_Done)
  let ?h = "blob_header c z signing env"
  have h: "\<lparr>ch_version = VERSION, ch_flags = (if signing \<noteq> None then (if z then 0 OR FLAG_ZSTD else 0) OR FLAG_HAS_COMMIT_SIG else if z then 0 OR FLAG_ZSTD else 0),
      ch_t = cm_t c, ch_op_count = of_nat (length (cm_flakes c)), ch_envelope_len = of_nat (length env),
      ch_sig_block_len = pre_sig_block_len signing\<rparr> = ?h" by (simp add: blob_header_def blob_flags_def)
  have hw: "CommitHeader_write_to ?h (replicate HEADER_LEN 0) = Done (header_bytes ?h)"
    using header_written [of "replicate HEADER_LEN 0" ?h] by simp
  have ft: "\<lparr>cf_dicts = locations (length (header_bytes ?h @ env @ ops))
        (map dict_serialize [cd_graph D, cd_subject D, cd_predicate D, cd_datatype D, cd_object_ref D]),
      cf_ops_section_len = of_nat (length ops)\<rparr> = blob_footer env ops D"
    by (simp only: blob_footer_def dict_list_def length_append length_header_bytes add.assoc)
  have fw: "CommitFooter_write_to (blob_footer env ops D) (replicate FOOTER_LEN 0) = Done (footer_bytes (blob_footer env ops D))"
    using footer_written [of "replicate FOOTER_LEN 0" "blob_footer env ops D"] by simp
  have body: "((header_bytes ?h @ env @ ops) @ concat (map dict_serialize [cd_graph D, cd_subject D, cd_predicate D, cd_datatype D, cd_object_ref D])) @
      footer_bytes (blob_footer env ops D) = blob_body ?h env ops D" by (simp only: blob_body_def dict_list_def append.assoc)
  have tt: "\<not> (sint (cm_t c) < 0 \<or> sint (cm_t c) > 0xFFFFFFFF)" using t by simp
  have "out = (case signing of Some sg \<Rightarrow> encode_sig_block [commit_sig (sg_did sg) (sg_sign sg (blob_body ?h env ops D))] (blob_body ?h env ops D)
       | None \<Rightarrow> blob_body ?h env ops D)"
    using assms unfolding write_commit_def if_not_P [OF tt] p bind_parse.simps prod.case Let_def h hw append_dicts_eq ft fw body
    by simp
  also have "\<dots> = blob_body ?h env ops D @ (if signing = None then [] else encode_sig_block (blob_signatures signing (blob_body ?h env ops D)) [])"
    by (cases signing) (simp_all add: blob_signatures_def encode_sig_block_def encode_sig_bytes)
  finally show thesis using that t p by blast
qed


section \<open>Reading the sections\<close>

lemma range_at: "i = length pre \<Longrightarrow> j = i + length xs \<Longrightarrow> range i j (pre @ xs @ post) = Done xs"
  by (simp add: range_def slice_at)

lemma load_one_at:
  assumes "length (pre @ dict_serialize d @ post) < 2 ^ 32" "dict_ok d" "prev_end \<le> length pre" "length pre + length (dict_serialize d) \<le> valid_end"
  shows "load_one (pre @ dict_serialize d @ post) valid_end \<lparr>dl_offset = of_nat (length pre), dl_len = of_nat (length (dict_serialize d))\<rparr> prev_end =
    Done (db_entries d, length pre + length (dict_serialize d))"
proof -
  let ?n = "length pre" and ?m = "length (dict_serialize d)"
  have o: "unat (of_nat ?n :: u64) = ?n" "unat (of_nat ?m :: u32) = ?m" using assms(1) by (simp_all add: unat_of_nat)
  have a: "add_usize ?n ?m = ?n + ?m" using assms(1) by (simp add: add_usize_def)
  have r: "range ?n (?n + ?m) (pre @ dict_serialize d @ post) = Done (dict_serialize d)" by (rule range_at) simp_all
  have "dict_deserialize (dict_serialize d) = Done (db_entries d)" using assms(1) by (intro dict_round_trip [OF assms(2)]) (simp add: usize_max_def)
  then show ?thesis using assms(3,4) by (simp add: load_one_def Let_def o a r)
qed

lemma load_dicts_at:
  assumes len: "length (pre @ concat (map dict_serialize (dict_list D)) @ post) < 2 ^ 32" and ok: "dicts_ok n D"
    and stop: "valid_end = length pre + length (concat (map dict_serialize (dict_list D)))" and footer: "cf_dicts f = locations (length pre) (map dict_serialize (dict_list D))"
  shows "load_dicts (pre @ concat (map dict_serialize (dict_list D)) @ post) f (length pre) valid_end = Done (read_dicts D)"
proof -
  let ?g = "dict_serialize (cd_graph D)" and ?s = "dict_serialize (cd_subject D)" and ?p = "dict_serialize (cd_predicate D)"
    and ?d = "dict_serialize (cd_datatype D)" and ?o = "dict_serialize (cd_object_ref D)"
  let ?bytes = "pre @ ?g @ ?s @ ?p @ ?d @ ?o @ post"
  have bytes: "pre @ concat (map dict_serialize (dict_list D)) @ post = ?bytes" by (simp add: dict_list_def)
  note ok' = ok [unfolded dicts_grow_def grows_def]
  have l: "length ?bytes < 2 ^ 32" using len unfolding bytes .
  have v: "valid_end = length pre + length ?g + length ?s + length ?p + length ?d + length ?o" using stop by (simp add: dict_list_def)
  have 1: "load_one ?bytes valid_end \<lparr>dl_offset = of_nat (length pre), dl_len = of_nat (length ?g)\<rparr> (length pre) =
      Done (db_entries (cd_graph D), length pre + length ?g)"
    by (rule load_one_at) (use l v ok' in auto)
  have 2: "load_one ?bytes valid_end \<lparr>dl_offset = of_nat (length pre + length ?g), dl_len = of_nat (length ?s)\<rparr> (length pre + length ?g) =
      Done (db_entries (cd_subject D), length pre + length ?g + length ?s)"
    using load_one_at [of "pre @ ?g" "cd_subject D" "?p @ ?d @ ?o @ post" "length pre + length ?g" valid_end] l v ok' by (simp add: add.assoc)
  have 3: "load_one ?bytes valid_end \<lparr>dl_offset = of_nat (length pre + length ?g + length ?s), dl_len = of_nat (length ?p)\<rparr> (length pre + length ?g + length ?s) =
      Done (db_entries (cd_predicate D), length pre + length ?g + length ?s + length ?p)"
    using load_one_at [of "pre @ ?g @ ?s" "cd_predicate D" "?d @ ?o @ post" "length pre + length ?g + length ?s" valid_end] l v ok' by (simp add: add.assoc)
  have 4: "load_one ?bytes valid_end \<lparr>dl_offset = of_nat (length pre + length ?g + length ?s + length ?p), dl_len = of_nat (length ?d)\<rparr>
      (length pre + length ?g + length ?s + length ?p) = Done (db_entries (cd_datatype D), length pre + length ?g + length ?s + length ?p + length ?d)"
    using load_one_at [of "pre @ ?g @ ?s @ ?p" "cd_datatype D" "?o @ post" "length pre + length ?g + length ?s + length ?p" valid_end] l v ok' by (simp add: add.assoc)
  have 5: "load_one ?bytes valid_end \<lparr>dl_offset = of_nat (length pre + length ?g + length ?s + length ?p + length ?d), dl_len = of_nat (length ?o)\<rparr>
      (length pre + length ?g + length ?s + length ?p + length ?d) = Done (db_entries (cd_object_ref D), valid_end)"
    using load_one_at [of "pre @ ?g @ ?s @ ?p @ ?d" "cd_object_ref D" post "length pre + length ?g + length ?s + length ?p + length ?d" valid_end] l v ok'
    by (simp add: add.assoc)
  have f: "cf_dicts f ! 0 = \<lparr>dl_offset = of_nat (length pre), dl_len = of_nat (length ?g)\<rparr>"
      "cf_dicts f ! 1 = \<lparr>dl_offset = of_nat (length pre + length ?g), dl_len = of_nat (length ?s)\<rparr>"
      "cf_dicts f ! 2 = \<lparr>dl_offset = of_nat (length pre + length ?g + length ?s), dl_len = of_nat (length ?p)\<rparr>"
      "cf_dicts f ! 3 = \<lparr>dl_offset = of_nat (length pre + length ?g + length ?s + length ?p), dl_len = of_nat (length ?d)\<rparr>"
      "cf_dicts f ! 4 = \<lparr>dl_offset = of_nat (length pre + length ?g + length ?s + length ?p + length ?d), dl_len = of_nat (length ?o)\<rparr>"
    unfolding footer dict_list_def list.map locations.simps by simp_all
  show ?thesis unfolding bytes load_dicts_def f 1 2 3 4 5 bind_parse.simps prod.case by (simp add: read_dicts_def)
qed

lemma length_locations_list [simp]: "length (locations n bs) = length bs"
  by (induction bs arbitrary: n) simp_all

definition zstd_lib :: "Zstd \<Rightarrow> bool" where
  "zstd_lib Z \<longleftrightarrow> (\<forall>x y. zstd_encode Z x = Some y \<longrightarrow> zstd_decode Z y = Some x)"

lemma compress_ops_back:
  assumes "compress_ops Z compress raw = Done (ops, z)" "zstd_lib Z"
  shows "(if z then case zstd_decode Z ops of Some ops \<Rightarrow> Done ops | None \<Rightarrow> Fail DecompressionFailed else Done ops) = Done raw"
  using assms by (auto simp: compress_ops_def zstd_lib_def split: if_splits option.splits)

lemma read_ops_at:
  assumes len: "length (blob_body h env ops D @ sigs) < 2 ^ 32" and ok: "dicts_ok n D" and z: "ch_flags h AND FLAG_ZSTD \<noteq> 0 \<longleftrightarrow> z"
    and zstd: "compress_ops Z compress raw = Done (ops, z)" "zstd_lib Z"
  shows "read_ops Z h (blob_body h env ops D @ sigs) (HEADER_LEN + length env) (length (blob_body h env ops D)) = Done (read_dicts D, raw)"
proof -
  let ?f = "blob_footer env ops D" and ?ds = "concat (map dict_serialize (dict_list D))"
  let ?pre = "header_bytes h @ env @ ops" and ?bytes = "blob_body h env ops D @ sigs"
  have five: "length (cf_dicts ?f) = 5" by (simp add: blob_footer_def dict_list_def)
  have fl: "length (footer_bytes ?f) = FOOTER_LEN" by (rule length_footer_bytes [OF five])
  have body: "?bytes = ?pre @ ?ds @ footer_bytes ?f @ sigs" by (simp add: blob_body_def)
  have bl: "length (blob_body h env ops D) = length ?pre + length ?ds + FOOTER_LEN" using fl by (simp add: blob_body_def)
  have start: "sub_usize (length (blob_body h env ops D)) FOOTER_LEN = length ?pre + length ?ds" by (simp add: bl sub_usize_def)
  have r1: "range (length ?pre + length ?ds) (length (blob_body h env ops D)) ?bytes = Done (footer_bytes ?f)"
    using range_at [of _ "?pre @ ?ds" _ "footer_bytes ?f" sigs] fl unfolding body bl by (simp add: add.assoc)
  have r2: "range (HEADER_LEN + length env) (HEADER_LEN + length env + length ops) ?bytes = Done ops"
    using range_at [of _ "header_bytes h @ env" _ ops "?ds @ footer_bytes ?f @ sigs"] unfolding body by simp
  have "length ops < 2 ^ 32" using len unfolding body by simp
  then have n: "unat (of_nat (length ops) :: u32) = length ops" by (simp add: unat_of_nat)
  have pre: "HEADER_LEN + length env + length ops = length ?pre" by simp
  have "cf_dicts ?f = locations (length ?pre) (map dict_serialize (dict_list D))" by (simp add: blob_footer_def add.assoc)
  then have d: "load_dicts ?bytes ?f (length ?pre) (length ?pre + length ?ds) = Done (read_dicts D)"
    using load_dicts_at [of ?pre D "footer_bytes ?f @ sigs" n] len ok unfolding body by blast
  have o: "cf_ops_section_len ?f = of_nat (length ops)" by (simp add: blob_footer_def)
  have le: "\<not> length ?pre + length ?ds < length ?pre" by simp
  show ?thesis
    unfolding read_ops_def Let_def start r1 bind_parse.simps footer_round_trip [OF five] o n pre if_not_P [OF le] d
    unfolding r2 [unfolded pre] bind_parse.simps z compress_ops_back [OF zstd] ..
qed


section \<open>Reading back a commit\<close>

definition commit_ok :: "'c Commit \<Rightarrow> bool" where
  "commit_ok c \<longleftrightarrow> envelope_ok (from_commit c) \<and> list_all flake_ok (cm_flakes c) \<and> length (cm_flakes c) < 2 ^ 32"

definition signer_ok :: "Signer option \<Rightarrow> bool" where
  "signer_ok signing \<longleftrightarrow> pred_option (\<lambda>sg. utf8_valid (map unat (sg_did sg)) \<and> length (sg_did sg) \<le> MAX_SIGNER_LEN \<and> (\<forall>body. length (sg_sign sg body) = 64)) signing"

lemma signature_block:
  fixes body :: "u8 list"
  assumes "signer_ok (Some sg)"
  defines "block \<equiv> encode_sig_block (blob_signatures (Some sg) body) []"
  shows "unat (pre_sig_block_len (Some sg)) = length block" "0 < length block" "decode_sig_block block = Done (blob_signatures (Some sg) body)"
proof -
  have ok: "utf8_valid (map unat (sg_did sg))" "length (sg_did sg) \<le> 256" "length (sg_sign sg body) = 64"
    using assms(1) by (simp_all add: signer_ok_def MAX_SIGNER_LEN_def)
  have len: "length block = sig_block_size (blob_signatures (Some sg) body)"
    unfolding block_def using sig_block_length [of "blob_signatures (Some sg) body" "[]"] ok by (simp add: blob_signatures_def commit_sig_def)
  also have s: "\<dots> = 71 + length (sg_did sg)" by (simp add: sig_block_size_def blob_signatures_def commit_sig_def)
  finally have l: "length block = 71 + length (sg_did sg)" .
  have "sig_block_size [commit_sig (sg_did sg) (replicate 64 0)] = 71 + length (sg_did sg)" by (simp add: sig_block_size_def commit_sig_def)
  then have "pre_sig_block_len (Some sg) = of_nat (71 + length (sg_did sg))" by (simp add: pre_sig_block_len_def del: of_nat_add)
  then show "unat (pre_sig_block_len (Some sg)) = length block" using ok(2) by (simp only: l unat_of_nat) simp
  show "0 < length block" using l by simp
  show "decode_sig_block block = Done (blob_signatures (Some sg) body)"
    unfolding block_def using ok l [unfolded block_def]
    by (intro sig_block_round_trip) (simp_all add: blob_signatures_def commit_sig_def sig_ok_def MAX_SIGNER_LEN_def MAX_SIG_COUNT_def usize_max_def)
qed

lemma blob_sections:
  assumes w: "write_commit L Z c compress signing = Done out" and lib: "cid_lib L" "zstd_lib Z"
    and ok: "commit_ok c" "signer_ok signing" and len: "length out < 2 ^ 32"
  obtains h e_end b_end D ops body where "MIN_COMMIT_LEN \<le> length out" "CommitHeader_read_from out = Done h"
    "body_end_of h (length out) = Done b_end"
    "(if has_sig_block h then bind_parse (range b_end (b_end + unat (ch_sig_block_len h)) out) decode_sig_block else Done []) = Done (blob_signatures signing body)"
    "read_envelope L h out = Done (stored_envelope (from_commit c), e_end)" "read_ops Z h out e_end b_end = Done (read_dicts D, ops)"
    "encode_ops (cm_flakes c) CommitDicts_new [] = Done (D, ops)" "ch_t h = cm_t c" "unat (ch_op_count h) = length (cm_flakes c)"
    "prefix body out"
proof -
  obtain env D raw ops z where t: "\<not> sint (cm_t c) < 0" "sint (cm_t c) \<le> 0xFFFFFFFF" and env: "encode_envelope L c [] = Done env"
      and enc: "encode_ops (cm_flakes c) CommitDicts_new [] = Done (D, raw)" and z: "compress_ops Z compress raw = Done (ops, z)"
      and out: "out = blob_body (blob_header c z signing env) env ops D @
       (if signing = None then [] else encode_sig_block (blob_signatures signing (blob_body (blob_header c z signing env) env ops D)) [])"
    by (rule write_commit_layout [OF w]) (rule that; assumption)
  define h where "h = blob_header c z signing env"
  define body where "body = blob_body h env ops D"
  define sigs where "sigs = (if signing = None then [] else encode_sig_block (blob_signatures signing body) [])"
  have out': "out = body @ sigs" using out by (simp add: h_def body_def sigs_def)
  have five: "length (cf_dicts (blob_footer env ops D)) = 5" by (simp add: blob_footer_def dict_list_def)
  have min: "MIN_COMMIT_LEN \<le> length body"
    using length_footer_bytes [OF five] by (simp add: body_def blob_body_def MIN_COMMIT_LEN_def)
  have "uint (cm_t c) < 2 ^ 32" using sint_nonneg [OF t(1)] t(2) by simp
  then have "unat (cm_t c) < 2 ^ 32" by (simp add: nat_less_iff flip: nat_uint_eq)
  then have "header_ok h" by (simp add: header_ok_def h_def blob_header_def)
  then have hd: "CommitHeader_read_from out = Done h" unfolding out' body_def blob_body_def append.assoc by (rule header_round_trip)
  have lens: "length env < 2 ^ 32" "length (cm_flakes c) < 2 ^ 32"
    using len ok(1) by (simp_all add: out' body_def blob_body_def commit_ok_def)
  have cnt: "unat (ch_op_count h) = length (cm_flakes c)" "unat (ch_envelope_len h) = length env" "ch_t h = cm_t c"
    using lens by (simp_all add: h_def blob_header_def unat_of_nat)
  have fl: "ch_flags h AND FLAG_ZSTD \<noteq> 0 \<longleftrightarrow> z" "ch_flags h AND FLAG_HAS_COMMIT_SIG \<noteq> 0 \<longleftrightarrow> signing \<noteq> None"
    by (simp_all add: h_def blob_header_def blob_flags_bits)
  have sig: "body_end_of h (length out) = Done (length body) \<and>
    (if has_sig_block h then bind_parse (range (length body) (length body + unat (ch_sig_block_len h)) out) decode_sig_block else Done []) = Done (blob_signatures signing body)"
  proof (cases signing)
    case None
    then have "\<not> has_sig_block h" using fl(2) by (simp add: has_sig_block_def)
    then show ?thesis using None by (simp add: body_end_of_def out' sigs_def blob_signatures_def)
  next
    case (Some sg)
    note b = signature_block [OF ok(2) [unfolded Some], of body]
    have s: "sigs = encode_sig_block (blob_signatures (Some sg) body) []" "ch_sig_block_len h = pre_sig_block_len (Some sg)"
      using Some by (simp_all add: sigs_def h_def blob_header_def)
    have "has_sig_block h" using fl(2) Some b(1,2) s by (simp add: has_sig_block_def)
    moreover have "range (length body) (length body + length sigs) out = Done sigs" using range_at [of _ body _ sigs "[]"] by (simp add: out')
    ultimately show ?thesis using b s Some by (simp add: body_end_of_def out')
  qed
  have "range HEADER_LEN (HEADER_LEN + length env) out = Done env"
    using range_at [of _ "header_bytes h" _ env] by (simp add: out' body_def blob_body_def)
  moreover have "decode_envelope L env = Done (stored_envelope (from_commit c))"
    using env ok(1) lib(1) lens(1) by (intro envelope_round_trip) (simp_all add: encode_envelope_def commit_ok_def usize_max_def)
  ultimately have re: "read_envelope L h out = Done (stored_envelope (from_commit c), HEADER_LEN + length env)"
    by (simp add: read_envelope_def Let_def cnt(2) out' body_def blob_body_def)
  have "dicts_ok (0 + length (cm_flakes c)) D"
    by (rule encode_ops_reads [OF dicts_ok_new, of 0 "cm_flakes c"]) (use ok(1) enc in \<open>auto simp: commit_ok_def dest: dicts_grow_ok\<close>)
  then have ro: "read_ops Z h out (HEADER_LEN + length env) (length body) = Done (read_dicts D, raw)"
    using read_ops_at [OF _ _ fl(1) z lib(2), of env D sigs] len by (simp add: out' body_def)
  have "MIN_COMMIT_LEN \<le> length out" "prefix body out" using min by (simp_all add: out')
  then show thesis using that hd sig re ro enc cnt(1,3) by blast
qed

end
