(* ===== verification/CommitProperties.thy ===== *)
theory CommitProperties
  imports CommitBlobRoundTrip
begin

text \<open>
  The properties of the commit codec: what is written reads back, what arbitrary bytes can make the readers do, and where
  the code falls short.
\<close>

section \<open>Readers on arbitrary bytes\<close>

definition bounded :: "'a reader \<Rightarrow> bool" where
  "bounded p \<longleftrightarrow> (\<forall>data pos. pos \<le> length data \<longrightarrow>
     (case p data pos of Done (x, pos') \<Rightarrow> pos \<le> pos' \<and> pos' \<le> length data | Fail e \<Rightarrow> True | Abort \<Rightarrow> False))"

lemma bounded_bind:
  assumes "bounded p" "\<And>x. bounded (q x)"
  shows "bounded (bindR p q)"
  unfolding bounded_def
proof (intro allI impI)
  fix data :: "u8 list" and pos :: nat assume pos: "pos \<le> length data"
  note p = assms(1) [unfolded bounded_def, rule_format, OF pos]
  show "case bindR p q data pos of Done (x, pos') \<Rightarrow> pos \<le> pos' \<and> pos' \<le> length data | Fail e \<Rightarrow> True | Abort \<Rightarrow> False"
  proof (cases "p data pos")
    case (Done r)
    obtain x pos1 where r: "r = (x, pos1)" by (cases r)
    then have b: "pos \<le> pos1" "pos1 \<le> length data" using p Done by simp_all
    show ?thesis
      using assms(2) [of x, unfolded bounded_def, rule_format, OF b(2)] b Done r
      by (auto simp: bindR_def split: parse.splits)
  qed (use p in \<open>simp_all add: bindR_def\<close>)
qed

lemma bounded_lift: "r \<noteq> Abort \<Longrightarrow> bounded (liftR r)"
  by (cases r) (simp_all add: bounded_def liftR_def)

lemma bounded_u8: "bounded read_u8"
  by (simp add: bounded_def read_u8_def)

lemma bounded_exact: "bounded (\<lambda>data pos. read_exact data pos n)"
  by (simp add: bounded_def read_exact_def)

lemma bounded_varint_from:
  "pos \<le> length buf \<Longrightarrow>
   (case decode_varint_from r s buf pos of Done (x, pos') \<Rightarrow> pos \<le> pos' \<and> pos' \<le> length buf | Fail e \<Rightarrow> True | Abort \<Rightarrow> False)"
proof (induction r s buf pos rule: decode_varint_from.induct)
  case (1 r s buf pos)
  let ?p = "ucast (buf ! pos AND 0x7F) :: u64"
  show ?case
  proof (cases "pos < length buf \<and> \<not> (s \<ge> 63 \<and> ?p > 1) \<and> buf ! pos AND 0x80 \<noteq> 0")
    case True
    then have "case decode_varint_from (r OR push_bit (s mod 64) ?p) (s + 7) buf (pos + 1) of
        Done (x, pos') \<Rightarrow> pos + 1 \<le> pos' \<and> pos' \<le> length buf | Fail e \<Rightarrow> True | Abort \<Rightarrow> False"
      by (intro 1(1) [OF _ refl refl refl _ refl]) auto
    moreover have "decode_varint_from r s buf pos = decode_varint_from (r OR push_bit (s mod 64) ?p) (s + 7) buf (pos + 1)"
      using True by (subst decode_varint_from.simps) (auto simp: Let_def)
    ultimately show ?thesis by (auto split: parse.splits)
  next
    case False
    then show ?thesis by (subst decode_varint_from.simps) (auto simp: Let_def)
  qed
qed

lemma bounded_varint: "bounded decode_varint"
  unfolding bounded_def decode_varint_def using bounded_varint_from by blast

lemma dict_get_not_Abort: "dict_get d i \<noteq> Abort"
  by (simp add: dict_get_def)

lemma OTag_not_Abort: "OTag_from_u8 b \<noteq> Abort"
  by (simp add: OTag_from_u8_def)

lemmas bounded_intros = bounded_bind bounded_lift bounded_u8 bounded_exact bounded_varint

lemma bounded_inline_str: "bounded decode_inline_str"
  unfolding decode_inline_str_def by (intro bounded_intros) (simp split: option.split)

lemma bounded_sid: "bounded (decode_sid d)"
  unfolding decode_sid_def by (intro bounded_intros dict_get_not_Abort) simp

lemma bounded_f64: "bounded read_f64"
  unfolding read_f64_def by (intro bounded_intros) simp

lemma bounded_text: "bounded (decode_text c)"
  unfolding decode_text_def by (intro bounded_intros bounded_inline_str) simp

lemma bounded_object: "bounded (decode_raw_object tag R)"
  by (cases tag) (auto simp: split_def intro!: bounded_intros bounded_text bounded_sid bounded_f64)

lemma bounded_op: "bounded (decode_raw_op R)"
  unfolding decode_raw_op_def split_def
  by (auto intro!: bounded_intros bounded_object bounded_sid bounded_inline_str simp: dict_get_not_Abort OTag_not_Abort split: if_splits)

lemma bounded_readN: "bounded p \<Longrightarrow> bounded (readN n p)"
  by (induction n) (auto intro!: bounded_intros)

lemma readN_length: "readN n p data pos = Done (xs, pos') \<Longrightarrow> length xs = n"
proof (induction n arbitrary: pos xs pos')
  case (Suc n)
  then show ?case by (auto simp: bindR_def liftR_def bind_parse_Done)
qed (simp add: liftR_def)


lemma encode_op_index: "encode_op f D buf = Done r \<Longrightarrow> index_ok f"
  unfolding encode_op_def Let_def index_ok_def
  by (cases "Option.bind (fl_m f) fm_i") (auto split: prod.splits if_splits)

text \<open>The uncompressed op stream fits in memory.\<close>

definition ops_in_memory :: "'c Commit \<Rightarrow> bool" where
  "ops_in_memory c \<longleftrightarrow> (case encode_ops (cm_flakes c) CommitDicts_new [] of Done (D, ops) \<Rightarrow> length ops \<le> usize_max | _ \<Rightarrow> True)"

section \<open>A sample commit\<close>

definition sample_cids :: "u8 list CidLib" where
  "sample_cids = \<lparr>cid_to_bytes = (\<lambda>b. b), cid_from_bytes = Some\<rparr>"

definition sample_zstd :: Zstd where
  "sample_zstd = \<lparr>zstd_encode = Some, zstd_decode = Some\<rparr>"

definition sample_text :: TextLib where
  "sample_text = \<lparr>text_parse = (\<lambda>tag. Some), geo_point = (\<lambda>lat lng. Some (lat, lng))\<rparr>"

definition sample_flake :: Flake where
  "sample_flake =
     \<lparr>fl_g = None, fl_s = \<lparr>sid_namespace_code = 300, sid_name = [0x61]\<rparr>, fl_p = \<lparr>sid_namespace_code = 2, sid_name = [0x62]\<rparr>,
      fl_o = FV_String [0x68, 0x69], fl_dt = \<lparr>sid_namespace_code = 3, sid_name = [0x63]\<rparr>, fl_t = 0, fl_op = True,
      fl_m = Some \<lparr>fm_lang = Some [0x65, 0x6E], fm_i = Some 4\<rparr>\<rparr>"

definition sample_commit :: "u8 list Commit" where
  "sample_commit =
     \<lparr>cm_id = None, cm_t = 7, cm_time = None, cm_flakes = [sample_flake], cm_parents = [[1, 2]], cm_txn = None,
      cm_namespace_delta = [(300, [0x78]), (20, [0x79])], cm_txn_signature = None, cm_commit_signatures = [], cm_txn_meta = [],
      cm_graph_delta = [], cm_ns_split_mode = Some MostGranular\<rparr>"

definition sample_signer :: Signer where
  "sample_signer = \<lparr>sg_did = [0x64, 0x69, 0x64], sg_sign = (\<lambda>body. replicate 64 9)\<rparr>"

lemma sample_written:
  obtains out where "write_commit sample_cids sample_zstd sample_commit True (Some sample_signer) = Done out" "length out = 215"
proof -
  have "case write_commit sample_cids sample_zstd sample_commit True (Some sample_signer) of Done out \<Rightarrow> length out = 215 | _ \<Rightarrow> False"
    by code_simp
  then show thesis using that by (auto split: parse.splits)
qed

lemma sample_ops: "ops_in_memory sample_commit"
proof -
  have "case encode_ops (cm_flakes sample_commit) CommitDicts_new [] of Done (D, ops) \<Rightarrow> length ops \<le> 100 | _ \<Rightarrow> False" by code_simp
  then show ?thesis by (auto simp: ops_in_memory_def usize_max_def split: parse.splits)
qed

lemma sample_ok: "cid_lib sample_cids" "zstd_lib sample_zstd" "commit_ok sample_commit" "signer_ok (Some sample_signer)"
  by (simp_all add: cid_lib_def sample_cids_def zstd_lib_def sample_zstd_def commit_ok_def sample_commit_def envelope_ok_def from_commit_def
    delta_ok_def hm_wf_def str_ok_def usize_max_def sample_flake_def flake_ok_def signer_ok_def sample_signer_def MAX_SIGNER_LEN_def)

section \<open>Properties\<close>






text \<open>
  Of the flakes a commit may hold, only one with a negative list index stops the encoder of the op stream, and that one
  is reported: the bytes and dictionaries of all the others are produced.
\<close>

theorem encode_ops_fails_only_on_index:
  "(\<exists>r. encode_ops fs D buf = Done r) \<longleftrightarrow> list_all index_ok fs"
proof
  show "list_all index_ok fs \<Longrightarrow> \<exists>r. encode_ops fs D buf = Done r" by (rule encode_ops_total)
  show "\<exists>r. encode_ops fs D buf = Done r \<Longrightarrow> list_all index_ok fs"
  proof (induction fs arbitrary: D buf)
    case (Cons f fs)
    then obtain D1 buf1 where "encode_op f D buf = Done (D1, buf1)" "\<exists>r. encode_ops fs D1 buf1 = Done r"
      by (auto simp: bind_parse_Done)
    then show ?case using Cons.IH encode_op_index by auto
  qed simp
qed


section \<open>Where the code falls short\<close>

text \<open>
  A blob whose header claims a signature block that leaves fewer than 64 bytes of body makes \<open>load_commit_ops_v4\<close> panic:
  the length is only compared with the whole blob, and the start of the footer underflows.
\<close>

theorem signature_length_panics:
  assumes "MIN_COMMIT_LEN \<le> length bytes" "length bytes \<le> usize_max" "CommitHeader_read_from bytes = Done h" "has_sig_block h"
    "unat (ch_sig_block_len h) \<le> length bytes" "length bytes < unat (ch_sig_block_len h) + FOOTER_LEN" "read_envelope L h bytes = Done r"
  shows "load_commit_ops_v4 L Z bytes = Abort"
proof -
  let ?b = "length bytes - unat (ch_sig_block_len h)"
  have "?b < FOOTER_LEN" using assms(5,6) by simp
  then have "\<not> sub_usize ?b FOOTER_LEN \<le> ?b" by (simp add: sub_usize_def FOOTER_LEN_def)
  then have "range (sub_usize ?b FOOTER_LEN) ?b bytes = Abort" by (simp add: range_def)
  then show ?thesis using assms by (simp add: load_commit_ops_v4_def Let_def body_end_of_def read_ops_def split_def)
qed

definition empty_envelope :: "u8 list CodecEnvelope" where
  "empty_envelope = \<lparr>ce_t = 0, ce_parents = [], ce_namespace_delta = [], ce_txn = None, ce_time = None, ce_txn_signature = None,
     ce_txn_meta = [], ce_graph_delta = [], ce_ns_split_mode = None\<rparr>"

definition claimed_header :: CommitHeader where
  "claimed_header = \<lparr>ch_version = VERSION, ch_flags = FLAG_HAS_COMMIT_SIG, ch_t = 1, ch_op_count = 0, ch_envelope_len = 4, ch_sig_block_len = 96\<rparr>"

theorem signature_length_panics_witness:
  "load_commit_ops_v4 sample_cids sample_zstd (header_bytes claimed_header @ [4, 0, 0, 0] @ replicate 60 0) = Abort"
proof -
  let ?bytes = "header_bytes claimed_header @ [4, 0, 0, 0] @ replicate 60 0"
  have h: "CommitHeader_read_from ?bytes = Done claimed_header"
    by (rule header_round_trip) (simp add: header_ok_def claimed_header_def)
  have "encode_envelope_fields sample_cids empty_envelope [] = Done [4, 0, 0, 0]" by code_simp
  then have "decode_envelope sample_cids [4, 0, 0, 0] = Done (stored_envelope empty_envelope)"
    by (rule envelope_round_trip) (simp_all add: sample_ok envelope_ok_def empty_envelope_def delta_ok_def hm_wf_def usize_max_def)
  then have "read_envelope sample_cids claimed_header ?bytes = Done (stored_envelope empty_envelope, HEADER_LEN + 4)"
    using range_at [of HEADER_LEN "header_bytes claimed_header" "HEADER_LEN + 4" "[4, 0, 0, 0]" "replicate 60 0"]
    by (simp add: read_envelope_def claimed_header_def)
  then show ?thesis
    by (intro signature_length_panics [OF _ _ h])
      (simp_all add: MIN_COMMIT_LEN_def HEADER_LEN_def FOOTER_LEN_def usize_max_def has_sig_block_def claimed_header_def FLAG_HAS_COMMIT_SIG_def)
qed

text \<open>
  \<open>decode_varint\<close> takes overlong encodings: from the eleventh byte on a payload of 1 passes the overflow check and lands at
  the bit that the shift, taken modulo 64, leaves, so ten continuation bytes and a 1 read as 64.
\<close>

theorem overlong_varint_accepted: "decode_varint (replicate 10 0x80 @ [1]) 0 = Done (64, 11)"
  by code_simp

text \<open>
  A transaction signature whose signer is longer than 256 bytes is written without complaint, and wherever it stands in an
  envelope the decoder refuses it: the commit cannot be read back.
\<close>

theorem long_signer_unreadable:
  assumes "str_ok (ts_signer sig)" "256 < length (ts_signer sig)" "length pre + length (encode_txn_signature sig []) + length post \<le> usize_max"
  shows "decode_txn_signature (encode_txn_signature sig pre @ post) (length pre) =
    Fail (EnvelopeDecode ''txn_signature signer length exceeds maximum 256'')"
proof -
  let ?rest = "(case ts_txn_id sig of Some txn_id \<Rightarrow> 1 # entry_bytes txn_id | None \<Rightarrow> [0]) @ post"
  have e: "encode_txn_signature sig pre @ post = pre @ entry_bytes (ts_signer sig) @ ?rest" by (simp add: encode_txn_signature_bytes)
  have "decode_len_str (pre @ entry_bytes (ts_signer sig) @ ?rest) (length pre) = Done (ts_signer sig, length pre + length (entry_bytes (ts_signer sig)))"
    using assms(3) by (intro readsD [OF reads_len_str [OF assms(1)]]) (simp add: encode_txn_signature_bytes)
  then show ?thesis unfolding e decode_txn_signature_def using assms(2) by (simp add: bindR_def liftR_def)
qed

theorem long_signer_unreadable_witness:
  "decode_txn_signature (encode_txn_signature \<lparr>ts_signer = replicate 257 0x61, ts_txn_id = None\<rparr> [] @ []) 0 =
    Fail (EnvelopeDecode ''txn_signature signer length exceeds maximum 256'')"
proof -
  have u: "utf8_valid (map unat (replicate 257 (0x61 :: u8)))" by (rule utf8_ascii) (simp add: list_all_iff)
  have "length (encode_varint (0x101 :: u64) []) = 2" by code_simp
  then show ?thesis
    using long_signer_unreadable [of "\<lparr>ts_signer = replicate 257 0x61, ts_txn_id = None\<rparr>" "[]" "[]"] u
    by (simp add: str_ok_def usize_max_def encode_txn_signature_bytes del: map_replicate)
qed

end
