(* ===== verification/FlakeOrder.thy ===== *)
theory FlakeOrder
  imports CommitOps "HOL-Library.List_Lexorder" Complex_Main
begin

text \<open>
  The orders on flakes: \<open>Ord for Sid\<close> (\<open>fluree-db-core/src/sid.rs\<close>), \<open>Ord for FlakeValue\<close>
  (\<open>value.rs\<close>), \<open>Ord for FlakeMeta\<close> (\<open>flake.rs\<close>) and the four index comparators of \<open>comparator.rs\<close>.

  A double is its 64 bits, read as IEEE 754 binary64. The numbers and instants behind a text
  (\<open>BigInt\<close>, \<open>BigDecimal\<close>, the temporal types) and the packed form of a geo point come from the
  record \<open>value_lib\<close>, which stands for the crates \<open>num-bigint\<close>, \<open>bigdecimal\<close> and \<open>chrono\<close>.

  The comparators are a total preorder on the flakes whose doubles are finite and whose vectors have
  no NaN (\<open>ordered_flake\<close>): there each of them compares a key in a linear order. The locale
  \<open>keyed_order\<close> is that contract, with what the clients of a comparator derive from it: sorting,
  and the point that partitions a sorted list.
\<close>

section \<open>Orderings\<close>

datatype Ordering = Less | Equal | Greater

primrec reverse_ord :: "Ordering \<Rightarrow> Ordering" where
  "reverse_ord Less = Greater"
| "reverse_ord Equal = Equal"
| "reverse_ord Greater = Less"

definition then_with :: "Ordering \<Rightarrow> Ordering \<Rightarrow> Ordering" where
  "then_with a b = (if a = Equal then b else a)"

definition ord_cmp :: "'a::linorder \<Rightarrow> 'a \<Rightarrow> Ordering" where
  "ord_cmp a b = (if a < b then Less else if a = b then Equal else Greater)"

lemma ord_cmp_simps [simp]:
  "ord_cmp a b = Less \<longleftrightarrow> a < b"
  "ord_cmp a b = Equal \<longleftrightarrow> a = b"
  "ord_cmp a b = Greater \<longleftrightarrow> b < a"
  by (auto simp: ord_cmp_def)

lemma ord_cmp_refl [simp]: "ord_cmp a a = Equal"
  by simp

lemma reverse_ord_cmp [simp]: "reverse_ord (ord_cmp a b) = ord_cmp b a"
  by (auto simp: ord_cmp_def)

lemma then_with_Equal [simp]: "then_with Equal b = b" "then_with a Equal = a"
  by (auto simp: then_with_def)

lemma then_with_ord_cmp: "then_with (ord_cmp a b) (ord_cmp c d) = ord_cmp (a, c) (b, d)"
  by (auto simp: then_with_def ord_cmp_def)

lemma ord_cmp_fst_eq [simp]: "ord_cmp (a, c) (a, d) = ord_cmp c d"
  by (auto simp: ord_cmp_def)

lemma ord_cmp_fst_neq: "a \<noteq> b \<Longrightarrow> ord_cmp (a, c) (b, d) = ord_cmp a b"
  by (auto simp: ord_cmp_def)

lemma ord_cmp_snd_eq [simp]: "ord_cmp (a, c) (b, c) = ord_cmp a b"
  by (auto simp: ord_cmp_def)

lemma ord_cmp_of_int [simp]: "ord_cmp (of_int a :: rat) (of_int b) = ord_cmp a b"
  by (auto simp: ord_cmp_def)

section \<open>Doubles\<close>

definition f64_exponent :: "u64 \<Rightarrow> nat" where
  "f64_exponent b = (unat b div 2 ^ 52) mod 2 ^ 11"

definition f64_mantissa :: "u64 \<Rightarrow> nat" where
  "f64_mantissa b = unat b mod 2 ^ 52"

definition f64_negative :: "u64 \<Rightarrow> bool" where
  "f64_negative b \<longleftrightarrow> 2 ^ 63 \<le> unat b"

definition f64_finite :: "u64 \<Rightarrow> bool" where
  "f64_finite b \<longleftrightarrow> f64_exponent b \<noteq> 2047"

definition f64_nan :: "u64 \<Rightarrow> bool" where
  "f64_nan b \<longleftrightarrow> f64_exponent b = 2047 \<and> f64_mantissa b \<noteq> 0"

text \<open>The rational a finite double denotes, and the extended number of one that is not NaN.\<close>

definition f64_rat :: "u64 \<Rightarrow> rat" where
  "f64_rat b =
    (if f64_negative b then -1 else 1) *
    (if f64_exponent b = 0 then of_nat (2 * f64_mantissa b) / 2 ^ 1075
     else of_nat ((2 ^ 52 + f64_mantissa b) * 2 ^ f64_exponent b) / 2 ^ 1075)"

definition f64_ext :: "u64 \<Rightarrow> int \<times> rat" where
  "f64_ext b = (if f64_finite b then (0, f64_rat b) else (if f64_negative b then -1 else 1, 0))"

definition f64_partial_cmp :: "u64 \<Rightarrow> u64 \<Rightarrow> Ordering option" where
  "f64_partial_cmp a b = (if f64_nan a \<or> f64_nan b then None else Some (ord_cmp (f64_ext a) (f64_ext b)))"

definition f64_or_bits_cmp :: "u64 \<Rightarrow> u64 \<Rightarrow> Ordering" where
  "f64_or_bits_cmp a b = (case f64_partial_cmp a b of Some c \<Rightarrow> c | None \<Rightarrow> ord_cmp a b)"

lemma f64_finite_not_nan [simp]: "f64_finite b \<Longrightarrow> \<not> f64_nan b"
  by (simp add: f64_finite_def f64_nan_def)

lemma f64_or_bits_cmp_ext: "\<lbrakk>\<not> f64_nan a; \<not> f64_nan b\<rbrakk> \<Longrightarrow> f64_or_bits_cmp a b = ord_cmp (f64_ext a) (f64_ext b)"
  by (simp add: f64_or_bits_cmp_def f64_partial_cmp_def)

section \<open>Values\<close>

record value_lib =
  lb_bigint :: "str \<Rightarrow> int"
  lb_decimal :: "str \<Rightarrow> rat"
  lb_decimal_of_f64 :: "u64 \<Rightarrow> rat option"
  lb_temporal :: "nat \<Rightarrow> str \<Rightarrow> int \<times> int"
  lb_geo_bits :: "u64 \<Rightarrow> u64 \<Rightarrow> u64"

text \<open>
  \<open>lb_temporal d\<close> gives the fields that the \<open>Ord\<close> of the temporal type with discriminant \<open>d\<close>
  compares, in their order (the second is 0 where the type compares one field).
\<close>

definition Sid_cmp :: "Sid \<Rightarrow> Sid \<Rightarrow> Ordering" where
  "Sid_cmp a b = then_with (ord_cmp (sid_namespace_code a) (sid_namespace_code b)) (ord_cmp (sid_name a) (sid_name b))"

primrec type_discriminant :: "FlakeValue \<Rightarrow> nat" where
  "type_discriminant FV_Null = 0"
| "type_discriminant (FV_Ref x) = 1"
| "type_discriminant (FV_Boolean x) = 2"
| "type_discriminant (FV_Long x) = 3"
| "type_discriminant (FV_BigInt x) = 4"
| "type_discriminant (FV_Double x) = 5"
| "type_discriminant (FV_Decimal x) = 6"
| "type_discriminant (FV_Date x) = 7"
| "type_discriminant (FV_Time x) = 8"
| "type_discriminant (FV_DateTime x) = 9"
| "type_discriminant (FV_GYear x) = 10"
| "type_discriminant (FV_GYearMonth x) = 11"
| "type_discriminant (FV_GMonth x) = 12"
| "type_discriminant (FV_GDay x) = 13"
| "type_discriminant (FV_GMonthDay x) = 14"
| "type_discriminant (FV_YearMonthDuration x) = 15"
| "type_discriminant (FV_DayTimeDuration x) = 16"
| "type_discriminant (FV_Duration x) = 17"
| "type_discriminant (FV_String x) = 18"
| "type_discriminant (FV_Json x) = 19"
| "type_discriminant (FV_GeoPoint x y) = 20"
| "type_discriminant (FV_Vector x) = 21"

definition is_numeric :: "FlakeValue \<Rightarrow> bool" where
  "is_numeric v = (case v of FV_Long _ \<Rightarrow> True | FV_Double _ \<Rightarrow> True | FV_BigInt _ \<Rightarrow> True | FV_Decimal _ \<Rightarrow> True | _ \<Rightarrow> False)"

definition is_temporal :: "FlakeValue \<Rightarrow> bool" where
  "is_temporal v = (case v of FV_DateTime _ \<Rightarrow> True | FV_Date _ \<Rightarrow> True | FV_Time _ \<Rightarrow> True | FV_GYear _ \<Rightarrow> True
     | FV_GYearMonth _ \<Rightarrow> True | FV_GMonth _ \<Rightarrow> True | FV_GDay _ \<Rightarrow> True | FV_GMonthDay _ \<Rightarrow> True | _ \<Rightarrow> False)"

definition is_duration :: "FlakeValue \<Rightarrow> bool" where
  "is_duration v = (case v of FV_YearMonthDuration _ \<Rightarrow> True | FV_DayTimeDuration _ \<Rightarrow> True | FV_Duration _ \<Rightarrow> True | _ \<Rightarrow> False)"

subsection \<open>Numbers\<close>

text \<open>
  \<open>v.abs() <= 1 << 53\<close> on \<open>i64\<close>: \<open>i64::MIN.abs()\<close> wraps to \<open>i64::MIN\<close> in a release build (and panics
  with overflow checks), so the test holds there; an integer that passes converts exactly.
\<close>

definition i64_fits_f64 :: "u64 \<Rightarrow> bool" where
  "i64_fits_f64 v \<longleftrightarrow> (if sint v = - (2 ^ 63) then sint v else \<bar>sint v\<bar>) \<le> 2 ^ 53"

definition cmp_long_double :: "'a value_lib_scheme \<Rightarrow> u64 \<Rightarrow> u64 \<Rightarrow> Ordering option" where
  "cmp_long_double L a b =
    (if i64_fits_f64 a
     then if f64_nan b then None else Some (ord_cmp (0, of_int (sint a)) (f64_ext b))
     else map_option (ord_cmp (of_int (sint a))) (lb_decimal_of_f64 L b))"

definition cmp_double_rat :: "'a value_lib_scheme \<Rightarrow> u64 \<Rightarrow> rat \<Rightarrow> Ordering option" where
  "cmp_double_rat L a q = map_option (\<lambda>r. ord_cmp r q) (lb_decimal_of_f64 L a)"

definition numeric_cmp :: "'a value_lib_scheme \<Rightarrow> FlakeValue \<Rightarrow> FlakeValue \<Rightarrow> Ordering option" where
  "numeric_cmp L v w = (case v of
     FV_Long a \<Rightarrow> (case w of
         FV_Long b \<Rightarrow> Some (ord_cmp (sint a) (sint b))
       | FV_Double b \<Rightarrow> cmp_long_double L a b
       | FV_BigInt b \<Rightarrow> Some (ord_cmp (sint a) (lb_bigint L b))
       | FV_Decimal b \<Rightarrow> Some (ord_cmp (of_int (sint a)) (lb_decimal L b))
       | _ \<Rightarrow> None)
   | FV_Double a \<Rightarrow> (case w of
         FV_Double b \<Rightarrow> (case f64_partial_cmp a b of Some c \<Rightarrow> Some c | None \<Rightarrow> Some (ord_cmp a b))
       | FV_Long b \<Rightarrow> map_option reverse_ord (cmp_long_double L b a)
       | FV_BigInt b \<Rightarrow> cmp_double_rat L a (of_int (lb_bigint L b))
       | FV_Decimal b \<Rightarrow> cmp_double_rat L a (lb_decimal L b)
       | _ \<Rightarrow> None)
   | FV_BigInt a \<Rightarrow> (case w of
         FV_BigInt b \<Rightarrow> Some (ord_cmp (lb_bigint L a) (lb_bigint L b))
       | FV_Long b \<Rightarrow> Some (ord_cmp (lb_bigint L a) (sint b))
       | FV_Double b \<Rightarrow> map_option reverse_ord (cmp_double_rat L b (of_int (lb_bigint L a)))
       | FV_Decimal b \<Rightarrow> Some (ord_cmp (of_int (lb_bigint L a)) (lb_decimal L b))
       | _ \<Rightarrow> None)
   | FV_Decimal a \<Rightarrow> (case w of
         FV_Decimal b \<Rightarrow> Some (ord_cmp (lb_decimal L a) (lb_decimal L b))
       | FV_Long b \<Rightarrow> Some (ord_cmp (lb_decimal L a) (of_int (sint b)))
       | FV_Double b \<Rightarrow> map_option reverse_ord (cmp_double_rat L b (lb_decimal L a))
       | FV_BigInt b \<Rightarrow> Some (ord_cmp (lb_decimal L a) (of_int (lb_bigint L b)))
       | _ \<Rightarrow> None)
   | _ \<Rightarrow> None)"

subsection \<open>Temporal values, vectors\<close>

text \<open>The semantic (partial) order of \<open>Duration\<close>, on the pair of its months and microseconds.\<close>

definition Duration_partial_cmp :: "int \<times> int \<Rightarrow> int \<times> int \<Rightarrow> Ordering option" where
  "Duration_partial_cmp a b = (let month_cmp = ord_cmp (fst a) (fst b); micro_cmp = ord_cmp (snd a) (snd b) in
     if month_cmp = Equal then Some micro_cmp
     else if micro_cmp = Equal then Some month_cmp
     else if month_cmp = micro_cmp then Some month_cmp
     else None)"

definition temporal_text :: "FlakeValue \<Rightarrow> str option" where
  "temporal_text v = (case v of FV_DateTime x \<Rightarrow> Some x | FV_Date x \<Rightarrow> Some x | FV_Time x \<Rightarrow> Some x | FV_GYear x \<Rightarrow> Some x
     | FV_GYearMonth x \<Rightarrow> Some x | FV_GMonth x \<Rightarrow> Some x | FV_GDay x \<Rightarrow> Some x | FV_GMonthDay x \<Rightarrow> Some x
     | FV_YearMonthDuration x \<Rightarrow> Some x | FV_DayTimeDuration x \<Rightarrow> Some x | FV_Duration x \<Rightarrow> Some x | _ \<Rightarrow> None)"

definition temporal_cmp :: "'a value_lib_scheme \<Rightarrow> FlakeValue \<Rightarrow> FlakeValue \<Rightarrow> Ordering option" where
  "temporal_cmp L v w = (let d = type_discriminant v in
     if type_discriminant w \<noteq> d then None
     else case (temporal_text v, temporal_text w) of
       (Some a, Some b) \<Rightarrow>
         (if d = 17 then Duration_partial_cmp (lb_temporal L d a) (lb_temporal L d b)
          else Some (ord_cmp (lb_temporal L d a) (lb_temporal L d b)))
     | _ \<Rightarrow> None)"

text \<open>Vectors: the empty one is the greatest; otherwise element by element, then by length.\<close>

fun zip_cmp :: "(u64 \<times> u64) list \<Rightarrow> Ordering" where
  "zip_cmp [] = Equal"
| "zip_cmp ((x, y) # r) = then_with (f64_or_bits_cmp x y) (zip_cmp r)"

definition Vector_cmp :: "u64 list \<Rightarrow> u64 list \<Rightarrow> Ordering" where
  "Vector_cmp a b =
    (if a = [] \<and> b = [] then Equal else if a = [] then Greater else if b = [] then Less
     else then_with (zip_cmp (zip a b)) (ord_cmp (length a) (length b)))"

definition same_type_cmp :: "'a value_lib_scheme \<Rightarrow> FlakeValue \<Rightarrow> FlakeValue \<Rightarrow> Ordering" where
  "same_type_cmp L v w = (case v of
     FV_Ref a \<Rightarrow> (case w of FV_Ref b \<Rightarrow> Sid_cmp a b | _ \<Rightarrow> Equal)
   | FV_Boolean a \<Rightarrow> (case w of FV_Boolean b \<Rightarrow> ord_cmp a b | _ \<Rightarrow> Equal)
   | FV_Long a \<Rightarrow> (case w of FV_Long b \<Rightarrow> ord_cmp (sint a) (sint b) | _ \<Rightarrow> Equal)
   | FV_Double a \<Rightarrow> (case w of FV_Double b \<Rightarrow> f64_or_bits_cmp a b | _ \<Rightarrow> Equal)
   | FV_BigInt a \<Rightarrow> (case w of FV_BigInt b \<Rightarrow> ord_cmp (lb_bigint L a) (lb_bigint L b) | _ \<Rightarrow> Equal)
   | FV_Decimal a \<Rightarrow> (case w of FV_Decimal b \<Rightarrow> ord_cmp (lb_decimal L a) (lb_decimal L b) | _ \<Rightarrow> Equal)
   | FV_String a \<Rightarrow> (case w of FV_String b \<Rightarrow> ord_cmp a b | _ \<Rightarrow> Equal)
   | FV_Json a \<Rightarrow> (case w of FV_Json b \<Rightarrow> ord_cmp a b | _ \<Rightarrow> Equal)
   | FV_Vector a \<Rightarrow> (case w of FV_Vector b \<Rightarrow> Vector_cmp a b | _ \<Rightarrow> Equal)
   | FV_GeoPoint a c \<Rightarrow> (case w of FV_GeoPoint b d \<Rightarrow> ord_cmp (lb_geo_bits L a c) (lb_geo_bits L b d) | _ \<Rightarrow> Equal)
   | _ \<Rightarrow> (case (temporal_text v, temporal_text w) of
       (Some a, Some b) \<Rightarrow> ord_cmp (lb_temporal L (type_discriminant v) a) (lb_temporal L (type_discriminant w) b)
     | _ \<Rightarrow> Equal))"

definition FlakeValue_cmp :: "'a value_lib_scheme \<Rightarrow> FlakeValue \<Rightarrow> FlakeValue \<Rightarrow> Ordering" where
  "FlakeValue_cmp L v w = (let by_discriminant = ord_cmp (type_discriminant v) (type_discriminant w) in
     if type_discriminant v = type_discriminant w then same_type_cmp L v w
     else if is_numeric v \<and> is_numeric w then
       (case numeric_cmp L v w of Some c \<Rightarrow> c | None \<Rightarrow> by_discriminant)
     else if (is_temporal v \<and> is_temporal w) \<or> (is_duration v \<and> is_duration w) then
       (case temporal_cmp L v w of Some c \<Rightarrow> c | None \<Rightarrow> by_discriminant)
     else by_discriminant)"

section \<open>Flakes\<close>

definition FlakeMeta_cmp :: "FlakeMeta \<Rightarrow> FlakeMeta \<Rightarrow> Ordering" where
  "FlakeMeta_cmp a b = (case (fm_i a, fm_i b) of
     (Some i, Some j) \<Rightarrow> ord_cmp (sint i) (sint j)
   | (Some i, None) \<Rightarrow> Greater
   | (None, Some j) \<Rightarrow> Less
   | (None, None) \<Rightarrow> (case (fm_lang a, fm_lang b) of
       (Some x, Some y) \<Rightarrow> ord_cmp x y
     | (Some x, None) \<Rightarrow> Greater
     | (None, Some y) \<Rightarrow> Less
     | (None, None) \<Rightarrow> Equal))"

definition cmp_object :: "'a value_lib_scheme \<Rightarrow> Flake \<Rightarrow> Flake \<Rightarrow> Ordering" where
  "cmp_object L f1 f2 = then_with (FlakeValue_cmp L (fl_o f1) (fl_o f2)) (Sid_cmp (fl_dt f1) (fl_dt f2))"

definition cmp_meta :: "Flake \<Rightarrow> Flake \<Rightarrow> Ordering" where
  "cmp_meta f1 f2 = (case (fl_m f1, fl_m f2) of
     (None, None) \<Rightarrow> Equal
   | (None, Some _) \<Rightarrow> Less
   | (Some _, None) \<Rightarrow> Greater
   | (Some a, Some b) \<Rightarrow> FlakeMeta_cmp a b)"

definition i64_cmp :: "u64 \<Rightarrow> u64 \<Rightarrow> Ordering" where
  "i64_cmp a b = ord_cmp (sint a) (sint b)"

datatype IndexType = Spot | Psot | Post | Opst

definition cmp_spot :: "'a value_lib_scheme \<Rightarrow> Flake \<Rightarrow> Flake \<Rightarrow> Ordering" where
  "cmp_spot L f1 f2 =
    then_with (Sid_cmp (fl_s f1) (fl_s f2))
    (then_with (Sid_cmp (fl_p f1) (fl_p f2))
    (then_with (cmp_object L f1 f2)
    (then_with (i64_cmp (fl_t f1) (fl_t f2))
    (then_with (ord_cmp (fl_op f1) (fl_op f2)) (cmp_meta f1 f2)))))"

definition cmp_psot :: "'a value_lib_scheme \<Rightarrow> Flake \<Rightarrow> Flake \<Rightarrow> Ordering" where
  "cmp_psot L f1 f2 =
    then_with (Sid_cmp (fl_p f1) (fl_p f2))
    (then_with (Sid_cmp (fl_s f1) (fl_s f2))
    (then_with (cmp_object L f1 f2)
    (then_with (i64_cmp (fl_t f1) (fl_t f2))
    (then_with (ord_cmp (fl_op f1) (fl_op f2)) (cmp_meta f1 f2)))))"

definition cmp_post :: "'a value_lib_scheme \<Rightarrow> Flake \<Rightarrow> Flake \<Rightarrow> Ordering" where
  "cmp_post L f1 f2 =
    then_with (Sid_cmp (fl_p f1) (fl_p f2))
    (then_with (cmp_object L f1 f2)
    (then_with (Sid_cmp (fl_s f1) (fl_s f2))
    (then_with (i64_cmp (fl_t f1) (fl_t f2))
    (then_with (ord_cmp (fl_op f1) (fl_op f2)) (cmp_meta f1 f2)))))"

definition cmp_opst :: "'a value_lib_scheme \<Rightarrow> Flake \<Rightarrow> Flake \<Rightarrow> Ordering" where
  "cmp_opst L f1 f2 =
    then_with (cmp_object L f1 f2)
    (then_with (Sid_cmp (fl_p f1) (fl_p f2))
    (then_with (Sid_cmp (fl_s f1) (fl_s f2))
    (then_with (i64_cmp (fl_t f1) (fl_t f2))
    (then_with (ord_cmp (fl_op f1) (fl_op f2)) (cmp_meta f1 f2)))))"

primrec index_compare :: "'a value_lib_scheme \<Rightarrow> IndexType \<Rightarrow> Flake \<Rightarrow> Flake \<Rightarrow> Ordering" where
  "index_compare L Spot = cmp_spot L"
| "index_compare L Psot = cmp_psot L"
| "index_compare L Post = cmp_post L"
| "index_compare L Opst = cmp_opst L"

section \<open>The keys the orders compare\<close>

definition ordered_value :: "FlakeValue \<Rightarrow> bool" where
  "ordered_value v = (case v of FV_Double b \<Rightarrow> f64_finite b | FV_Vector bs \<Rightarrow> list_all (\<lambda>b. \<not> f64_nan b) bs | _ \<Rightarrow> True)"

definition ordered_flake :: "Flake \<Rightarrow> bool" where
  "ordered_flake f \<longleftrightarrow> ordered_value (fl_o f)"

text \<open>What the code relies on from \<open>BigDecimal::try_from(f64)\<close>: exact on the finite doubles.\<close>

definition decimal_exact :: "'a value_lib_scheme \<Rightarrow> bool" where
  "decimal_exact L \<longleftrightarrow> (\<forall>b. f64_finite b \<longrightarrow> lb_decimal_of_f64 L b = Some (f64_rat b))"

definition Sid_key :: "Sid \<Rightarrow> u16 \<times> str" where
  "Sid_key s = (sid_namespace_code s, sid_name s)"

definition value_class :: "FlakeValue \<Rightarrow> nat" where
  "value_class v = (if is_numeric v then 3 else type_discriminant v)"

definition value_number :: "'a value_lib_scheme \<Rightarrow> FlakeValue \<Rightarrow> rat" where
  "value_number L v = (case v of FV_Boolean b \<Rightarrow> of_bool b | FV_Long a \<Rightarrow> of_int (sint a) | FV_Double b \<Rightarrow> f64_rat b
     | FV_BigInt s \<Rightarrow> of_int (lb_bigint L s) | FV_Decimal s \<Rightarrow> lb_decimal L s
     | FV_GeoPoint a b \<Rightarrow> of_int (uint (lb_geo_bits L a b)) | _ \<Rightarrow> 0)"

definition value_sid :: "FlakeValue \<Rightarrow> u16 \<times> str" where
  "value_sid v = (case v of FV_Ref s \<Rightarrow> Sid_key s | FV_String x \<Rightarrow> (0, x) | FV_Json x \<Rightarrow> (0, x) | _ \<Rightarrow> (0, []))"

definition value_instant :: "'a value_lib_scheme \<Rightarrow> FlakeValue \<Rightarrow> int \<times> int" where
  "value_instant L v = (case temporal_text v of Some x \<Rightarrow> lb_temporal L (type_discriminant v) x | None \<Rightarrow> (0, 0))"

definition value_vector :: "FlakeValue \<Rightarrow> bool \<times> (int \<times> rat) list" where
  "value_vector v = (case v of FV_Vector bs \<Rightarrow> (bs = [], map f64_ext bs) | _ \<Rightarrow> (False, []))"

type_synonym value_key = "nat \<times> rat \<times> (u16 \<times> str) \<times> (int \<times> int) \<times> bool \<times> (int \<times> rat) list"

definition value_key :: "'a value_lib_scheme \<Rightarrow> FlakeValue \<Rightarrow> value_key" where
  "value_key L v = (value_class v, value_number L v, value_sid v, value_instant L v, value_vector v)"

definition meta_key :: "FlakeMeta option \<Rightarrow> nat \<times> (nat \<times> int) \<times> nat \<times> str" where
  "meta_key m = (case m of None \<Rightarrow> (0, (0, 0), 0, [])
     | Some a \<Rightarrow> (case fm_i a of
         Some i \<Rightarrow> (1, (1, sint i), 0, [])
       | None \<Rightarrow> (1, (0, 0), (case fm_lang a of Some x \<Rightarrow> (1, x) | None \<Rightarrow> (0, [])))))"

lemma Sid_cmp_key: "Sid_cmp a b = ord_cmp (Sid_key a) (Sid_key b)"
  by (simp add: Sid_cmp_def Sid_key_def then_with_ord_cmp)

lemma cmp_meta_key: "cmp_meta f1 f2 = ord_cmp (meta_key (fl_m f1)) (meta_key (fl_m f2))"
  by (auto simp: cmp_meta_def meta_key_def FlakeMeta_cmp_def ord_cmp_def split: option.splits)

lemma ord_cmp_Cons: "ord_cmp (x # xs) (y # ys) = then_with (ord_cmp x y) (ord_cmp xs ys)"
  by (auto simp: ord_cmp_def then_with_def)

lemma zip_cmp_key:
  assumes "list_all (\<lambda>b. \<not> f64_nan b) a" "list_all (\<lambda>b. \<not> f64_nan b) b"
  shows "then_with (zip_cmp (zip a b)) (ord_cmp (length a) (length b)) = ord_cmp (map f64_ext a) (map f64_ext b)"
  using assms
proof (induction a b rule: list_induct2')
  case (4 x xs y ys)
  then show ?case
    by (simp add: ord_cmp_Cons f64_or_bits_cmp_ext) (auto simp: then_with_def ord_cmp_def split: if_splits)
qed (auto simp: ord_cmp_def)

lemma Vector_cmp_key:
  assumes "list_all (\<lambda>b. \<not> f64_nan b) a" "list_all (\<lambda>b. \<not> f64_nan b) b"
  shows "Vector_cmp a b = ord_cmp (a = [], map f64_ext a) (b = [], map f64_ext b)"
  using zip_cmp_key [OF assms] by (cases a; cases b) (auto simp: Vector_cmp_def ord_cmp_def)


lemma f64_ext_finite: "f64_finite b \<Longrightarrow> f64_ext b = (0, f64_rat b)"
  by (simp add: f64_ext_def)

lemma ord_cmp_bool [simp]: "ord_cmp (of_bool a :: rat) (of_bool b) = ord_cmp a b"
  by (cases a; cases b) (auto simp: ord_cmp_def)

lemma ord_cmp_word: "ord_cmp (a :: u64) b = ord_cmp (uint a) (uint b)"
  by (simp add: ord_cmp_def word_less_def word_uint_eq_iff)

lemmas value_key_defs = value_key_def value_class_def value_number_def value_sid_def value_instant_def value_vector_def

lemma numeric_cmp_key:
  assumes "decimal_exact L" "ordered_value v" "ordered_value w" "is_numeric v" "is_numeric w"
  shows "numeric_cmp L v w = Some (ord_cmp (value_number L v) (value_number L w))"
  using assms
  by (cases v; cases w)
    (simp_all add: is_numeric_def numeric_cmp_def value_number_def ordered_value_def decimal_exact_def cmp_long_double_def
       cmp_double_rat_def f64_ext_finite f64_partial_cmp_def del: of_int_sint)

lemma same_type_cmp_key:
  assumes "ordered_value v" "ordered_value w" "type_discriminant v = type_discriminant w"
  shows "same_type_cmp L v w = ord_cmp (value_key L v) (value_key L w)"
  using assms
  by (cases v; cases w)
    (simp_all add: same_type_cmp_def value_key_defs is_numeric_def temporal_text_def ordered_value_def Sid_cmp_key
       Vector_cmp_key f64_or_bits_cmp_ext f64_ext_finite ord_cmp_word del: of_int_sint of_int_uint)

lemma numeric_key:
  assumes "is_numeric v" "is_numeric w"
  shows "ord_cmp (value_key L v) (value_key L w) = ord_cmp (value_number L v) (value_number L w)"
  using assms
  by (cases v; cases w) (simp_all add: value_key_defs is_numeric_def temporal_text_def)

lemma value_class_discriminant:
  assumes "type_discriminant v \<noteq> type_discriminant w" "\<not> (is_numeric v \<and> is_numeric w)"
  shows "ord_cmp (value_key L v) (value_key L w) = ord_cmp (type_discriminant v) (type_discriminant w)"
proof -
  have 1: "value_class v \<noteq> value_class w" "ord_cmp (value_class v) (value_class w) = ord_cmp (type_discriminant v) (type_discriminant w)"
    using assms by (cases v; cases w; simp add: value_class_def is_numeric_def ord_cmp_def)+
  then show ?thesis
    by (simp add: value_key_def ord_cmp_fst_neq)
qed

lemma temporal_cmp_cross: "type_discriminant v \<noteq> type_discriminant w \<Longrightarrow> temporal_cmp L v w = None"
  by (simp add: temporal_cmp_def)

theorem FlakeValue_cmp_key:
  assumes "decimal_exact L" "ordered_value v" "ordered_value w"
  shows "FlakeValue_cmp L v w = ord_cmp (value_key L v) (value_key L w)"
  using same_type_cmp_key [OF assms(2,3)] numeric_cmp_key [OF assms] numeric_key [of v w L]
    value_class_discriminant [of v w L] temporal_cmp_cross [of v w L]
  by (auto simp: FlakeValue_cmp_def Let_def)

definition object_key :: "'a value_lib_scheme \<Rightarrow> Flake \<Rightarrow> value_key \<times> u16 \<times> str" where
  "object_key L f = (value_key L (fl_o f), Sid_key (fl_dt f))"

definition stamp_key :: "Flake \<Rightarrow> int \<times> bool \<times> nat \<times> (nat \<times> int) \<times> nat \<times> str" where
  "stamp_key f = (sint (fl_t f), fl_op f, meta_key (fl_m f))"

text \<open>
  The keys of the four orders differ in the order of subject, predicate and object only; they are
  put in one type by writing the subject and the predicate where they come before the object, the
  object, then those that come after it.
\<close>

type_synonym flake_key =
  "((u16 \<times> str) \<times> (u16 \<times> str)) \<times> (value_key \<times> u16 \<times> str) \<times> ((u16 \<times> str) \<times> (u16 \<times> str)) \<times>
   (int \<times> bool \<times> nat \<times> (nat \<times> int) \<times> nat \<times> str)"

definition no_key :: "u16 \<times> str" where
  "no_key = (0, [])"

primrec flake_key :: "'a value_lib_scheme \<Rightarrow> IndexType \<Rightarrow> Flake \<Rightarrow> flake_key" where
  "flake_key L Spot f = ((Sid_key (fl_s f), Sid_key (fl_p f)), object_key L f, (no_key, no_key), stamp_key f)"
| "flake_key L Psot f = ((Sid_key (fl_p f), Sid_key (fl_s f)), object_key L f, (no_key, no_key), stamp_key f)"
| "flake_key L Post f = ((Sid_key (fl_p f), no_key), object_key L f, (Sid_key (fl_s f), no_key), stamp_key f)"
| "flake_key L Opst f = ((no_key, no_key), object_key L f, (Sid_key (fl_p f), Sid_key (fl_s f)), stamp_key f)"

lemma cmp_object_key:
  "\<lbrakk>decimal_exact L; ordered_flake f; ordered_flake g\<rbrakk> \<Longrightarrow> cmp_object L f g = ord_cmp (object_key L f) (object_key L g)"
  by (simp add: cmp_object_def FlakeValue_cmp_key Sid_cmp_key then_with_ord_cmp object_key_def ordered_flake_def)

lemma then_with_assoc: "then_with (then_with a b) c = then_with a (then_with b c)"
  by (simp add: then_with_def)

theorem index_compare_key:
  assumes "decimal_exact L" "ordered_flake f" "ordered_flake g"
  shows "index_compare L ix f g = ord_cmp (flake_key L ix f) (flake_key L ix g)"
  by (cases ix)
    (simp_all add: cmp_spot_def cmp_psot_def cmp_post_def cmp_opst_def cmp_object_key [OF assms] Sid_cmp_key cmp_meta_key
       i64_cmp_def stamp_key_def then_with_ord_cmp [symmetric] then_with_assoc)

section \<open>The contract of a comparator\<close>

text \<open>Sorting and partitioning as the standard library does, on a slice and a comparator.\<close>

fun insert_by :: "('a \<Rightarrow> 'a \<Rightarrow> Ordering) \<Rightarrow> 'a \<Rightarrow> 'a list \<Rightarrow> 'a list" where
  "insert_by cmp x [] = [x]"
| "insert_by cmp x (y # ys) = (if cmp x y = Greater then y # insert_by cmp x ys else x # y # ys)"

definition sort_by :: "('a \<Rightarrow> 'a \<Rightarrow> Ordering) \<Rightarrow> 'a list \<Rightarrow> 'a list" where
  "sort_by cmp xs = foldr (insert_by cmp) xs []"

definition partition_point :: "('a \<Rightarrow> bool) \<Rightarrow> 'a list \<Rightarrow> nat" where
  "partition_point P xs = length (takeWhile P xs)"

lemma mset_insert_by [simp]: "mset (insert_by cmp x ys) = add_mset x (mset ys)"
  by (induction ys) auto

lemma mset_sort_by [simp]: "mset (sort_by cmp xs) = mset xs"
  by (induction xs) (simp_all add: sort_by_def)

lemma set_sort_by [simp]: "set (sort_by cmp xs) = set xs"
  using mset_sort_by by (metis set_mset_mset)

lemma length_sort_by [simp]: "length (sort_by cmp xs) = length xs"
  using mset_sort_by by (metis size_mset)

lemma sort_by_eq_Nil [simp]: "sort_by cmp xs = [] \<longleftrightarrow> xs = []"
  by (metis length_0_conv length_sort_by)

locale keyed_order =
  fixes cmp :: "'a \<Rightarrow> 'a \<Rightarrow> Ordering"
    and key :: "'a \<Rightarrow> 'k::linorder"
    and dm :: "'a \<Rightarrow> bool"
  assumes cmp_key: "\<lbrakk>dm x; dm y\<rbrakk> \<Longrightarrow> cmp x y = ord_cmp (key x) (key y)"
begin

lemma cmp_total: "\<lbrakk>dm x; dm y\<rbrakk> \<Longrightarrow> cmp y x = reverse_ord (cmp x y)"
  by (simp add: cmp_key)

lemma cmp_trans: "\<lbrakk>dm x; dm y; dm z; cmp x y \<noteq> Greater; cmp y z \<noteq> Greater\<rbrakk> \<Longrightarrow> cmp x z \<noteq> Greater"
  by (auto simp: cmp_key)

lemma cmp_equiv: "\<lbrakk>dm x; dm y; dm z; cmp x y = Equal\<rbrakk> \<Longrightarrow> cmp x z = cmp y z"
  by (simp add: cmp_key)

lemma insert_by_sorted:
  assumes "dm x" "list_all dm ys" "sorted (map key ys)"
  shows "sorted (map key (insert_by cmp x ys))"
  using assms
proof (induction ys)
  case (Cons y ys)
  have "set (insert_by cmp x ys) = insert x (set ys)"
    by (metis mset_insert_by set_mset_add_mset_insert set_mset_mset)
  then show ?case
    using Cons by (auto simp: cmp_key)
qed simp

lemma sort_by_sorted: "list_all dm xs \<Longrightarrow> sorted (map key (sort_by cmp xs))"
proof (induction xs)
  case (Cons x xs)
  have "list_all dm (sort_by cmp xs)"
    using Cons.prems by (simp add: list_all_iff)
  then show ?case
    using Cons insert_by_sorted [of x "sort_by cmp xs"] by (simp add: sort_by_def)
qed (simp add: sort_by_def)

text \<open>On a sorted list the elements not above a bound are a prefix.\<close>

lemma takeWhile_sorted:
  assumes "list_all dm xs" "dm b" "sorted (map key xs)"
  shows "takeWhile (\<lambda>x. cmp x b \<noteq> Greater) xs = filter (\<lambda>x. cmp x b \<noteq> Greater) xs"
  using assms
proof (induction xs)
  case (Cons x xs)
  show ?case
  proof (cases "cmp x b = Greater")
    case True
    then have "\<forall>y\<in>set xs. cmp y b = Greater"
      using Cons.prems by (fastforce simp: cmp_key list_all_iff)
    then show ?thesis
      using True by simp
  qed (use Cons in simp)
qed simp

end

interpretation ix_sid: keyed_order Sid_cmp Sid_key "\<lambda>_. True"
  by unfold_locales (simp add: Sid_cmp_key)

interpretation ix_meta: keyed_order cmp_meta "\<lambda>f. meta_key (fl_m f)" "\<lambda>_. True"
  by unfold_locales (simp add: cmp_meta_key)

text \<open>A comparator is used on positions of a slice as well as on flakes.\<close>

lemma keyed_order_index:
  assumes "keyed_order cmp key dm"
  shows "keyed_order (\<lambda>a b. cmp (xs ! a) (xs ! b)) (\<lambda>a. key (xs ! a)) (\<lambda>a. dm (xs ! a))"
  using assms by (simp add: keyed_order_def)

theorem index_order: "decimal_exact L \<Longrightarrow> keyed_order (index_compare L ix) (flake_key L ix) ordered_flake"
  by unfold_locales (simp add: index_compare_key)

end
