(* ===== verification/NoveltySegment.thy ===== *)
theory NoveltySegment
  imports FlakeOrder
begin

text \<open>
  Flake ids and segments of the novelty overlay (\<open>fluree-db-novelty/src/lib.rs\<close>).

  A \<open>FlakeId\<close> packs a graph id, a segment index and an index into the segment in 64 bits. A segment
  owns a batch of flakes and the four index orders over it; \<open>seg_range\<close> is the slice of an order that
  a range read visits, and \<open>may_overlap\<close> the test that lets a read skip the segment.

  The indices of an order are \<open>u32\<close> in the code; they are natural numbers here, and the truncation
  of \<open>n as u32\<close> is written out. The process-wide counters (\<open>NEXT_SEG_ID\<close> and
  \<open>NEXT_CONTENT_VERSION\<close>) are the record \<open>globals\<close>, passed along.
\<close>

section \<open>Flake ids\<close>

unbundle bit_operations_syntax

type_synonym FlakeId = u64

definition LOCAL_MASK :: u64 where
  "LOCAL_MASK = push_bit 24 1 - 1"

definition SEG_MASK :: u64 where
  "SEG_MASK = push_bit 24 1 - 1"

definition FlakeId_pack :: "u16 \<Rightarrow> nat \<Rightarrow> nat \<Rightarrow> FlakeId" where
  "FlakeId_pack g seg local = push_bit 48 (ucast g) OR push_bit 24 (of_nat seg) OR of_nat local"

definition FlakeId_graph :: "FlakeId \<Rightarrow> nat" where
  "FlakeId_graph fid = unat (drop_bit 48 fid)"

definition FlakeId_seg :: "FlakeId \<Rightarrow> nat" where
  "FlakeId_seg fid = unat (drop_bit 24 fid AND SEG_MASK)"

definition FlakeId_local :: "FlakeId \<Rightarrow> nat" where
  "FlakeId_local fid = unat (fid AND LOCAL_MASK)"

definition MAX_SEGMENT_FLAKES :: nat where
  "MAX_SEGMENT_FLAKES = unat LOCAL_MASK + 1"

definition MAX_SEGMENTS :: nat where
  "MAX_SEGMENTS = unat SEG_MASK + 1"

lemma mask_24: "LOCAL_MASK = mask 24" "SEG_MASK = mask 24"
  by (simp_all add: LOCAL_MASK_def SEG_MASK_def mask_eq_exp_minus_1)

lemma MAX_values [simp]: "MAX_SEGMENT_FLAKES = 2 ^ 24" "MAX_SEGMENTS = 2 ^ 24"
  by (simp_all add: MAX_SEGMENT_FLAKES_def MAX_SEGMENTS_def LOCAL_MASK_def SEG_MASK_def)

lemma bit_below: "(m :: nat) < 2 ^ k \<Longrightarrow> bit m n \<Longrightarrow> n < k"
  by (metis bit_take_bit_iff take_bit_nat_eq_self)

lemma bit_u16: "bit (g :: u16) n \<Longrightarrow> n < 16"
  using bit_imp_le_length [of g n] by simp

lemma FlakeId_local_pack: "\<lbrakk>seg < 2 ^ 24; i < 2 ^ 24\<rbrakk> \<Longrightarrow> FlakeId_local (FlakeId_pack g seg i) = i"
proof -
  assume i: "i < 2 ^ 24"
  have "FlakeId_pack g seg i AND LOCAL_MASK = of_nat i"
    by (rule bit_word_eqI) (auto simp: FlakeId_pack_def mask_24 bit_simps dest: bit_below [OF i] bit_u16)
  then show ?thesis
    using i by (simp add: FlakeId_local_def unat_of_nat)
qed

lemma FlakeId_seg_pack: "\<lbrakk>seg < 2 ^ 24; i < 2 ^ 24\<rbrakk> \<Longrightarrow> FlakeId_seg (FlakeId_pack g seg i) = seg"
proof -
  assume s: "seg < 2 ^ 24" and i: "i < 2 ^ 24"
  have "drop_bit 24 (FlakeId_pack g seg i) AND SEG_MASK = of_nat seg"
    by (rule bit_word_eqI) (auto simp: FlakeId_pack_def mask_24 bit_simps dest: bit_below [OF i] bit_below [OF s] bit_u16)
  then show ?thesis
    using s by (simp add: FlakeId_seg_def unat_of_nat)
qed

lemma FlakeId_graph_pack: "\<lbrakk>seg < 2 ^ 24; i < 2 ^ 24\<rbrakk> \<Longrightarrow> FlakeId_graph (FlakeId_pack g seg i) = unat g"
proof -
  assume s: "seg < 2 ^ 24" and i: "i < 2 ^ 24"
  have "drop_bit 48 (FlakeId_pack g seg i) = ucast g"
    by (rule bit_word_eqI) (auto simp: FlakeId_pack_def bit_simps dest: bit_below [OF i] bit_below [OF s] bit_u16)
  then show ?thesis
    using unsigned_less [of g, where 'a = nat] by (simp add: FlakeId_graph_def unsigned_ucast_eq take_bit_nat_eq_self)
qed

lemmas FlakeId_pack_simps = FlakeId_graph_pack FlakeId_seg_pack FlakeId_local_pack

section \<open>Segments\<close>

record globals =
  next_seg_id :: u64
  next_content_version :: u64

record Segment =
  sg_seg_id :: u64
  sg_flakes :: "Flake list"
  sg_spot :: "nat list"
  sg_psot :: "nat list"
  sg_post :: "nat list"
  sg_opst :: "nat list"
  sg_min_t :: int
  sg_max_t :: int
  sg_size :: nat

definition object_size :: "FlakeValue \<Rightarrow> nat" where
  "object_size v = (case v of FV_Null \<Rightarrow> 1 | FV_Boolean _ \<Rightarrow> 1 | FV_Long _ \<Rightarrow> 8 | FV_Double _ \<Rightarrow> 8
     | FV_BigInt x \<Rightarrow> 16 + length x | FV_Decimal x \<Rightarrow> 16 + length x
     | FV_DateTime x \<Rightarrow> 16 + length x | FV_Date x \<Rightarrow> 16 + length x | FV_Time x \<Rightarrow> 16 + length x
     | FV_GYear x \<Rightarrow> 16 + length x | FV_GYearMonth x \<Rightarrow> 16 + length x | FV_GMonth x \<Rightarrow> 16 + length x
     | FV_GDay x \<Rightarrow> 16 + length x | FV_GMonthDay x \<Rightarrow> 16 + length x
     | FV_YearMonthDuration x \<Rightarrow> 16 + length x | FV_DayTimeDuration x \<Rightarrow> 16 + length x | FV_Duration x \<Rightarrow> 16 + length x
     | FV_String x \<Rightarrow> 8 + length x | FV_Json x \<Rightarrow> 8 + length x | FV_Ref s \<Rightarrow> 8 + length (sid_name s)
     | FV_Vector xs \<Rightarrow> 8 + length xs * 8 | FV_GeoPoint _ _ \<Rightarrow> 8)"

definition size_bytes :: "Flake \<Rightarrow> nat" where
  "size_bytes f =
    (let base = 16 + (8 + length (sid_name (fl_s f))) + (8 + length (sid_name (fl_p f))) + (8 + length (sid_name (fl_dt f)));
         m_size = (case fl_m f of None \<Rightarrow> 0 | Some m \<Rightarrow> 8 + (case fm_lang m of None \<Rightarrow> 0 | Some x \<Rightarrow> length x) + 4)
     in base + object_size (fl_o f) + m_size + 9)"

definition flake_t :: "Flake \<Rightarrow> int" where
  "flake_t f = sint (fl_t f)"

definition i64_MAX :: int where
  "i64_MAX = 2 ^ 63 - 1"

definition i64_MIN :: int where
  "i64_MIN = - (2 ^ 63)"

definition order_by :: "'a value_lib_scheme \<Rightarrow> Flake list \<Rightarrow> IndexType \<Rightarrow> nat list" where
  "order_by L flakes ix = sort_by (\<lambda>a b. index_compare L ix (flakes ! a) (flakes ! b)) [0 ..< length flakes mod 2 ^ 32]"

definition Segment_build :: "'a value_lib_scheme \<Rightarrow> Flake list \<Rightarrow> globals \<Rightarrow> Segment \<times> globals" where
  "Segment_build L flakes gl =
    (\<lparr>sg_seg_id = next_seg_id gl, sg_flakes = flakes,
      sg_spot = order_by L flakes Spot, sg_psot = order_by L flakes Psot,
      sg_post = order_by L flakes Post, sg_opst = order_by L flakes Opst,
      sg_min_t = fold (\<lambda>f m. min m (flake_t f)) flakes i64_MAX,
      sg_max_t = fold (\<lambda>f m. max m (flake_t f)) flakes i64_MIN,
      sg_size = fold (\<lambda>f n. n + size_bytes f) flakes 0\<rparr>,
     gl\<lparr>next_seg_id := next_seg_id gl + 1\<rparr>)"

primrec seg_order :: "Segment \<Rightarrow> IndexType \<Rightarrow> nat list" where
  "seg_order seg Spot = sg_spot seg"
| "seg_order seg Psot = sg_psot seg"
| "seg_order seg Post = sg_post seg"
| "seg_order seg Opst = sg_opst seg"

definition seg_range :: "'a value_lib_scheme \<Rightarrow> Segment \<Rightarrow> IndexType \<Rightarrow> Flake option \<Rightarrow> Flake option \<Rightarrow> bool \<Rightarrow> nat list" where
  "seg_range L seg ix first rhs leftmost =
    (let ids = seg_order seg ix in
     if ids = [] then []
     else
       let start = (if leftmost then 0 else case first of
                      Some f \<Rightarrow> partition_point (\<lambda>i. index_compare L ix (sg_flakes seg ! i) f \<noteq> Greater) ids
                    | None \<Rightarrow> 0);
           fin = (case rhs of
                      Some r \<Rightarrow> partition_point (\<lambda>i. index_compare L ix (sg_flakes seg ! i) r \<noteq> Greater) ids
                    | None \<Rightarrow> length ids)
       in if start \<ge> fin then [] else take (fin - start) (drop start ids))"

definition may_overlap :: "'a value_lib_scheme \<Rightarrow> Segment \<Rightarrow> IndexType \<Rightarrow> Flake option \<Rightarrow> Flake option \<Rightarrow> bool \<Rightarrow> bool" where
  "may_overlap L seg ix first rhs leftmost =
    (let ids = seg_order seg ix in
     if ids = [] then False
     else
       let seg_min = sg_flakes seg ! hd ids; seg_max = sg_flakes seg ! last ids in
       if (case rhs of Some r \<Rightarrow> index_compare L ix seg_min r = Greater | None \<Rightarrow> False) then False
       else if \<not> leftmost \<and> (case first of Some f \<Rightarrow> index_compare L ix seg_max f \<noteq> Greater | None \<Rightarrow> False) then False
       else True)"

text \<open>The contract of a range read: above \<open>first\<close> (unless leftmost), at or below \<open>rhs\<close>.\<close>

definition in_range :: "'a value_lib_scheme \<Rightarrow> IndexType \<Rightarrow> Flake option \<Rightarrow> Flake option \<Rightarrow> bool \<Rightarrow> Flake \<Rightarrow> bool" where
  "in_range L ix first rhs leftmost f \<longleftrightarrow>
    (leftmost \<or> (case first of Some a \<Rightarrow> index_compare L ix f a = Greater | None \<Rightarrow> True)) \<and>
    (case rhs of Some r \<Rightarrow> index_compare L ix f r \<noteq> Greater | None \<Rightarrow> True)"

definition ordered_bounds :: "Flake option \<Rightarrow> Flake option \<Rightarrow> bool" where
  "ordered_bounds first rhs \<longleftrightarrow> pred_option ordered_flake first \<and> pred_option ordered_flake rhs"

subsection \<open>The invariant of a segment\<close>

definition seg_flakes_in :: "Segment \<Rightarrow> IndexType \<Rightarrow> Flake list" where
  "seg_flakes_in seg ix = map ((!) (sg_flakes seg)) (seg_order seg ix)"

definition segment_wf :: "'a value_lib_scheme \<Rightarrow> Segment \<Rightarrow> bool" where
  "segment_wf L seg \<longleftrightarrow>
    sg_flakes seg \<noteq> [] \<and> length (sg_flakes seg) \<le> MAX_SEGMENT_FLAKES \<and>
    list_all ordered_flake (sg_flakes seg) \<and>
    (\<forall>ix. mset (seg_order seg ix) = mset [0 ..< length (sg_flakes seg)] \<and>
          sorted (map (flake_key L ix) (seg_flakes_in seg ix))) \<and>
    sg_min_t seg = Min (flake_t ` set (sg_flakes seg)) \<and>
    sg_max_t seg = Max (flake_t ` set (sg_flakes seg)) \<and>
    sg_size seg = sum_list (map size_bytes (sg_flakes seg))"

lemma fold_min: "fold (\<lambda>f m. min m (g f)) xs (a :: int) = Min (insert a (g ` set xs))"
proof (induction xs arbitrary: a)
  case (Cons x xs)
  then show ?case
    by (cases "set xs = {}") (simp_all add: min.assoc)
qed simp

lemma fold_max_set: "fold (\<lambda>f m. max m (g f)) xs (a :: int) = Max (insert a (g ` set xs))"
proof (induction xs arbitrary: a)
  case (Cons x xs)
  then show ?case
    by (cases "set xs = {}") (simp_all add: max.assoc)
qed simp

lemma fold_size: "fold (\<lambda>f n. n + g f) xs (a :: nat) = a + sum_list (map g xs)"
  by (induction xs arbitrary: a) auto

lemma flake_t_bounds: "i64_MIN \<le> flake_t f" "flake_t f \<le> i64_MAX"
  using sint_range_size [of "fl_t f"] by (simp_all add: flake_t_def i64_MIN_def i64_MAX_def word_size)

lemma Min_i64: "xs \<noteq> [] \<Longrightarrow> Min (insert i64_MAX (flake_t ` set xs)) = Min (flake_t ` set xs)"
  by (subst Min_insert) (auto intro!: min_absorb2 simp: Min_le_iff flake_t_bounds ex_in_conv)

lemma Max_i64: "xs \<noteq> [] \<Longrightarrow> Max (insert i64_MIN (flake_t ` set xs)) = Max (flake_t ` set xs)"
  by (subst Max_insert) (auto intro!: max_absorb2 simp: Max_ge_iff flake_t_bounds ex_in_conv)

lemma order_by_mset: "length flakes \<le> MAX_SEGMENT_FLAKES \<Longrightarrow> mset (order_by L flakes ix) = mset [0 ..< length flakes]"
  by (simp add: order_by_def del: mset_upt)

lemma order_by_sorted:
  assumes "decimal_exact L" "list_all ordered_flake flakes" "length flakes \<le> MAX_SEGMENT_FLAKES"
  shows "sorted (map (flake_key L ix) (map ((!) flakes) (order_by L flakes ix)))"
  using keyed_order.sort_by_sorted [OF keyed_order_index [OF index_order [OF assms(1), of ix], of flakes],
      of "[0 ..< length flakes]"] assms(2,3)
  by (simp add: order_by_def list_all_length list_all_iff o_def)

lemma build_wf:
  assumes "decimal_exact L" "list_all ordered_flake flakes" "length flakes \<le> MAX_SEGMENT_FLAKES" "flakes \<noteq> []"
  shows "segment_wf L (fst (Segment_build L flakes gl))"
proof -
  let ?s = "fst (Segment_build L flakes gl)"
  have fl: "sg_flakes ?s = flakes" and ord: "seg_order ?s ix = order_by L flakes ix" for ix
    by (simp_all add: Segment_build_def) (cases ix; simp)
  have "mset (seg_order ?s ix) = mset [0 ..< length flakes]" for ix
    unfolding ord by (rule order_by_mset [OF assms(3)])
  moreover have "sorted (map (flake_key L ix) (seg_flakes_in ?s ix))" for ix
    unfolding seg_flakes_in_def ord fl by (rule order_by_sorted [OF assms(1-3)])
  moreover have "sg_min_t ?s = Min (flake_t ` set flakes)" "sg_max_t ?s = Max (flake_t ` set flakes)"
    "sg_size ?s = sum_list (map size_bytes flakes)"
    by (simp_all only: Segment_build_def fst_conv Segment.simps fold_min fold_max_set fold_size Min_i64 [OF assms(4)]
        Max_i64 [OF assms(4)] add_0)
  ultimately show ?thesis
    using assms(2-4) unfolding segment_wf_def fl by blast
qed

lemma build_flakes [simp]: "sg_flakes (fst (Segment_build L flakes gl)) = flakes"
  by (simp add: Segment_build_def)

lemma segment_order_set: "segment_wf L seg \<Longrightarrow> set (seg_order seg ix) = {..<length (sg_flakes seg)}"
  by (metis atLeast_upt segment_wf_def set_mset_mset)

lemma seg_flakes_in_mset: "segment_wf L seg \<Longrightarrow> mset (seg_flakes_in seg ix) = mset (sg_flakes seg)"
proof -
  assume "segment_wf L seg"
  then have "mset (seg_flakes_in seg ix) = image_mset ((!) (sg_flakes seg)) (mset [0 ..< length (sg_flakes seg)])"
    by (simp add: seg_flakes_in_def segment_wf_def del: mset_upt)
  also have "\<dots> = mset (sg_flakes seg)"
    by (metis map_nth mset_map)
  finally show ?thesis .
qed

lemma seg_flakes_in_set: "segment_wf L seg \<Longrightarrow> set (seg_flakes_in seg ix) = set (sg_flakes seg)"
  by (metis seg_flakes_in_mset set_mset_mset)

lemma seg_order_not_Nil: "segment_wf L seg \<Longrightarrow> seg_order seg ix \<noteq> []"
  by (metis segment_order_set segment_wf_def empty_set length_0_conv lessThan_empty_iff bot_nat_def)

subsection \<open>Range reads of a segment\<close>

text \<open>The slice between two partition points of a list on which both predicates are prefixes.\<close>

lemma slice_filter:
  assumes "sorted_wrt (\<lambda>x y. (P y \<longrightarrow> P x) \<and> (Q y \<longrightarrow> Q x)) xs"
  shows "take (partition_point Q xs - partition_point P xs) (drop (partition_point P xs) xs) = filter (\<lambda>x. \<not> P x \<and> Q x) xs"
  using assms
proof (induction xs)
  case (Cons x xs)
  consider "P x" "Q x" | "P x" "\<not> Q x" | "\<not> P x"
    by blast
  then show ?case
  proof cases
    case 1
    then show ?thesis
      using Cons by (simp add: partition_point_def)
  next
    case 2
    then show ?thesis
      using Cons.prems by (auto simp: partition_point_def filter_empty_conv)
  next
    case 3
    have "takeWhile Q ys = filter (\<lambda>x. \<not> P x \<and> Q x) ys"
      if "sorted_wrt (\<lambda>x y. (P y \<longrightarrow> P x) \<and> (Q y \<longrightarrow> Q x)) ys" "\<forall>y\<in>set ys. \<not> P y" for ys
      using that by (induction ys) (auto simp: filter_empty_conv)
    from this [of "x # xs"] 3 Cons.prems have "takeWhile Q (x # xs) = filter (\<lambda>x. \<not> P x \<and> Q x) (x # xs)"
      by auto
    then show ?thesis
      using 3 takeWhile_eq_take [of Q "x # xs"] by (simp only: partition_point_def) simp
  qed
qed (simp add: partition_point_def)

lemma partition_point_map: "partition_point P (map h xs) = partition_point (P \<circ> h) xs"
  by (simp add: partition_point_def takeWhile_map)

definition not_above :: "'a value_lib_scheme \<Rightarrow> IndexType \<Rightarrow> bool \<Rightarrow> Flake option \<Rightarrow> Flake \<Rightarrow> bool" where
  "not_above L ix dflt bound f = (case bound of Some b \<Rightarrow> index_compare L ix f b \<noteq> Greater | None \<Rightarrow> dflt)"

lemma not_above_closed:
  assumes "decimal_exact L" "list_all ordered_flake xs" "sorted (map (flake_key L ix) xs)"
    "pred_option ordered_flake a" "pred_option ordered_flake b"
  shows "sorted_wrt (\<lambda>x y. (not_above L ix c a y \<longrightarrow> not_above L ix c a x) \<and> (not_above L ix d b y \<longrightarrow> not_above L ix d b x)) xs"
  using assms(2,3)
proof (induction xs)
  case (Cons x xs)
  have closed: "not_above L ix e z y \<longrightarrow> not_above L ix e z x" if "y \<in> set xs" "pred_option ordered_flake z" for y z e
    using Cons.prems that
    by (auto simp: not_above_def list_all_iff index_compare_key [OF assms(1)] split: option.splits)
  show ?case
    using Cons closed assms(4,5) by simp
qed simp

lemma in_range_not_above:
  "in_range L ix first rhs leftmost f \<longleftrightarrow>
     \<not> not_above L ix False (if leftmost then None else first) f \<and> not_above L ix True rhs f"
  by (auto simp: in_range_def not_above_def split: option.splits)

lemma seg_range_points:
  "map ((!) (sg_flakes seg)) (seg_range L seg ix first rhs leftmost) =
    (let xs = seg_flakes_in seg ix; s = partition_point (not_above L ix False (if leftmost then None else first)) xs;
         e = partition_point (not_above L ix True rhs) xs
     in take (e - s) (drop s xs))"
proof -
  have T: "partition_point (\<lambda>_. True) xs = length xs" "partition_point (\<lambda>_. False) xs = 0" for xs :: "'b list"
    by (induction xs) (simp_all add: partition_point_def)
  show ?thesis
    by (auto simp: seg_range_def seg_flakes_in_def Let_def partition_point_map o_def not_above_def T take_map drop_map
        split: option.splits)
qed

theorem seg_range_spec:
  assumes "decimal_exact L" "segment_wf L seg" "ordered_bounds first rhs"
  shows "map ((!) (sg_flakes seg)) (seg_range L seg ix first rhs leftmost) =
    filter (in_range L ix first rhs leftmost) (seg_flakes_in seg ix)"
proof -
  have wf: "list_all ordered_flake (seg_flakes_in seg ix)" "sorted (map (flake_key L ix) (seg_flakes_in seg ix))"
    using assms(2) by (auto simp: list_all_iff seg_flakes_in_set) (simp_all add: segment_wf_def list_all_iff)
  have b: "pred_option ordered_flake (if leftmost then None else first)" "pred_option ordered_flake rhs"
    using assms(3) by (simp_all add: ordered_bounds_def)
  show ?thesis
    unfolding seg_range_points Let_def slice_filter [OF not_above_closed [OF assms(1) wf b]]
    by (rule filter_cong [OF refl]) (simp only: in_range_not_above)
qed

theorem may_overlap_sound:
  assumes "decimal_exact L" "segment_wf L seg" "ordered_bounds first rhs" "\<not> may_overlap L seg ix first rhs leftmost"
  shows "seg_range L seg ix first rhs leftmost = []"
proof -
  let ?xs = "seg_flakes_in seg ix"
  have ne: "?xs \<noteq> []" and hd: "hd ?xs = sg_flakes seg ! hd (seg_order seg ix)" and
    lst: "last ?xs = sg_flakes seg ! last (seg_order seg ix)"
    using seg_order_not_Nil [OF assms(2)] by (simp_all add: seg_flakes_in_def hd_map last_map)
  have wf: "\<forall>f\<in>set ?xs. ordered_flake f" "sorted (map (flake_key L ix) ?xs)"
    using assms(2) by (auto simp: seg_flakes_in_set) (simp_all add: segment_wf_def list_all_iff)
  have lo: "flake_key L ix (hd ?xs) \<le> flake_key L ix f" if "f \<in> set ?xs" for f
    using that wf(2) ne by (cases ?xs) auto
  have hi: "flake_key L ix f \<le> flake_key L ix (last ?xs)" if "f \<in> set ?xs" for f
    using that wf(2) ne by (cases ?xs rule: rev_cases) (auto simp: sorted_append)
  have "\<not> in_range L ix first rhs leftmost f" if f: "f \<in> set ?xs" for f
    using assms(3,4) seg_order_not_Nil [OF assms(2), of ix] lo [OF f] hi [OF f] wf(1) f ne
    by (auto simp: may_overlap_def in_range_def Let_def ordered_bounds_def index_compare_key [OF assms(1)]
        simp flip: hd lst split: option.splits if_splits)
  then have "map ((!) (sg_flakes seg)) (seg_range L seg ix first rhs leftmost) = []"
    by (simp add: seg_range_spec [OF assms(1-3)] filter_empty_conv)
  then show ?thesis
    by simp
qed

lemma seg_range_subset: "set (seg_range L seg ix first rhs leftmost) \<subseteq> set (seg_order seg ix)"
  by (auto simp: seg_range_def Let_def dest: in_set_takeD in_set_dropD)

end
