(* ===== verification/NoveltyMerge.thy ===== *)
theory NoveltyMerge
  imports NoveltySegment
begin

text \<open>
  The k-way merge of the segments of a graph: \<open>MergeStream\<close>, \<open>MergeHead\<close> and \<open>GraphMergeIter\<close> of
  \<open>fluree-db-novelty/src/lib.rs\<close>. The heap is \<open>std::collections::BinaryHeap\<close>: a bag from which the
  greatest element is taken. An index out of range is a panic, the result \<open>Panicked\<close> of \<open>merge_next\<close>;
  \<open>merge_collect\<close> drains the iterator and is \<open>None\<close> if it panics.

  Draining a well-formed iterator never panics and gives what the streams still hold, in order.
\<close>

record MergeStream =
  ms_seg_idx :: nat
  ms_order :: "nat list"
  ms_pos :: nat
  ms_flakes :: "Flake list"

record MergeHead =
  mh_flake :: Flake
  mh_stream :: nat
  mh_seg_idx :: nat
  mh_index :: IndexType

record GraphMergeIter =
  gm_g_id :: u16
  gm_index :: IndexType
  gm_streams :: "MergeStream list"
  gm_heap :: "MergeHead list"

definition MergeHead_cmp :: "'a value_lib_scheme \<Rightarrow> MergeHead \<Rightarrow> MergeHead \<Rightarrow> Ordering" where
  "MergeHead_cmp L a b =
    reverse_ord (then_with (index_compare L (mh_index a) (mh_flake a) (mh_flake b)) (ord_cmp (mh_seg_idx a) (mh_seg_idx b)))"

fun heap_max :: "'a value_lib_scheme \<Rightarrow> MergeHead \<Rightarrow> MergeHead list \<Rightarrow> MergeHead" where
  "heap_max L h [] = h"
| "heap_max L h (x # xs) = heap_max L (if MergeHead_cmp L x h = Greater then x else h) xs"

fun heap_pop :: "'a value_lib_scheme \<Rightarrow> MergeHead list \<Rightarrow> (MergeHead \<times> MergeHead list) option" where
  "heap_pop L [] = None"
| "heap_pop L (h # hs) = (let m = heap_max L h hs in Some (m, remove1 m (h # hs)))"

datatype next_result = Exhausted | Panicked | Yielded FlakeId Flake GraphMergeIter

definition merge_next :: "'a value_lib_scheme \<Rightarrow> GraphMergeIter \<Rightarrow> next_result" where
  "merge_next L it = (case heap_pop L (gm_heap it) of
     None \<Rightarrow> Exhausted
   | Some (head, heap) \<Rightarrow>
       (let s = mh_stream head in
        if length (gm_streams it) \<le> s then Panicked
        else
          let stream = gm_streams it ! s in
          if length (ms_order stream) \<le> ms_pos stream then Panicked
          else
            let local = ms_order stream ! ms_pos stream;
                stream' = stream\<lparr>ms_pos := ms_pos stream + 1\<rparr>;
                fid = FlakeId_pack (gm_g_id it) (ms_seg_idx stream) local;
                streams' = (gm_streams it)[s := stream']
            in if ms_pos stream' < length (ms_order stream) then
                 let next_local = ms_order stream ! ms_pos stream' in
                 if length (ms_flakes stream) \<le> next_local then Panicked
                 else Yielded fid (mh_flake head) (it\<lparr>gm_streams := streams', gm_heap :=
                   \<lparr>mh_flake = ms_flakes stream ! next_local, mh_stream = s, mh_seg_idx = ms_seg_idx stream,
                    mh_index = gm_index it\<rparr> # heap\<rparr>)
               else Yielded fid (mh_flake head) (it\<lparr>gm_streams := streams', gm_heap := heap\<rparr>)))"

definition merge_left :: "GraphMergeIter \<Rightarrow> nat" where
  "merge_left it = (\<Sum>st\<leftarrow>gm_streams it. length (ms_order st) - ms_pos st)"

lemma sum_list_update_nth:
  fixes f :: "'a \<Rightarrow> 'b::comm_monoid_add"
  assumes "i < length xs"
  shows "sum_list (map f (xs[i := y])) = f y + sum_list (map f (take i xs @ drop (Suc i) xs))"
    and "sum_list (map f xs) = f (xs ! i) + sum_list (map f (take i xs @ drop (Suc i) xs))"
  using assms id_take_nth_drop [OF assms] upd_conv_take_nth_drop [OF assms, of y]
  by (simp_all add: add.left_commute) (metis add.left_commute list.simps(9) map_append sum_list.Cons sum_list.append)

lemma merge_next_left: "merge_next L it = Yielded fid f it' \<Longrightarrow> merge_left it' < merge_left it"
proof -
  assume y: "merge_next L it = Yielded fid f it'"
  then obtain head heap where p: "heap_pop L (gm_heap it) = Some (head, heap)"
    by (auto simp: merge_next_def split: option.splits)
  let ?s = "mh_stream head"
  have s: "?s < length (gm_streams it)" "ms_pos (gm_streams it ! ?s) < length (ms_order (gm_streams it ! ?s))"
    "gm_streams it' = (gm_streams it)[?s := (gm_streams it ! ?s)\<lparr>ms_pos := ms_pos (gm_streams it ! ?s) + 1\<rparr>]"
    using y by (auto simp: merge_next_def p Let_def split: if_splits)
  show ?thesis
    unfolding merge_left_def s(3) sum_list_update_nth(1) [OF s(1)] using s(2)
    by (subst sum_list_update_nth(2) [OF s(1)]) simp
qed

function merge_collect :: "'a value_lib_scheme \<Rightarrow> GraphMergeIter \<Rightarrow> (FlakeId \<times> Flake) list option" where
  "merge_collect L it = (case merge_next L it of
     Exhausted \<Rightarrow> Some []
   | Panicked \<Rightarrow> None
   | Yielded fid f it' \<Rightarrow> map_option ((#) (fid, f)) (merge_collect L it'))"
  by pat_completeness auto
termination
  by (relation "measure (\<lambda>(L, it). merge_left it)") (simp_all add: merge_next_left)

declare merge_collect.simps [simp del]

section \<open>The order of the heap\<close>

definition head_key :: "'a value_lib_scheme \<Rightarrow> IndexType \<Rightarrow> MergeHead \<Rightarrow> flake_key \<times> nat" where
  "head_key L ix h = (flake_key L ix (mh_flake h), mh_seg_idx h)"

definition head_dom :: "IndexType \<Rightarrow> MergeHead \<Rightarrow> bool" where
  "head_dom ix h \<longleftrightarrow> ordered_flake (mh_flake h) \<and> mh_index h = ix"

lemma MergeHead_cmp_key:
  "\<lbrakk>decimal_exact L; head_dom ix a; head_dom ix b\<rbrakk> \<Longrightarrow> MergeHead_cmp L a b = ord_cmp (head_key L ix b) (head_key L ix a)"
  by (simp add: MergeHead_cmp_def head_dom_def index_compare_key then_with_ord_cmp head_key_def)

lemma heap_max_in: "heap_max L h hs \<in> set (h # hs)"
proof (induction hs arbitrary: h)
  case (Cons x xs)
  show ?case
    using Cons [of h] Cons [of x] by auto
qed simp

lemma heap_max_least:
  assumes "decimal_exact L" "list_all (head_dom ix) (h # hs)" "x \<in> set (h # hs)"
  shows "head_key L ix (heap_max L h hs) \<le> head_key L ix x"
  using assms(2,3)
proof (induction hs arbitrary: h x)
  case (Cons y ys)
  let ?h = "if MergeHead_cmp L y h = Greater then y else h"
  have "MergeHead_cmp L y h = ord_cmp (head_key L ix h) (head_key L ix y)"
    using Cons.prems(1) by (simp add: MergeHead_cmp_key [OF assms(1), of ix])
  then have h: "head_key L ix ?h \<le> head_key L ix h" "head_key L ix ?h \<le> head_key L ix y"
    by auto
  have "list_all (head_dom ix) (?h # ys)"
    using Cons.prems(1) by simp
  note IH = Cons.IH [OF this]
  show ?case
    using Cons.prems(2) IH [of ?h] IH [of x] h by (auto simp del: Cons.prems)
qed simp

lemma heap_pop_spec:
  assumes "decimal_exact L" "list_all (head_dom ix) heap" "heap \<noteq> []"
  obtains m where "heap_pop L heap = Some (m, remove1 m heap)" "m \<in> set heap" "\<forall>x\<in>set heap. head_key L ix m \<le> head_key L ix x"
proof (cases heap)
  case (Cons h hs)
  have "heap_pop L heap = Some (heap_max L h hs, remove1 (heap_max L h hs) heap)"
    by (simp add: Cons Let_def)
  moreover have "heap_max L h hs \<in> set heap"
    using heap_max_in Cons by metis
  moreover have "\<forall>x\<in>set heap. head_key L ix (heap_max L h hs) \<le> head_key L ix x"
    using heap_max_least [OF assms(1)] assms(2) unfolding Cons by blast
  ultimately show ?thesis
    by (rule that)
qed (use assms(3) in simp)

section \<open>Draining the merge\<close>

definition pending :: "MergeStream \<Rightarrow> Flake list" where
  "pending st = map ((!) (ms_flakes st)) (drop (ms_pos st) (ms_order st))"

definition todo :: "GraphMergeIter \<Rightarrow> Flake multiset" where
  "todo it = (\<Sum>st\<leftarrow>gm_streams it. mset (pending st))"

definition stream_ok :: "'a value_lib_scheme \<Rightarrow> IndexType \<Rightarrow> MergeStream \<Rightarrow> bool" where
  "stream_ok L ix st \<longleftrightarrow> list_all (\<lambda>i. i < length (ms_flakes st)) (ms_order st) \<and> list_all ordered_flake (ms_flakes st) \<and>
     sorted (map (flake_key L ix) (map ((!) (ms_flakes st)) (ms_order st)))"

definition stream_head :: "IndexType \<Rightarrow> MergeStream list \<Rightarrow> nat \<Rightarrow> MergeHead" where
  "stream_head ix sts i = (let st = sts ! i in
     \<lparr>mh_flake = ms_flakes st ! (ms_order st ! ms_pos st), mh_stream = i, mh_seg_idx = ms_seg_idx st, mh_index = ix\<rparr>)"

definition live :: "MergeStream list \<Rightarrow> nat set" where
  "live sts = {i. i < length sts \<and> ms_pos (sts ! i) < length (ms_order (sts ! i))}"

definition merge_ok :: "'a value_lib_scheme \<Rightarrow> GraphMergeIter \<Rightarrow> bool" where
  "merge_ok L it \<longleftrightarrow> list_all (stream_ok L (gm_index it)) (gm_streams it) \<and>
     mset (gm_heap it) = image_mset (stream_head (gm_index it) (gm_streams it)) (mset_set (live (gm_streams it)))"

text \<open>The part of a stream that reading does not change.\<close>

definition static :: "MergeStream \<Rightarrow> nat \<times> nat list \<times> Flake list" where
  "static st = (ms_seg_idx st, ms_order st, ms_flakes st)"

lemma in_sum_list_mset: "x \<in># (\<Sum>st\<leftarrow>sts. mset (h st)) \<longleftrightarrow> (\<exists>st\<in>set sts. x \<in> set (h st))"
  by (induction sts) auto

lemma finite_live [simp]: "finite (live sts)"
  by (simp add: live_def)

lemma stream_head_stream [simp]: "mh_stream (stream_head ix sts i) = i"
  by (simp add: stream_head_def Let_def)

lemma pending_live: "i \<in> live sts \<Longrightarrow> pending (sts ! i) =
    ms_flakes (sts ! i) ! (ms_order (sts ! i) ! ms_pos (sts ! i)) # pending ((sts ! i)\<lparr>ms_pos := ms_pos (sts ! i) + 1\<rparr>)"
  by (simp add: pending_def live_def Cons_nth_drop_Suc [symmetric])

lemma pending_dead: "i < length sts \<Longrightarrow> i \<notin> live sts \<Longrightarrow> pending (sts ! i) = []"
  by (simp add: pending_def live_def)

lemma heap_of_live:
  assumes "merge_ok L it"
  shows "set (gm_heap it) = stream_head (gm_index it) (gm_streams it) ` live (gm_streams it)"
  using assms by (metis finite_live finite_set_mset_mset_set merge_ok_def set_image_mset set_mset_mset)

lemma live_head_dom:
  assumes "merge_ok L it" "i \<in> live (gm_streams it)"
  shows "head_dom (gm_index it) (stream_head (gm_index it) (gm_streams it) i)"
proof -
  have "stream_ok L (gm_index it) (gm_streams it ! i)" "ms_pos (gm_streams it ! i) < length (ms_order (gm_streams it ! i))"
    using assms by (auto simp: merge_ok_def live_def list_all_iff)
  then show ?thesis
    by (simp add: head_dom_def stream_head_def Let_def stream_ok_def list_all_length)
qed

lemma pending_sorted:
  assumes "merge_ok L it" "i \<in> live (gm_streams it)" "f \<in> set (pending (gm_streams it ! i))"
  shows "flake_key L (gm_index it) (mh_flake (stream_head (gm_index it) (gm_streams it) i)) \<le> flake_key L (gm_index it) f"
proof -
  let ?st = "gm_streams it ! i"
  have "sorted (map (flake_key L (gm_index it)) (pending ?st))"
    using assms(1,2) unfolding pending_def drop_map [symmetric]
    by (intro sorted_wrt_drop) (auto simp: merge_ok_def stream_ok_def list_all_iff live_def)
  then show ?thesis
    using assms(3) pending_live [OF assms(2)] by (auto simp: stream_head_def Let_def)
qed

text \<open>Advancing one live stream.\<close>

lemma live_advance:
  fixes sts :: "MergeStream list"
  assumes "s \<in> live sts"
  defines "sts' \<equiv> sts[s := (sts ! s)\<lparr>ms_pos := ms_pos (sts ! s) + 1\<rparr>]"
  shows "live sts' = (if ms_pos (sts ! s) + 1 < length (ms_order (sts ! s)) then live sts else live sts - {s})"
  using assms by (auto simp: live_def nth_list_update split: if_splits)

lemma heads_advance:
  fixes sts :: "MergeStream list"
  assumes "s \<in> live sts"
  defines "sts' \<equiv> sts[s := (sts ! s)\<lparr>ms_pos := ms_pos (sts ! s) + 1\<rparr>]"
  shows "image_mset (stream_head ix sts') (mset_set (live sts')) =
    (if ms_pos (sts ! s) + 1 < length (ms_order (sts ! s)) then {#stream_head ix sts' s#} else {#}) +
    (image_mset (stream_head ix sts) (mset_set (live sts)) - {#stream_head ix sts s#})"
proof -
  have rest: "image_mset (stream_head ix sts') (mset_set (live sts - {s})) = image_mset (stream_head ix sts) (mset_set (live sts - {s}))"
    by (rule image_mset_cong) (simp add: sts'_def stream_head_def)
  have split: "mset_set (live sts) = add_mset s (mset_set (live sts - {s}))"
    using assms(1) by (simp add: mset_set.remove)
  show ?thesis
    using live_advance [OF assms(1), folded sts'_def] rest by (simp add: split)
qed

lemma todo_advance:
  assumes "s \<in> live (gm_streams it)" "gm_streams it' = (gm_streams it)[s := (gm_streams it ! s)\<lparr>ms_pos := ms_pos (gm_streams it ! s) + 1\<rparr>]"
  shows "todo it = add_mset (mh_flake (stream_head ix (gm_streams it) s)) (todo it')"
proof -
  have "s < length (gm_streams it)"
    using assms(1) by (simp add: live_def)
  note upd = sum_list_update_nth [OF this, of "\<lambda>st. mset (pending st)"]
  show ?thesis
    unfolding todo_def assms(2) upd(1) by (subst upd(2)) (simp add: pending_live [OF assms(1)] stream_head_def Let_def)
qed

lemma static_advance:
  "map static (sts[s := (sts ! s)\<lparr>ms_pos := n\<rparr>]) = map static sts"
  by (cases "s < length sts") (simp_all add: map_update static_def list_update_same_conv list_update_beyond)

lemma stream_ok_static: "list_all (stream_ok L ix) sts = list_all (\<lambda>(i, ord, fs). list_all (\<lambda>i. i < length fs) ord \<and>
    list_all ordered_flake fs \<and> sorted (map (flake_key L ix) (map ((!) fs) ord))) (map static sts)"
  by (simp add: list_all_iff stream_ok_def static_def)

lemma merge_step:
  assumes "decimal_exact L" "merge_ok L it" "gm_heap it \<noteq> []"
  obtains s it' where "s \<in> live (gm_streams it)"
    "merge_next L it = Yielded (FlakeId_pack (gm_g_id it) (ms_seg_idx (gm_streams it ! s)) (ms_order (gm_streams it ! s) ! ms_pos (gm_streams it ! s)))
       (mh_flake (stream_head (gm_index it) (gm_streams it) s)) it'"
    "merge_ok L it'" "gm_index it' = gm_index it" "gm_g_id it' = gm_g_id it"
    "gm_streams it' = (gm_streams it)[s := (gm_streams it ! s)\<lparr>ms_pos := ms_pos (gm_streams it ! s) + 1\<rparr>]"
    "\<forall>f\<in>#todo it. flake_key L (gm_index it) (mh_flake (stream_head (gm_index it) (gm_streams it) s)) \<le> flake_key L (gm_index it) f"
proof -
  let ?sts = "gm_streams it" and ?ix = "gm_index it"
  have "list_all (head_dom ?ix) (gm_heap it)"
    using live_head_dom [OF assms(2)] by (auto simp: list_all_iff heap_of_live [OF assms(2)])
  from heap_pop_spec [OF assms(1) this assms(3)] obtain m where m: "heap_pop L (gm_heap it) = Some (m, remove1 m (gm_heap it))"
    "m \<in> set (gm_heap it)" "\<forall>x\<in>set (gm_heap it). head_key L ?ix m \<le> head_key L ?ix x"
    by blast
  from m(2) obtain s where s: "s \<in> live ?sts" and ms: "m = stream_head ?ix ?sts s"
    by (auto simp: heap_of_live [OF assms(2)])
  define sts' where "sts' = ?sts[s := (?sts ! s)\<lparr>ms_pos := ms_pos (?sts ! s) + 1\<rparr>]"
  define it' where "it' = it\<lparr>gm_streams := sts', gm_heap :=
     (if ms_pos (?sts ! s) + 1 < length (ms_order (?sts ! s)) then [stream_head ?ix sts' s] else []) @ remove1 m (gm_heap it)\<rparr>"
  have sb: "s < length ?sts" "ms_pos (?sts ! s) < length (ms_order (?sts ! s))" "stream_ok L ?ix (?sts ! s)"
    using s assms(2) by (auto simp: live_def merge_ok_def list_all_iff)
  have nx: "merge_next L it = Yielded (FlakeId_pack (gm_g_id it) (ms_seg_idx (?sts ! s)) (ms_order (?sts ! s) ! ms_pos (?sts ! s))) (mh_flake m) it'"
    using sb(1,2) sb(3)[unfolded stream_ok_def list_all_length] m(1)
    by (simp add: merge_next_def it'_def Let_def sts'_def stream_head_def ms) (meson leD)
  have ok: "merge_ok L it'"
    using assms(2) heads_advance [OF s, of ?ix, folded sts'_def] m(2)
    by (auto simp: merge_ok_def it'_def stream_ok_static sts'_def static_advance ms)
  have least: "flake_key L ?ix (mh_flake m) \<le> flake_key L ?ix f" if "f \<in># todo it" for f
  proof -
    from that obtain i where i: "i < length ?sts" "f \<in> set (pending (?sts ! i))"
      unfolding todo_def in_sum_list_mset by (metis in_set_conv_nth)
    then have l: "i \<in> live ?sts"
      using pending_dead [OF i(1)] by force
    then have "stream_head ?ix ?sts i \<in> set (gm_heap it)"
      by (simp add: heap_of_live [OF assms(2)])
    from bspec [OF m(3) this] have "flake_key L ?ix (mh_flake m) \<le> flake_key L ?ix (mh_flake (stream_head ?ix ?sts i))"
      by (auto simp: head_key_def)
    then show ?thesis
      using pending_sorted [OF assms(2) l i(2)] by (rule order.trans)
  qed
  show ?thesis
    by (rule that [OF s nx [unfolded ms] ok]) (use least in \<open>simp_all add: it'_def sts'_def ms\<close>)
qed

definition yielded_from :: "MergeStream list \<Rightarrow> u16 \<Rightarrow> FlakeId \<times> Flake \<Rightarrow> bool" where
  "yielded_from sts g y \<longleftrightarrow> (\<exists>st\<in>set sts. \<exists>i\<in>set (ms_order st). y = (FlakeId_pack g (ms_seg_idx st) i, ms_flakes st ! i))"

lemma yielded_from_static: "map static sts = map static sts' \<Longrightarrow> yielded_from sts g y = yielded_from sts' g y"
proof -
  have 1: "yielded_from ss g y = (\<exists>(n, ord, fs)\<in>set (map static ss). \<exists>i\<in>set ord. y = (FlakeId_pack g n i, fs ! i))" for ss
    by (auto simp: yielded_from_def static_def)
  assume eq: "map static sts = map static sts'"
  show ?thesis
    unfolding 1 eq ..
qed

theorem merge_collect_spec:
  assumes "decimal_exact L" "merge_ok L it"
  shows "\<exists>ys. merge_collect L it = Some ys \<and> mset (map snd ys) = todo it \<and>
    sorted (map (flake_key L (gm_index it)) (map snd ys)) \<and>
    list_all (yielded_from (gm_streams it) (gm_g_id it)) ys"
  using assms(2)
proof (induction "merge_left it" arbitrary: it rule: less_induct)
  case less
  show ?case
  proof (cases "gm_heap it = []")
    case True
    have "live (gm_streams it) = {}"
      using less.prems True by (simp add: merge_ok_def mset_set_empty_iff)
    then have "todo it = {#}"
      using pending_dead [of _ "gm_streams it"] by (auto simp: todo_def sum_list_sum_nth)
    then show ?thesis
      using True by (simp add: merge_collect.simps merge_next_def)
  next
    case False
    from merge_step [OF assms(1) less.prems False] obtain s it' where st: "s \<in> live (gm_streams it)"
      "merge_next L it = Yielded (FlakeId_pack (gm_g_id it) (ms_seg_idx (gm_streams it ! s)) (ms_order (gm_streams it ! s) ! ms_pos (gm_streams it ! s)))
         (mh_flake (stream_head (gm_index it) (gm_streams it) s)) it'"
      "merge_ok L it'" "gm_index it' = gm_index it" "gm_g_id it' = gm_g_id it"
      "gm_streams it' = (gm_streams it)[s := (gm_streams it ! s)\<lparr>ms_pos := ms_pos (gm_streams it ! s) + 1\<rparr>]"
      "\<forall>f\<in>#todo it. flake_key L (gm_index it) (mh_flake (stream_head (gm_index it) (gm_streams it) s)) \<le> flake_key L (gm_index it) f"
      by blast
    let ?f = "mh_flake (stream_head (gm_index it) (gm_streams it) s)"
    from less.hyps [OF merge_next_left [OF st(2)] st(3)] obtain ys where ys: "merge_collect L it' = Some ys"
      "mset (map snd ys) = todo it'" "sorted (map (flake_key L (gm_index it)) (map snd ys))"
      "list_all (yielded_from (gm_streams it') (gm_g_id it)) ys"
      unfolding st(4,5) by blast
    have todo: "todo it = add_mset ?f (todo it')"
      by (rule todo_advance [OF st(1,6)])
    have "\<forall>f\<in>set (map snd ys). flake_key L (gm_index it) ?f \<le> flake_key L (gm_index it) f"
      using st(7) unfolding todo by (metis ys(2) set_mset_mset union_iff add_mset_add_single)
    moreover have "list_all (yielded_from (gm_streams it) (gm_g_id it)) ys"
      using ys(4) yielded_from_static [OF static_advance] unfolding st(6) by (simp add: list_all_iff)
    moreover have "yielded_from (gm_streams it) (gm_g_id it)
        (FlakeId_pack (gm_g_id it) (ms_seg_idx (gm_streams it ! s)) (ms_order (gm_streams it ! s) ! ms_pos (gm_streams it ! s)), ?f)"
      unfolding yielded_from_def using st(1)
      by (intro bexI [of _ "gm_streams it ! s"] bexI [of _ "ms_order (gm_streams it ! s) ! ms_pos (gm_streams it ! s)"])
        (simp_all add: live_def stream_head_def Let_def)
    ultimately show ?thesis
      using st(2) ys(1-3) todo by (simp add: merge_collect.simps [of L it])
  qed
qed

end
