(* ===== verification/NoveltyFacts.thy ===== *)
theory NoveltyFacts
  imports NoveltySegment
begin

text \<open>
  \<open>NoveltyFactState\<close> (\<open>fluree-db-novelty/src/fact_state.rs\<close>): per graph, the latest operation of each
  fact of the novelty window. The map is \<open>imbl::OrdMap\<close>, a crate outside the repository: its three
  operations are fields of the record \<open>novelty_lib\<close>, and \<open>ordmap_laws\<close> is what the code relies on.

  \<open>best_stamp\<close> is the specification: of all the flakes of a fact the one with the greatest
  transaction time wins, and a retraction wins against an assertion of the same time. It depends on
  the set of the flakes only, so recording is independent of order.
\<close>

type_synonym FactKey = "Sid \<times> Sid \<times> FlakeValue \<times> Sid \<times> FlakeMeta option"

record 'om novelty_lib = value_lib +
  om_new :: 'om
  om_get :: "'om \<Rightarrow> FactKey \<Rightarrow> (int \<times> bool) option"
  om_insert :: "'om \<Rightarrow> FactKey \<Rightarrow> int \<times> bool \<Rightarrow> 'om"

definition key_of :: "Flake \<Rightarrow> FactKey" where
  "key_of f = (fl_s f, fl_p f, fl_o f, fl_dt f, fl_m f)"

text \<open>The derived \<open>Ord\<close> of the key tuple; \<open>None\<close> is below every \<open>Some\<close>.\<close>

definition FactKey_cmp :: "'a value_lib_scheme \<Rightarrow> FactKey \<Rightarrow> FactKey \<Rightarrow> Ordering" where
  "FactKey_cmp L a b = (case (a, b) of ((s1, p1, o1, dt1, m1), (s2, p2, o2, dt2, m2)) \<Rightarrow>
     then_with (Sid_cmp s1 s2) (then_with (Sid_cmp p1 p2) (then_with (FlakeValue_cmp L o1 o2) (then_with (Sid_cmp dt1 dt2)
       (case (m1, m2) of (None, None) \<Rightarrow> Equal | (None, Some _) \<Rightarrow> Less | (Some _, None) \<Rightarrow> Greater | (Some x, Some y) \<Rightarrow> FlakeMeta_cmp x y)))))"

definition ordered_key :: "FactKey \<Rightarrow> bool" where
  "ordered_key k = (case k of (s, p, v, dt, m) \<Rightarrow> ordered_value v)"

text \<open>What an ordered map promises, as long as only keys that are totally ordered are inserted.\<close>

definition ordmap_laws :: "('om, 'z) novelty_lib_scheme \<Rightarrow> ('om \<Rightarrow> bool) \<Rightarrow> bool" where
  "ordmap_laws L valid \<longleftrightarrow>
     valid (om_new L) \<and> (\<forall>k. om_get L (om_new L) k = None) \<and>
     (\<forall>m k v. valid m \<longrightarrow> ordered_key k \<longrightarrow> valid (om_insert L m k v)) \<and>
     (\<forall>m k k'. valid m \<longrightarrow> ordered_key k \<longrightarrow> ordered_key k' \<longrightarrow> FactKey_cmp L k k' = Equal \<longrightarrow> om_get L m k = om_get L m k') \<and>
     (\<forall>m k v k'. valid m \<longrightarrow> ordered_key k \<longrightarrow> ordered_key k' \<longrightarrow>
        om_get L (om_insert L m k v) k' = (if FactKey_cmp L k k' = Equal then Some v else om_get L m k'))"

lemma ordmap_lawsD:
  assumes "ordmap_laws L valid"
  shows "valid (om_new L)" "om_get L (om_new L) k = None"
    "\<lbrakk>valid m; ordered_key k\<rbrakk> \<Longrightarrow> valid (om_insert L m k v)"
    "\<lbrakk>valid m; ordered_key k; ordered_key k'; FactKey_cmp L k k' = Equal\<rbrakk> \<Longrightarrow> om_get L m k = om_get L m k'"
    "\<lbrakk>valid m; ordered_key k; ordered_key k'\<rbrakk> \<Longrightarrow>
       om_get L (om_insert L m k v) k' = (if FactKey_cmp L k k' = Equal then Some v else om_get L m k')"
  using assms unfolding ordmap_laws_def by blast+

section \<open>Vectors indexed by graph\<close>

text \<open>\<open>graphs.get(g).and_then(Option::as_ref)\<close>, and \<open>resize_with(g + 1, || None)\<close> where it is too short.\<close>

definition slot :: "'a option list \<Rightarrow> nat \<Rightarrow> 'a option" where
  "slot gs g = (if g < length gs then gs ! g else None)"

definition grow :: "'a option list \<Rightarrow> nat \<Rightarrow> 'a option list" where
  "grow gs g = (if length gs \<le> g then gs @ replicate (g + 1 - length gs) None else gs)"

lemma slot_Nil [simp]: "slot [] g = None"
  by (simp add: slot_def)

lemma length_grow: "g < length (grow gs g)"
  by (simp add: grow_def)

lemma slot_grow [simp]: "slot (grow gs g) h = slot gs h"
  by (auto simp: slot_def grow_def nth_append)

lemma slot_update [simp]: "slot ((grow gs g)[g := v]) h = (if h = g then v else slot gs h)"
  using length_grow [of g gs] by (auto simp: slot_def nth_list_update grow_def nth_append)

section \<open>The fact state\<close>

type_synonym 'om FactState = "'om option list"

definition FactState_new :: "'om FactState" where
  "FactState_new = []"

definition is_asserted :: "('om, 'z) novelty_lib_scheme \<Rightarrow> 'om FactState \<Rightarrow> u16 \<Rightarrow> Flake \<Rightarrow> bool" where
  "is_asserted L fs g f = (case slot fs (unat g) of
     None \<Rightarrow> False
   | Some m \<Rightarrow> (case om_get L m (key_of f) of None \<Rightarrow> False | Some (_, asserted) \<Rightarrow> asserted))"

definition FactState_record :: "('om, 'z) novelty_lib_scheme \<Rightarrow> u16 \<Rightarrow> Flake \<Rightarrow> 'om FactState \<Rightarrow> 'om FactState" where
  "FactState_record L g f fs =
    (let idx = unat g;
         gs = grow fs idx;
         m = (case slot gs idx of Some m \<Rightarrow> m | None \<Rightarrow> om_new L);
         k = key_of f;
         wins = (case om_get L m k of
                   Some (cur_t, cur_op) \<Rightarrow> cur_t < flake_t f \<or> (flake_t f = cur_t \<and> cur_op \<and> \<not> fl_op f)
                 | None \<Rightarrow> True)
     in gs[idx := Some (if wins then om_insert L m k (flake_t f, fl_op f) else m)])"

section \<open>The specification\<close>

definition same_fact :: "'a value_lib_scheme \<Rightarrow> FactKey \<Rightarrow> Flake \<Rightarrow> bool" where
  "same_fact L k f \<longleftrightarrow> FactKey_cmp L (key_of f) k = Equal"

definition stamp :: "Flake \<Rightarrow> int \<times> bool" where
  "stamp f = (flake_t f, \<not> fl_op f)"

definition best_stamp :: "'a value_lib_scheme \<Rightarrow> Flake list \<Rightarrow> FactKey \<Rightarrow> (int \<times> bool) option" where
  "best_stamp L flakes k =
    (case map stamp (filter (same_fact L k) flakes) of [] \<Rightarrow> None | s # ss \<Rightarrow> Some (fold max ss s))"

definition fact_stamp :: "('om, 'z) novelty_lib_scheme \<Rightarrow> 'om FactState \<Rightarrow> u16 \<Rightarrow> FactKey \<Rightarrow> (int \<times> bool) option" where
  "fact_stamp L fs g k = (case slot fs (unat g) of None \<Rightarrow> None | Some m \<Rightarrow> map_option (\<lambda>(t, b). (t, \<not> b)) (om_get L m k))"

definition facts_valid :: "('om \<Rightarrow> bool) \<Rightarrow> 'om FactState \<Rightarrow> bool" where
  "facts_valid valid fs \<longleftrightarrow> (\<forall>g. pred_option valid (slot fs g))"

fun join :: "'a::linorder option \<Rightarrow> 'a option \<Rightarrow> 'a option" where
  "join None y = y"
| "join (Some x) None = Some x"
| "join (Some x) (Some y) = Some (max x y)"

lemma join_None [simp]: "join x None = x"
  by (cases x) simp_all

lemma join_assoc: "join (join x y) z = join x (join y z)"
  by (cases x; cases y; cases z) (simp_all add: max.assoc)

lemma join_commute: "join x y = join y x"
  by (cases x; cases y) (simp_all add: max.commute)

lemma join_left_commute: "join x (join y z) = join y (join x z)"
  by (metis join_assoc join_commute)

lemmas join_laws = join_assoc join_commute join_left_commute

lemma best_stamp_set:
  "best_stamp L flakes k = (let S = stamp ` {f \<in> set flakes. same_fact L k f} in if S = {} then None else Some (Max S))"
proof (cases "map stamp (filter (same_fact L k) flakes)")
  case Nil
  then show ?thesis
    by (auto simp: best_stamp_def filter_empty_conv)
next
  case (Cons s ss)
  then have "stamp ` {f \<in> set flakes. same_fact L k f} = insert s (set ss)"
    by (metis list.set(2) set_filter set_map)
  then show ?thesis
    using Cons by (simp add: best_stamp_def Max.set_eq_fold [of s ss, simplified])
qed

lemma best_stamp_mset: "mset xs = mset ys \<Longrightarrow> best_stamp L xs k = best_stamp L ys k"
  using mset_eq_setD [of xs ys] by (simp add: best_stamp_set)

lemma best_stamp_Nil [simp]: "best_stamp L [] k = None"
  by (simp add: best_stamp_def)

lemma best_stamp_Cons:
  "best_stamp L (f # fs) k = (if same_fact L k f then join (Some (stamp f)) (best_stamp L fs k) else best_stamp L fs k)"
proof (cases "same_fact L k f")
  case True
  then have S: "stamp ` {h \<in> set (f # fs). same_fact L k h} = insert (stamp f) (stamp ` {h \<in> set fs. same_fact L k h})"
    by auto
  show ?thesis
    using True unfolding best_stamp_set Let_def S
    by (cases "stamp ` {h \<in> set fs. same_fact L k h} = {}") (simp_all add: Max_insert del: image_is_empty)
qed (simp add: best_stamp_def)

lemma best_stamp_append:
  "best_stamp L (xs @ ys) k = join (best_stamp L xs k) (best_stamp L ys k)"
  by (induction xs) (simp_all add: best_stamp_Cons join_laws)

lemma wins_stamp: "cur_t < flake_t f \<or> (flake_t f = cur_t \<and> cur_op \<and> \<not> fl_op f) \<longleftrightarrow> (cur_t, \<not> cur_op) < stamp f"
  by (auto simp: stamp_def)

lemma fact_stamp_new [simp]: "fact_stamp L FactState_new g k = None" "facts_valid valid FactState_new"
  by (simp_all add: fact_stamp_def FactState_new_def facts_valid_def)

lemma ordered_key_of [simp]: "ordered_key (key_of f) = ordered_flake f"
  by (simp add: ordered_key_def key_of_def ordered_flake_def)

definition fact_map :: "('om, 'z) novelty_lib_scheme \<Rightarrow> 'om FactState \<Rightarrow> u16 \<Rightarrow> 'om" where
  "fact_map L fs g = (case slot fs (unat g) of Some m \<Rightarrow> m | None \<Rightarrow> om_new L)"

lemma fact_map_valid: "\<lbrakk>ordmap_laws L valid; facts_valid valid fs\<rbrakk> \<Longrightarrow> valid (fact_map L fs g)"
  by (cases "slot fs (unat g)") (simp_all add: fact_map_def ordmap_lawsD, metis facts_valid_def option.pred_inject(2))

lemma fact_stamp_map:
  "ordmap_laws L valid \<Longrightarrow> fact_stamp L fs g k = map_option (\<lambda>(t, b). (t, \<not> b)) (om_get L (fact_map L fs g) k)"
  by (simp add: fact_stamp_def fact_map_def ordmap_lawsD split: option.split)

lemma is_asserted_stamp:
  "ordmap_laws L valid \<Longrightarrow> is_asserted L fs g f \<longleftrightarrow> (\<exists>t. fact_stamp L fs g (key_of f) = Some (t, False))"
  by (auto simp: is_asserted_def fact_stamp_def split: option.splits)

definition record_wins :: "('om, 'z) novelty_lib_scheme \<Rightarrow> 'om \<Rightarrow> Flake \<Rightarrow> bool" where
  "record_wins L m f = (case om_get L m (key_of f) of Some (t, b) \<Rightarrow> (t, \<not> b) < stamp f | None \<Rightarrow> True)"

lemma record_alt:
  "FactState_record L g f fs = (grow fs (unat g))[unat g :=
     Some (if record_wins L (fact_map L fs g) f then om_insert L (fact_map L fs g) (key_of f) (flake_t f, fl_op f) else fact_map L fs g)]"
proof -
  have "(case slot (grow fs (unat g)) (unat g) of Some m \<Rightarrow> m | None \<Rightarrow> om_new L) = fact_map L fs g"
    by (simp add: fact_map_def)
  moreover have "(case om_get L m (key_of f) of Some (t, b) \<Rightarrow> t < flake_t f \<or> (flake_t f = t \<and> b \<and> \<not> fl_op f) | None \<Rightarrow> True)
      = record_wins L m f" for m
    by (cases "om_get L m (key_of f)") (auto simp: record_wins_def stamp_def)
  ultimately show ?thesis
    by (simp only: FactState_record_def Let_def)
qed

lemma record_valid:
  assumes "ordmap_laws L valid" "facts_valid valid fs" "ordered_flake f"
  shows "facts_valid valid (FactState_record L g f fs)"
  using assms fact_map_valid [OF assms(1,2), of g] ordmap_lawsD(3) [OF assms(1)]
  by (simp add: facts_valid_def record_alt)

lemma record_stamp:
  assumes "ordmap_laws L valid" "facts_valid valid fs" "ordered_flake f" "ordered_key k"
  shows "fact_stamp L (FactState_record L g f fs) h k =
    (if h = g \<and> same_fact L k f then join (Some (stamp f)) (fact_stamp L fs h k) else fact_stamp L fs h k)"
proof (cases "h = g")
  case True
  let ?m = "fact_map L fs g"
  note v = fact_map_valid [OF assms(1,2), of g]
  have fm: "fact_map L (FactState_record L g f fs) g =
      (if record_wins L ?m f then om_insert L ?m (key_of f) (flake_t f, fl_op f) else ?m)"
    unfolding record_alt by (subst fact_map_def) simp
  have eq: "same_fact L k f \<Longrightarrow> om_get L ?m (key_of f) = om_get L ?m k"
    using ordmap_lawsD(4) [OF assms(1) v] assms(3,4) by (simp add: same_fact_def)
  have ins: "om_get L (om_insert L ?m (key_of f) x) k = (if same_fact L k f then Some x else om_get L ?m k)" for x
    using ordmap_lawsD(5) [OF assms(1) v] assms(3,4) by (simp add: same_fact_def)
  show ?thesis
  proof (cases "same_fact L k f")
    case sf: True
    note st = fact_stamp_map [OF assms(1)]
    show ?thesis
    proof (cases "om_get L ?m k")
      case None
      then show ?thesis
        using True sf eq [OF sf] by (simp add: st fm ins record_wins_def stamp_def)
    next
      case (Some v)
      obtain t b where v: "v = (t, b)"
        by (cases v)
      have "record_wins L ?m f \<longleftrightarrow> (t, \<not> b) < stamp f"
        using eq [OF sf] Some by (simp add: record_wins_def v)
      then show ?thesis
        using True sf Some by (simp add: st fm ins v max_def stamp_def del: less_prod_simp less_eq_prod_simp) auto
    qed
  qed (use True in \<open>simp add: fact_stamp_map [OF assms(1)] fm ins\<close>)
next
  case False
  then have "unat h \<noteq> unat g"
    by (simp add: word_unat_eq_iff)
  then show ?thesis
    using False by (simp add: fact_stamp_def record_alt)
qed

theorem record_all_stamp:
  assumes "ordmap_laws L valid" "facts_valid valid fs" "list_all ordered_flake flakes" "ordered_key k"
  shows "facts_valid valid (fold (FactState_record L g) flakes fs)"
    "fact_stamp L (fold (FactState_record L g) flakes fs) h k =
      (if h = g then join (best_stamp L flakes k) (fact_stamp L fs h k) else fact_stamp L fs h k)"
  using assms(2,3)
proof (induction flakes arbitrary: fs)
  case (Cons f flakes)
  {
    case 1
    then show ?case
      using Cons.IH(1) record_valid [OF assms(1)] by simp
  next
    case 2
    then have f: "ordered_flake f" "facts_valid valid (FactState_record L g f fs)"
      using record_valid [OF assms(1)] by simp_all
    show ?case
      using Cons.IH(2) [OF f(2)] 2 record_stamp [OF assms(1) 2(1) f(1) assms(4), of g h]
      by (cases "h = g") (simp_all add: best_stamp_Cons join_laws)
  }
qed simp_all

end
