(* ===== verification/NoveltyAttachments.thy ===== *)
theory NoveltyAttachments
  imports NoveltyFacts
begin

text \<open>
  Edge annotations: \<open>EdgeKey\<close> and its encoding as \<open>f:reifies*\<close> facts (\<open>fluree-db-core/src/edge.rs\<close>),
  the predicates of \<open>namespaces.rs\<close>, and the in-memory overlay \<open>AttachmentNovelty\<close>
  (\<open>fluree-db-novelty/src/attachments.rs\<close>) that the novelty keeps beside its flakes.

  A \<open>BTreeMap\<close> is an association list in the order of its keys.
\<close>

section \<open>Ordered maps of the standard library\<close>

fun btree_get :: "('k \<Rightarrow> 'k \<Rightarrow> Ordering) \<Rightarrow> 'k \<Rightarrow> ('k \<times> 'v) list \<Rightarrow> 'v option" where
  "btree_get cmp k [] = None"
| "btree_get cmp k ((k', v) # m) = (if cmp k k' = Equal then Some v else btree_get cmp k m)"

fun btree_entry :: "('k \<Rightarrow> 'k \<Rightarrow> Ordering) \<Rightarrow> 'k \<Rightarrow> ('v option \<Rightarrow> 'v) \<Rightarrow> ('k \<times> 'v) list \<Rightarrow> ('k \<times> 'v) list" where
  "btree_entry cmp k upd [] = [(k, upd None)]"
| "btree_entry cmp k upd ((k', v) # m) = (case cmp k k' of
     Less \<Rightarrow> (k, upd None) # (k', v) # m
   | Equal \<Rightarrow> (k', upd (Some v)) # m
   | Greater \<Rightarrow> (k', v) # btree_entry cmp k upd m)"

definition push_to :: "'a \<Rightarrow> 'a list option \<Rightarrow> 'a list" where
  "push_to x r = (case r of None \<Rightarrow> [x] | Some xs \<Rightarrow> xs @ [x])"

definition cmp_option :: "('a \<Rightarrow> 'a \<Rightarrow> Ordering) \<Rightarrow> 'a option \<Rightarrow> 'a option \<Rightarrow> Ordering" where
  "cmp_option cmp a b = (case (a, b) of
     (None, None) \<Rightarrow> Equal | (None, Some _) \<Rightarrow> Less | (Some _, None) \<Rightarrow> Greater | (Some x, Some y) \<Rightarrow> cmp x y)"

section \<open>Reserved predicates\<close>

definition ascii :: "string \<Rightarrow> str" where
  "ascii s = map of_char s"

definition FLUREE_DB :: u16 where "FLUREE_DB = 7"
definition JSON_LD :: u16 where "JSON_LD = 1"
definition XSD :: u16 where "XSD = 2"
definition RDF :: u16 where "RDF = 3"
definition RDFS :: u16 where "RDFS = 4"
definition SHACL :: u16 where "SHACL = 5"
definition OWL :: u16 where "OWL = 6"

definition is_reifies :: "string \<Rightarrow> Sid \<Rightarrow> bool" where
  "is_reifies name sid \<longleftrightarrow> sid_namespace_code sid = FLUREE_DB \<and> sid_name sid = ascii name"

definition reifies_sid :: "string \<Rightarrow> Sid" where
  "reifies_sid name = \<lparr>sid_namespace_code = FLUREE_DB, sid_name = ascii name\<rparr>"

definition is_reserved_reifies_predicate :: "Sid \<Rightarrow> bool" where
  "is_reserved_reifies_predicate sid \<longleftrightarrow> sid_namespace_code sid = FLUREE_DB \<and>
     sid_name sid \<in> set (map ascii [''reifiesGraph'', ''reifiesSubject'', ''reifiesPredicate'', ''reifiesObject'',
       ''reifiesDatatype'', ''reifiesLang'', ''reifiesListIndex''])"

definition is_rdfs_hierarchy_predicate :: "Sid \<Rightarrow> bool" where
  "is_rdfs_hierarchy_predicate sid \<longleftrightarrow> sid_namespace_code sid = RDFS \<and>
     (sid_name sid = ascii ''subClassOf'' \<or> sid_name sid = ascii ''subPropertyOf'')"

definition is_shacl_affecting_flake :: "Flake \<Rightarrow> bool" where
  "is_shacl_affecting_flake f =
    (if sid_namespace_code (fl_p f) = SHACL then True
     else if sid_namespace_code (fl_p f) = RDF \<and> sid_name (fl_p f) = ascii ''type'' then
       (case fl_o f of
          FV_Ref v \<Rightarrow> sid_namespace_code v = SHACL \<or>
            (sid_namespace_code v = RDFS \<and> sid_name v = ascii ''Class'') \<or>
            (sid_namespace_code v = OWL \<and> sid_name v = ascii ''Class'')
        | _ \<Rightarrow> False)
     else False)"

section \<open>Edge keys\<close>

record EdgeKey =
  ek_g :: "Sid option"
  ek_s :: Sid
  ek_p :: Sid
  ek_o :: FlakeValue
  ek_dt :: Sid
  ek_lang :: "str option"
  ek_list_i :: "u32 option"

definition EdgeKey_cmp :: "'a value_lib_scheme \<Rightarrow> EdgeKey \<Rightarrow> EdgeKey \<Rightarrow> Ordering" where
  "EdgeKey_cmp L a b =
    then_with (cmp_option Sid_cmp (ek_g a) (ek_g b))
    (then_with (Sid_cmp (ek_s a) (ek_s b))
    (then_with (Sid_cmp (ek_p a) (ek_p b))
    (then_with (FlakeValue_cmp L (ek_o a) (ek_o b))
    (then_with (Sid_cmp (ek_dt a) (ek_dt b))
    (then_with (cmp_option ord_cmp (ek_lang a) (ek_lang b))
      (cmp_option (\<lambda>i j. ord_cmp (sint i) (sint j)) (ek_list_i a) (ek_list_i b)))))))"

definition id_datatype_sid :: Sid where
  "id_datatype_sid = \<lparr>sid_namespace_code = JSON_LD, sid_name = ascii ''id''\<rparr>"

definition xsd_string_datatype_sid :: Sid where
  "xsd_string_datatype_sid = \<lparr>sid_namespace_code = XSD, sid_name = ascii ''string''\<rparr>"

definition EdgeKey_from_flake :: "Flake \<Rightarrow> EdgeKey" where
  "EdgeKey_from_flake f =
    (let (lang, list_i) = (case fl_m f of Some m \<Rightarrow> (fm_lang m, fm_i m) | None \<Rightarrow> (None, None))
     in \<lparr>ek_g = fl_g f, ek_s = fl_s f, ek_p = fl_p f, ek_o = fl_o f, ek_dt = fl_dt f, ek_lang = lang, ek_list_i = list_i\<rparr>)"

definition edge_key_to_flake_meta :: "str option \<Rightarrow> u32 option \<Rightarrow> FlakeMeta option" where
  "edge_key_to_flake_meta lang list_i =
    (if lang = None \<and> list_i = None then None else Some \<lparr>fm_lang = lang, fm_i = list_i\<rparr>)"

definition to_base_flake :: "EdgeKey \<Rightarrow> u64 \<Rightarrow> bool \<Rightarrow> Flake" where
  "to_base_flake e t b = \<lparr>fl_g = ek_g e, fl_s = ek_s e, fl_p = ek_p e, fl_o = ek_o e, fl_dt = ek_dt e, fl_t = t, fl_op = b,
     fl_m = edge_key_to_flake_meta (ek_lang e) (ek_list_i e)\<rparr>"

definition to_reifies_facts :: "EdgeKey \<Rightarrow> Sid \<Rightarrow> u64 \<Rightarrow> bool \<Rightarrow> Flake list" where
  "to_reifies_facts e ann t b =
    (let make = (\<lambda>name v dt. \<lparr>fl_g = ek_g e, fl_s = ann, fl_p = reifies_sid name, fl_o = v, fl_dt = dt, fl_t = t, fl_op = b, fl_m = None\<rparr>)
     in (case ek_g e of Some g \<Rightarrow> [make ''reifiesGraph'' (FV_Ref g) id_datatype_sid] | None \<Rightarrow> []) @
        [make ''reifiesSubject'' (FV_Ref (ek_s e)) id_datatype_sid,
         make ''reifiesPredicate'' (FV_Ref (ek_p e)) id_datatype_sid,
         (make ''reifiesObject'' (ek_o e) (ek_dt e))\<lparr>fl_m := edge_key_to_flake_meta (ek_lang e) (ek_list_i e)\<rparr>,
         make ''reifiesDatatype'' (FV_Ref (ek_dt e)) id_datatype_sid] @
        (case ek_lang e of Some l \<Rightarrow> [make ''reifiesLang'' (FV_String l) xsd_string_datatype_sid] | None \<Rightarrow> []))"

definition to_reifies_facts_jsonld_compatible :: "EdgeKey \<Rightarrow> Sid \<Rightarrow> u64 \<Rightarrow> bool \<Rightarrow> Flake list" where
  "to_reifies_facts_jsonld_compatible e ann t b =
    filter (\<lambda>f. \<not> is_reifies ''reifiesDatatype'' (fl_p f)) (to_reifies_facts e ann t b)"

datatype EdgeKeyDecodeError =
    EK_Missing string | EK_Duplicate string | EK_WrongType string | EK_DatatypeMismatch | EK_MixedFlakeGraphs
  | EK_GraphMismatch | EK_DeferredFeature string

record decode_state =
  ds_g :: "Sid option"
  ds_s :: "Sid option"
  ds_p :: "Sid option"
  ds_o :: "(FlakeValue \<times> Sid) option"
  ds_dt :: "Sid option"
  ds_lang :: "str option"
  ds_bundle_g :: "Sid option option"

definition ref_field :: "string \<Rightarrow> Sid option \<Rightarrow> FlakeValue \<Rightarrow> (Sid \<Rightarrow> decode_state) \<Rightarrow> EdgeKeyDecodeError + decode_state" where
  "ref_field name cur v set_it =
    (if cur \<noteq> None then Inl (EK_Duplicate name)
     else case v of FV_Ref sid \<Rightarrow> Inr (set_it sid) | _ \<Rightarrow> Inl (EK_WrongType name))"

definition reifies_step :: "Flake \<Rightarrow> decode_state \<Rightarrow> EdgeKeyDecodeError + decode_state" where
  "reifies_step f ds =
    (if \<not> is_reserved_reifies_predicate (fl_p f) then Inr ds
     else if ds_bundle_g ds \<noteq> None \<and> ds_bundle_g ds \<noteq> Some (fl_g f) then Inl EK_MixedFlakeGraphs
     else
       let ds = ds\<lparr>ds_bundle_g := Some (fl_g f)\<rparr> in
       if is_reifies ''reifiesGraph'' (fl_p f) then ref_field ''f:reifiesGraph'' (ds_g ds) (fl_o f) (\<lambda>x. ds\<lparr>ds_g := Some x\<rparr>)
       else if is_reifies ''reifiesSubject'' (fl_p f) then ref_field ''f:reifiesSubject'' (ds_s ds) (fl_o f) (\<lambda>x. ds\<lparr>ds_s := Some x\<rparr>)
       else if is_reifies ''reifiesPredicate'' (fl_p f) then ref_field ''f:reifiesPredicate'' (ds_p ds) (fl_o f) (\<lambda>x. ds\<lparr>ds_p := Some x\<rparr>)
       else if is_reifies ''reifiesObject'' (fl_p f) then
         (if ds_o ds \<noteq> None then Inl (EK_Duplicate ''f:reifiesObject'') else Inr (ds\<lparr>ds_o := Some (fl_o f, fl_dt f)\<rparr>))
       else if is_reifies ''reifiesDatatype'' (fl_p f) then ref_field ''f:reifiesDatatype'' (ds_dt ds) (fl_o f) (\<lambda>x. ds\<lparr>ds_dt := Some x\<rparr>)
       else if is_reifies ''reifiesLang'' (fl_p f) then
         (if ds_lang ds \<noteq> None then Inl (EK_Duplicate ''f:reifiesLang'')
          else case fl_o f of FV_String x \<Rightarrow> Inr (ds\<lparr>ds_lang := Some x\<rparr>) | _ \<Rightarrow> Inl (EK_WrongType ''f:reifiesLang''))
       else Inl (EK_DeferredFeature ''f:reifiesListIndex''))"

fun reifies_loop :: "Flake list \<Rightarrow> decode_state \<Rightarrow> EdgeKeyDecodeError + decode_state" where
  "reifies_loop [] ds = Inr ds"
| "reifies_loop (f # fs) ds = (case reifies_step f ds of Inl e \<Rightarrow> Inl e | Inr ds' \<Rightarrow> reifies_loop fs ds')"

definition decode_start :: decode_state where
  "decode_start = \<lparr>ds_g = None, ds_s = None, ds_p = None, ds_o = None, ds_dt = None, ds_lang = None, ds_bundle_g = None\<rparr>"

definition from_reifies_facts :: "Flake list \<Rightarrow> EdgeKeyDecodeError + EdgeKey" where
  "from_reifies_facts facts = (case reifies_loop facts decode_start of
     Inl e \<Rightarrow> Inl e
   | Inr ds \<Rightarrow> (case ds_s ds of
       None \<Rightarrow> Inl (EK_Missing ''f:reifiesSubject'')
     | Some s \<Rightarrow> (case ds_p ds of
         None \<Rightarrow> Inl (EK_Missing ''f:reifiesPredicate'')
       | Some p \<Rightarrow> (case ds_o ds of
           None \<Rightarrow> Inl (EK_Missing ''f:reifiesObject'')
         | Some (v, flake_dt) \<Rightarrow>
             (if ds_dt ds \<noteq> None \<and> ds_dt ds \<noteq> Some flake_dt then Inl EK_DatatypeMismatch
              else if Some (ds_g ds) \<noteq> ds_bundle_g ds then Inl EK_GraphMismatch
              else Inr \<lparr>ek_g = ds_g ds, ek_s = s, ek_p = p, ek_o = v, ek_dt = flake_dt, ek_lang = ds_lang ds,
                        ek_list_i = None\<rparr>)))))"

section \<open>The overlay\<close>

record ForwardRow =
  fr_ann :: Sid
  fr_t :: int
  fr_op :: bool

record ReverseRow =
  rr_edge :: EdgeKey
  rr_t :: int
  rr_op :: bool

record AttachmentNovelty =
  an_forward :: "(EdgeKey \<times> ForwardRow list) list"
  an_reverse :: "(Sid \<times> ReverseRow list) list"
  an_has_annotations :: bool
  an_observed_malformed_bundles :: u64

definition AttachmentNovelty_new :: AttachmentNovelty where
  "AttachmentNovelty_new = \<lparr>an_forward = [], an_reverse = [], an_has_annotations = False, an_observed_malformed_bundles = 0\<rparr>"

type_synonym bundle_key = "Sid option \<times> Sid \<times> int \<times> bool"

definition bundle_cmp :: "bundle_key \<Rightarrow> bundle_key \<Rightarrow> Ordering" where
  "bundle_cmp a b = (case (a, b) of ((g1, s1, t1, b1), (g2, s2, t2, b2)) \<Rightarrow>
     then_with (cmp_option Sid_cmp g1 g2) (then_with (Sid_cmp s1 s2) (then_with (ord_cmp t1 t2) (ord_cmp b1 b2))))"

definition bundles_of :: "Flake list \<Rightarrow> (bundle_key \<times> Flake list) list" where
  "bundles_of flakes = fold (\<lambda>f m.
     if is_reserved_reifies_predicate (fl_p f) then btree_entry bundle_cmp (fl_g f, fl_s f, flake_t f, fl_op f) (push_to f) m else m)
     flakes []"

definition saturating_inc :: "u64 \<Rightarrow> u64" where
  "saturating_inc n = (if n = - 1 then n else n + 1)"

definition observe_bundle :: "'a value_lib_scheme \<Rightarrow> bundle_key \<times> Flake list \<Rightarrow> AttachmentNovelty \<Rightarrow> AttachmentNovelty" where
  "observe_bundle L kb att = (case kb of ((g, ann, t, b), bundle) \<Rightarrow>
     (case from_reifies_facts bundle of
        Inl e \<Rightarrow> att\<lparr>an_observed_malformed_bundles := saturating_inc (an_observed_malformed_bundles att)\<rparr>
      | Inr edge \<Rightarrow>
          (if ek_g edge \<noteq> g then att\<lparr>an_observed_malformed_bundles := saturating_inc (an_observed_malformed_bundles att)\<rparr>
           else att\<lparr>an_forward := btree_entry (EdgeKey_cmp L) edge (push_to \<lparr>fr_ann = ann, fr_t = t, fr_op = b\<rparr>) (an_forward att),
                    an_reverse := btree_entry Sid_cmp ann (push_to \<lparr>rr_edge = edge, rr_t = t, rr_op = b\<rparr>) (an_reverse att),
                    an_has_annotations := True\<rparr>)))"

definition observe_flakes :: "'a value_lib_scheme \<Rightarrow> Flake list \<Rightarrow> AttachmentNovelty \<Rightarrow> AttachmentNovelty" where
  "observe_flakes L flakes att = fold (observe_bundle L) (bundles_of flakes) att"

text \<open>The latest visible operation of each row target; at equal times an assertion wins.\<close>

definition latest_assertions_at :: "('k \<Rightarrow> 'k \<Rightarrow> Ordering) \<Rightarrow> ('k \<times> int \<times> bool) list \<Rightarrow> int \<Rightarrow> 'k list" where
  "latest_assertions_at cmp rows as_of_t =
    map fst (filter (\<lambda>(k, t, b). b)
      (fold (\<lambda>(k, t, b) m. if as_of_t < t then m
         else btree_entry cmp k (\<lambda>cur. case cur of None \<Rightarrow> (t, b) | Some c \<Rightarrow> if c \<le> (t, b) then (t, b) else c) m) rows []))"

definition current_annotations_for_at :: "'a value_lib_scheme \<Rightarrow> AttachmentNovelty \<Rightarrow> EdgeKey \<Rightarrow> int \<Rightarrow> Sid list" where
  "current_annotations_for_at L att edge as_of_t = (case btree_get (EdgeKey_cmp L) edge (an_forward att) of
     None \<Rightarrow> []
   | Some rows \<Rightarrow> latest_assertions_at Sid_cmp (map (\<lambda>r. (fr_ann r, fr_t r, fr_op r)) rows) as_of_t)"

definition current_targets_for_at :: "'a value_lib_scheme \<Rightarrow> AttachmentNovelty \<Rightarrow> Sid \<Rightarrow> int \<Rightarrow> EdgeKey list" where
  "current_targets_for_at L att ann as_of_t = (case btree_get Sid_cmp ann (an_reverse att) of
     None \<Rightarrow> []
   | Some rows \<Rightarrow> latest_assertions_at (EdgeKey_cmp L) (map (\<lambda>r. (rr_edge r, rr_t r, rr_op r)) rows) as_of_t)"

definition forward_row_count :: "AttachmentNovelty \<Rightarrow> nat" where
  "forward_row_count att = sum_list (map (length \<circ> snd) (an_forward att))"

definition reverse_row_count :: "AttachmentNovelty \<Rightarrow> nat" where
  "reverse_row_count att = sum_list (map (length \<circ> snd) (an_reverse att))"

section \<open>The encoding of an edge\<close>

lemma reifies_names [simp]:
  "is_reifies n (reifies_sid m) \<longleftrightarrow> ascii m = ascii n"
  by (simp add: is_reifies_def reifies_sid_def)

lemma ascii_inject [simp]: "ascii x = ascii y \<longleftrightarrow> x = y"
proof -
  have "c = d" if eq: "(of_char c :: u8) = of_char d" for c d
  proof -
    have w: "of_nat (of_char c) = (of_nat (of_char d) :: u8)"
      using eq by (simp add: of_nat_of_char)
    have "(of_char c :: nat) mod 256 = of_char d mod 256"
      using arg_cong [OF w, of unat] by (simp only: unat_of_nat) simp
    then have "of_char c = (of_char d :: nat)"
      by (simp only: of_char_mod_256)
    then show ?thesis
      by simp
  qed
  then have "inj (of_char :: char \<Rightarrow> u8)"
    by (rule injI)
  then show ?thesis
    by (simp add: ascii_def inj_map_eq_map)
qed

lemma reserved_reifies [simp]:
  "is_reserved_reifies_predicate (reifies_sid ''reifiesGraph'')" "is_reserved_reifies_predicate (reifies_sid ''reifiesSubject'')"
  "is_reserved_reifies_predicate (reifies_sid ''reifiesPredicate'')" "is_reserved_reifies_predicate (reifies_sid ''reifiesObject'')"
  "is_reserved_reifies_predicate (reifies_sid ''reifiesDatatype'')" "is_reserved_reifies_predicate (reifies_sid ''reifiesLang'')"
  by (simp_all add: is_reserved_reifies_predicate_def reifies_sid_def)

lemma reifies_loop_append:
  "reifies_loop (xs @ ys) ds = (case reifies_loop xs ds of Inl e \<Rightarrow> Inl e | Inr ds' \<Rightarrow> reifies_loop ys ds')"
  by (induction xs arbitrary: ds) (auto split: sum.splits)

lemmas decode_simps = to_reifies_facts_def from_reifies_facts_def decode_start_def reifies_step_def ref_field_def
  Let_def reifies_loop_append

lemma round_trip_full: "ek_list_i e = None \<Longrightarrow> from_reifies_facts (to_reifies_facts e ann t b) = Inr e"
  by (cases "ek_g e"; cases "ek_lang e") (simp_all add: decode_simps)

lemma round_trip_jsonld:
  "ek_list_i e = None \<Longrightarrow> from_reifies_facts (to_reifies_facts_jsonld_compatible e ann t b) = Inr e"
  by (cases "ek_g e"; cases "ek_lang e") (simp_all add: to_reifies_facts_jsonld_compatible_def decode_simps)

text \<open>A bundle of a list element loses its index: the decoder gives the key of the edge without it.\<close>

lemma round_trip_list_index: "from_reifies_facts (to_reifies_facts e ann t b) = Inr (e\<lparr>ek_list_i := None\<rparr>)"
  by (cases "ek_g e"; cases "ek_lang e") (simp_all add: decode_simps)

lemma base_flake_key: "EdgeKey_from_flake (to_base_flake e t b) = e"
  by (simp add: EdgeKey_from_flake_def to_base_flake_def edge_key_to_flake_meta_def)

text \<open>Each bundle adds one row to both directions, or none and is counted.\<close>

lemma btree_entry_count:
  "sum_list (map (length \<circ> snd) (btree_entry cmp k (push_to x) m)) = Suc (sum_list (map (length \<circ> snd) m))"
  by (induction cmp k "push_to x" m rule: btree_entry.induct) (auto simp: push_to_def split: Ordering.splits)

lemma observe_rows_balanced:
  "forward_row_count att = reverse_row_count att \<Longrightarrow>
     forward_row_count (observe_flakes L flakes att) = reverse_row_count (observe_flakes L flakes att)"
proof -
  have "forward_row_count (observe_bundle L kb att) = reverse_row_count (observe_bundle L kb att)"
    if "forward_row_count att = reverse_row_count att" for kb att
    using that
    by (auto simp: observe_bundle_def forward_row_count_def reverse_row_count_def btree_entry_count split: prod.splits sum.splits)
  then have "forward_row_count att = reverse_row_count att \<Longrightarrow>
      forward_row_count (fold (observe_bundle L) kbs att) = reverse_row_count (fold (observe_bundle L) kbs att)" for kbs
    by (induction kbs arbitrary: att) simp_all
  then show "forward_row_count att = reverse_row_count att \<Longrightarrow> ?thesis"
    by (simp add: observe_flakes_def)
qed

end
