(* ===== verification/Novelty.thy ===== *)
theory Novelty
  imports NoveltyMerge NoveltyAttachments
begin

text \<open>
  The novelty overlay (\<open>fluree-db-novelty/src/lib.rs\<close>): the record \<open>Novelty\<close> and its operations, in the
  order of the source. An operation that mutates takes the novelty and the process-wide counters and
  returns them; one that can fail returns \<open>None\<close> for \<open>Ok\<close> or the error. A read that would panic is
  \<open>None\<close>. \<open>Arc\<close>s are transparent, tracing is left out, and rayon's parallel sorts are the sequential
  ones (the order of elements that compare equal is not specified by either).

  The theories \<open>NoveltyReads\<close> and \<open>NoveltyInvariants\<close> hold the lemmas.
\<close>

datatype NoveltyError = Overflow string | InvalidGraph Sid

record 'om Novelty =
  nv_graphs :: "Segment list option list"
  nv_size :: nat
  nv_flake_count :: nat
  nv_t :: int
  nv_epoch :: u64
  nv_content_version :: u64
  nv_schema_epoch :: u64
  nv_shacl_epoch :: u64
  nv_config_write_t :: int
  nv_attachments :: AttachmentNovelty
  nv_fact_state :: "'om FactState"

definition CONFIG_GRAPH_ID :: u16 where
  "CONFIG_GRAPH_ID = 2"

definition Novelty_new :: "int \<Rightarrow> 'om Novelty" where
  "Novelty_new t = \<lparr>nv_graphs = [], nv_size = 0, nv_flake_count = 0, nv_t = t, nv_epoch = 0, nv_content_version = 0,
     nv_schema_epoch = 0, nv_shacl_epoch = 0, nv_config_write_t = 0, nv_attachments = AttachmentNovelty_new,
     nv_fact_state = FactState_new\<rparr>"

definition resolve_flake_g_id :: "(Sid, u16) hashmap \<Rightarrow> Flake \<Rightarrow> NoveltyError + u16" where
  "resolve_flake_g_id reverse_graph f = (case fl_g f of
     None \<Rightarrow> Inr 0
   | Some g_sid \<Rightarrow> (case hm_get reverse_graph g_sid of Some g \<Rightarrow> Inr g | None \<Rightarrow> Inl (InvalidGraph g_sid)))"

definition refresh_content_version :: "'om Novelty \<Rightarrow> globals \<Rightarrow> 'om Novelty \<times> globals" where
  "refresh_content_version nov gl =
    (nov\<lparr>nv_content_version := next_content_version gl\<rparr>, gl\<lparr>next_content_version := next_content_version gl + 1\<rparr>)"

definition push_segment :: "u16 \<Rightarrow> Segment \<Rightarrow> 'om Novelty \<Rightarrow> 'om Novelty" where
  "push_segment g seg nov =
    (let idx = unat g; graphs = grow (nv_graphs nov) idx in
     nov\<lparr>nv_size := nv_size nov + sg_size seg,
         nv_flake_count := nv_flake_count nov + length (sg_flakes seg),
         nv_graphs := graphs[idx := Some ((case slot graphs idx of Some segs \<Rightarrow> segs | None \<Rightarrow> []) @ [seg])]\<rparr>)"

definition segment_count :: "'om Novelty \<Rightarrow> u16 \<Rightarrow> nat" where
  "segment_count nov g = (case slot (nv_graphs nov) (unat g) of Some segs \<Rightarrow> length segs | None \<Rightarrow> 0)"

definition check_segment_capacity :: "'om Novelty \<Rightarrow> u16 \<Rightarrow> NoveltyError option" where
  "check_segment_capacity nov g =
    (let existing = (case slot (nv_graphs nov) (unat g) of Some segs \<Rightarrow> length segs | None \<Rightarrow> 0) in
     if existing + 1 > MAX_SEGMENTS then Some (Overflow ''novelty segment count exceeds capacity, trigger reindex'') else None)"

text \<open>The chunking loop shared by \<open>set_graph_segments\<close> and \<open>tier_compact_graph\<close>.\<close>

function build_chunks :: "'a value_lib_scheme \<Rightarrow> Flake list \<Rightarrow> globals \<Rightarrow> Segment list \<times> globals" where
  "build_chunks L flakes gl =
    (if length flakes > MAX_SEGMENT_FLAKES then
       let (seg, gl) = Segment_build L (take MAX_SEGMENT_FLAKES flakes) gl;
           (segs, gl) = build_chunks L (drop MAX_SEGMENT_FLAKES flakes) gl
       in (seg # segs, gl)
     else let (seg, gl) = Segment_build L flakes gl in ([seg], gl))"
  by pat_completeness auto
termination
  by (relation "measure (\<lambda>(L, flakes, gl). length flakes)") simp_all

declare build_chunks.simps [simp del]

definition set_graph_segments :: "'a value_lib_scheme \<Rightarrow> u16 \<Rightarrow> Flake list \<Rightarrow> 'om Novelty \<Rightarrow> globals \<Rightarrow> 'om Novelty \<times> globals" where
  "set_graph_segments L g flakes nov gl =
    (let idx = unat g; graphs = grow (nv_graphs nov) idx in
     if flakes = [] then (nov\<lparr>nv_graphs := graphs[idx := None]\<rparr>, gl)
     else let (segs, gl) = build_chunks L flakes gl in (nov\<lparr>nv_graphs := graphs[idx := Some segs]\<rparr>, gl))"

definition live_segments :: "Segment list option list \<Rightarrow> Segment list" where
  "live_segments graphs = concat (map (\<lambda>s. case s of Some segs \<Rightarrow> segs | None \<Rightarrow> []) graphs)"

definition recompute_totals :: "'om Novelty \<Rightarrow> 'om Novelty" where
  "recompute_totals nov = nov\<lparr>nv_size := sum_list (map sg_size (live_segments (nv_graphs nov))),
     nv_flake_count := sum_list (map (\<lambda>seg. length (sg_flakes seg)) (live_segments (nv_graphs nov)))\<rparr>"

definition max_segment_count :: "'om Novelty \<Rightarrow> nat" where
  "max_segment_count nov = fold max (map (\<lambda>s. case s of Some segs \<Rightarrow> length segs | None \<Rightarrow> 0) (nv_graphs nov)) 0"

section \<open>Tiered compaction\<close>

text \<open>
  The loop of \<open>size_class\<close>; \<open>bound.checked_mul(tier_width)\<close> is \<open>None\<close> from \<open>2 ^ 64\<close> on. It is entered
  with a positive bound and a width of at least two, which the first test restates.
\<close>

function size_class_loop :: "nat \<Rightarrow> nat \<Rightarrow> nat \<Rightarrow> nat \<Rightarrow> nat" where
  "size_class_loop n tier_width bound class =
    (if tier_width < 2 \<or> bound = 0 \<or> n < bound then class
     else if bound * tier_width < 2 ^ 64 then size_class_loop n tier_width (bound * tier_width) (class + 1)
     else class + 1)"
  by pat_completeness auto
termination
  by (relation "measure (\<lambda>(n, tier_width, bound, class). 2 ^ 64 - bound)") (auto intro!: diff_less_mono2 elim: le_less_trans [rotated])

declare size_class_loop.simps [simp del]

definition size_class_of :: "nat \<Rightarrow> nat \<Rightarrow> nat" where
  "size_class_of n tier_width = (if n \<le> 1 \<or> tier_width < 2 then 0 else size_class_loop n tier_width tier_width 0)"

definition seg_class :: "nat \<Rightarrow> Segment \<Rightarrow> nat" where
  "seg_class tier_width seg = size_class_of (length (sg_flakes seg)) tier_width"

definition class_count :: "nat \<Rightarrow> Segment list \<Rightarrow> nat \<Rightarrow> nat" where
  "class_count tier_width segs class = length (filter (\<lambda>seg. seg_class tier_width seg = class) segs)"

definition needs_tier_compaction :: "'om Novelty \<Rightarrow> nat \<Rightarrow> bool" where
  "needs_tier_compaction nov tier_width =
    (if tier_width < 2 then False
     else list_ex (\<lambda>s. case s of
         Some segs \<Rightarrow> length segs \<ge> tier_width \<and> list_ex (\<lambda>seg. class_count tier_width segs (seg_class tier_width seg) \<ge> tier_width) segs
       | None \<Rightarrow> False) (nv_graphs nov))"

text \<open>The lowest class at or above \<open>min_class\<close> that holds a full group.\<close>

definition target_class :: "nat \<Rightarrow> Segment list \<Rightarrow> nat \<Rightarrow> nat option" where
  "target_class tier_width segs min_class =
    (case filter (\<lambda>c. c \<ge> min_class \<and> class_count tier_width segs c \<ge> tier_width) (map (seg_class tier_width) segs) of
       [] \<Rightarrow> None | c # cs \<Rightarrow> Some (fold min cs c))"

text \<open>The first \<open>tier_width\<close> segments of the class give their flakes; the rest is kept.\<close>

fun tier_take :: "nat \<Rightarrow> nat \<Rightarrow> nat \<Rightarrow> Segment list \<Rightarrow> Segment list \<times> Flake list" where
  "tier_take tier_width class merged [] = ([], [])"
| "tier_take tier_width class merged (seg # segs) =
    (if merged < tier_width \<and> seg_class tier_width seg = class
     then let (keep, flakes) = tier_take tier_width class (merged + 1) segs in (keep, sg_flakes seg @ flakes)
     else let (keep, flakes) = tier_take tier_width class merged segs in (seg # keep, flakes))"

definition total_flakes :: "Segment list \<Rightarrow> nat" where
  "total_flakes segs = sum_list (map (\<lambda>seg. length (sg_flakes seg)) segs)"

definition tier_merge :: "'a value_lib_scheme \<Rightarrow> nat \<Rightarrow> nat \<Rightarrow> Segment list \<Rightarrow> globals \<Rightarrow> Segment list \<times> globals" where
  "tier_merge L tier_width class segs gl =
    (let (keep, flakes) = tier_take tier_width class 0 segs;
         (chunks, gl) = build_chunks L flakes gl
     in (keep @ chunks, gl))"

lemma size_class_loop_le: "0 < bound \<Longrightarrow> size_class_loop n w bound c \<le> c + n div bound"
proof (induction n w bound c rule: size_class_loop.induct)
  case (1 n w bound c)
  show ?case
  proof (cases "w < 2 \<or> n < bound")
    case False
    then have "1 \<le> n div bound"
      using "1.prems" by (simp add: div_le_mono Suc_le_eq div_greater_zero_iff)
    moreover have "n div (bound * w) \<le> n div bound div 2"
      using False by (simp add: div_mult2_eq div_le_mono2)
    ultimately have "1 + n div (bound * w) \<le> n div bound"
      by linarith
    moreover have "size_class_loop n w (bound * w) (c + 1) \<le> c + 1 + n div (bound * w)" if "bound * w < 2 ^ 64"
      using "1.IH" [OF _ that] False "1.prems" by simp
    ultimately show ?thesis
      using False "1.prems" by (subst size_class_loop.simps) (cases "bound * w < 2 ^ 64"; simp)
  qed (use 1 in \<open>subst size_class_loop.simps, auto\<close>)
qed

lemma size_class_le: "size_class_of n w \<le> n"
proof -
  have "size_class_loop n w w 0 \<le> n" if "2 \<le> w"
    using size_class_loop_le [of w n w 0] that div_le_dividend [of n w] by linarith
  then show ?thesis
    by (simp add: size_class_of_def)
qed

lemma build_chunks_flakes: "concat (map sg_flakes (fst (build_chunks L flakes gl))) = flakes"
proof (induction L flakes gl rule: build_chunks.induct)
  case (1 L flakes gl)
  then show ?case
    by (subst build_chunks.simps) (auto simp: Let_def Segment_build_def split: prod.splits)
qed

lemma tier_take_flakes:
  "mset (concat (map sg_flakes (fst (tier_take w c k segs)))) + mset (snd (tier_take w c k segs)) = mset (concat (map sg_flakes segs))"
  by (induction w c k segs rule: tier_take.induct) (auto simp: Let_def split: prod.splits)

lemma tier_merge_flakes:
  "mset (concat (map sg_flakes (fst (tier_merge L w c segs gl)))) = mset (concat (map sg_flakes segs))"
proof -
  obtain keep flakes where t: "tier_take w c 0 segs = (keep, flakes)"
    by fastforce
  obtain chunks gl' where b: "build_chunks L flakes gl = (chunks, gl')"
    by fastforce
  have "concat (map sg_flakes chunks) = flakes"
    using build_chunks_flakes [of L flakes gl] b by simp
  then show ?thesis
    using tier_take_flakes [of w c 0 segs] by (simp add: tier_merge_def t b)
qed

lemma total_flakes_concat: "total_flakes segs = length (concat (map sg_flakes segs))"
  by (simp add: total_flakes_def length_concat o_def)

lemma tier_merge_total: "total_flakes (fst (tier_merge L w c segs gl)) = total_flakes segs"
  unfolding total_flakes_concat using tier_merge_flakes by (metis size_mset)

lemma fold_min_in: "fold min cs (c :: nat) \<in> set (c # cs)"
proof (induction cs arbitrary: c)
  case (Cons a cs)
  show ?case
    using Cons [of c] Cons [of a] by (auto simp: min_def)
qed simp

lemma target_classD:
  assumes "target_class w segs m = Some c"
  shows "m \<le> c" "w \<le> class_count w segs c" "c \<in> seg_class w ` set segs"
proof -
  obtain x xs where f: "filter (\<lambda>c. c \<ge> m \<and> class_count w segs c \<ge> w) (map (seg_class w) segs) = x # xs" "c = fold min xs x"
    using assms by (auto simp: target_class_def split: list.splits)
  then have "c \<in> set (filter (\<lambda>c. c \<ge> m \<and> class_count w segs c \<ge> w) (map (seg_class w) segs))"
    using fold_min_in [of xs x] by simp
  then show "m \<le> c" "w \<le> class_count w segs c" "c \<in> seg_class w ` set segs"
    by auto
qed

lemma target_class_le: "target_class w segs m = Some c \<Longrightarrow> c \<le> total_flakes segs"
proof -
  assume "target_class w segs m = Some c"
  then obtain seg where "seg \<in> set segs" "c = seg_class w seg"
    using target_classD(3) by blast
  then have "c \<le> length (sg_flakes seg)" "length (sg_flakes seg) \<in> set (map (\<lambda>seg. length (sg_flakes seg)) segs)"
    by (auto simp: seg_class_def size_class_le)
  then show ?thesis
    unfolding total_flakes_def using member_le_sum_list le_trans by blast
qed

text \<open>The cascade over one graph: its segments, the lowest class still open, and the merges done.\<close>

function tier_compact_graph :: "'a value_lib_scheme \<Rightarrow> nat \<Rightarrow> Segment list \<Rightarrow> nat \<Rightarrow> nat \<Rightarrow> globals \<Rightarrow> Segment list \<times> nat \<times> globals" where
  "tier_compact_graph L tier_width segs min_class merges gl =
    (if length segs < tier_width then (segs, merges, gl)
     else case target_class tier_width segs min_class of
       None \<Rightarrow> (segs, merges, gl)
     | Some class \<Rightarrow>
         let (segs, gl) = tier_merge L tier_width class segs gl
         in tier_compact_graph L tier_width segs (class + 1) (merges + 1) gl)"
  by pat_completeness auto
termination
proof (relation "measure (\<lambda>(L, tier_width, segs, min_class, merges, gl). Suc (total_flakes segs) - min_class)", goal_cases)
  case (2 L w segs min_class merges gl c x segs' gl')
  then have "total_flakes segs' = total_flakes segs"
    using tier_merge_total [of L w c segs gl] by (metis fst_conv)
  then show ?case
    using target_class_le [OF 2(2)] target_classD(1) [OF 2(2)] by simp
qed simp

declare tier_compact_graph.simps [simp del]

fun tier_compact_graphs :: "'a value_lib_scheme \<Rightarrow> nat \<Rightarrow> Segment list option list \<Rightarrow> globals \<Rightarrow> Segment list option list \<times> nat \<times> globals" where
  "tier_compact_graphs L tier_width [] gl = ([], 0, gl)"
| "tier_compact_graphs L tier_width (None # gs) gl =
    (let (gs, m, gl) = tier_compact_graphs L tier_width gs gl in (None # gs, m, gl))"
| "tier_compact_graphs L tier_width (Some segs # gs) gl =
    (let (segs, k, gl) = tier_compact_graph L tier_width segs 0 0 gl;
         (gs, m, gl) = tier_compact_graphs L tier_width gs gl
     in (Some segs # gs, k + m, gl))"

definition tier_compact :: "'a value_lib_scheme \<Rightarrow> nat \<Rightarrow> 'om Novelty \<Rightarrow> globals \<Rightarrow> nat \<times> 'om Novelty \<times> globals" where
  "tier_compact L tier_width nov gl =
    (if tier_width < 2 then (0, nov, gl)
     else
       let (graphs, merges, gl) = tier_compact_graphs L tier_width (nv_graphs nov) gl;
           nov = nov\<lparr>nv_graphs := graphs\<rparr>
       in if merges > 0 then
            let nov = recompute_totals nov;
                (nov, gl) = refresh_content_version (nov\<lparr>nv_epoch := nv_epoch nov + 1\<rparr>) gl
            in (merges, nov, gl)
          else (merges, nov, gl))"

section \<open>Applying commits\<close>

fun route_all :: "(Sid, u16) hashmap \<Rightarrow> Flake list \<Rightarrow> NoveltyError + (Flake \<times> u16) list" where
  "route_all rg [] = Inr []"
| "route_all rg (f # fs) = (case resolve_flake_g_id rg f of
     Inl e \<Rightarrow> Inl e
   | Inr g \<Rightarrow> (case route_all rg fs of Inl e \<Rightarrow> Inl e | Inr r \<Rightarrow> Inr ((f, g) # r)))"

fun check_all :: "'om Novelty \<Rightarrow> u16 list \<Rightarrow> u16 list \<Rightarrow> NoveltyError + u16 list" where
  "check_all nov [] checked = Inr checked"
| "check_all nov (g # gs) checked =
    (if g \<in> set checked then check_all nov gs checked
     else case check_segment_capacity nov g of Some e \<Rightarrow> Inl e | None \<Rightarrow> check_all nov gs (g # checked))"

fun can_apply_loop :: "'om Novelty \<Rightarrow> (Sid, u16) hashmap \<Rightarrow> Flake list \<Rightarrow> u16 list \<Rightarrow> NoveltyError option" where
  "can_apply_loop nov rg [] checked = None"
| "can_apply_loop nov rg (f # fs) checked = (case resolve_flake_g_id rg f of
     Inl e \<Rightarrow> Some e
   | Inr g \<Rightarrow>
       (if g \<in> set checked then can_apply_loop nov rg fs checked
        else case check_segment_capacity nov g of Some e \<Rightarrow> Some e | None \<Rightarrow> can_apply_loop nov rg fs (g # checked)))"

definition can_apply :: "'om Novelty \<Rightarrow> Flake list \<Rightarrow> (Sid, u16) hashmap \<Rightarrow> NoveltyError option" where
  "can_apply nov flakes rg =
    (if length flakes > MAX_SEGMENT_FLAKES then Some (Overflow ''commit batch exceeds max segment flakes, trigger reindex'')
     else can_apply_loop nov rg flakes [])"

definition hm_push :: "'k \<Rightarrow> 'v \<Rightarrow> ('k, 'v list) hashmap \<Rightarrow> ('k, 'v list) hashmap" where
  "hm_push k v m = hm_insert m k ((case hm_get m k of Some vs \<Rightarrow> vs | None \<Rightarrow> []) @ [v])"

definition group_by_graph :: "(Flake \<times> u16) list \<Rightarrow> (u16, Flake list) hashmap" where
  "group_by_graph routed = fold (\<lambda>(f, g). hm_push g f) routed hm_empty"

definition keep_routed :: "('om, 'z) novelty_lib_scheme \<Rightarrow> 'om FactState \<Rightarrow> (Flake \<times> u16) list \<Rightarrow> (Flake \<times> u16) list" where
  "keep_routed L fs routed = filter (\<lambda>(f, g). \<not> (fl_op f \<and> is_asserted L fs g f)) routed"

definition record_groups :: "('om, 'z) novelty_lib_scheme \<Rightarrow> (u16, Flake list) hashmap \<Rightarrow> 'om FactState \<Rightarrow> 'om FactState" where
  "record_groups L per_graph fs = fold (\<lambda>(g, batch). fold (FactState_record L g) batch) per_graph fs"

fun push_groups :: "'a value_lib_scheme \<Rightarrow> (u16 \<times> Flake list) list \<Rightarrow> 'om Novelty \<Rightarrow> globals \<Rightarrow> 'om Novelty \<times> globals" where
  "push_groups L [] nov gl = (nov, gl)"
| "push_groups L ((g, batch) # r) nov gl =
    (if batch = [] then push_groups L r nov gl
     else let (seg, gl) = Segment_build L batch gl in push_groups L r (push_segment g seg nov) gl)"

definition apply_commit ::
  "('om, 'z) novelty_lib_scheme \<Rightarrow> Flake list \<Rightarrow> int \<Rightarrow> (Sid, u16) hashmap \<Rightarrow> 'om Novelty \<Rightarrow> globals \<Rightarrow> NoveltyError option \<times> 'om Novelty \<times> globals" where
  "apply_commit L flakes commit_t rg nov gl =
    (if flakes = [] then (None, nov, gl)
     else if length flakes > MAX_SEGMENT_FLAKES then (Some (Overflow ''commit batch exceeds max segment flakes, trigger reindex''), nov, gl)
     else case route_all rg flakes of
       Inl e \<Rightarrow> (Some e, nov, gl)
     | Inr routed \<Rightarrow> (case check_all nov (map snd routed) [] of
         Inl e \<Rightarrow> (Some e, nov, gl)
       | Inr checked \<Rightarrow>
           let (nov, gl) = refresh_content_version (nov\<lparr>nv_t := max (nv_t nov) commit_t, nv_epoch := nv_epoch nov + 1\<rparr>) gl;
               kept = keep_routed L (nv_fact_state nov) routed;
               per_graph = group_by_graph kept;
               accepted_reifies = filter (\<lambda>f. is_reserved_reifies_predicate (fl_p f)) (map fst kept);
               nov = nov\<lparr>
                 nv_config_write_t := (if CONFIG_GRAPH_ID \<in> set checked then max (nv_config_write_t nov) commit_t else nv_config_write_t nov),
                 nv_schema_epoch := (if list_ex (\<lambda>(f, g). is_rdfs_hierarchy_predicate (fl_p f)) kept then nv_schema_epoch nov + 1 else nv_schema_epoch nov),
                 nv_shacl_epoch := (if list_ex (\<lambda>(f, g). is_shacl_affecting_flake f) kept then nv_shacl_epoch nov + 1 else nv_shacl_epoch nov),
                 nv_fact_state := record_groups L per_graph (nv_fact_state nov),
                 nv_attachments := (if accepted_reifies \<noteq> [] then observe_flakes L accepted_reifies (nv_attachments nov) else nv_attachments nov)\<rparr>;
               (nov, gl) = push_groups L per_graph nov gl
           in (None, nov, gl)))"

section \<open>Bulk loading\<close>

fun bulk_batch :: "(Sid, u16) hashmap \<Rightarrow> Flake list \<Rightarrow> 'om Novelty \<Rightarrow> (u16, Flake list) hashmap
    \<Rightarrow> NoveltyError option \<times> 'om Novelty \<times> (u16, Flake list) hashmap" where
  "bulk_batch rg [] nov per_graph = (None, nov, per_graph)"
| "bulk_batch rg (f # fs) nov per_graph = (case resolve_flake_g_id rg f of
     Inl e \<Rightarrow> (Some e, nov, per_graph)
   | Inr g \<Rightarrow>
       let nov = (if is_rdfs_hierarchy_predicate (fl_p f) then nov\<lparr>nv_schema_epoch := nv_schema_epoch nov + 1\<rparr> else nov);
           nov = (if is_shacl_affecting_flake f then nov\<lparr>nv_shacl_epoch := nv_shacl_epoch nov + 1\<rparr> else nov)
       in bulk_batch rg fs nov (hm_push g f per_graph))"

fun bulk_ingest :: "(Sid, u16) hashmap \<Rightarrow> (Flake list \<times> int) list \<Rightarrow> 'om Novelty \<Rightarrow> int \<Rightarrow> (u16, Flake list) hashmap
    \<Rightarrow> NoveltyError option \<times> 'om Novelty \<times> int \<times> (u16, Flake list) hashmap" where
  "bulk_ingest rg [] nov max_t per_graph = (None, nov, max_t, per_graph)"
| "bulk_ingest rg ((flakes, commit_t) # r) nov max_t per_graph =
    (let max_t = max max_t commit_t; (err, nov, per_graph) = bulk_batch rg flakes nov per_graph in
     case err of Some e \<Rightarrow> (Some e, nov, max_t, per_graph) | None \<Rightarrow> bulk_ingest rg r nov max_t per_graph)"

definition identity_cmp :: "'a value_lib_scheme \<Rightarrow> Flake \<Rightarrow> Flake \<Rightarrow> Ordering" where
  "identity_cmp L a b =
    then_with (Sid_cmp (fl_s a) (fl_s b))
    (then_with (Sid_cmp (fl_p a) (fl_p b))
    (then_with (cmp_object L a b)
    (then_with (cmp_meta a b)
    (then_with (i64_cmp (fl_t a) (fl_t b)) (ord_cmp (fl_op a) (fl_op b))))))"

definition same_identity :: "'a value_lib_scheme \<Rightarrow> Flake \<Rightarrow> Flake \<Rightarrow> bool" where
  "same_identity L a b \<longleftrightarrow> fl_s a = fl_s b \<and> fl_p a = fl_p b \<and> cmp_object L a b = Equal \<and> cmp_meta a b = Equal"

text \<open>The walk over the sorted flakes: the last flake kept, and whether it was an assertion.\<close>

fun dedup_walk :: "'a value_lib_scheme \<Rightarrow> Flake \<Rightarrow> bool \<Rightarrow> Flake list \<Rightarrow> Flake list" where
  "dedup_walk L prev asserted [] = []"
| "dedup_walk L prev asserted (f # fs) =
    (if same_identity L prev f then
       if \<not> fl_op f then f # dedup_walk L f False fs
       else if \<not> asserted then f # dedup_walk L f True fs
       else dedup_walk L prev asserted fs
     else f # dedup_walk L f (fl_op f) fs)"

fun dedup_sorted :: "'a value_lib_scheme \<Rightarrow> Flake list \<Rightarrow> Flake list" where
  "dedup_sorted L [] = []"
| "dedup_sorted L (f # fs) = f # dedup_walk L f (fl_op f) fs"

definition bulk_graph :: "('om, 'z) novelty_lib_scheme \<Rightarrow> int \<Rightarrow> u16 \<Rightarrow> Flake list \<Rightarrow> 'om Novelty \<Rightarrow> globals \<Rightarrow> 'om Novelty \<times> globals" where
  "bulk_graph L max_t g new_flakes nov gl =
    (let idx = unat g;
         existing = (case slot (nv_graphs nov) idx of Some segs \<Rightarrow> concat (map sg_flakes segs) | None \<Rightarrow> []);
         nov = (if idx < length (nv_graphs nov) then nov\<lparr>nv_graphs := (nv_graphs nov)[idx := None]\<rparr> else nov);
         combined = sort_by (identity_cmp L) (existing @ new_flakes);
         kept = dedup_sorted L combined;
         accepted_reifies = filter (\<lambda>f. is_reserved_reifies_predicate (fl_p f)) kept;
         nov = nov\<lparr>nv_fact_state := fold (FactState_record L g) kept (nv_fact_state nov)\<rparr>;
         (nov, gl) = set_graph_segments L g kept nov gl;
         nov = (if g = CONFIG_GRAPH_ID then nov\<lparr>nv_config_write_t := max (nv_config_write_t nov) max_t\<rparr> else nov);
         nov = (if accepted_reifies \<noteq> [] then nov\<lparr>nv_attachments := observe_flakes L accepted_reifies (nv_attachments nov)\<rparr> else nov)
     in (nov, gl))"

fun bulk_graphs :: "('om, 'z) novelty_lib_scheme \<Rightarrow> int \<Rightarrow> (u16 \<times> Flake list) list \<Rightarrow> 'om Novelty \<Rightarrow> globals \<Rightarrow> 'om Novelty \<times> globals" where
  "bulk_graphs L max_t [] nov gl = (nov, gl)"
| "bulk_graphs L max_t ((g, flakes) # r) nov gl = (let (nov, gl) = bulk_graph L max_t g flakes nov gl in bulk_graphs L max_t r nov gl)"

definition bulk_apply_commits ::
  "('om, 'z) novelty_lib_scheme \<Rightarrow> (Flake list \<times> int) list \<Rightarrow> (Sid, u16) hashmap \<Rightarrow> 'om Novelty \<Rightarrow> globals
    \<Rightarrow> NoveltyError option \<times> 'om Novelty \<times> globals" where
  "bulk_apply_commits L commit_batches rg nov gl =
    (let (err, nov, max_t, per_graph) = bulk_ingest rg commit_batches nov (nv_t nov) hm_empty in
     case err of
       Some e \<Rightarrow> (Some e, nov, gl)
     | None \<Rightarrow>
         if per_graph = [] then
           let (nov, gl) = refresh_content_version (nov\<lparr>nv_t := max_t, nv_epoch := nv_epoch nov + 1\<rparr>) gl in (None, nov, gl)
         else
           let (nov, gl) = bulk_graphs L max_t per_graph nov gl;
               (nov, gl) = refresh_content_version (nov\<lparr>nv_t := max_t, nv_epoch := nv_epoch nov + 1\<rparr>) gl
           in (None, recompute_totals nov, gl))"

section \<open>Reads\<close>

text \<open>\<open>graph_merge\<close>: a stream per segment that overlaps the range, and its first flake on the heap.\<close>

fun merge_streams :: "'a value_lib_scheme \<Rightarrow> IndexType \<Rightarrow> Flake option \<Rightarrow> Flake option \<Rightarrow> bool \<Rightarrow> nat \<Rightarrow> Segment list
    \<Rightarrow> MergeStream list \<Rightarrow> MergeHead list \<Rightarrow> MergeStream list \<times> MergeHead list" where
  "merge_streams L ix first rhs leftmost seg_idx [] streams heap = (streams, heap)"
| "merge_streams L ix first rhs leftmost seg_idx (seg # segs) streams heap =
    (if \<not> may_overlap L seg ix first rhs leftmost then merge_streams L ix first rhs leftmost (seg_idx + 1) segs streams heap
     else
       let order = seg_range L seg ix first rhs leftmost in
       if order = [] then merge_streams L ix first rhs leftmost (seg_idx + 1) segs streams heap
       else merge_streams L ix first rhs leftmost (seg_idx + 1) segs
         (streams @ [\<lparr>ms_seg_idx = seg_idx, ms_order = order, ms_pos = 0, ms_flakes = sg_flakes seg\<rparr>])
         (\<lparr>mh_flake = sg_flakes seg ! hd order, mh_stream = length streams, mh_seg_idx = seg_idx, mh_index = ix\<rparr> # heap))"

definition graph_merge :: "'a value_lib_scheme \<Rightarrow> 'om Novelty \<Rightarrow> u16 \<Rightarrow> IndexType \<Rightarrow> Flake option \<Rightarrow> Flake option \<Rightarrow> bool \<Rightarrow> GraphMergeIter" where
  "graph_merge L nov g ix first rhs leftmost =
    (let (streams, heap) = (case slot (nv_graphs nov) (unat g) of
         Some segs \<Rightarrow> merge_streams L ix first rhs leftmost 0 segs [] [] | None \<Rightarrow> ([], []))
     in \<lparr>gm_g_id = g, gm_index = ix, gm_streams = streams, gm_heap = heap\<rparr>)"

definition present_graphs :: "'om Novelty \<Rightarrow> u16 list" where
  "present_graphs nov =
    map of_nat (filter (\<lambda>g. case slot (nv_graphs nov) g of Some segs \<Rightarrow> segs \<noteq> [] | None \<Rightarrow> False) [0 ..< length (nv_graphs nov)])"

definition nth_option :: "'a list \<Rightarrow> nat \<Rightarrow> 'a option" where
  "nth_option xs i = (if i < length xs then Some (xs ! i) else None)"

definition read_flakes :: "'a value_lib_scheme \<Rightarrow> 'om Novelty \<Rightarrow> u16 \<Rightarrow> IndexType \<Rightarrow> Flake option \<Rightarrow> Flake option \<Rightarrow> bool \<Rightarrow> Flake list option" where
  "read_flakes L nov g ix first rhs leftmost = (case slot (nv_graphs nov) (unat g) of
     None \<Rightarrow> Some []
   | Some segs \<Rightarrow>
       (if length segs = 1 then
          let seg = hd segs in
          if may_overlap L seg ix first rhs leftmost
          then those (map (nth_option (sg_flakes seg)) (seg_range L seg ix first rhs leftmost))
          else Some []
        else if segs \<noteq> [] then map_option (map snd) (merge_collect L (graph_merge L nov g ix first rhs leftmost))
        else Some []))"

definition read_ids :: "'a value_lib_scheme \<Rightarrow> 'om Novelty \<Rightarrow> u16 \<Rightarrow> IndexType \<Rightarrow> Flake option \<Rightarrow> Flake option \<Rightarrow> bool \<Rightarrow> FlakeId list option" where
  "read_ids L nov g ix first rhs leftmost = (case slot (nv_graphs nov) (unat g) of
     None \<Rightarrow> Some []
   | Some segs \<Rightarrow>
       (if length segs = 1 then
          let seg = hd segs in
          if may_overlap L seg ix first rhs leftmost
          then Some (map (FlakeId_pack g 0) (seg_range L seg ix first rhs leftmost))
          else Some []
        else if segs \<noteq> [] then map_option (map fst) (merge_collect L (graph_merge L nov g ix first rhs leftmost))
        else Some []))"

definition slice_for_range :: "'a value_lib_scheme \<Rightarrow> 'om Novelty \<Rightarrow> u16 \<Rightarrow> IndexType \<Rightarrow> Flake option \<Rightarrow> Flake option \<Rightarrow> bool \<Rightarrow> FlakeId list option" where
  "slice_for_range L nov g ix first rhs leftmost = read_ids L nov g ix first rhs leftmost"

definition range_flakes :: "'a value_lib_scheme \<Rightarrow> 'om Novelty \<Rightarrow> u16 \<Rightarrow> IndexType \<Rightarrow> Flake option \<Rightarrow> Flake option \<Rightarrow> bool \<Rightarrow> Flake list option" where
  "range_flakes L nov g ix first rhs leftmost = read_flakes L nov g ix first rhs leftmost"

definition get_flake :: "'om Novelty \<Rightarrow> FlakeId \<Rightarrow> Flake option" where
  "get_flake nov fid = (case slot (nv_graphs nov) (FlakeId_graph fid) of
     None \<Rightarrow> None
   | Some segs \<Rightarrow> (case nth_option segs (FlakeId_seg fid) of
       None \<Rightarrow> None
     | Some seg \<Rightarrow> nth_option (sg_flakes seg) (FlakeId_local fid)))"

definition Novelty_len :: "'om Novelty \<Rightarrow> nat" where
  "Novelty_len nov = nv_flake_count nov"

definition Novelty_is_empty :: "'om Novelty \<Rightarrow> bool" where
  "Novelty_is_empty nov \<longleftrightarrow> nv_flake_count nov = 0"

definition iter_index :: "'a value_lib_scheme \<Rightarrow> 'om Novelty \<Rightarrow> IndexType \<Rightarrow> FlakeId list option" where
  "iter_index L nov ix = map_option concat (those (map (\<lambda>g. read_ids L nov g ix None None True) (present_graphs nov)))"

definition iter_flakes :: "'a value_lib_scheme \<Rightarrow> 'om Novelty \<Rightarrow> IndexType \<Rightarrow> Flake list option" where
  "iter_flakes L nov ix = map_option concat (those (map (\<lambda>g. read_flakes L nov g ix None None True) (present_graphs nov)))"

text \<open>The overlay callbacks, as the list of the flakes they are called with.\<close>

definition for_each_overlay_flake ::
  "'a value_lib_scheme \<Rightarrow> 'om Novelty \<Rightarrow> u16 \<Rightarrow> IndexType \<Rightarrow> Flake option \<Rightarrow> Flake option \<Rightarrow> bool \<Rightarrow> int \<Rightarrow> Flake list option" where
  "for_each_overlay_flake L nov g ix first rhs leftmost to_t = (case slot (nv_graphs nov) (unat g) of
     None \<Rightarrow> Some []
   | Some segs \<Rightarrow>
       (if length segs = 1 then
          let seg = hd segs in
          if may_overlap L seg ix first rhs leftmost
          then map_option (filter (\<lambda>f. flake_t f \<le> to_t)) (those (map (nth_option (sg_flakes seg)) (seg_range L seg ix first rhs leftmost)))
          else Some []
        else if segs \<noteq> [] then
          map_option (\<lambda>ys. filter (\<lambda>f. flake_t f \<le> to_t) (map snd ys)) (merge_collect L (graph_merge L nov g ix first rhs leftmost))
        else Some []))"

definition overlay_segments :: "'om Novelty \<Rightarrow> u16 \<Rightarrow> (u64 \<times> int \<times> int) list" where
  "overlay_segments nov g = (case slot (nv_graphs nov) (unat g) of
     Some segs \<Rightarrow> map (\<lambda>s. (sg_seg_id s, sg_min_t s, sg_max_t s)) segs | None \<Rightarrow> [])"

definition for_each_overlay_segment_flake :: "'om Novelty \<Rightarrow> u16 \<Rightarrow> nat \<Rightarrow> IndexType \<Rightarrow> Flake list option" where
  "for_each_overlay_segment_flake nov g seg_idx ix = (case slot (nv_graphs nov) (unat g) of
     None \<Rightarrow> Some []
   | Some segs \<Rightarrow> (case nth_option segs seg_idx of
       None \<Rightarrow> Some []
     | Some seg \<Rightarrow> those (map (nth_option (sg_flakes seg)) (seg_order seg ix))))"

section \<open>Clearing\<close>

fun clear_segments :: "'a value_lib_scheme \<Rightarrow> int \<Rightarrow> Segment list \<Rightarrow> globals \<Rightarrow> Segment list \<times> globals" where
  "clear_segments L cutoff_t [] gl = ([], gl)"
| "clear_segments L cutoff_t (seg # segs) gl =
    (if sg_max_t seg \<le> cutoff_t then clear_segments L cutoff_t segs gl
     else if sg_min_t seg > cutoff_t then
       let (kept, gl) = clear_segments L cutoff_t segs gl in (seg # kept, gl)
     else
       let survivors = filter (\<lambda>f. flake_t f > cutoff_t) (sg_flakes seg) in
       if survivors \<noteq> [] then
         let (s, gl) = Segment_build L survivors gl; (kept, gl) = clear_segments L cutoff_t segs gl in (s # kept, gl)
       else clear_segments L cutoff_t segs gl)"

fun clear_graphs :: "'a value_lib_scheme \<Rightarrow> int \<Rightarrow> Segment list option list \<Rightarrow> globals \<Rightarrow> Segment list option list \<times> globals" where
  "clear_graphs L cutoff_t [] gl = ([], gl)"
| "clear_graphs L cutoff_t (None # gs) gl = (let (gs, gl) = clear_graphs L cutoff_t gs gl in (None # gs, gl))"
| "clear_graphs L cutoff_t (Some segs # gs) gl =
    (let (kept, gl) = clear_segments L cutoff_t segs gl; (gs, gl) = clear_graphs L cutoff_t gs gl
     in ((if kept = [] then None else Some kept) # gs, gl))"

text \<open>The fact state rebuilt from the survivors of one graph, read in SPOT order.\<close>

definition rebuild_facts :: "('om, 'z) novelty_lib_scheme \<Rightarrow> 'om Novelty \<Rightarrow> nat \<Rightarrow> 'om FactState \<Rightarrow> 'om FactState option" where
  "rebuild_facts L nov g fs =
    (case slot (nv_graphs nov) g of
       Some segs \<Rightarrow>
         (if segs = [] then Some fs
          else case slice_for_range L nov (of_nat g) Spot None None True of
            None \<Rightarrow> None
          | Some ids \<Rightarrow> map_option (\<lambda>flakes. fold (FactState_record L (of_nat g)) flakes fs) (those (map (get_flake nov) ids)))
     | None \<Rightarrow> Some fs)"

fun rebuild_all :: "('om, 'z) novelty_lib_scheme \<Rightarrow> 'om Novelty \<Rightarrow> nat list \<Rightarrow> 'om FactState \<Rightarrow> 'om FactState option" where
  "rebuild_all L nov [] fs = Some fs"
| "rebuild_all L nov (g # gs) fs = (case rebuild_facts L nov g fs of None \<Rightarrow> None | Some fs' \<Rightarrow> rebuild_all L nov gs fs')"

definition clear_up_to :: "('om, 'z) novelty_lib_scheme \<Rightarrow> int \<Rightarrow> 'om Novelty \<Rightarrow> globals \<Rightarrow> ('om Novelty \<times> globals) option" where
  "clear_up_to L cutoff_t nov gl =
    (if nv_flake_count nov = 0 then Some (nov, gl)
     else
       let (graphs, gl) = clear_graphs L cutoff_t (nv_graphs nov) gl;
           nov = recompute_totals (nov\<lparr>nv_graphs := graphs\<rparr>)
       in map_option (\<lambda>fs. refresh_content_version (nov\<lparr>nv_fact_state := fs, nv_epoch := nv_epoch nov + 1\<rparr>) gl)
            (rebuild_all L nov [0 ..< length (nv_graphs nov)] FactState_new))"

end
