(* ===== verification/NoveltyReads.thy ===== *)
theory NoveltyReads
  imports Novelty
begin

text \<open>
  Range reads of the novelty: whatever the number of segments, a read gives the flakes of the graph
  that lie in the range, in the order of the index, and the flake ids resolve to the same flakes.
\<close>

section \<open>The content of a graph\<close>

definition graph_segs :: "'om Novelty \<Rightarrow> u16 \<Rightarrow> Segment list" where
  "graph_segs nov g = (case slot (nv_graphs nov) (unat g) of Some segs \<Rightarrow> segs | None \<Rightarrow> [])"

definition graph_flakes :: "'om Novelty \<Rightarrow> u16 \<Rightarrow> Flake list" where
  "graph_flakes nov g = concat (map sg_flakes (graph_segs nov g))"

definition segs_wf :: "'a value_lib_scheme \<Rightarrow> Segment list \<Rightarrow> bool" where
  "segs_wf L segs \<longleftrightarrow> segs \<noteq> [] \<and> length segs \<le> MAX_SEGMENTS \<and> list_all (segment_wf L) segs"

definition graphs_wf :: "'a value_lib_scheme \<Rightarrow> Segment list option list \<Rightarrow> bool" where
  "graphs_wf L gs \<longleftrightarrow> length gs \<le> 2 ^ 16 \<and> list_all (pred_option (segs_wf L)) gs"

lemma slot_in: "slot gs g = Some x \<Longrightarrow> Some x \<in> set gs"
  by (metis nth_mem option.distinct(1) slot_def)

lemma graphs_wf_slot: "graphs_wf L gs \<Longrightarrow> slot gs g = Some segs \<Longrightarrow> segs_wf L segs"
  using slot_in by (fastforce simp: graphs_wf_def list_all_iff)

lemma segs_wf_nth: "segs_wf L segs \<Longrightarrow> i < length segs \<Longrightarrow> segment_wf L (segs ! i)"
  by (simp add: segs_wf_def list_all_length)

section \<open>The streams of a merge\<close>

definition stream_from :: "'a value_lib_scheme \<Rightarrow> IndexType \<Rightarrow> Flake option \<Rightarrow> Flake option \<Rightarrow> bool \<Rightarrow> Segment list \<Rightarrow> MergeStream \<Rightarrow> bool" where
  "stream_from L ix first rhs leftmost segs st \<longleftrightarrow> ms_pos st = 0 \<and> ms_order st \<noteq> [] \<and> ms_seg_idx st < length segs \<and>
     ms_flakes st = sg_flakes (segs ! ms_seg_idx st) \<and> ms_order st = seg_range L (segs ! ms_seg_idx st) ix first rhs leftmost"

definition heads_ok :: "IndexType \<Rightarrow> MergeStream list \<Rightarrow> MergeHead list \<Rightarrow> bool" where
  "heads_ok ix sts heap \<longleftrightarrow> mset heap = image_mset (stream_head ix sts) (mset_set {..<length sts})"

lemma heads_ok_push:
  assumes "heads_ok ix sts heap" "ms_pos st = 0"
  shows "heads_ok ix (sts @ [st]) (\<lparr>mh_flake = ms_flakes st ! (ms_order st ! 0), mh_stream = length sts,
      mh_seg_idx = ms_seg_idx st, mh_index = ix\<rparr> # heap)"
proof -
  have "image_mset (stream_head ix (sts @ [st])) (mset_set {..<length sts}) = image_mset (stream_head ix sts) (mset_set {..<length sts})"
    by (rule image_mset_cong) (simp add: stream_head_def nth_append)
  moreover have "mset_set {..<length (sts @ [st])} = add_mset (length sts) (mset_set {..<length sts})"
    by (simp add: lessThan_Suc)
  ultimately show ?thesis
    using assms by (simp add: heads_ok_def stream_head_def Let_def)
qed

definition range_mset :: "'a value_lib_scheme \<Rightarrow> IndexType \<Rightarrow> Flake option \<Rightarrow> Flake option \<Rightarrow> bool \<Rightarrow> Segment \<Rightarrow> Flake multiset" where
  "range_mset L ix first rhs leftmost seg = mset (map ((!) (sg_flakes seg)) (seg_range L seg ix first rhs leftmost))"

lemma merge_streams_spec:
  assumes "decimal_exact L" "ordered_bounds first rhs" "list_all (segment_wf L) (pre @ segs)"
    "list_all (stream_from L ix first rhs leftmost (pre @ segs)) sts" "heads_ok ix sts heap"
    "merge_streams L ix first rhs leftmost (length pre) segs sts heap = (sts', heap')"
  shows "list_all (stream_from L ix first rhs leftmost (pre @ segs)) sts' \<and> heads_ok ix sts' heap' \<and>
    (\<Sum>st\<leftarrow>sts'. mset (pending st)) = (\<Sum>st\<leftarrow>sts. mset (pending st)) + (\<Sum>seg\<leftarrow>segs. range_mset L ix first rhs leftmost seg)"
  using assms(3-6)
proof (induction segs arbitrary: pre sts heap)
  case (Cons seg segs)
  let ?r = "seg_range L seg ix first rhs leftmost"
  have wf: "segment_wf L seg"
    using Cons.prems(1) by simp
  show ?case
  proof (cases "may_overlap L seg ix first rhs leftmost \<and> ?r \<noteq> []")
    case False
    then have r: "?r = []"
      using may_overlap_sound [OF assms(1) wf assms(2)] by blast
    have "merge_streams L ix first rhs leftmost (length (pre @ [seg])) segs sts heap = (sts', heap')"
      using Cons.prems(4) False by (auto simp: Let_def split: if_splits)
    from Cons.IH [OF _ _ Cons.prems(3) this] Cons.prems(1,2) r show ?thesis
      by (simp add: range_mset_def)
  next
    case True
    let ?st = "\<lparr>ms_seg_idx = length pre, ms_order = ?r, ms_pos = 0, ms_flakes = sg_flakes seg\<rparr>"
    have m: "merge_streams L ix first rhs leftmost (length (pre @ [seg])) segs (sts @ [?st])
        (\<lparr>mh_flake = sg_flakes seg ! (?r ! 0), mh_stream = length sts, mh_seg_idx = length pre, mh_index = ix\<rparr> # heap) = (sts', heap')"
      using Cons.prems(4) True by (simp add: Let_def hd_conv_nth)
    have "stream_from L ix first rhs leftmost (pre @ seg # segs) ?st"
      using True by (simp add: stream_from_def)
    then have "list_all (stream_from L ix first rhs leftmost ((pre @ [seg]) @ segs)) (sts @ [?st])"
      using Cons.prems(2) by simp
    from Cons.IH [OF _ this _ m] heads_ok_push [OF Cons.prems(3), of ?st] Cons.prems(1) show ?thesis
      by (simp add: range_mset_def pending_def add.assoc)
  qed
qed simp

lemma range_mset_filter:
  assumes "decimal_exact L" "segment_wf L seg" "ordered_bounds first rhs"
  shows "range_mset L ix first rhs leftmost seg = filter_mset (in_range L ix first rhs leftmost) (mset (sg_flakes seg))"
  by (simp add: range_mset_def seg_range_spec [OF assms] mset_filter seg_flakes_in_mset [OF assms(2)])

lemma sum_range_mset:
  assumes "decimal_exact L" "list_all (segment_wf L) segs" "ordered_bounds first rhs"
  shows "(\<Sum>seg\<leftarrow>segs. range_mset L ix first rhs leftmost seg) =
    mset (filter (in_range L ix first rhs leftmost) (concat (map sg_flakes segs)))"
  using assms(2) by (induction segs) (simp_all add: range_mset_filter [OF assms(1) _ assms(3)])

lemma stream_from_ok:
  assumes "decimal_exact L" "segs_wf L segs" "ordered_bounds first rhs" "stream_from L ix first rhs leftmost segs st"
  shows "stream_ok L ix st"
proof -
  let ?seg = "segs ! ms_seg_idx st"
  have st: "ms_flakes st = sg_flakes ?seg" "ms_order st = seg_range L ?seg ix first rhs leftmost"
    and wf: "segment_wf L ?seg"
    using assms(4) segs_wf_nth [OF assms(2)] by (simp_all add: stream_from_def)
  have "sorted (map (flake_key L ix) (filter (in_range L ix first rhs leftmost) (seg_flakes_in ?seg ix)))"
    using wf by (simp add: segment_wf_def sorted_filter)
  then have "sorted (map (flake_key L ix) (map ((!) (ms_flakes st)) (ms_order st)))"
    unfolding st seg_range_spec [OF assms(1) wf assms(3)] .
  moreover have "list_all (\<lambda>i. i < length (ms_flakes st)) (ms_order st)"
    using seg_range_subset [of L ?seg ix first rhs leftmost] segment_order_set [OF wf, of ix] unfolding st list_all_iff by blast
  moreover have "list_all ordered_flake (ms_flakes st)"
    using wf by (simp add: st segment_wf_def)
  ultimately show ?thesis
    by (simp add: stream_ok_def)
qed

lemma graph_merge_spec:
  fixes ix leftmost
  assumes "decimal_exact L" "segs_wf L segs" "ordered_bounds first rhs" "slot (nv_graphs nov) (unat g) = Some segs"
  shows "merge_ok L (graph_merge L nov g ix first rhs leftmost) \<and>
    todo (graph_merge L nov g ix first rhs leftmost) = mset (filter (in_range L ix first rhs leftmost) (concat (map sg_flakes segs))) \<and>
    list_all (stream_from L ix first rhs leftmost segs) (gm_streams (graph_merge L nov g ix first rhs leftmost)) \<and>
    gm_index (graph_merge L nov g ix first rhs leftmost) = ix \<and> gm_g_id (graph_merge L nov g ix first rhs leftmost) = g"
proof -
  obtain sts heap where m: "merge_streams L ix first rhs leftmost 0 segs [] [] = (sts, heap)"
    by fastforce
  have it: "graph_merge L nov g ix first rhs leftmost = \<lparr>gm_g_id = g, gm_index = ix, gm_streams = sts, gm_heap = heap\<rparr>"
    by (simp add: graph_merge_def assms(4) m)
  have wf: "list_all (segment_wf L) ([] @ segs)"
    using assms(2) by (simp add: segs_wf_def)
  from merge_streams_spec [OF assms(1,3) wf, of ix leftmost "[]" "[]" sts heap] m
  have sp: "list_all (stream_from L ix first rhs leftmost segs) sts" "heads_ok ix sts heap"
    "(\<Sum>st\<leftarrow>sts. mset (pending st)) = (\<Sum>seg\<leftarrow>segs. range_mset L ix first rhs leftmost seg)"
    by (simp_all add: heads_ok_def)
  have "live sts = {..<length sts}"
    using sp(1) by (auto simp: live_def list_all_length stream_from_def)
  moreover have "list_all (stream_ok L ix) sts"
    using sp(1) stream_from_ok [OF assms(1-3)] by (auto simp: list_all_iff)
  ultimately show ?thesis
    using sp sum_range_mset [OF assms(1) wf [simplified] assms(3)] by (simp add: it merge_ok_def heads_ok_def todo_def)
qed

section \<open>What a read returns\<close>

lemma those_nth_option: "list_all (\<lambda>i. i < length xs) js \<Longrightarrow> those (map (nth_option xs) js) = Some (map ((!) xs) js)"
  by (induction js) (simp_all add: nth_option_def)

lemma single_range:
  assumes "decimal_exact L" "segment_wf L seg" "ordered_bounds first rhs"
  shows "those (map (nth_option (sg_flakes seg)) (seg_range L seg ix first rhs leftmost)) =
      Some (filter (in_range L ix first rhs leftmost) (seg_flakes_in seg ix))"
    "list_all (\<lambda>i. i < length (sg_flakes seg)) (seg_range L seg ix first rhs leftmost)"
proof -
  show b: "list_all (\<lambda>i. i < length (sg_flakes seg)) (seg_range L seg ix first rhs leftmost)"
    using seg_range_subset [of L seg ix first rhs leftmost] segment_order_set [OF assms(2), of ix] unfolding list_all_iff by blast
  show "those (map (nth_option (sg_flakes seg)) (seg_range L seg ix first rhs leftmost)) =
      Some (filter (in_range L ix first rhs leftmost) (seg_flakes_in seg ix))"
    using those_nth_option [OF b] seg_range_spec [OF assms] by simp
qed

definition range_read :: "'a value_lib_scheme \<Rightarrow> IndexType \<Rightarrow> Flake option \<Rightarrow> Flake option \<Rightarrow> bool \<Rightarrow> Flake list \<Rightarrow> Flake list \<Rightarrow> bool" where
  "range_read L ix first rhs leftmost content fs \<longleftrightarrow>
    mset fs = mset (filter (in_range L ix first rhs leftmost) content) \<and>
    sorted_wrt (\<lambda>a b. index_compare L ix a b \<noteq> Greater) fs"

lemma sorted_by_key:
  assumes "decimal_exact L" "list_all ordered_flake fs"
  shows "sorted_wrt (\<lambda>a b. index_compare L ix a b \<noteq> Greater) fs \<longleftrightarrow> sorted (map (flake_key L ix) fs)"
  using assms(2) by (induction fs) (auto simp: list_all_iff index_compare_key [OF assms(1)])

lemma segs_ordered: "segs_wf L segs \<Longrightarrow> f \<in> set (concat (map sg_flakes segs)) \<Longrightarrow> ordered_flake f"
  by (auto simp: segs_wf_def segment_wf_def list_all_iff)

lemma range_readI:
  assumes "decimal_exact L" "segs_wf L segs" "mset fs = mset (filter P (concat (map sg_flakes segs)))" "sorted (map (flake_key L ix) fs)"
    "P = in_range L ix first rhs leftmost"
  shows "range_read L ix first rhs leftmost (concat (map sg_flakes segs)) fs"
proof -
  have "list_all ordered_flake fs"
    using segs_ordered [OF assms(2)] mset_eq_setD [OF assms(3)] by (auto simp: list_all_iff)
  then show ?thesis
    using assms by (simp add: range_read_def sorted_by_key)
qed

lemma get_flake_pack:
  assumes "slot (nv_graphs nov) (unat g) = Some segs" "segs_wf L segs" "n < length segs" "i < length (sg_flakes (segs ! n))"
  shows "get_flake nov (FlakeId_pack g n i) = Some (sg_flakes (segs ! n) ! i)"
proof -
  have "n < 2 ^ 24" "i < 2 ^ 24"
    using assms(2-4) segs_wf_nth [OF assms(2,3)] by (auto simp: segs_wf_def segment_wf_def)
  then show ?thesis
    using assms by (simp add: get_flake_def FlakeId_pack_simps nth_option_def)
qed

lemma those_map_eq: "(\<And>x. x \<in> set xs \<Longrightarrow> h x = Some (k x)) \<Longrightarrow> those (map h xs) = Some (map k xs)"
  by (induction xs) simp_all

lemma yielded_resolves:
  assumes "segs_wf L segs" "slot (nv_graphs nov) (unat g) = Some segs"
    "list_all (stream_from L ix first rhs leftmost segs) sts" "list_all (stream_ok L ix) sts" "yielded_from sts g y"
  shows "get_flake nov (fst y) = Some (snd y)"
proof -
  from assms(5) obtain st i where y: "st \<in> set sts" "i \<in> set (ms_order st)" "y = (FlakeId_pack g (ms_seg_idx st) i, ms_flakes st ! i)"
    by (auto simp: yielded_from_def)
  then have "ms_seg_idx st < length segs" "i < length (sg_flakes (segs ! ms_seg_idx st))" "ms_flakes st = sg_flakes (segs ! ms_seg_idx st)"
    using assms(3,4) by (auto simp: list_all_iff stream_from_def stream_ok_def)
  then show ?thesis
    using get_flake_pack [OF assms(2,1)] y(3) by simp
qed

theorem read_spec:
  assumes "decimal_exact L" "graphs_wf L (nv_graphs nov)" "ordered_bounds first rhs"
  shows "\<exists>fs ids. read_flakes L nov g ix first rhs leftmost = Some fs \<and> read_ids L nov g ix first rhs leftmost = Some ids \<and>
    range_read L ix first rhs leftmost (graph_flakes nov g) fs \<and> those (map (get_flake nov) ids) = Some fs"
proof (cases "slot (nv_graphs nov) (unat g)")
  case None
  then show ?thesis
    by (simp add: read_flakes_def read_ids_def graph_flakes_def graph_segs_def range_read_def)
next
  case (Some segs)
  note wf = graphs_wf_slot [OF assms(2) Some]
  have cont: "graph_flakes nov g = concat (map sg_flakes segs)"
    by (simp add: graph_flakes_def graph_segs_def Some)
  show ?thesis
  proof (cases "length segs = 1")
    case True
    then obtain seg where seg: "segs = [seg]"
      by (metis One_nat_def length_0_conv length_Suc_conv)
    have swf: "segment_wf L seg"
      using wf by (simp add: seg segs_wf_def)
    note rng = single_range [OF assms(1) swf assms(3), of ix leftmost]
    let ?fs = "filter (in_range L ix first rhs leftmost) (seg_flakes_in seg ix)"
    have emp: "seg_range L seg ix first rhs leftmost = [] \<and> ?fs = []" if "\<not> may_overlap L seg ix first rhs leftmost"
      using may_overlap_sound [OF assms(1) swf assms(3) that] seg_range_spec [OF assms(1) swf assms(3), of ix leftmost] by simp
    have "range_read L ix first rhs leftmost (concat (map sg_flakes segs)) ?fs"
      using swf by (intro range_readI [OF assms(1) wf]) (simp_all add: seg segment_wf_def sorted_filter mset_filter seg_flakes_in_mset [OF swf])
    moreover have "those (map (get_flake nov) (map (FlakeId_pack g 0) (seg_range L seg ix first rhs leftmost))) = Some ?fs"
    proof -
      have "those (map (get_flake nov \<circ> FlakeId_pack g 0) (seg_range L seg ix first rhs leftmost)) =
          Some (map ((!) (sg_flakes seg)) (seg_range L seg ix first rhs leftmost))"
        using get_flake_pack [OF Some wf, of 0] rng(2) by (intro those_map_eq) (auto simp: seg list_all_iff)
      then show ?thesis
        by (simp add: seg_range_spec [OF assms(1) swf assms(3)])
    qed
    moreover have "read_flakes L nov g ix first rhs leftmost = Some ?fs"
      "read_ids L nov g ix first rhs leftmost = Some (map (FlakeId_pack g 0) (seg_range L seg ix first rhs leftmost))"
      using rng(1) emp by (simp_all add: read_flakes_def read_ids_def Some seg)
    ultimately show ?thesis
      unfolding cont by blast
  next
    case False
    let ?it = "graph_merge L nov g ix first rhs leftmost"
    from graph_merge_spec [OF assms(1) wf assms(3) Some, of ix leftmost] have it: "merge_ok L ?it"
      "todo ?it = mset (filter (in_range L ix first rhs leftmost) (concat (map sg_flakes segs)))"
      "list_all (stream_from L ix first rhs leftmost segs) (gm_streams ?it)" "gm_index ?it = ix" "gm_g_id ?it = g"
      by simp_all
    from merge_collect_spec [OF assms(1) it(1)] obtain ys where ys: "merge_collect L ?it = Some ys" "mset (map snd ys) = todo ?it"
      "sorted (map (flake_key L ix) (map snd ys))" "list_all (yielded_from (gm_streams ?it) g) ys"
      unfolding it(4,5) by blast
    have "range_read L ix first rhs leftmost (concat (map sg_flakes segs)) (map snd ys)"
      by (rule range_readI [OF assms(1) wf ys(2)[unfolded it(2)] ys(3) refl])
    moreover have "those (map (get_flake nov) (map fst ys)) = Some (map snd ys)"
    proof -
      have ok: "list_all (stream_ok L ix) (gm_streams ?it)"
        using it(1,4) by (simp add: merge_ok_def)
      have "those (map (get_flake nov \<circ> fst) ys) = Some (map snd ys)"
        using yielded_resolves [OF wf Some it(3) ok] ys(4) by (intro those_map_eq) (simp add: list_all_iff)
      then show ?thesis
        by simp
    qed
    moreover have "read_flakes L nov g ix first rhs leftmost = Some (map snd ys)" "read_ids L nov g ix first rhs leftmost = Some (map fst ys)"
      using False wf ys(1) by (simp_all add: read_flakes_def read_ids_def Some segs_wf_def)
    ultimately show ?thesis
      unfolding cont by blast
  qed
qed

lemma for_each_overlay_read:
  "for_each_overlay_flake L nov g ix first rhs leftmost to_t =
     map_option (filter (\<lambda>f. flake_t f \<le> to_t)) (read_flakes L nov g ix first rhs leftmost)"
  by (auto simp: for_each_overlay_flake_def read_flakes_def Let_def option.map_comp o_def split: option.split)

end
