(* ===== verification/NoveltyInvariants.thy ===== *)
theory NoveltyInvariants
  imports NoveltyReads
begin

text \<open>
  The invariant of the novelty and the operations that keep it. Beside the shape of the graphs and the
  running totals it says that the fact state is the digest of the flakes the segments hold
  (\<open>facts_agree\<close>), which is what the set-semantics test of \<open>apply_commit\<close> relies on.
\<close>

definition totals_ok :: "'om Novelty \<Rightarrow> bool" where
  "totals_ok nov \<longleftrightarrow> nv_size nov = sum_list (map sg_size (live_segments (nv_graphs nov))) \<and>
     nv_flake_count nov = total_flakes (live_segments (nv_graphs nov))"

definition facts_agree :: "('om, 'z) novelty_lib_scheme \<Rightarrow> 'om Novelty \<Rightarrow> bool" where
  "facts_agree L nov \<longleftrightarrow> (\<forall>g k. ordered_key k \<longrightarrow> fact_stamp L (nv_fact_state nov) g k = best_stamp L (graph_flakes nov g) k)"

definition novelty_wf :: "('om, 'z) novelty_lib_scheme \<Rightarrow> ('om \<Rightarrow> bool) \<Rightarrow> 'om Novelty \<Rightarrow> bool" where
  "novelty_wf L valid nov \<longleftrightarrow> graphs_wf L (nv_graphs nov) \<and> totals_ok nov \<and> facts_valid valid (nv_fact_state nov) \<and>
     facts_agree L nov \<and> forward_row_count (nv_attachments nov) = reverse_row_count (nv_attachments nov)"

lemma novelty_wf_new: "novelty_wf L valid (Novelty_new t)"
  by (simp add: novelty_wf_def Novelty_new_def graphs_wf_def totals_ok_def live_segments_def total_flakes_def facts_agree_def
      graph_flakes_def graph_segs_def AttachmentNovelty_new_def forward_row_count_def reverse_row_count_def)

lemma graph_flakes_ordered: "graphs_wf L (nv_graphs nov) \<Longrightarrow> list_all ordered_flake (graph_flakes nov g)"
proof (cases "slot (nv_graphs nov) (unat g)")
  case (Some segs)
  assume "graphs_wf L (nv_graphs nov)"
  from segs_ordered [OF graphs_wf_slot [OF this Some]] show ?thesis
    by (auto simp: graph_flakes_def graph_segs_def Some list_all_iff)
qed (simp add: graph_flakes_def graph_segs_def)

section \<open>Pushing segments\<close>

lemma live_segments_grow: "live_segments (grow gs n) = live_segments gs"
  by (simp add: live_segments_def grow_def)


lemma sum_live_update:
  fixes h :: "Segment \<Rightarrow> nat"
  assumes "n < length gs"
  shows "sum_list (map h (live_segments (gs[n := Some ((case gs ! n of Some segs \<Rightarrow> segs | None \<Rightarrow> []) @ [seg])]))) =
    sum_list (map h (live_segments gs)) + h seg"
proof -
  let ?w = "\<lambda>s. sum_list (map h (case s of Some segs \<Rightarrow> segs | None \<Rightarrow> []))"
  have e: "sum_list (map h (live_segments xs)) = sum_list (map ?w xs)" for xs
    by (induction xs) (simp_all add: live_segments_def)
  show ?thesis
    unfolding e using sum_list_update_nth [OF assms, of ?w] by (simp split: option.splits)
qed

lemma slot_grow_nth: "grow gs n ! n = slot gs n"
  using slot_grow [of gs n n] length_grow [of n gs] by (simp add: slot_def split: if_splits)

lemma push_segment_segs: "graph_segs (push_segment g seg nov) h = graph_segs nov h @ (if h = g then [seg] else [])"
  by (auto simp: graph_segs_def push_segment_def Let_def word_unat_eq_iff split: option.split)

lemma push_segment_totals:
  assumes "totals_ok nov"
  shows "totals_ok (push_segment g seg nov)"
proof -
  note upd = sum_live_update [OF length_grow [of "unat g" "nv_graphs nov"], of _ seg, unfolded live_segments_grow slot_grow_nth]
  show ?thesis
    using assms upd [of sg_size] upd [of "\<lambda>s. length (sg_flakes s)"]
    by (simp add: totals_ok_def push_segment_def Let_def total_flakes_def)
qed

lemma push_segment_wf:
  assumes "graphs_wf L (nv_graphs nov)" "segment_wf L seg" "segment_count nov g < MAX_SEGMENTS"
  shows "graphs_wf L (nv_graphs (push_segment g seg nov))"
proof -
  let ?gs = "grow (nv_graphs nov) (unat g)"
  let ?new = "(case slot (nv_graphs nov) (unat g) of Some segs \<Rightarrow> segs | None \<Rightarrow> []) @ [seg]"
  have g: "unat g < 2 ^ 16"
    using unsigned_less [of g, where 'a = nat] by simp
  have "list_all (segment_wf L) (case slot (nv_graphs nov) (unat g) of Some segs \<Rightarrow> segs | None \<Rightarrow> [])"
    using graphs_wf_slot [OF assms(1)] by (auto simp: segs_wf_def split: option.split)
  then have "segs_wf L ?new"
    using assms(2,3) by (simp add: segs_wf_def segment_count_def split: option.splits)
  moreover have "length ?gs \<le> 2 ^ 16"
    using assms(1) g by (simp add: graphs_wf_def grow_def)
  moreover have "list_all (pred_option (segs_wf L)) ?gs"
    using assms(1) by (simp add: graphs_wf_def grow_def list_all_iff)
  ultimately show ?thesis
    by (auto simp: graphs_wf_def push_segment_def Let_def list_all_iff dest!: set_update_subset_insert [THEN subsetD])
qed

lemma push_segment_other [simp]:
  "nv_fact_state (push_segment g seg nov) = nv_fact_state nov" "nv_attachments (push_segment g seg nov) = nv_attachments nov"
  by (simp_all add: push_segment_def Let_def)

lemma push_groups_spec:
  assumes "decimal_exact L" "distinct (map fst r)" "list_all (\<lambda>(g, b). list_all ordered_flake b \<and> length b \<le> MAX_SEGMENT_FLAKES) r"
    "\<forall>g\<in>fst ` set r. segment_count nov g < MAX_SEGMENTS" "graphs_wf L (nv_graphs nov)" "totals_ok nov"
    "push_groups L r nov gl = (nov', gl')"
  shows "graphs_wf L (nv_graphs nov') \<and> totals_ok nov' \<and> nv_fact_state nov' = nv_fact_state nov \<and>
    nv_attachments nov' = nv_attachments nov \<and>
    (\<forall>h. graph_flakes nov' h = graph_flakes nov h @ (case map_of r h of Some b \<Rightarrow> b | None \<Rightarrow> []))"
  using assms(2-7)
proof (induction r arbitrary: nov gl)
  case (Cons gb r)
  obtain g b where gb: "gb = (g, b)"
    by (cases gb)
  show ?case
  proof (cases "b = []")
    case True
    have "g \<notin> fst ` set r"
      using Cons.prems(1) by (simp add: gb)
    then have "map_of r g = None"
      by (simp add: map_of_eq_None_iff)
    then show ?thesis
      using Cons.IH [of nov gl] Cons.prems True by (simp add: gb)
  next
    case False
    let ?seg = "fst (Segment_build L b gl)" and ?gl = "snd (Segment_build L b gl)"
    let ?n = "push_segment g ?seg nov"
    have b: "list_all ordered_flake b" "length b \<le> MAX_SEGMENT_FLAKES"
      using Cons.prems(2) by (simp_all add: gb)
    have wf: "graphs_wf L (nv_graphs ?n)"
      using Cons.prems(3,4) by (intro push_segment_wf build_wf [OF assms(1) b False]) (simp_all add: gb)
    have same: "segment_count ?n h = segment_count nov h" if "h \<noteq> g" for h
      using that push_segment_segs [of g ?seg nov h] by (simp add: segment_count_def push_segment_def Let_def word_unat_eq_iff)
    have cnt: "\<forall>h\<in>fst ` set r. segment_count ?n h < MAX_SEGMENTS"
    proof
      fix h
      assume h: "h \<in> fst ` set r"
      then have "h \<noteq> g"
        using Cons.prems(1) by (auto simp: gb)
      then show "segment_count ?n h < MAX_SEGMENTS"
        using Cons.prems(3) h same [of h] by (auto simp: gb)
    qed
    have "push_groups L r ?n ?gl = (nov', gl')"
      using Cons.prems(6) False by (simp add: gb case_prod_beta Let_def)
    from Cons.IH [OF _ _ cnt wf push_segment_totals [OF Cons.prems(5)] this] Cons.prems(1,2)
    have "graphs_wf L (nv_graphs nov') \<and> totals_ok nov' \<and> nv_fact_state nov' = nv_fact_state nov \<and>
        nv_attachments nov' = nv_attachments nov \<and>
        (\<forall>h. graph_flakes nov' h = graph_flakes ?n h @ (case map_of r h of Some b \<Rightarrow> b | None \<Rightarrow> []))"
      by (simp add: gb)
    moreover have "map_of r g = None"
      using Cons.prems(1) by (simp add: gb map_of_eq_None_iff)
    ultimately show ?thesis
      by (simp add: gb graph_flakes_def push_segment_segs)
  qed
qed simp

section \<open>Grouping by graph\<close>

definition routed_to :: "u16 \<Rightarrow> (Flake \<times> u16) list \<Rightarrow> Flake list" where
  "routed_to g routed = map fst (filter (\<lambda>(f, h). h = g) routed)"

lemma group_fold:
  assumes "hm_wf m"
  shows "hm_wf (fold (\<lambda>(f, g). hm_push g f) routed m) \<and>
    hm_get (fold (\<lambda>(f, g). hm_push g f) routed m) h =
      (case hm_get m h of Some xs \<Rightarrow> Some (xs @ routed_to h routed)
       | None \<Rightarrow> if routed_to h routed = [] then None else Some (routed_to h routed))"
  using assms
proof (induction routed arbitrary: m)
  case (Cons fg routed)
  obtain f g where fg: "fg = (f, g)"
    by (cases fg)
  have "hm_wf (hm_push g f m)"
    using Cons.prems by (simp add: hm_push_def hm_wfs)
  from Cons.IH [OF this] show ?case
    by (auto simp: fg hm_push_def hm_simps routed_to_def split: option.split)
qed (simp add: routed_to_def split: option.split)

lemma group_by_graph_wf: "hm_wf (group_by_graph routed)"
  using group_fold [OF hm_wf_empty] by (simp add: group_by_graph_def)

lemma group_by_graph_get:
  "(case hm_get (group_by_graph routed) g of Some b \<Rightarrow> b | None \<Rightarrow> []) = routed_to g routed"
  using group_fold [OF hm_wf_empty, of routed g] by (simp add: group_by_graph_def)

lemma group_by_graph_mem: "(g, b) \<in> set (group_by_graph routed) \<Longrightarrow> b = routed_to g routed \<and> b \<noteq> []"
  using group_fold [OF hm_wf_empty, of routed g] hm_get_in_set [OF group_by_graph_wf, of routed g b]
  by (auto simp: group_by_graph_def split: if_splits)

section \<open>Applying a commit\<close>

lemma record_groups_spec:
  assumes "ordmap_laws L valid" "distinct (map fst r)" "list_all (\<lambda>(g, b). list_all ordered_flake b) r" "facts_valid valid fs"
  shows "facts_valid valid (record_groups L r fs) \<and>
    (\<forall>k. ordered_key k \<longrightarrow> fact_stamp L (record_groups L r fs) h k =
       join (best_stamp L (case map_of r h of Some b \<Rightarrow> b | None \<Rightarrow> []) k) (fact_stamp L fs h k))"
  using assms(2-4) unfolding record_groups_def
proof (induction r arbitrary: fs)
  case (Cons gb r)
  obtain g b where gb: "gb = (g, b)"
    by (cases gb)
  let ?fs = "fold (FactState_record L g) b fs"
  have b: "list_all ordered_flake b"
    using Cons.prems(2) by (simp add: gb)
  have "ordered_key (sid, sid, FV_Null, sid, None)" for sid
    by (simp add: ordered_key_def ordered_value_def)
  then have v: "facts_valid valid ?fs"
    using record_all_stamp(1) [OF assms(1) Cons.prems(3) b] by blast
  have st: "fact_stamp L ?fs h k = (if h = g then join (best_stamp L b k) (fact_stamp L fs h k) else fact_stamp L fs h k)"
    if "ordered_key k" for k
    using record_all_stamp(2) [OF assms(1) Cons.prems(3) b that] .
  have "map_of r g = None"
    using Cons.prems(1) by (simp add: gb map_of_eq_None_iff)
  then show ?case
    using Cons.IH [OF _ _ v] Cons.prems(1,2) st by (simp add: gb)
qed simp

lemma route_all_spec:
  "(case route_all rg flakes of
      Inl e \<Rightarrow> \<exists>f\<in>set flakes. resolve_flake_g_id rg f = Inl e
    | Inr routed \<Rightarrow> map fst routed = flakes \<and> (\<forall>(f, g)\<in>set routed. resolve_flake_g_id rg f = Inr g))"
  by (induction flakes) (auto split: sum.splits)

lemma check_all_spec:
  "(case check_all nov gs checked of
      Inl e \<Rightarrow> \<exists>g\<in>set gs. check_segment_capacity nov g = Some e
    | Inr c \<Rightarrow> set c = set checked \<union> set gs \<and> (\<forall>g\<in>set gs - set checked. check_segment_capacity nov g = None))"
  by (induction nov gs checked rule: check_all.induct) (auto split: sum.splits option.splits, (metis Diff_iff insert_iff)+)

lemma capacity_count: "check_segment_capacity nov g = None \<longleftrightarrow> segment_count nov g < MAX_SEGMENTS"
  by (auto simp: check_segment_capacity_def segment_count_def Let_def split: option.splits)

text \<open>The flakes of a commit that land in a graph: those the set-semantics test does not drop.\<close>

definition accepted :: "('om, 'z) novelty_lib_scheme \<Rightarrow> 'om Novelty \<Rightarrow> (Sid, u16) hashmap \<Rightarrow> Flake list \<Rightarrow> u16 \<Rightarrow> Flake list" where
  "accepted L nov rg flakes g =
    filter (\<lambda>f. resolve_flake_g_id rg f = Inr g \<and> \<not> (fl_op f \<and> is_asserted L (nv_fact_state nov) g f)) flakes"

lemma routed_accepted:
  assumes "map fst routed = flakes" "\<forall>(f, g)\<in>set routed. resolve_flake_g_id rg f = Inr g"
  shows "routed_to g (keep_routed L (nv_fact_state nov) routed) = accepted L nov rg flakes g"
  using assms
  by (induction routed arbitrary: flakes) (auto simp: routed_to_def keep_routed_def accepted_def)

text \<open>What \<open>apply_commit\<close> does once routing and capacity are settled.\<close>

lemma apply_commit_Ok:
  assumes "apply_commit L flakes commit_t rg nov gl = (None, nov', gl')" "flakes \<noteq> []"
  obtains routed nov1 gl1 where "length flakes \<le> MAX_SEGMENT_FLAKES" "map fst routed = flakes"
    "\<forall>(f, g)\<in>set routed. resolve_flake_g_id rg f = Inr g" "\<forall>g\<in>snd ` set routed. segment_count nov g < MAX_SEGMENTS"
    "push_groups L (group_by_graph (keep_routed L (nv_fact_state nov) routed)) nov1 gl1 = (nov', gl')"
    "nv_graphs nov1 = nv_graphs nov" "nv_size nov1 = nv_size nov" "nv_flake_count nov1 = nv_flake_count nov"
    "nv_fact_state nov1 = record_groups L (group_by_graph (keep_routed L (nv_fact_state nov) routed)) (nv_fact_state nov)"
    "forward_row_count (nv_attachments nov) = reverse_row_count (nv_attachments nov) \<Longrightarrow>
       forward_row_count (nv_attachments nov1) = reverse_row_count (nv_attachments nov1)"
    "nv_t nov1 = max (nv_t nov) commit_t"
proof -
  have len: "length flakes \<le> MAX_SEGMENT_FLAKES"
    using assms by (auto simp: apply_commit_def split: if_splits)
  then obtain routed where r: "route_all rg flakes = Inr routed"
    using assms by (auto simp: apply_commit_def split: if_splits sum.splits)
  then obtain checked where c: "check_all nov (map snd routed) [] = Inr checked"
    using assms len by (auto simp: apply_commit_def split: if_splits sum.splits)
  have rs: "map fst routed = flakes" "\<forall>(f, g)\<in>set routed. resolve_flake_g_id rg f = Inr g"
    using route_all_spec [of flakes rg] by (simp_all add: r)
  have cs: "\<forall>g\<in>snd ` set routed. segment_count nov g < MAX_SEGMENTS"
    using check_all_spec [where nov = nov and gs = "map snd routed" and checked = "[]"] by (simp add: c capacity_count)
  let ?kept = "keep_routed L (nv_fact_state nov) routed"
  let ?reif = "filter (\<lambda>f. is_reserved_reifies_predicate (fl_p f)) (map fst ?kept)"
  define nov1 where "nov1 = nov\<lparr>nv_t := max (nv_t nov) commit_t, nv_epoch := nv_epoch nov + 1,
     nv_content_version := next_content_version gl,
     nv_config_write_t := (if CONFIG_GRAPH_ID \<in> set checked then max (nv_config_write_t nov) commit_t else nv_config_write_t nov),
     nv_schema_epoch := (if list_ex (\<lambda>(f, g). is_rdfs_hierarchy_predicate (fl_p f)) ?kept then nv_schema_epoch nov + 1 else nv_schema_epoch nov),
     nv_shacl_epoch := (if list_ex (\<lambda>(f, g). is_shacl_affecting_flake f) ?kept then nv_shacl_epoch nov + 1 else nv_shacl_epoch nov),
     nv_fact_state := record_groups L (group_by_graph ?kept) (nv_fact_state nov),
     nv_attachments := (if ?reif \<noteq> [] then observe_flakes L ?reif (nv_attachments nov) else nv_attachments nov)\<rparr>"
  let ?gl1 = "gl\<lparr>next_content_version := next_content_version gl + 1\<rparr>"
  have p: "push_groups L (group_by_graph ?kept) nov1 ?gl1 = (nov', gl')"
    using assms len
    by (simp add: apply_commit_def r c Let_def refresh_content_version_def nov1_def case_prod_beta prod_eq_iff cong: if_cong del: if_split)
  show ?thesis
    by (rule that [OF len rs cs p]) (simp_all add: nov1_def observe_rows_balanced)
qed

lemma apply_commit_content:
  assumes "ordmap_laws L valid" "decimal_exact L" "novelty_wf L valid nov" "list_all ordered_flake flakes"
    "apply_commit L flakes commit_t rg nov gl = (None, nov', gl')"
  shows "novelty_wf L valid nov' \<and> (\<forall>g. graph_flakes nov' g = graph_flakes nov g @ accepted L nov rg flakes g)"
proof (cases "flakes = []")
  case True
  then show ?thesis
    using assms(3,5) by (simp add: apply_commit_def accepted_def)
next
  case False
  from apply_commit_Ok [OF assms(5) False] obtain routed nov1 gl1 where ok: "length flakes \<le> MAX_SEGMENT_FLAKES" "map fst routed = flakes"
    "\<forall>(f, g)\<in>set routed. resolve_flake_g_id rg f = Inr g" "\<forall>g\<in>snd ` set routed. segment_count nov g < MAX_SEGMENTS"
    "push_groups L (group_by_graph (keep_routed L (nv_fact_state nov) routed)) nov1 gl1 = (nov', gl')"
    "nv_graphs nov1 = nv_graphs nov" "nv_size nov1 = nv_size nov" "nv_flake_count nov1 = nv_flake_count nov"
    "nv_fact_state nov1 = record_groups L (group_by_graph (keep_routed L (nv_fact_state nov) routed)) (nv_fact_state nov)"
    "forward_row_count (nv_attachments nov) = reverse_row_count (nv_attachments nov) \<Longrightarrow>
       forward_row_count (nv_attachments nov1) = reverse_row_count (nv_attachments nov1)"
    "nv_t nov1 = max (nv_t nov) commit_t"
    by blast
  let ?r = "group_by_graph (keep_routed L (nv_fact_state nov) routed)"
  note acc = routed_accepted [OF ok(2,3), of _ L nov]
  have get: "(case map_of ?r g of Some b \<Rightarrow> b | None \<Rightarrow> []) = accepted L nov rg flakes g" for g
    using group_by_graph_get [of "keep_routed L (nv_fact_state nov) routed" g] acc by (simp add: hm_get_def)
  have dist: "distinct (map fst ?r)"
    using group_by_graph_wf by (simp add: hm_wf_def)
  have sub: "set (accepted L nov rg flakes g) \<subseteq> set flakes" "length (accepted L nov rg flakes g) \<le> length flakes" for g
    by (auto simp: accepted_def)
  have mem: "b = accepted L nov rg flakes g \<and> b \<noteq> []" if "(g, b) \<in> set ?r" for g b
    using group_by_graph_mem [OF that] acc by auto
  have ord: "list_all (\<lambda>(g, b). list_all ordered_flake b \<and> length b \<le> MAX_SEGMENT_FLAKES) ?r"
    unfolding list_all_iff
  proof (clarify, intro conjI ballI)
    fix g b f
    assume gb: "(g, b) \<in> set ?r"
    show "length b \<le> MAX_SEGMENT_FLAKES"
      using mem [OF gb] sub(2) [of g] ok(1) by (metis le_trans)
    assume "f \<in> set b"
    then show "ordered_flake f"
      using mem [OF gb] sub(1) [of g] assms(4) by (auto simp: list_all_iff)
  qed
  have wf: "graphs_wf L (nv_graphs nov1)" "totals_ok nov1" and fv: "facts_valid valid (nv_fact_state nov)" and fa: "facts_agree L nov"
    using assms(3) ok(6-8) by (simp_all add: novelty_wf_def totals_ok_def)
  have "\<forall>g\<in>fst ` set ?r. segment_count nov1 g < MAX_SEGMENTS"
  proof
    fix g
    assume "g \<in> fst ` set ?r"
    then obtain b f where "(g, b) \<in> set ?r" "f \<in> set (routed_to g (keep_routed L (nv_fact_state nov) routed))"
      using group_by_graph_mem by fastforce
    then have "g \<in> snd ` set routed"
      by (force simp: routed_to_def keep_routed_def)
    then show "segment_count nov1 g < MAX_SEGMENTS"
      using bspec [OF ok(4)] ok(6) by (simp add: segment_count_def)
  qed
  note push = push_groups_spec [OF assms(2) dist ord this wf ok(5)]
  have cont: "graph_flakes nov' g = graph_flakes nov g @ accepted L nov rg flakes g" for g
    using push get ok(6) by (simp add: graph_flakes_def graph_segs_def)
  have "list_all (\<lambda>(g, b). list_all ordered_flake b) ?r"
    using ord by (auto simp: list_all_iff)
  note rec = record_groups_spec [OF assms(1) dist this fv]
  have "facts_agree L nov'"
    unfolding facts_agree_def
  proof (intro allI impI)
    fix g k
    assume k: "ordered_key k"
    have "fact_stamp L (nv_fact_state nov') g k = join (best_stamp L (accepted L nov rg flakes g) k) (best_stamp L (graph_flakes nov g) k)"
    proof -
      have "fact_stamp L (record_groups L ?r (nv_fact_state nov)) g k =
          join (best_stamp L (accepted L nov rg flakes g) k) (fact_stamp L (nv_fact_state nov) g k)"
        using rec [of g] k unfolding get by blast
      moreover have "fact_stamp L (nv_fact_state nov) g k = best_stamp L (graph_flakes nov g) k"
        using fa k unfolding facts_agree_def by blast
      ultimately show ?thesis
        using push ok(9) by simp
    qed
    then show "fact_stamp L (nv_fact_state nov') g k = best_stamp L (graph_flakes nov' g) k"
      by (simp add: cont best_stamp_append join_commute)
  qed
  then show ?thesis
    using push cont rec ok(9,10) assms(3) by (simp add: novelty_wf_def)
qed

lemma apply_commit_error: "apply_commit L flakes commit_t rg nov gl = (Some e, nov', gl') \<Longrightarrow> nov' = nov \<and> gl' = gl"
  by (auto simp: apply_commit_def Let_def case_prod_beta split: if_splits sum.splits)

lemma push_groups_t: "nv_t (fst (push_groups L r nov gl)) = nv_t nov"
proof (induction r arbitrary: nov gl)
  case (Cons gb r)
  have "nv_t (push_segment g seg nov) = nv_t nov" for g seg
    by (simp add: push_segment_def Let_def)
  then show ?case
    by (cases gb) (simp add: Cons case_prod_beta)
qed simp

lemma apply_commit_t:
  assumes "apply_commit L flakes commit_t rg nov gl = (None, nov', gl')" "flakes \<noteq> []"
  shows "nv_t nov' = max (nv_t nov) commit_t \<and> (\<forall>f\<in>set flakes. \<exists>g. resolve_flake_g_id rg f = Inr g)"
proof -
  have "\<exists>routed nov1 gl1 kept. map fst routed = flakes \<and> (\<forall>(f, g)\<in>set routed. resolve_flake_g_id rg f = Inr g) \<and>
      push_groups L (group_by_graph kept) nov1 gl1 = (nov', gl') \<and> nv_t nov1 = max (nv_t nov) commit_t"
    by (rule apply_commit_Ok [OF assms]) (intro exI conjI)
  then obtain routed nov1 gl1 kept where ok: "map fst routed = flakes" "\<forall>(f, g)\<in>set routed. resolve_flake_g_id rg f = Inr g"
      "push_groups L (group_by_graph kept) nov1 gl1 = (nov', gl')" "nv_t nov1 = max (nv_t nov) commit_t"
    by (elim exE conjE)
  have "nv_t nov' = max (nv_t nov) commit_t"
    using push_groups_t [of L "group_by_graph kept" nov1 gl1] by (simp add: ok(3,4))
  moreover have "\<forall>f\<in>fst ` set routed. \<exists>g. resolve_flake_g_id rg f = Inr g"
    using ok(2) by auto
  ultimately show ?thesis
    unfolding ok(1) [symmetric] by simp
qed

section \<open>The dry run\<close>

lemma can_apply_loop_None:
  "can_apply_loop nov rg flakes checked = None \<longleftrightarrow>
    (\<forall>f\<in>set flakes. \<exists>g. resolve_flake_g_id rg f = Inr g \<and> (g \<in> set checked \<or> check_segment_capacity nov g = None))"
  by (induction nov rg flakes checked rule: can_apply_loop.induct) (auto split: sum.splits option.splits)

lemma route_all_iff: "(\<exists>r. route_all rg flakes = Inr r) \<longleftrightarrow> (\<forall>f\<in>set flakes. \<exists>g. resolve_flake_g_id rg f = Inr g)"
  by (induction flakes) (auto split: sum.splits)

lemma check_all_iff:
  "(\<exists>c. check_all nov gs checked = Inr c) \<longleftrightarrow> (\<forall>g\<in>set gs. g \<in> set checked \<or> check_segment_capacity nov g = None)"
  by (induction nov gs checked rule: check_all.induct) (auto split: option.splits)

lemma can_apply_exact: "fst (apply_commit L flakes commit_t rg nov gl) = None \<longleftrightarrow> can_apply nov flakes rg = None"
proof (cases "flakes = [] \<or> length flakes > MAX_SEGMENT_FLAKES")
  case True
  then show ?thesis
    by (auto simp: apply_commit_def can_apply_def)
next
  case False
  show ?thesis
  proof (cases "route_all rg flakes")
    case (Inl e)
    then have "\<not> (\<forall>f\<in>set flakes. \<exists>g. resolve_flake_g_id rg f = Inr g)"
      using route_all_iff [of rg flakes] by auto
    then show ?thesis
      using False by (auto simp: apply_commit_def can_apply_def Inl can_apply_loop_None)
  next
    case (Inr routed)
    have r: "map fst routed = flakes" "\<forall>(f, g)\<in>set routed. resolve_flake_g_id rg f = Inr g"
      using route_all_spec [of flakes rg] by (simp_all add: Inr)
    have "fst (apply_commit L flakes commit_t rg nov gl) = None \<longleftrightarrow> (\<exists>c. check_all nov (map snd routed) [] = Inr c)"
      using False by (cases "check_all nov (map snd routed) []") (simp_all add: apply_commit_def Inr Let_def case_prod_beta)
    also have "\<dots> \<longleftrightarrow> (\<forall>(f, g)\<in>set routed. check_segment_capacity nov g = None)"
      unfolding check_all_iff by auto
    also have "\<dots> \<longleftrightarrow> can_apply_loop nov rg flakes [] = None"
    proof -
      have "(\<exists>h. resolve_flake_g_id rg (fst x) = Inr h \<and> check_segment_capacity nov h = None) \<longleftrightarrow> check_segment_capacity nov (snd x) = None"
        if "x \<in> set routed" for x
        using bspec [OF r(2) that] by (simp add: case_prod_beta)
      then show ?thesis
        unfolding can_apply_loop_None r(1) [symmetric] by (simp add: case_prod_beta)
    qed
    finally show ?thesis
      using False by (simp add: can_apply_def)
  qed
qed

end
