(* ===== verification/NoveltyCompact.thy ===== *)
theory NoveltyCompact
  imports NoveltyInvariants
begin

text \<open>
  Tiered compaction and clearing: both rebuild segments, keep the invariant, and change the content of
  a graph only as announced (compaction not at all, clearing by dropping the flakes up to the cutoff).
\<close>

section \<open>Chunks\<close>

lemma build_chunks_wf:
  assumes "decimal_exact L" "list_all ordered_flake flakes" "flakes \<noteq> []"
  shows "list_all (segment_wf L) (fst (build_chunks L flakes gl)) \<and> fst (build_chunks L flakes gl) \<noteq> [] \<and>
    (length (fst (build_chunks L flakes gl)) - 1) * MAX_SEGMENT_FLAKES < length flakes"
  using assms
proof (induction L flakes gl rule: build_chunks.induct)
  case (1 L flakes gl)
  show ?case
  proof (cases "length flakes > MAX_SEGMENT_FLAKES")
    case True
    let ?h = "take MAX_SEGMENT_FLAKES flakes" and ?t = "drop MAX_SEGMENT_FLAKES flakes"
    let ?s = "fst (Segment_build L ?h gl)" and ?gl = "snd (Segment_build L ?h gl)"
    have t: "?t \<noteq> []" "list_all ordered_flake ?t" "?h \<noteq> []" "list_all ordered_flake ?h"
      using True "1.prems" by (auto simp: list_all_iff dest: in_set_takeD in_set_dropD)
    have IH: "list_all (segment_wf L) (fst (build_chunks L ?t ?gl)) \<and> fst (build_chunks L ?t ?gl) \<noteq> [] \<and>
        (length (fst (build_chunks L ?t ?gl)) - 1) * MAX_SEGMENT_FLAKES < length ?t"
      using "1.IH" [OF True refl _ "1.prems"(1) t(2,1), of ?s ?gl] by (simp add: prod_eq_iff)
    have s: "segment_wf L ?s"
      by (rule build_wf [OF "1.prems"(1) t(4) _ t(3)]) simp
    have e: "fst (build_chunks L flakes gl) = ?s # fst (build_chunks L ?t ?gl)"
      using True by (subst build_chunks.simps) (simp add: Let_def case_prod_beta)
    have "length (fst (build_chunks L ?t ?gl)) * MAX_SEGMENT_FLAKES < length flakes"
      using IH True by (cases "fst (build_chunks L ?t ?gl)") (auto simp: algebra_simps)
    then show ?thesis
      using IH s by (simp add: e)
  next
    case False
    then have "fst (build_chunks L flakes gl) = [fst (Segment_build L flakes gl)]"
      by (subst build_chunks.simps) (simp add: Let_def case_prod_beta)
    then show ?thesis
      using build_wf [OF "1.prems"(1,2) _ "1.prems"(3)] False "1.prems"(3) by simp
  qed
qed

lemma tier_take_spec:
  assumes "list_all (segment_wf L) segs" "tier_take w c m segs = (keep, flakes)"
  shows "set keep \<subseteq> set segs \<and> list_all ordered_flake flakes \<and> length keep \<le> length segs \<and>
    length flakes \<le> (length segs - length keep) * MAX_SEGMENT_FLAKES \<and>
    (m < w \<longrightarrow> c \<in> seg_class w ` set segs \<longrightarrow> length keep < length segs \<and> flakes \<noteq> [])"
  using assms
proof (induction w c m segs arbitrary: keep flakes rule: tier_take.induct)
  case (2 w c m seg segs)
  have seg: "segment_wf L seg"
    using "2.prems"(1) by simp
  then have sl: "sg_flakes seg \<noteq> []" "length (sg_flakes seg) \<le> MAX_SEGMENT_FLAKES" "list_all ordered_flake (sg_flakes seg)"
    by (simp_all add: segment_wf_def)
  show ?case
  proof (cases "m < w \<and> seg_class w seg = c")
    case True
    obtain k fl where r: "tier_take w c (m + 1) segs = (k, fl)"
      by fastforce
    have e: "keep = k" "flakes = sg_flakes seg @ fl"
      using "2.prems"(2) True r by auto
    have IH: "set k \<subseteq> set segs" "list_all ordered_flake fl" "length k \<le> length segs"
      "length fl \<le> (length segs - length k) * MAX_SEGMENT_FLAKES"
      using "2.IH"(1) [OF True _ r] "2.prems"(1) by simp_all
    then show ?thesis
      using sl by (auto simp: e Suc_diff_le)
  next
    case False
    obtain k fl where r: "tier_take w c m segs = (k, fl)"
      by fastforce
    have e: "keep = seg # k" "flakes = fl"
      using "2.prems"(2) False r by auto
    have IH: "set k \<subseteq> set segs \<and> list_all ordered_flake fl \<and> length k \<le> length segs \<and>
        length fl \<le> (length segs - length k) * MAX_SEGMENT_FLAKES \<and>
        (m < w \<longrightarrow> c \<in> seg_class w ` set segs \<longrightarrow> length k < length segs \<and> fl \<noteq> [])"
      using "2.IH"(2) [OF False _ r] "2.prems"(1) by simp
    then show ?thesis
      using False by (auto simp: e)
  qed
qed simp

lemma tier_merge_wf:
  assumes "decimal_exact L" "segs_wf L segs" "0 < w" "c \<in> seg_class w ` set segs"
  shows "segs_wf L (fst (tier_merge L w c segs gl))"
proof -
  obtain keep flakes where t: "tier_take w c 0 segs = (keep, flakes)"
    by fastforce
  have "list_all (segment_wf L) segs"
    using assms(2) by (simp add: segs_wf_def)
  note tt = tier_take_spec [OF this t]
  then have k: "length keep < length segs" "flakes \<noteq> []" "list_all ordered_flake flakes"
    using assms(3,4) by auto
  note ch = build_chunks_wf [OF assms(1) k(3,2), of gl]
  let ?n = "length (fst (build_chunks L flakes gl))"
  have "(?n - 1) * MAX_SEGMENT_FLAKES < (length segs - length keep) * MAX_SEGMENT_FLAKES"
    using ch tt by linarith
  then have "?n - 1 < length segs - length keep"
    by simp
  then have "length keep + ?n \<le> length segs"
    using k(1) by linarith
  moreover have "list_all (segment_wf L) keep"
    using tt assms(2) by (auto simp: segs_wf_def list_all_iff)
  ultimately show ?thesis
    using ch assms(2) by (auto simp: tier_merge_def t segs_wf_def case_prod_beta)
qed

lemma tier_compact_graph_spec:
  assumes "decimal_exact L" "segs_wf L segs" "0 < w"
  shows "segs_wf L (fst (tier_compact_graph L w segs m n gl)) \<and>
    mset (concat (map sg_flakes (fst (tier_compact_graph L w segs m n gl)))) = mset (concat (map sg_flakes segs)) \<and>
    n \<le> fst (snd (tier_compact_graph L w segs m n gl)) \<and>
    (fst (snd (tier_compact_graph L w segs m n gl)) = n \<longleftrightarrow> length segs < w \<or> target_class w segs m = None) \<and>
    (fst (snd (tier_compact_graph L w segs m n gl)) = n \<longrightarrow> tier_compact_graph L w segs m n gl = (segs, n, gl))"
  using assms
proof (induction L w segs m n gl rule: tier_compact_graph.induct)
  case (1 L w segs m n gl)
  show ?case
  proof (cases "length segs < w \<or> target_class w segs m = None")
    case True
    then have "tier_compact_graph L w segs m n gl = (segs, n, gl)"
      by (subst tier_compact_graph.simps) (auto split: option.split)
    then show ?thesis
      using "1.prems" True by simp
  next
    case False
    then obtain c where c: "target_class w segs m = Some c"
      by auto
    let ?segs = "fst (tier_merge L w c segs gl)" and ?gl = "snd (tier_merge L w c segs gl)"
    have e: "tier_compact_graph L w segs m n gl = tier_compact_graph L w ?segs (c + 1) (n + 1) ?gl"
      using False c by (subst tier_compact_graph.simps) (simp add: case_prod_beta Let_def)
    have wf: "segs_wf L ?segs"
      by (rule tier_merge_wf [OF "1.prems" target_classD(3) [OF c]])
    from "1.IH" [OF _ c refl _ "1.prems"(1) wf "1.prems"(3)] False tier_merge_flakes [of L w c segs gl] c
    show ?thesis
      unfolding e by (auto simp: prod_eq_iff)
  qed
qed

section \<open>Compaction of all graphs\<close>

definition slot_content :: "Segment list option \<Rightarrow> Flake list" where
  "slot_content s = concat (map sg_flakes (case s of Some segs \<Rightarrow> segs | None \<Rightarrow> []))"

lemma graph_flakes_slot: "graph_flakes nov g = slot_content (slot (nv_graphs nov) (unat g))"
  by (simp add: graph_flakes_def graph_segs_def slot_content_def)

definition slot_full :: "nat \<Rightarrow> Segment list option \<Rightarrow> bool" where
  "slot_full w s = (case s of Some segs \<Rightarrow> \<not> (length segs < w \<or> target_class w segs 0 = None) | None \<Rightarrow> False)"

lemma slot_full_simps [simp]: "\<not> slot_full w None" "slot_full w (Some segs) \<longleftrightarrow> w \<le> length segs \<and> target_class w segs 0 \<noteq> None"
  by (auto simp: slot_full_def)

lemma slot_list_all2:
  assumes "list_all2 P gs gs'" "P None None"
  shows "P (slot gs n) (slot gs' n)"
  using assms by (auto simp: slot_def list_all2_conv_all_nth)

lemma tier_compact_graphs_spec:
  assumes "decimal_exact L" "list_all (pred_option (segs_wf L)) gs" "0 < w" "tier_compact_graphs L w gs gl = (gs', m, gl')"
  shows "list_all (pred_option (segs_wf L)) gs' \<and> list_all2 (\<lambda>s s'. mset (slot_content s') = mset (slot_content s)) gs gs' \<and>
    (m = 0 \<longleftrightarrow> \<not> list_ex (slot_full w) gs) \<and> (m = 0 \<longrightarrow> gs' = gs \<and> gl' = gl)"
  using assms(2,4)
proof (induction gs arbitrary: gl gs' m gl')
  case (Cons s gs)
  show ?case
  proof (cases s)
    case None
    obtain gs2 m2 gl2 where r: "tier_compact_graphs L w gs gl = (gs2, m2, gl2)"
      using prod_cases3 by blast
    show ?thesis
      using Cons.IH [OF _ r] Cons.prems None r by auto
  next
    case (Some segs)
    obtain segs1 k gl1 where c: "tier_compact_graph L w segs 0 0 gl = (segs1, k, gl1)"
      using prod_cases3 by blast
    obtain gs2 m2 gl2 where r: "tier_compact_graphs L w gs gl1 = (gs2, m2, gl2)"
      using prod_cases3 by blast
    have e: "gs' = Some segs1 # gs2" "m = k + m2" "gl' = gl2"
      using Cons.prems(2) Some c r by simp_all
    have "segs_wf L segs"
      using Cons.prems(1) Some by simp
    note g = tier_compact_graph_spec [OF assms(1) this assms(3), of 0 0 gl, unfolded c]
    show ?thesis
      using Cons.IH [OF _ r] Cons.prems(1) g by (auto simp: e Some slot_content_def)
  qed
qed simp

lemma totals_recompute [simp]: "totals_ok (recompute_totals nov)"
  by (simp add: totals_ok_def recompute_totals_def total_flakes_def)

lemma recompute_other [simp]: "nv_graphs (recompute_totals nov) = nv_graphs nov" "nv_fact_state (recompute_totals nov) = nv_fact_state nov"
  "nv_attachments (recompute_totals nov) = nv_attachments nov"
  by (simp_all add: recompute_totals_def)

lemma refresh_other [simp]: "nv_graphs (fst (refresh_content_version nov gl)) = nv_graphs nov"
  "nv_fact_state (fst (refresh_content_version nov gl)) = nv_fact_state nov"
  "nv_attachments (fst (refresh_content_version nov gl)) = nv_attachments nov"
  "totals_ok (fst (refresh_content_version nov gl)) = totals_ok nov"
  by (simp_all add: refresh_content_version_def totals_ok_def)

lemma target_class_None:
  "target_class w segs m = None \<longleftrightarrow> \<not> (\<exists>seg\<in>set segs. m \<le> seg_class w seg \<and> w \<le> class_count w segs (seg_class w seg))"
proof -
  have "target_class w segs m = None \<longleftrightarrow> filter (\<lambda>c. c \<ge> m \<and> class_count w segs c \<ge> w) (map (seg_class w) segs) = []"
    by (simp add: target_class_def split: list.split)
  then show ?thesis
    by (auto simp: filter_empty_conv)
qed

lemma needs_tier_compaction_full: "2 \<le> w \<Longrightarrow> needs_tier_compaction nov w \<longleftrightarrow> list_ex (slot_full w) (nv_graphs nov)"
  unfolding needs_tier_compaction_def
  by (auto simp: slot_full_def target_class_None list_ex_iff not_less split: option.splits)

theorem tier_compact_spec:
  assumes "decimal_exact L" "novelty_wf L valid nov" "tier_compact L w nov gl = (merges, nov', gl')"
  shows "novelty_wf L valid nov' \<and> (\<forall>g. mset (graph_flakes nov' g) = mset (graph_flakes nov g)) \<and>
    (0 < merges \<longleftrightarrow> needs_tier_compaction nov w) \<and> (merges = 0 \<longrightarrow> nov' = nov \<and> gl' = gl)"
proof (cases "w < 2")
  case True
  then show ?thesis
    using assms by (auto simp: tier_compact_def needs_tier_compaction_def)
next
  case False
  obtain gs m gl1 where t: "tier_compact_graphs L w (nv_graphs nov) gl = (gs, m, gl1)"
    using prod_cases3 by blast
  have wf: "list_all (pred_option (segs_wf L)) (nv_graphs nov)" "length (nv_graphs nov) \<le> 2 ^ 16"
    using assms(2) by (simp_all add: novelty_wf_def graphs_wf_def)
  note sp = tier_compact_graphs_spec [OF assms(1) wf(1) _ t]
  have w: "0 < w"
    using False by simp
  have m: "merges = m" "nv_graphs nov' = gs" "nv_fact_state nov' = nv_fact_state nov" "nv_attachments nov' = nv_attachments nov"
    using assms(3) False sp [OF w] by (auto simp: tier_compact_def t Let_def refresh_content_version_def split: if_splits)
  have same: "m = 0 \<Longrightarrow> nov' = nov \<and> gl' = gl"
    using assms(3) False sp [OF w] by (auto simp: tier_compact_def t Let_def)
  have cont: "mset (graph_flakes nov' g) = mset (graph_flakes nov g)" for g
    unfolding graph_flakes_slot m(2) using sp [OF w] by (intro slot_list_all2 [of "\<lambda>s s'. mset (slot_content s') = mset (slot_content s)"]) simp_all
  have "length gs = length (nv_graphs nov)"
    using sp [OF w] by (metis list_all2_lengthD)
  then have gw: "graphs_wf L (nv_graphs nov')"
    using sp [OF w] wf(2) by (simp add: m graphs_wf_def)
  have tot: "totals_ok nov'"
    using assms(2,3) False same by (cases "m = 0") (auto simp: tier_compact_def t Let_def novelty_wf_def refresh_content_version_def totals_ok_def recompute_totals_def total_flakes_def)
  have "facts_agree L nov'"
    using assms(2) best_stamp_mset [OF cont] unfolding novelty_wf_def facts_agree_def m(3) by metis
  moreover have "0 < merges \<longleftrightarrow> needs_tier_compaction nov w"
    using sp [OF w] needs_tier_compaction_full [of w nov] False by (auto simp: m)
  ultimately show ?thesis
    using assms(2) gw tot cont same by (simp add: novelty_wf_def m)
qed

section \<open>Size classes\<close>

lemma size_class_loop_log:
  assumes "2 \<le> w" "w ^ c \<le> n" "n < 2 ^ 64" "bound = w ^ (c + 1)"
  shows "w ^ size_class_loop n w bound c \<le> n \<and> n < w ^ (size_class_loop n w bound c + 1)"
  using assms
proof (induction n w bound c rule: size_class_loop.induct)
  case (1 n w bound c)
  have b: "0 < bound"
    using "1.prems"(1,4) by simp
  show ?case
  proof (cases "n < bound")
    case True
    then have "size_class_loop n w bound c = c"
      by (subst size_class_loop.simps) simp
    then show ?thesis
      using "1.prems" True by simp
  next
    case False
    show ?thesis
    proof (cases "bound * w < 2 ^ 64")
      case True
      then have "size_class_loop n w bound c = size_class_loop n w (bound * w) (c + 1)"
        using False "1.prems"(1) b by (subst size_class_loop.simps) simp
      then show ?thesis
        using "1.IH" [OF _ True] False "1.prems" b by (simp add: mult.commute)
    next
      case stop: False
      then have "size_class_loop n w bound c = c + 1"
        using False "1.prems"(1) b by (subst size_class_loop.simps) simp
      moreover have "n < w ^ (c + 2)"
        using stop "1.prems"(3,4) by (simp add: algebra_simps)
      ultimately show ?thesis
        using False "1.prems"(4) by simp
    qed
  qed
qed

lemma size_class_log:
  assumes "2 \<le> w" "1 \<le> n" "n < 2 ^ 64"
  shows "w ^ size_class_of n w \<le> n \<and> n < w ^ (size_class_of n w + 1)"
proof (cases "n = 1")
  case False
  then show ?thesis
    using assms size_class_loop_log [of w 0 n w] by (simp add: size_class_of_def)
qed (use assms in \<open>simp add: size_class_of_def\<close>)

lemma size_class_unique:
  assumes "2 \<le> w" "w ^ k \<le> n" "n < w ^ (k + 1)" "n < 2 ^ 64"
  shows "size_class_of n w = k"
proof -
  have n: "1 \<le> n"
    using assms(1,2) by (metis One_nat_def Suc_leI le_trans nat_zero_less_power_iff not_numeral_le_zero zero_less_iff_neq_zero)
  note l = size_class_log [OF assms(1) n assms(4)]
  have "w ^ k < w ^ (size_class_of n w + 1)" "w ^ size_class_of n w < w ^ (k + 1)"
    using l assms(2,3) by linarith+
  then have "k < size_class_of n w + 1" "size_class_of n w < k + 1"
    using assms(1) power_less_imp_less_exp [of w k "size_class_of n w + 1"] power_less_imp_less_exp [of w "size_class_of n w" "k + 1"]
    by linarith+
  then show ?thesis
    by simp
qed

theorem size_class_merge:
  assumes "2 \<le> w" "length ns = w" "\<forall>n\<in>set ns. 1 \<le> n \<and> size_class_of n w = k" "sum_list ns < 2 ^ 64"
  shows "size_class_of (sum_list ns) w = k + 1"
proof (rule size_class_unique [OF assms(1) _ _ assms(4)])
  have b: "w ^ k \<le> n \<and> n < w ^ (k + 1)" if "n \<in> set ns" for n
  proof -
    have "n < 2 ^ 64"
      using member_le_sum_list [OF that] assms(4) by linarith
    then show ?thesis
      using size_class_log [OF assms(1), of n] assms(3) that by auto
  qed
  have lo: "length xs * w ^ k \<le> sum_list xs" if "set xs \<subseteq> set ns" for xs
    using that b by (induction xs) (auto simp: add_mono)
  have hi: "set xs \<subseteq> set ns \<Longrightarrow> sum_list xs \<le> length xs * (w ^ (k + 1) - 1)" for xs
  proof (induction xs)
    case (Cons x xs)
    then have "x \<le> w ^ (k + 1) - 1" "sum_list xs \<le> length xs * (w ^ (k + 1) - 1)"
      using b [of x] by auto
    then show ?case
      by simp
  qed simp
  show "w ^ (k + 1) \<le> sum_list ns"
    using lo [of ns] assms(2) by simp
  have "0 < w ^ (k + 1)"
    using assms(1) by simp
  then have "w * (w ^ (k + 1) - 1) < w * w ^ (k + 1)"
    using assms(1) by simp
  also have "\<dots> = w ^ (k + 1 + 1)"
    by simp
  finally show "sum_list ns < w ^ (k + 1 + 1)"
    using hi [of ns] assms(2) by (meson le_less_trans order_refl)
qed

section \<open>Clearing\<close>

lemma clear_segments_spec:
  assumes "decimal_exact L" "list_all (segment_wf L) segs" "clear_segments L c segs gl = (kept, gl')"
  shows "list_all (segment_wf L) kept \<and> length kept \<le> length segs \<and>
    concat (map sg_flakes kept) = filter (\<lambda>f. c < flake_t f) (concat (map sg_flakes segs))"
  using assms
proof (induction L c segs gl arbitrary: kept gl' rule: clear_segments.induct)
  case (2 L c seg segs gl)
  let ?F = "filter (\<lambda>f. c < flake_t f) (sg_flakes seg)"
  have wf: "segment_wf L seg" "list_all (segment_wf L) segs"
    using "2.prems"(2) by simp_all
  then have mx: "sg_max_t seg = Max (flake_t ` set (sg_flakes seg))" "sg_min_t seg = Min (flake_t ` set (sg_flakes seg))"
    "sg_flakes seg \<noteq> []" "list_all ordered_flake (sg_flakes seg)" "length (sg_flakes seg) \<le> MAX_SEGMENT_FLAKES"
    by (simp_all add: segment_wf_def)
  obtain k gl2 where r: "clear_segments L c segs gl = (k, gl2)"
    by fastforce
  consider "sg_max_t seg \<le> c" | "\<not> sg_max_t seg \<le> c" "c < sg_min_t seg"
    | "\<not> sg_max_t seg \<le> c" "\<not> c < sg_min_t seg"
    by blast
  then show ?case
  proof cases
    case 1
    then have "?F = []"
      using mx(1,3) by (auto simp: filter_empty_conv Max_le_iff)
    moreover have "clear_segments L c segs gl = (kept, gl')"
      using "2.prems"(3) 1 by simp
    ultimately show ?thesis
      using "2.IH"(1) [OF 1 "2.prems"(1) wf(2)] by simp
  next
    case 2
    then have "?F = sg_flakes seg"
      using mx(2,3) by (auto simp: filter_id_conv Min_gr_iff)
    moreover have "kept = seg # k"
      using "2.prems"(3) 2 r by simp
    ultimately show ?thesis
      using "2.IH"(2) [OF 2 "2.prems"(1) wf(2) r] wf(1) by simp
  next
    case 3
    have ne: "?F \<noteq> []"
      using 3 mx(1,3) by (auto simp: filter_empty_conv Max_le_iff not_less)
    let ?s = "fst (Segment_build L ?F gl)" and ?gl = "snd (Segment_build L ?F gl)"
    obtain k2 gl3 where r2: "clear_segments L c segs ?gl = (k2, gl3)"
      by fastforce
    have "kept = ?s # k2"
      using "2.prems"(3) 3 ne r2 by (simp add: Let_def case_prod_beta)
    moreover have "segment_wf L ?s"
    proof (rule build_wf [OF "2.prems"(1) _ _ ne])
      show "list_all ordered_flake ?F"
        using mx(4) by (auto simp: list_all_iff)
      show "length ?F \<le> MAX_SEGMENT_FLAKES"
        using mx(5) le_trans [OF length_filter_le] by blast
    qed
    moreover have "list_all (segment_wf L) k2 \<and> length k2 \<le> length segs \<and>
        concat (map sg_flakes k2) = filter (\<lambda>f. c < flake_t f) (concat (map sg_flakes segs))"
      using "2.IH"(3) [OF 3 refl ne _ refl "2.prems"(1) wf(2) r2, of ?s] by (simp add: prod_eq_iff)
    ultimately show ?thesis
      by simp
  qed
qed simp

end
