(* ===== verification/NoveltyClear.thy ===== *)
theory NoveltyClear
  imports NoveltyCompact
begin

text \<open>
  \<open>clear_up_to\<close>: it never panics, the content of a graph is what lies above the cutoff, and the fact
  state is rebuilt from what a SPOT read of the survivors returns.
\<close>

lemma clear_graphs_spec:
  assumes "decimal_exact L" "list_all (pred_option (segs_wf L)) gs" "clear_graphs L c gs gl = (gs', gl')"
  shows "list_all (pred_option (segs_wf L)) gs' \<and>
    list_all2 (\<lambda>s s'. slot_content s' = filter (\<lambda>f. c < flake_t f) (slot_content s)) gs gs'"
  using assms(2,3)
proof (induction gs arbitrary: gl gs' gl')
  case (Cons s gs)
  show ?case
  proof (cases s)
    case None
    obtain gs2 gl2 where r: "clear_graphs L c gs gl = (gs2, gl2)"
      by fastforce
    show ?thesis
      using Cons.IH [OF _ r] Cons.prems None r by (auto simp: slot_content_def)
  next
    case (Some segs)
    obtain kept gl1 where k: "clear_segments L c segs gl = (kept, gl1)"
      by fastforce
    obtain gs2 gl2 where r: "clear_graphs L c gs gl1 = (gs2, gl2)"
      by fastforce
    have wf: "segs_wf L segs"
      using Cons.prems(1) Some by simp
    then have "list_all (segment_wf L) segs"
      by (simp add: segs_wf_def)
    note ks = clear_segments_spec [OF assms(1) this k]
    then have "kept \<noteq> [] \<Longrightarrow> segs_wf L kept"
      using wf by (simp add: segs_wf_def)
    moreover have "gs' = (if kept = [] then None else Some kept) # gs2"
      using Cons.prems(2) Some k r by simp
    ultimately show ?thesis
      using Cons.IH [OF _ r] Cons.prems(1) ks Some by (auto simp: slot_content_def)
  qed
qed simp

lemma unat_of_nat_u16: "n < 2 ^ 16 \<Longrightarrow> unat (of_nat n :: u16) = n"
  by (simp add: unat_of_nat)

lemma rebuild_facts_spec:
  assumes "ordmap_laws L valid" "decimal_exact L" "graphs_wf L (nv_graphs nov)" "g < length (nv_graphs nov)" "facts_valid valid fs"
  shows "\<exists>fs'. rebuild_facts L nov g fs = Some fs' \<and> facts_valid valid fs' \<and>
    (\<forall>h k. ordered_key k \<longrightarrow> fact_stamp L fs' h k =
       (if unat h = g then join (best_stamp L (graph_flakes nov h) k) (fact_stamp L fs h k) else fact_stamp L fs h k))"
proof -
  let ?g = "of_nat g :: u16"
  have g: "unat ?g = g"
    using assms(3,4) by (intro unat_of_nat_u16) (simp add: graphs_wf_def)
  have hg: "unat h = g \<longleftrightarrow> h = ?g" for h :: u16
    using g by (metis word_unat_eq_iff)
  show ?thesis
  proof (cases "slot (nv_graphs nov) g")
    case None
    have "graph_flakes nov h = []" if "unat h = g" for h
      using None that by (simp add: graph_flakes_def graph_segs_def)
    then show ?thesis
      using assms(5) None by (simp add: rebuild_facts_def)
  next
    case (Some segs)
    have ne: "segs \<noteq> []"
      using graphs_wf_slot [OF assms(3) Some] by (simp add: segs_wf_def)
    have "ordered_bounds None None"
      by (simp add: ordered_bounds_def)
    from read_spec [OF assms(2,3) this, of ?g Spot True] obtain flakes ids where
      rd: "read_ids L nov ?g Spot None None True = Some ids" "range_read L Spot None None True (graph_flakes nov ?g) flakes"
        "those (map (get_flake nov) ids) = Some flakes"
      by blast
    have "filter (in_range L Spot None None True) (graph_flakes nov ?g) = graph_flakes nov ?g"
      by (rule filter_True) (simp add: in_range_def)
    then have ms: "mset flakes = mset (graph_flakes nov ?g)"
      using rd(2) by (simp add: range_read_def)
    then have "list_all ordered_flake flakes"
      using graph_flakes_ordered [OF assms(3), of ?g] by (simp add: list_all_iff mset_eq_setD [OF ms])
    note rec = record_all_stamp [OF assms(1,5) this]
    have v: "facts_valid valid (fold (FactState_record L ?g) flakes fs)"
      using rec(1) [of "(undefined, undefined, FV_Null, undefined, None)"] by (simp add: ordered_key_def ordered_value_def)
    have "rebuild_facts L nov g fs = Some (fold (FactState_record L ?g) flakes fs)"
      using Some ne rd(1,3) by (simp add: rebuild_facts_def slice_for_range_def)
    moreover have "fact_stamp L (fold (FactState_record L ?g) flakes fs) h k =
        (if unat h = g then join (best_stamp L (graph_flakes nov h) k) (fact_stamp L fs h k) else fact_stamp L fs h k)"
      if "ordered_key k" for h k
      using rec(2) [OF that, of ?g h] best_stamp_mset [OF ms, of L k] by (simp add: hg)
    ultimately show ?thesis
      using v by blast
  qed
qed

lemma rebuild_all_spec:
  assumes "ordmap_laws L valid" "decimal_exact L" "graphs_wf L (nv_graphs nov)" "facts_valid valid fs"
    "set gs \<subseteq> {..<length (nv_graphs nov)}" "distinct gs"
  shows "\<exists>fs'. rebuild_all L nov gs fs = Some fs' \<and> facts_valid valid fs' \<and>
    (\<forall>h k. ordered_key k \<longrightarrow> fact_stamp L fs' h k =
       (if unat h \<in> set gs then join (best_stamp L (graph_flakes nov h) k) (fact_stamp L fs h k) else fact_stamp L fs h k))"
  using assms(4-6)
proof (induction gs arbitrary: fs)
  case (Cons g gs)
  have g: "g < length (nv_graphs nov)"
    using Cons.prems(2) by simp
  from rebuild_facts_spec [OF assms(1-3) g Cons.prems(1)] obtain fs1 where
    r1: "rebuild_facts L nov g fs = Some fs1" "facts_valid valid fs1"
      "\<forall>h k. ordered_key k \<longrightarrow> fact_stamp L fs1 h k =
         (if unat h = g then join (best_stamp L (graph_flakes nov h) k) (fact_stamp L fs h k) else fact_stamp L fs h k)"
    by blast
  from Cons.IH [OF r1(2)] Cons.prems(2,3) obtain fs2 where
    r2: "rebuild_all L nov gs fs1 = Some fs2" "facts_valid valid fs2"
      "\<forall>h k. ordered_key k \<longrightarrow> fact_stamp L fs2 h k =
         (if unat h \<in> set gs then join (best_stamp L (graph_flakes nov h) k) (fact_stamp L fs1 h k) else fact_stamp L fs1 h k)"
    by auto
  have "g \<notin> set gs"
    using Cons.prems(3) by simp
  have "fact_stamp L fs2 h k =
      (if unat h \<in> set (g # gs) then join (best_stamp L (graph_flakes nov h) k) (fact_stamp L fs h k) else fact_stamp L fs h k)"
    if k: "ordered_key k" for h k
    using r1(3) [rule_format, OF k, of h] r2(3) [rule_format, OF k, of h] \<open>g \<notin> set gs\<close> by auto
  then show ?case
    using r1(1) r2(1,2) by auto
qed auto

lemma live_segments_slot: "Some segs \<in> set gs \<Longrightarrow> total_flakes segs \<le> total_flakes (live_segments gs)"
  by (induction gs) (auto simp: live_segments_def total_flakes_def)

lemma graph_flakes_total: "length (graph_flakes nov g) \<le> total_flakes (live_segments (nv_graphs nov))"
proof (cases "slot (nv_graphs nov) (unat g)")
  case (Some segs)
  then show ?thesis
    using live_segments_slot [OF slot_in [OF Some]] by (simp add: graph_flakes_def graph_segs_def total_flakes_concat)
qed (simp add: graph_flakes_def graph_segs_def)

theorem clear_up_to_spec:
  assumes "ordmap_laws L valid" "decimal_exact L" "novelty_wf L valid nov"
  shows "\<exists>nov' gl'. clear_up_to L c nov gl = Some (nov', gl') \<and> novelty_wf L valid nov' \<and>
    (\<forall>g. graph_flakes nov' g = filter (\<lambda>f. c < flake_t f) (graph_flakes nov g))"
proof (cases "nv_flake_count nov = 0")
  case True
  then have "graph_flakes nov g = []" for g
    using graph_flakes_total [of nov g] assms(3) by (simp add: novelty_wf_def totals_ok_def)
  then show ?thesis
    using True assms(3) by (simp add: clear_up_to_def)
next
  case False
  obtain gs gl1 where c: "clear_graphs L c (nv_graphs nov) gl = (gs, gl1)"
    by fastforce
  have wf: "list_all (pred_option (segs_wf L)) (nv_graphs nov)" "length (nv_graphs nov) \<le> 2 ^ 16"
    using assms(3) by (simp_all add: novelty_wf_def graphs_wf_def)
  note cg = clear_graphs_spec [OF assms(2) wf(1) c]
  let ?n = "recompute_totals (nov\<lparr>nv_graphs := gs\<rparr>)"
  have len: "length gs = length (nv_graphs nov)"
    using cg by (metis list_all2_lengthD)
  have gw: "graphs_wf L (nv_graphs ?n)"
    using cg len wf(2) by (simp add: graphs_wf_def)
  have cont: "graph_flakes ?n g = filter (\<lambda>f. c < flake_t f) (graph_flakes nov g)" for g
    unfolding graph_flakes_slot recompute_other using cg
    by (intro slot_list_all2 [of "\<lambda>s s'. slot_content s' = filter (\<lambda>f. c < flake_t f) (slot_content s)"]) (simp_all add: slot_content_def)
  have "set [0 ..< length (nv_graphs ?n)] \<subseteq> {..<length (nv_graphs ?n)}"
    by auto
  from rebuild_all_spec [OF assms(1,2) gw fact_stamp_new(2) this distinct_upt] obtain fs where
    fs: "rebuild_all L ?n [0 ..< length (nv_graphs ?n)] FactState_new = Some fs" "facts_valid valid fs"
      "\<forall>h k. ordered_key k \<longrightarrow> fact_stamp L fs h k = (if unat h < length (nv_graphs ?n) then best_stamp L (graph_flakes ?n h) k else None)"
    unfolding fact_stamp_new(1) join_None set_upt atLeastLessThan_iff by (meson le0)
  let ?r = "refresh_content_version (?n\<lparr>nv_fact_state := fs, nv_epoch := nv_epoch ?n + 1\<rparr>) gl1"
  have r: "clear_up_to L c nov gl = Some (fst ?r, snd ?r)"
    using False c fs(1) by (simp add: clear_up_to_def Let_def)
  have fg: "graph_flakes (fst ?r) g = graph_flakes ?n g" for g
    by (simp add: graph_flakes_def graph_segs_def)
  have "best_stamp L (graph_flakes ?n h) k = None" if "\<not> unat h < length (nv_graphs ?n)" for h k
    using that by (simp add: graph_flakes_def graph_segs_def slot_def)
  then have "facts_agree L (fst ?r)"
    unfolding facts_agree_def fg using fs(3) by simp
  then have "novelty_wf L valid (fst ?r)"
    using gw fs(2) assms(3) totals_recompute [of "nov\<lparr>nv_graphs := gs\<rparr>"]
    by (simp add: novelty_wf_def) (simp add: totals_ok_def recompute_totals_def total_flakes_def)
  moreover have "graph_flakes (fst ?r) g = filter (\<lambda>f. c < flake_t f) (graph_flakes nov g)" for g
    unfolding fg by (rule cont)
  ultimately show ?thesis
    using r by blast
qed

end
