(* ===== verification/NoveltyBulk.thy ===== *)
theory NoveltyBulk
  imports NoveltyClear
begin

text \<open>
  Bulk loading of a fresh novelty, and its agreement with the chain of \<open>apply_commit\<close> calls it
  replaces. Both keep, of the operations on one fact, the alternating ones (\<open>alternate\<close>): every
  retraction, and an assertion unless the operation kept before it was an assertion.
\<close>

section \<open>The alternating operations of a fact\<close>

fun alternate :: "bool \<Rightarrow> Flake list \<Rightarrow> Flake list" where
  "alternate asserted [] = []"
| "alternate asserted (f # fs) = (if fl_op f \<and> asserted then alternate asserted fs else f # alternate (fl_op f) fs)"

definition last_op :: "bool \<Rightarrow> Flake list \<Rightarrow> bool" where
  "last_op a fs = (if fs = [] then a else fl_op (last fs))"

lemma alternate_snoc: "alternate a (xs @ [f]) = alternate a xs @ (if fl_op f \<and> last_op a (alternate a xs) then [] else [f])"
  by (induction xs arbitrary: a) (auto simp: last_op_def)

lemma alternate_subseq: "set (alternate a xs) \<subseteq> set xs" "sorted_wrt P xs \<Longrightarrow> sorted_wrt P (alternate a xs)"
  by (induction a xs rule: alternate.induct) auto

section \<open>Fact identity as a key\<close>

type_synonym fact_key = "(u16 \<times> str) \<times> (u16 \<times> str) \<times> (value_key \<times> u16 \<times> str) \<times> nat \<times> (nat \<times> int) \<times> nat \<times> str"

definition fact_key :: "'a value_lib_scheme \<Rightarrow> Flake \<Rightarrow> fact_key" where
  "fact_key L f = (Sid_key (fl_s f), Sid_key (fl_p f), object_key L f, meta_key (fl_m f))"

lemma Sid_key_inject: "Sid_key a = Sid_key b \<longleftrightarrow> a = b"
  by (cases a; cases b) (simp add: Sid_key_def)

lemma same_identity_key:
  "\<lbrakk>decimal_exact L; ordered_flake a; ordered_flake b\<rbrakk> \<Longrightarrow> same_identity L a b \<longleftrightarrow> fact_key L a = fact_key L b"
  by (simp add: same_identity_def cmp_object_key cmp_meta_key fact_key_def Sid_key_inject)

lemma identity_cmp_key:
  "\<lbrakk>decimal_exact L; ordered_flake a; ordered_flake b\<rbrakk> \<Longrightarrow>
     identity_cmp L a b = ord_cmp (fact_key L a, flake_t a, fl_op a) (fact_key L b, flake_t b, fl_op b)"
  by (simp add: identity_cmp_def cmp_object_key cmp_meta_key Sid_cmp_key i64_cmp_def flake_t_def fact_key_def
      then_with_ord_cmp [symmetric] then_with_assoc)

lemma identity_order: "decimal_exact L \<Longrightarrow> keyed_order (identity_cmp L) (\<lambda>f. (fact_key L f, flake_t f, fl_op f)) ordered_flake"
  by unfold_locales (simp add: identity_cmp_key)

lemma same_fact_key:
  assumes "decimal_exact L" "ordered_flake f" "ordered_flake g"
  shows "same_fact L (key_of g) f \<longleftrightarrow> fact_key L f = fact_key L g"
proof -
  have "(case (fl_m f, fl_m g) of (None, None) \<Rightarrow> Equal | (None, Some _) \<Rightarrow> Less | (Some _, None) \<Rightarrow> Greater
      | (Some x, Some y) \<Rightarrow> FlakeMeta_cmp x y) = cmp_meta f g"
    by (simp add: cmp_meta_def)
  then show ?thesis
    using assms
    by (simp add: same_fact_def FactKey_cmp_def key_of_def Sid_cmp_key FlakeValue_cmp_key ordered_flake_def cmp_meta_key
        then_with_ord_cmp fact_key_def object_key_def)
qed

section \<open>The walk over the sorted flakes\<close>

lemma dedup_walk_filter:
  assumes "decimal_exact L" "list_all ordered_flake (prev # fs)" "sorted (map (fact_key L) (prev # fs))"
  shows "filter (\<lambda>f. fact_key L f = k) (dedup_walk L prev a fs) =
    alternate (k = fact_key L prev \<and> a) (filter (\<lambda>f. fact_key L f = k) fs)"
  using assms(2,3)
proof (induction fs arbitrary: prev a)
  case (Cons f fs)
  have f: "same_identity L prev f \<longleftrightarrow> fact_key L prev = fact_key L f"
    using Cons.prems(1) by (simp add: same_identity_key [OF assms(1)])
  have IHf: "filter (\<lambda>f. fact_key L f = k) (dedup_walk L f b fs) =
      alternate (k = fact_key L f \<and> b) (filter (\<lambda>f. fact_key L f = k) fs)" for b
    using Cons.IH [of f b] Cons.prems by simp
  have IHp: "filter (\<lambda>f. fact_key L f = k) (dedup_walk L prev b fs) =
      alternate (k = fact_key L prev \<and> b) (filter (\<lambda>f. fact_key L f = k) fs)" for b
    using Cons.IH [of prev b] Cons.prems by simp
  show ?case
  proof (cases "fact_key L prev = fact_key L f")
    case True
    then show ?thesis
      using IHf IHp by (cases "k = fact_key L f") (auto simp: f)
  next
    case False
    then have "fact_key L prev < fact_key L f" "\<forall>x\<in>set fs. fact_key L f \<le> fact_key L x"
      using Cons.prems(2) by auto
    then have "k = fact_key L prev \<Longrightarrow> filter (\<lambda>f. fact_key L f = k) fs = []"
      by (fastforce simp: filter_empty_conv)
    then show ?thesis
      using IHf False by (cases "k = fact_key L f"; cases "k = fact_key L prev") (auto simp: f)
  qed
qed simp

lemma dedup_sorted_filter:
  assumes "decimal_exact L" "list_all ordered_flake fs" "sorted (map (fact_key L) fs)"
  shows "filter (\<lambda>f. fact_key L f = k) (dedup_sorted L fs) = alternate False (filter (\<lambda>f. fact_key L f = k) fs)"
proof (cases fs)
  case (Cons f r)
  then show ?thesis
    using dedup_walk_filter [OF assms(1), of f r k "fl_op f"] assms(2,3) by auto
qed simp

lemma dedup_subset: "set (dedup_walk L prev a fs) \<subseteq> set fs" "set (dedup_sorted L fs) \<subseteq> set fs"
proof -
  show w: "set (dedup_walk L prev a fs) \<subseteq> set fs" for prev a fs
  proof (induction fs arbitrary: prev a)
    case (Cons f fs)
    show ?case
      using Cons [of f "fl_op f"] Cons [of prev a] by auto
  qed simp
  show "set (dedup_sorted L fs) \<subseteq> set fs"
    using w by (cases fs) auto
qed

text \<open>The flakes of one fact in time order, when no two of them have the same time.\<close>

lemma sort_by_group:
  assumes "decimal_exact L" "list_all ordered_flake xs" "sorted_wrt (\<lambda>a b. fact_key L a = fact_key L b \<longrightarrow> flake_t a < flake_t b) xs"
  shows "filter (\<lambda>f. fact_key L f = k) (sort_by (identity_cmp L) xs) = filter (\<lambda>f. fact_key L f = k) xs"
proof -
  let ?P = "\<lambda>f. fact_key L f = k" and ?S = "sort_by (identity_cmp L) xs"
  have st: "sorted (map (\<lambda>f. (fact_key L f, flake_t f, fl_op f)) ?S)"
    by (rule keyed_order.sort_by_sorted [OF identity_order [OF assms(1)] assms(2)])
  have "sorted (map flake_t (filter ?P ?S))"
  proof -
    have "sorted_wrt (\<lambda>a b. (fact_key L a, flake_t a, fl_op a) \<le> (fact_key L b, flake_t b, fl_op b)) (filter ?P ?S)"
      using st by (simp add: sorted_wrt_map sorted_wrt_filter)
    then have "sorted_wrt (\<lambda>a b. flake_t a \<le> flake_t b) (filter ?P ?S)"
      by (rule sorted_wrt_mono_rel [rotated]) auto
    then show ?thesis
      by (simp add: sorted_wrt_map)
  qed
  moreover have strict: "sorted_wrt (\<lambda>a b. flake_t a < flake_t b) (filter ?P xs)"
    using sorted_wrt_filter [OF assms(3), of ?P] by (rule sorted_wrt_mono_rel [rotated]) auto
  moreover have "mset (filter ?P ?S) = mset (filter ?P xs)"
    by simp
  moreover have "inj_on flake_t (set (filter ?P xs))"
  proof -
    have "sorted_wrt (<) (map flake_t (filter ?P xs))"
      using strict by (simp add: sorted_wrt_map)
    then show ?thesis
      by (metis distinct_map strict_sorted_iff)
  qed
  moreover have "sorted (map flake_t (filter ?P xs))"
    using strict by (simp add: sorted_wrt_map) (rule sorted_wrt_mono_rel [rotated], assumption, simp)
  ultimately show ?thesis
    by (metis map_sorted_distinct_set_unique mset_eq_setD properties_for_sort_key sort_key_inj_key_eq)
qed

end
