(* ===== verification/NoveltyChain.thy ===== *)
theory NoveltyChain
  imports NoveltyBulk
begin

text \<open>
  The chain of commits, one \<open>apply_commit\<close> after the other, and the bulk load of the same commits:
  what each of them stores.
\<close>

definition to_graph :: "(Sid, u16) hashmap \<Rightarrow> u16 \<Rightarrow> Flake list \<Rightarrow> Flake list" where
  "to_graph rg g flakes = filter (\<lambda>f. resolve_flake_g_id rg f = Inr g) flakes"

definition of_fact :: "'a value_lib_scheme \<Rightarrow> fact_key \<Rightarrow> Flake list \<Rightarrow> Flake list" where
  "of_fact L k fs = filter (\<lambda>f. fact_key L f = k) fs"

definition time_ordered :: "'a value_lib_scheme \<Rightarrow> Flake list \<Rightarrow> bool" where
  "time_ordered L fs \<longleftrightarrow> sorted_wrt (\<lambda>a b. fact_key L a = fact_key L b \<longrightarrow> flake_t a < flake_t b) fs"

lemma of_fact_append [simp]: "of_fact L k (xs @ ys) = of_fact L k xs @ of_fact L k ys"
  by (simp add: of_fact_def)

lemma mset_of_facts:
  assumes "\<And>k. mset (of_fact L k xs) = mset (of_fact L k ys)"
  shows "mset xs = mset ys"
proof (rule multiset_eqI)
  fix x
  have "count (mset xs) x = count (mset (of_fact L (fact_key L x) xs)) x" "count (mset ys) x = count (mset (of_fact L (fact_key L x) ys)) x"
    by (simp_all add: of_fact_def mset_filter)
  then show "count (mset xs) x = count (mset ys) x"
    using assms [of "fact_key L x"] by simp
qed

section \<open>The chain of commits\<close>

fun apply_chain :: "('om, 'z) novelty_lib_scheme \<Rightarrow> (Flake list \<times> int) list \<Rightarrow> (Sid, u16) hashmap \<Rightarrow> 'om Novelty \<Rightarrow> globals
    \<Rightarrow> NoveltyError option \<times> 'om Novelty \<times> globals" where
  "apply_chain L [] rg nov gl = (None, nov, gl)"
| "apply_chain L ((flakes, t) # r) rg nov gl = (case apply_commit L flakes t rg nov gl of
     (Some e, nov', gl') \<Rightarrow> (Some e, nov', gl')
   | (None, nov', gl') \<Rightarrow> apply_chain L r rg nov' gl')"

lemma Max_stamp_last:
  assumes "zs \<noteq> []" "sorted_wrt (\<lambda>a b. flake_t a < flake_t b) zs"
  shows "Max (stamp ` set zs) = stamp (last zs)"
proof (rule Max_eqI)
  fix s
  assume "s \<in> stamp ` set zs"
  then obtain f where f: "f \<in> set zs" "s = stamp f"
    by blast
  obtain ys where zs: "zs = ys @ [last zs]"
    using assms(1) by (metis append_butlast_last_id)
  then have "f = last zs \<or> flake_t f < flake_t (last zs)"
    using assms(2) f(1) by (metis Un_iff empty_iff insert_iff list.set sorted_wrt_append set_append)
  then show "s \<le> stamp (last zs)"
    by (auto simp: f(2) stamp_def)
qed (use assms(1) in auto)

lemma is_asserted_last_op:
  assumes "ordmap_laws L valid" "decimal_exact L" "novelty_wf L valid nov" "ordered_flake f"
    "sorted_wrt (\<lambda>a b. flake_t a < flake_t b) (of_fact L (fact_key L f) (graph_flakes nov g))"
  shows "is_asserted L (nv_fact_state nov) g f \<longleftrightarrow> last_op False (of_fact L (fact_key L f) (graph_flakes nov g))"
proof -
  let ?Z = "of_fact L (fact_key L f) (graph_flakes nov g)"
  have ord: "\<forall>x\<in>set (graph_flakes nov g). ordered_flake x"
    using assms(3) graph_flakes_ordered by (auto simp: novelty_wf_def list_all_iff)
  have Z: "{x \<in> set (graph_flakes nov g). same_fact L (key_of f) x} = set ?Z"
    using ord same_fact_key [OF assms(2) _ assms(4)] by (auto simp: of_fact_def)
  have "fact_stamp L (nv_fact_state nov) g (key_of f) = best_stamp L (graph_flakes nov g) (key_of f)"
  proof -
    have "facts_agree L nov" "ordered_key (key_of f)"
      using assms(3,4) unfolding novelty_wf_def by (simp_all add: ordered_key_of)
    then show ?thesis
      unfolding facts_agree_def by blast
  qed
  also have "\<dots> = (if ?Z = [] then None else Some (stamp (last ?Z)))"
    using Max_stamp_last [OF _ assms(5)] by (simp add: best_stamp_set Z)
  finally show ?thesis
    by (simp add: is_asserted_stamp [OF assms(1)] last_op_def stamp_def)
qed

definition chain_content :: "'a value_lib_scheme \<Rightarrow> u16 \<Rightarrow> Flake list \<Rightarrow> 'om Novelty \<Rightarrow> bool" where
  "chain_content L g xs nov \<longleftrightarrow> (\<forall>k. of_fact L k (graph_flakes nov g) = alternate False (of_fact L k xs))"

lemma time_ordered_fact: "time_ordered L xs \<Longrightarrow> sorted_wrt (\<lambda>a b. flake_t a < flake_t b) (of_fact L k xs)"
  unfolding time_ordered_def of_fact_def
  by (rule sorted_wrt_mono_rel [rotated], erule sorted_wrt_filter) auto

lemma distinct_keys_one:
  assumes "sorted_wrt (\<lambda>a b. h a \<noteq> h b) ys" "\<forall>f\<in>set ys. h f = k \<and> P f"
  shows "length ys \<le> 1"
proof (cases ys)
  case (Cons a r)
  then show ?thesis
    using assms by (cases r) auto
qed simp

lemma chain_step:
  assumes "ordmap_laws L valid" "decimal_exact L" "novelty_wf L valid nov" "list_all ordered_flake flakes"
    "apply_commit L flakes t rg nov gl = (None, nov', gl')" "chain_content L g xs nov" "time_ordered L xs"
    "sorted_wrt (\<lambda>a b. fact_key L a \<noteq> fact_key L b) (to_graph rg g flakes)"
  shows "novelty_wf L valid nov' \<and> chain_content L g (xs @ to_graph rg g flakes) nov'"
proof -
  note ac = apply_commit_content [OF assms(1-5)]
  have "of_fact L k (graph_flakes nov g @ accepted L nov rg flakes g) = alternate False (of_fact L k (xs @ to_graph rg g flakes))" for k
  proof -
    let ?Y = "of_fact L k (to_graph rg g flakes)"
    have acc: "of_fact L k (accepted L nov rg flakes g) = filter (\<lambda>f. \<not> (fl_op f \<and> is_asserted L (nv_fact_state nov) g f)) ?Y"
      by (simp add: accepted_def of_fact_def to_graph_def) (rule filter_cong, auto)
    have zs: "of_fact L k (graph_flakes nov g) = alternate False (of_fact L k xs)"
      using assms(6) unfolding chain_content_def by blast
    have "sorted_wrt (\<lambda>a b. fact_key L a \<noteq> fact_key L b) ?Y"
      unfolding of_fact_def by (rule sorted_wrt_filter [OF assms(8)])
    moreover have keys: "\<forall>f\<in>set ?Y. fact_key L f = k \<and> ordered_flake f"
      using assms(4) by (auto simp: of_fact_def to_graph_def list_all_iff)
    ultimately have "length ?Y \<le> 1"
      by (rule distinct_keys_one)
    then consider "?Y = []" | f where "?Y = [f]"
      by (metis One_nat_def length_0_conv length_Suc_conv le_Suc_eq le_zero_eq)
    then show ?thesis
    proof cases
      case 1
      then show ?thesis
        using acc zs by simp
    next
      case (2 f)
      have f: "fact_key L f = k" "ordered_flake f"
        using keys 2 by simp_all
      have "sorted_wrt (\<lambda>a b. flake_t a < flake_t b) (of_fact L (fact_key L f) (graph_flakes nov g))"
        unfolding f zs by (rule alternate_subseq(2) [OF time_ordered_fact [OF assms(7)]])
      from is_asserted_last_op [OF assms(1-3) f(2) this] show ?thesis
        using acc by (simp add: 2 zs f alternate_snoc)
    qed
  qed
  moreover have "graph_flakes nov' g = graph_flakes nov g @ accepted L nov rg flakes g" "novelty_wf L valid nov'"
    using ac by blast+
  ultimately show ?thesis
    unfolding chain_content_def by presburger
qed

text \<open>The commits of a history: none of them empty, increasing times, and in one commit each fact of a graph at most once.\<close>

definition batch_ok :: "'a value_lib_scheme \<Rightarrow> (Sid, u16) hashmap \<Rightarrow> Flake list \<times> int \<Rightarrow> bool" where
  "batch_ok L rg b \<longleftrightarrow> fst b \<noteq> [] \<and> list_all (\<lambda>f. ordered_flake f \<and> flake_t f = snd b) (fst b) \<and>
     sorted_wrt (\<lambda>x y. \<not> (resolve_flake_g_id rg x = resolve_flake_g_id rg y \<and> same_identity L x y)) (fst b)"

definition history_ok :: "'a value_lib_scheme \<Rightarrow> (Sid, u16) hashmap \<Rightarrow> (Flake list \<times> int) list \<Rightarrow> bool" where
  "history_ok L rg batches \<longleftrightarrow> list_all (batch_ok L rg) batches \<and> sorted_wrt (\<lambda>a b. snd a < snd b) batches"

lemma batch_ok_graph:
  assumes "decimal_exact L" "batch_ok L rg b"
  shows "sorted_wrt (\<lambda>x y. fact_key L x \<noteq> fact_key L y) (to_graph rg g (fst b))"
proof -
  have "sorted_wrt (\<lambda>x y. \<not> (resolve_flake_g_id rg x = resolve_flake_g_id rg y \<and> same_identity L x y)) (to_graph rg g (fst b))"
    using assms(2) by (simp add: batch_ok_def to_graph_def sorted_wrt_filter)
  moreover have "\<forall>x\<in>set (to_graph rg g (fst b)). ordered_flake x \<and> resolve_flake_g_id rg x = Inr g"
    using assms(2) by (auto simp: batch_ok_def to_graph_def list_all_iff)
  ultimately show ?thesis
    using same_identity_key [OF assms(1)] by (smt (verit, best) sorted_wrt_mono_rel)
qed

definition history_flakes :: "(Flake list \<times> int) list \<Rightarrow> Flake list" where
  "history_flakes batches = concat (map fst batches)"

lemma to_graph_append [simp]: "to_graph rg g (xs @ ys) = to_graph rg g xs @ to_graph rg g ys"
  by (simp add: to_graph_def)

lemma time_ordered_extend:
  assumes "decimal_exact L" "time_ordered L xs" "batch_ok L rg b" "\<forall>f\<in>set xs. flake_t f < snd b"
  shows "time_ordered L (xs @ to_graph rg g (fst b))"
proof -
  have "sorted_wrt (\<lambda>x y. fact_key L x = fact_key L y \<longrightarrow> flake_t x < flake_t y) (to_graph rg g (fst b))"
    by (rule sorted_wrt_mono_rel [OF _ batch_ok_graph [OF assms(1,3)]]) simp
  moreover have "\<forall>f\<in>set (to_graph rg g (fst b)). flake_t f = snd b"
    using assms(3) by (simp add: batch_ok_def to_graph_def list_all_iff)
  ultimately show ?thesis
    using assms(2,4) by (simp add: time_ordered_def sorted_wrt_append)
qed

lemma chain_spec:
  assumes "ordmap_laws L valid" "decimal_exact L" "history_ok L rg bs" "apply_chain L bs rg nov gl = (None, nov', gl')"
    "novelty_wf L valid nov" "chain_content L g xs nov" "time_ordered L xs" "\<forall>f\<in>set xs. \<forall>b\<in>set bs. flake_t f < snd b"
  shows "novelty_wf L valid nov' \<and> chain_content L g (xs @ to_graph rg g (history_flakes bs)) nov' \<and>
    time_ordered L (xs @ to_graph rg g (history_flakes bs)) \<and>
    nv_t nov' = fold max (map snd bs) (nv_t nov) \<and> (\<forall>f\<in>set (history_flakes bs). \<exists>h. resolve_flake_g_id rg f = Inr h)"
  using assms(3-8)
proof (induction bs arbitrary: nov gl xs)
  case Nil
  then show ?case
    by (simp add: history_flakes_def to_graph_def)
next
  case (Cons b bs)
  obtain flakes t where b: "b = (flakes, t)"
    by (cases b)
  have hist: "batch_ok L rg b" "history_ok L rg bs" "\<forall>c\<in>set bs. t < snd c"
    using Cons.prems(1) by (simp_all add: history_ok_def b)
  have fl: "flakes \<noteq> []" "list_all ordered_flake flakes" "\<forall>f\<in>set flakes. flake_t f = t"
    using hist(1) by (simp_all add: batch_ok_def b list_all_iff)
  obtain nov1 gl1 where ac: "apply_commit L flakes t rg nov gl = (None, nov1, gl1)" and ch: "apply_chain L bs rg nov1 gl1 = (None, nov', gl')"
    using Cons.prems(2) by (auto simp: b split: prod.splits option.splits)
  have sw: "sorted_wrt (\<lambda>x y. fact_key L x \<noteq> fact_key L y) (to_graph rg g flakes)"
    using batch_ok_graph [OF assms(2) hist(1), of g] by (simp add: b)
  note st = chain_step [OF assms(1,2) Cons.prems(3) fl(2) ac Cons.prems(4,5) sw]
  note at = apply_commit_t [OF ac fl(1)]
  have lt: "\<forall>f\<in>set (xs @ to_graph rg g flakes). \<forall>c\<in>set bs. flake_t f < snd c"
    using Cons.prems(6) fl(3) hist(3) by (auto simp: to_graph_def)
  have ord: "time_ordered L (xs @ to_graph rg g flakes)"
    using time_ordered_extend [OF assms(2) Cons.prems(5) hist(1), of g] Cons.prems(6) by (simp add: b)
  from Cons.IH [OF hist(2) ch conjunct1 [OF st] conjunct2 [OF st] ord lt] show ?case
    using at by (simp add: b history_flakes_def max.commute ball_Un)
qed

section \<open>The bulk load\<close>

definition same_store :: "'om Novelty \<Rightarrow> 'om Novelty \<Rightarrow> bool" where
  "same_store nov nov' \<longleftrightarrow> nv_graphs nov' = nv_graphs nov \<and> nv_fact_state nov' = nv_fact_state nov \<and> nv_t nov' = nv_t nov"

lemma bulk_batch_ok:
  assumes "\<forall>f\<in>set fs. \<exists>g. resolve_flake_g_id rg f = Inr g"
  shows "\<exists>nov' routed. bulk_batch rg fs nov m = (None, nov', fold (\<lambda>(f, g). hm_push g f) routed m) \<and> same_store nov nov' \<and>
    map fst routed = fs \<and> (\<forall>(f, g)\<in>set routed. resolve_flake_g_id rg f = Inr g)"
  using assms
proof (induction fs arbitrary: nov m)
  case (Cons f fs)
  then obtain g where g: "resolve_flake_g_id rg f = Inr g"
    by auto
  define nov1 where "nov1 = (let nov = (if is_rdfs_hierarchy_predicate (fl_p f) then nov\<lparr>nv_schema_epoch := nv_schema_epoch nov + 1\<rparr> else nov)
    in if is_shacl_affecting_flake f then nov\<lparr>nv_shacl_epoch := nv_shacl_epoch nov + 1\<rparr> else nov)"
  have s: "same_store nov nov1"
    by (simp add: same_store_def nov1_def Let_def)
  obtain nov' routed where IH: "bulk_batch rg fs nov1 (hm_push g f m) = (None, nov', fold (\<lambda>(f, g). hm_push g f) routed (hm_push g f m))"
      "same_store nov1 nov'" "map fst routed = fs" "\<forall>(f, g)\<in>set routed. resolve_flake_g_id rg f = Inr g"
    using Cons.IH [of nov1 "hm_push g f m"] Cons.prems by auto
  have "bulk_batch rg (f # fs) nov m = bulk_batch rg fs nov1 (hm_push g f m)"
    by (simp only: bulk_batch.simps g sum.case nov1_def Let_def)
  then show ?case
    using IH s g by (intro exI [of _ nov'] exI [of _ "(f, g) # routed"]) (simp add: same_store_def)
qed (simp add: same_store_def)

lemma bulk_ingest_ok:
  assumes "\<forall>f\<in>set (history_flakes bs). \<exists>g. resolve_flake_g_id rg f = Inr g"
  shows "\<exists>nov' routed. bulk_ingest rg bs nov t m = (None, nov', fold max (map snd bs) t, fold (\<lambda>(f, g). hm_push g f) routed m) \<and>
    same_store nov nov' \<and> map fst routed = history_flakes bs \<and> (\<forall>(f, g)\<in>set routed. resolve_flake_g_id rg f = Inr g)"
  using assms
proof (induction bs arbitrary: nov t m)
  case (Cons b bs)
  obtain flakes c where b: "b = (flakes, c)"
    by (cases b)
  obtain nov1 r1 where B: "bulk_batch rg flakes nov m = (None, nov1, fold (\<lambda>(f, g). hm_push g f) r1 m)" "same_store nov nov1"
      "map fst r1 = flakes" "\<forall>(f, g)\<in>set r1. resolve_flake_g_id rg f = Inr g"
    using bulk_batch_ok [of flakes rg nov m] Cons.prems by (auto simp: b history_flakes_def)
  let ?m = "fold (\<lambda>(f, g). hm_push g f) r1 m"
  obtain nov2 r2 where I: "bulk_ingest rg bs nov1 (max t c) ?m = (None, nov2, fold max (map snd bs) (max t c), fold (\<lambda>(f, g). hm_push g f) r2 ?m)"
      "same_store nov1 nov2" "map fst r2 = history_flakes bs" "\<forall>(f, g)\<in>set r2. resolve_flake_g_id rg f = Inr g"
    using Cons.IH [of nov1 "max t c" ?m] Cons.prems by (auto simp: b history_flakes_def)
  show ?case
    using B I by (intro exI [of _ nov2] exI [of _ "r1 @ r2"]) (simp add: b history_flakes_def same_store_def max.commute ball_Un)
qed (simp add: same_store_def history_flakes_def)

lemma routed_to_graph:
  assumes "map fst routed = flakes" "\<forall>(f, g)\<in>set routed. resolve_flake_g_id rg f = Inr g"
  shows "routed_to g routed = to_graph rg g flakes"
  using assms by (induction routed arbitrary: flakes) (auto simp: routed_to_def to_graph_def)

text \<open>What the bulk load keeps of the flakes of a graph.\<close>

definition bulk_kept :: "'a value_lib_scheme \<Rightarrow> Flake list \<Rightarrow> Flake list" where
  "bulk_kept L fs = dedup_sorted L (sort_by (identity_cmp L) fs)"

lemma bulk_kept_fact:
  assumes "decimal_exact L" "list_all ordered_flake fs" "time_ordered L fs"
  shows "of_fact L k (bulk_kept L fs) = alternate False (of_fact L k fs)"
proof -
  have "sorted (map (\<lambda>f. (fact_key L f, flake_t f, fl_op f)) (sort_by (identity_cmp L) fs))"
    by (rule keyed_order.sort_by_sorted [OF identity_order [OF assms(1)] assms(2)])
  then have "sorted (map (fact_key L) (sort_by (identity_cmp L) fs))"
    unfolding sorted_map by (rule sorted_wrt_mono_rel [rotated]) auto
  moreover have "list_all ordered_flake (sort_by (identity_cmp L) fs)"
    using assms(2) by (simp add: list_all_iff)
  ultimately show ?thesis
    using dedup_sorted_filter [OF assms(1)] sort_by_group [OF assms(1,2)] assms(3)
    by (simp add: of_fact_def bulk_kept_def time_ordered_def)
qed

lemma bulk_kept_Nil [simp]: "bulk_kept L [] = []"
  by (simp add: bulk_kept_def sort_by_def)

lemma bulk_kept_ordered: "list_all ordered_flake fs \<Longrightarrow> list_all ordered_flake (bulk_kept L fs)"
  using dedup_subset(2) [of L "sort_by (identity_cmp L) fs"] by (auto simp: bulk_kept_def list_all_iff)

lemma set_graph_segments_spec:
  "graph_flakes (fst (set_graph_segments L g flakes nov gl)) h = (if h = g then flakes else graph_flakes nov h)"
  "nv_fact_state (fst (set_graph_segments L g flakes nov gl)) = nv_fact_state nov"
  using build_chunks_flakes [of L flakes gl]
  by (auto simp: set_graph_segments_def Let_def graph_flakes_def graph_segs_def case_prod_beta word_unat_eq_iff)

lemma bulk_graph_spec:
  assumes "graph_flakes nov g = []" "bulk_graph L max_t g fs nov gl = (nov', gl')"
  shows "graph_flakes nov' h = (if h = g then bulk_kept L fs else graph_flakes nov h)"
    "nv_fact_state nov' = fold (FactState_record L g) (bulk_kept L fs) (nv_fact_state nov)"
proof -
  have e: "(case slot (nv_graphs nov) (unat g) of Some segs \<Rightarrow> concat (map sg_flakes segs) | None \<Rightarrow> []) = []"
    using assms(1) by (simp add: graph_flakes_def graph_segs_def split: option.splits)
  define nov1 where "nov1 = (if unat g < length (nv_graphs nov) then nov\<lparr>nv_graphs := (nv_graphs nov)[unat g := None]\<rparr> else nov)
    \<lparr>nv_fact_state := fold (FactState_record L g) (bulk_kept L fs) (nv_fact_state nov)\<rparr>"
  have g1: "graph_flakes nov1 h = graph_flakes nov h" for h
    using assms(1) by (auto simp: nov1_def graph_flakes_def graph_segs_def slot_def nth_list_update split: if_splits)
  have f1: "nv_fact_state nov1 = fold (FactState_record L g) (bulk_kept L fs) (nv_fact_state nov)"
    by (simp add: nov1_def)
  let ?s = "set_graph_segments L g (bulk_kept L fs) nov1 gl"
  have "nv_graphs (fst (bulk_graph L max_t g fs nov gl)) = nv_graphs (fst ?s) \<and>
      nv_fact_state (fst (bulk_graph L max_t g fs nov gl)) = nv_fact_state (fst ?s)"
    unfolding bulk_graph_def Let_def e by (simp add: nov1_def bulk_kept_def case_prod_beta)
  then have "nv_graphs nov' = nv_graphs (fst ?s) \<and> nv_fact_state nov' = nv_fact_state (fst ?s)"
    unfolding assms(2) by simp
  then show "graph_flakes nov' h = (if h = g then bulk_kept L fs else graph_flakes nov h)"
      "nv_fact_state nov' = fold (FactState_record L g) (bulk_kept L fs) (nv_fact_state nov)"
    using set_graph_segments_spec [of L g "bulk_kept L fs" nov1 gl] g1 f1 by (simp_all add: graph_flakes_def graph_segs_def)
qed

lemma bulk_graphs_spec:
  assumes "ordmap_laws L valid" "distinct (map fst r)" "list_all (\<lambda>(g, fs). list_all ordered_flake fs) r"
    "\<forall>g\<in>fst ` set r. graph_flakes nov g = []" "facts_valid valid (nv_fact_state nov)" "facts_agree L nov"
    "bulk_graphs L max_t r nov gl = (nov', gl')"
  shows "(\<forall>h. graph_flakes nov' h = (case map_of r h of Some fs \<Rightarrow> bulk_kept L fs | None \<Rightarrow> graph_flakes nov h)) \<and>
    facts_valid valid (nv_fact_state nov') \<and> facts_agree L nov'"
  using assms(2-7)
proof (induction r arbitrary: nov gl)
  case (Cons gb r)
  obtain g fs where gb: "gb = (g, fs)"
    by (cases gb)
  obtain nov1 gl1 where b: "bulk_graph L max_t g fs nov gl = (nov1, gl1)" and r: "bulk_graphs L max_t r nov1 gl1 = (nov', gl')"
    using Cons.prems(6) by (cases "bulk_graph L max_t g fs nov gl") (simp add: gb)
  have g0: "graph_flakes nov g = []"
    using Cons.prems(3) by (simp add: gb)
  note spec = bulk_graph_spec [OF g0 b]
  have ord: "list_all ordered_flake (bulk_kept L fs)"
    using Cons.prems(2) by (simp add: gb bulk_kept_ordered)
  note rec = record_all_stamp [OF assms(1) Cons.prems(4) ord]
  have v: "facts_valid valid (nv_fact_state nov1)"
    unfolding spec(2) by (rule rec(1) [where k = "(fl_s undefined, fl_s undefined, FV_Null, fl_s undefined, None)"])
      (simp add: ordered_key_def ordered_value_def)
  have a: "facts_agree L nov1"
    unfolding facts_agree_def
  proof (intro allI impI)
    fix h k
    assume k: "ordered_key k"
    then have "fact_stamp L (nv_fact_state nov) h k = best_stamp L (graph_flakes nov h) k"
      using Cons.prems(5) unfolding facts_agree_def by blast
    then show "fact_stamp L (nv_fact_state nov1) h k = best_stamp L (graph_flakes nov1 h) k"
      unfolding spec rec(2) [OF k] using g0 by (cases "h = g") (simp_all add: join_laws)
  qed
  have e: "\<forall>h\<in>fst ` set r. graph_flakes nov1 h = []"
  proof
    fix h
    assume "h \<in> fst ` set r"
    then show "graph_flakes nov1 h = []"
      using Cons.prems(1) bspec [OF Cons.prems(3), of h] spec(1) [of h] by (auto simp: gb)
  qed
  have "distinct (map fst r)" "list_all (\<lambda>(g, fs). list_all ordered_flake fs) r" "map_of r g = None"
    using Cons.prems(1,2) by (simp_all add: gb map_of_eq_None_iff)
  with Cons.IH [OF _ _ e v a r] show ?case
    by (auto simp: gb spec(1) split: option.split)
qed simp

lemma store_cong:
  assumes "nv_graphs n = nv_graphs m"
  shows "graph_flakes n h = graph_flakes m h" "nv_fact_state n = nv_fact_state m \<Longrightarrow> facts_agree L n = facts_agree L m"
  unfolding facts_agree_def graph_flakes_def graph_segs_def by (simp_all only: assms)

lemma new_flakes [simp]: "graph_flakes (Novelty_new t) g = []" "nv_t (Novelty_new t) = t"
  by (simp_all add: Novelty_new_def graph_flakes_def graph_segs_def)

lemma bulk_loaded:
  fixes L :: "('om, 'z) novelty_lib_scheme"
  assumes "ordmap_laws L valid" "list_all ordered_flake (history_flakes bs)" "\<forall>f\<in>set (history_flakes bs). \<exists>g. resolve_flake_g_id rg f = Inr g"
  obtains loaded gl' where "bulk_apply_commits L bs rg (Novelty_new t) gl = (None, loaded, gl')" "nv_t loaded = fold max (map snd bs) t"
    "\<And>h. graph_flakes loaded h = bulk_kept L (to_graph rg h (history_flakes bs))" "facts_agree L loaded"
proof -
  obtain nov1 :: "'om Novelty" and routed where I: "bulk_ingest rg bs (Novelty_new t) t hm_empty =
        (None, nov1, fold max (map snd bs) t, group_by_graph routed)"
      "same_store (Novelty_new t) nov1" "map fst routed = history_flakes bs" "\<forall>(f, g)\<in>set routed. resolve_flake_g_id rg f = Inr g"
    using bulk_ingest_ok [OF assms(3), of "Novelty_new t" t hm_empty] unfolding group_by_graph_def by blast
  let ?m = "group_by_graph routed"
  have get: "(case map_of ?m g of Some b \<Rightarrow> b | None \<Rightarrow> []) = to_graph rg g (history_flakes bs)" for g
    using group_by_graph_get [of routed g] routed_to_graph [OF I(3,4)] by (simp add: hm_get_def)
  have e: "nv_graphs nov1 = nv_graphs (Novelty_new t :: 'om Novelty)" "nv_fact_state nov1 = nv_fact_state (Novelty_new t :: 'om Novelty)"
    using I(2) by (simp_all add: same_store_def)
  have n1: "graph_flakes nov1 g = []" "facts_valid valid (nv_fact_state nov1)" "facts_agree L nov1" for g
    using novelty_wf_new [of L valid t] by (simp_all add: store_cong [OF e(1)] e novelty_wf_def)
  obtain nov2 gl2 where b: "bulk_graphs L (fold max (map snd bs) t) ?m nov1 gl = (nov2, gl2)"
    by (cases "bulk_graphs L (fold max (map snd bs) t) ?m nov1 gl")
  have dist: "distinct (map fst ?m)"
    using group_by_graph_wf by (simp add: hm_wf_def)
  have mem: "list_all ordered_flake b" if "(g, b) \<in> set ?m" for g b
    using group_by_graph_mem [OF that] routed_to_graph [OF I(3,4), of g] assms(2) by (auto simp: to_graph_def list_all_iff)
  then have "list_all (\<lambda>(g, b). list_all ordered_flake b) ?m"
    by (auto simp: list_all_iff)
  from bulk_graphs_spec [OF assms(1) dist this _ n1(2,3) b] n1(1)
  have n2: "graph_flakes nov2 h = (case map_of ?m h of Some fs \<Rightarrow> bulk_kept L fs | None \<Rightarrow> [])" "facts_agree L nov2" for h
    by (simp_all split: option.split)
  have kept: "graph_flakes nov2 h = bulk_kept L (to_graph rg h (history_flakes bs))" for h
    using get [of h] n2(1) [of h] by (auto split: option.splits)
  define loaded where "loaded = (if ?m = [] then nov1\<lparr>nv_t := fold max (map snd bs) t, nv_epoch := nv_epoch nov1 + 1, nv_content_version := next_content_version gl\<rparr>
    else recompute_totals (nov2\<lparr>nv_t := fold max (map snd bs) t, nv_epoch := nv_epoch nov2 + 1, nv_content_version := next_content_version gl2\<rparr>))"
  have st: "nv_graphs loaded = nv_graphs nov2" "nv_fact_state loaded = nv_fact_state nov2"
    using b by (auto simp: loaded_def)
  have "graph_flakes loaded h = bulk_kept L (to_graph rg h (history_flakes bs))" "facts_agree L loaded" for h
    using kept n2(2) store_cong(1) [OF st(1), of h] store_cong(2) [OF st, of L] by simp_all
  moreover have "bulk_apply_commits L bs rg (Novelty_new t) gl =
      (None, loaded, (if ?m = [] then gl else gl2)\<lparr>next_content_version := next_content_version (if ?m = [] then gl else gl2) + 1\<rparr>)"
    by (simp add: bulk_apply_commits_def I(1) b Let_def refresh_content_version_def loaded_def)
  moreover have "nv_t loaded = fold max (map snd bs) t"
    by (simp add: loaded_def recompute_totals_def)
  ultimately show ?thesis
    using that by blast
qed

theorem bulk_matches_chain:
  fixes L :: "('om, 'z) novelty_lib_scheme"
  assumes "ordmap_laws L valid" "decimal_exact L" "history_ok L rg bs"
    "apply_chain L bs rg (Novelty_new t) gl = (None, chained, gl')"
  shows "\<exists>loaded gl''. bulk_apply_commits L bs rg (Novelty_new t) gl = (None, loaded, gl'') \<and> nv_t loaded = nv_t chained \<and>
    (\<forall>g. mset (graph_flakes loaded g) = mset (graph_flakes chained g) \<and>
      (\<forall>k. ordered_key k \<longrightarrow> fact_stamp L (nv_fact_state loaded) g k = fact_stamp L (nv_fact_state chained) g k))"
proof -
  have c0: "chain_content L g [] (Novelty_new t :: 'om Novelty)" for g
    by (simp add: chain_content_def of_fact_def)
  have cs: "novelty_wf L valid chained \<and> chain_content L g (to_graph rg g (history_flakes bs)) chained \<and>
      time_ordered L (to_graph rg g (history_flakes bs)) \<and> nv_t chained = fold max (map snd bs) t \<and>
      (\<forall>f\<in>set (history_flakes bs). \<exists>h. resolve_flake_g_id rg f = Inr h)" for g
    using chain_spec [OF assms novelty_wf_new c0 [of g]] by (simp add: time_ordered_def)
  have ord: "list_all ordered_flake (history_flakes bs)"
    using assms(3) by (auto simp: history_ok_def batch_ok_def history_flakes_def list_all_iff)
  obtain loaded gl'' where l: "bulk_apply_commits L bs rg (Novelty_new t) gl = (None, loaded, gl'')" "nv_t loaded = fold max (map snd bs) t"
      "\<And>h. graph_flakes loaded h = bulk_kept L (to_graph rg h (history_flakes bs))" "facts_agree L loaded"
    using bulk_loaded [OF assms(1) ord] cs by metis
  have same: "mset (graph_flakes loaded g) = mset (graph_flakes chained g)" for g
  proof (rule mset_of_facts [of L])
    fix k
    have "of_fact L k (graph_flakes chained g) = alternate False (of_fact L k (to_graph rg g (history_flakes bs)))"
      using cs [of g] unfolding chain_content_def by blast
    moreover have "list_all ordered_flake (to_graph rg g (history_flakes bs))"
      using ord by (auto simp: to_graph_def list_all_iff)
    ultimately show "mset (of_fact L k (graph_flakes loaded g)) = mset (of_fact L k (graph_flakes chained g))"
      using bulk_kept_fact [OF assms(2)] cs [of g] l(3) by simp
  qed
  have "fact_stamp L (nv_fact_state loaded) g k = fact_stamp L (nv_fact_state chained) g k" if "ordered_key k" for g k
  proof -
    have "facts_agree L chained"
      using cs unfolding novelty_wf_def by blast
    then show ?thesis
      using l(4) that best_stamp_mset [OF same, of L g k] unfolding facts_agree_def by metis
  qed
  moreover have "nv_t loaded = nv_t chained"
    using l(2) cs by simp
  ultimately show ?thesis
    using same by (intro exI [of _ loaded] exI [of _ gl''] conjI allI impI l(1)) blast+
qed

end
