(* ===== verification/NoveltyDrain.thy ===== *)
theory NoveltyDrain
  imports NoveltyChain
begin

text \<open>
  The backlog of a read-path compaction drains: as long as no graph holds more flakes than one segment
  can, every pass that merges removes segments, so that repeating \<open>tier_compact\<close> ends with fewer than
  \<open>tier_width\<close> segments in each size class. A graph that holds \<open>tier_width\<close> full segments does not
  drain: a pass merges them and cuts the result into full segments again.
\<close>

section \<open>Segments removed by a merge\<close>

lemma tier_take_length: "m \<le> w \<Longrightarrow> length (fst (tier_take w c m segs)) = length segs - min (w - m) (class_count w segs c)"
proof (induction w c m segs rule: tier_take.induct)
  case (2 w c m seg segs)
  have le: "class_count w segs c \<le> length segs"
    by (simp add: class_count_def)
  have cc: "class_count w (seg # segs) c = class_count w segs c + (if seg_class w seg = c then 1 else 0)"
    by (simp add: class_count_def)
  show ?case
    using "2.IH" "2.prems" le unfolding cc by (auto simp: case_prod_beta Let_def)
qed simp

lemma build_chunks_single: "length flakes \<le> MAX_SEGMENT_FLAKES \<Longrightarrow> length (fst (build_chunks L flakes gl)) = 1"
  by (subst build_chunks.simps) (simp add: Let_def case_prod_beta)

lemma tier_merge_length:
  assumes "total_flakes segs \<le> MAX_SEGMENT_FLAKES" "w \<le> class_count w segs c"
  shows "length (fst (tier_merge L w c segs gl)) + w = length segs + 1"
proof -
  have "w \<le> length segs"
    using assms(2) by (simp add: class_count_def) (metis le_trans length_filter_le)
  moreover have "length (fst (tier_take w c 0 segs)) = length segs - w"
    using tier_take_length [of 0 w c segs] assms(2) by simp
  moreover have "size (mset (concat (map sg_flakes (fst (tier_take w c 0 segs)))) + mset (snd (tier_take w c 0 segs))) = total_flakes segs"
    by (simp add: tier_take_flakes total_flakes_concat del: mset_concat)
  then have "length (snd (tier_take w c 0 segs)) \<le> MAX_SEGMENT_FLAKES"
    using assms(1) by simp
  ultimately show ?thesis
    using build_chunks_single [of "snd (tier_take w c 0 segs)" L gl] by (simp add: tier_merge_def case_prod_beta)
qed

lemma tier_compact_graph_length:
  assumes "total_flakes segs \<le> MAX_SEGMENT_FLAKES" "1 \<le> w"
  shows "length (fst (tier_compact_graph L w segs m n gl)) + (fst (snd (tier_compact_graph L w segs m n gl)) - n) * (w - 1) = length segs \<and>
    n \<le> fst (snd (tier_compact_graph L w segs m n gl))"
  using assms
proof (induction L w segs m n gl rule: tier_compact_graph.induct)
  case (1 L w segs m n gl)
  show ?case
  proof (cases "length segs < w \<or> target_class w segs m = None")
    case True
    then have "tier_compact_graph L w segs m n gl = (segs, n, gl)"
      by (subst tier_compact_graph.simps) (auto split: option.split)
    then show ?thesis
      by simp
  next
    case False
    then obtain c where c: "target_class w segs m = Some c"
      by auto
    let ?segs = "fst (tier_merge L w c segs gl)" and ?gl = "snd (tier_merge L w c segs gl)"
    have e: "tier_compact_graph L w segs m n gl = tier_compact_graph L w ?segs (c + 1) (n + 1) ?gl"
      using False c by (subst tier_compact_graph.simps) (simp add: case_prod_beta Let_def)
    have l: "length ?segs + w = length segs + 1"
      by (rule tier_merge_length [OF "1.prems"(1) target_classD(2) [OF c]])
    let ?r = "fst (snd (tier_compact_graph L w ?segs (c + 1) (n + 1) ?gl))"
    have IH: "length (fst (tier_compact_graph L w ?segs (c + 1) (n + 1) ?gl)) + (?r - (n + 1)) * (w - 1) = length ?segs \<and> n + 1 \<le> ?r"
      using "1.IH" [OF _ c refl] False "1.prems" tier_merge_total [of L w c segs gl] by (simp add: prod_eq_iff)
    have "(?r - n) * (w - 1) = (?r - (n + 1)) * (w - 1) + (w - 1)"
      using IH by (metis Suc_diff_le Suc_eq_plus1 add.commute diff_Suc_Suc mult_Suc)
    then show ?thesis
      unfolding e using IH l "1.prems"(2) by linarith
  qed
qed

lemma tier_compact_graphs_length:
  assumes "list_all (pred_option (\<lambda>segs. total_flakes segs \<le> MAX_SEGMENT_FLAKES)) gs" "1 \<le> w"
    "tier_compact_graphs L w gs gl = (gs', m, gl')"
  shows "length (live_segments gs') + m * (w - 1) = length (live_segments gs)"
  using assms(1,3)
proof (induction gs arbitrary: gl gs' m gl')
  case (Cons s gs)
  show ?case
  proof (cases s)
    case None
    then show ?thesis
      using Cons.IH [of gl] Cons.prems by (auto simp: live_segments_def split: prod.splits)
  next
    case (Some segs)
    obtain segs1 k gl1 where c: "tier_compact_graph L w segs 0 0 gl = (segs1, k, gl1)"
      using prod_cases3 by blast
    obtain gs2 m2 gl2 where r: "tier_compact_graphs L w gs gl1 = (gs2, m2, gl2)"
      using prod_cases3 by blast
    have e: "gs' = Some segs1 # gs2" "m = k + m2"
      using Cons.prems(2) Some c r by simp_all
    have "length segs1 + k * (w - 1) = length segs"
      using tier_compact_graph_length [of segs w L 0 0 gl] Cons.prems(1) assms(2) by (simp add: c Some)
    moreover have "length (live_segments gs2) + m2 * (w - 1) = length (live_segments gs)"
      using Cons.IH [OF _ r] Cons.prems(1) by simp
    ultimately show ?thesis
      by (simp add: e Some live_segments_def add_mult_distrib)
  qed
qed (simp add: live_segments_def)

section \<open>Draining the backlog\<close>

text \<open>The compactions of \<open>n\<close> reads.\<close>

fun compact_rounds :: "'a value_lib_scheme \<Rightarrow> nat \<Rightarrow> nat \<Rightarrow> 'om Novelty \<Rightarrow> globals \<Rightarrow> 'om Novelty \<times> globals" where
  "compact_rounds L w 0 nov gl = (nov, gl)"
| "compact_rounds L w (Suc n) nov gl = (case tier_compact L w nov gl of (merges, nov', gl') \<Rightarrow> compact_rounds L w n nov' gl')"

definition small_graphs :: "'om Novelty \<Rightarrow> bool" where
  "small_graphs nov \<longleftrightarrow> (\<forall>g. length (graph_flakes nov g) \<le> MAX_SEGMENT_FLAKES)"

lemma small_graphs_slots:
  assumes "graphs_wf L (nv_graphs nov)" "small_graphs nov"
  shows "list_all (pred_option (\<lambda>segs. total_flakes segs \<le> MAX_SEGMENT_FLAKES)) (nv_graphs nov)"
  unfolding list_all_length
proof (intro allI impI)
  fix i
  assume i: "i < length (nv_graphs nov)"
  then have "i < 2 ^ 16"
    using assms(1) by (simp add: graphs_wf_def)
  then have u: "unat (of_nat i :: u16) = i"
    by (rule unat_of_nat_u16)
  show "pred_option (\<lambda>segs. total_flakes segs \<le> MAX_SEGMENT_FLAKES) (nv_graphs nov ! i)"
  proof (cases "nv_graphs nov ! i")
    case (Some segs)
    then have "graph_flakes nov (of_nat i) = concat (map sg_flakes segs)"
      using i by (simp add: graph_flakes_def graph_segs_def u slot_def)
    then show ?thesis
      using assms(2) unfolding small_graphs_def by (metis Some option.pred_inject(2) total_flakes_concat)
  qed simp
qed

lemma tier_compact_shrinks:
  assumes "decimal_exact L" "novelty_wf L valid nov" "small_graphs nov" "2 \<le> w" "tier_compact L w nov gl = (merges, nov', gl')"
  shows "length (live_segments (nv_graphs nov')) + merges * (w - 1) = length (live_segments (nv_graphs nov)) \<and> small_graphs nov'"
proof -
  obtain gs m gl1 where t: "tier_compact_graphs L w (nv_graphs nov) gl = (gs, m, gl1)"
    using prod_cases3 by blast
  have "merges = m \<and> nv_graphs nov' = gs"
    using assms(4,5) by (auto simp: tier_compact_def t Let_def refresh_content_version_def split: if_splits)
  moreover have "graphs_wf L (nv_graphs nov)"
    using assms(2) by (simp add: novelty_wf_def)
  ultimately have "length (live_segments (nv_graphs nov')) + merges * (w - 1) = length (live_segments (nv_graphs nov))"
    using tier_compact_graphs_length [OF small_graphs_slots [OF _ assms(3)] _ t] assms(4) by simp
  moreover have "length (graph_flakes nov' g) = length (graph_flakes nov g)" for g
    using tier_compact_spec [OF assms(1,2,5)] by (metis size_mset)
  ultimately show ?thesis
    using assms(3) by (simp add: small_graphs_def)
qed

lemma compact_rounds_drain:
  assumes "decimal_exact L" "2 \<le> w" "novelty_wf L valid nov" "small_graphs nov" "length (live_segments (nv_graphs nov)) \<le> n"
    "compact_rounds L w n nov gl = (nov', gl')"
  shows "\<not> needs_tier_compaction nov' w \<and> novelty_wf L valid nov' \<and> small_graphs nov' \<and> (\<forall>g. mset (graph_flakes nov' g) = mset (graph_flakes nov g))"
  using assms(3-6)
proof (induction n arbitrary: nov gl)
  case 0
  then have "nv_graphs nov ! i = None \<or> nv_graphs nov ! i = Some []" if "i < length (nv_graphs nov)" for i
    using that by (cases "nv_graphs nov ! i") (force simp: live_segments_def in_set_conv_nth)+
  then have "\<not> needs_tier_compaction nov w"
    using assms(2) by (fastforce simp: needs_tier_compaction_def list_ex_iff in_set_conv_nth split: option.splits)
  then show ?case
    using 0 by simp
next
  case (Suc n)
  obtain k nov1 gl1 where t: "tier_compact L w nov gl = (k, nov1, gl1)"
    using prod_cases3 by blast
  note sp = tier_compact_spec [OF assms(1) Suc.prems(1) t]
  note sh = tier_compact_shrinks [OF assms(1) Suc.prems(1,2) assms(2) t]
  have r: "compact_rounds L w n nov1 gl1 = (nov', gl')"
    using Suc.prems(4) by (simp add: t)
  show ?case
  proof (cases "k = 0")
    case True
    have u: "\<not> needs_tier_compaction nov w" "nov1 = nov" "gl1 = gl"
      using sp True by simp_all
    moreover have "compact_rounds L w n nov gl = (nov, gl)" for n
      by (induction n) (simp_all add: t u)
    ultimately show ?thesis
      using r Suc.prems(1,2) by simp
  next
    case False
    then have "1 \<le> k * (w - 1)"
      using assms(2) by simp
    then have "length (live_segments (nv_graphs nov1)) \<le> n"
      using sh Suc.prems(3) by linarith
    from Suc.IH [OF _ _ this r] sp sh show ?thesis
      by simp
  qed
qed

text \<open>With fewer than \<open>w\<close> segments in every class, a graph has few segments.\<close>

lemma seg_class_bound:
  assumes "2 \<le> w" "segment_wf L seg"
  shows "seg_class w seg \<le> 24"
proof -
  let ?n = "length (sg_flakes seg)"
  have n: "1 \<le> ?n" "?n \<le> 2 ^ 24"
    using assms(2) by (simp_all add: segment_wf_def MAX_values Suc_le_eq)
  then have "w ^ seg_class w seg \<le> 2 ^ 24"
    using size_class_log [OF assms(1) n(1)] by (simp add: seg_class_def)
  moreover have "(2::nat) ^ seg_class w seg \<le> w ^ seg_class w seg"
    using assms(1) by (rule power_mono) simp
  ultimately have "(2::nat) ^ seg_class w seg \<le> 2 ^ 24"
    by linarith
  then show ?thesis
    by (simp add: power_increasing_iff del: power_numeral)
qed

lemma segments_by_class: "\<forall>seg\<in>set segs. seg_class w seg < n \<Longrightarrow> length segs = (\<Sum>c<n. class_count w segs c)"
proof (induction segs)
  case (Cons seg segs)
  have "(\<Sum>c<n. class_count w (seg # segs) c) = (\<Sum>c<n. (if c = seg_class w seg then 1 else 0) + class_count w segs c)"
    by (intro sum.cong) (auto simp: class_count_def)
  then show ?case
    using Cons by (simp add: sum.distrib)
qed (simp add: class_count_def)

lemma drained_segment_count:
  assumes "2 \<le> w" "graphs_wf L (nv_graphs nov)" "\<not> needs_tier_compaction nov w"
  shows "segment_count nov g \<le> 25 * (w - 1)"
proof (cases "slot (nv_graphs nov) (unat g)")
  case (Some segs)
  have wf: "list_all (segment_wf L) segs"
    using graphs_wf_slot [OF assms(2) Some] by (simp add: segs_wf_def)
  have mem: "Some segs \<in> set (nv_graphs nov)"
    using Some by (auto simp: slot_def split: if_splits) (metis nth_mem)
  show ?thesis
  proof (cases "length segs < w")
    case True
    then show ?thesis
      using assms(1) Some by (simp add: segment_count_def)
  next
    case False
    have "class_count w segs c \<le> w - 1" for c
    proof (cases "c \<in> seg_class w ` set segs")
      case True
      then show ?thesis
        using assms(1,3) mem False by (fastforce simp: needs_tier_compaction_def list_ex_iff split: option.splits)
    next
      case False
      then have "class_count w segs c = 0"
        by (auto simp: class_count_def filter_empty_conv)
      then show ?thesis
        by simp
    qed
    then have "(\<Sum>c<25. class_count w segs c) \<le> (\<Sum>c<(25::nat). w - 1)"
      by (intro sum_mono)
    moreover have "\<forall>seg\<in>set segs. seg_class w seg < 25"
      using seg_class_bound [OF assms(1)] wf by (fastforce simp: list_all_iff)
    ultimately show ?thesis
      using segments_by_class [of segs w 25] Some by (simp add: segment_count_def)
  qed
qed (simp add: segment_count_def)

section \<open>Full segments\<close>

definition full_segments :: "nat \<Rightarrow> Segment list \<Rightarrow> bool" where
  "full_segments n segs \<longleftrightarrow> length segs = n \<and> list_all (\<lambda>seg. length (sg_flakes seg) = MAX_SEGMENT_FLAKES) segs"

lemma build_chunks_full: "length flakes = Suc k * MAX_SEGMENT_FLAKES \<Longrightarrow> full_segments (Suc k) (fst (build_chunks L flakes gl))"
proof (induction k arbitrary: flakes gl)
  case 0
  then show ?case
    by (subst build_chunks.simps) (simp add: Let_def case_prod_beta full_segments_def build_flakes)
next
  case (Suc k)
  have gt: "length flakes > MAX_SEGMENT_FLAKES"
    using Suc.prems by (simp add: MAX_values)
  let ?b = "Segment_build L (take MAX_SEGMENT_FLAKES flakes) gl"
  have "length (drop MAX_SEGMENT_FLAKES flakes) = Suc k * MAX_SEGMENT_FLAKES"
    using Suc.prems by simp
  from Suc.IH [OF this, of "snd ?b"] gt show ?case
    by (subst build_chunks.simps) (simp add: Let_def case_prod_beta full_segments_def build_flakes)
qed

lemma tier_take_all:
  "\<lbrakk>\<forall>seg\<in>set segs. seg_class w seg = c; m + length segs \<le> w\<rbrakk> \<Longrightarrow> tier_take w c m segs = ([], concat (map sg_flakes segs))"
  by (induction w c m segs rule: tier_take.induct) (simp_all add: Let_def)

text \<open>A pass over \<open>w\<close> full segments merges them, and leaves \<open>w\<close> full segments.\<close>

lemma full_segments_never_drain:
  assumes "2 \<le> w" "full_segments w segs"
  shows "case tier_compact_graph L w segs 0 0 gl of (segs', merges, gl') \<Rightarrow> merges = 1 \<and> full_segments w segs'"
proof -
  define c where "c = size_class_of MAX_SEGMENT_FLAKES w"
  have cls: "full_segments w xs \<Longrightarrow> \<forall>seg\<in>set xs. seg_class w seg = c" for xs
    by (simp add: full_segments_def list_all_iff seg_class_def c_def)
  have cnt: "full_segments w xs \<Longrightarrow> class_count w xs c = w" for xs
    using cls [of xs] by (simp add: class_count_def full_segments_def)
  obtain seg0 where seg0: "seg0 \<in> set segs"
    using assms by (cases segs) (auto simp: full_segments_def)
  then obtain c' where "target_class w segs 0 = Some c'"
    using target_class_None [of w segs 0] cnt [OF assms(2)] cls [OF assms(2)] by force
  moreover from this have "c' = c"
    using target_classD(3) cls [OF assms(2)] by fastforce
  ultimately have tc: "target_class w segs 0 = Some c"
    by simp
  obtain k where k: "w = Suc k"
    using assms(1) by (cases w) auto
  have "length (concat (map sg_flakes segs)) = Suc k * MAX_SEGMENT_FLAKES"
    using assms(2) unfolding k full_segments_def by (simp add: length_concat o_def list_all_iff sum_list_triv cong: map_cong)
  then have full: "full_segments w (fst (tier_merge L w c segs gl))"
    using tier_take_all [OF cls [OF assms(2)], of 0] assms(2) build_chunks_full [of _ k L gl]
    by (simp add: tier_merge_def case_prod_beta k full_segments_def)
  have "target_class w (fst (tier_merge L w c segs gl)) (c + 1) = None"
    using cls [OF full] by (simp add: target_class_None)
  then have "tier_compact_graph L w (fst (tier_merge L w c segs gl)) (c + 1) 1 gl1 = (fst (tier_merge L w c segs gl), 1, gl1)" for gl1
    by (subst tier_compact_graph.simps) simp
  moreover have "tier_compact_graph L w segs 0 0 gl =
      tier_compact_graph L w (fst (tier_merge L w c segs gl)) (c + 1) 1 (snd (tier_merge L w c segs gl))"
    using assms(2) tc by (subst tier_compact_graph.simps) (simp add: case_prod_beta Let_def full_segments_def)
  ultimately show ?thesis
    using full by simp
qed

end
