(* ===== verification/NoveltyLimits.thy ===== *)
theory NoveltyLimits
  imports NoveltyDrain
begin

text \<open>
  How much a novelty takes: a graph never has more segments than flakes, so a history of fewer flakes
  than a graph may have segments applies without an error.
\<close>

lemma segment_count_flakes:
  assumes "graphs_wf L (nv_graphs nov)"
  shows "segment_count nov g \<le> length (graph_flakes nov g)"
proof (cases "slot (nv_graphs nov) (unat g)")
  case (Some segs)
  have "list_all (\<lambda>seg. 1 \<le> length (sg_flakes seg)) segs"
    using graphs_wf_slot [OF assms Some] by (auto simp: segs_wf_def segment_wf_def list_all_iff Suc_le_eq)
  then have "length segs \<le> length (concat (map sg_flakes segs))"
    by (induction segs) auto
  then show ?thesis
    by (simp add: segment_count_def graph_flakes_def graph_segs_def Some)
qed (simp add: segment_count_def)

lemma commit_succeeds:
  assumes "graphs_wf L (nv_graphs nov)" "\<forall>f\<in>set flakes. \<exists>g. resolve_flake_g_id rg f = Inr g" "length flakes \<le> MAX_SEGMENT_FLAKES"
    "\<forall>g. length (graph_flakes nov g) < MAX_SEGMENTS"
  shows "fst (apply_commit L' flakes t rg nov gl) = None"
proof -
  have "check_segment_capacity nov g = None" for g
    using segment_count_flakes [OF assms(1), of g] assms(4) le_less_trans by (auto simp: capacity_count simp del: MAX_values)
  then show ?thesis
    using assms(2,3) by (simp add: can_apply_exact can_apply_def can_apply_loop_None del: MAX_values)
qed

lemma chain_succeeds:
  assumes "ordmap_laws L valid" "decimal_exact L" "novelty_wf L valid nov" "list_all ordered_flake (history_flakes bs)"
    "\<forall>f\<in>set (history_flakes bs). \<exists>g. resolve_flake_g_id rg f = Inr g"
    "\<forall>g. length (graph_flakes nov g) + length (history_flakes bs) < MAX_SEGMENTS"
  shows "\<exists>nov' gl'. apply_chain L bs rg nov gl = (None, nov', gl') \<and> novelty_wf L valid nov'"
  using assms(3-6)
proof (induction bs arbitrary: nov gl)
  case (Cons b bs)
  obtain flakes t where b: "b = (flakes, t)"
    by (cases b)
  have h: "history_flakes (b # bs) = flakes @ history_flakes bs"
    by (simp add: history_flakes_def b)
  have wf: "graphs_wf L (nv_graphs nov)"
    using Cons.prems(1) by (simp add: novelty_wf_def)
  have lim: "length (graph_flakes nov g) + (length flakes + length (history_flakes bs)) < 2 ^ 24" for g
    using Cons.prems(4) unfolding h by simp
  then have cap: "\<forall>g. length (graph_flakes nov g) < MAX_SEGMENTS" "length flakes \<le> MAX_SEGMENT_FLAKES"
    unfolding MAX_values using lim [of 0] by (blast dest: add_lessD1, linarith)
  have "fst (apply_commit L flakes t rg nov gl) = None"
    using Cons.prems(3) cap by (intro commit_succeeds [OF wf]) (simp_all add: h)
  then obtain nov1 gl1 where ac: "apply_commit L flakes t rg nov gl = (None, nov1, gl1)"
    by (metis prod.exhaust_sel)
  have ord: "list_all ordered_flake flakes"
    using Cons.prems(2) by (simp add: h)
  note sp = apply_commit_content [OF assms(1,2) Cons.prems(1) ord ac]
  have "length (graph_flakes nov1 g) \<le> length (graph_flakes nov g) + length flakes" for g
    using sp by (simp add: accepted_def)
  then have "length (graph_flakes nov1 g) + length (history_flakes bs) < 2 ^ 24" for g
    using lim [of g] by (metis add.assoc add_le_mono1 le_less_trans)
  then have "\<forall>g. length (graph_flakes nov1 g) + length (history_flakes bs) < MAX_SEGMENTS"
    unfolding MAX_values by blast
  moreover have "list_all ordered_flake (history_flakes bs)" "\<forall>f\<in>set (history_flakes bs). \<exists>g. resolve_flake_g_id rg f = Inr g"
    using Cons.prems(2,3) unfolding h by simp_all
  ultimately have "\<exists>nov' gl'. apply_chain L bs rg nov1 gl1 = (None, nov', gl') \<and> novelty_wf L valid nov'"
    using Cons.IH sp by blast
  then show ?case
    by (simp add: b ac)
qed simp

end
