(* ===== verification/NoveltySample.thy ===== *)
theory NoveltySample
  imports NoveltyLimits
begin

text \<open>
  A concrete library for the parameters of the model: the ordered map as an association list searched
  with the comparison of fact keys, and the exact value of a double. It satisfies the laws that the
  theorems about the novelty assume.
\<close>

definition sample_values :: value_lib where
  "sample_values = \<lparr>lb_bigint = (\<lambda>s. 0), lb_decimal = (\<lambda>s. 0), lb_decimal_of_f64 = (\<lambda>b. if f64_finite b then Some (f64_rat b) else None),
     lb_temporal = (\<lambda>d s. (0, 0)), lb_geo_bits = (\<lambda>a b. a)\<rparr>"

type_synonym assoc = "(FactKey \<times> int \<times> bool) list"

fun assoc_get :: "assoc \<Rightarrow> FactKey \<Rightarrow> (int \<times> bool) option" where
  "assoc_get [] k = None"
| "assoc_get ((k', v) # m) k = (if FactKey_cmp sample_values k' k = Equal then Some v else assoc_get m k)"

definition sample_novelty_lib :: "assoc novelty_lib" where
  "sample_novelty_lib = value_lib.extend sample_values \<lparr>om_new = [], om_get = assoc_get, om_insert = (\<lambda>m k v. (k, v) # m)\<rparr>"

definition assoc_valid :: "assoc \<Rightarrow> bool" where
  "assoc_valid m \<longleftrightarrow> list_all (\<lambda>e. ordered_key (fst e)) m"

definition FactKey_key :: "'a value_lib_scheme \<Rightarrow> FactKey \<Rightarrow> (u16 \<times> str) \<times> (u16 \<times> str) \<times> value_key \<times> (u16 \<times> str) \<times> nat \<times> (nat \<times> int) \<times> nat \<times> str" where
  "FactKey_key L k = (case k of (s, p, v, dt, m) \<Rightarrow> (Sid_key s, Sid_key p, value_key L v, Sid_key dt, meta_key m))"

lemma FactKey_cmp_key:
  assumes "decimal_exact L" "ordered_key a" "ordered_key b"
  shows "FactKey_cmp L a b = ord_cmp (FactKey_key L a) (FactKey_key L b)"
proof -
  obtain s p v dt m where a: "a = (s, p, v, dt, m)"
    by (cases a)
  obtain s' p' v' dt' m' where b: "b = (s', p', v', dt', m')"
    by (cases b)
  let ?f = "\<lparr>fl_g = None, fl_s = s, fl_p = p, fl_o = v, fl_dt = dt, fl_t = 0, fl_op = True, fl_m = m\<rparr>"
  let ?g = "\<lparr>fl_g = None, fl_s = s', fl_p = p', fl_o = v', fl_dt = dt', fl_t = 0, fl_op = True, fl_m = m'\<rparr>"
  have "(case (m, m') of (None, None) \<Rightarrow> Equal | (None, Some _) \<Rightarrow> Less | (Some _, None) \<Rightarrow> Greater
      | (Some x, Some y) \<Rightarrow> FlakeMeta_cmp x y) = cmp_meta ?f ?g"
    by (simp add: cmp_meta_def)
  then show ?thesis
    using assms by (simp add: FactKey_cmp_def FactKey_key_def a b ordered_key_def FlakeValue_cmp_key Sid_cmp_key cmp_meta_key then_with_ord_cmp)
qed

lemma sample_fields [simp]:
  "om_new sample_novelty_lib = []" "om_get sample_novelty_lib = assoc_get" "om_insert sample_novelty_lib m k v = (k, v) # m"
  "lb_bigint sample_novelty_lib = lb_bigint sample_values" "lb_decimal sample_novelty_lib = lb_decimal sample_values"
  "lb_decimal_of_f64 sample_novelty_lib = lb_decimal_of_f64 sample_values" "lb_temporal sample_novelty_lib = lb_temporal sample_values"
  "lb_geo_bits sample_novelty_lib = lb_geo_bits sample_values"
  by (simp_all add: sample_novelty_lib_def value_lib.defs sample_values_def)

lemma sample_exact: "decimal_exact sample_values" "decimal_exact sample_novelty_lib"
  by (simp_all add: decimal_exact_def) (simp_all add: sample_values_def)

lemma sample_key: "FactKey_key sample_novelty_lib k = FactKey_key sample_values k"
  unfolding FactKey_key_def value_key_def value_number_def value_instant_def sample_fields ..

lemma sample_cmp:
  "\<lbrakk>ordered_key a; ordered_key b\<rbrakk> \<Longrightarrow> FactKey_cmp sample_novelty_lib a b = FactKey_cmp sample_values a b"
  by (simp add: FactKey_cmp_key sample_exact sample_key)

lemma assoc_get_cong:
  assumes "assoc_valid m" "ordered_key a" "ordered_key b" "FactKey_cmp sample_values a b = Equal"
  shows "assoc_get m a = assoc_get m b"
  using assms(1)
proof (induction m)
  case (Cons e m)
  obtain k v where e: "e = (k, v)"
    by (cases e)
  have "FactKey_key sample_values a = FactKey_key sample_values b" "ordered_key k" "assoc_valid m"
    using assms(2-4) Cons.prems by (simp_all add: FactKey_cmp_key sample_exact e assoc_valid_def)
  then show ?case
    using Cons.IH assms(2,3) unfolding e assoc_get.simps by (simp add: FactKey_cmp_key sample_exact)
qed simp

lemma sample_laws: "ordmap_laws sample_novelty_lib assoc_valid"
  unfolding ordmap_laws_def
proof (intro conjI allI impI)
  show "assoc_valid (om_new sample_novelty_lib)"
    by (simp add: assoc_valid_def)
  fix m v and k k' :: FactKey
  show "om_get sample_novelty_lib (om_new sample_novelty_lib) k = None"
    by simp
  assume m: "assoc_valid m" and k: "ordered_key k"
  show "assoc_valid (om_insert sample_novelty_lib m k v)"
    using m k by (simp add: assoc_valid_def)
  assume k': "ordered_key k'"
  show "om_get sample_novelty_lib (om_insert sample_novelty_lib m k v) k' =
      (if FactKey_cmp sample_novelty_lib k k' = Equal then Some v else om_get sample_novelty_lib m k')"
    using k k' by (simp add: sample_cmp)
  assume "FactKey_cmp sample_novelty_lib k k' = Equal"
  then show "om_get sample_novelty_lib m k = om_get sample_novelty_lib m k'"
    using assoc_get_cong [OF m k k'] k k' by (simp add: sample_cmp)
qed

end
