(* ===== verification/FlakeEquality.thy ===== *)
theory FlakeEquality
  imports NoveltyAttachments
begin

text \<open>
  Equality of values and flakes (\<open>PartialEq\<close> of \<open>FlakeValue\<close> and \<open>Flake\<close>, \<open>EdgeKey::matches\<close>) and
  its agreement with the order: on ordered values other than vectors two values are equal exactly when
  they compare as equal. Vectors compare numbers but are equal by bits, so zeros of both signs
  separate the two.
\<close>

definition FlakeValue_eq :: "'a value_lib_scheme \<Rightarrow> FlakeValue \<Rightarrow> FlakeValue \<Rightarrow> bool" where
  "FlakeValue_eq L v w =
    (if is_numeric v \<and> is_numeric w then numeric_cmp L v w = Some Equal
     else if is_temporal v \<and> is_temporal w then
       (case temporal_cmp L v w of Some c \<Rightarrow> c = Equal | None \<Rightarrow> False)
     else if is_duration v \<and> is_duration w then
       (case temporal_cmp L v w of Some c \<Rightarrow> c = Equal | None \<Rightarrow> False)
     else (case (v, w) of
         (FV_Null, FV_Null) \<Rightarrow> True
       | (FV_Ref a, FV_Ref b) \<Rightarrow> a = b
       | (FV_Boolean a, FV_Boolean b) \<Rightarrow> a = b
       | (FV_String a, FV_String b) \<Rightarrow> a = b
       | (FV_Json a, FV_Json b) \<Rightarrow> a = b
       | (FV_Vector a, FV_Vector b) \<Rightarrow> length a = length b \<and> list_all (\<lambda>(x, y). x = y) (zip a b)
       | (FV_GeoPoint a b, FV_GeoPoint c d) \<Rightarrow> lb_geo_bits L a b = lb_geo_bits L c d
       | _ \<Rightarrow> False))"

definition Flake_eq :: "'a value_lib_scheme \<Rightarrow> Flake \<Rightarrow> Flake \<Rightarrow> bool" where
  "Flake_eq L a b \<longleftrightarrow> fl_s a = fl_s b \<and> fl_p a = fl_p b \<and> FlakeValue_eq L (fl_o a) (fl_o b) \<and> fl_dt a = fl_dt b \<and> fl_m a = fl_m b"

definition EdgeKey_matches :: "'a value_lib_scheme \<Rightarrow> EdgeKey \<Rightarrow> Flake \<Rightarrow> bool" where
  "EdgeKey_matches L e f =
    (if ek_g e \<noteq> fl_g f \<or> ek_s e \<noteq> fl_s f \<or> ek_p e \<noteq> fl_p f \<or> ek_dt e \<noteq> fl_dt f \<or> \<not> FlakeValue_eq L (ek_o e) (fl_o f) then False
     else
       let (flake_lang, flake_list_i) = (case fl_m f of Some meta \<Rightarrow> (fm_lang meta, fm_i meta) | None \<Rightarrow> (None, None))
       in ek_lang e = flake_lang \<and> ek_list_i e = flake_list_i)"

lemma ord_cmp_Equal [simp]: "ord_cmp a b = Equal \<longleftrightarrow> a = b"
  by (auto simp: ord_cmp_def)

lemma zip_all_eq: "length a = length b \<and> list_all (\<lambda>(x, y). x = y) (zip a b) \<longleftrightarrow> a = b"
  by (auto simp: list_all_iff list_eq_iff_zip_eq)

definition is_vector :: "FlakeValue \<Rightarrow> bool" where
  "is_vector v = (case v of FV_Vector _ \<Rightarrow> True | _ \<Rightarrow> False)"

lemma FlakeValue_eq_key:
  assumes "decimal_exact L" "ordered_value v" "ordered_value w" "\<not> (is_vector v \<and> is_vector w)"
  shows "FlakeValue_eq L v w \<longleftrightarrow> value_key L v = value_key L w"
proof (cases "is_numeric v \<and> is_numeric w")
  case True
  then show ?thesis
    using numeric_cmp_key [OF assms(1-3)] numeric_key [of v w L] by (simp add: FlakeValue_eq_def) (metis ord_cmp_Equal)
next
  case False
  then show ?thesis
    using assms(2-4)
    by (cases v; cases w)
      (auto simp: FlakeValue_eq_def is_vector_def value_key_defs is_numeric_def is_temporal_def is_duration_def temporal_cmp_def
         temporal_text_def type_discriminant_def Let_def Duration_partial_cmp_def Sid_key_def prod_eq_iff split: if_splits dest: unsigned_word_eqI)
qed

lemma FlakeValue_eq_cmp:
  "\<lbrakk>decimal_exact L; ordered_value v; ordered_value w; \<not> (is_vector v \<and> is_vector w)\<rbrakk> \<Longrightarrow>
     FlakeValue_eq L v w \<longleftrightarrow> FlakeValue_cmp L v w = Equal"
  by (simp add: FlakeValue_eq_key FlakeValue_cmp_key)

text \<open>The zeros of both signs as vectors: equal in the order, not equal.\<close>

lemma vector_zero_eq_not_cmp:
  "FlakeValue_cmp L (FV_Vector [0]) (FV_Vector [0x8000000000000000]) = Equal"
  "\<not> FlakeValue_eq L (FV_Vector [0]) (FV_Vector [0x8000000000000000])"
  by (simp_all add: FlakeValue_cmp_def same_type_cmp_def Vector_cmp_def f64_or_bits_cmp_def f64_partial_cmp_def f64_ext_def f64_rat_def
      f64_finite_def f64_nan_def f64_exponent_def f64_mantissa_def f64_negative_def FlakeValue_eq_def is_numeric_def is_temporal_def is_duration_def)

text \<open>An edge matches the flakes with its key.\<close>

lemma EdgeKey_matches_from_flake:
  assumes "decimal_exact L" "ordered_flake f" "\<not> is_vector (fl_o f)"
  shows "EdgeKey_matches L (EdgeKey_from_flake f) f"
  using FlakeValue_eq_cmp [of L "fl_o f" "fl_o f"] assms
  by (auto simp: EdgeKey_matches_def EdgeKey_from_flake_def ordered_flake_def FlakeValue_cmp_key Let_def split: option.split)

end
