(* ===== verification/NoveltyAnnotations.thy ===== *)
theory NoveltyAnnotations
  imports FlakeEquality "HOL-Library.Option_ord"
begin

text \<open>
  The reads of the attachment overlay and what they return after bundles were observed. The laws of
  the ordered maps are lemmas of the locale \<open>keyed_order\<close>; the overlay uses them for the order of
  edge keys and for the order of Sids.
\<close>

section \<open>The remaining operations\<close>

definition has_annotations :: "AttachmentNovelty \<Rightarrow> bool" where
  "has_annotations att = an_has_annotations att"

definition observed_malformed_bundle_count :: "AttachmentNovelty \<Rightarrow> u64" where
  "observed_malformed_bundle_count att = an_observed_malformed_bundles att"

definition current_annotations_for :: "'a value_lib_scheme \<Rightarrow> AttachmentNovelty \<Rightarrow> EdgeKey \<Rightarrow> Sid list" where
  "current_annotations_for L att edge = current_annotations_for_at L att edge i64_MAX"

definition current_targets_for :: "'a value_lib_scheme \<Rightarrow> AttachmentNovelty \<Rightarrow> Sid \<Rightarrow> EdgeKey list" where
  "current_targets_for L att ann = current_targets_for_at L att ann i64_MAX"

definition target_history :: "AttachmentNovelty \<Rightarrow> Sid \<Rightarrow> ReverseRow list" where
  "target_history att ann = (case btree_get Sid_cmp ann (an_reverse att) of Some rows \<Rightarrow> rows | None \<Rightarrow> [])"

definition forward_history :: "'a value_lib_scheme \<Rightarrow> AttachmentNovelty \<Rightarrow> EdgeKey \<Rightarrow> ForwardRow list" where
  "forward_history L att edge = (case btree_get (EdgeKey_cmp L) edge (an_forward att) of Some rows \<Rightarrow> rows | None \<Rightarrow> [])"

definition collect_forward_events :: "'a value_lib_scheme \<Rightarrow> AttachmentNovelty \<Rightarrow> EdgeKey \<Rightarrow> (Sid \<times> int \<times> bool) list" where
  "collect_forward_events L att edge =
    (case map_option (map (\<lambda>r. (fr_ann r, fr_t r, fr_op r))) (btree_get (EdgeKey_cmp L) edge (an_forward att)) of Some evs \<Rightarrow> evs | None \<Rightarrow> [])"

definition collect_reverse_events :: "AttachmentNovelty \<Rightarrow> Sid \<Rightarrow> (EdgeKey \<times> int \<times> bool) list" where
  "collect_reverse_events att ann =
    (case map_option (map (\<lambda>r. (rr_edge r, rr_t r, rr_op r))) (btree_get Sid_cmp ann (an_reverse att)) of Some evs \<Rightarrow> evs | None \<Rightarrow> [])"

definition iter_event_pairs :: "AttachmentNovelty \<Rightarrow> (EdgeKey \<times> Sid \<times> int \<times> bool) list" where
  "iter_event_pairs att = concat (map (\<lambda>(edge, rows). map (\<lambda>r. (edge, fr_ann r, fr_t r, fr_op r)) rows) (an_forward att))"

definition distinct_edges :: "AttachmentNovelty \<Rightarrow> nat" where
  "distinct_edges att = length (an_forward att)"

definition distinct_annotations :: "AttachmentNovelty \<Rightarrow> nat" where
  "distinct_annotations att = length (an_reverse att)"

section \<open>Ordered maps\<close>

definition btree_ok :: "('k \<Rightarrow> 'o::linorder) \<Rightarrow> ('k \<Rightarrow> bool) \<Rightarrow> ('k \<times> 'v) list \<Rightarrow> bool" where
  "btree_ok key dm m \<longleftrightarrow> list_all (\<lambda>e. dm (fst e)) m \<and> sorted_wrt (<) (map (\<lambda>e. key (fst e)) m)"

context keyed_order
begin

lemma btree_entry_keys:
  assumes "dm k" "list_all (\<lambda>e. dm (fst e)) m"
  shows "list_all (\<lambda>e. dm (fst e)) (btree_entry cmp k upd m)"
    "(\<lambda>e. key (fst e)) ` set (btree_entry cmp k upd m) = insert (key k) ((\<lambda>e. key (fst e)) ` set m)"
proof -
  have "list_all (\<lambda>e. dm (fst e)) (btree_entry cmp k upd m) \<and>
      (\<lambda>e. key (fst e)) ` set (btree_entry cmp k upd m) = insert (key k) ((\<lambda>e. key (fst e)) ` set m)"
    using assms(2)
  proof (induction m)
    case (Cons e m)
    obtain k' v where e: "e = (k', v)"
      by (cases e)
    have c: "cmp k k' = ord_cmp (key k) (key k')"
      using assms(1) Cons.prems by (simp add: cmp_key e)
    show ?case
      using Cons assms(1) by (cases "cmp k k'") (auto simp: e c ord_cmp_def insert_commute split: if_splits)
  qed (use assms(1) in simp)
  then show "list_all (\<lambda>e. dm (fst e)) (btree_entry cmp k upd m)"
    "(\<lambda>e. key (fst e)) ` set (btree_entry cmp k upd m) = insert (key k) ((\<lambda>e. key (fst e)) ` set m)"
    by blast+
qed

lemma btree_entry_ok:
  assumes "dm k" "btree_ok key dm m"
  shows "btree_ok key dm (btree_entry cmp k upd m)"
  using assms(2)
proof (induction m)
  case (Cons e m)
  obtain k' v where e: "e = (k', v)"
    by (cases e)
  have m: "btree_ok key dm m" "dm k'" "\<forall>x\<in>set m. key k' < key (fst x)" "list_all (\<lambda>e. dm (fst e)) m"
    using Cons.prems by (auto simp: e btree_ok_def)
  have "key k' < key (fst x)" if x: "x \<in> set (btree_entry cmp k upd m)" "key k' < key k" for x
  proof -
    have "key (fst x) \<in> insert (key k) ((\<lambda>e. key (fst e)) ` set m)"
      unfolding btree_entry_keys(2) [OF assms(1) m(4), of upd, symmetric] using x(1) by (rule imageI)
    then show ?thesis
      using x(2) m(3) by auto
  qed
  moreover have "cmp k k' = ord_cmp (key k) (key k')"
    by (rule cmp_key [OF assms(1) m(2)])
  ultimately show ?case
    using Cons.IH [OF m(1)] m assms(1)
    by (cases "key k" "key k'" rule: linorder_cases) (auto simp: e btree_ok_def ord_cmp_def list_all_iff)
qed (use assms(1) in \<open>simp add: btree_ok_def\<close>)

lemma btree_get_entry:
  assumes "dm k" "dm j" "btree_ok key dm m"
  shows "btree_get cmp j (btree_entry cmp k upd m) = (if key j = key k then Some (upd (btree_get cmp k m)) else btree_get cmp j m)"
  using assms(3)
proof (induction m)
  case (Cons e m)
  obtain k' v where e: "e = (k', v)"
    by (cases e)
  have m: "btree_ok key dm m" "dm k'" "\<forall>x\<in>set m. key k' < key (fst x)" "\<forall>x\<in>set m. dm (fst x)"
    using Cons.prems by (auto simp: e btree_ok_def list_all_iff)
  have absent: "btree_get cmp k m = None" if "key k \<le> key k'"
    using m(3,4) that assms(1) by (induction m) (auto simp: cmp_key)
  show ?case
    using Cons.IH m assms(1,2) absent by (cases "cmp k k'") (auto simp: e cmp_key ord_cmp_def split: if_splits)
qed (use assms in \<open>simp add: cmp_key\<close>)

lemma btree_get_mem:
  assumes "dm k" "btree_ok key dm m"
  shows "btree_get cmp k m = Some v \<longleftrightarrow> (\<exists>j. key j = key k \<and> (j, v) \<in> set m)"
  using assms(2)
proof (induction m)
  case (Cons e m)
  obtain k' w where e: "e = (k', w)"
    by (cases e)
  have m: "btree_ok key dm m" "dm k'" "\<forall>x\<in>set m. key k' < key (fst x)"
    using Cons.prems by (auto simp: e btree_ok_def)
  show ?case
  proof (cases "key k' = key k")
    case True
    then have "(j, v) \<notin> set m" if "key j = key k" for j
      using m(3) that by force
    then show ?thesis
      using True m(2) assms(1) by (auto simp: e cmp_key)
  next
    case False
    then show ?thesis
      using Cons.IH [OF m(1)] m(2) assms(1) by (auto simp: e cmp_key)
  qed
qed simp

end

section \<open>Edge keys in order\<close>

lemma cmp_option_key:
  assumes "\<And>x y. cmp x y = ord_cmp (h x) (h y)"
  shows "cmp_option cmp a b = ord_cmp (map_option h a) (map_option h b)"
  by (cases a; cases b) (simp_all add: cmp_option_def assms ord_cmp_def)

definition ordered_edge :: "EdgeKey \<Rightarrow> bool" where
  "ordered_edge e \<longleftrightarrow> ordered_value (ek_o e)"

definition EdgeKey_key :: "'a value_lib_scheme \<Rightarrow> EdgeKey
    \<Rightarrow> (u16 \<times> str) option \<times> (u16 \<times> str) \<times> (u16 \<times> str) \<times> value_key \<times> (u16 \<times> str) \<times> str option \<times> int option" where
  "EdgeKey_key L e = (map_option Sid_key (ek_g e), Sid_key (ek_s e), Sid_key (ek_p e), value_key L (ek_o e), Sid_key (ek_dt e),
     map_option id (ek_lang e), map_option sint (ek_list_i e))"

lemma edge_order: "decimal_exact L \<Longrightarrow> keyed_order (EdgeKey_cmp L) (EdgeKey_key L) ordered_edge"
  by unfold_locales
    (simp add: EdgeKey_cmp_def EdgeKey_key_def ordered_edge_def FlakeValue_cmp_key Sid_cmp_key then_with_ord_cmp
       cmp_option_key [of Sid_cmp Sid_key] cmp_option_key [of ord_cmp id] cmp_option_key [of "\<lambda>i j. ord_cmp (sint i) (sint j)" sint])

definition overlay_ok :: "'a value_lib_scheme \<Rightarrow> AttachmentNovelty \<Rightarrow> bool" where
  "overlay_ok L att \<longleftrightarrow> btree_ok (EdgeKey_key L) ordered_edge (an_forward att) \<and> btree_ok Sid_key (\<lambda>_. True) (an_reverse att)"

lemma overlay_ok_new: "overlay_ok L AttachmentNovelty_new"
  by (simp add: overlay_ok_def AttachmentNovelty_new_def btree_ok_def)

section \<open>The latest event of a row target\<close>

lemma Sid_key_eq [simp]: "Sid_key a = Sid_key b \<longleftrightarrow> a = b"
  by (cases a; cases b) (simp add: Sid_key_def)


definition visible_events :: "Sid \<Rightarrow> (Sid \<times> int \<times> bool) list \<Rightarrow> int \<Rightarrow> (int \<times> bool) set" where
  "visible_events x rows as_of_t = {(t, b). (x, t, b) \<in> set rows \<and> t \<le> as_of_t}"

lemma visible_events_finite: "finite (visible_events x rows as_of_t)"
  by (rule finite_subset [of _ "snd ` set rows"]) (force simp: visible_events_def, simp)

lemma visible_events_snoc:
  "visible_events x (rows @ [(y, t, b)]) as_of_t = (if x = y \<and> t \<le> as_of_t then insert (t, b) else id) (visible_events x rows as_of_t)"
  by (auto simp: visible_events_def)

lemma latest_fold:
  defines "step \<equiv> \<lambda>as_of_t. \<lambda>(k, t, b) m. if as_of_t < t then m
     else btree_entry Sid_cmp k (\<lambda>cur. case cur of None \<Rightarrow> (t, b) | Some c \<Rightarrow> if c \<le> (t, b) then (t, b) else c) m"
  shows "btree_ok Sid_key (\<lambda>_. True) (fold (step as_of_t) rows []) \<and>
    btree_get Sid_cmp x (fold (step as_of_t) rows []) =
      (if visible_events x rows as_of_t = {} then None else Some (Max (visible_events x rows as_of_t)))"
proof (induction rows rule: rev_induct)
  case Nil
  then show ?case
    by (simp add: btree_ok_def visible_events_def)
next
  case (snoc r rows)
  obtain y t b where r: "r = (y, t, b)"
    by (cases r)
  let ?m = "fold (step as_of_t) rows []"
  have f: "fold (step as_of_t) (rows @ [r]) [] = (if as_of_t < t then ?m
      else btree_entry Sid_cmp y (\<lambda>cur. case cur of None \<Rightarrow> (t, b) | Some c \<Rightarrow> if c \<le> (t, b) then (t, b) else c) ?m)"
    by (simp add: step_def r)
  show ?case
  proof (cases "as_of_t < t")
    case True
    then show ?thesis
      unfolding f using snoc by (simp add: r visible_events_snoc)
  next
    case False
    have ok: "btree_ok Sid_key (\<lambda>_. True) ?m"
      using snoc by blast
    let ?V = "visible_events x rows as_of_t"
    have mx: "Max (insert (t, b) (visible_events z rows as_of_t)) =
        (if Max (visible_events z rows as_of_t) \<le> (t, b) then (t, b) else Max (visible_events z rows as_of_t))" if "visible_events z rows as_of_t \<noteq> {}" for z
      unfolding Max_insert [OF visible_events_finite that] max_def by (metis linear order_antisym)
    have V: "visible_events x (rows @ [r]) as_of_t = (if x = y then insert (t, b) ?V else ?V)"
      using False by (simp add: r visible_events_snoc)
    have IH: "btree_get Sid_cmp x ?m = (if ?V = {} then None else Some (Max ?V))"
      using snoc by blast
    have "btree_get Sid_cmp x (fold (step as_of_t) (rows @ [r]) []) =
        (if x = y then Some (case btree_get Sid_cmp x ?m of None \<Rightarrow> (t, b) | Some c \<Rightarrow> if c \<le> (t, b) then (t, b) else c) else btree_get Sid_cmp x ?m)"
      unfolding f using False ix_sid.btree_get_entry [OF TrueI TrueI ok] by simp
    then have "btree_get Sid_cmp x (fold (step as_of_t) (rows @ [r]) []) =
        (if visible_events x (rows @ [r]) as_of_t = {} then None else Some (Max (visible_events x (rows @ [r]) as_of_t)))"
      unfolding IH V by (cases "x = y"; cases "?V = {}") (simp_all only: mx if_True if_False option.case insert_not_empty simp_thms Max_singleton)
    then show ?thesis
      unfolding f using False ix_sid.btree_entry_ok [OF TrueI ok] by simp
  qed
qed

lemma latest_assertions_mem:
  "x \<in> set (latest_assertions_at Sid_cmp rows as_of_t) \<longleftrightarrow>
     visible_events x rows as_of_t \<noteq> {} \<and> snd (Max (visible_events x rows as_of_t))"
proof -
  let ?m = "fold (\<lambda>(k, t, b) m. if as_of_t < t then m
     else btree_entry Sid_cmp k (\<lambda>cur. case cur of None \<Rightarrow> (t, b) | Some c \<Rightarrow> if c \<le> (t, b) then (t, b) else c) m) rows []"
  have "x \<in> set (latest_assertions_at Sid_cmp rows as_of_t) \<longleftrightarrow> (\<exists>v. (x, v) \<in> set ?m \<and> snd v)"
    unfolding latest_assertions_at_def by force
  also have "\<dots> \<longleftrightarrow> (\<exists>v. btree_get Sid_cmp x ?m = Some v \<and> snd v)"
    using ix_sid.btree_get_mem [OF TrueI conjunct1 [OF latest_fold]] by simp
  also have "\<dots> \<longleftrightarrow> visible_events x rows as_of_t \<noteq> {} \<and> snd (Max (visible_events x rows as_of_t))"
    unfolding conjunct2 [OF latest_fold] by (auto simp del: split_paired_Ex)
  finally show ?thesis .
qed

lemma current_annotations_mem:
  "x \<in> set (current_annotations_for_at L att edge as_of_t) \<longleftrightarrow>
    (let S = visible_events x (map (\<lambda>r. (fr_ann r, fr_t r, fr_op r)) (forward_history L att edge)) as_of_t in S \<noteq> {} \<and> snd (Max S))"
  by (cases "btree_get (EdgeKey_cmp L) edge (an_forward att)")
    (simp_all add: current_annotations_for_at_def forward_history_def latest_assertions_mem visible_events_def)

section \<open>Observing a bundle\<close>

lemma bundle_cmp_refl [simp]: "bundle_cmp k k = Equal"
  by (cases k) (simp add: bundle_cmp_def cmp_option_def Sid_cmp_key split: option.split)

lemma bundles_of_single:
  assumes "flakes \<noteq> []" "\<forall>f\<in>set flakes. is_reserved_reifies_predicate (fl_p f) \<and> (fl_g f, fl_s f, flake_t f, fl_op f) = k"
  shows "bundles_of flakes = [(k, flakes)]"
proof -
  let ?step = "\<lambda>f m. if is_reserved_reifies_predicate (fl_p f) then btree_entry bundle_cmp (fl_g f, fl_s f, flake_t f, fl_op f) (push_to f) m else m"
  have "\<forall>f\<in>set fs. is_reserved_reifies_predicate (fl_p f) \<and> (fl_g f, fl_s f, flake_t f, fl_op f) = k \<Longrightarrow>
      fold ?step fs [(k, xs)] = [(k, xs @ fs)]" for fs xs
    by (induction fs arbitrary: xs) (simp_all add: push_to_def)
  then show ?thesis
    using assms by (cases flakes) (simp_all add: bundles_of_def push_to_def)
qed

lemma reifies_bundle:
  "bundles_of (to_reifies_facts_jsonld_compatible e ann t b) = [((ek_g e, ann, sint t, b), to_reifies_facts_jsonld_compatible e ann t b)]"
  by (rule bundles_of_single; cases "ek_g e"; cases "ek_lang e")
    (simp_all add: to_reifies_facts_jsonld_compatible_def to_reifies_facts_def Let_def flake_t_def)

definition event_of :: "Sid \<Rightarrow> u64 \<Rightarrow> bool \<Rightarrow> ForwardRow" where
  "event_of ann t b = \<lparr>fr_ann = ann, fr_t = sint t, fr_op = b\<rparr>"

lemma observe_reifies:
  assumes "ek_list_i e = None"
  shows "observe_flakes L (to_reifies_facts_jsonld_compatible e ann t b) att =
    att\<lparr>an_forward := btree_entry (EdgeKey_cmp L) e (push_to (event_of ann t b)) (an_forward att),
        an_reverse := btree_entry Sid_cmp ann (push_to \<lparr>rr_edge = e, rr_t = sint t, rr_op = b\<rparr>) (an_reverse att),
        an_has_annotations := True\<rparr>"
  using round_trip_jsonld [OF assms, of ann t b] by (simp add: observe_flakes_def reifies_bundle observe_bundle_def event_of_def)

lemma observe_reifies_rows:
  assumes "decimal_exact L" "overlay_ok L att" "ordered_edge e" "ek_list_i e = None"
    "att' = observe_flakes L (to_reifies_facts_jsonld_compatible e ann t b) att"
  shows "overlay_ok L att'"
    "ordered_edge e' \<Longrightarrow> forward_history L att' e' =
       forward_history L att e' @ (if EdgeKey_cmp L e' e = Equal then [event_of ann t b] else [])"
    "target_history att' a = target_history att a @ (if a = ann then [\<lparr>rr_edge = e, rr_t = sint t, rr_op = b\<rparr>] else [])"
proof -
  note fw = edge_order [OF assms(1)]
  have ok: "btree_ok (EdgeKey_key L) ordered_edge (an_forward att)" "btree_ok Sid_key (\<lambda>_. True) (an_reverse att)"
    using assms(2) by (simp_all add: overlay_ok_def)
  show "overlay_ok L att'"
    using keyed_order.btree_entry_ok [OF fw assms(3) ok(1)] ix_sid.btree_entry_ok [OF TrueI ok(2)]
    by (simp add: assms(5) observe_reifies [OF assms(4)] overlay_ok_def)
  show "target_history att' a = target_history att a @ (if a = ann then [\<lparr>rr_edge = e, rr_t = sint t, rr_op = b\<rparr>] else [])"
    using ix_sid.btree_get_entry [OF TrueI TrueI ok(2)]
    by (simp add: assms(5) observe_reifies [OF assms(4)] target_history_def push_to_def split: option.split)
  assume e': "ordered_edge e'"
  have "EdgeKey_cmp L e' e = Equal \<longleftrightarrow> EdgeKey_key L e' = EdgeKey_key L e"
    using keyed_order.cmp_key [OF fw e' assms(3)] by simp
  moreover have "btree_get (EdgeKey_cmp L) e' m = btree_get (EdgeKey_cmp L) e m" if "EdgeKey_key L e' = EdgeKey_key L e" "list_all (\<lambda>x. ordered_edge (fst x)) m"
    for m :: "(EdgeKey \<times> ForwardRow list) list"
    using that(2) by (induction m) (auto simp: keyed_order.cmp_key [OF fw] e' assms(3) that(1))
  ultimately show "forward_history L att' e' = forward_history L att e' @ (if EdgeKey_cmp L e' e = Equal then [event_of ann t b] else [])"
    using keyed_order.btree_get_entry [OF fw assms(3) e' ok(1)] ok(1)
    by (auto simp: assms(5) observe_reifies [OF assms(4)] forward_history_def push_to_def btree_ok_def split: option.split)
qed

text \<open>
  Writing and reading back: when every event of the annotation on the edge is older than the bundle, the
  annotation is current from the time of the bundle on exactly if the bundle asserts it.
\<close>

lemma annotation_current:
  assumes "decimal_exact L" "overlay_ok L att" "ordered_edge e" "ek_list_i e = None"
    "\<forall>r\<in>set (forward_history L att e). fr_ann r = ann \<longrightarrow> fr_t r < sint t" "sint t \<le> as_of_t"
  shows "ann \<in> set (current_annotations_for_at L (observe_flakes L (to_reifies_facts_jsonld_compatible e ann t b) att) e as_of_t) \<longleftrightarrow> b"
proof -
  let ?att = "observe_flakes L (to_reifies_facts_jsonld_compatible e ann t b) att"
  have "forward_history L ?att e = forward_history L att e @ [event_of ann t b]"
    using observe_reifies_rows(2) [OF assms(1-4) refl assms(3)] keyed_order.cmp_key [OF edge_order [OF assms(1)] assms(3,3)] by simp
  then have V: "visible_events ann (map (\<lambda>r. (fr_ann r, fr_t r, fr_op r)) (forward_history L ?att e)) as_of_t =
      insert (sint t, b) (visible_events ann (map (\<lambda>r. (fr_ann r, fr_t r, fr_op r)) (forward_history L att e)) as_of_t)"
    using assms(6) by (simp add: event_of_def visible_events_snoc)
  have "Max (insert (sint t, b) (visible_events ann (map (\<lambda>r. (fr_ann r, fr_t r, fr_op r)) (forward_history L att e)) as_of_t)) = (sint t, b)"
  proof (rule Max_eqI)
    fix y
    assume "y \<in> insert (sint t, b) (visible_events ann (map (\<lambda>r. (fr_ann r, fr_t r, fr_op r)) (forward_history L att e)) as_of_t)"
    then show "y \<le> (sint t, b)"
      using assms(5) by (cases y) (auto simp: visible_events_def)
  qed (simp_all add: visible_events_finite)
  then show ?thesis
    by (simp add: current_annotations_mem V)
qed

end
