(* ===== verification/NoveltyProperties.thy ===== *)
theory NoveltyProperties
  imports NoveltySample NoveltyAnnotations
begin

text \<open>
  The properties of the novelty and of the flake orders it is built on, with concrete runs on the
  sample library.
\<close>

section \<open>A sample history\<close>

definition sample_sid :: "nat \<Rightarrow> Sid" where
  "sample_sid n = \<lparr>sid_namespace_code = 100, sid_name = [of_nat n]\<rparr>"

definition sample_flake :: "nat \<Rightarrow> nat \<Rightarrow> nat \<Rightarrow> bool \<Rightarrow> Flake" where
  "sample_flake s v t b = \<lparr>fl_g = None, fl_s = sample_sid s, fl_p = sample_sid 7, fl_o = FV_Long (of_nat v), fl_dt = sample_sid 8,
     fl_t = of_nat t, fl_op = b, fl_m = None\<rparr>"

definition sample_globals :: globals where
  "sample_globals = \<lparr>next_seg_id = 0, next_content_version = 0\<rparr>"

definition sample_history :: "(Flake list \<times> int) list" where
  "sample_history = [([sample_flake 1 5 1 True, sample_flake 2 6 1 True], 1), ([sample_flake 1 5 2 True, sample_flake 2 6 2 False], 2)]"

definition sample_novelty :: "assoc Novelty" where
  "sample_novelty = fst (snd (apply_chain sample_novelty_lib sample_history hm_empty (Novelty_new 0) sample_globals))"

lemma sample_ordered [simp]: "ordered_flake (sample_flake s v t b)"
  by (simp add: sample_flake_def ordered_flake_def ordered_value_def)

lemma sample_resolve [simp]: "resolve_flake_g_id rg (sample_flake s v t b) = Inr 0"
  by (simp add: sample_flake_def resolve_flake_g_id_def)

lemma sample_t: "t < 2 ^ 63 \<Longrightarrow> flake_t (sample_flake s v t b) = int t"
  by (simp add: sample_flake_def flake_t_def signed_of_nat signed_take_bit_int_eq_self)

lemma sample_distinct : "same_identity L (sample_flake s v t b) (sample_flake s' v' t' b') \<Longrightarrow> sample_sid s = sample_sid s'"
  by (simp add: same_identity_def sample_flake_def)

lemma sample_history_ok: "history_ok sample_novelty_lib hm_empty sample_history"
  by (auto simp: history_ok_def sample_history_def batch_ok_def sample_t sample_sid_def dest!: sample_distinct)

lemma sample_chain: "\<exists>gl'. apply_chain sample_novelty_lib sample_history hm_empty (Novelty_new 0) sample_globals = (None, sample_novelty, gl') \<and>
    novelty_wf sample_novelty_lib assoc_valid sample_novelty"
proof -
  have "\<exists>nov' gl'. apply_chain sample_novelty_lib sample_history hm_empty (Novelty_new 0) sample_globals = (None, nov', gl') \<and>
      novelty_wf sample_novelty_lib assoc_valid nov'"
    by (rule chain_succeeds [OF sample_laws sample_exact(2) novelty_wf_new]) (simp_all add: sample_history_def history_flakes_def)
  then show ?thesis
    by (auto simp: sample_novelty_def)
qed

lemma sample_wf: "novelty_wf sample_novelty_lib assoc_valid sample_novelty"
  using sample_chain by blast

lemma sample_graphs_wf: "graphs_wf sample_novelty_lib (nv_graphs sample_novelty)"
  using sample_wf by (simp add: novelty_wf_def)

section \<open>Applying commits\<close>

text \<open>The latest operation on the fact of \<open>f\<close> among the flakes of \<open>content\<close> is an assertion.\<close>

definition asserted_in :: "'a value_lib_scheme \<Rightarrow> Flake list \<Rightarrow> Flake \<Rightarrow> bool" where
  "asserted_in L content f \<longleftrightarrow> (case best_stamp L content (key_of f) of Some (t, retracted) \<Rightarrow> \<not> retracted | None \<Rightarrow> False)"

lemma is_asserted_in:
  assumes "ordmap_laws L valid" "novelty_wf L valid nov" "ordered_flake f"
  shows "is_asserted L (nv_fact_state nov) g f \<longleftrightarrow> asserted_in L (graph_flakes nov g) f"
proof -
  have "facts_agree L nov" "ordered_key (key_of f)"
    using assms(2,3) unfolding novelty_wf_def by (simp_all add: ordered_key_of)
  then have "fact_stamp L (nv_fact_state nov) g (key_of f) = best_stamp L (graph_flakes nov g) (key_of f)"
    unfolding facts_agree_def by blast
  then show ?thesis
    by (auto simp: is_asserted_stamp [OF assms(1)] asserted_in_def split: option.split)
qed

lemma apply_commit_asserted:
  assumes "ordmap_laws L valid" "decimal_exact L" "novelty_wf L valid nov" "list_all ordered_flake flakes"
    "apply_commit L flakes commit_t rg nov gl = (None, nov', gl')"
  shows "novelty_wf L valid nov' \<and>
    (\<forall>g. graph_flakes nov' g =
      graph_flakes nov g @ filter (\<lambda>f. resolve_flake_g_id rg f = Inr g \<and> \<not> (fl_op f \<and> asserted_in L (graph_flakes nov g) f)) flakes)"
proof -
  have "accepted L nov rg flakes g =
      filter (\<lambda>f. resolve_flake_g_id rg f = Inr g \<and> \<not> (fl_op f \<and> asserted_in L (graph_flakes nov g) f)) flakes" for g
    unfolding accepted_def using assms(4) by (intro filter_cong) (auto simp: list_all_iff is_asserted_in [OF assms(1,3)])
  then show ?thesis
    using apply_commit_content [OF assms] by simp
qed

lemma sample_same_fact:
  "same_fact sample_novelty_lib (key_of (sample_flake s v t b)) (sample_flake s' v' t' b') \<longleftrightarrow>
     sample_sid s' = sample_sid s \<and> (of_nat v' :: u64) = of_nat v"
  by (simp add: same_fact_key [OF sample_exact(2)])
    (auto simp: fact_key_def Sid_key_inject object_key_def value_key_def value_number_def value_class_def is_numeric_def value_sid_def
       value_instant_def temporal_text_def value_vector_def sample_flake_def dest: signed_word_eqI)

lemma sample_asserted:
  "asserted_in sample_novelty_lib [sample_flake 1 5 1 True, sample_flake 2 6 1 True] (sample_flake 1 5 2 True)"
  "\<not> asserted_in sample_novelty_lib [sample_flake 1 5 1 True, sample_flake 2 6 1 True, sample_flake 2 6 2 False] (sample_flake 2 6 3 True)"
  by (simp_all add: asserted_in_def best_stamp_def sample_same_fact sample_sid_def stamp_def sample_t) (simp_all add: sample_flake_def)
lemma sample_content:
  "graph_flakes sample_novelty g = (if g = 0 then [sample_flake 1 5 1 True, sample_flake 2 6 1 True, sample_flake 2 6 2 False] else [])"
proof -
  obtain n1 g1 gl' where c: "apply_commit sample_novelty_lib [sample_flake 1 5 1 True, sample_flake 2 6 1 True] 1 hm_empty (Novelty_new 0) sample_globals = (None, n1, g1)"
      "apply_commit sample_novelty_lib [sample_flake 1 5 2 True, sample_flake 2 6 2 False] 2 hm_empty n1 g1 = (None, sample_novelty, gl')"
    using sample_chain by (auto simp: sample_history_def split: prod.splits option.splits)
  have n1: "novelty_wf sample_novelty_lib assoc_valid n1"
    "graph_flakes n1 h = (if h = 0 then [sample_flake 1 5 1 True, sample_flake 2 6 1 True] else [])" for h
    using apply_commit_asserted [OF sample_laws sample_exact(2) novelty_wf_new _ c(1)] by (auto simp: asserted_in_def)
  have "\<not> fl_op (sample_flake 2 6 2 False)"
    by (simp add: sample_flake_def)
  moreover have "fl_op (sample_flake 1 5 2 True)"
    by (simp add: sample_flake_def)
  ultimately show ?thesis
    using apply_commit_asserted [OF sample_laws sample_exact(2) n1(1) _ c(2)] sample_asserted(1) by (simp add: n1(2))
qed

text \<open>
  C7. Set semantics of \<open>apply_commit\<close>: a commit that succeeds keeps the invariant of the novelty and
  appends to each graph the flakes routed to it, in order, without the assertions of facts whose latest
  operation in the novelty is already an assertion.
\<close>

theorem commit_set_semantics:
  assumes "ordmap_laws L valid" "decimal_exact L" "novelty_wf L valid nov" "list_all ordered_flake flakes"
    "apply_commit L flakes commit_t rg nov gl = (None, nov', gl')"
  shows "novelty_wf L valid nov' \<and>
    (\<forall>g. graph_flakes nov' g =
      graph_flakes nov g @ filter (\<lambda>f. resolve_flake_g_id rg f = Inr g \<and> \<not> (fl_op f \<and> asserted_in L (graph_flakes nov g) f)) flakes)"
  by (rule apply_commit_asserted [OF assms])

theorem commit_set_semantics_witness:
  "\<exists>nov' gl'. apply_commit sample_novelty_lib [sample_flake 2 6 3 True] 3 hm_empty sample_novelty sample_globals = (None, nov', gl') \<and>
    graph_flakes nov' 0 = [sample_flake 1 5 1 True, sample_flake 2 6 1 True, sample_flake 2 6 2 False, sample_flake 2 6 3 True]"
proof -
  let ?r = "apply_commit sample_novelty_lib [sample_flake 2 6 3 True] 3 hm_empty sample_novelty sample_globals"
  have "fst ?r = None"
    by (rule commit_succeeds [OF sample_graphs_wf]) (simp_all add: sample_content)
  then obtain nov' gl' where r: "?r = (None, nov', gl')"
    by (metis prod.exhaust_sel)
  from commit_set_semantics [OF sample_laws sample_exact(2) sample_wf _ this] r show ?thesis
    using sample_asserted(2) by (simp add: sample_content)
qed

lemma apply_commit_which_error:
  assumes "apply_commit L flakes commit_t rg nov gl = (Some e, nov', gl')"
  shows "case e of Overflow s \<Rightarrow> True | InvalidGraph s \<Rightarrow> \<exists>f\<in>set flakes. resolve_flake_g_id rg f = Inl e"
proof (cases "route_all rg flakes")
  case (Inl e')
  then have "\<exists>f\<in>set flakes. resolve_flake_g_id rg f = Inl e'"
    using route_all_spec [of flakes rg] by simp
  moreover have "e = e' \<or> (\<exists>s. e = Overflow s)"
    using assms by (auto simp: apply_commit_def Inl split: if_splits)
  ultimately show ?thesis
    by (auto split: NoveltyError.split)
next
  case (Inr routed)
  have "\<exists>s. e' = Overflow s" if "check_segment_capacity nov g = Some e'" for g e'
    using that by (auto simp: check_segment_capacity_def Let_def split: option.splits if_splits)
  then have "\<exists>s. e = Overflow s"
    using assms check_all_spec [where nov = nov and gs = "map snd routed" and checked = "[]"]
    by (cases "check_all nov (map snd routed) []") (auto simp: apply_commit_def Inr Let_def case_prod_beta split: if_splits)
  then show ?thesis
    by auto
qed

text \<open>
  C13. Errors of \<open>apply_commit\<close>: it fails exactly when the dry run \<open>can_apply\<close> reports an error, a failed
  commit leaves the novelty and the process counters untouched, and the error is an overflow or names
  a graph of the batch that is not registered.
\<close>

theorem commit_errors_atomic:
  "case apply_commit L flakes commit_t rg nov gl of
     (None, nov', gl') \<Rightarrow> can_apply nov flakes rg = None
   | (Some e, nov', gl') \<Rightarrow> can_apply nov flakes rg \<noteq> None \<and> nov' = nov \<and> gl' = gl \<and>
       (case e of Overflow s \<Rightarrow> True | InvalidGraph s \<Rightarrow> \<exists>f\<in>set flakes. resolve_flake_g_id rg f = Inl e)"
proof (cases "apply_commit L flakes commit_t rg nov gl")
  case (fields err nov' gl')
  show ?thesis
  proof (cases err)
    case None
    then show ?thesis
      using can_apply_exact [of L flakes commit_t rg nov gl] fields by simp
  next
    case (Some e)
    have "case e of Overflow s \<Rightarrow> True | InvalidGraph s \<Rightarrow> \<exists>f\<in>set flakes. resolve_flake_g_id rg f = Inl e"
      by (rule apply_commit_which_error [OF fields [unfolded Some]])
    then show ?thesis
      using can_apply_exact [of L flakes commit_t rg nov gl] apply_commit_error [OF fields [unfolded Some]] Some fields by auto
  qed
qed

text \<open>
  C24. The fact state is the digest of the flakes: whatever the order in which the flakes of a graph are
  recorded, a fact has the operation with the greatest time, and at equal times the retraction.
\<close>

theorem fact_state_order_independent:
  assumes "ordmap_laws L valid" "list_all ordered_flake xs" "ordered_key k" "mset ys = mset xs"
  shows "fact_stamp L (fold (FactState_record L g) ys FactState_new) g k =
    (let S = stamp ` {f \<in> set xs. same_fact L k f} in if S = {} then None else Some (Max S))"
proof -
  have "list_all ordered_flake ys"
    using assms(2) mset_eq_setD [OF assms(4)] by (simp add: list_all_iff)
  from record_all_stamp(2) [OF assms(1) _ this assms(3), of FactState_new g g] show ?thesis
    by (simp add: best_stamp_set mset_eq_setD [OF assms(4)])
qed

theorem fact_state_order_independent_witness:
  "fact_stamp sample_novelty_lib (fold (FactState_record sample_novelty_lib 0) [sample_flake 2 6 2 False, sample_flake 2 6 1 True] FactState_new)
     0 (key_of (sample_flake 2 6 1 True)) = Some (2, True)"
proof -
  have "fact_stamp sample_novelty_lib (fold (FactState_record sample_novelty_lib 0) [sample_flake 2 6 2 False, sample_flake 2 6 1 True] FactState_new)
      0 (key_of (sample_flake 2 6 1 True)) =
    (let S = stamp ` {f \<in> set [sample_flake 2 6 1 True, sample_flake 2 6 2 False]. same_fact sample_novelty_lib (key_of (sample_flake 2 6 1 True)) f}
     in if S = {} then None else Some (Max S))"
    by (rule fact_state_order_independent [OF sample_laws]) simp_all
  moreover have "{f \<in> set [sample_flake 2 6 1 True, sample_flake 2 6 2 False]. same_fact sample_novelty_lib (key_of (sample_flake 2 6 1 True)) f} =
      {sample_flake 2 6 1 True, sample_flake 2 6 2 False}"
    by (auto simp: sample_same_fact)
  moreover have "stamp (sample_flake 2 6 1 True) = (1, False)" "stamp (sample_flake 2 6 2 False) = (2, True)"
    by (simp_all add: stamp_def sample_t, simp_all add: sample_flake_def)
  ultimately show ?thesis
    by (simp only: Let_def) (simp add: max_def)
qed

section \<open>Reads\<close>

text \<open>
  C8. Range reads: for every index, graph and range, reading the novelty never panics and returns, in
  the order of the index, exactly the flakes of the graph in the range; the ids of \<open>slice_for_range\<close>
  resolve through \<open>get_flake\<close> to the same flakes, and an overlay read as of \<open>to_t\<close> hands out those of
  them with a transaction time up to \<open>to_t\<close>, in the same order.
\<close>

theorem range_reads_exact:
  assumes "decimal_exact L" "graphs_wf L (nv_graphs nov)" "ordered_bounds first rhs"
  shows "\<exists>fs ids. range_flakes L nov g ix first rhs leftmost = Some fs \<and> slice_for_range L nov g ix first rhs leftmost = Some ids \<and>
    mset fs = mset (filter (in_range L ix first rhs leftmost) (graph_flakes nov g)) \<and>
    sorted_wrt (\<lambda>a b. index_compare L ix a b \<noteq> Greater) fs \<and> those (map (get_flake nov) ids) = Some fs \<and>
    for_each_overlay_flake L nov g ix first rhs leftmost to_t = Some (filter (\<lambda>f. flake_t f \<le> to_t) fs)"
  using read_spec [OF assms, of g ix leftmost] by (auto simp: range_flakes_def slice_for_range_def range_read_def for_each_overlay_read)

theorem range_reads_exact_witness:
  "\<exists>fs. range_flakes sample_novelty_lib sample_novelty 0 Post None None True = Some fs \<and>
    mset fs = {#sample_flake 1 5 1 True, sample_flake 2 6 1 True, sample_flake 2 6 2 False#} \<and>
    for_each_overlay_flake sample_novelty_lib sample_novelty 0 Post None None True 1 = Some (filter (\<lambda>f. flake_t f \<le> 1) fs)"
proof -
  have "ordered_bounds None None"
    by (simp add: ordered_bounds_def)
  from range_reads_exact [OF sample_exact(2) sample_graphs_wf this, of 0 Post True 1] show ?thesis
    by (auto simp: in_range_def sample_content)
qed

section \<open>Maintenance\<close>

text \<open>
  C25. Tiered compaction is transparent: it keeps the invariant and the flakes of every graph, it does
  something exactly when \<open>needs_tier_compaction\<close> says so, and otherwise it changes nothing.
\<close>

theorem compaction_transparent:
  assumes "decimal_exact L" "novelty_wf L valid nov"
  shows "case tier_compact L w nov gl of (merges, nov', gl') \<Rightarrow>
    novelty_wf L valid nov' \<and> (\<forall>g. mset (graph_flakes nov' g) = mset (graph_flakes nov g)) \<and>
    (0 < merges \<longleftrightarrow> needs_tier_compaction nov w) \<and> (merges = 0 \<longrightarrow> nov' = nov \<and> gl' = gl)"
  using tier_compact_spec [OF assms] by (simp split: prod.split)

theorem compaction_transparent_witness:
  "case tier_compact sample_novelty_lib 2 sample_novelty sample_globals of (merges, nov', gl') \<Rightarrow>
    mset (graph_flakes nov' 0) = {#sample_flake 1 5 1 True, sample_flake 2 6 1 True, sample_flake 2 6 2 False#}"
  using compaction_transparent [OF sample_exact(2) sample_wf, of 2 sample_globals] by (auto simp: sample_content)

text \<open>
  C14. The backlog drains: when no graph holds more flakes than one segment can, as many compactions as
  there are segments leave no size class full, at most \<open>25 * (w - 1)\<close> segments per graph, and the
  flakes of every graph.
\<close>

theorem backlog_drains:
  assumes "decimal_exact L" "2 \<le> w" "novelty_wf L valid nov" "small_graphs nov" "length (live_segments (nv_graphs nov)) \<le> n"
  shows "case compact_rounds L w n nov gl of (nov', gl') \<Rightarrow> \<not> needs_tier_compaction nov' w \<and>
    (\<forall>g. segment_count nov' g \<le> 25 * (w - 1) \<and> mset (graph_flakes nov' g) = mset (graph_flakes nov g))"
proof (cases "compact_rounds L w n nov gl")
  case (Pair nov' gl')
  note d = compact_rounds_drain [OF assms Pair]
  then have "graphs_wf L (nv_graphs nov')"
    by (simp add: novelty_wf_def)
  then show ?thesis
    using d drained_segment_count [OF assms(2) \<open>graphs_wf L (nv_graphs nov')\<close>] by (simp add: Pair)
qed

theorem backlog_drains_witness:
  "case compact_rounds sample_novelty_lib 2 (length (live_segments (nv_graphs sample_novelty))) sample_novelty sample_globals of (nov', gl') \<Rightarrow>
    \<not> needs_tier_compaction nov' 2 \<and> segment_count nov' 0 \<le> 25"
proof -
  have "small_graphs sample_novelty"
    by (simp add: small_graphs_def sample_content)
  from backlog_drains [OF sample_exact(2) _ sample_wf this order_refl, of 2 sample_globals] show ?thesis
    by (auto split: prod.splits)
qed

text \<open>
  C15. Trimming: \<open>clear_up_to\<close> never panics, keeps the invariant (so the fact state is rebuilt from what
  is left) and leaves in every graph exactly the flakes above the cutoff.
\<close>

theorem clear_up_to_exact:
  assumes "ordmap_laws L valid" "decimal_exact L" "novelty_wf L valid nov"
  shows "\<exists>nov' gl'. clear_up_to L cutoff nov gl = Some (nov', gl') \<and> novelty_wf L valid nov' \<and>
    (\<forall>g. graph_flakes nov' g = filter (\<lambda>f. cutoff < flake_t f) (graph_flakes nov g))"
  by (rule clear_up_to_spec [OF assms])

theorem clear_up_to_exact_witness:
  "\<exists>nov' gl'. clear_up_to sample_novelty_lib 1 sample_novelty sample_globals = Some (nov', gl') \<and> graph_flakes nov' 0 = [sample_flake 2 6 2 False]"
  using clear_up_to_exact [OF sample_laws sample_exact(2) sample_wf, of 1 sample_globals] by (auto simp: sample_content sample_t)



section \<open>Orders and annotations\<close>






end
