(* ===== verification/NoveltyFindings.thy ===== *)
theory NoveltyFindings
  imports NoveltyProperties
begin

text \<open>
  Where the code departs from its comments: the order of values with NaN and infinite doubles, and the
  bulk load of batches outside the histories that match the chain of commits.
\<close>

section \<open>The order of values\<close>

definition nan_bits :: u64 where
  "nan_bits = 0x7FF8000000000000"

definition one_bits :: u64 where
  "one_bits = 0x3FF0000000000000"

definition minus_one_bits :: u64 where
  "minus_one_bits = 0xBFF0000000000000"

definition minus_inf_bits :: u64 where
  "minus_inf_bits = 0xFFF0000000000000"

lemmas bits_defs = nan_bits_def one_bits_def minus_one_bits_def minus_inf_bits_def

lemmas f64_defs = f64_or_bits_cmp_def f64_partial_cmp_def f64_ext_def f64_rat_def f64_finite_def f64_nan_def f64_exponent_def
  f64_mantissa_def f64_negative_def type_discriminant_def ord_cmp_def

text \<open>With NaN the order has a cycle: \<open>-1.0 > NaN > 1.0 > -1.0\<close>.\<close>

lemma nan_order_cycle:
  "FlakeValue_cmp L (FV_Double minus_one_bits) (FV_Double nan_bits) = Greater"
  "FlakeValue_cmp L (FV_Double nan_bits) (FV_Double one_bits) = Greater"
  "FlakeValue_cmp L (FV_Double one_bits) (FV_Double minus_one_bits) = Greater"
  by (simp_all add: FlakeValue_cmp_def same_type_cmp_def f64_defs bits_defs)

text \<open>An infinite double is ordered by type against some integers and by value against others.\<close>

lemma infinity_order_cycle:
  assumes "lb_decimal_of_f64 L minus_inf_bits = None"
  shows "FlakeValue_cmp L (FV_Long (2 ^ 60)) (FV_Double minus_inf_bits) = Less"
    "FlakeValue_cmp L (FV_Double minus_inf_bits) (FV_Long 5) = Less"
    "FlakeValue_cmp L (FV_Long 5) (FV_Long (2 ^ 60)) = Less"
  using assms
  by (simp_all add: FlakeValue_cmp_def same_type_cmp_def numeric_cmp_def cmp_long_double_def i64_fits_f64_def is_numeric_def f64_defs bits_defs)

section \<open>The bulk load\<close>

text \<open>
  A batch that asserts the same fact twice: \<open>apply_commit\<close> tests both flakes against the fact state
  before the commit and keeps both, the bulk load keeps one.
\<close>

lemma bulk_drops_duplicate:
  assumes "ordmap_laws L valid" "decimal_exact L" "ordered_flake f" "fl_op f" "fl_g f = None"
  shows "\<exists>chained loaded gl1 gl2. apply_chain L [([f, f], t)] rg (Novelty_new 0) gl = (None, chained, gl1) \<and> graph_flakes chained 0 = [f, f] \<and>
    bulk_apply_commits L [([f, f], t)] rg (Novelty_new 0) gl = (None, loaded, gl2) \<and> graph_flakes loaded 0 = [f]"
proof -
  have r: "resolve_flake_g_id rg f = Inr 0"
    using assms(5) by (simp add: resolve_flake_g_id_def)
  have "fst (apply_commit L [f, f] t rg (Novelty_new 0) gl) = None"
    by (rule commit_succeeds [of L]) (simp_all add: r Novelty_new_def graphs_wf_def graph_flakes_def graph_segs_def)
  then obtain nov' gl' where ac: "apply_commit L [f, f] t rg (Novelty_new 0) gl = (None, nov', gl')"
    by (metis prod.exhaust_sel)
  have "graph_flakes nov' 0 = [f, f]"
    using apply_commit_asserted [OF assms(1,2) novelty_wf_new _ ac] assms(3) r by (simp add: asserted_in_def)
  moreover have "same_identity L f f"
    using same_identity_key [OF assms(2,3,3)] by simp
  then have "bulk_kept L [f, f] = [f]"
    using assms(4) by (simp add: bulk_kept_def sort_by_def)
  moreover obtain loaded gl2 where "bulk_apply_commits L [([f, f], t)] rg (Novelty_new 0) gl = (None, loaded, gl2)"
      "graph_flakes loaded 0 = bulk_kept L (to_graph rg 0 (history_flakes [([f, f], t)]))"
    by (rule bulk_loaded [OF assms(1), of "[([f, f], t)]" rg 0 gl]) (use assms(3) r in \<open>auto simp: history_flakes_def\<close>)
  ultimately show ?thesis
    using ac r by (auto simp: to_graph_def history_flakes_def)
qed

text \<open>An empty batch: \<open>apply_commit\<close> returns before it advances the time, the bulk load does not.\<close>

lemma empty_batch_time:
  "nv_t (fst (snd (apply_chain L [([], 5)] rg (Novelty_new 0) gl))) = 0"
  "nv_t (fst (snd (bulk_apply_commits L [([], 5)] rg (Novelty_new 0) gl))) = 5"
  by (simp_all add: apply_commit_def bulk_apply_commits_def hm_empty_def Let_def refresh_content_version_def Novelty_new_def)

text \<open>
  A batch with an unknown graph: the bulk load fails, but the flakes before it have already moved the
  schema epoch, where \<open>apply_commit\<close> leaves the novelty untouched.
\<close>

lemma bulk_error_not_atomic:
  assumes "resolve_flake_g_id rg f = Inr g" "is_rdfs_hierarchy_predicate (fl_p f)" "resolve_flake_g_id rg f' = Inl e"
  shows "\<exists>nov'. bulk_apply_commits L [([f, f'], t)] rg nov gl = (Some e, nov', gl) \<and> nv_schema_epoch nov' = nv_schema_epoch nov + 1"
  using assms by (simp add: bulk_apply_commits_def Let_def)

section \<open>Language tags of list elements\<close>

text \<open>
  The order of \<open>FlakeMeta\<close> ignores the language when there is a list index, so two values of one list
  position that differ only in their language are one fact. A commit that replaces one by the other
  keeps the retraction and drops the assertion.
\<close>

lemma list_language_change_lost:
  assumes "ordmap_laws L valid" "decimal_exact L" "novelty_wf L valid nov" "ordered_flake f" "fl_g f = None"
    "fl_m f = Some \<lparr>fm_lang = Some l, fm_i = Some i\<rparr>" "asserted_in L (graph_flakes nov 0) f"
    "apply_commit L [f\<lparr>fl_t := t, fl_op := False\<rparr>, f\<lparr>fl_t := t, fl_op := True, fl_m := Some \<lparr>fm_lang = Some l', fm_i = Some i\<rparr>\<rparr>]
       commit_t rg nov gl = (None, nov', gl')"
  shows "graph_flakes nov' 0 = graph_flakes nov 0 @ [f\<lparr>fl_t := t, fl_op := False\<rparr>]"
proof -
  let ?f' = "f\<lparr>fl_t := t, fl_op := True, fl_m := Some \<lparr>fm_lang = Some l', fm_i = Some i\<rparr>\<rparr>"
  have "same_fact L (key_of ?f') = same_fact L (key_of f)"
    by (rule ext) (simp add: same_fact_def FactKey_cmp_def key_of_def assms(6) FlakeMeta_cmp_def split: option.split)
  then have "asserted_in L (graph_flakes nov 0) ?f'"
    using assms(7) by (simp add: asserted_in_def best_stamp_def)
  moreover have "list_all ordered_flake [f\<lparr>fl_t := t, fl_op := False\<rparr>, ?f']" "resolve_flake_g_id rg f' = Inr 0" if "fl_g f' = None" for f'
    using assms(4) that by (simp_all add: ordered_flake_def resolve_flake_g_id_def)
  ultimately show ?thesis
    using apply_commit_asserted [OF assms(1-3) _ assms(8)] assms(5) by simp
qed

end
