(* ===== verification/NsMemory.thy ===== *)
theory NsMemory
  imports RaftMachine
begin

text \<open>
  The single-node nameservice (\<open>fluree-db-nameservice/src\<close>): the records, values and results of
  \<open>lib.rs\<close>, the in-memory backend of \<open>memory.rs\<close>, operation by operation, and the decorator of
  \<open>notifying.rs\<close> that emits events after writes.

  The state is the record of the four maps behind their locks. An operation that holds its lock from
  the first read to the last write is one function; \<open>init\<close>, \<open>push_status\<close> and \<open>push_config\<close> read
  under one lock and write under another, so they are a check and a write, composed for a caller that
  runs alone. The JSON values of the payloads (\<open>serde_json\<close>) are a type variable with their equality
  an argument. A transaction time is an \<open>i64\<close> that is only compared, so an integer; the counters that
  the code adds to wrap at their width.
\<close>

section \<open>Records and values\<close>

record NsRecord =
  nr_ledger_id :: string
  nr_name :: string
  nr_branch :: string
  nr_commit_head_id :: "ContentId option"
  nr_commit_t :: int
  nr_index_head_id :: "ContentId option"
  nr_index_t :: int
  nr_default_context :: "ContentId option"
  nr_retracted :: bool
  nr_config_id :: "ContentId option"
  nr_source_branch :: "string option"
  nr_branches :: nat

definition NsRecord_new :: "string \<Rightarrow> string \<Rightarrow> NsRecord" where
  "NsRecord_new name branch =
    \<lparr>nr_ledger_id = format_ledger_id name branch, nr_name = name, nr_branch = branch, nr_commit_head_id = None, nr_commit_t = 0,
     nr_index_head_id = None, nr_index_t = 0, nr_default_context = None, nr_retracted = False, nr_config_id = None,
     nr_source_branch = None, nr_branches = 0\<rparr>"

definition has_index :: "NsRecord \<Rightarrow> bool" where
  "has_index r = (nr_index_head_id r \<noteq> None)"

definition has_novelty :: "NsRecord \<Rightarrow> bool" where
  "has_novelty r = (nr_commit_t r > nr_index_t r)"

record NsRecordSnapshot =
  sn_commit_head_id :: "ContentId option"
  sn_commit_t :: int
  sn_index_head_id :: "ContentId option"
  sn_index_t :: int

definition NsRecordSnapshot_from_record :: "NsRecord \<Rightarrow> NsRecordSnapshot" where
  "NsRecordSnapshot_from_record r =
    \<lparr>sn_commit_head_id = nr_commit_head_id r, sn_commit_t = nr_commit_t r, sn_index_head_id = nr_index_head_id r, sn_index_t = nr_index_t r\<rparr>"

record 'j StatusPayload =
  sp_state :: string
  sp_extra :: "(string, 'j) hashmap"

definition StatusPayload_new :: "string \<Rightarrow> 'j StatusPayload" where
  "StatusPayload_new state = \<lparr>sp_state = state, sp_extra = hm_empty\<rparr>"

record 'j StatusValue =
  sv_v :: int
  sv_payload :: "'j StatusPayload"

definition StatusValue_initial :: "'j StatusValue" where
  "StatusValue_initial = \<lparr>sv_v = 1, sv_payload = StatusPayload_new ''ready''\<rparr>"

record 'j ConfigPayload =
  cf_default_context :: "ContentId option"
  cf_config_id :: "ContentId option"
  cf_extra :: "(string, 'j) hashmap"

record 'j ConfigValue =
  cv_v :: int
  cv_payload :: "'j ConfigPayload option"

definition ConfigValue_unborn :: "'j ConfigValue" where
  "ConfigValue_unborn = \<lparr>cv_v = 0, cv_payload = None\<rparr>"

text \<open>\<open>PartialEq\<close> of \<open>HashMap\<close> and of the payloads.\<close>

definition HashMap_eq :: "('j \<Rightarrow> 'j \<Rightarrow> bool) \<Rightarrow> (string, 'j) hashmap \<Rightarrow> (string, 'j) hashmap \<Rightarrow> bool" where
  "HashMap_eq jeq m m' \<longleftrightarrow> length m = length m' \<and>
    list_all (\<lambda>(k, v). case hm_get m' k of Some w \<Rightarrow> jeq v w | None \<Rightarrow> False) m"

definition StatusPayload_eq :: "('j \<Rightarrow> 'j \<Rightarrow> bool) \<Rightarrow> 'j StatusPayload \<Rightarrow> 'j StatusPayload \<Rightarrow> bool" where
  "StatusPayload_eq jeq a b \<longleftrightarrow> sp_state a = sp_state b \<and> HashMap_eq jeq (sp_extra a) (sp_extra b)"

definition ConfigPayload_eq :: "('j \<Rightarrow> 'j \<Rightarrow> bool) \<Rightarrow> 'j ConfigPayload \<Rightarrow> 'j ConfigPayload \<Rightarrow> bool" where
  "ConfigPayload_eq jeq a b \<longleftrightarrow> cf_default_context a = cf_default_context b \<and> cf_config_id a = cf_config_id b \<and>
    HashMap_eq jeq (cf_extra a) (cf_extra b)"

text \<open>The outcomes of compare-and-set; the three result types of the code differ in the value only.\<close>

datatype 'v CasResult = Updated | Conflict "'v option"

datatype NameServiceError =
    NotFound string
  | InvalidId LedgerIdParseError
  | DropRefused string nat
  | LedgerAlreadyExists string

definition check_cas_expectation ::
  "'v option \<Rightarrow> 'v option \<Rightarrow> bool \<Rightarrow> ('v \<Rightarrow> 'v \<Rightarrow> bool) \<Rightarrow> 'v CasResult option" where
  "check_cas_expectation expected current allow_create eq =
    (case (expected, current) of
       (None, None) \<Rightarrow> if allow_create then None else Some (Conflict None)
     | (None, Some actual) \<Rightarrow> Some (Conflict (Some actual))
     | (Some _, None) \<Rightarrow> Some (Conflict None)
     | (Some exp, Some actual) \<Rightarrow> if eq exp actual then None else Some (Conflict (Some actual)))"

definition ref_values_match :: "RefValue \<Rightarrow> RefValue \<Rightarrow> bool" where
  "ref_values_match a b =
    (case (rv_id a, rv_id b) of
       (Some x, Some y) \<Rightarrow> x = y
     | (None, None) \<Rightarrow> True
     | _ \<Rightarrow> False)"

section \<open>The in-memory backend\<close>

record 'j MemoryNameService =
  mn_records :: "(string, NsRecord) hashmap"
  mn_graph_source_records :: "(string, GraphSourceRecord) hashmap"
  mn_status_values :: "(string, 'j StatusValue) hashmap"
  mn_config_values :: "(string, 'j ConfigValue) hashmap"

definition MemoryNameService_new :: "'j MemoryNameService" where
  "MemoryNameService_new =
    \<lparr>mn_records = hm_empty, mn_graph_source_records = hm_empty, mn_status_values = hm_empty, mn_config_values = hm_empty\<rparr>"

definition u32_wrapping_succ :: "nat \<Rightarrow> nat" where
  "u32_wrapping_succ n = (n + 1) mod 2 ^ 32"

definition i64_wrapping_succ :: "int \<Rightarrow> int" where
  "i64_wrapping_succ v = (if v = 2 ^ 63 - 1 then - (2 ^ 63) else v + 1)"

definition mn_normalize :: "string \<Rightarrow> string" where
  "mn_normalize ledger_id = (case normalize_ledger_id ledger_id of Inr value \<Rightarrow> value | Inl _ \<Rightarrow> ledger_id)"

text \<open>\<open>split_ledger_id\<close> followed by \<open>?\<close> and \<open>NsRecord::new\<close>, the common start of every creation.\<close>

definition fresh_record :: "string \<Rightarrow> NameServiceError + NsRecord" where
  "fresh_record ledger_id =
    (case split_ledger_id ledger_id of
       Inl e \<Rightarrow> Inl (InvalidId e)
     | Inr (ledger_name, branch) \<Rightarrow> Inr (NsRecord_new ledger_name branch))"

definition mn_create_ledger :: "string \<Rightarrow> 'j MemoryNameService \<Rightarrow> (NameServiceError + unit) \<times> 'j MemoryNameService" where
  "mn_create_ledger ledger_id s =
    (case fresh_record ledger_id of
       Inl e \<Rightarrow> (Inl e, s)
     | Inr record \<Rightarrow> (Inr (), s\<lparr>mn_records := hm_insert (mn_records s) (nr_ledger_id record) record\<rparr>))"

subsection \<open>Lookup\<close>

definition mn_lookup :: "'j MemoryNameService \<Rightarrow> string \<Rightarrow> NsRecord option" where
  "mn_lookup s ledger_id =
    (case hm_get (mn_records s) ledger_id of
       Some record \<Rightarrow> Some record
     | None \<Rightarrow>
         (case normalize_ledger_id ledger_id of
            Inr with_branch \<Rightarrow> hm_get (mn_records s) with_branch
          | Inl _ \<Rightarrow> None))"

definition mn_all_records :: "'j MemoryNameService \<Rightarrow> NsRecord list" where
  "mn_all_records s = hm_values (mn_records s)"

definition mn_list_branches :: "'j MemoryNameService \<Rightarrow> string \<Rightarrow> NsRecord list" where
  "mn_list_branches s ledger_name = filter (\<lambda>r. nr_name r = ledger_name \<and> \<not> nr_retracted r) (hm_values (mn_records s))"

subsection \<open>Branches\<close>

definition mn_create_branch ::
  "string \<Rightarrow> string \<Rightarrow> string \<Rightarrow> (ContentId \<times> int) option \<Rightarrow> 'j MemoryNameService \<Rightarrow> (NameServiceError + unit) \<times> 'j MemoryNameService" where
  "mn_create_branch ledger_name new_branch source_branch at_commit s =
    (let key = mn_normalize (format_ledger_id ledger_name new_branch);
         source_key = mn_normalize (format_ledger_id ledger_name source_branch)
     in if hm_contains (mn_records s) key then (Inl (LedgerAlreadyExists key), s)
        else case hm_get (mn_records s) source_key of
          None \<Rightarrow> (Inl (NotFound (format_ledger_id ledger_name source_branch)), s)
        | Some source \<Rightarrow>
            let records = hm_insert (mn_records s) source_key (source\<lparr>nr_branches := u32_wrapping_succ (nr_branches source)\<rparr>);
                (commit_head_id, commit_t) = (case at_commit of
                    Some (cid, t) \<Rightarrow> (Some cid, t)
                  | None \<Rightarrow> (nr_commit_head_id source, nr_commit_t source));
                record = (NsRecord_new ledger_name new_branch)\<lparr>nr_commit_head_id := commit_head_id, nr_commit_t := commit_t,
                  nr_source_branch := Some source_branch\<rparr>
            in (Inr (), s\<lparr>mn_records := hm_insert records key record\<rparr>))"

definition mn_drop_branch :: "string \<Rightarrow> 'j MemoryNameService \<Rightarrow> (NameServiceError + nat option) \<times> 'j MemoryNameService" where
  "mn_drop_branch ledger_id s =
    (let key = mn_normalize ledger_id in
     case hm_get (mn_records s) key of
       None \<Rightarrow> (Inl (NotFound key), s)
     | Some record \<Rightarrow>
         if nr_branches record > 0 then (Inl (DropRefused key (nr_branches record)), s)
         else
           let records = hm_remove (mn_records s) key in
           case nr_source_branch record of
             None \<Rightarrow> (Inr None, s\<lparr>mn_records := records\<rparr>)
           | Some source \<Rightarrow>
               let parent_key = mn_normalize (format_ledger_id (nr_name record) source) in
               (case hm_get records parent_key of
                  None \<Rightarrow> (Inr None, s\<lparr>mn_records := records\<rparr>)
                | Some parent \<Rightarrow>
                    let n = nr_branches parent - 1
                    in (Inr (Some n), s\<lparr>mn_records := hm_insert records parent_key (parent\<lparr>nr_branches := n\<rparr>)\<rparr>)))"

definition mn_reset_head :: "string \<Rightarrow> NsRecordSnapshot \<Rightarrow> 'j MemoryNameService \<Rightarrow> (NameServiceError + unit) \<times> 'j MemoryNameService" where
  "mn_reset_head ledger_id snapshot s =
    (let key = mn_normalize ledger_id in
     case hm_get (mn_records s) key of
       None \<Rightarrow> (Inl (NotFound key), s)
     | Some record \<Rightarrow>
         (Inr (), s\<lparr>mn_records := hm_insert (mn_records s) key (record\<lparr>
            nr_commit_head_id := sn_commit_head_id snapshot, nr_commit_t := sn_commit_t snapshot,
            nr_index_head_id := sn_index_head_id snapshot, nr_index_t := sn_index_t snapshot\<rparr>)\<rparr>))"

subsection \<open>Ledgers\<close>

definition init_check :: "string \<Rightarrow> 'j MemoryNameService \<Rightarrow> NameServiceError option" where
  "init_check ledger_id s =
    (let key = mn_normalize ledger_id in if hm_contains (mn_records s) key then Some (LedgerAlreadyExists key) else None)"

definition init_write :: "string \<Rightarrow> 'j MemoryNameService \<Rightarrow> (NameServiceError + unit) \<times> 'j MemoryNameService" where
  "init_write ledger_id s =
    (case fresh_record ledger_id of
       Inl e \<Rightarrow> (Inl e, s)
     | Inr record \<Rightarrow> (Inr (), s\<lparr>mn_records := hm_insert (mn_records s) (mn_normalize ledger_id) record\<rparr>))"

definition mn_init :: "string \<Rightarrow> 'j MemoryNameService \<Rightarrow> (NameServiceError + unit) \<times> 'j MemoryNameService" where
  "mn_init ledger_id s = (case init_check ledger_id s of Some e \<Rightarrow> (Inl e, s) | None \<Rightarrow> init_write ledger_id s)"

definition mn_retract :: "string \<Rightarrow> 'j MemoryNameService \<Rightarrow> (NameServiceError + unit) \<times> 'j MemoryNameService" where
  "mn_retract ledger_id s =
    (let key = mn_normalize ledger_id in
     case hm_get (mn_records s) key of
       None \<Rightarrow> (Inr (), s)
     | Some record \<Rightarrow>
         if nr_retracted record then (Inr (), s)
         else
           let current_v = (case hm_get (mn_status_values s) key of Some st \<Rightarrow> sv_v st | None \<Rightarrow> 1)
           in (Inr (), s\<lparr>mn_records := hm_insert (mn_records s) key (record\<lparr>nr_retracted := True\<rparr>),
                mn_status_values := hm_insert (mn_status_values s) key
                  \<lparr>sv_v = i64_wrapping_succ current_v, sv_payload = StatusPayload_new ''retracted''\<rparr>\<rparr>))"

definition mn_purge :: "string \<Rightarrow> 'j MemoryNameService \<Rightarrow> (NameServiceError + unit) \<times> 'j MemoryNameService" where
  "mn_purge ledger_id s =
    (let key = mn_normalize ledger_id in
     (Inr (), s\<lparr>mn_records := hm_remove (mn_records s) key, mn_status_values := hm_remove (mn_status_values s) key,
        mn_config_values := hm_remove (mn_config_values s) key\<rparr>))"

subsection \<open>Publishing heads\<close>

definition mn_publish_commit :: "string \<Rightarrow> int \<Rightarrow> ContentId \<Rightarrow> 'j MemoryNameService \<Rightarrow> (NameServiceError + unit) \<times> 'j MemoryNameService" where
  "mn_publish_commit ledger_id commit_t commit_id s =
    (let key = mn_normalize ledger_id in
     case hm_get (mn_records s) key of
       Some record \<Rightarrow>
         if commit_t > nr_commit_t record then
           (Inr (), s\<lparr>mn_records := hm_insert (mn_records s) key (record\<lparr>nr_commit_head_id := Some commit_id, nr_commit_t := commit_t\<rparr>)\<rparr>)
         else (Inr (), s)
     | None \<Rightarrow>
         (case fresh_record ledger_id of
            Inl e \<Rightarrow> (Inl e, s)
          | Inr record \<Rightarrow>
              (Inr (), s\<lparr>mn_records := hm_insert (mn_records s) key (record\<lparr>nr_commit_head_id := Some commit_id, nr_commit_t := commit_t\<rparr>)\<rparr>)))"

definition mn_publishing_ledger_id :: "string \<Rightarrow> string option" where
  "mn_publishing_ledger_id ledger_id = Some (mn_normalize ledger_id)"

text \<open>\<open>publish_index\<close> and \<open>publish_index_allow_equal\<close> have the same body but for the guard.\<close>

definition publish_index_if :: "(int \<Rightarrow> int \<Rightarrow> bool) \<Rightarrow> string \<Rightarrow> int \<Rightarrow> ContentId \<Rightarrow> 'j MemoryNameService \<Rightarrow>
    (NameServiceError + unit) \<times> 'j MemoryNameService" where
  "publish_index_if guard ledger_id index_t index_id s =
    (let key = mn_normalize ledger_id in
     case hm_get (mn_records s) key of
       Some record \<Rightarrow>
         if guard index_t (nr_index_t record) then
           (Inr (), s\<lparr>mn_records := hm_insert (mn_records s) key (record\<lparr>nr_index_head_id := Some index_id, nr_index_t := index_t\<rparr>)\<rparr>)
         else (Inr (), s)
     | None \<Rightarrow>
         (case fresh_record ledger_id of
            Inl e \<Rightarrow> (Inl e, s)
          | Inr record \<Rightarrow>
              (Inr (), s\<lparr>mn_records := hm_insert (mn_records s) key (record\<lparr>nr_index_head_id := Some index_id, nr_index_t := index_t\<rparr>)\<rparr>)))"

definition mn_publish_index :: "string \<Rightarrow> int \<Rightarrow> ContentId \<Rightarrow> 'j MemoryNameService \<Rightarrow> (NameServiceError + unit) \<times> 'j MemoryNameService" where
  "mn_publish_index = publish_index_if (\<lambda>new old. new > old)"

definition mn_publish_index_allow_equal :: "string \<Rightarrow> int \<Rightarrow> ContentId \<Rightarrow> 'j MemoryNameService \<Rightarrow> (NameServiceError + unit) \<times> 'j MemoryNameService" where
  "mn_publish_index_allow_equal = publish_index_if (\<lambda>new old. new \<ge> old)"

subsection \<open>Refs\<close>

definition ref_of :: "RefKind \<Rightarrow> NsRecord \<Rightarrow> RefValue" where
  "ref_of kind r =
    (case kind of
       CommitHead \<Rightarrow> \<lparr>rv_id = nr_commit_head_id r, rv_t = nr_commit_t r\<rparr>
     | IndexHead \<Rightarrow> \<lparr>rv_id = nr_index_head_id r, rv_t = nr_index_t r\<rparr>)"

definition set_ref :: "RefKind \<Rightarrow> RefValue \<Rightarrow> NsRecord \<Rightarrow> NsRecord" where
  "set_ref kind new r =
    (case kind of
       CommitHead \<Rightarrow> r\<lparr>nr_commit_head_id := rv_id new, nr_commit_t := rv_t new\<rparr>
     | IndexHead \<Rightarrow> r\<lparr>nr_index_head_id := rv_id new, nr_index_t := rv_t new\<rparr>)"

definition mn_get_ref :: "'j MemoryNameService \<Rightarrow> string \<Rightarrow> RefKind \<Rightarrow> RefValue option" where
  "mn_get_ref s ledger_id kind = map_option (ref_of kind) (hm_get (mn_records s) (mn_normalize ledger_id))"

definition mn_compare_and_set_ref :: "string \<Rightarrow> RefKind \<Rightarrow> RefValue option \<Rightarrow> RefValue \<Rightarrow> 'j MemoryNameService \<Rightarrow>
    (NameServiceError + RefValue CasResult) \<times> 'j MemoryNameService" where
  "mn_compare_and_set_ref ledger_id kind expected new s =
    (let key = mn_normalize ledger_id in
     case (expected, hm_get (mn_records s) key) of
       (None, None) \<Rightarrow>
         (case fresh_record ledger_id of
            Inl e \<Rightarrow> (Inl e, s)
          | Inr record \<Rightarrow> (Inr Updated, s\<lparr>mn_records := hm_insert (mn_records s) key (set_ref kind new record)\<rparr>))
     | (None, Some record) \<Rightarrow> (Inr (Conflict (Some (ref_of kind record))), s)
     | (Some _, None) \<Rightarrow> (Inr (Conflict None), s)
     | (Some exp, Some record) \<Rightarrow>
         let current = ref_of kind record in
         if \<not> ref_values_match exp current then (Inr (Conflict (Some current)), s)
         else if \<not> (case kind of CommitHead \<Rightarrow> rv_t new > rv_t current | IndexHead \<Rightarrow> rv_t new \<ge> rv_t current)
           then (Inr (Conflict (Some current)), s)
         else (Inr Updated, s\<lparr>mn_records := hm_insert (mn_records s) key (set_ref kind new record)\<rparr>))"


subsection \<open>Graph sources\<close>

definition mn_publish_graph_source :: "string \<Rightarrow> string \<Rightarrow> GraphSourceType \<Rightarrow> string \<Rightarrow> string list \<Rightarrow> 'j MemoryNameService \<Rightarrow>
    (NameServiceError + unit) \<times> 'j MemoryNameService" where
  "mn_publish_graph_source name branch source_type config dependencies s =
    (let key = format_ledger_id name branch in
     (Inr (), s\<lparr>mn_graph_source_records := hm_insert (mn_graph_source_records s) key
        (case hm_get (mn_graph_source_records s) key of
           Some record \<Rightarrow> record\<lparr>gs_source_type := source_type, gs_config := config, gs_dependencies := dependencies\<rparr>
         | None \<Rightarrow> GraphSourceRecord_new name branch source_type config dependencies)\<rparr>))"

definition mn_publish_graph_source_index :: "string \<Rightarrow> string \<Rightarrow> ContentId \<Rightarrow> int \<Rightarrow> 'j MemoryNameService \<Rightarrow>
    (NameServiceError + unit) \<times> 'j MemoryNameService" where
  "mn_publish_graph_source_index name branch index_id index_t s =
    (let key = format_ledger_id name branch in
     case hm_get (mn_graph_source_records s) key of
       Some record \<Rightarrow>
         if index_t > gs_index_t record then
           (Inr (), s\<lparr>mn_graph_source_records :=
              hm_insert (mn_graph_source_records s) key (record\<lparr>gs_index_id := Some index_id, gs_index_t := index_t\<rparr>)\<rparr>)
         else (Inr (), s)
     | None \<Rightarrow> (Inr (), s))"

definition mn_retract_graph_source :: "string \<Rightarrow> string \<Rightarrow> 'j MemoryNameService \<Rightarrow> (NameServiceError + unit) \<times> 'j MemoryNameService" where
  "mn_retract_graph_source name branch s =
    (let key = format_ledger_id name branch in
     case hm_get (mn_graph_source_records s) key of
       Some record \<Rightarrow>
         if \<not> gs_retracted record then
           (Inr (), s\<lparr>mn_graph_source_records := hm_insert (mn_graph_source_records s) key (record\<lparr>gs_retracted := True\<rparr>)\<rparr>)
         else (Inr (), s)
     | None \<Rightarrow> (Inr (), s))"

definition mn_lookup_graph_source :: "'j MemoryNameService \<Rightarrow> string \<Rightarrow> GraphSourceRecord option" where
  "mn_lookup_graph_source s graph_source_id = hm_get (mn_graph_source_records s) (mn_normalize graph_source_id)"

datatype NsLookupResult = LookupLedger NsRecord | LookupGraphSource GraphSourceRecord | LookupNotFound

definition mn_lookup_any :: "'j MemoryNameService \<Rightarrow> string \<Rightarrow> NsLookupResult" where
  "mn_lookup_any s resource_id =
    (let key = mn_normalize resource_id in
     case hm_get (mn_graph_source_records s) key of
       Some record \<Rightarrow> LookupGraphSource record
     | None \<Rightarrow> (case hm_get (mn_records s) key of Some record \<Rightarrow> LookupLedger record | None \<Rightarrow> LookupNotFound))"

definition mn_all_graph_source_records :: "'j MemoryNameService \<Rightarrow> GraphSourceRecord list" where
  "mn_all_graph_source_records s = hm_values (mn_graph_source_records s)"

subsection \<open>Status and config\<close>

definition mn_get_status :: "'j MemoryNameService \<Rightarrow> string \<Rightarrow> 'j StatusValue option" where
  "mn_get_status s ledger_id =
    (let key = mn_normalize ledger_id in
     case hm_get (mn_status_values s) key of
       Some status \<Rightarrow> Some status
     | None \<Rightarrow> if hm_contains (mn_records s) key then Some StatusValue_initial else None)"

definition mn_get_config :: "'j MemoryNameService \<Rightarrow> string \<Rightarrow> 'j ConfigValue option" where
  "mn_get_config s ledger_id =
    (let key = mn_normalize ledger_id in
     case hm_get (mn_config_values s) key of
       Some config \<Rightarrow> Some config
     | None \<Rightarrow> if hm_contains (mn_records s) key then Some ConfigValue_unborn else None)"

text \<open>
  A push reads the current value under read locks (the same expression as the getter), decides, and
  then takes the write lock. The check is what happens before the write: a conflict, or go ahead.
\<close>

definition push_status_check :: "('j \<Rightarrow> 'j \<Rightarrow> bool) \<Rightarrow> string \<Rightarrow> 'j StatusValue option \<Rightarrow> 'j StatusValue \<Rightarrow> 'j MemoryNameService \<Rightarrow>
    'j StatusValue CasResult option" where
  "push_status_check jeq ledger_id expected new s =
    (let current = mn_get_status s ledger_id in
     case check_cas_expectation expected current False (\<lambda>exp actual. sv_v exp = sv_v actual \<and> StatusPayload_eq jeq (sv_payload exp) (sv_payload actual)) of
       Some conflict \<Rightarrow> Some conflict
     | None \<Rightarrow>
         let current_v = (case current of Some c \<Rightarrow> sv_v c | None \<Rightarrow> 0)
         in if sv_v new \<le> current_v then Some (Conflict current) else None)"

definition push_status_write :: "string \<Rightarrow> 'j StatusValue \<Rightarrow> 'j MemoryNameService \<Rightarrow> 'j MemoryNameService" where
  "push_status_write ledger_id new s = s\<lparr>mn_status_values := hm_insert (mn_status_values s) (mn_normalize ledger_id) new\<rparr>"

definition mn_push_status :: "('j \<Rightarrow> 'j \<Rightarrow> bool) \<Rightarrow> string \<Rightarrow> 'j StatusValue option \<Rightarrow> 'j StatusValue \<Rightarrow> 'j MemoryNameService \<Rightarrow>
    'j StatusValue CasResult \<times> 'j MemoryNameService" where
  "mn_push_status jeq ledger_id expected new s =
    (case push_status_check jeq ledger_id expected new s of
       Some conflict \<Rightarrow> (conflict, s)
     | None \<Rightarrow> (Updated, push_status_write ledger_id new s))"

definition push_config_check :: "('j \<Rightarrow> 'j \<Rightarrow> bool) \<Rightarrow> string \<Rightarrow> 'j ConfigValue option \<Rightarrow> 'j ConfigValue \<Rightarrow> 'j MemoryNameService \<Rightarrow>
    'j ConfigValue CasResult option" where
  "push_config_check jeq ledger_id expected new s =
    (let current = mn_get_config s ledger_id in
     case check_cas_expectation expected current False
         (\<lambda>exp actual. cv_v exp = cv_v actual \<and> rel_option (ConfigPayload_eq jeq) (cv_payload exp) (cv_payload actual)) of
       Some conflict \<Rightarrow> Some conflict
     | None \<Rightarrow>
         let current_v = (case current of Some c \<Rightarrow> cv_v c | None \<Rightarrow> 0)
         in if cv_v new \<le> current_v then Some (Conflict current) else None)"

definition sync_config :: "'j ConfigValue \<Rightarrow> NsRecord \<Rightarrow> NsRecord" where
  "sync_config new r = r\<lparr>nr_default_context := Option.bind (cv_payload new) cf_default_context,
     nr_config_id := Option.bind (cv_payload new) cf_config_id\<rparr>"

definition push_config_write :: "string \<Rightarrow> 'j ConfigValue \<Rightarrow> 'j MemoryNameService \<Rightarrow> 'j MemoryNameService" where
  "push_config_write ledger_id new s =
    (let key = mn_normalize ledger_id;
         s = s\<lparr>mn_config_values := hm_insert (mn_config_values s) key new\<rparr>
     in case hm_get (mn_records s) key of
          Some record \<Rightarrow> s\<lparr>mn_records := hm_insert (mn_records s) key (sync_config new record)\<rparr>
        | None \<Rightarrow> s)"

definition mn_push_config :: "('j \<Rightarrow> 'j \<Rightarrow> bool) \<Rightarrow> string \<Rightarrow> 'j ConfigValue option \<Rightarrow> 'j ConfigValue \<Rightarrow> 'j MemoryNameService \<Rightarrow>
    'j ConfigValue CasResult \<times> 'j MemoryNameService" where
  "mn_push_config jeq ledger_id expected new s =
    (case push_config_check jeq ledger_id expected new s of
       Some conflict \<Rightarrow> (conflict, s)
     | None \<Rightarrow> (Updated, push_config_write ledger_id new s))"

section \<open>Fast-forward\<close>

text \<open>
  The default method of the trait \<open>RefPublisher\<close>, over the two operations of an implementation.
  Between two awaited calls other clients may run: \<open>env i\<close> is what they do before the \<open>i\<close>-th call.
\<close>

fun fast_forward_commit ::
  "('s \<Rightarrow> RefValue option) \<Rightarrow> (RefValue option \<Rightarrow> RefValue \<Rightarrow> 's \<Rightarrow> ('e + RefValue CasResult) \<times> 's) \<Rightarrow> (nat \<Rightarrow> 's \<Rightarrow> 's) \<Rightarrow>
     RefValue \<Rightarrow> nat \<Rightarrow> nat \<Rightarrow> 's \<Rightarrow> ('e + RefValue CasResult) \<times> 's" where
  "fast_forward_commit get cas env new 0 i s = (let s = env i s in (Inr (Conflict (get s)), s))"
| "fast_forward_commit get cas env new (Suc retries) i s =
    (let s = env i s; current = get s in
     if (case current of Some cur \<Rightarrow> rv_t new \<le> rv_t cur | None \<Rightarrow> False) then (Inr (Conflict current), s)
     else
       (case cas current new (env (Suc i) s) of
          (Inl e, s) \<Rightarrow> (Inl e, s)
        | (Inr Updated, s) \<Rightarrow> (Inr Updated, s)
        | (Inr (Conflict actual), s) \<Rightarrow>
            if (case actual of Some a \<Rightarrow> rv_t new \<le> rv_t a | None \<Rightarrow> False) then (Inr (Conflict actual), s)
            else fast_forward_commit get cas env new retries (i + 2) s))"

section \<open>Writes as a log, and their events\<close>

datatype (plugins only: code size) 'j ns_op =
    Ns_CreateLedger string
  | Ns_CreateBranch string string string "(ContentId \<times> int) option"
  | Ns_DropBranch string
  | Ns_ResetHead string NsRecordSnapshot
  | Ns_Init string
  | Ns_Retract string
  | Ns_Purge string
  | Ns_PublishCommit string int ContentId
  | Ns_PublishIndex string int ContentId
  | Ns_PublishIndexAllowEqual string int ContentId
  | Ns_CompareAndSetRef string RefKind "RefValue option" RefValue
  | Ns_PublishGraphSource string string GraphSourceType string "string list"
  | Ns_PublishGraphSourceIndex string string ContentId int
  | Ns_RetractGraphSource string string
  | Ns_PushStatus string "'j StatusValue option" "'j StatusValue"
  | Ns_PushConfig string "'j ConfigValue option" "'j ConfigValue"

datatype (plugins only: code size) 'j ns_reply =
    Ns_Error NameServiceError
  | Ns_Done
  | Ns_Parent "nat option"
  | Ns_Ref "RefValue CasResult"
  | Ns_Status "'j StatusValue CasResult"
  | Ns_Config "'j ConfigValue CasResult"

definition reply_with :: "('a \<Rightarrow> 'j ns_reply) \<Rightarrow> (NameServiceError + 'a) \<times> 's \<Rightarrow> 's \<times> 'j ns_reply" where
  "reply_with f x = (snd x, case fst x of Inl e \<Rightarrow> Ns_Error e | Inr a \<Rightarrow> f a)"

primrec mn_apply :: "('j \<Rightarrow> 'j \<Rightarrow> bool) \<Rightarrow> 'j MemoryNameService \<Rightarrow> 'j ns_op \<Rightarrow> 'j MemoryNameService \<times> 'j ns_reply" where
  "mn_apply jeq s (Ns_CreateLedger l) = reply_with (\<lambda>_. Ns_Done) (mn_create_ledger l s)"
| "mn_apply jeq s (Ns_CreateBranch n b src at) = reply_with (\<lambda>_. Ns_Done) (mn_create_branch n b src at s)"
| "mn_apply jeq s (Ns_DropBranch l) = reply_with Ns_Parent (mn_drop_branch l s)"
| "mn_apply jeq s (Ns_ResetHead l sn) = reply_with (\<lambda>_. Ns_Done) (mn_reset_head l sn s)"
| "mn_apply jeq s (Ns_Init l) = reply_with (\<lambda>_. Ns_Done) (mn_init l s)"
| "mn_apply jeq s (Ns_Retract l) = reply_with (\<lambda>_. Ns_Done) (mn_retract l s)"
| "mn_apply jeq s (Ns_Purge l) = reply_with (\<lambda>_. Ns_Done) (mn_purge l s)"
| "mn_apply jeq s (Ns_PublishCommit l t i) = reply_with (\<lambda>_. Ns_Done) (mn_publish_commit l t i s)"
| "mn_apply jeq s (Ns_PublishIndex l t i) = reply_with (\<lambda>_. Ns_Done) (mn_publish_index l t i s)"
| "mn_apply jeq s (Ns_PublishIndexAllowEqual l t i) = reply_with (\<lambda>_. Ns_Done) (mn_publish_index_allow_equal l t i s)"
| "mn_apply jeq s (Ns_CompareAndSetRef l k ex new) = reply_with Ns_Ref (mn_compare_and_set_ref l k ex new s)"
| "mn_apply jeq s (Ns_PublishGraphSource n b ty cfg deps) = reply_with (\<lambda>_. Ns_Done) (mn_publish_graph_source n b ty cfg deps s)"
| "mn_apply jeq s (Ns_PublishGraphSourceIndex n b i t) = reply_with (\<lambda>_. Ns_Done) (mn_publish_graph_source_index n b i t s)"
| "mn_apply jeq s (Ns_RetractGraphSource n b) = reply_with (\<lambda>_. Ns_Done) (mn_retract_graph_source n b s)"
| "mn_apply jeq s (Ns_PushStatus l ex new) = (let (r, s) = mn_push_status jeq l ex new s in (s, Ns_Status r))"
| "mn_apply jeq s (Ns_PushConfig l ex new) = (let (r, s) = mn_push_config jeq l ex new s in (s, Ns_Config r))"

text \<open>The events \<open>NotifyingNameService\<close> emits after the write of its inner nameservice returned.\<close>

definition notify_events :: "'j ns_op \<Rightarrow> 'j ns_reply \<Rightarrow> NameServiceEvent list" where
  "notify_events op reply =
    (case reply of Ns_Error _ \<Rightarrow> [] | _ \<Rightarrow>
     (case op of
        Ns_DropBranch l \<Rightarrow> [Event_LedgerRetracted l]
      | Ns_Retract l \<Rightarrow> [Event_LedgerRetracted l]
      | Ns_Purge l \<Rightarrow> [Event_LedgerRetracted l]
      | Ns_PublishCommit l t i \<Rightarrow> [Event_LedgerCommitPublished l i t]
      | Ns_PublishIndex l t i \<Rightarrow> [Event_LedgerIndexPublished l i t]
      | Ns_PublishIndexAllowEqual l t i \<Rightarrow> [Event_LedgerIndexPublished l i t]
      | Ns_CompareAndSetRef l k ex new \<Rightarrow>
          (case (reply, rv_id new) of
             (Ns_Ref Updated, Some cid) \<Rightarrow>
               (case k of
                  CommitHead \<Rightarrow> [Event_LedgerCommitPublished l cid (rv_t new)]
                | IndexHead \<Rightarrow> [Event_LedgerIndexPublished l cid (rv_t new)])
           | _ \<Rightarrow> [])
      | Ns_PublishGraphSource n b ty cfg deps \<Rightarrow> [Event_GraphSourceConfigPublished (n @ '':'' @ b) ty deps]
      | Ns_PublishGraphSourceIndex n b i t \<Rightarrow> [Event_GraphSourceIndexPublished (n @ '':'' @ b) i t]
      | Ns_RetractGraphSource n b \<Rightarrow> [Event_GraphSourceRetracted (n @ '':'' @ b)]
      | _ \<Rightarrow> []))"

definition notifying_apply :: "('j \<Rightarrow> 'j \<Rightarrow> bool) \<Rightarrow> 'j MemoryNameService \<Rightarrow> 'j ns_op \<Rightarrow> 'j MemoryNameService \<times> 'j ns_reply \<times> NameServiceEvent list" where
  "notifying_apply jeq s op = (let (s', reply) = mn_apply jeq s op in (s', reply, notify_events op reply))"


section \<open>Subscriptions\<close>

datatype SubscriptionScope = ResourceId string | AllResources

primrec scope_matches :: "SubscriptionScope \<Rightarrow> string \<Rightarrow> bool" where
  "scope_matches AllResources event_resource_id = True"
| "scope_matches (ResourceId i) event_resource_id = (i = event_resource_id)"

end
