(* ===== verification/NsInvariants.thy ===== *)
theory NsInvariants
  imports NsMemory
begin

text \<open>
  How a write changes the ledger records of the in-memory nameservice (\<open>mn_apply_records\<close>), and the
  invariants that follow along every run: records stand under their own id, the child count of a
  branch is the number of branches forked from it, heads move forward, and the config values and the
  records agree.
\<close>

section \<open>Keys\<close>

lemma mn_normalize_format [simp]: "mn_normalize (format_ledger_id n b) = format_ledger_id n b"
proof (cases "split_ledger_id (format_ledger_id n b)")
  case (Inr nb)
  then obtain n' b' where sp: "split_ledger_id (format_ledger_id n b) = Inr (n', b')"
    by (cases nb) simp
  from split_ledger_id_InrD [OF sp] have "format_ledger_id n b = format_ledger_id n' b'"
    by (auto simp: format_ledger_id_def)
  with sp show ?thesis
    by (simp only: mn_normalize_def normalize_ledger_id_def sum.case prod.case)
qed (simp add: mn_normalize_def normalize_ledger_id_def)

definition placed :: "string \<Rightarrow> NsRecord \<Rightarrow> bool" where
  "placed k r \<longleftrightarrow> nr_ledger_id r = k \<and> k = format_ledger_id (nr_name r) (nr_branch r)"

definition same_place :: "NsRecord \<Rightarrow> NsRecord \<Rightarrow> bool" where
  "same_place r r' \<longleftrightarrow> nr_ledger_id r' = nr_ledger_id r \<and> nr_name r' = nr_name r \<and> nr_branch r' = nr_branch r \<and>
     nr_source_branch r' = nr_source_branch r \<and> nr_branches r' = nr_branches r"

definition new_place :: "string \<Rightarrow> NsRecord \<Rightarrow> bool" where
  "new_place k r \<longleftrightarrow> placed k r \<and> nr_source_branch r = None \<and> nr_branches r = 0 \<and> nr_default_context r = None \<and> nr_config_id r = None"

definition heads_forward :: "NsRecord \<Rightarrow> NsRecord \<Rightarrow> bool" where
  "heads_forward r r' \<longleftrightarrow> nr_commit_t r \<le> nr_commit_t r' \<and> (nr_commit_t r' = nr_commit_t r \<longrightarrow> nr_commit_head_id r' = nr_commit_head_id r) \<and>
     nr_index_t r \<le> nr_index_t r' \<and> (nr_retracted r \<longrightarrow> nr_retracted r')"

definition same_config :: "NsRecord \<Rightarrow> NsRecord \<Rightarrow> bool" where
  "same_config r r' \<longleftrightarrow> nr_default_context r' = nr_default_context r \<and> nr_config_id r' = nr_config_id r"

lemmas place_defs = placed_def same_place_def new_place_def heads_forward_def same_config_def

lemma fresh_record_new:
  assumes "fresh_record l = Inr r"
  shows "new_place (mn_normalize l) r \<and> nr_ledger_id r = mn_normalize l"
proof -
  obtain n b where sp: "split_ledger_id l = Inr (n, b)"
    using assms by (auto simp: fresh_record_def split: sum.splits)
  then have "mn_normalize l = format_ledger_id n b"
    by (simp add: mn_normalize_def normalize_ledger_id_def)
  with assms sp show ?thesis
    by (auto simp: fresh_record_def place_defs NsRecord_new_def)
qed

lemma set_ref_new [simp]: "new_place k r \<Longrightarrow> new_place k (set_ref kind new r)"
  by (cases kind) (simp_all add: set_ref_def place_defs)

section \<open>What a write does to the records\<close>

definition resets :: "'j ns_op \<Rightarrow> bool" where
  "resets op = (case op of Ns_ResetHead _ _ \<Rightarrow> True | _ \<Rightarrow> False)"

definition configures :: "'j ns_op \<Rightarrow> bool" where
  "configures op = (case op of Ns_PushConfig _ _ _ \<Rightarrow> True | _ \<Rightarrow> False)"

definition decremented :: "NsRecord \<Rightarrow> (string, NsRecord) hashmap \<Rightarrow> (string, NsRecord) hashmap" where
  "decremented r m = (case nr_source_branch r of None \<Rightarrow> m
     | Some src \<Rightarrow> (case hm_get m (format_ledger_id (nr_name r) src) of None \<Rightarrow> m
         | Some p \<Rightarrow> hm_insert m (format_ledger_id (nr_name r) src) (p\<lparr>nr_branches := nr_branches p - 1\<rparr>)))"

inductive records_change :: "'j ns_op \<Rightarrow> (string, NsRecord) hashmap \<Rightarrow> (string, NsRecord) hashmap \<Rightarrow> bool" for op :: "'j ns_op" and m where
  rc_same: "records_change op m m"
| rc_update: "\<lbrakk>hm_get m k = Some r; same_place r r'; resets op \<or> heads_forward r r'; configures op \<or> same_config r r'\<rbrakk> \<Longrightarrow> records_change op m (hm_insert m k r')"
| rc_create: "\<lbrakk>hm_get m k = None; new_place k r\<rbrakk> \<Longrightarrow> records_change op m (hm_insert m k r)"
| rc_branch: "\<lbrakk>op = Ns_CreateBranch n b src at; hm_get m (format_ledger_id n b) = None; hm_get m (format_ledger_id n src) = Some p;
     placed (format_ledger_id n b) r; nr_name r = n; nr_source_branch r = Some src; nr_branches r = 0; nr_default_context r = None; nr_config_id r = None\<rbrakk> \<Longrightarrow>
     records_change op m (hm_insert (hm_insert m (format_ledger_id n src) (p\<lparr>nr_branches := u32_wrapping_succ (nr_branches p)\<rparr>)) (format_ledger_id n b) r)"
| rc_drop: "\<lbrakk>op = Ns_DropBranch l; hm_get m (mn_normalize l) = Some r; nr_branches r = 0\<rbrakk> \<Longrightarrow>
     records_change op m (decremented r (hm_remove m (mn_normalize l)))"
| rc_purge: "op = Ns_Purge l \<Longrightarrow> records_change op m (hm_remove m (mn_normalize l))"
| rc_overwrite: "\<lbrakk>op = Ns_CreateLedger l; new_place (mn_normalize l) r\<rbrakk> \<Longrightarrow> records_change op m (hm_insert m (mn_normalize l) r)"

lemma hm_contains_get: "hm_contains m k \<longleftrightarrow> (\<exists>r. hm_get m k = Some r)"
  by (auto simp: hm_contains_def)

lemma reply_with_fst [simp]: "fst (reply_with f x) = snd x"
  by (simp add: reply_with_def)

lemma publish_index_if_change:
  assumes "\<And>a b. guard a b \<Longrightarrow> b \<le> a"
  shows "records_change op (mn_records s) (mn_records (snd (publish_index_if guard l t i s)))"
proof (cases "hm_get (mn_records s) (mn_normalize l)")
  case None
  then show ?thesis
    by (auto simp: publish_index_if_def Let_def new_place_def placed_def rc_same split: sum.split
        intro!: rc_create dest!: fresh_record_new)
next
  case (Some r)
  then show ?thesis
    by (auto simp: publish_index_if_def place_defs rc_same assms intro!: rc_update [OF Some])
qed

lemma create_branch_change:
  "records_change (Ns_CreateBranch n b src at) (mn_records s) (mn_records (snd (mn_create_branch n b src at s)))"
proof (cases "hm_contains (mn_records s) (format_ledger_id n b)")
  case False
  then have none: "hm_get (mn_records s) (format_ledger_id n b) = None"
    by (simp add: hm_contains_def)
  show ?thesis
  proof (cases "hm_get (mn_records s) (format_ledger_id n src)")
    case (Some p)
    show ?thesis
      by (auto simp: mn_create_branch_def Let_def False Some NsRecord_new_def placed_def intro!: rc_branch [OF refl none Some] split: option.split)
  qed (simp add: mn_create_branch_def False rc_same)
qed (simp add: mn_create_branch_def rc_same)

lemma drop_branch_change: "records_change (Ns_DropBranch l) (mn_records s) (mn_records (snd (mn_drop_branch l s)))"
proof (cases "hm_get (mn_records s) (mn_normalize l)")
  case (Some r)
  show ?thesis
  proof (cases "nr_branches r = 0")
    case True
    have "mn_records (snd (mn_drop_branch l s)) = decremented r (hm_remove (mn_records s) (mn_normalize l))"
      by (simp add: mn_drop_branch_def Some True decremented_def Let_def split: option.split)
    then show ?thesis
      using rc_drop [OF refl Some True] by simp
  qed (simp add: mn_drop_branch_def Some rc_same)
qed (simp add: mn_drop_branch_def rc_same)

lemma compare_and_set_change:
  "records_change op (mn_records s) (mn_records (snd (mn_compare_and_set_ref l kind ex new s)))"
proof (cases "hm_get (mn_records s) (mn_normalize l)")
  case None
  then show ?thesis
    by (auto simp: mn_compare_and_set_ref_def Let_def rc_same split: sum.split option.split intro!: rc_create dest!: fresh_record_new)
next
  case (Some r)
  then show ?thesis
    by (cases kind) (auto simp: mn_compare_and_set_ref_def Let_def rc_same set_ref_def ref_of_def place_defs split: option.split
        intro!: rc_update [OF Some])
qed

lemma mn_apply_records: "records_change op (mn_records s) (mn_records (fst (mn_apply jeq s op)))"
proof (cases op)
  case (Ns_CreateLedger l)
  then show ?thesis
    by (auto simp: mn_create_ledger_def rc_same split: sum.split dest!: fresh_record_new intro!: rc_overwrite)
next
  case (Ns_ResetHead l sn)
  then show ?thesis
    by (auto simp: mn_reset_head_def Let_def rc_same resets_def same_place_def same_config_def split: option.split intro!: rc_update)
next
  case (Ns_Init l)
  then show ?thesis
    by (auto simp: mn_init_def init_check_def init_write_def Let_def hm_contains_def rc_same split: option.split sum.split
        dest!: fresh_record_new intro!: rc_create)
next
  case (Ns_Retract l)
  then show ?thesis
    by (auto simp: mn_retract_def Let_def rc_same place_defs split: option.split intro!: rc_update)
next
  case (Ns_Purge l)
  then show ?thesis
    by (auto simp: mn_purge_def Let_def intro: rc_purge)
next
  case (Ns_PublishCommit l t i)
  show ?thesis
  proof (cases "hm_get (mn_records s) (mn_normalize l)")
    case None
    then show ?thesis
      by (auto simp: Ns_PublishCommit mn_publish_commit_def Let_def new_place_def placed_def rc_same split: sum.split
          dest!: fresh_record_new intro!: rc_create)
  next
    case (Some r)
    then show ?thesis
      by (auto simp: Ns_PublishCommit mn_publish_commit_def place_defs rc_same intro!: rc_update [OF Some])
  qed
next
  case (Ns_PushConfig l ex new)
  then show ?thesis
    by (auto simp: mn_push_config_def push_config_write_def sync_config_def Let_def rc_same place_defs configures_def split: option.split intro!: rc_update)
next
  case (Ns_PublishIndex l t i)
  then show ?thesis
    by (simp add: mn_publish_index_def publish_index_if_change order_less_imp_le)
next
  case (Ns_PushStatus l ex new)
  then show ?thesis
    by (simp add: mn_push_status_def push_status_write_def rc_same split: option.split)
qed (simp_all add: create_branch_change drop_branch_change compare_and_set_change publish_index_if_change
    mn_publish_index_allow_equal_def mn_publish_graph_source_def mn_publish_graph_source_index_def mn_retract_graph_source_def
    Let_def rc_same split: option.split)


section \<open>Placement and size\<close>

definition records_inv :: "(string, NsRecord) hashmap \<Rightarrow> bool" where
  "records_inv m \<longleftrightarrow> hm_wf m \<and> (\<forall>k r. hm_get m k = Some r \<longrightarrow> placed k r)"

lemma placed_branches [simp]: "placed k (r\<lparr>nr_branches := n\<rparr>) = placed k r"
  by (simp add: placed_def)

lemma same_place_placed: "same_place r r' \<Longrightarrow> placed k r \<Longrightarrow> placed k r'"
  by (simp add: place_defs)

lemma decremented_inv: "records_inv m \<Longrightarrow> records_inv (decremented r m)"
  by (auto simp: records_inv_def decremented_def split: option.split)

lemma remove_inv: "records_inv m \<Longrightarrow> records_inv (hm_remove m k)"
  by (auto simp: records_inv_def split: if_splits)

lemma records_change_inv:
  assumes "records_change op m m'" "records_inv m"
  shows "records_inv m'"
  using assms(1)
proof cases
  case (rc_drop l r)
  show ?thesis
    unfolding rc_drop(1) by (intro decremented_inv remove_inv assms(2))
qed (use assms(2) in \<open>auto simp: records_inv_def new_place_def intro: same_place_placed\<close>)

lemma hm_length_insert: "length (hm_insert m k v) = length m + (if hm_get m k = None then 1 else 0)"
  unfolding hm_insert_def hm_get_def by (induction m) auto

lemma hm_length_remove: "length (hm_remove m k) \<le> length m"
  by (simp add: hm_remove_def length_delete_le)

lemma records_change_length: "records_change op m m' \<Longrightarrow> length m' \<le> length m + 1"
proof (induction rule: records_change.induct)
  case (rc_drop l r)
  then show ?case
    using hm_length_remove [of m "mn_normalize l"] by (auto simp: decremented_def hm_length_insert split: option.split)
next
  case (rc_purge l)
  then show ?case
    using hm_length_remove [of m "mn_normalize l"] by simp
qed (auto simp: hm_length_insert)

section \<open>Lineage\<close>

definition parent_key :: "NsRecord \<Rightarrow> string option" where
  "parent_key r = map_option (format_ledger_id (nr_name r)) (nr_source_branch r)"

definition forks :: "(string, NsRecord) hashmap \<Rightarrow> string \<Rightarrow> nat" where
  "forks m k = hm_sum (\<lambda>r. if parent_key r = Some k then 1 else 0) m"

definition records_lineage :: "(string, NsRecord) hashmap \<Rightarrow> bool" where
  "records_lineage m \<longleftrightarrow> (\<forall>k r. hm_get m k = Some r \<longrightarrow> nr_branches r = forks m k \<and> (\<forall>p. parent_key r = Some p \<longrightarrow> hm_get m p \<noteq> None))"

lemma forks_insert: "hm_wf m \<Longrightarrow> forks (hm_insert m k r) x = (if parent_key r = Some x then 1 else 0) + forks (hm_remove m k) x"
  by (simp add: forks_def hm_sum_insert)

lemma forks_remove: "hm_wf m \<Longrightarrow> hm_get m k = Some r \<Longrightarrow> forks m x = (if parent_key r = Some x then 1 else 0) + forks (hm_remove m k) x"
  by (simp add: forks_def hm_sum_remove)

lemma forks_update:
  "hm_wf m \<Longrightarrow> hm_get m k = Some r \<Longrightarrow> parent_key r' = parent_key r \<Longrightarrow> forks (hm_insert m k r') = forks m"
  by (rule ext) (simp add: forks_insert forks_remove [of m k r])

lemma parent_key_branches [simp]: "parent_key (r\<lparr>nr_branches := n\<rparr>) = parent_key r"
  by (simp add: parent_key_def)

lemma forks_zero: "hm_wf m \<Longrightarrow> forks m k = 0 \<longleftrightarrow> (\<forall>x r. hm_get m x = Some r \<longrightarrow> parent_key r \<noteq> Some k)"
proof -
  assume "hm_wf m"
  then have "forks m k = 0 \<longleftrightarrow> (\<forall>r\<in>set (hm_values m). parent_key r \<noteq> Some k)"
    by (auto simp: forks_def hm_sum_def split: if_splits)
  with \<open>hm_wf m\<close> show ?thesis
    by (auto simp: hm_values_iff)
qed

lemma forks_le: "forks m k \<le> length m"
proof -
  have "hm_sum (\<lambda>r. if parent_key r = Some k then 1 else 0) m \<le> length m"
    by (induction m) (auto simp: hm_sum_def hm_values_def)
  then show ?thesis
    by (simp add: forks_def)
qed

lemma records_orphan: "records_lineage m \<Longrightarrow> hm_wf m \<Longrightarrow> hm_get m k = None \<Longrightarrow> forks m k = 0"
  by (metis forks_zero records_lineage_def)

lemma lineage_update:
  assumes "records_lineage m" "hm_wf m" "hm_get m k = Some r" "same_place r r'"
  shows "records_lineage (hm_insert m k r')"
proof -
  have "parent_key r' = parent_key r"
    using assms(4) by (simp add: parent_key_def same_place_def)
  with assms show ?thesis
    by (auto simp: records_lineage_def forks_update same_place_def)
qed

lemma lineage_create:
  assumes "records_lineage m" "hm_wf m" "hm_get m k = None" "new_place k r"
  shows "records_lineage (hm_insert m k r)"
proof -
  have "parent_key r = None" "nr_branches r = 0"
    using assms(4) by (simp_all add: parent_key_def new_place_def)
  with assms records_orphan [OF assms(1-3)] show ?thesis
    by (auto simp: records_lineage_def forks_insert hm_remove_absent)
qed

lemma lineage_branch:
  assumes "records_lineage m" "hm_wf m" "hm_get m k = None" "hm_get m pk = Some p" "parent_key r = Some pk" "nr_branches r = 0"
    "length m < 2 ^ 32 - 1"
  shows "records_lineage (hm_insert (hm_insert m pk (p\<lparr>nr_branches := u32_wrapping_succ (nr_branches p)\<rparr>)) k r)"
proof -
  let ?m = "hm_insert m pk (p\<lparr>nr_branches := u32_wrapping_succ (nr_branches p)\<rparr>)"
  have ne: "k \<noteq> pk"
    using assms(3,4) by auto
  have "forks (hm_insert ?m k r) x = (if x = pk then 1 else 0) + forks m x" for x
    using assms ne by (simp add: forks_insert hm_remove_absent forks_update [OF assms(2,4)])
  moreover have "u32_wrapping_succ (nr_branches p) = forks m pk + 1"
    using assms(1,4,7) forks_le [of m pk] by (simp add: u32_wrapping_succ_def records_lineage_def)
  ultimately show ?thesis
    using assms ne records_orphan [OF assms(1-3)] by (auto simp: records_lineage_def)
qed

lemma lineage_drop:
  assumes "records_lineage m" "hm_wf m" "hm_get m k = Some r" "nr_branches r = 0"
  shows "records_lineage (decremented r (hm_remove m k))"
proof -
  have none: "parent_key x \<noteq> Some k" if "hm_get m y = Some x" for x y
    using assms that forks_zero [OF assms(2), of k] by (auto simp: records_lineage_def)
  show ?thesis
  proof (cases "parent_key r")
    case None
    then have "forks m = forks (hm_remove m k)" "decremented r (hm_remove m k) = hm_remove m k"
      using forks_remove [OF assms(2,3)] by (auto simp: fun_eq_iff decremented_def parent_key_def)
    then show ?thesis
      using assms(1) none by (auto simp: records_lineage_def)
  next
    case (Some p)
    then have "p \<noteq> k" "hm_get m p \<noteq> None"
      using none [OF assms(3)] assms(1,3) by (auto simp: records_lineage_def)
    then obtain q where q: "hm_get m p = Some q" "p \<noteq> k" by auto
    have f: "forks m x = (if x = p then 1 else 0) + forks (hm_remove m k) x" for x
      using forks_remove [OF assms(2,3), of x] Some by auto
    have "decremented r (hm_remove m k) = hm_insert (hm_remove m k) p (q\<lparr>nr_branches := nr_branches q - 1\<rparr>)"
      using Some q by (auto simp: decremented_def parent_key_def split: option.split)
    moreover have "forks (hm_insert (hm_remove m k) p (q\<lparr>nr_branches := nr_branches q - 1\<rparr>)) = forks (hm_remove m k)"
      using q assms(2) by (intro forks_update) auto
    ultimately show ?thesis
      using assms(1) none q f by (auto simp: records_lineage_def)
  qed
qed

definition keeps_lineage :: "'j ns_op \<Rightarrow> bool" where
  "keeps_lineage op = (case op of Ns_Purge _ \<Rightarrow> False | Ns_CreateLedger _ \<Rightarrow> False | _ \<Rightarrow> True)"

lemma records_change_lineage:
  assumes "records_change op m m'" "keeps_lineage op" "records_inv m" "records_lineage m" "length m < 2 ^ 32 - 1"
  shows "records_lineage m'"
  using assms(1)
proof cases
  case (rc_branch n b src at p r)
  then show ?thesis
    using assms(3-5) by (auto simp: records_inv_def parent_key_def intro: lineage_branch)
qed (use assms(2-4) in \<open>auto simp: records_inv_def keeps_lineage_def intro: lineage_update lineage_create lineage_drop\<close>)

end
