(* ===== verification/NsProperties.thy ===== *)
theory NsProperties
  imports NsInvariants
begin

text \<open>
  Properties of the single-node nameservice: lookups, lineage of branches, monotone heads, agreement of
  config values and records, the decision of a fast-forward under interference, and the events of the
  notifying decorator; and the inputs on which the code departs from its documentation.
\<close>

section \<open>Runs\<close>

abbreviation mn_run :: "('j \<Rightarrow> 'j \<Rightarrow> bool) \<Rightarrow> 'j MemoryNameService \<Rightarrow> 'j ns_op list \<Rightarrow> 'j MemoryNameService" where
  "mn_run jeq s ops \<equiv> fst (run_log (mn_apply jeq) s ops)"

lemma run_records_inv: "records_inv (mn_records s) \<Longrightarrow> records_inv (mn_records (mn_run jeq s ops))"
  by (induction ops rule: rev_induct) (auto simp: fst_run_log_snoc intro: records_change_inv [OF mn_apply_records])

lemma new_records_inv: "records_inv (mn_records MemoryNameService_new)"
  by (simp add: records_inv_def MemoryNameService_new_def)

lemma placed_normal: "placed k r \<Longrightarrow> mn_normalize k = k"
  by (metis placed_def mn_normalize_format)

lemma lookup_normalized:
  assumes "records_inv (mn_records s)"
  shows "mn_lookup s l = hm_get (mn_records s) (mn_normalize l)"
proof (cases "hm_get (mn_records s) l")
  case (Some r)
  then have "mn_normalize l = l"
    using assms by (intro placed_normal [of l r]) (simp add: records_inv_def)
  then show ?thesis
    by (simp add: mn_lookup_def Some)
next
  case None
  then show ?thesis
    by (cases "normalize_ledger_id l") (simp_all add: mn_lookup_def mn_normalize_def)
qed

lemma run_lineage:
  assumes "\<forall>op\<in>set ops. keeps_lineage op" "length ops < 2 ^ 32"
  shows "records_lineage (mn_records (mn_run jeq MemoryNameService_new ops)) \<and> length (mn_records (mn_run jeq MemoryNameService_new ops)) \<le> length ops"
  using assms
proof (induction ops rule: rev_induct)
  case Nil
  then show ?case
    by (simp add: records_lineage_def MemoryNameService_new_def hm_empty_def hm_get_def)
next
  case (snoc op ops)
  let ?m = "mn_records (mn_run jeq MemoryNameService_new ops)"
  have m: "records_lineage ?m" "length ?m \<le> length ops" "length ?m < 2 ^ 32 - 1" and op: "keeps_lineage op"
    using snoc by auto
  have "records_lineage (mn_records (fst (mn_apply jeq (mn_run jeq MemoryNameService_new ops) op)))"
    by (rule records_change_lineage [OF mn_apply_records op run_records_inv [OF new_records_inv] m(1,3)])
  moreover have "length (mn_records (fst (mn_apply jeq (mn_run jeq MemoryNameService_new ops) op))) \<le> length ?m + 1"
    by (rule records_change_length [OF mn_apply_records])
  ultimately show ?case
    using m(2) by (simp add: fst_run_log_snoc)
qed

section \<open>A sample run\<close>

definition ns_cid :: "nat \<Rightarrow> ContentId" where
  "ns_cid n = ContentId [n]"

definition ns_sample_ops :: "unit ns_op list" where
  "ns_sample_ops = [Ns_Init ''movies'', Ns_PublishCommit ''movies'' 1 (ns_cid 1), Ns_CreateBranch ''movies'' ''dev'' ''main'' None]"

definition sample_ns :: "unit MemoryNameService" where
  "sample_ns = mn_run (=) MemoryNameService_new ns_sample_ops"

definition ns_main :: NsRecord where
  "ns_main = (NsRecord_new ''movies'' ''main'')\<lparr>nr_commit_head_id := Some (ns_cid 1), nr_commit_t := 1, nr_branches := 1\<rparr>"

definition ns_dev :: NsRecord where
  "ns_dev = (NsRecord_new ''movies'' ''dev'')\<lparr>nr_commit_head_id := Some (ns_cid 1), nr_commit_t := 1, nr_source_branch := Some ''main''\<rparr>"

lemma ns_sample_keys [simp]:
  "mn_normalize ''movies'' = ''movies:main''" "mn_normalize ''movies:main'' = ''movies:main''" "mn_normalize ''movies:dev'' = ''movies:dev''"
  "format_ledger_id ''movies'' ''main'' = ''movies:main''" "format_ledger_id ''movies'' ''dev'' = ''movies:dev''"
  by code_simp+

lemma sample_ns_eq:
  "sample_ns = \<lparr>mn_records = [(''movies:main'', ns_main), (''movies:dev'', ns_dev)], mn_graph_source_records = [], mn_status_values = [], mn_config_values = []\<rparr>"
  by (simp add: sample_ns_def ns_sample_ops_def ns_main_def ns_dev_def MemoryNameService_new_def mn_init_def init_check_def init_write_def
      fresh_record_def split_ledger_id_def DEFAULT_BRANCH_def hm_contains_def hm_empty_def hm_get_def hm_insert_def NsRecord_new_def
      mn_publish_commit_def mn_create_branch_def u32_wrapping_succ_def Let_def reply_with_def)

section \<open>Records\<close>

text \<open>
  Lookups: in every state a run reaches, \<open>lookup\<close> finds the record of the normalised id and
  nothing else, the record carries that id, a name without a branch means its main branch, and
  \<open>list_branches\<close> returns the records of the name that are not retracted.
\<close>

theorem ns_lookup_exact:
  assumes "s = mn_run jeq MemoryNameService_new ops"
  shows "mn_lookup s l = hm_get (mn_records s) (mn_normalize l) \<and>
    (\<forall>r. mn_lookup s l = Some r \<longrightarrow> nr_ledger_id r = mn_normalize l) \<and>
    (l \<noteq> [] \<longrightarrow> CHR '':'' \<notin> set l \<longrightarrow> mn_lookup s l = mn_lookup s (format_ledger_id l ''main'')) \<and>
    set (mn_list_branches s n) = {r. nr_name r = n \<and> \<not> nr_retracted r \<and> mn_lookup s (nr_ledger_id r) = Some r}"
proof -
  have inv: "records_inv (mn_records s)"
    unfolding assms by (rule run_records_inv [OF new_records_inv])
  note look = lookup_normalized [OF inv]
  have main: "mn_normalize l = format_ledger_id l ''main''" if "l \<noteq> []" "CHR '':'' \<notin> set l"
    using that by (simp add: mn_normalize_def normalize_ledger_id_def split_ledger_id_def splitn2_none DEFAULT_BRANCH_def)
  have "hm_get (mn_records s) (nr_ledger_id r) = Some r \<and> mn_normalize (nr_ledger_id r) = nr_ledger_id r"
    if "hm_get (mn_records s) k = Some r" for k r
  proof -
    have "placed k r"
      using inv that by (simp add: records_inv_def)
    then show ?thesis
      using that placed_normal [of k r] by (simp add: placed_def)
  qed
  then have "set (mn_list_branches s n) = {r. nr_name r = n \<and> \<not> nr_retracted r \<and> mn_lookup s (nr_ledger_id r) = Some r}"
    using inv by (auto simp: mn_list_branches_def hm_values_iff records_inv_def look)
  then show ?thesis
    using inv main by (auto simp: look records_inv_def placed_def)
qed

theorem ns_lookup_exact_witness: "mn_lookup sample_ns ''movies'' = Some ns_main \<and> mn_lookup sample_ns ''movies:main'' = Some ns_main"
proof -
  have "hm_get (mn_records sample_ns) ''movies:main'' = Some ns_main"
    by (simp add: sample_ns_eq hm_get_def)
  then show ?thesis
    using ns_lookup_exact [OF sample_ns_def, of "''movies''" "''movies''"] by auto
qed



definition keeps_heads :: "'j ns_op \<Rightarrow> bool" where
  "keeps_heads op = (case op of Ns_ResetHead _ _ \<Rightarrow> False | Ns_DropBranch _ \<Rightarrow> False | Ns_Purge _ \<Rightarrow> False | Ns_CreateLedger _ \<Rightarrow> False | _ \<Rightarrow> True)"

lemma heads_forward_refl [simp]: "heads_forward r r" "heads_forward r (r\<lparr>nr_branches := n\<rparr>)"
  by (simp_all add: heads_forward_def)

lemma heads_forward_trans: "heads_forward a b \<Longrightarrow> heads_forward b c \<Longrightarrow> heads_forward a c"
  by (auto simp: heads_forward_def)

lemma records_change_heads:
  assumes "records_change op m m'" "keeps_heads op" "hm_get m k = Some r"
  shows "\<exists>r'. hm_get m' k = Some r' \<and> heads_forward r r'"
proof -
  have op: "\<not> resets op" "op \<noteq> Ns_DropBranch l" "op \<noteq> Ns_Purge l" "op \<noteq> Ns_CreateLedger l" for l
    using assms(2) by (cases op; simp add: keeps_heads_def resets_def)+
  show ?thesis
    using assms(1) by cases (use op assms(3) in auto)
qed



section \<open>Status and config values\<close>

definition keeps_values :: "'j ns_op \<Rightarrow> bool" where
  "keeps_values op = (case op of Ns_DropBranch _ \<Rightarrow> False | Ns_CreateLedger _ \<Rightarrow> False | _ \<Rightarrow> True)"

definition config_at :: "'j MemoryNameService \<Rightarrow> string \<Rightarrow> 'j ConfigValue" where
  "config_at s k = (case hm_get (mn_config_values s) k of Some c \<Rightarrow> c | None \<Rightarrow> ConfigValue_unborn)"

definition config_synced :: "'j ConfigValue \<Rightarrow> NsRecord \<Rightarrow> bool" where
  "config_synced c r \<longleftrightarrow> nr_default_context r = Option.bind (cv_payload c) cf_default_context \<and> nr_config_id r = Option.bind (cv_payload c) cf_config_id"

definition values_inv :: "'j MemoryNameService \<Rightarrow> bool" where
  "values_inv s \<longleftrightarrow> (\<forall>k. hm_get (mn_records s) k = None \<longrightarrow> hm_get (mn_config_values s) k = None \<and> hm_get (mn_status_values s) k = None) \<and>
     (\<forall>k r. hm_get (mn_records s) k = Some r \<longrightarrow> config_synced (config_at s k) r)"

lemma config_synced_simps [simp]:
  "config_synced c (sync_config c r)" "config_synced c (r\<lparr>nr_branches := n\<rparr>) \<longleftrightarrow> config_synced c r"
  by (simp_all add: config_synced_def sync_config_def)

lemma sync_same: "same_config r r' \<Longrightarrow> config_synced c r \<Longrightarrow> config_synced c r'"
  by (simp add: same_config_def config_synced_def)

lemma sync_new: "nr_default_context r = None \<Longrightarrow> nr_config_id r = None \<Longrightarrow> config_synced ConfigValue_unborn r"
  by (simp add: config_synced_def ConfigValue_unborn_def)

text \<open>The other writes: values are unchanged, except that a status may appear where a record or a status was.\<close>

lemmas write_defs = mn_create_ledger_def mn_create_branch_def mn_drop_branch_def mn_reset_head_def mn_init_def init_check_def
  init_write_def mn_retract_def mn_publish_commit_def publish_index_if_def mn_publish_index_def mn_publish_index_allow_equal_def
  mn_compare_and_set_ref_def mn_publish_graph_source_def mn_publish_graph_source_index_def mn_retract_graph_source_def
  mn_push_status_def push_status_write_def mn_purge_def

lemma other_config:
  assumes "\<not> configures op" "\<forall>l. op \<noteq> Ns_Purge l"
  shows "mn_config_values (fst (mn_apply jeq s op)) = mn_config_values s"
  using assms by (cases op) (simp_all add: configures_def write_defs Let_def case_prod_beta split: option.split sum.split)

lemma other_status:
  "(\<forall>l. op \<noteq> Ns_Retract l) \<Longrightarrow> (\<forall>l ex new. op \<noteq> Ns_PushStatus l ex new) \<Longrightarrow> (\<forall>l. op \<noteq> Ns_Purge l) \<Longrightarrow>
     mn_status_values (fst (mn_apply jeq s op)) = mn_status_values s"
  by (cases op) (simp_all add: write_defs mn_push_config_def push_config_write_def Let_def case_prod_beta split: option.split sum.split)

lemma status_appears:
  assumes "hm_get (mn_status_values (fst (mn_apply jeq s op))) k \<noteq> None"
  shows "hm_get (mn_status_values s) k \<noteq> None \<or> hm_get (mn_records s) k \<noteq> None"
proof (cases "(\<forall>l. op \<noteq> Ns_Retract l) \<and> (\<forall>l ex new. op \<noteq> Ns_PushStatus l ex new) \<and> (\<forall>l. op \<noteq> Ns_Purge l)")
  case True
  then show ?thesis
    using assms other_status [of op jeq s] by simp
next
  case False
  then show ?thesis
    using assms
    by (auto simp: mn_retract_def mn_purge_def mn_push_status_def push_status_write_def push_status_check_def check_cas_expectation_def
        mn_get_status_def hm_contains_def Let_def split: option.splits if_splits)
qed

lemma records_change_keeps:
  assumes "records_change op m m'" "keeps_values op" "\<forall>l. op \<noteq> Ns_Purge l" "hm_get m k \<noteq> None"
  shows "hm_get m' k \<noteq> None"
  using assms by (cases rule: records_change.cases) (auto simp: keeps_values_def)

lemma records_change_config:
  assumes "records_change op m m'" "keeps_values op" "\<not> configures op" "hm_get m' k = Some r'"
  shows "hm_get m k = None \<and> nr_default_context r' = None \<and> nr_config_id r' = None \<or> (\<exists>r. hm_get m k = Some r \<and> same_config r r')"
  using assms
  by (cases rule: records_change.cases) (auto simp: keeps_values_def new_place_def same_config_def split: if_splits)

lemma apply_values_inv:
  assumes "values_inv s" "keeps_values op"
  shows "values_inv (fst (mn_apply jeq s op))"
proof -
  let ?s = "fst (mn_apply jeq s op)"
  note ch = mn_apply_records [of op s jeq]
  consider (purge) l where "op = Ns_Purge l" | (config) l ex new where "op = Ns_PushConfig l ex new" |
    (other) "\<not> configures op" "\<forall>l. op \<noteq> Ns_Purge l"
    by (cases op) (auto simp: configures_def)
  then show ?thesis
  proof cases
    case purge
    then show ?thesis
      using assms(1) by (auto simp: values_inv_def mn_purge_def Let_def config_at_def)
  next
    case config
    have "hm_get (mn_records s) (mn_normalize l) \<noteq> None" if "push_config_check jeq l ex new s = None"
      using that assms(1)
      by (auto simp: push_config_check_def check_cas_expectation_def mn_get_config_def hm_contains_def values_inv_def Let_def split: option.splits if_splits)
    then show ?thesis
      using assms(1) config
      by (cases "push_config_check jeq l ex new s") (auto simp: values_inv_def mn_push_config_def push_config_write_def Let_def config_at_def split: option.splits)
  next
    case other
    have same: "mn_config_values ?s = mn_config_values s" "config_at ?s = config_at s"
      using other_config [OF other] by (simp_all add: config_at_def fun_eq_iff)
    have "config_synced (config_at s k) r'" if "hm_get (mn_records ?s) k = Some r'" for k r'
      using records_change_config [OF ch assms(2) other(1) that] assms(1)
      by (auto simp: values_inv_def config_at_def intro: sync_new sync_same)
    moreover have "hm_get (mn_config_values s) k = None \<and> hm_get (mn_status_values ?s) k = None" if "hm_get (mn_records ?s) k = None" for k
    proof -
      have "hm_get (mn_records s) k = None"
        using that records_change_keeps [OF ch assms(2) other(2)] by blast
      moreover have "hm_get (mn_config_values s) k = None" "hm_get (mn_status_values s) k = None"
        using assms(1) calculation by (simp_all add: values_inv_def)
      ultimately show ?thesis
        using status_appears [of jeq s op k] by blast
    qed
    ultimately show ?thesis
      by (simp add: values_inv_def same)
  qed
qed

lemma run_values_inv: "values_inv s \<Longrightarrow> \<forall>op\<in>set ops. keeps_values op \<Longrightarrow> values_inv (mn_run jeq s ops)"
  by (induction ops rule: rev_induct) (auto simp: fst_run_log_snoc intro: apply_values_inv)

text \<open>
  Values and records agree: without \<open>drop_branch\<close> and the test bootstrap, a ledger has a status and a
  config exactly if it has a record, and the record carries the default context and the config id of
  its config.
\<close>

theorem ns_values_synced:
  assumes "s = mn_run jeq MemoryNameService_new ops" "\<forall>op\<in>set ops. keeps_values op"
  shows "(mn_get_status s l = None \<longleftrightarrow> mn_lookup s l = None) \<and> (mn_get_config s l = None \<longleftrightarrow> mn_lookup s l = None) \<and>
    (\<forall>c r. mn_get_config s l = Some c \<longrightarrow> mn_lookup s l = Some r \<longrightarrow>
       nr_default_context r = Option.bind (cv_payload c) cf_default_context \<and> nr_config_id r = Option.bind (cv_payload c) cf_config_id)"
proof -
  have "values_inv (MemoryNameService_new :: 'a MemoryNameService)"
    by (simp add: values_inv_def MemoryNameService_new_def)
  from run_values_inv [OF this assms(2)] have v: "values_inv s"
    by (simp add: assms(1))
  have look: "mn_lookup s l = hm_get (mn_records s) (mn_normalize l)"
    unfolding assms(1) by (rule lookup_normalized [OF run_records_inv [OF new_records_inv]])
  show ?thesis
  proof (cases "hm_get (mn_records s) (mn_normalize l)")
    case None
    then have "hm_get (mn_config_values s) (mn_normalize l) = None" "hm_get (mn_status_values s) (mn_normalize l) = None"
      using v by (simp_all add: values_inv_def)
    with None show ?thesis
      by (simp add: look mn_get_status_def mn_get_config_def hm_contains_def)
  next
    case (Some r)
    then have "mn_get_config s l = Some (config_at s (mn_normalize l))" "mn_get_status s l \<noteq> None"
      by (simp_all add: mn_get_config_def mn_get_status_def config_at_def hm_contains_def Let_def split: option.split)
    moreover have "config_synced (config_at s (mn_normalize l)) r"
      using v Some by (simp add: values_inv_def)
    ultimately show ?thesis
      using Some by (simp add: look config_synced_def)
  qed
qed

theorem ns_values_synced_witness: "mn_get_config sample_ns ''movies'' \<noteq> None \<and> mn_get_status sample_ns ''films'' = None"
proof -
  have "\<forall>op\<in>set ns_sample_ops. keeps_values op"
    by (simp add: ns_sample_ops_def keeps_values_def)
  from ns_values_synced [OF sample_ns_def this] show ?thesis
    by (simp add: mn_lookup_def sample_ns_eq hm_get_def normalize_ledger_id_def split_ledger_id_def DEFAULT_BRANCH_def format_ledger_id_def)
qed

section \<open>Fast-forward under interference\<close>

text \<open>
  What \<open>fast_forward_commit\<close> relies on: a compare-and-set against the current value with a larger time
  succeeds, success installs the new value over an older one, and a conflict or an error changes
  nothing.
\<close>

locale ref_publisher =
  fixes get :: "'s \<Rightarrow> RefValue option"
    and cas :: "RefValue option \<Rightarrow> RefValue \<Rightarrow> 's \<Rightarrow> ('e + RefValue CasResult) \<times> 's"
  assumes cas_updated: "cas ex new s = (Inr Updated, s') \<Longrightarrow> get s' = Some new \<and> (\<forall>cur. get s = Some cur \<longrightarrow> rv_t cur < rv_t new)"
    and cas_conflict: "cas ex new s = (Inr (Conflict a), s') \<Longrightarrow> s' = s \<and> a = get s"
    and cas_error: "cas ex new s = (Inl e, s') \<Longrightarrow> s' = s \<and> get s = None"
    and cas_current: "(\<forall>cur. get s = Some cur \<longrightarrow> rv_t cur < rv_t new) \<Longrightarrow> fst (cas (get s) new s) \<noteq> Inr (Conflict a)"
begin

lemma ff_outcome:
  "fast_forward_commit get cas env new n i s = (r, s') \<Longrightarrow>
     (r = Inr Updated \<and> get s' = Some new) \<or> r = Inr (Conflict (get s')) \<or> (\<exists>e. r = Inl e \<and> get s' = None)"
proof (induction n arbitrary: i s)
  case (Suc n)
  then show ?case
    by (auto simp: Let_def split: if_splits prod.splits sum.splits CasResult.splits dest: cas_updated cas_conflict cas_error)
qed (auto simp: Let_def)

lemma ff_decides:
  assumes "fast_forward_commit get cas env new n i s = (r, s')" "j < n" "\<And>s. get (env (i + 2 * j + 1) s) = get s"
  shows "r = Inr Updated \<or> (\<exists>a. r = Inr (Conflict (Some a)) \<and> rv_t new \<le> rv_t a) \<or> (\<exists>e. r = Inl e)"
  using assms
proof (induction n arbitrary: i j s)
  case (Suc n)
  let ?s0 = "env i s" and ?s1 = "env (Suc i) (env i s)"
  show ?case
  proof (cases "\<exists>cur. get ?s0 = Some cur \<and> rv_t new \<le> rv_t cur")
    case True
    then show ?thesis
      using Suc.prems(1) by (auto simp: Let_def)
  next
    case behind: False
    obtain q s2 where c: "cas (get ?s0) new ?s1 = (q, s2)"
      by (cases "cas (get ?s0) new ?s1")
    consider (decided) "q = Inr Updated \<or> (\<exists>e. q = Inl e)" | (lost) a where "q = Inr (Conflict a)" "\<exists>b. a = Some b \<and> rv_t new \<le> rv_t b"
      | (retry) a where "q = Inr (Conflict a)" "\<not> (\<exists>b. a = Some b \<and> rv_t new \<le> rv_t b)"
      by (metis (no_types, opaque_lifting) CasResult.exhaust sum.exhaust)
    then show ?thesis
    proof cases
      case decided
      then show ?thesis
        using Suc.prems(1) behind c by (auto simp: Let_def split: if_splits option.splits)
    next
      case lost
      then show ?thesis
        using Suc.prems(1) behind c by (auto simp: Let_def split: if_splits option.splits)
    next
      case retry
      have "j \<noteq> 0"
      proof
        assume "j = 0"
        then have "get ?s1 = get ?s0"
          using Suc.prems(3) [of ?s0] by simp
        then show False
          using cas_current [of ?s1 new a] behind c retry(1) by (auto simp: not_le)
      qed
      then obtain j' where j: "j = Suc j'"
        by (cases j) auto
      have "fast_forward_commit get cas env new n (i + 2) s2 = (r, s')"
        using Suc.prems(1) behind c retry by (auto simp: Let_def split: if_splits option.splits)
      with Suc.IH [of "i + 2" s2 j'] Suc.prems(2,3) show ?thesis
        by (simp add: j)
    qed
  qed
qed simp

end

lemma ref_of_set_ref [simp]: "ref_of kind (set_ref kind new r) = new"
  by (cases kind) (simp_all add: ref_of_def set_ref_def)

lemma ref_values_match_refl [simp]: "ref_values_match v v"
  by (simp add: ref_values_match_def split: option.split)

interpretation memory_refs: ref_publisher "\<lambda>s. mn_get_ref s l CommitHead" "mn_compare_and_set_ref l CommitHead" for l
proof unfold_locales
  fix ex new and s s' :: "'a MemoryNameService" and a e
  show "mn_compare_and_set_ref l CommitHead ex new s = (Inr Updated, s') \<Longrightarrow>
      mn_get_ref s' l CommitHead = Some new \<and> (\<forall>cur. mn_get_ref s l CommitHead = Some cur \<longrightarrow> rv_t cur < rv_t new)"
    by (auto simp: mn_compare_and_set_ref_def mn_get_ref_def Let_def split: option.splits sum.splits if_splits)
  show "mn_compare_and_set_ref l CommitHead ex new s = (Inr (Conflict a), s') \<Longrightarrow> s' = s \<and> a = mn_get_ref s l CommitHead"
    by (auto simp: mn_compare_and_set_ref_def mn_get_ref_def Let_def split: option.splits sum.splits if_splits)
  show "mn_compare_and_set_ref l CommitHead ex new s = (Inl e, s') \<Longrightarrow> s' = s \<and> mn_get_ref s l CommitHead = None"
    by (auto simp: mn_compare_and_set_ref_def mn_get_ref_def Let_def split: option.splits sum.splits if_splits)
  show "\<forall>cur. mn_get_ref s l CommitHead = Some cur \<longrightarrow> rv_t cur < rv_t new \<Longrightarrow>
      fst (mn_compare_and_set_ref l CommitHead (mn_get_ref s l CommitHead) new s) \<noteq> Inr (Conflict a)"
    by (auto simp: mn_compare_and_set_ref_def mn_get_ref_def Let_def split: option.split sum.split)
qed

text \<open>
  C31. A fast-forward decides: whatever other clients do between its calls, it reports success only after
  the head became the new value, and a conflict with the head as it is; and if during one of its
  rounds nobody moves the head between the read and the compare-and-set, it is decided: the head was
  set, the head is not older than the new value, or the id is invalid.
\<close>

theorem fast_forward_decides:
  assumes "fast_forward_commit (\<lambda>s. mn_get_ref s l CommitHead) (mn_compare_and_set_ref l CommitHead) env new max_retries 0 s = (r, s')"
  shows "(r = Inr Updated \<longrightarrow> mn_get_ref s' l CommitHead = Some new) \<and> (\<forall>a. r = Inr (Conflict a) \<longrightarrow> a = mn_get_ref s' l CommitHead) \<and>
    ((\<exists>j < max_retries. \<forall>s. mn_get_ref (env (2 * j + 1) s) l CommitHead = mn_get_ref s l CommitHead) \<longrightarrow>
       r = Inr Updated \<or> (\<exists>a. r = Inr (Conflict (Some a)) \<and> rv_t new \<le> rv_t a) \<or> (\<exists>e. r = Inl e))"
  using memory_refs.ff_outcome [OF assms] memory_refs.ff_decides [OF assms] by (auto 0 4)

theorem fast_forward_decides_witness:
  "\<exists>s'. fast_forward_commit (\<lambda>s. mn_get_ref s ''movies'' CommitHead) (mn_compare_and_set_ref ''movies'' CommitHead) (\<lambda>_ s. s)
      \<lparr>rv_id = Some (ns_cid 2), rv_t = 2\<rparr> 3 0 sample_ns = (Inr Updated, s') \<and>
    mn_get_ref s' ''movies'' CommitHead = Some \<lparr>rv_id = Some (ns_cid 2), rv_t = 2\<rparr>"
proof -
  let ?new = "\<lparr>rv_id = Some (ns_cid 2), rv_t = 2\<rparr>"
  let ?ff = "fast_forward_commit (\<lambda>s. mn_get_ref s ''movies'' CommitHead) (mn_compare_and_set_ref ''movies'' CommitHead) (\<lambda>_ s. s) ?new 3 0 sample_ns"
  have "fst ?ff = Inr Updated"
    by (simp add: numeral_3_eq_3 mn_get_ref_def mn_compare_and_set_ref_def Let_def sample_ns_eq hm_get_def ref_of_def ns_main_def)
  then obtain s' where "?ff = (Inr Updated, s')"
    by (cases ?ff) auto
  with fast_forward_decides [OF this] show ?thesis
    by simp
qed

section \<open>Notifications\<close>

lemma fresh_refs: "fresh_record l = Inr r \<Longrightarrow> nr_commit_head_id r = None \<and> nr_index_head_id r = None \<and> nr_commit_t r = 0 \<and> nr_index_t r = 0 \<and> \<not> nr_retracted r"
  by (auto simp: fresh_record_def NsRecord_new_def split: sum.splits)

text \<open>A drop leaves the heads of the other records alone.\<close>

lemma drop_ref: "mn_get_ref (snd (mn_drop_branch d s)) k kind = Some v \<Longrightarrow> mn_get_ref s k kind = Some v"
  by (cases kind) (auto simp: mn_drop_branch_def mn_get_ref_def ref_of_def Let_def split: option.splits if_splits)

definition announces :: "'j ns_op \<Rightarrow> bool" where
  "announces op = (case op of Ns_CreateLedger _ \<Rightarrow> False | Ns_CreateBranch _ _ _ _ \<Rightarrow> False | Ns_ResetHead _ _ \<Rightarrow> False | _ \<Rightarrow> True)"

lemma head_notified:
  assumes "announces op" "mn_get_ref (fst (mn_apply jeq s op)) k kind = Some v" "mn_get_ref s k kind \<noteq> Some v" "rv_id v = Some cid"
  shows "\<exists>l. mn_normalize l = mn_normalize k \<and>
    (case kind of CommitHead \<Rightarrow> Event_LedgerCommitPublished l cid (rv_t v) | IndexHead \<Rightarrow> Event_LedgerIndexPublished l cid (rv_t v))
      \<in> set (notify_events op (snd (mn_apply jeq s op)))"
proof (cases op)
  case (Ns_DropBranch d)
  then show ?thesis
    using assms(2,3) drop_ref [of d s k kind v] by simp
next
  case (Ns_Init l)
  then show ?thesis
    using assms(2-4) by (cases kind)
      (auto simp: mn_init_def init_check_def init_write_def mn_get_ref_def ref_of_def Let_def dest: fresh_refs split: option.splits sum.splits if_splits)
next
  case (Ns_PublishCommit l t i)
  then show ?thesis
    using assms(2-4) by (cases kind)
      (auto simp: mn_publish_commit_def mn_get_ref_def ref_of_def notify_events_def reply_with_def Let_def dest: fresh_refs split: option.splits sum.splits if_splits)
next
  case (Ns_PublishIndex l t i)
  then show ?thesis
    using assms(2-4) by (cases kind)
      (auto simp: mn_publish_index_def publish_index_if_def mn_get_ref_def ref_of_def notify_events_def reply_with_def Let_def
         dest: fresh_refs split: option.splits sum.splits if_splits)
next
  case (Ns_PublishIndexAllowEqual l t i)
  then show ?thesis
    using assms(2-4) by (cases kind)
      (auto simp: mn_publish_index_allow_equal_def publish_index_if_def mn_get_ref_def ref_of_def notify_events_def reply_with_def Let_def
         dest: fresh_refs split: option.splits sum.splits if_splits)
next
  case (Ns_CompareAndSetRef l kd ex new)
  then show ?thesis
    using assms(2-4) by (cases kind; cases kd)
      (auto simp: mn_compare_and_set_ref_def mn_get_ref_def ref_of_def set_ref_def notify_events_def reply_with_def Let_def
         dest: fresh_refs split: option.splits sum.splits if_splits)
next
  case (Ns_PushConfig l ex new)
  then show ?thesis
    using assms(2-4) by (cases kind)
      (auto simp: mn_push_config_def push_config_write_def sync_config_def mn_get_ref_def ref_of_def Let_def split: option.splits if_splits)
next
  case (Ns_Retract l)
  then show ?thesis
    using assms(2-4) by (cases kind) (auto simp: mn_retract_def mn_get_ref_def ref_of_def Let_def split: option.splits if_splits)
next
  case (Ns_Purge l)
  then show ?thesis
    using assms(2-4) by (auto simp: mn_purge_def mn_get_ref_def Let_def split: if_splits)
qed (use assms in \<open>auto simp: announces_def mn_get_ref_def mn_push_status_def push_status_write_def mn_publish_graph_source_def
    mn_publish_graph_source_index_def mn_retract_graph_source_def Let_def split: option.splits if_splits\<close>)

lemma retraction_notified:
  assumes "announces op" "hm_get (mn_records s) (mn_normalize k) = Some r" "\<not> nr_retracted r"
    "\<forall>r'. hm_get (mn_records (fst (mn_apply jeq s op))) (mn_normalize k) = Some r' \<longrightarrow> nr_retracted r'"
  shows "\<exists>l. mn_normalize l = mn_normalize k \<and> Event_LedgerRetracted l \<in> set (notify_events op (snd (mn_apply jeq s op)))"
proof (cases op)
  case (Ns_DropBranch d)
  have "mn_normalize d = mn_normalize k \<and> (\<exists>n. fst (mn_drop_branch d s) = Inr n)"
    using assms(2-4) by (auto simp: Ns_DropBranch mn_drop_branch_def Let_def split: option.splits if_splits)
  then show ?thesis
    by (auto simp: Ns_DropBranch notify_events_def reply_with_def)
next
  case (Ns_Init l)
  then show ?thesis
    using assms(2-4) by (auto simp: mn_init_def init_check_def init_write_def hm_contains_def Let_def dest: fresh_refs split: option.splits sum.splits if_splits)
next
  case (Ns_PublishCommit l t i)
  then show ?thesis
    using assms(2-4) by (auto simp: mn_publish_commit_def Let_def split: option.splits sum.splits if_splits)
next
  case (Ns_PublishIndex l t i)
  then show ?thesis
    using assms(2-4) by (auto simp: mn_publish_index_def publish_index_if_def Let_def split: option.splits sum.splits if_splits)
next
  case (Ns_PublishIndexAllowEqual l t i)
  then show ?thesis
    using assms(2-4) by (auto simp: mn_publish_index_allow_equal_def publish_index_if_def Let_def split: option.splits sum.splits if_splits)
next
  case (Ns_CompareAndSetRef l kd ex new)
  then show ?thesis
    using assms(2-4) by (cases kd) (auto simp: mn_compare_and_set_ref_def set_ref_def Let_def split: option.splits sum.splits if_splits)
next
  case (Ns_PushConfig l ex new)
  then show ?thesis
    using assms(2-4) by (auto simp: mn_push_config_def push_config_write_def sync_config_def Let_def split: option.splits if_splits)
next
  case (Ns_Retract l)
  have "mn_normalize l = mn_normalize k"
  proof (rule ccontr)
    assume "mn_normalize l \<noteq> mn_normalize k"
    then have "hm_get (mn_records (snd (mn_retract l s))) (mn_normalize k) = hm_get (mn_records s) (mn_normalize k)"
      by (simp add: mn_retract_def Let_def split: option.split)
    with assms(2-4) show False
      by (simp add: Ns_Retract)
  qed
  moreover have "fst (mn_retract l s) = Inr ()"
    by (simp add: mn_retract_def Let_def split: option.split)
  ultimately show ?thesis
    by (auto simp: Ns_Retract notify_events_def reply_with_def)
next
  case (Ns_Purge l)
  then show ?thesis
    using assms(2-4) by (auto simp: mn_purge_def notify_events_def reply_with_def Let_def split: if_splits)
qed (use assms in \<open>auto simp: announces_def mn_push_status_def push_status_write_def mn_publish_graph_source_def
    mn_publish_graph_source_index_def mn_retract_graph_source_def Let_def split: option.splits if_splits\<close>)



end
