(* ===== verification/NsFindings.thy ===== *)
theory NsFindings
  imports NsProperties
begin

text \<open>
  Inputs on which the single-node nameservice departs from what its documentation promises.
\<close>

lemmas concrete_defs = sample_ns_eq hm_get_def hm_insert_def hm_remove_def hm_contains_def hm_empty_def ns_main_def ns_dev_def Let_def

definition ns_status :: "string \<Rightarrow> unit StatusValue" where
  "ns_status state = \<lparr>sv_v = 2, sv_payload = StatusPayload_new state\<rparr>"

text \<open>
  \<open>get_status\<close> promises \<open>None\<close> for a ledger without a record. A dropped branch keeps its status, and
  a branch created again under the name starts with it.
\<close>

theorem status_survives_drop:
  "case mn_drop_branch ''movies:dev'' (snd (mn_push_status (=) ''movies:dev'' (Some StatusValue_initial) (ns_status ''error'') sample_ns)) of (r, s) \<Rightarrow>
     r = Inr (Some 0) \<and> mn_lookup s ''movies:dev'' = None \<and> mn_get_status s ''movies:dev'' = Some (ns_status ''error'')"
  by (simp add: concrete_defs mn_push_status_def push_status_check_def push_status_write_def mn_get_status_def check_cas_expectation_def
      StatusPayload_eq_def HashMap_eq_def StatusValue_initial_def StatusPayload_new_def ns_status_def mn_drop_branch_def mn_lookup_def
      NsRecord_new_def normalize_ledger_id_def split_ledger_id_def)

text \<open>
  A push of a status reads under one lock and writes under another. Two pushes that expect the same
  value can both pass the check before either writes: both report success and the first is lost.
\<close>

theorem push_status_race:
  "push_status_check (=) ''movies'' (Some StatusValue_initial) (ns_status ''a'') sample_ns = None \<and>
   push_status_check (=) ''movies'' (Some StatusValue_initial) (ns_status ''b'') sample_ns = None \<and>
   mn_get_status (push_status_write ''movies'' (ns_status ''b'') (push_status_write ''movies'' (ns_status ''a'') sample_ns)) ''movies'' =
     Some (ns_status ''b'')"
  by (simp add: concrete_defs push_status_check_def push_status_write_def mn_get_status_def check_cas_expectation_def
      StatusPayload_eq_def HashMap_eq_def StatusValue_initial_def StatusPayload_new_def ns_status_def)

text \<open>
  \<open>init\<close> checks under one lock and inserts under another: a commit published in between is overwritten by
  the fresh record, although \<open>init\<close> only succeeds if no record exists.
\<close>

theorem init_race:
  "let s = MemoryNameService_new :: unit MemoryNameService; s1 = snd (mn_publish_commit ''movies'' 1 (ns_cid 1) s) in
   init_check ''movies'' s = None \<and> mn_get_ref s1 ''movies'' CommitHead = Some \<lparr>rv_id = Some (ns_cid 1), rv_t = 1\<rparr> \<and>
   mn_get_ref (snd (init_write ''movies'' s1)) ''movies'' CommitHead = Some \<lparr>rv_id = None, rv_t = 0\<rparr>"
  by (simp add: concrete_defs MemoryNameService_new_def mn_publish_commit_def init_check_def init_write_def mn_get_ref_def ref_of_def
      fresh_record_def split_ledger_id_def DEFAULT_BRANCH_def NsRecord_new_def)

text \<open>
  The decorator announces a commit head that was not advanced: the backend ignores a publish that is
  not newer, and the event goes out all the same. It carries the id as the caller wrote it, which a
  subscription to the canonical id does not match.
\<close>

theorem stale_publish_announced:
  "notifying_apply (=) sample_ns (Ns_PublishCommit ''movies'' 1 (ns_cid 9)) =
     (sample_ns, Ns_Done, [Event_LedgerCommitPublished ''movies'' (ns_cid 9) 1]) \<and>
   \<not> scope_matches (ResourceId ''movies:main'') ''movies''"
  by (simp add: concrete_defs notifying_apply_def mn_publish_commit_def reply_with_def notify_events_def)

text \<open>
  A branch with children can be purged, and its child count starts again at zero when the name is
  initialised: then the branch can be dropped under its child.
\<close>

theorem purge_strands_child:
  "let s = snd (mn_init ''movies'' (snd (mn_purge ''movies'' sample_ns))) in
   forks (mn_records s) ''movies:main'' = 1 \<and> fst (mn_drop_branch ''movies'' s) = Inr None"
  by (simp add: concrete_defs mn_purge_def mn_init_def init_check_def init_write_def fresh_record_def split_ledger_id_def DEFAULT_BRANCH_def
      NsRecord_new_def forks_def hm_sum_def hm_values_def parent_key_def mn_drop_branch_def)

end
