(* ===== verification/Spec2Isabelle.thy ===== *)
theory Spec2Isabelle
  imports RaftProperties RaftValues RaftOwnership RaftFsLimits RaftRestart CommitProperties NoveltyFindings NsFindings
begin

text \<open>
  A verification development for Fluree DB, a graph database with an immutable ledger, written in Rust
  (\<open>src/\<close>, a workspace of some forty crates).

  \<^bold>\<open>The program.\<close> A ledger is a chain of commits. A transaction is staged against a branch of a ledger, turned into a
  commit blob, stored under its content id, and published by moving the head of the branch. In a cluster the heads, the
  branches and a queue of submitted transactions are a replicated state machine: openraft stores and replicates a log of
  commands, every node applies them to its copy of the nameservice state, workers on the nodes consume the queue, and
  clients wait for the outcome of their entry. A node answers queries from an index on disk and, for the commits the index
  does not hold yet, from an overlay in memory, the novelty. The development covers four subsystems in depth: the consensus
  layer (\<open>fluree-db-consensus/src/raft\<close>) from the command handlers down to the files on disk, the commit codec
  (\<open>fluree-db-core/src/commit/codec\<close>) from varints up to whole signed blobs, the novelty overlay
  (\<open>fluree-db-novelty/src\<close>) with the order of flakes it rests on (\<open>fluree-db-core/src\<close>), and the nameservice of a single
  node (\<open>fluree-db-nameservice/src\<close>). The codec and the novelty share the data of flakes, which a commit blob carries and a
  commit adds to the novelty; the replicated and the single-node nameservice share refs, graph sources and events.

  \<^bold>\<open>Theories and sources.\<close>

  \<^item> \<open>Prelude\<close>: hash maps as association lists with distinct keys (the locale of their laws and its interpretation), lists,
    options, words; \<open>Utf8\<close>: what \<open>std::str::from_utf8\<close> accepts.
  \<^item> \<open>LedgerId\<close>: \<open>core/src/ledger_id.rs\<close>, identifiers of ledgers, branches and time-travel suffixes.
  \<^item> \<open>RaftTypes\<close>, \<open>RaftLifecycle\<close>, \<open>RaftRefs\<close>, \<open>RaftQueue\<close>, \<open>RaftMachine\<close>: \<open>raft/state_machine.rs\<close> and the apply loop of
    \<open>raft/state_machine_adapter.rs\<close>. The state is the record \<open>NameServiceState\<close>, a command handler is a function from
    the state (and the log index) to the new state, a \<open>Response\<close> and the envelopes to release; \<open>apply_command\<close>
    dispatches, \<open>adapter_step\<close> applies a log entry with its events and waiter resolutions.
  \<^item> \<open>RaftEffects\<close>: how each command changes each field; \<open>RaftInvariants\<close>, \<open>RaftHeads\<close>, \<open>RaftOnce\<close>: the invariants and
    safety properties along the traces \<open>raft_trace\<close> of a replica; \<open>RaftReplica\<close>: replicas with differently ordered maps
    agree; \<open>RaftProperties\<close>, \<open>RaftValues\<close>: the properties clients and operators rely on; \<open>RaftOwnership\<close>:
    \<open>raft/ownership.rs\<close> and \<open>desired_owners\<close> of \<open>commit_worker.rs\<close>.
  \<^item> \<open>RaftWaiter\<close>: \<open>raft/waiter.rs\<close> and \<open>raft/staged_receipt.rs\<close>, the way back to the waiting client.
  \<^item> \<open>RaftStorage\<close>: \<open>raft/storage.rs\<close>, \<open>raft/storage/memory.rs\<close> and \<open>raft/log_adapter.rs\<close>. The trait is a record of
    operations and its contract the locale \<open>log_store\<close>, interpreted on the in-memory store and, in \<open>RaftFsStore\<close>, on the
    filesystem store.
  \<^item> \<open>RaftDisk\<close>, \<open>RaftFsLog\<close>, \<open>RaftFsStore\<close>, \<open>RaftFsCrash\<close>, \<open>RaftFsLimits\<close>: \<open>raft/storage/fs.rs\<close> over a disk whose calls
    may fail (an oracle decides) and whose directory updates a crash may lose until they are synced.
  \<^item> \<open>RaftSnapshot\<close>, \<open>RaftRestart\<close>: the snapshot stores and their contract, and building, installing, serving and restoring
    snapshots.
  \<^item> \<open>CommitVarint\<close>, \<open>CommitReaders\<close>, \<open>CommitDict\<close>, \<open>CommitOps\<close>, \<open>CommitFormat\<close>, \<open>CommitEnvelope\<close>, \<open>CommitBlob\<close>: the files
    \<open>varint.rs\<close>, \<open>string_dict.rs\<close>, \<open>op_codec.rs\<close>, \<open>raw_reader.rs\<close>, \<open>format.rs\<close>, \<open>envelope.rs\<close>, \<open>writer.rs\<close> and \<open>reader.rs\<close>
    of the commit codec. A writer extends a buffer; a reader takes the buffer and a position and gives a value and the next
    position, an error, or a panic (\<open>Abort\<close>).
  \<^item> \<open>CommitRoundTrip\<close>, \<open>CommitEnvelopeRoundTrip\<close>, \<open>CommitBlobRoundTrip\<close>, \<open>CommitProperties\<close>: the round trips, built from
    the relation \<open>reads p bs x\<close> (the bytes \<open>bs\<close> are read as \<open>x\<close> wherever they stand), and the behaviour on arbitrary bytes.
  \<^item> \<open>FlakeOrder\<close>, \<open>FlakeEquality\<close>: \<open>comparator.rs\<close>, \<open>value.rs\<close>, \<open>flake.rs\<close>, \<open>sid.rs\<close> and \<open>temporal.rs\<close> of \<open>core\<close>, the orders of
    values and of flakes in the four indexes. The locale \<open>keyed_order\<close> says that a comparator is the order of a key; it is
    interpreted on every comparator, and all facts about sorting, searching and merging are its lemmas.
  \<^item> \<open>NoveltySegment\<close>, \<open>NoveltyMerge\<close>, \<open>Novelty\<close>: \<open>novelty/src/lib.rs\<close>. A segment is a list of flakes with four permutations
    of their positions; the novelty is a record of the segments of every graph, the fact state and the attachments. An
    operation takes the novelty and the process-wide counters \<open>globals\<close> and returns both; a panic is \<open>None\<close>.
  \<^item> \<open>NoveltyFacts\<close>: \<open>fact_state.rs\<close>, the current operation of every fact; \<open>NoveltyAttachments\<close>, \<open>NoveltyAnnotations\<close>:
    \<open>attachments.rs\<close> and \<open>core/src/edge.rs\<close>, edge annotations written as system facts and read as of a time.
  \<^item> \<open>NoveltyReads\<close>, \<open>NoveltyInvariants\<close>, \<open>NoveltyCompact\<close>, \<open>NoveltyClear\<close>, \<open>NoveltyBulk\<close>, \<open>NoveltyChain\<close>, \<open>NoveltyDrain\<close>,
    \<open>NoveltyLimits\<close>: the merge returns the sorted content of a range; the invariant \<open>novelty_wf\<close> and its preservation by
    commits, compaction, trimming and bulk loading; the bulk load against the chain of commits; compaction to the end; when
    a commit succeeds. \<open>NoveltySample\<close> instantiates the parameters with concrete functions.
  \<^item> \<open>NoveltyProperties\<close>: the properties the query layer relies on; \<open>NoveltyFindings\<close>: concrete inputs on which the code departs
    from its documentation.
  \<^item> \<open>NsMemory\<close>: \<open>nameservice/src/memory.rs\<close> with the records, values and the fast-forward loop of \<open>lib.rs\<close> and the events of
    \<open>notifying.rs\<close>. The state is the record of the four maps; an operation is a function to a result and the new state, and
    the three that change locks midway are a check and a write. \<open>NsInvariants\<close>: what a write does to the records, as the
    relation \<open>records_change\<close>, and its invariants; \<open>NsProperties\<close>: the properties, with the locale \<open>ref_publisher\<close> that the
    fast-forward loop relies on; \<open>NsFindings\<close>: lost updates between the locks and other departures from the documentation.

  \<^bold>\<open>What is shown.\<close> Replication: deterministic application, exactly-once application of keyed submissions, conservation of
  envelopes, monotone heads, frozen retracted branches, consistent registry, lineage of branches, unique queue ids, queue
  caps, eviction order, compare-and-set registers, worker ownership, waking of clients in either order. Storage: both log
  stores refine an abstract log; every append, truncation, purge, vote and snapshot write is safe against failing I/O and
  crashes; a restarted or newly joined node continues as if nothing had happened. Codec: a written commit, compressed or not
  and signed or not, reads back through both readers; decoding an op stream never panics and never leaves the buffer.
  Novelty: a commit adds the facts that are not already asserted and nothing else, or fails and changes nothing; every range
  read returns exactly the flakes of the range in index order; the fact state does not depend on the order of recording;
  compaction and trimming keep what they must and the backlog of segments drains; the bulk load equals the chain of commits;
  the index comparators are total preorders; annotations read back as of their time.
  Nameservice: heads move forward, child counts are exact, a fast-forward decides under interference, every change of a head is
  announced.

  \<^bold>\<open>Modelling choices and bounds.\<close> No definition uses fuel: every loop is structural or has a termination proof. A \<open>u64\<close>
  of the state machine is a natural number with the wrap-around or saturation written out where the code has it; the codec
  uses words of their width, and \<open>usize\<close> is a natural number below \<open>2 ^ 64\<close>. Arithmetic that overflows is that of a release
  build. A hash map iterates in the order of its list, which is arbitrary: the replica theorem quantifies over it. Error
  messages are reduced to constructors and fixed texts. A double is its 64 bits and compares as the rational number they
  denote. The parallel and unstable sorts of the novelty are a stable sort, so theorems about reads fix the multiset and the
  order of the index, not the order of flakes that compare as equal. A segment holds at most \<open>2 ^ 24\<close> flakes and a graph
  \<open>2 ^ 24\<close> segments, the widths of a flake id; the code refuses or splits beyond that, and so do the definitions.

  \<^bold>\<open>Parameters and hypotheses.\<close> Code outside \<open>src/\<close> is an argument: the equality of JSON values, xxHash64, the postcard encodings of log entries, votes,
  states and memberships (assumed to decode what they encoded), the \<open>cid\<close> crate, zstd, hashing and signing, the parsers of
  textual values. Traces assume that submissions are scoped to their key the way \<open>queued_transactor.rs\<close> builds them
  (\<open>scoped\<close>), that log entries arrive in the contiguous order openraft guarantees, and, for lineage, that no reset is to the
  unborn state. Codec theorems assume what Rust's types give (UTF-8 strings, lengths within memory) and blobs below 4 GiB,
  since the format stores 32-bit lengths. The values of the \<open>num-bigint\<close>, \<open>bigdecimal\<close> and \<open>chrono\<close> crates are known by the
  numbers they compare and a geo point by its packed bits, which round doubles (the record \<open>value_lib\<close>; \<open>decimal_exact\<close> says that a finite double converts to a decimal exactly), and
  \<open>imbl::OrdMap\<close> by the laws of an ordered map (\<open>novelty_lib\<close>, \<open>ordmap_laws\<close>). Novelty theorems are about flakes without NaN
  and infinite doubles, for which the order of the code is one; \<open>NoveltyFindings\<close> shows what happens with them.

  \<^bold>\<open>Not modelled.\<close> RPC, HTTP, timers and task orchestration around the state machine (effects on the network and on the
  openraft engine); the reader of version 3 blobs; the nameservice backends over files and object storage, which
  serialise the records the in-memory backend keeps; the statistics merged with the novelty and the flakes
  that describe a commit (\<open>runtime_stats.rs\<close>, \<open>commit_flakes.rs\<close>, \<open>delta.rs\<close>); hashing and display of values; the query engine, query languages, indexes and caches (streaming I/O over
  binary files); transactions, policy, shapes and reasoning, which run on top of query results; clients of cloud services;
  wrappers of cryptographic libraries. The components of the manifest list them with their reasons.
\<close>

end
